(* ===== verification/Prelude.thy ===== *)
theory Prelude
  imports Main "HOL-Library.AList" "HOL-Library.Char_ord" "HOL-Library.List_Lexorder"
begin

text \<open>
  Shared vocabulary of the development.

  \<^item> \<open>exn\<close>: the Python exceptions the modelled code raises; a fallible operation returns
    \<open>exn + 'a\<close>, with \<open>Inl\<close> for the exception.
  \<^item> \<open>pydict\<close>: a Python dict as an association list in insertion order. \<open>dset\<close> overwrites in
    place or appends, \<open>dpop\<close> removes, \<open>dor\<close> is the operator \<open>|\<close>, \<open>dsetdefault\<close> keeps an
    existing entry. Iteration order is list order, as Python guarantees.
  \<^item> \<open>pyval\<close>: the JSON-like values that flow through messages, configurations and cursors.
  \<^item> decimal conversion \<open>str(n)\<close> and \<open>int(s)\<close> with their round trip.

  Text is a \<open>string\<close> (a list of characters); comparison is lexicographic on code points.
  Instants and durations are integers (ticks of the clock the code reads).
\<close>

named_theorems dict_simps \<open>lookup equations of the dict operations\<close>
named_theorems wf_intros \<open>well-formedness preservation rules\<close>

section \<open>Exceptions\<close>

datatype exn =
    ValueError string
  | KeyError string
  | TypeError string
  | RuntimeError string
  | NotImplementedError string
  | PlainException string
  | ResourceUnavailable
  | MaxRetriesError
  | TopicClosedError
  | MissingServiceError
  | ZeroDivisionError

type_synonym 'a result = "exn + 'a"

type_synonym time = int

fun rbind :: "'e + 'a \<Rightarrow> ('a \<Rightarrow> 'e + 'b) \<Rightarrow> 'e + 'b" where
  "rbind (Inl e) f = Inl e"
| "rbind (Inr x) f = f x"

lemma rbind_Inr_iff: "rbind r f = Inr y \<longleftrightarrow> (\<exists>x. r = Inr x \<and> f x = Inr y)"
  by (cases r) auto

lemma rbind_Inl_iff: "rbind r f = Inl e \<longleftrightarrow> r = Inl e \<or> (\<exists>x. r = Inr x \<and> f x = Inl e)"
  by (cases r) auto

text \<open>A Python list comprehension whose element expression may raise.\<close>

fun mapM :: "('a \<Rightarrow> 'e + 'b) \<Rightarrow> 'a list \<Rightarrow> 'e + 'b list" where
  "mapM f [] = Inr []"
| "mapM f (x # xs) = rbind (f x) (\<lambda>y. rbind (mapM f xs) (\<lambda>ys. Inr (y # ys)))"

lemma mapM_length: "mapM f xs = Inr ys \<Longrightarrow> length ys = length xs"
  by (induction xs arbitrary: ys) (auto simp: rbind_Inr_iff)

lemma mapM_Inr_iff: "mapM f xs = Inr ys \<longleftrightarrow> list_all2 (\<lambda>x y. f x = Inr y) xs ys"
  by (induction xs arbitrary: ys) (auto simp: rbind_Inr_iff list_all2_Cons1)

lemma mapM_map: "(\<And>x. x \<in> set xs \<Longrightarrow> f x = Inr (g x)) \<Longrightarrow> mapM f xs = Inr (map g xs)"
  by (induction xs) simp_all

lemma mapM_comp: "mapM f (map g xs) = mapM (\<lambda>x. f (g x)) xs"
  by (induction xs) simp_all

section \<open>Dicts\<close>

type_synonym ('k, 'v) pydict = "('k \<times> 'v) list"

abbreviation dget :: "('k, 'v) pydict \<Rightarrow> 'k \<Rightarrow> 'v option" where
  "dget \<equiv> map_of"

abbreviation dkeys :: "('k, 'v) pydict \<Rightarrow> 'k list" where
  "dkeys d \<equiv> map fst d"

abbreviation dvalues :: "('k, 'v) pydict \<Rightarrow> 'v list" where
  "dvalues d \<equiv> map snd d"

definition wfd :: "('k, 'v) pydict \<Rightarrow> bool" where
  "wfd d \<longleftrightarrow> distinct (dkeys d)"

definition dset :: "'k \<Rightarrow> 'v \<Rightarrow> ('k, 'v) pydict \<Rightarrow> ('k, 'v) pydict" where
  "dset k v d = AList.update k v d"

definition dpop :: "'k \<Rightarrow> ('k, 'v) pydict \<Rightarrow> ('k, 'v) pydict" where
  "dpop k d = AList.delete k d"

definition dhas :: "'k \<Rightarrow> ('k, 'v) pydict \<Rightarrow> bool" where
  "dhas k d \<longleftrightarrow> k \<in> set (dkeys d)"

definition dget_or :: "('k, 'v) pydict \<Rightarrow> 'k \<Rightarrow> 'v \<Rightarrow> 'v" where
  "dget_or d k x = (case dget d k of None \<Rightarrow> x | Some v \<Rightarrow> v)"

definition dsetdefault :: "'k \<Rightarrow> 'v \<Rightarrow> ('k, 'v) pydict \<Rightarrow> ('k, 'v) pydict" where
  "dsetdefault k v d = (if dhas k d then d else dset k v d)"

definition dor :: "('k, 'v) pydict \<Rightarrow> ('k, 'v) pydict \<Rightarrow> ('k, 'v) pydict" where
  "dor a b = fold (\<lambda>(k, v). dset k v) b a"

lemma dget_dset [simp, dict_simps]: "dget (dset k v d) = (dget d)(k \<mapsto> v)"
  by (simp add: dset_def AList.update_conv')

lemma dget_dpop [simp, dict_simps]: "dget (dpop k d) = (dget d)(k := None)"
  by (simp add: dpop_def AList.delete_conv')

lemma dhas_iff_dget: "dhas k d \<longleftrightarrow> dget d k \<noteq> None"
  by (auto simp: dhas_def map_of_eq_None_iff)

lemma dhas_code [simp]: "dhas k [] = False" "dhas k ((k', v) # d) = (k = k' \<or> dhas k d)"
  by (auto simp: dhas_def)

lemma dget_None_iff: "dget d k = None \<longleftrightarrow> k \<notin> set (dkeys d)"
  by (induction d) auto

lemma dkeys_dset:
  "dkeys (dset k v d) = (if k \<in> set (dkeys d) then dkeys d else dkeys d @ [k])"
  by (simp add: dset_def AList.update_keys)

lemma set_dkeys_dset: "set (dkeys (dset k v d)) = insert k (set (dkeys d))"
  by (auto simp: dkeys_dset)

lemma fst_set_dset [simp, dict_simps]: "fst ` set (dset k v d) = insert k (fst ` set d)"
  using set_dkeys_dset [of k v d] by simp

lemma dkeys_dpop: "dkeys (dpop k d) = removeAll k (dkeys d)"
  by (simp add: dpop_def AList.delete_keys)

lemma fst_set_dpop [simp, dict_simps]: "fst ` set (dpop k d) = fst ` set d - {k}"
  using arg_cong [OF dkeys_dpop, of set k d] by simp

lemma wfd_Nil [simp, wf_intros]: "wfd []"
  by (simp add: wfd_def)

lemma wfd_dset [simp, wf_intros]: "wfd d \<Longrightarrow> wfd (dset k v d)"
  by (simp add: wfd_def dkeys_dset)

lemma wfd_dpop [simp, wf_intros]: "wfd d \<Longrightarrow> wfd (dpop k d)"
  by (simp add: wfd_def dkeys_dpop distinct_removeAll)

lemma wfd_dsetdefault [simp, wf_intros]: "wfd d \<Longrightarrow> wfd (dsetdefault k v d)"
  by (simp add: dsetdefault_def)

lemma dget_dsetdefault [simp, dict_simps]:
  "dget (dsetdefault k v d) = (if dget d k = None then (dget d)(k \<mapsto> v) else dget d)"
  by (auto simp: dsetdefault_def dhas_iff_dget)

lemma dset_new: "k \<notin> set (dkeys d) \<Longrightarrow> dset k v d = d @ [(k, v)]"
  unfolding dset_def by (induction d) auto

lemma dor_Nil [simp]: "dor a [] = a"
  by (simp add: dor_def)

lemma dor_Cons: "dor a ((k, v) # b) = dor (dset k v a) b"
  by (simp add: dor_def)

lemma wfd_dor [simp, wf_intros]: "wfd a \<Longrightarrow> wfd (dor a b)"
  by (induction b arbitrary: a) (auto simp: dor_Cons)

lemma dget_dor: "wfd b \<Longrightarrow> dget (dor a b) = dget a ++ dget b"
proof (induction b arbitrary: a)
  case Nil
  then show ?case by simp
next
  case (Cons p b)
  obtain k v where p: "p = (k, v)" by (cases p)
  with Cons.prems have "wfd b" and nk: "dget b k = None"
    by (auto simp: wfd_def dget_None_iff)
  with Cons.IH have "dget (dor (dset k v a) b) = dget (dset k v a) ++ dget b" by blast
  then show ?case using nk
    by (auto simp: p dor_Cons map_add_def fun_eq_iff split: option.splits)
qed

lemma dget_dor_rev: "dget (dor a b) = dget a ++ map_of (rev b)"
proof (induction b arbitrary: a)
  case (Cons p b)
  show ?case
    by (cases p) (auto simp: dor_Cons Cons.IH map_add_def fun_eq_iff split: option.splits)
qed simp

lemma map_of_unique:
  assumes "(k, v) \<in> set d" and "\<And>v'. (k, v') \<in> set d \<Longrightarrow> v' = v"
  shows "map_of d k = Some v"
  using assms by (metis map_of_SomeD not_None_eq weak_map_of_SomeI)

lemma set_dkeys_dor: "set (dkeys (dor a b)) = set (dkeys a) \<union> set (dkeys b)"
proof (induction b arbitrary: a)
  case (Cons p b)
  then show ?case by (cases p) (simp add: dor_Cons)
qed simp

lemma dget_in_set: "dget d k = Some v \<Longrightarrow> (k, v) \<in> set d"
  by (rule map_of_SomeD)

lemma wfd_dget_iff: "wfd d \<Longrightarrow> dget d k = Some v \<longleftrightarrow> (k, v) \<in> set d"
  by (simp add: wfd_def)

lemma dget_filter:
  "dget (filter (\<lambda>(k, v). P k) d) k = (if P k then dget d k else None)"
  by (induction d) auto

lemma wfd_filter [simp, wf_intros]: "wfd d \<Longrightarrow> wfd (filter P d)"
  unfolding wfd_def by (induction d) auto

lemma dget_map_pair:
  "dget (map (\<lambda>x. (f x, g x)) xs) k = map_option g (find (\<lambda>x. f x = k) xs)"
  by (induction xs) auto

section \<open>Values\<close>

datatype pyval =
    PNone
  | PBool bool
  | PInt int
  | PStr string
  | PList "pyval list"
  | PDict "(string \<times> pyval) list"

text \<open>\<open>bool(v)\<close>: what an \<open>if v:\<close> of the source tests.\<close>

fun truthy :: "pyval \<Rightarrow> bool" where
  "truthy PNone = False"
| "truthy (PBool b) = b"
| "truthy (PInt i) = (i \<noteq> 0)"
| "truthy (PStr s) = (s \<noteq> [])"
| "truthy (PList xs) = (xs \<noteq> [])"
| "truthy (PDict d) = (d \<noteq> [])"

text \<open>A value is well formed when every dict in it has distinct keys.\<close>

fun wfp :: "pyval \<Rightarrow> bool" where
  "wfp (PList xs) = (\<forall>x \<in> set xs. wfp x)"
| "wfp (PDict d) = (distinct (map fst d) \<and> (\<forall>p \<in> set d. wfp (snd p)))"
| "wfp _ = True"

text \<open>An optional string that an \<open>if s:\<close> of the source tests (\<open>None\<close> and \<open>''''\<close> are false).\<close>

fun struthy :: "string option \<Rightarrow> bool" where
  "struthy None = False"
| "struthy (Some s) = (s \<noteq> [])"

lemma struthy_iff: "struthy x \<longleftrightarrow> (\<exists>s. x = Some s \<and> s \<noteq> [])"
  by (cases x) auto

section \<open>Decimal conversion\<close>

definition digit_char :: "nat \<Rightarrow> char" where
  "digit_char n = char_of (48 + n)"

definition char_digit :: "char \<Rightarrow> nat" where
  "char_digit c = of_char c - 48"

definition is_digit :: "char \<Rightarrow> bool" where
  "is_digit c \<longleftrightarrow> 48 \<le> (of_char c :: nat) \<and> (of_char c :: nat) \<le> 57"

fun nat_str :: "nat \<Rightarrow> string" where
  "nat_str n = (if n < 10 then [digit_char n] else nat_str (n div 10) @ [digit_char (n mod 10)])"

declare nat_str.simps [simp del]

definition int_str :: "int \<Rightarrow> string" where
  "int_str i = (if i < 0 then CHR ''-'' # nat_str (nat (- i)) else nat_str (nat i))"

definition digits_val :: "string \<Rightarrow> nat" where
  "digits_val ds = foldl (\<lambda>acc c. acc * 10 + char_digit c) 0 ds"

text \<open>
  \<open>int(s)\<close> on the texts this program converts: an optional minus sign and decimal digits.
  Any other text is \<open>None\<close> (Python raises, or accepts spaces and underscores, which no
  producer in this program writes).
\<close>

fun parse_int :: "string \<Rightarrow> int option" where
  "parse_int [] = None"
| "parse_int (c # cs) =
     (if c = CHR ''-''
      then (if cs \<noteq> [] \<and> list_all is_digit cs then Some (- int (digits_val cs)) else None)
      else if list_all is_digit (c # cs) then Some (int (digits_val (c # cs))) else None)"

lemma of_digit_char: "n < 10 \<Longrightarrow> (of_char (digit_char n) :: nat) = 48 + n"
  by (simp add: digit_char_def)

lemma is_digit_digit_char [simp]: "n < 10 \<Longrightarrow> is_digit (digit_char n)"
  by (simp add: is_digit_def of_digit_char)

lemma char_digit_digit_char [simp]: "n < 10 \<Longrightarrow> char_digit (digit_char n) = n"
  by (simp add: char_digit_def of_digit_char)

lemma nat_str_digits: "list_all is_digit (nat_str n)"
proof (induction n rule: nat_str.induct)
  case (1 n)
  then show ?case by (cases "n < 10") (simp_all add: nat_str.simps [of n])
qed

lemma nat_str_nonempty [simp]: "nat_str n \<noteq> []"
  by (simp add: nat_str.simps [of n])

lemma digits_val_append [simp]: "digits_val (ds @ [c]) = digits_val ds * 10 + char_digit c"
  by (simp add: digits_val_def)

lemma digits_val_nat_str [simp]: "digits_val (nat_str n) = n"
proof (induction n rule: nat_str.induct)
  case (1 n)
  show ?case
  proof (cases "n < 10")
    case True
    then show ?thesis by (simp add: nat_str.simps [of n] digits_val_def)
  next
    case False
    with 1 show ?thesis by (simp add: nat_str.simps [of n])
  qed
qed

lemma hd_nat_str_digit: "is_digit (hd (nat_str n))"
  using nat_str_digits [of n] by (cases "nat_str n") auto

lemma minus_not_digit [simp]: "\<not> is_digit (CHR ''-'')"
  by (simp add: is_digit_def)

lemma parse_nat_str: "parse_int (nat_str n) = Some (int n)"
proof (cases "nat_str n")
  case (Cons c cs)
  have d: "list_all is_digit (c # cs)" and v: "digits_val (c # cs) = n"
    using nat_str_digits [of n] digits_val_nat_str [of n] by (simp_all add: Cons)
  then have "c \<noteq> CHR ''-''" by auto
  with d v show ?thesis by (simp add: Cons)
qed simp

lemma parse_int_str [simp]: "parse_int (int_str i) = Some i"
  using parse_nat_str [of "nat i"] nat_str_digits [of "nat (- i)"]
  by (simp add: int_str_def)

lemma int_str_inj: "int_str i = int_str j \<longleftrightarrow> i = j"
  by (metis parse_int_str option.inject)

lemma nat_str_inj: "nat_str i = nat_str j \<longleftrightarrow> i = j"
  by (metis digits_val_nat_str)

section \<open>Lists\<close>

text \<open>Python's \<open>xs.remove(x)\<close> without the error: the first occurrence goes.\<close>

lemma set_remove1_distinct: "distinct xs \<Longrightarrow> set (remove1 x xs) = set xs - {x}"
  by simp

lemma map_fst_zip_map [simp]: "map fst (map (\<lambda>x. (f x, g x)) xs) = map f xs"
  by simp

lemma takeWhile_dropWhile_split: "xs = takeWhile P xs @ dropWhile P xs"
  by simp

lemma distinct_takeWhile_dropWhile:
  "distinct xs \<Longrightarrow> set (takeWhile P xs) \<inter> set (dropWhile P xs) = {}"
  by (metis distinct_append takeWhile_dropWhile_id)

section \<open>Joining strings\<close>

text \<open>\<open>sep.join(xs)\<close>.\<close>

fun join_with :: "string \<Rightarrow> string list \<Rightarrow> string" where
  "join_with sep [] = []"
| "join_with sep [x] = x"
| "join_with sep (x # y # xs) = x @ sep @ join_with sep (y # xs)"

end
