(* ===== verification/Lru.thy ===== *)
theory Lru
  imports Prelude
begin

text \<open>
  \<open>utils/lru.py\<close>: \<open>LRUDefaultDict\<close>, an \<open>OrderedDict\<close> that ejects its least recently
  used entry. The ordered dict is the association list, oldest entry first;
  \<open>default_factory\<close> is an optional value (the one factory of the program,
  \<open>lambda: 0\<close>, is constant). \<open>RabbitMQTopic\<close> counts delivery attempts in one.

  The lemmas show the size bound, that a lookup after an insertion finds the value, that
  the entry read or written last is never the one ejected, and the refinement to the
  abstract policy: the keys present are the last \<open>cache_len\<close> distinct keys used.
\<close>

record ('k, 'v) lru =
  cache_len :: int
  default_factory :: "'v option"
  lru_data :: "('k, 'v) pydict"

definition lru_init :: "int \<Rightarrow> 'v option \<Rightarrow> ('k, 'v) lru result" where
  "lru_init n f =
     (if n \<le> 0 then Inl (ValueError ''cache_len must be greater than 0'')
      else Inr \<lparr>cache_len = n, default_factory = f, lru_data = []\<rparr>)"

text \<open>\<open>move_to_end(key)\<close> of a key that is present.\<close>

definition move_to_end :: "'k \<Rightarrow> ('k, 'v) pydict \<Rightarrow> ('k, 'v) pydict" where
  "move_to_end k d = (case dget d k of None \<Rightarrow> d | Some v \<Rightarrow> dpop k d @ [(k, v)])"

text \<open>The loop \<open>while len(self) > self.cache_len\<close> that deletes the first key.\<close>

fun eject :: "int \<Rightarrow> ('k, 'v) pydict \<Rightarrow> ('k, 'v) pydict" where
  "eject n [] = []"
| "eject n (p # d) = (if int (length (p # d)) > n then eject n d else p # d)"

definition lru_setitem :: "'k \<Rightarrow> 'v \<Rightarrow> ('k, 'v) lru \<Rightarrow> ('k, 'v) lru" where
  "lru_setitem k v c =
     c\<lparr>lru_data := eject (cache_len c) (move_to_end k (dset k v (lru_data c)))\<rparr>"

definition lru_getitem :: "'k \<Rightarrow> ('k, 'v) lru \<Rightarrow> ('v \<times> ('k, 'v) lru) result" where
  "lru_getitem k c =
     (case dget (lru_data c) k of
        Some v \<Rightarrow> Inr (v, c\<lparr>lru_data := move_to_end k (lru_data c)\<rparr>)
      | None \<Rightarrow>
          (case default_factory c of
             None \<Rightarrow> Inl (KeyError [])
           | Some v \<Rightarrow>
               let c' = lru_setitem k v c
               in Inr (v, c'\<lparr>lru_data := move_to_end k (lru_data c')\<rparr>)))"

text \<open>\<open>dict.get(key, default)\<close> and \<open>pop(key, None)\<close>, which \<open>OrderedDict\<close> inherits.\<close>

definition lru_get :: "'k \<Rightarrow> 'v \<Rightarrow> ('k, 'v) lru \<Rightarrow> 'v" where
  "lru_get k x c = dget_or (lru_data c) k x"

definition lru_pop :: "'k \<Rightarrow> ('k, 'v) lru \<Rightarrow> ('k, 'v) lru" where
  "lru_pop k c = c\<lparr>lru_data := dpop k (lru_data c)\<rparr>"

definition lru_inv :: "('k, 'v) lru \<Rightarrow> bool" where
  "lru_inv c \<longleftrightarrow> 0 < cache_len c \<and> wfd (lru_data c) \<and> int (length (lru_data c)) \<le> cache_len c"

lemma eject_drop: "0 \<le> n \<Longrightarrow> eject n d = drop (length d - nat n) d"
proof (induction n d rule: eject.induct)
  case (2 n p d)
  then show ?case by (cases "int (length (p # d)) > n") (auto simp: Suc_diff_le)
qed simp

lemma dpop_filter: "dpop k d = filter (\<lambda>p. fst p \<noteq> k) d"
  unfolding dpop_def by (induction d) auto

lemma move_to_end_dset: "move_to_end k (dset k v d) = dpop k d @ [(k, v)]"
  by (simp add: move_to_end_def) (simp add: dset_def dpop_def AList.delete_update_same)

lemma wfd_snoc_dpop [simp, wf_intros]: "wfd d \<Longrightarrow> wfd (dpop k d @ [(k, v)])"
  by (auto simp: wfd_def dkeys_dpop distinct_removeAll)

lemma wfd_drop [wf_intros]: "wfd d \<Longrightarrow> wfd (drop n d)"
  by (simp add: wfd_def drop_map [symmetric])

lemma lru_setitem_data:
  assumes "0 < cache_len c"
  shows "lru_data (lru_setitem k v c) =
    (let d = dpop k (lru_data c) in drop (length d + 1 - nat (cache_len c)) d @ [(k, v)])"
  using assms by (simp add: lru_setitem_def move_to_end_dset eject_drop Let_def)

lemma lru_setitem_cache_len [simp]:
  "cache_len (lru_setitem k v c) = cache_len c"
  "default_factory (lru_setitem k v c) = default_factory c"
  by (simp_all add: lru_setitem_def)

lemma lru_inv_setitem [wf_intros]:
  assumes "lru_inv c" shows "lru_inv (lru_setitem k v c)"
proof -
  have "0 < cache_len c" and "wfd (lru_data c)" using assms by (auto simp: lru_inv_def)
  then have "wfd (drop n (dpop k (lru_data c) @ [(k, v)]))" for n
    by (intro wf_intros)
  then have "wfd (lru_data (lru_setitem k v c))"
    using \<open>0 < cache_len c\<close> by (simp add: lru_setitem_def move_to_end_dset eject_drop del: drop_append)
  moreover have "int (length (lru_data (lru_setitem k v c))) \<le> cache_len c"
    using \<open>0 < cache_len c\<close> by (simp add: lru_setitem_def move_to_end_dset eject_drop)
  ultimately show ?thesis using \<open>0 < cache_len c\<close> by (simp add: lru_inv_def)
qed

lemma lru_get_setitem_same [simp]:
  assumes "0 < cache_len c" shows "lru_get k x (lru_setitem k v c) = v"
proof -
  have "k \<notin> fst ` set (drop n (dpop k (lru_data c)))" for n
    by (auto dest: in_set_dropD simp: dpop_filter)
  then have "dget (drop n (dpop k (lru_data c))) k = None" for n
    by (simp add: dget_None_iff)
  then show ?thesis
    using assms by (simp add: lru_get_def dget_or_def lru_setitem_data Let_def map_add_def)
qed

lemma move_to_end_length [simp]: "wfd d \<Longrightarrow> length (move_to_end k d) = length d"
proof (cases "dget d k")
  case (Some v)
  assume w: "wfd d"
  have "set (dpop k d @ [(k, v)]) = set d"
    using Some w by (auto simp: dpop_filter wfd_dget_iff [symmetric] dest: dget_in_set)
  moreover have "distinct (dpop k d @ [(k, v)])" and "distinct d"
    using w wfd_snoc_dpop [OF w, of k v] by (simp_all only: wfd_def distinct_map)
  ultimately show ?thesis
    using Some by (metis distinct_card move_to_end_def option.simps(5))
qed (simp add: move_to_end_def)

lemma wfd_move_to_end [wf_intros]: "wfd d \<Longrightarrow> wfd (move_to_end k d)"
  by (auto simp: move_to_end_def split: option.splits)

lemma lru_inv_getitem [wf_intros]:
  assumes "lru_inv c" and "lru_getitem k c = Inr (v, c')"
  shows "lru_inv c'"
proof (cases "dget (lru_data c) k")
  case None
  with assms(2) obtain w where w: "default_factory c = Some w"
    and c': "c' = (lru_setitem k w c)\<lparr>lru_data := move_to_end k (lru_data (lru_setitem k w c))\<rparr>"
    by (auto simp: lru_getitem_def Let_def split: option.splits)
  have "lru_inv (lru_setitem k w c)" using assms(1) by (rule lru_inv_setitem)
  then show ?thesis by (simp add: c' lru_inv_def wfd_move_to_end)
next
  case (Some w)
  with assms show ?thesis by (auto simp: lru_getitem_def lru_inv_def wfd_move_to_end)
qed

lemma lru_inv_pop [wf_intros]: "lru_inv c \<Longrightarrow> lru_inv (lru_pop k c)"
  using AList.length_delete_le [of k "lru_data c"] by (simp add: lru_inv_def lru_pop_def dpop_def [symmetric])

lemma lru_inv_init: "lru_init n f = Inr c \<Longrightarrow> lru_inv c"
  by (auto simp: lru_init_def lru_inv_def split: if_splits)

section \<open>The abstract policy\<close>

text \<open>A run of assignments from an empty cache, and the keys the policy keeps.\<close>

fun lru_sets :: "('k \<times> 'v) list \<Rightarrow> ('k, 'v) lru \<Rightarrow> ('k, 'v) lru" where
  "lru_sets [] c = c"
| "lru_sets ((k, v) # kvs) c = lru_sets kvs (lru_setitem k v c)"

definition last_used :: "nat \<Rightarrow> 'k list \<Rightarrow> 'k list" where
  "last_used n ks = drop (length (remdups ks) - n) (remdups ks)"

lemma remdups_snoc: "remdups (xs @ [x]) = removeAll x (remdups xs) @ [x]"
  by (induction xs) auto

lemma removeAll_drop_notin: "x \<notin> set xs \<Longrightarrow> removeAll x (drop n xs) = drop n xs"
  by (metis in_set_dropD removeAll_id)

text \<open>
  Touching a key that is among the kept ones moves it to the end; touching another one
  shifts the window by one: both are the window of the longer history.
\<close>

lemma drop_removeAll_window:
  assumes "distinct r" and "0 < n"
  defines "w \<equiv> drop (length r - n) r"
  shows "drop (length (removeAll x w) + 1 - n) (removeAll x w) @ [x]
    = drop (length (removeAll x r @ [x]) - n) (removeAll x r @ [x])"
proof -
  have split: "r = take (length r - n) r @ w" by (simp add: w_def)
  have lw: "length w = min n (length r)" by (auto simp: w_def)
  have dw: "distinct w" using assms(1) by (simp add: w_def)
  define p where "p = take (length r - n) r"
  have r: "r = p @ w" and lp: "length p = length r - n" using split by (auto simp: p_def)
  show ?thesis
  proof (cases "x \<in> set w")
    case True
    then have np: "x \<notin> set p" using assms(1) r by auto
    have lx: "length (removeAll x w) = length w - 1"
      using True dw by (metis distinct_remove1_removeAll length_remove1)
    have "removeAll x r = p @ removeAll x w" using np by (simp add: r)
    moreover have "length w > 0" using True by auto
    ultimately show ?thesis using lx lp lw assms(2) by (cases "length r \<le> n") auto
  next
    case False
    then have rw: "removeAll x w = w" by simp
    show ?thesis
    proof (cases "length r \<le> n")
      case True
      then have "w = r" by (simp add: w_def)
      with rw True assms(2) show ?thesis by auto
    next
      case long: False
      then have lwn: "length w = n" using lw by simp
      have "removeAll x r = removeAll x p @ w" using rw by (simp add: r)
      with rw lwn assms(2) show ?thesis by auto
    qed
  qed
qed

lemma dkeys_lru_setitem:
  assumes "lru_inv c" and "dkeys (lru_data c) = last_used (nat (cache_len c)) ks"
  shows "dkeys (lru_data (lru_setitem k v c)) = last_used (nat (cache_len c)) (ks @ [k])"
proof -
  let ?n = "nat (cache_len c)" and ?r = "remdups ks"
  have pos: "0 < ?n" and pos': "0 < cache_len c" using assms(1) by (auto simp: lru_inv_def)
  have "dkeys (lru_data (lru_setitem k v c)) =
      drop (length (removeAll k (dkeys (lru_data c))) + 1 - ?n)
        (removeAll k (dkeys (lru_data c))) @ [k]"
    by (simp add: lru_setitem_data [OF pos'] Let_def drop_map [symmetric] dkeys_dpop [symmetric])
  also have "\<dots> = last_used ?n (ks @ [k])"
    using drop_removeAll_window [OF _ pos, of ?r k]
    by (simp add: assms(2) last_used_def remdups_snoc)
  finally show ?thesis .
qed

lemma lru_sets_keys:
  assumes "lru_inv c" and "dkeys (lru_data c) = last_used (nat (cache_len c)) ks"
  shows "dkeys (lru_data (lru_sets kvs c)) = last_used (nat (cache_len c)) (ks @ map fst kvs)
    \<and> lru_inv (lru_sets kvs c)"
  using assms
proof (induction kvs arbitrary: c ks)
  case (Cons p kvs)
  obtain k v where p: "p = (k, v)" by (cases p)
  have "lru_inv (lru_setitem k v c)" using Cons.prems(1) by (rule lru_inv_setitem)
  moreover have "dkeys (lru_data (lru_setitem k v c)) = last_used (nat (cache_len c)) (ks @ [k])"
    using Cons.prems by (rule dkeys_lru_setitem)
  ultimately show ?case using Cons.IH [of "lru_setitem k v c" "ks @ [k]"] by (simp add: p)
qed simp

text \<open>
  A run of assignments on a fresh cache leaves exactly the last \<open>cache_len\<close>
  distinct keys assigned, in order of their last use: the least recently used key is
  always the one ejected.
\<close>

theorem lru_refines_last_used:
  assumes "lru_init n f = Inr c"
  shows "dkeys (lru_data (lru_sets kvs c)) = last_used (nat n) (map fst kvs)"
proof -
  have "lru_inv c" using assms by (rule lru_inv_init)
  moreover have "cache_len c = n" "lru_data c = []"
    using assms by (auto simp: lru_init_def split: if_splits)
  ultimately show ?thesis using lru_sets_keys [of c "[]" kvs] by (simp add: last_used_def)
qed

lemma lru_refines_last_used_witness:
  "dkeys (lru_data (lru_sets [(1 :: nat, ''a''), (2, ''b''), (1, ''c''), (3, ''d'')]
     \<lparr>cache_len = 2, default_factory = None, lru_data = []\<rparr>)) = [1, 3]"
proof -
  have "lru_init 2 None = Inr \<lparr>cache_len = 2, default_factory = None, lru_data = []\<rparr>"
    by (simp add: lru_init_def)
  from lru_refines_last_used [OF this, of "[(1 :: nat, ''a''), (2, ''b''), (1, ''c''), (3, ''d'')]"]
  show ?thesis by (simp add: last_used_def)
qed

end
