(* ===== verification/Json.thy ===== *)
theory Json
  imports Prelude
begin

text \<open>
  \<open>json.dumps\<close> and \<open>json.loads\<close> of the Python standard library, as far as the program
  uses them: cursors are JSON texts of dicts, lists, strings, integers, booleans and
  \<open>None\<close>. \<open>dumps\<close> is the default format (separators comma-space and colon-space,
  \<open>ensure_ascii\<close>). \<open>loads\<close> is a recursive descent parser with fuel: the length of the text
  plus one is enough for every text \<open>dumps\<close> writes, as the round trip shows. It gives
  \<open>None\<close> where Python raises \<open>JSONDecodeError\<close>, and also on fractions, exponents and code points above 255,
  which are not modelled.

  \<open>json_codec\<close> is the interface the cursor code relies on; it is interpreted here on the
  real encoder and decoder.
\<close>

section \<open>Encoding\<close>

definition quote_char :: char where "quote_char = CHR 0x22"
definition backslash :: char where "backslash = CHR 0x5C"

definition hex_digit :: "nat \<Rightarrow> char" where
  "hex_digit n = (if n < 10 then char_of (48 + n) else char_of (87 + n))"

definition escape_char :: "char \<Rightarrow> string" where
  "escape_char c =
     (if c = quote_char \<or> c = backslash then [backslash, c]
      else if c = CHR 0x0A then [backslash, CHR ''n'']
      else if c = CHR 0x0D then [backslash, CHR ''r'']
      else if c = CHR 0x09 then [backslash, CHR ''t'']
      else if c = CHR 0x0C then [backslash, CHR ''f'']
      else if c = CHR 0x08 then [backslash, CHR ''b'']
      else if of_char c < (32 :: nat) \<or> 126 < (of_char c :: nat)
        then [backslash, CHR ''u'', CHR ''0'', CHR ''0'',
              hex_digit (of_char c div 16), hex_digit (of_char c mod 16)]
      else [c])"

definition dumps_str :: "string \<Rightarrow> string" where
  "dumps_str s = quote_char # concat (map escape_char s) @ [quote_char]"

fun joins :: "string \<Rightarrow> string list \<Rightarrow> string" where
  "joins sep [] = []"
| "joins sep [x] = x"
| "joins sep (x # y # xs) = x @ sep @ joins sep (y # xs)"

function dumps :: "pyval \<Rightarrow> string" where
  "dumps PNone = ''null''"
| "dumps (PBool b) = (if b then ''true'' else ''false'')"
| "dumps (PInt i) = int_str i"
| "dumps (PStr s) = dumps_str s"
| "dumps (PList xs) = CHR ''['' # joins '', '' (map dumps xs) @ '']''"
| "dumps (PDict d) =
     CHR ''{'' # joins '', '' (map (\<lambda>p. dumps_str (fst p) @ '': '' @ dumps (snd p)) d) @ ''}''"
  by pat_completeness auto
termination
proof (relation "measure size")
  fix d and p :: "string \<times> pyval" assume "p \<in> set d"
  then have "size (snd p) < size (PDict d)"
    by (induction d) (auto simp: size_prod_simp)
  then show "(snd p, PDict d) \<in> measure size" by simp
qed (auto simp: less_Suc_eq_le size_list_estimation')

section \<open>Decoding\<close>

definition is_ws :: "char \<Rightarrow> bool" where
  "is_ws c \<longleftrightarrow> c = CHR '' '' \<or> c = CHR 0x09 \<or> c = CHR 0x0A \<or> c = CHR 0x0D"

definition skip_ws :: "string \<Rightarrow> string" where
  "skip_ws s = dropWhile is_ws s"

definition hex_val :: "char \<Rightarrow> nat option" where
  "hex_val c =
     (let n = of_char c in
      if 48 \<le> n \<and> n \<le> 57 then Some (n - 48)
      else if 97 \<le> n \<and> n \<le> 102 then Some (n - 87)
      else if 65 \<le> n \<and> n \<le> 70 then Some (n - 55) else None)"

definition simple_escape :: "char \<Rightarrow> char option" where
  "simple_escape c =
     (if c = quote_char \<or> c = backslash \<or> c = CHR ''/'' then Some c
      else if c = CHR ''n'' then Some (CHR 0x0A)
      else if c = CHR ''r'' then Some (CHR 0x0D)
      else if c = CHR ''t'' then Some (CHR 0x09)
      else if c = CHR ''f'' then Some (CHR 0x0C)
      else if c = CHR ''b'' then Some (CHR 0x08) else None)"

definition hex4 :: "char \<Rightarrow> char \<Rightarrow> char \<Rightarrow> char \<Rightarrow> char option" where
  "hex4 a b c d =
     (case (hex_val a, hex_val b, hex_val c, hex_val d) of
        (Some h3, Some h2, Some h1, Some h0) \<Rightarrow>
          let n = ((h3 * 16 + h2) * 16 + h1) * 16 + h0
          in if n < 256 then Some (char_of n) else None
      | _ \<Rightarrow> None)"

text \<open>The characters of a string literal after its opening quote, and the rest.\<close>

fun scan_str :: "string \<Rightarrow> (string \<times> string) option" where
  "scan_str [] = None"
| "scan_str (c # cs) =
     (if c = quote_char then Some ([], cs)
      else if c = backslash then
        (case cs of
           [] \<Rightarrow> None
         | e # es \<Rightarrow>
             if e = CHR ''u'' then
               (case es of
                  h3 # h2 # h1 # h0 # r \<Rightarrow>
                    (case hex4 h3 h2 h1 h0 of
                       None \<Rightarrow> None
                     | Some x \<Rightarrow> map_option (\<lambda>(t, u). (x # t, u)) (scan_str r))
                | _ \<Rightarrow> None)
             else
               (case simple_escape e of
                  None \<Rightarrow> None
                | Some x \<Rightarrow> map_option (\<lambda>(t, u). (x # t, u)) (scan_str es)))
      else if of_char c < (32 :: nat) then None
      else map_option (\<lambda>(t, u). (c # t, u)) (scan_str cs))"

definition scan_nat :: "string \<Rightarrow> (nat \<times> string) option" where
  "scan_nat s =
     (case s of
        [] \<Rightarrow> None
      | c # cs \<Rightarrow>
          if c = CHR ''0'' then Some (0, cs)
          else if is_digit c
            then Some (digits_val (takeWhile is_digit s), dropWhile is_digit s)
            else None)"

definition starts_fraction :: "string \<Rightarrow> bool" where
  "starts_fraction s \<longleftrightarrow> (case s of [] \<Rightarrow> False | c # _ \<Rightarrow> c \<in> {CHR ''.'', CHR ''e'', CHR ''E''})"

definition scan_int :: "string \<Rightarrow> (pyval \<times> string) option" where
  "scan_int s =
     (case s of
        [] \<Rightarrow> None
      | c # cs \<Rightarrow>
          (case scan_nat (if c = CHR ''-'' then cs else s) of
             None \<Rightarrow> None
           | Some (n, r) \<Rightarrow>
               if starts_fraction r then None
               else Some (PInt (if c = CHR ''-'' then - int n else int n), r)))"

definition scan_word :: "string \<Rightarrow> pyval \<Rightarrow> string \<Rightarrow> (pyval \<times> string) option" where
  "scan_word w v s = (if take (length w) s = w then Some (v, drop (length w) s) else None)"

fun parse_val :: "nat \<Rightarrow> string \<Rightarrow> (pyval \<times> string) option"
  and parse_elems :: "nat \<Rightarrow> pyval list \<Rightarrow> string \<Rightarrow> (pyval \<times> string) option"
  and parse_members :: "nat \<Rightarrow> (string, pyval) pydict \<Rightarrow> string \<Rightarrow> (pyval \<times> string) option" where
  "parse_val 0 s = None"
| "parse_val (Suc n) s =
     (case skip_ws s of
        [] \<Rightarrow> None
      | c # cs \<Rightarrow>
          if c = quote_char then map_option (\<lambda>(t, r). (PStr t, r)) (scan_str cs)
          else if c = CHR ''['' then
            (case skip_ws cs of
               [] \<Rightarrow> None
             | b # r \<Rightarrow> if b = CHR '']'' then Some (PList [], r) else parse_elems n [] cs)
          else if c = CHR ''{'' then
            (case skip_ws cs of
               [] \<Rightarrow> None
             | b # r \<Rightarrow> if b = CHR ''}'' then Some (PDict [], r) else parse_members n [] cs)
          else if c = CHR ''n'' then scan_word ''null'' PNone (c # cs)
          else if c = CHR ''t'' then scan_word ''true'' (PBool True) (c # cs)
          else if c = CHR ''f'' then scan_word ''false'' (PBool False) (c # cs)
          else scan_int (c # cs))"
| "parse_elems 0 acc s = None"
| "parse_elems (Suc n) acc s =
     (case parse_val n s of
        None \<Rightarrow> None
      | Some (x, r) \<Rightarrow>
          (case skip_ws r of
             [] \<Rightarrow> None
           | c # r' \<Rightarrow>
               if c = CHR '']'' then Some (PList (acc @ [x]), r')
               else if c = CHR '','' then parse_elems n (acc @ [x]) r'
               else None))"
| "parse_members 0 acc s = None"
| "parse_members (Suc n) acc s =
     (case skip_ws s of
        [] \<Rightarrow> None
      | q # cs \<Rightarrow>
          if q \<noteq> quote_char then None
          else (case scan_str cs of
             None \<Rightarrow> None
           | Some (k, r) \<Rightarrow>
               (case skip_ws r of
                  [] \<Rightarrow> None
                | c # r1 \<Rightarrow>
                    if c \<noteq> CHR '':'' then None
                    else (case parse_val n r1 of
                       None \<Rightarrow> None
                     | Some (v, r2) \<Rightarrow>
                         (case skip_ws r2 of
                            [] \<Rightarrow> None
                          | b # r3 \<Rightarrow>
                              if b = CHR ''}'' then Some (PDict (dset k v acc), r3)
                              else if b = CHR '','' then parse_members n (dset k v acc) r3
                              else None)))))"

definition loads :: "string \<Rightarrow> pyval option" where
  "loads s =
     (case parse_val (Suc (length s)) s of
        None \<Rightarrow> None
      | Some (v, r) \<Rightarrow> if skip_ws r = [] then Some v else None)"

section \<open>Round trip\<close>

lemma hex_val_hex_digit: "n < 16 \<Longrightarrow> hex_val (hex_digit n) = Some n"
  by (auto simp: hex_val_def hex_digit_def Let_def)

lemma hex4_byte:
  "hex4 (CHR ''0'') (CHR ''0'') (hex_digit (of_char c div 16)) (hex_digit (of_char c mod 16)) = Some c"
proof -
  have "of_char c < (256 :: nat)" by simp
  then have "of_char c div 16 < (16 :: nat)" by (simp add: less_mult_imp_div_less)
  then have "hex_val (hex_digit (of_char c div 16)) = Some (of_char c div 16)"
    by (rule hex_val_hex_digit)
  moreover have "hex_val (hex_digit (of_char c mod 16)) = Some (of_char c mod 16)"
    by (rule hex_val_hex_digit) simp
  moreover have "hex_val (CHR ''0'') = Some 0" by (simp add: hex_val_def)
  moreover have "of_char c div 16 * 16 + of_char c mod 16 = (of_char c :: nat)" by simp
  ultimately show ?thesis
    by (simp add: hex4_def Let_def)
qed

lemma scan_escape_char:
  "scan_str (escape_char c @ s) = map_option (\<lambda>(t, r). (c # t, r)) (scan_str s)"
proof -
  have q: "quote_char \<noteq> backslash" by (simp add: quote_char_def backslash_def)
  show ?thesis
    using q hex4_byte [of c]
    by (auto simp: escape_char_def simple_escape_def quote_char_def backslash_def)
qed

lemma scan_dumps_str:
  "scan_str (concat (map escape_char s) @ quote_char # r) = Some (s, r)"
  by (induction s) (simp_all add: scan_escape_char)

text \<open>Texts after which a number ends.\<close>

definition num_end :: "string \<Rightarrow> bool" where
  "num_end r \<longleftrightarrow> (case r of [] \<Rightarrow> True | c # _ \<Rightarrow> \<not> is_digit c \<and> \<not> starts_fraction r)"

lemma num_end_simps [simp]:
  "num_end []" "num_end (CHR '','' # r)" "num_end (CHR '']'' # r)" "num_end (CHR ''}'' # r)"
  by (simp_all add: num_end_def is_digit_def starts_fraction_def)

lemma digit_char_0 [simp]: "digit_char 0 = CHR ''0''"
proof -
  have "(of_char (digit_char 0) :: nat) = of_char (CHR ''0'')" by (simp add: of_digit_char)
  then show ?thesis by (simp only: of_char_eq_iff)
qed

lemma digit_char_zero_iff: "n < 10 \<Longrightarrow> digit_char n = CHR ''0'' \<longleftrightarrow> n = 0"
  using of_digit_char [of n] of_digit_char [of 0] by auto

lemma hd_nat_str_zero: "hd (nat_str n) = CHR ''0'' \<longleftrightarrow> n = 0"
proof (induction n rule: nat_str.induct)
  case (1 n)
  show ?case
  proof (cases "n < 10")
    case True
    then show ?thesis by (simp add: nat_str.simps [of n] digit_char_zero_iff)
  next
    case False
    with 1 have "hd (nat_str (n div 10)) = CHR ''0'' \<longleftrightarrow> n div 10 = 0" by blast
    with False show ?thesis by (simp add: nat_str.simps [of n] hd_append)
  qed
qed

lemma scan_nat_nat_str: "num_end r \<Longrightarrow> scan_nat (nat_str n @ r) = Some (n, r)"
proof (cases "nat_str n")
  case (Cons c cs)
  assume r: "num_end r"
  have d: "list_all is_digit (nat_str n)" by (rule nat_str_digits)
  have tw: "takeWhile is_digit (nat_str n @ r) = nat_str n"
    and dw: "dropWhile is_digit (nat_str n @ r) = r"
    using d r by (auto simp: takeWhile_append dropWhile_append num_end_def list_all_iff
        takeWhile_eq_Nil_iff split: list.splits)
  show ?thesis
  proof (cases "n = 0")
    case True
    then show ?thesis by (simp add: scan_nat_def nat_str.simps [of 0])
  next
    case False
    then have "c \<noteq> CHR ''0''" using hd_nat_str_zero [of n] Cons by simp
    moreover have "is_digit c" using d Cons by simp
    moreover have "digits_val (nat_str n) = n" by simp
    ultimately show ?thesis using tw dw by (simp add: scan_nat_def Cons)
  qed
qed simp

lemma num_end_no_fraction: "num_end r \<Longrightarrow> \<not> starts_fraction r"
  by (auto simp: num_end_def starts_fraction_def split: list.splits)

lemma scan_int_int_str: "num_end r \<Longrightarrow> scan_int (int_str i @ r) = Some (PInt i, r)"
proof (cases "i < 0")
  case True
  assume "num_end r"
  with True show ?thesis
    by (simp add: scan_int_def int_str_def scan_nat_nat_str num_end_no_fraction)
next
  case False
  assume r: "num_end r"
  have "hd (nat_str (nat i)) \<noteq> CHR ''-''"
    using hd_nat_str_digit [of "nat i"] by auto
  moreover obtain c cs where c: "nat_str (nat i) = c # cs" by (cases "nat_str (nat i)") auto
  moreover have "scan_nat ((c # cs) @ r) = Some (nat i, r)"
    using scan_nat_nat_str [OF r, of "nat i"] c by simp
  ultimately show ?thesis
    using False r by (simp add: scan_int_def int_str_def num_end_no_fraction)
qed

lemma skip_ws_char: "\<not> is_ws c \<Longrightarrow> skip_ws (c # cs) = c # cs"
  by (simp add: skip_ws_def)

lemma skip_ws_space [simp]: "skip_ws (CHR '' '' # cs) = skip_ws cs"
  by (simp add: skip_ws_def is_ws_def)

lemma not_ws_simps [simp]:
  "\<not> is_ws quote_char" "\<not> is_ws (CHR ''['')" "\<not> is_ws (CHR '']'')" "\<not> is_ws (CHR ''{'')"
  "\<not> is_ws (CHR ''}'')" "\<not> is_ws (CHR '','')" "\<not> is_ws (CHR '':'')" "\<not> is_ws (CHR ''n'')"
  "\<not> is_ws (CHR ''t'')" "\<not> is_ws (CHR ''f'')" "\<not> is_ws (CHR ''-'')"
  by (simp_all add: is_ws_def quote_char_def)

lemma digit_facts:
  assumes "is_digit c"
  shows "\<not> is_ws c" and "c \<noteq> quote_char" and "c \<noteq> CHR ''[''" and "c \<noteq> CHR ''{''"
    and "c \<noteq> CHR ''n''" and "c \<noteq> CHR ''t''" and "c \<noteq> CHR ''f''" and "c \<noteq> CHR '']''"
  using assms by (auto simp: is_digit_def is_ws_def quote_char_def)

lemma int_str_head: "\<exists>c cs. int_str i = c # cs \<and> (c = CHR ''-'' \<or> is_digit c)"
proof (cases "i < 0")
  case False
  obtain c cs where "nat_str (nat i) = c # cs" by (cases "nat_str (nat i)") auto
  with False hd_nat_str_digit [of "nat i"] show ?thesis by (auto simp: int_str_def)
qed (auto simp: int_str_def)

lemma parse_int_text:
  assumes "num_end r"
  shows "parse_val (Suc n) (int_str i @ r) = Some (PInt i, r)"
proof -
  obtain c cs where c: "int_str i = c # cs" and d: "c = CHR ''-'' \<or> is_digit c"
    using int_str_head by blast
  have "scan_int (c # cs @ r) = Some (PInt i, r)"
    using scan_int_int_str [OF assms, of i] by (simp add: c)
  then show ?thesis
    using d digit_facts [of c] by (auto simp: c skip_ws_char quote_char_def)
qed

text \<open>The first character of a value's text: it starts no closing bracket and no blank.\<close>

lemma dumps_head: "\<exists>c cs. dumps v = c # cs \<and> \<not> is_ws c \<and> c \<noteq> CHR '']'' \<and> c \<noteq> CHR ''}''"
proof (cases v)
  case (PInt i)
  then show ?thesis
    using int_str_head [of i] by (auto simp: is_ws_def is_digit_def)
qed (auto simp: dumps_str_def quote_char_def is_ws_def)

lemma length_joins_Cons:
  "length (joins sep (x # y # xs)) = length x + length sep + length (joins sep (y # xs))"
  by simp

lemma dumps_pos: "0 < length (dumps v)"
  using dumps_head [of v] by auto

lemma parse_val_skip: "parse_val n (CHR '' '' # s) = parse_val n s"
  by (cases n) simp_all

lemma parse_elems_dumps:
  assumes "xs \<noteq> []"
    and "\<And>x n r. x \<in> set xs \<Longrightarrow> num_end r \<Longrightarrow> length (dumps x) < n \<Longrightarrow>
          parse_val n (dumps x @ r) = Some (x, r)"
    and "length (joins '', '' (map dumps xs)) + 1 < n"
  shows "parse_elems n acc (joins '', '' (map dumps xs) @ CHR '']'' # r) = Some (PList (acc @ xs), r)"
  using assms
proof (induction xs arbitrary: n acc)
  case (Cons x xs)
  obtain m where n: "n = Suc m" using Cons.prems(3) by (cases n) auto
  show ?case
  proof (cases xs)
    case Nil
    have "parse_val m (dumps x @ CHR '']'' # r) = Some (x, CHR '']'' # r)"
      using Cons.prems(2,3) by (simp add: Nil n)
    then show ?thesis by (simp add: Nil n skip_ws_char)
  next
    case (Cons y ys)
    let ?t = "joins '', '' (map dumps xs) @ CHR '']'' # r"
    have "parse_val m (dumps x @ CHR '','' # CHR '' '' # ?t) = Some (x, CHR '','' # CHR '' '' # ?t)"
      using Cons.prems(2,3) by (simp add: Cons n)
    moreover have "parse_elems m (acc @ [x]) ?t = Some (PList ((acc @ [x]) @ xs), r)"
      using Cons.IH [of m "acc @ [x]"] Cons.prems(2,3) by (simp add: Cons n)
    moreover have "parse_elems m (acc @ [x]) (CHR '' '' # ?t) = parse_elems m (acc @ [x]) ?t"
      by (cases m) (simp_all only: parse_elems.simps parse_val_skip)
    ultimately show ?thesis by (simp add: Cons n skip_ws_char)
  qed
qed simp

lemma dumps_str_joins:
  "dumps_str k @ s = quote_char # concat (map escape_char k) @ quote_char # s"
  by (simp add: dumps_str_def)

abbreviation member_text :: "string \<times> pyval \<Rightarrow> string" where
  "member_text p \<equiv> dumps_str (fst p) @ '': '' @ dumps (snd p)"

lemma parse_members_step:
  assumes "parse_val m (dumps v @ b # r) = Some (v, b # r)" and "\<not> is_ws b"
  shows "parse_members (Suc m) acc (member_text (k, v) @ b # r) =
    (if b = CHR ''}'' then Some (PDict (dset k v acc), r)
     else if b = CHR '','' then parse_members m (dset k v acc) r else None)"
  using assms by (simp add: dumps_str_joins scan_dumps_str skip_ws_char parse_val_skip)

lemma parse_members_dumps:
  assumes "d \<noteq> []"
    and "\<And>p n r. p \<in> set d \<Longrightarrow> num_end r \<Longrightarrow> length (dumps (snd p)) < n \<Longrightarrow>
          parse_val n (dumps (snd p) @ r) = Some (snd p, r)"
    and "length (joins '', '' (map member_text d)) + 1 < n"
    and "distinct (map fst (acc @ d))"
  shows "parse_members n acc (joins '', '' (map member_text d) @ CHR ''}'' # r)
    = Some (PDict (acc @ d), r)"
  using assms
proof (induction d arbitrary: n acc)
  case (Cons p d)
  obtain k v where p: "p = (k, v)" by (cases p)
  obtain m where n: "n = Suc m" using Cons.prems(3) by (cases n) auto
  have acc: "dset k v acc = acc @ [(k, v)]"
    using Cons.prems(4) by (intro dset_new) (auto simp: p)
  show ?case
  proof (cases d)
    case Nil
    have "parse_val m (dumps v @ CHR ''}'' # r) = Some (v, CHR ''}'' # r)"
      using Cons.prems(2) [of "(k, v)"] Cons.prems(3) by (simp add: Nil n p)
    from parse_members_step [OF this, of acc k] show ?thesis by (simp add: Nil n p acc)
  next
    case (Cons q ds)
    let ?t = "joins '', '' (map member_text d) @ CHR ''}'' # r"
    have "parse_val m (dumps v @ CHR '','' # CHR '' '' # ?t) = Some (v, CHR '','' # CHR '' '' # ?t)"
      using Cons.prems(2) [of "(k, v)"] Cons.prems(3) by (simp add: Cons n p)
    from parse_members_step [OF this, of acc k]
    have "parse_members (Suc m) acc (member_text (k, v) @ CHR '','' # CHR '' '' # ?t) =
        parse_members m (acc @ [(k, v)]) (CHR '' '' # ?t)" by (simp add: acc)
    also have "\<dots> = parse_members m (acc @ [(k, v)]) ?t" by (cases m) simp_all
    also have "\<dots> = Some (PDict ((acc @ [(k, v)]) @ d), r)"
      using Cons.IH [of m "acc @ [(k, v)]"] Cons.prems(2-4) by (simp add: Cons n p)
    finally show ?thesis by (simp add: Cons n p)
  qed
qed simp

lemma parse_word:
  "parse_val (Suc n) (''null'' @ r) = Some (PNone, r)"
  "parse_val (Suc n) (''true'' @ r) = Some (PBool True, r)"
  "parse_val (Suc n) (''false'' @ r) = Some (PBool False, r)"
  by (simp_all add: skip_ws_char quote_char_def scan_word_def)

lemma parse_dumps:
  "wfp v \<Longrightarrow> num_end r \<Longrightarrow> length (dumps v) < n \<Longrightarrow> parse_val n (dumps v @ r) = Some (v, r)"
proof (induction v arbitrary: n r)
  case (PBool b)
  then show ?case using parse_word by (cases n) auto
next
  case (PInt i)
  then show ?case using parse_int_text by (cases n) auto
next
  case (PStr s)
  then show ?case
    by (cases n) (simp_all add: dumps_str_joins scan_dumps_str skip_ws_char)
next
  case (PList xs)
  obtain m where n: "n = Suc m" using PList.prems(3) by (cases n) auto
  show ?case
  proof (cases "xs = []")
    case True
    then show ?thesis by (simp add: n skip_ws_char quote_char_def)
  next
    case False
    then obtain x xs' where xs: "xs = x # xs'" by (cases xs) auto
    obtain c cs where h: "dumps x = c # cs" "\<not> is_ws c" "c \<noteq> CHR '']''"
      using dumps_head by blast
    then obtain cs' where hd: "joins '', '' (map dumps xs) = c # cs'" by (cases xs') (auto simp: xs)
    have "parse_elems m [] (joins '', '' (map dumps xs) @ CHR '']'' # r) = Some (PList ([] @ xs), r)"
      using False PList by (intro parse_elems_dumps) (auto simp: n)
    with h(2,3) show ?thesis by (simp add: n hd skip_ws_char quote_char_def)
  qed
next
  case (PDict d)
  obtain m where n: "n = Suc m" using PDict.prems(3) by (cases n) auto
  show ?case
  proof (cases "d = []")
    case True
    then show ?thesis by (simp add: n skip_ws_char quote_char_def)
  next
    case False
    then obtain p d' where d: "d = p # d'" by (cases d) auto
    obtain cs where hd: "joins '', '' (map member_text d) = quote_char # cs"
      by (cases d') (auto simp: d dumps_str_def)
    have "parse_members m [] (joins '', '' (map member_text d) @ CHR ''}'' # r)
        = Some (PDict ([] @ d), r)"
      using False PDict by (intro parse_members_dumps) (auto simp: n snds.simps)
    then show ?thesis using hd [simplified] by (simp add: n skip_ws_char quote_char_def is_ws_def)
  qed
next
  case PNone
  then show ?case using parse_word by (cases n) auto
qed

theorem loads_dumps: "wfp v \<Longrightarrow> loads (dumps v) = Some v"
  using parse_dumps [of v "[]" "Suc (length (dumps v))"] by (simp add: loads_def skip_ws_def)

section \<open>The interface\<close>

locale json_codec =
  fixes enc :: "pyval \<Rightarrow> string" and dec :: "string \<Rightarrow> pyval option"
  assumes dec_enc: "wfp v \<Longrightarrow> dec (enc v) = Some v"
    and enc_nonempty: "enc v \<noteq> []"
begin

lemma enc_inj: "wfp v \<Longrightarrow> wfp w \<Longrightarrow> enc v = enc w \<Longrightarrow> v = w"
  by (metis dec_enc option.inject)

end

interpretation json: json_codec dumps loads
  using loads_dumps dumps_pos by unfold_locales auto

end
