(* ===== verification/Core_Types.thy ===== *)
theory Core_Types
  imports Prelude
begin

text \<open>
  The data model of \<open>core/api.py\<close>, \<open>core/pipeline.py\<close>, \<open>core/topic.py\<close>,
  \<open>core/error.py\<close> and \<open>core/job_state.py\<close>: one record per dataclass (the field name
  carries the class's initials where two classes share a name), one datatype per union.
  \<open>QueueItemWithState\<close> subclasses \<open>QueueItem\<close>, so it is a record extension.
\<close>

section \<open>Components and outputs\<close>

record component_definition =
  cd_name :: string
  cd_type :: string
  cd_options :: "(string, pyval) pydict"

record republish_options =
  rp_channel :: string
  rp_max_retry :: int

record error_handler =
  eh_set_handled :: bool
  eh_republish :: "republish_options option"

datatype output_definition =
    OutComponent component_definition
  | OutHandler error_handler

section \<open>Resources\<close>

record rate_limit_item =
  rl_limits :: "string list"
  rl_strategy :: string

record resource_item =
  ri_name :: string
  ri_type :: string
  ri_data :: "(string, pyval) pydict"
  ri_default_delay :: time
  ri_rate_limit :: "rate_limit_item option"

record resources_provider_item =
  rpi_name :: string
  rpi_type :: string
  rpi_resource_type :: string
  rpi_options :: "(string, pyval) pydict"

section \<open>Pipelines, messages and results\<close>

record pipeline_info =
  pi_name :: string
  pi_resources :: "(string, string) pydict"

record queue_pipeline =
  qp_info :: pipeline_info
  qp_args :: "(string, pyval) pydict"

record topic_message =
  tm_id :: string
  tm_args :: "(string, pyval) pydict"
  tm_tags :: "(string, string) pydict"
  tm_config :: "(string, pyval) pydict"
  tm_metadata :: "(string, pyval) pydict"
  tm_expire_after :: "time option"

text \<open>\<open>TopicMessage(args=..., id=...)\<close> with every other field at its default.\<close>

definition new_topic_message :: "string \<Rightarrow> (string, pyval) pydict \<Rightarrow> topic_message" where
  "new_topic_message i args =
     \<lparr>tm_id = i, tm_args = args, tm_tags = [], tm_config = [], tm_metadata = [],
      tm_expire_after = None\<rparr>"

definition extend_message :: "topic_message \<Rightarrow> (string, pyval) pydict \<Rightarrow> topic_message" where
  "extend_message m args = m\<lparr>tm_args := dor args (tm_args m)\<rparr>"

lemma extend_message_keeps_own_args:
  assumes "wfd (tm_args m)" and "dget (tm_args m) k = Some v"
  shows "dget (tm_args (extend_message m args)) k = Some v"
  using assms by (simp add: extend_message_def dget_dor)

lemma extend_message_fills_missing:
  assumes "wfd (tm_args m)" and "dget (tm_args m) k = None"
  shows "dget (tm_args (extend_message m args)) k = dget args k"
  using assms by (simp add: extend_message_def dget_dor map_add_def)

record pipeline_output =
  po_channel :: string
  po_message :: topic_message

record resource_used =
  ru_type :: string
  ru_release_at :: "time option"
  ru_state :: "(string, pyval) pydict option"

datatype pipeline_event =
    CursorStateUpdated "(string, pyval) pydict" "string option"
  | StopLoopEvent
  | OtherEvent string

record pipeline_results =
  pr_outputs :: "pipeline_output list"
  pr_resources :: "resource_used list"
  pr_events :: "pipeline_event list"

definition empty_results :: pipeline_results where
  "empty_results = \<lparr>pr_outputs = [], pr_resources = [], pr_events = []\<rparr>"

section \<open>Queue items\<close>

record queue_item =
  qi_name :: string
  qi_pipeline :: queue_pipeline
  qi_output :: "(string, output_definition list) pydict"
  qi_input :: component_definition
  qi_config :: "(string, pyval) pydict"
  qi_labels :: "(string, string) pydict"
  qi_executor :: string

record queue_item_state =
  qs_cursor :: "string option"
  qs_started_at :: time

record queue_item_with_state = queue_item +
  qi_state :: queue_item_state

definition with_state :: "queue_item \<Rightarrow> queue_item_state \<Rightarrow> queue_item_with_state" where
  "with_state q st = queue_item.extend q \<lparr>qi_state = st\<rparr>"

lemma with_state_fields [simp]:
  "qi_name (with_state q st) = qi_name q"
  "qi_pipeline (with_state q st) = qi_pipeline q"
  "qi_output (with_state q st) = qi_output q"
  "qi_input (with_state q st) = qi_input q"
  "qi_config (with_state q st) = qi_config q"
  "qi_labels (with_state q st) = qi_labels q"
  "qi_executor (with_state q st) = qi_executor q"
  "qi_state (with_state q st) = st"
  by (simp_all add: with_state_def queue_item.defs)

record job_definition =
  jd_name :: string
  jd_template :: queue_item
  jd_minimal_interval :: string

section \<open>Requests and responses of the worker manager\<close>

record lock_response =
  lr_items :: "queue_item_with_state list"
  lr_resources :: "resource_item list"
  lr_providers :: "resources_provider_item list"
  lr_executors :: "component_definition list"

record lock_input =
  li_worker_id :: string
  li_selector :: "string option"
  li_executors :: "string list option"

record job_completion =
  jc_completed_at :: time
  jc_error :: "string option"

record job_state =
  js_cursor :: "string option"
  js_cursors_states :: "(string, (string, pyval) pydict) pydict"
  js_completion :: "job_completion option"

definition empty_job_state :: job_state where
  "empty_job_state = \<lparr>js_cursor = None, js_cursors_states = [], js_completion = None\<rparr>"

type_synonym jobs_states = "(string, job_state) pydict"

record start_job_input =
  sj_name :: "string option"
  sj_job_definition_name :: "string option"

record job_input =
  ji_cursor :: "string option"
  ji_completed_at :: "time option"
  ji_error :: "string option"

end
