(* ===== verification/Cursors.thy ===== *)
theory Cursors
  imports Json Core_Types
begin

text \<open>
  \<open>worker/inventory.py\<close>: \<open>Item\<close> and \<open>CursorsState\<close>, the record of how far a job got
  through its inventory.

  An item carries \<open>it_oid\<close>, the identity Python's \<open>id(item)\<close> gives the object; \<open>_pendings\<close> is the
  insertion-ordered dict from it to (is pending, item). The async context manager
  \<open>process_item\<close> is its two halves: \<open>process_enter\<close> up to the \<open>yield\<close> (with the yielded flag) and
  \<open>process_exit\<close>, its \<open>finally\<close> block. Between the halves of one item any halves of others may run.
  A Python set (\<open>partials\<close>) is a list without repetition in its iteration order; nothing
  depends on which order that is.

  \<open>cursor_run\<close> is every interleaving of the two halves over a list of emitted items. Its
  invariant \<open>cursor_run_state\<close> gives the state in closed form, and the main result is that
  resuming from the saved cursor yields exactly the items that had not finished.
\<close>

section \<open>Items\<close>

record item =
  it_oid :: nat
  it_id :: string
  it_args :: "(string, pyval) pydict"
  it_cursor :: "string option"
  it_tags :: "(string, string) pydict"
  it_metadata :: "(string, pyval) pydict"
  it_config :: "(string, pyval) pydict"

text \<open>\<open>Item(id=..., args=...)\<close>: \<open>__post_init__\<close> makes the identifier the cursor.\<close>

definition new_item :: "nat \<Rightarrow> string \<Rightarrow> (string, pyval) pydict \<Rightarrow> item" where
  "new_item oid i args =
     \<lparr>it_oid = oid, it_id = i, it_args = args, it_cursor = Some i, it_tags = [],
      it_metadata = [], it_config = []\<rparr>"

definition opt_str :: "string option \<Rightarrow> pyval" where
  "opt_str x = (case x of None \<Rightarrow> PNone | Some s \<Rightarrow> PStr s)"

definition as_topic_message :: "item \<Rightarrow> topic_message" where
  "as_topic_message i =
     \<lparr>tm_id = it_id i, tm_args = it_args i, tm_tags = it_tags i, tm_config = it_config i,
      tm_metadata = dor (it_metadata i) [(''job'', PDict [(''cursor'', opt_str (it_cursor i))])],
      tm_expire_after = None\<rparr>"

section \<open>The state and its operations\<close>

record cursors_state =
  cs_after :: "string option"
  cs_partials :: "string list"
  cs_max_partials :: "nat option"
  cs_pendings :: "(nat, bool \<times> item) pydict"

definition initial_cursors :: "string option \<Rightarrow> string list \<Rightarrow> nat option \<Rightarrow> cursors_state" where
  "initial_cursors a ps mp =
     \<lparr>cs_after = a, cs_partials = ps, cs_max_partials = mp, cs_pendings = []\<rparr>"

definition process_enter :: "cursors_state \<Rightarrow> item \<Rightarrow> bool \<times> cursors_state" where
  "process_enter s i =
     (let s1 = s\<lparr>cs_pendings := dset (it_oid i) (True, i) (cs_pendings s)\<rparr>
      in case it_cursor i of
           Some c \<Rightarrow>
             if c \<noteq> [] \<and> c \<in> set (cs_partials s1)
             then (False, s1\<lparr>cs_partials := remove1 c (cs_partials s1)\<rparr>)
             else (True, s1)
         | None \<Rightarrow> (True, s1))"

text \<open>The last item of the list with a truthy cursor commits it.\<close>

definition commit_cursor :: "item list \<Rightarrow> string option \<Rightarrow> string option" where
  "commit_cursor done a =
     (case find (\<lambda>i. struthy (it_cursor i)) (rev done) of None \<Rightarrow> a | Some i \<Rightarrow> it_cursor i)"

definition process_exit :: "cursors_state \<Rightarrow> item \<Rightarrow> cursors_state" where
  "process_exit s i =
     (let ps = dset (it_oid i) (False, i) (cs_pendings s);
          items_done = map (\<lambda>p. snd (snd p)) (takeWhile (\<lambda>p. \<not> fst (snd p)) ps)
      in s\<lparr>cs_pendings := fold (\<lambda>j. dpop (it_oid j)) items_done ps,
           cs_after := commit_cursor items_done (cs_after s)\<rparr>)"

definition has_pendings :: "cursors_state \<Rightarrow> bool" where
  "has_pendings s \<longleftrightarrow> cs_pendings s \<noteq> []"

section \<open>Saving and loading\<close>

definition partials_cursors :: "cursors_state \<Rightarrow> string list" where
  "partials_cursors s =
     List.map_filter (\<lambda>(_, pending, i). if pending then None else it_cursor i) (cs_pendings s)"

text \<open>The set the source writes under \<open>p\<close> (empty when nothing is written).\<close>

definition saved_partials :: "cursors_state \<Rightarrow> string list" where
  "saved_partials s =
     (case cs_max_partials s of
        None \<Rightarrow> remdups (cs_partials s @ partials_cursors s)
      | Some m \<Rightarrow>
          if m = 0 then []
          else let ps = remdups (take m (partials_cursors s))
               in remdups (take (m - length ps) (cs_partials s) @ ps))"

definition as_dict :: "cursors_state \<Rightarrow> (string, pyval) pydict" where
  "as_dict s =
     (let d0 = [(''v'', PInt 1)];
          d1 = (case cs_after s of None \<Rightarrow> d0 | Some a \<Rightarrow> dset ''a'' (PStr a) d0);
          ps = saved_partials s
      in if ps = [] then d1 else dset ''p'' (PList (map PStr (sort ps))) d1)"

definition as_cursor :: "cursors_state \<Rightarrow> string option" where
  "as_cursor s = (let d = as_dict s in if d = [(''v'', PInt 1)] then None else Some (dumps (PDict d)))"

definition str_of :: "pyval \<Rightarrow> string option" where
  "str_of v = (case v of PStr s \<Rightarrow> Some s | _ \<Rightarrow> None)"

text \<open>
  \<open>from_dict\<close>. \<open>None\<close> is a document whose \<open>a\<close> or \<open>p\<close> has another type than the annotations
  declare (Python would carry such a value along unchecked).
\<close>

definition from_dict :: "(string, pyval) pydict \<Rightarrow> nat option \<Rightarrow> cursors_state option" where
  "from_dict st mp =
     (let after =
        (case dget st ''a'' of
           None \<Rightarrow> Some None | Some PNone \<Rightarrow> Some None | Some (PStr a) \<Rightarrow> Some (Some a)
         | Some _ \<Rightarrow> None);
          partials =
        (case dget st ''p'' of
           None \<Rightarrow> Some []
         | Some v \<Rightarrow>
             if \<not> truthy v then Some []
             else (case v of
                 PList vs \<Rightarrow>
                   if list_all (\<lambda>v. str_of v \<noteq> None) vs
                   then Some (remdups (List.map_filter str_of vs)) else None
               | _ \<Rightarrow> None))
      in case (after, partials) of
           (Some a, Some ps) \<Rightarrow> Some (initial_cursors a ps mp)
         | _ \<Rightarrow> None)"

text \<open>A parsed cursor is structured when it is a dict at version 1 with no unknown key.\<close>

definition structured :: "pyval option \<Rightarrow> (string, pyval) pydict option" where
  "structured v =
     (case v of
        Some (PDict d) \<Rightarrow>
          if (dget d ''v'' = Some (PInt 1) \<or> dget d ''v'' = Some (PBool True)) \<and>
             set (dkeys d) \<subseteq> {''v'', ''a'', ''p''}
          then Some d else None
      | _ \<Rightarrow> None)"

definition from_cursor :: "string option \<Rightarrow> nat option \<Rightarrow> cursors_state option" where
  "from_cursor raw mp =
     (case raw of
        None \<Rightarrow> from_dict [] mp
      | Some r \<Rightarrow>
          if r = [] then from_dict [] mp
          else (case structured (loads r) of
                  Some d \<Rightarrow> from_dict d mp
                | None \<Rightarrow> from_dict [(''a'', PStr r)] mp))"

section \<open>Round trip\<close>

lemma wfp_as_dict: "wfp (PDict (as_dict s))"
  by (auto simp: as_dict_def Let_def dset_def split: option.splits)

lemma map_filter_str_of [simp]: "List.map_filter str_of (map PStr xs) = xs"
  by (induction xs) (auto simp: str_of_def map_filter_simps)

lemma as_dict_cases:
  "as_dict s = (''v'', PInt 1) # (case cs_after s of None \<Rightarrow> [] | Some a \<Rightarrow> [(''a'', PStr a)])
     @ (if saved_partials s = [] then [] else [(''p'', PList (map PStr (sort (saved_partials s))))])"
  by (auto simp: as_dict_def Let_def dset_def split: option.splits)

lemma saved_partials_distinct: "distinct (saved_partials s)"
  by (auto simp: saved_partials_def Let_def split: option.splits)

lemma from_dict_as_dict:
  "from_dict (as_dict s) mp = Some (initial_cursors (cs_after s) (sort (saved_partials s)) mp)"
proof -
  have "list_all (\<lambda>v. str_of v \<noteq> None) (map PStr xs)" for xs
    by (auto simp: list_all_iff str_of_def)
  moreover have "remdups (sort (saved_partials s)) = sort (saved_partials s)"
    by (simp add: saved_partials_distinct distinct_remdups_id)
  moreover have "sort (saved_partials s) = [] \<longleftrightarrow> saved_partials s = []"
    by (metis set_sort set_empty)
  ultimately show ?thesis
    by (auto simp: from_dict_def as_dict_cases Let_def saved_partials_distinct distinct_remdups_id
        split: option.splits)
qed

lemma structured_as_dict: "structured (Some (PDict (as_dict s))) = Some (as_dict s)"
  by (auto simp: structured_def as_dict_cases split: option.splits)

lemma from_cursor_as_cursor:
  "from_cursor (as_cursor s) mp = Some (initial_cursors (cs_after s) (sort (saved_partials s)) mp)"
proof (cases "as_dict s = [(''v'', PInt 1)]")
  case True
  then have "cs_after s = None" and "saved_partials s = []"
    by (auto simp: as_dict_cases split: option.splits if_splits)
  with True show ?thesis by (simp add: as_cursor_def from_cursor_def from_dict_def initial_cursors_def)
next
  case False
  have "loads (dumps (PDict (as_dict s))) = Some (PDict (as_dict s))"
    by (rule json.dec_enc) (rule wfp_as_dict)
  with False show ?thesis
    by (simp add: as_cursor_def from_cursor_def json.enc_nonempty structured_as_dict from_dict_as_dict)
qed

section \<open>Runs\<close>

inductive cursor_run :: "cursors_state \<Rightarrow> item list \<Rightarrow> item set \<Rightarrow> cursors_state \<Rightarrow> bool" for s0 where
  run_start: "cursor_run s0 [] {} s0"
| run_enter: "cursor_run s0 E F s \<Longrightarrow> it_oid i \<notin> it_oid ` set E \<Longrightarrow>
     cursor_run s0 (E @ [i]) F (snd (process_enter s i))"
| run_exit: "cursor_run s0 E F s \<Longrightarrow> i \<in> set E \<Longrightarrow> i \<notin> F \<Longrightarrow>
     cursor_run s0 E (insert i F) (process_exit s i)"

definition pending_entries :: "item set \<Rightarrow> item list \<Rightarrow> (nat, bool \<times> item) pydict" where
  "pending_entries F xs = map (\<lambda>i. (it_oid i, i \<notin> F, i)) xs"

text \<open>The state in closed form: emitted items \<open>E\<close>, finished items \<open>F\<close>.\<close>

definition cursor_state_of :: "cursors_state \<Rightarrow> item list \<Rightarrow> item set \<Rightarrow> cursors_state" where
  "cursor_state_of s0 E F = s0\<lparr>
     cs_after := commit_cursor (takeWhile (\<lambda>i. i \<in> F) E) (cs_after s0),
     cs_partials := filter (\<lambda>c. c = [] \<or> Some c \<notin> it_cursor ` set E) (cs_partials s0),
     cs_pendings := pending_entries F (dropWhile (\<lambda>i. i \<in> F) E)\<rparr>"

lemma find_app: "find P (xs @ ys) = (case find P xs of None \<Rightarrow> find P ys | Some x \<Rightarrow> Some x)"
  by (induction xs) auto

lemma commit_cursor_append:
  "commit_cursor (xs @ ys) a = commit_cursor ys (commit_cursor xs a)"
  by (auto simp: commit_cursor_def find_app split: option.splits)

lemma commit_cursor_Nil [simp]: "commit_cursor [] a = a"
  by (simp add: commit_cursor_def)

lemma dkeys_pending_entries: "dkeys (pending_entries F xs) = map it_oid xs"
  by (simp add: pending_entries_def)

lemma dset_pending_entries:
  assumes "distinct (map it_oid xs)" and "i \<in> set xs"
  shows "dset (it_oid i) (False, i) (pending_entries F xs) = pending_entries (insert i F) xs"
  using assms
proof (induction xs)
  case (Cons x xs)
  show ?case
  proof (cases "x = i")
    case True
    with Cons.prems have "j \<in> set xs \<Longrightarrow> j \<noteq> i" for j by auto
    then have "pending_entries (insert i F) xs = pending_entries F xs"
      by (auto simp: pending_entries_def)
    with True show ?thesis by (simp add: pending_entries_def dset_def)
  next
    case False
    with Cons.prems have "i \<in> set xs" and "it_oid x \<noteq> it_oid i" by auto
    with Cons False show ?thesis by (simp add: pending_entries_def dset_def)
  qed
qed simp

lemma takeWhile_pending_entries:
  "map (\<lambda>p. snd (snd p)) (takeWhile (\<lambda>p. \<not> fst (snd p)) (pending_entries F xs))
    = takeWhile (\<lambda>i. i \<in> F) xs"
  by (induction xs) (auto simp: pending_entries_def)

lemma fold_dpop_notin: "k \<notin> fst ` set d \<Longrightarrow> dpop k d = d"
  by (auto simp: dpop_def)

lemma fold_dpop_prefix:
  assumes "distinct (map it_oid (xs @ ys))"
  shows "fold (\<lambda>j. dpop (it_oid j)) xs (pending_entries F (xs @ ys)) = pending_entries F ys"
  using assms
proof (induction xs)
  case (Cons x xs)
  then have "it_oid x \<notin> fst ` set (pending_entries F (xs @ ys))"
    by (auto simp: pending_entries_def)
  then have "dpop (it_oid x) (pending_entries F ((x # xs) @ ys)) = pending_entries F (xs @ ys)"
    by (simp add: pending_entries_def dpop_def)
  with Cons show ?case by simp
qed simp

lemma dropWhile_insert:
  "dropWhile (\<lambda>j. j \<in> insert i F) (dropWhile (\<lambda>j. j \<in> F) E) = dropWhile (\<lambda>j. j \<in> insert i F) E"
  "takeWhile (\<lambda>j. j \<in> F) E @ takeWhile (\<lambda>j. j \<in> insert i F) (dropWhile (\<lambda>j. j \<in> F) E)
    = takeWhile (\<lambda>j. j \<in> insert i F) E"
  by (induction E) auto

lemma cursor_state_exit:
  assumes d: "distinct (map it_oid E)" and i: "i \<in> set E" "i \<notin> F"
  shows "process_exit (cursor_state_of s0 E F) i = cursor_state_of s0 E (insert i F)"
proof -
  let ?R = "dropWhile (\<lambda>j. j \<in> F) E" and ?D = "takeWhile (\<lambda>j. j \<in> insert i F) (dropWhile (\<lambda>j. j \<in> F) E)"
  have "E = takeWhile (\<lambda>j. j \<in> F) E @ ?R" by simp
  then have iR: "i \<in> set ?R" using i by (metis Un_iff set_append set_takeWhileD)
  have dR: "distinct (map it_oid ?R)"
    using d by (metis distinct_append map_append takeWhile_dropWhile_id)
  have split: "?R = ?D @ dropWhile (\<lambda>j. j \<in> insert i F) E"
    using dropWhile_insert(1) [of i F E] by (metis takeWhile_dropWhile_id)
  have ps: "dset (it_oid i) (False, i) (pending_entries F ?R) = pending_entries (insert i F) ?R"
    using dR iR by (rule dset_pending_entries)
  have "fold (\<lambda>j. dpop (it_oid j)) ?D (pending_entries (insert i F) ?R)
      = pending_entries (insert i F) (dropWhile (\<lambda>j. j \<in> insert i F) E)"
    using dR split fold_dpop_prefix by metis
  moreover have "commit_cursor ?D (commit_cursor (takeWhile (\<lambda>j. j \<in> F) E) (cs_after s0))
      = commit_cursor (takeWhile (\<lambda>j. j \<in> insert i F) E) (cs_after s0)"
    by (simp only: commit_cursor_append [symmetric] dropWhile_insert(2))
  ultimately show ?thesis
    by (simp add: process_exit_def cursor_state_of_def Let_def ps takeWhile_pending_entries
        del: insert_iff)
qed

lemma dropWhile_snoc_notin: "x \<notin> F \<Longrightarrow>
   dropWhile (\<lambda>i. i \<in> F) (E @ [x]) = dropWhile (\<lambda>i. i \<in> F) E @ [x] \<and>
   takeWhile (\<lambda>i. i \<in> F) (E @ [x]) = takeWhile (\<lambda>i. i \<in> F) E"
  by (induction E) auto

lemma remove1_filter_distinct:
  "distinct ps \<Longrightarrow> remove1 c (filter P ps) = filter (\<lambda>x. P x \<and> x \<noteq> c) ps"
  by (induction ps) (auto intro: filter_cong)

lemma cursor_state_enter:
  assumes "it_oid i \<notin> it_oid ` set E" and "F \<subseteq> set E" and "distinct (cs_partials s0)"
  shows "snd (process_enter (cursor_state_of s0 E F) i) = cursor_state_of s0 (E @ [i]) F"
proof -
  have notF: "i \<notin> F" using assms by auto
  let ?R = "dropWhile (\<lambda>j. j \<in> F) E"
  have "set ?R \<subseteq> set E" by (auto dest: set_dropWhileD)
  then have "it_oid i \<notin> set (dkeys (pending_entries F ?R))"
    using assms(1) by (auto simp: dkeys_pending_entries)
  then have "dset (it_oid i) (True, i) (pending_entries F ?R) = pending_entries F ?R @ [(it_oid i, True, i)]"
    by (rule dset_new)
  then have "dset (it_oid i) (True, i) (pending_entries F ?R) = pending_entries F (?R @ [i])"
    using notF by (simp add: pending_entries_def)
  then have pend: "dset (it_oid i) (True, i) (cs_pendings (cursor_state_of s0 E F))
      = cs_pendings (cursor_state_of s0 (E @ [i]) F)"
    using dropWhile_snoc_notin [OF notF, of E] by (simp add: cursor_state_of_def)
  let ?Q = "cs_partials (cursor_state_of s0 E F)"
  have part: "cs_partials (cursor_state_of s0 (E @ [i]) F) =
      (case it_cursor i of None \<Rightarrow> ?Q | Some c \<Rightarrow> if c \<noteq> [] \<and> c \<in> set ?Q then remove1 c ?Q else ?Q)"
    using assms(3) by (auto simp: cursor_state_of_def remove1_filter_distinct
        intro!: filter_cong split: option.splits)
  have after: "cs_after (cursor_state_of s0 (E @ [i]) F) = cs_after (cursor_state_of s0 E F)"
    using dropWhile_snoc_notin [OF notF, of E] by (simp add: cursor_state_of_def)
  have rest: "cs_max_partials (cursor_state_of s0 E' F) = cs_max_partials s0"
    "cursors_state.more (cursor_state_of s0 E' F) = cursors_state.more s0" for E'
    by (simp_all add: cursor_state_of_def)
  show ?thesis
    by (rule cursors_state.equality)
      (simp_all add: process_enter_def Let_def pend part after rest split: option.splits)
qed

lemma cursor_run_props:
  assumes "cursor_run s0 E F s"
  shows "F \<subseteq> set E" and "distinct (map it_oid E)"
  using assms by (induction rule: cursor_run.induct) auto

lemma cursor_run_state:
  assumes "cursor_run s0 E F s" and "cs_pendings s0 = []" and "distinct (cs_partials s0)"
  shows "s = cursor_state_of s0 E F"
  using assms
proof (induction rule: cursor_run.induct)
  case run_start
  then show ?case by (simp add: cursor_state_of_def pending_entries_def)
next
  case (run_enter E F s i)
  then show ?case
    using cursor_state_enter [OF run_enter.hyps(2) cursor_run_props(1) [OF run_enter.hyps(1)]] by simp
next
  case (run_exit E F s i)
  then show ?case
    using cursor_state_exit [OF cursor_run_props(2) [OF run_exit.hyps(1)]] by simp
qed

section \<open>Resuming\<close>

text \<open>
  What an inventory promises of \<open>iterate(after)\<close>: the items of its list that follow the one
  with that cursor. \<open>run_items\<close> is the loop of \<open>Inventory.run\<close>: an item whose cursor is among
  the partials is entered and left at once, the others are yielded.
\<close>

definition items_after :: "string option \<Rightarrow> item list \<Rightarrow> item list" where
  "items_after a xs =
     (case a of None \<Rightarrow> xs | Some c \<Rightarrow> drop 1 (dropWhile (\<lambda>i. it_cursor i \<noteq> Some c) xs))"

fun run_items :: "cursors_state \<Rightarrow> item list \<Rightarrow> item list \<times> cursors_state" where
  "run_items s [] = ([], s)"
| "run_items s (i # is) =
     (let (fresh, s1) = process_enter s i
      in if fresh then (let (ys, s2) = run_items s1 is in (i # ys, s2))
         else run_items (process_exit s1 i) is)"

definition is_partial :: "string list \<Rightarrow> item \<Rightarrow> bool" where
  "is_partial ps i \<longleftrightarrow> (case it_cursor i of None \<Rightarrow> False | Some c \<Rightarrow> c \<noteq> [] \<and> c \<in> set ps)"

lemma process_enter_fst: "fst (process_enter s i) = (\<not> is_partial (cs_partials s) i)"
  by (auto simp: process_enter_def is_partial_def Let_def split: option.splits)

lemma process_enter_partials:
  "cs_partials (snd (process_enter s i)) =
    (if is_partial (cs_partials s) i then remove1 (the (it_cursor i)) (cs_partials s) else cs_partials s)"
  by (auto simp: process_enter_def is_partial_def Let_def split: option.splits)

lemma process_exit_partials [simp]: "cs_partials (process_exit s i) = cs_partials s"
  by (simp add: process_exit_def Let_def)

lemma run_items_filter:
  assumes "distinct (map it_cursor xs)" and "distinct (cs_partials s)"
  shows "fst (run_items s xs) = filter (\<lambda>i. \<not> is_partial (cs_partials s) i) xs"
  using assms
proof (induction xs arbitrary: s)
  case (Cons i xs)
  obtain fresh s1 where e: "process_enter s i = (fresh, s1)" by fastforce
  have fresh: "fresh \<longleftrightarrow> \<not> is_partial (cs_partials s) i" using process_enter_fst [of s i] e by simp
  have p1: "cs_partials s1 =
      (if fresh then cs_partials s else remove1 (the (it_cursor i)) (cs_partials s))"
    using process_enter_partials [of s i] e fresh by simp
  have same: "is_partial (cs_partials s1) j = is_partial (cs_partials s) j" if "j \<in> set xs" for j
  proof -
    from that Cons.prems(1) have "it_cursor j \<noteq> it_cursor i"
      by (metis distinct.simps(2) image_eqI list.simps(9) set_map)
    then show ?thesis
      using p1 fresh by (auto simp: is_partial_def split: option.splits if_splits)
  qed
  have d1: "distinct (cs_partials s1)" using p1 Cons.prems(2) by simp
  have IH: "fst (run_items s' xs) = filter (\<lambda>j. \<not> is_partial (cs_partials s) j) xs"
    if "cs_partials s' = cs_partials s1" for s'
    using Cons.IH [of s'] Cons.prems(1) that d1 same by (auto intro: filter_cong)
  show ?case
    using fresh IH [of s1] IH [of "process_exit s1 i"] by (simp add: e split_def)
qed simp

lemma items_after_suffix: "\<exists>pre. xs = pre @ items_after a xs"
proof (cases a)
  case (Some c)
  show ?thesis
    by (metis Some append.assoc append_take_drop_id items_after_def option.simps(5)
        takeWhile_dropWhile_id)
qed (simp add: items_after_def)

lemma items_after_last:
  assumes "distinct (map it_cursor (pre @ p # q))" and "it_cursor p = Some c"
  shows "items_after (Some c) (pre @ p # q) = q"
proof -
  have "dropWhile (\<lambda>i. it_cursor i \<noteq> Some c) (pre @ p # q) = p # q"
    using assms by (subst dropWhile_append2) (auto simp: image_iff)
  then show ?thesis by (simp add: items_after_def)
qed

lemma commit_cursor_last:
  "\<forall>i \<in> set xs. struthy (it_cursor i) \<Longrightarrow> xs \<noteq> [] \<Longrightarrow> commit_cursor xs a = it_cursor (last xs)"
  by (cases xs rule: rev_cases) (auto simp: commit_cursor_def)

text \<open>The items that still matter: neither finished, nor skipped by the starting state.\<close>

definition remaining :: "cursors_state \<Rightarrow> item list \<Rightarrow> item set \<Rightarrow> item list \<Rightarrow> item list" where
  "remaining s0 E F ys =
     filter (\<lambda>i. i \<notin> F \<and> (i \<in> set E \<or> \<not> is_partial (cs_partials s0) i)) ys"

lemma saved_partials_subset:
  "set (saved_partials s) \<subseteq> set (cs_partials s) \<union> set (partials_cursors s)"
  by (auto simp: saved_partials_def Let_def dest: in_set_takeD split: option.splits if_splits)

lemma saved_partials_unlimited:
  "cs_max_partials s = None \<Longrightarrow>
    set (saved_partials s) = set (cs_partials s) \<union> set (partials_cursors s)"
  by (auto simp: saved_partials_def)

lemma partials_cursors_state:
  "set (partials_cursors (cursor_state_of s0 E F)) =
    {c. \<exists>i \<in> set (dropWhile (\<lambda>i. i \<in> F) E). i \<in> F \<and> it_cursor i = Some c}"
proof -
  have "set (List.map_filter (\<lambda>(_, pending, i). if pending then None else it_cursor i)
      (pending_entries F xs)) = {c. \<exists>i \<in> set xs. i \<in> F \<and> it_cursor i = Some c}" for xs
    by (induction xs) (auto simp: pending_entries_def map_filter_simps split: option.splits)
  then show ?thesis by (simp add: partials_cursors_def cursor_state_of_def)
qed

lemma cursor_run_after:
  assumes run: "cursor_run s0 E F s" and s0: "cs_pendings s0 = []" "distinct (cs_partials s0)"
    and xs: "distinct (map it_cursor xs)" "\<forall>i \<in> set xs. struthy (it_cursor i)"
    and ys: "items_after (cs_after s0) xs = E @ rest"
  shows "items_after (cs_after s) xs = dropWhile (\<lambda>i. i \<in> F) E @ rest"
proof -
  let ?P = "takeWhile (\<lambda>i. i \<in> F) E" and ?R = "dropWhile (\<lambda>i. i \<in> F) E"
  obtain pre where pre: "xs = pre @ E @ rest" using items_after_suffix ys by metis
  have E: "E = ?P @ ?R" by simp
  have after: "cs_after s = commit_cursor ?P (cs_after s0)"
    using cursor_run_state [OF run s0] by (simp add: cursor_state_of_def)
  show ?thesis
  proof (cases "?P = []")
    case True
    then have "?R = E" using E by (metis append_Nil)
    with True after ys show ?thesis by simp
  next
    case False
    then have tr: "struthy (it_cursor (last ?P))" and cc: "cs_after s = it_cursor (last ?P)"
      using xs(2) pre after commit_cursor_last [of ?P]
      by (auto dest: set_takeWhileD last_in_set)
    then obtain c where c: "it_cursor (last ?P) = Some c" by (auto simp: struthy_iff)
    have "xs = (pre @ butlast ?P) @ last ?P # (?R @ rest)"
      using False E pre by (metis append.assoc append_Cons append_Nil append_butlast_last_id)
    then show ?thesis
      using items_after_last [of "pre @ butlast ?P" "last ?P" "?R @ rest" c] xs(1) c cc by metis
  qed
qed

lemma cursor_run_partials:
  assumes "cursor_run s0 E F s" and "cs_pendings s0 = []" "distinct (cs_partials s0)"
  shows "set (cs_partials s) = {c \<in> set (cs_partials s0). c = [] \<or> Some c \<notin> it_cursor ` set E}"
    and "set (partials_cursors s) =
      {c. \<exists>i \<in> set (dropWhile (\<lambda>i. i \<in> F) E). i \<in> F \<and> it_cursor i = Some c}"
    and "cs_max_partials s = cs_max_partials s0"
  using cursor_run_state [OF assms]
  by (simp_all add: partials_cursors_state) (simp_all add: cursor_state_of_def)

lemma resumed_items:
  assumes "from_cursor (as_cursor s) mp = Some s'" and "distinct (map it_cursor xs)"
  shows "fst (run_items s' (items_after (cs_after s') xs)) =
    filter (\<lambda>i. \<not> is_partial (saved_partials s) i) (items_after (cs_after s) xs)"
proof -
  have s': "s' = initial_cursors (cs_after s) (sort (saved_partials s)) mp"
    using assms(1) by (simp add: from_cursor_as_cursor)
  obtain pre where "xs = pre @ items_after (cs_after s) xs" using items_after_suffix by blast
  then have "distinct (map it_cursor (items_after (cs_after s) xs))"
    using assms(2) by (metis distinct_append map_append)
  then show ?thesis
    using saved_partials_distinct [of s]
    by (simp add: s' run_items_filter initial_cursors_def is_partial_def cong: option.case_cong)
qed

lemma partial_item_done:
  assumes run: "cursor_run s0 E F s" and s0: "cs_pendings s0 = []" "distinct (cs_partials s0)"
    and d: "distinct (map it_cursor (E @ rest))" and i: "i \<in> set (dropWhile (\<lambda>i. i \<in> F) E @ rest)"
    and p: "is_partial (saved_partials s) i"
  shows "i \<in> F \<or> (i \<notin> set E \<and> is_partial (cs_partials s0) i)"
proof -
  obtain c where c: "it_cursor i = Some c" "c \<noteq> []" "c \<in> set (saved_partials s)"
    using p by (auto simp: is_partial_def split: option.splits)
  have inj: "j = i" if "j \<in> set E" "it_cursor j = Some c" for j
  proof -
    have "inj_on it_cursor (set (E @ rest))" using d by (simp only: distinct_map)
    moreover have "i \<in> set (E @ rest)" using i by (auto dest: set_dropWhileD)
    moreover have "j \<in> set (E @ rest)" using that by simp
    ultimately show ?thesis using that c(1) by (metis inj_onD)
  qed
  from c(3) saved_partials_subset [of s]
  consider "c \<in> set (cs_partials s)" | "c \<in> set (partials_cursors s)" by blast
  then show ?thesis
  proof cases
    case 1
    with c show ?thesis
      using cursor_run_partials(1) [OF run s0] by (auto simp: is_partial_def image_iff)
  next
    case 2
    then show ?thesis
      using cursor_run_partials(2) [OF run s0] inj by (auto dest: set_dropWhileD)
  qed
qed

lemma resumed_not_lost:
  assumes run: "cursor_run s0 E F s" and s0: "cs_pendings s0 = []" "distinct (cs_partials s0)"
    and xs: "distinct (map it_cursor xs)" "\<forall>i \<in> set xs. struthy (it_cursor i)"
    and ys: "items_after (cs_after s0) xs = E @ rest"
    and load: "from_cursor (as_cursor s) mp = Some s'"
    and i: "i \<in> set (remaining s0 E F (E @ rest))"
  shows "i \<in> set (fst (run_items s' (items_after (cs_after s') xs)))"
proof -
  obtain pre where pre: "xs = pre @ E @ rest" using items_after_suffix ys by metis
  have d: "distinct (map it_cursor (E @ rest))" using xs(1) pre by simp
  have after: "items_after (cs_after s) xs = dropWhile (\<lambda>i. i \<in> F) E @ rest"
    by (rule cursor_run_after [OF run s0 xs ys])
  have "i \<in> set (E @ rest)" and "i \<notin> F"
    using i by (auto simp: remaining_def)
  moreover have "set E = set (takeWhile (\<lambda>i. i \<in> F) E) \<union> set (dropWhile (\<lambda>i. i \<in> F) E)"
    by (metis set_append takeWhile_dropWhile_id)
  ultimately have iR: "i \<in> set (dropWhile (\<lambda>i. i \<in> F) E @ rest)"
    by (metis Un_iff set_append set_takeWhileD)
  have "\<not> is_partial (saved_partials s) i"
    using partial_item_done [OF run s0 d iR] i by (auto simp: remaining_def)
  with iR show ?thesis by (simp only: resumed_items [OF load xs(1)] after set_filter) simp
qed

text \<open>A concrete run: items 0 and 1 are taken, item 1 finishes first.\<close>

definition demo_items :: "item list" where
  "demo_items = [new_item 0 ''0'' [], new_item 1 ''1'' [], new_item 2 ''2'' []]"

definition demo_state :: cursors_state where
  "demo_state =
     (let s0 = initial_cursors None [] None;
          s1 = snd (process_enter s0 (demo_items ! 0));
          s2 = snd (process_enter s1 (demo_items ! 1))
      in process_exit s2 (demo_items ! 1))"

lemma demo_run:
  "cursor_run (initial_cursors None [] None) [demo_items ! 0, demo_items ! 1] {demo_items ! 1} demo_state"
proof -
  have 1: "cursor_run (initial_cursors None [] None) ([] @ [demo_items ! 0]) {}
      (snd (process_enter (initial_cursors None [] None) (demo_items ! 0)))"
    by (rule run_enter, rule run_start) simp
  have 2: "cursor_run (initial_cursors None [] None) ([demo_items ! 0] @ [demo_items ! 1]) {}
      (snd (process_enter (snd (process_enter (initial_cursors None [] None) (demo_items ! 0)))
        (demo_items ! 1)))"
    using 1 by (rule_tac run_enter) (simp_all add: demo_items_def new_item_def)
  from run_exit [OF 2, of "demo_items ! 1"] show ?thesis by (simp add: demo_state_def)
qed

lemma demo_load:
  "from_cursor (as_cursor demo_state) (Some 100) = Some (initial_cursors None [''1''] (Some 100))"
  by (simp add: from_cursor_as_cursor demo_state_def demo_items_def
      new_item_def process_exit_def process_enter_def initial_cursors_def Let_def dset_def
      commit_cursor_def saved_partials_def partials_cursors_def map_filter_simps)

lemma demo_hyps:
  "cs_pendings (initial_cursors None [] None) = []"
  "distinct (cs_partials (initial_cursors None [] None))"
  "cs_max_partials (initial_cursors None [] None) = None"
  "distinct (map it_cursor demo_items)" "\<forall>i \<in> set demo_items. struthy (it_cursor i)"
  "items_after (cs_after (initial_cursors None [] None)) demo_items =
     [demo_items ! 0, demo_items ! 1] @ [demo_items ! 2]"
  by (simp_all add: initial_cursors_def demo_items_def new_item_def items_after_def)



text \<open>
  With no bound on the stored partial cursors, resuming repeats nothing either: it yields
  exactly the remaining items, in the order of the inventory.
\<close>

theorem resume_exact:
  assumes run: "cursor_run s0 E F s" and s0: "cs_pendings s0 = []" "distinct (cs_partials s0)"
    and unlimited: "cs_max_partials s0 = None"
    and xs: "distinct (map it_cursor xs)" "\<forall>i \<in> set xs. struthy (it_cursor i)"
    and ys: "items_after (cs_after s0) xs = E @ rest"
    and load: "from_cursor (as_cursor s) mp = Some s'"
  shows "fst (run_items s' (items_after (cs_after s') xs)) = remaining s0 E F (E @ rest)"
proof -
  obtain pre where pre: "xs = pre @ E @ rest" using items_after_suffix ys by metis
  have d: "distinct (map it_cursor (E @ rest))" using xs(1) pre by simp
  let ?P = "takeWhile (\<lambda>i. i \<in> F) E" and ?R = "dropWhile (\<lambda>i. i \<in> F) E"
  have after: "items_after (cs_after s) xs = ?R @ rest"
    by (rule cursor_run_after [OF run s0 xs ys])
  have FE: "F \<subseteq> set E" using cursor_run_props(1) [OF run] .
  have sp: "set (saved_partials s) = set (cs_partials s) \<union> set (partials_cursors s)"
    using cursor_run_partials(3) [OF run s0] unlimited by (intro saved_partials_unlimited) simp
  have "is_partial (saved_partials s) i \<longleftrightarrow> i \<in> F \<or> (i \<notin> set E \<and> is_partial (cs_partials s0) i)"
    if i: "i \<in> set (?R @ rest)" for i
  proof
    assume "i \<in> F \<or> (i \<notin> set E \<and> is_partial (cs_partials s0) i)"
    moreover have "struthy (it_cursor i)" using i xs(2) pre by (auto dest: set_dropWhileD)
    then obtain c where c: "it_cursor i = Some c" "c \<noteq> []" by (auto simp: struthy_iff)
    moreover have "i \<in> set ?R" if "i \<in> F"
      using that i FE d by (auto dest: set_dropWhileD)
    moreover have "Some c \<notin> it_cursor ` set E" if "i \<notin> set E"
    proof -
      from that i have "i \<in> set rest" by (auto dest: set_dropWhileD)
      then show ?thesis using d c(1) by (metis IntI distinct_append empty_iff image_eqI map_append set_map)
    qed
    ultimately show "is_partial (saved_partials s) i"
      using sp cursor_run_partials(1,2) [OF run s0] by (auto simp: is_partial_def)
  qed (rule partial_item_done [OF run s0 d i])
  then have "filter (\<lambda>i. \<not> is_partial (saved_partials s) i) (?R @ rest)
      = remaining s0 E F (?R @ rest)"
    unfolding remaining_def by (intro filter_cong) auto
  also have "\<dots> = remaining s0 E F (?P @ ?R @ rest)"
    by (auto simp: remaining_def filter_empty_conv dest: set_takeWhileD)
  also have "?P @ ?R @ rest = E @ rest" by (metis append.assoc takeWhile_dropWhile_id)
  finally show ?thesis by (simp only: resumed_items [OF load xs(1)] after)
qed

lemma resume_exact_witness:
  "fst (run_items (initial_cursors None [''1''] (Some 100)) demo_items) = [demo_items ! 0, demo_items ! 2]"
proof -
  have "remaining (initial_cursors None [] None)
      [demo_items ! 0, demo_items ! 1] {demo_items ! 1}
      ([demo_items ! 0, demo_items ! 1] @ [demo_items ! 2]) = [demo_items ! 0, demo_items ! 2]"
    by (simp add: remaining_def demo_items_def new_item_def is_partial_def initial_cursors_def)
  with resume_exact [OF demo_run demo_hyps(1-6) demo_load]
  show ?thesis by (simp add: initial_cursors_def items_after_def)
qed

end
