(* ===== verification/Inventories.thy ===== *)
theory Inventories
  imports Cursors
begin

text \<open>
  \<open>worker/inventory.py\<close> (\<open>RetryBatch\<close>, \<open>Inventory.iterate\<close>) and the inventories of
  \<open>worker/inventories/\<close> that produce items by themselves: static, dummy, loop, periodic and
  batching.

  \<open>iterate_inv\<close> is the loop of \<open>iterate\<close>: it calls \<open>next_batch\<close> (an argument: call number and
  cursor to outcome), retries on \<open>RetryBatch\<close>, and emits the trace of what it yields and how
  long it sleeps. It is bounded by fuel; \<open>IterOutOfFuel\<close> is a loop cut short.

  The locale \<open>paged_inventory\<close> is the contract of \<open>next_batch\<close> ("a batch of items with id
  greater than after"), interpreted on the static and the dummy inventory; its client
  lemma is that \<open>iterate\<close> then emits exactly the items that follow the cursor.
\<close>

section \<open>Retries\<close>

record retry_batch =
  rb_delay :: "time option"
  rb_max_retries :: int

datatype batch_outcome =
    Batch "item list"
  | Retry retry_batch
  | Failed exn

definition check_max_retries :: "retry_batch \<Rightarrow> int \<Rightarrow> unit result" where
  "check_max_retries rb retries = (if retries \<ge> rb_max_retries rb then Inl MaxRetriesError else Inr ())"

datatype iter_event = Yield item | Sleep time

datatype iter_end = IterDone | IterRaised exn | IterOutOfFuel

definition wait_delay :: "retry_batch \<Rightarrow> iter_event list" where
  "wait_delay rb = (case rb_delay rb of None \<Rightarrow> [] | Some d \<Rightarrow> if d = 0 then [] else [Sleep d])"

fun iterate_inv ::
  "nat \<Rightarrow> (nat \<Rightarrow> string option \<Rightarrow> batch_outcome) \<Rightarrow> nat \<Rightarrow> int \<Rightarrow> string option \<Rightarrow>
    iter_event list \<times> iter_end" where
  "iterate_inv 0 nb call retries after = ([], IterOutOfFuel)"
| "iterate_inv (Suc fuel) nb call retries after =
     (case nb call after of
        Failed e \<Rightarrow> ([], IterRaised e)
      | Retry rb \<Rightarrow>
          (case check_max_retries rb retries of
             Inl e \<Rightarrow> ([], IterRaised e)
           | Inr _ \<Rightarrow>
               (let (evs, fin) = iterate_inv fuel nb (call + 1) (retries + 1) after
                in (wait_delay rb @ evs, fin)))
      | Batch batch \<Rightarrow>
          if batch = [] then ([], IterDone)
          else (let (evs, fin) = iterate_inv fuel nb (call + 1) 0 (it_cursor (last batch))
                in (map Yield batch @ evs, fin)))"

definition yields :: "iter_event list \<Rightarrow> item list" where
  "yields evs = List.map_filter (\<lambda>e. case e of Yield i \<Rightarrow> Some i | Sleep _ \<Rightarrow> None) evs"

lemma yields_simps [simp]:
  "yields [] = []" "yields (Yield i # evs) = i # yields evs" "yields (Sleep d # evs) = yields evs"
  "yields (a @ b) = yields a @ yields b" "yields (map Yield xs) = xs" "yields (wait_delay rb) = []"
proof -
  show app: "yields (a @ b) = yields a @ yields b" for a b
    by (simp add: yields_def map_filter_def)
  show "yields (map Yield xs) = xs"
    by (induction xs) (simp_all add: yields_def map_filter_simps)
  show "yields (wait_delay rb) = []"
    by (simp add: wait_delay_def yields_def map_filter_simps split: option.splits)
qed (simp_all add: yields_def map_filter_simps)

section \<open>The contract of next_batch\<close>

locale paged_inventory =
  fixes page :: "string option \<Rightarrow> item list" and xs :: "item list"
  assumes page_slice: "a = None \<or> a \<in> it_cursor ` set xs \<Longrightarrow> \<exists>n. page a = take n (items_after a xs)"
    and page_progress: "a = None \<or> a \<in> it_cursor ` set xs \<Longrightarrow> items_after a xs \<noteq> [] \<Longrightarrow> page a \<noteq> []"
    and cursors_distinct: "distinct (map it_cursor xs)"
    and cursors_some: "i \<in> set xs \<Longrightarrow> it_cursor i \<noteq> None"
begin

definition serves :: "int \<Rightarrow> (nat \<Rightarrow> string option \<Rightarrow> batch_outcome) \<Rightarrow> bool" where
  "serves M nb \<longleftrightarrow>
     (\<forall>k a. a = None \<or> a \<in> it_cursor ` set xs \<longrightarrow>
        nb k a = Batch (page a) \<or> (\<exists>rb. nb k a = Retry rb \<and> rb_max_retries rb \<le> M))"

lemma page_next:
  assumes "a = None \<or> a \<in> it_cursor ` set xs" and "page a \<noteq> []"
  shows "it_cursor (last (page a)) \<in> it_cursor ` set xs"
    and "items_after a xs = page a @ items_after (it_cursor (last (page a))) xs"
proof -
  obtain n where n: "page a = take n (items_after a xs)" using page_slice assms(1) by blast
  obtain pre where pre: "xs = pre @ items_after a xs" using items_after_suffix by blast
  have split: "items_after a xs = page a @ drop n (items_after a xs)" by (simp add: n)
  have l: "last (page a) \<in> set xs"
    using assms(2) pre split by (metis Un_iff last_in_set set_append)
  then show "it_cursor (last (page a)) \<in> it_cursor ` set xs" by simp
  obtain c where c: "it_cursor (last (page a)) = Some c" using l cursors_some by blast
  have "xs = (pre @ butlast (page a)) @ last (page a) # drop n (items_after a xs)"
    using pre split assms(2) by (metis append.assoc append_Cons append_Nil append_butlast_last_id)
  then have "items_after (Some c) xs = drop n (items_after a xs)"
    using items_after_last [of "pre @ butlast (page a)" "last (page a)" _ c] cursors_distinct c by metis
  with split c show "items_after a xs = page a @ items_after (it_cursor (last (page a))) xs" by simp
qed

text \<open>
  Whatever transient failures \<open>next_batch\<close> reports, \<open>iterate\<close> ends within the fuel below, skips
  nothing and repeats nothing; it stops short only with \<open>MaxRetriesError\<close>.
\<close>

lemma iterate_serves:
  assumes "serves (int M) nb" and "a = None \<or> a \<in> it_cursor ` set xs" and "0 \<le> r" and "r \<le> int M"
    and "length (items_after a xs) * (M + 1) + (M - nat r) + 1 \<le> fuel"
  shows "\<exists>evs fin. iterate_inv fuel nb k r a = (evs, fin) \<and>
    ((fin = IterDone \<and> yields evs = items_after a xs) \<or>
     (fin = IterRaised MaxRetriesError \<and> (\<exists>n. yields evs = take n (items_after a xs))))"
  using assms(2-)
proof (induction fuel arbitrary: k r a)
  case (Suc fuel)
  consider (page) "nb k a = Batch (page a)" | (retry) rb where "nb k a = Retry rb" "rb_max_retries rb \<le> int M"
    using assms(1) Suc.prems(1) unfolding serves_def by blast
  then show ?case
  proof cases
    case page
    show ?thesis
    proof (cases "page a = []")
      case True
      then have "items_after a xs = []" using page_progress Suc.prems(1) by blast
      with True page show ?thesis by simp
    next
      case False
      let ?c = "it_cursor (last (page a))"
      note nxt = page_next [OF Suc.prems(1) False]
      have "length (items_after a xs) = length (page a) + length (items_after ?c xs)"
        using nxt(2) by (metis length_append)
      moreover have "1 \<le> length (page a)" using False by (simp add: Suc_le_eq)
      ultimately have "length (items_after ?c xs) + 1 \<le> length (items_after a xs)" by linarith
      then have "(length (items_after ?c xs) + 1) * (M + 1) \<le> length (items_after a xs) * (M + 1)"
        by (rule mult_le_mono1)
      then have "length (items_after ?c xs) * (M + 1) + (M - nat 0) + 1 \<le> fuel"
        using Suc.prems(4) by simp
      from Suc.IH [of ?c 0 "k + 1", OF _ _ _ this] nxt(1)
      obtain evs fin where r: "iterate_inv fuel nb (k + 1) 0 ?c = (evs, fin)"
        and d: "(fin = IterDone \<and> yields evs = items_after ?c xs) \<or>
          (fin = IterRaised MaxRetriesError \<and> (\<exists>n. yields evs = take n (items_after ?c xs)))"
        by auto
      have "\<exists>m. page a @ take n (items_after ?c xs) = take m (items_after a xs)" for n
        by (rule exI [of _ "length (page a) + n"]) (subst nxt(2), simp)
      with r d nxt(2) False page show ?thesis by auto
    qed
  next
    case retry
    show ?thesis
    proof (cases "r \<ge> rb_max_retries rb")
      case True
      have "\<exists>n. [] = take n (items_after a xs)" by (rule exI [of _ 0]) simp
      with True retry show ?thesis by (simp add: check_max_retries_def)
    next
      case False
      with retry Suc.prems have "r + 1 \<le> int M"
        "length (items_after a xs) * (M + 1) + (M - nat (r + 1)) + 1 \<le> fuel" by linarith+
      with Suc.IH [of a "r + 1" "k + 1"] Suc.prems retry False show ?thesis
        by (auto simp: check_max_retries_def)
    qed
  qed
qed simp

end

section \<open>Static inventory\<close>

text \<open>\<open>xs[b:]\<close>; a negative bound counts from the end.\<close>

definition py_from :: "int \<Rightarrow> 'a list \<Rightarrow> 'a list" where
  "py_from b xs = (if 0 \<le> b then drop (nat b) xs else drop (nat (max 0 (int (length xs) + b))) xs)"

definition enumerate_from :: "int \<Rightarrow> 'a list \<Rightarrow> (int \<times> 'a) list" where
  "enumerate_from b xs = zip (map (\<lambda>j. b + int j) [0..<length xs]) xs"

definition cursor_int :: "string \<Rightarrow> int result" where
  "cursor_int a = (case parse_int a of None \<Rightarrow> Inl (ValueError a) | Some n \<Rightarrow> Inr n)"

definition indexed_item :: "int \<Rightarrow> (string, pyval) pydict \<Rightarrow> item" where
  "indexed_item i args = new_item (nat i) (int_str i) args"

definition static_next_batch ::
  "(string, pyval) pydict list \<Rightarrow> bool \<Rightarrow> string option \<Rightarrow> item list result" where
  "static_next_batch items rep after =
     rbind (case after of None \<Rightarrow> Inr 0 | Some a \<Rightarrow> rbind (cursor_int a) (\<lambda>n. Inr (n + 1))) (\<lambda>begin.
     rbind (if rep \<and> struthy after
            then (if items = [] then Inl ZeroDivisionError else Inr (begin mod int (length items)))
            else Inr begin) (\<lambda>begin.
     Inr (map (\<lambda>(i, args). indexed_item i args) (enumerate_from begin (py_from begin items)))))"

section \<open>Dummy inventory\<close>

definition dummy_count :: "int \<Rightarrow> int" where
  "dummy_count count = (if count = 0 then 1000 else count)"

definition dummy_next_batch :: "int \<Rightarrow> string option \<Rightarrow> item list result" where
  "dummy_next_batch count after =
     rbind (case after of None \<Rightarrow> Inr 0 | Some a \<Rightarrow> rbind (cursor_int a) (\<lambda>n. Inr (n + 1))) (\<lambda>n.
       let n_end = min (n + 100) (dummy_count count)
       in if n_end = n then Inr []
          else Inr (map (\<lambda>i. indexed_item i [(''n'', PInt i)]) [n..n_end - 1]))"

definition outcome_of :: "item list result \<Rightarrow> batch_outcome" where
  "outcome_of r = (case r of Inl e \<Rightarrow> Failed e | Inr b \<Rightarrow> Batch b)"

definition page_of :: "(string option \<Rightarrow> item list result) \<Rightarrow> string option \<Rightarrow> item list" where
  "page_of nb a = (case nb a of Inl _ \<Rightarrow> [] | Inr b \<Rightarrow> b)"

text \<open>What the two inventories hold, in order.\<close>

definition static_items :: "(string, pyval) pydict list \<Rightarrow> item list" where
  "static_items items = map (\<lambda>(i, args). indexed_item i args) (enumerate_from 0 items)"

definition dummy_items :: "int \<Rightarrow> item list" where
  "dummy_items count = map (\<lambda>i. indexed_item i [(''n'', PInt i)]) [0..dummy_count count - 1]"

lemma indexed_item_simps [simp]:
  "it_cursor (indexed_item i args) = Some (int_str i)" "it_id (indexed_item i args) = int_str i"
  "it_args (indexed_item i args) = args"
  by (simp_all add: indexed_item_def new_item_def)

lemma length_enumerate_from [simp]: "length (enumerate_from b xs) = length xs"
  by (simp add: enumerate_from_def)

lemma nth_enumerate_from [simp]: "j < length xs \<Longrightarrow> enumerate_from b xs ! j = (b + int j, xs ! j)"
  by (simp add: enumerate_from_def)

lemma static_items_simps:
  "length (static_items items) = length items"
  "j < length items \<Longrightarrow> static_items items ! j = indexed_item (int j) (items ! j)"
  by (simp_all add: static_items_def)

lemma dummy_items_simps:
  "length (dummy_items count) = nat (dummy_count count)"
  "j < nat (dummy_count count) \<Longrightarrow>
     dummy_items count ! j = indexed_item (int j) [(''n'', PInt (int j))]"
  by (simp_all add: dummy_items_def)

text \<open>A list of items numbered by position.\<close>

definition numbered :: "item list \<Rightarrow> bool" where
  "numbered xs \<longleftrightarrow> (\<forall>j < length xs. it_cursor (xs ! j) = Some (int_str (int j)))"

lemma numbered_distinct: "numbered xs \<Longrightarrow> distinct (map it_cursor xs)"
  by (auto simp: numbered_def distinct_conv_nth int_str_inj)

lemma numbered_some: "numbered xs \<Longrightarrow> i \<in> set xs \<Longrightarrow> it_cursor i \<noteq> None"
  by (auto simp: numbered_def in_set_conv_nth)

lemma numbered_cursor:
  assumes "numbered xs" and "a \<in> it_cursor ` set xs"
  obtains k where "k < length xs" "a = Some (int_str (int k))"
  using assms by (auto simp: numbered_def in_set_conv_nth)

lemma numbered_items_after:
  assumes "numbered xs" and "k < length xs"
  shows "items_after (Some (int_str (int k))) xs = drop (Suc k) xs"
proof -
  have "xs = take k xs @ xs ! k # drop (Suc k) xs" using assms(2) by (simp add: id_take_nth_drop)
  moreover have "it_cursor (xs ! k) = Some (int_str (int k))" using assms by (simp add: numbered_def)
  moreover note numbered_distinct [OF assms(1)]
  ultimately show ?thesis using items_after_last by metis
qed

lemma numbered_static: "numbered (static_items items)"
  by (simp add: numbered_def static_items_simps)

lemma numbered_dummy: "numbered (dummy_items count)"
  by (simp add: numbered_def dummy_items_simps)

lemma static_slice:
  "map (\<lambda>(i, args). indexed_item i args) (enumerate_from (int k) (py_from (int k) items))
    = drop k (static_items items)"
  by (rule nth_equalityI) (auto simp: static_items_simps py_from_def)

lemma static_next_batch_None: "static_next_batch items rep None = Inr (static_items items)"
  using static_slice [of 0 items] by (simp add: static_next_batch_def)

lemma static_next_batch_Some:
  "static_next_batch items False (Some (int_str (int k))) = Inr (drop (Suc k) (static_items items))"
  using static_slice [of "Suc k" items] by (simp add: static_next_batch_def cursor_int_def add.commute)

lemma int_str_nonempty [simp]: "int_str i \<noteq> []"
  by (simp add: int_str_def)

lemma static_next_batch_repeat:
  assumes "items \<noteq> []"
  shows "static_next_batch items True (Some (int_str (int k)))
    = Inr (drop (Suc k mod length items) (static_items items))"
  using static_slice [of "Suc k mod length items" items] assms
  by (simp add: static_next_batch_def cursor_int_def zmod_int add.commute)

interpretation static_inv:
  paged_inventory "page_of (static_next_batch items False)" "static_items items"
  for items
proof
  fix a assume a: "a = None \<or> a \<in> it_cursor ` set (static_items items)"
  have page: "page_of (static_next_batch items False) a = items_after a (static_items items)"
  proof (cases "a = None")
    case True
    then show ?thesis by (simp add: page_of_def static_next_batch_None items_after_def)
  next
    case False
    with a obtain k where "k < length (static_items items)" "a = Some (int_str (int k))"
      using numbered_cursor numbered_static by metis
    then show ?thesis
      by (simp add: page_of_def static_next_batch_Some numbered_items_after numbered_static)
  qed
  then show "\<exists>n. page_of (static_next_batch items False) a = take n (items_after a (static_items items))"
    by (metis order_refl take_all)
  show "page_of (static_next_batch items False) a \<noteq> []" if "items_after a (static_items items) \<noteq> []"
    using page that by simp
qed (rule numbered_distinct numbered_some, rule numbered_static; assumption?)+

lemma upto_take: "a \<le> b \<Longrightarrow> [a..min (a + 100) b - 1] = take 100 [a..b - 1]"
proof (rule nth_equalityI)
  fix i assume "a \<le> b" and "i < length [a..min (a + 100) b - 1]"
  then have "a + int i \<le> min (a + 100) b - 1" by (simp del: min_less_iff_conj)
  then show "[a..min (a + 100) b - 1] ! i = take 100 [a..b - 1] ! i"
    by (subst nth_upto) (auto simp: nth_upto)
qed auto

lemma dummy_page:
  assumes "k \<le> length (dummy_items count)"
  shows "(let n = int k; n_end = min (n + 100) (dummy_count count)
      in if n_end = n then [] else map (\<lambda>i. indexed_item i [(''n'', PInt i)]) [n..n_end - 1])
    = take 100 (drop k (dummy_items count))"
proof -
  have le: "int k \<le> dummy_count count \<or> k = 0" using assms by (auto simp: dummy_items_simps)
  have "drop k (dummy_items count) = map (\<lambda>i. indexed_item i [(''n'', PInt i)]) [int k..dummy_count count - 1]"
    by (rule nth_equalityI) (auto simp: dummy_items_simps)
  then show ?thesis
    using le upto_take [of "int k" "dummy_count count"]
    by (auto simp: Let_def take_map [symmetric] min_def)
qed

interpretation dummy_inv:
  paged_inventory "page_of (dummy_next_batch count)" "dummy_items count"
  for count
proof
  fix a assume a: "a = None \<or> a \<in> it_cursor ` set (dummy_items count)"
  have page: "page_of (dummy_next_batch count) a = take 100 (items_after a (dummy_items count))"
  proof (cases "a = None")
    case True
    then show ?thesis
      using dummy_page [of 0 count]
      by (auto simp: page_of_def dummy_next_batch_def items_after_def Let_def split: if_splits)
  next
    case False
    with a obtain k where k: "k < length (dummy_items count)" "a = Some (int_str (int k))"
      using numbered_cursor numbered_dummy by metis
    then show ?thesis
      using dummy_page [of "Suc k" count]
      by (auto simp: page_of_def dummy_next_batch_def cursor_int_def numbered_items_after numbered_dummy
          Let_def add.commute)
  qed
  then show "\<exists>n. page_of (dummy_next_batch count) a = take n (items_after a (dummy_items count))"
    by blast
  show "page_of (dummy_next_batch count) a \<noteq> []" if "items_after a (dummy_items count) \<noteq> []"
    using page that by simp
qed (rule numbered_distinct numbered_some, rule numbered_dummy; assumption?)+

lemma static_next_batch_valid:
  assumes "a = None \<or> a \<in> it_cursor ` set (static_items items)"
  shows "outcome_of (static_next_batch items False a) = Batch (page_of (static_next_batch items False) a)"
proof (cases "a = None")
  case False
  with assms obtain k where "a = Some (int_str (int k))"
    using numbered_cursor numbered_static by metis
  then show ?thesis by (simp add: outcome_of_def page_of_def static_next_batch_Some)
qed (simp add: outcome_of_def page_of_def static_next_batch_None)

text \<open>
  C39: a static inventory behind \<open>iterate\<close>, whose \<open>next_batch\<close> may fail transiently at any call
  (each failure allowing at most \<open>M\<close> retries in a row), ends within the fuel given and emits
  exactly the items that follow the cursor, or stops with \<open>MaxRetriesError\<close> after a prefix of
  them: nothing is skipped, repeated or reordered.
\<close>

theorem static_iterate_exact:
  assumes nb: "\<And>k a. nb k a = outcome_of (static_next_batch items False a) \<or>
      (\<exists>rb. nb k a = Retry rb \<and> rb_max_retries rb \<le> int M)"
    and after: "after = None \<or> after \<in> it_cursor ` set (static_items items)"
    and fuel: "length (items_after after (static_items items)) * (M + 1) + M + 1 \<le> fuel"
  shows "\<exists>evs fin. iterate_inv fuel nb 0 0 after = (evs, fin) \<and>
    ((fin = IterDone \<and> yields evs = items_after after (static_items items)) \<or>
     (fin = IterRaised MaxRetriesError \<and> (\<exists>n. yields evs = take n (items_after after (static_items items)))))"
proof -
  have "static_inv.serves items (int M) nb"
    unfolding static_inv.serves_def using nb static_next_batch_valid by metis
  then show ?thesis
    using after fuel by (intro static_inv.iterate_serves) auto
qed

definition flaky_static :: "nat \<Rightarrow> string option \<Rightarrow> batch_outcome" where
  "flaky_static k a =
     (if k = 1 then Retry \<lparr>rb_delay = Some 5, rb_max_retries = 1\<rparr>
      else outcome_of (static_next_batch [[(''a'', PInt 7)], [(''a'', PInt 8)]] False a))"

lemma static_iterate_exact_witness:
  "\<exists>evs fin. iterate_inv 6 flaky_static 0 0 None = (evs, fin) \<and>
    ((fin = IterDone \<and> yields evs = static_items [[(''a'', PInt 7)], [(''a'', PInt 8)]]) \<or>
     (fin = IterRaised MaxRetriesError \<and>
       (\<exists>n. yields evs = take n (static_items [[(''a'', PInt 7)], [(''a'', PInt 8)]]))))"
  using static_iterate_exact [of flaky_static "[[(''a'', PInt 7)], [(''a'', PInt 8)]]" 1 None 6]
  by (auto simp: flaky_static_def items_after_def static_items_simps)

section \<open>A repeating static inventory\<close>

lemma static_items_last: "items \<noteq> [] \<Longrightarrow>
   it_cursor (last (static_items items)) = Some (int_str (int (length items - 1)))"
  by (metis (no_types, lifting) One_nat_def diff_less indexed_item_simps(1) last_conv_nth
      length_greater_0_conv less_numeral_extra(1) list.size(3) static_items_simps)

lemma repeat_step:
  assumes "items \<noteq> []"
    and "after = None \<or> after = Some (int_str (int (length items - 1)))"
  shows "outcome_of (static_next_batch items True after) = Batch (static_items items)"
proof (cases "after = None")
  case False
  have "Suc (length items - 1) mod length items = 0" using assms(1) by (cases items) auto
  with False assms show ?thesis
    using static_next_batch_repeat [of items "length items - 1"] by (auto simp: outcome_of_def)
qed (simp add: outcome_of_def static_next_batch_None)

text \<open>With \<open>repeat\<close>, \<open>f\<close> rounds of \<open>iterate\<close> yield \<open>f\<close> full passes over the list, and it never ends.\<close>

lemma static_repeat_rounds:
  assumes "items \<noteq> []"
    and "after = None \<or> after = Some (int_str (int (length items - 1)))"
  shows "iterate_inv f (\<lambda>k a. outcome_of (static_next_batch items True a)) call r after
    = (map Yield (concat (replicate f (static_items items))), IterOutOfFuel)"
  using assms(2)
proof (induction f arbitrary: call r after)
  case (Suc f)
  have "static_items items \<noteq> []" using assms(1) static_items_simps(1) [of items] by auto
  then show ?case
    using Suc repeat_step [OF assms(1) Suc.prems] static_items_last [OF assms(1)] by simp
qed simp

section \<open>Loop inventory\<close>

record loop_options =
  lo_max_iterations :: "int option"

text \<open>
  \<open>stopped n\<close>: a \<open>StopLoopEvent\<close> has been handled when the lock is acquired for iteration \<open>n\<close>
  (iterations are serialised by the lock, so this is known then). The range is infinite without
  \<open>max_iterations\<close>; fuel bounds how much of it is computed.
\<close>

definition loop_begin :: "string option \<Rightarrow> int result" where
  "loop_begin after = (case after of Some a \<Rightarrow> if a \<noteq> [] then cursor_int a else Inr 0 | None \<Rightarrow> Inr 0)"

definition loop_item :: "int \<Rightarrow> item" where
  "loop_item n =
     (new_item (nat n) (int_str n) [(''iteration'', PInt n)])
       \<lparr>it_config := [(''hooks'', PDict [(''pipeline_events_emitted'', PList [PStr ''on_event''])])]\<rparr>"

fun open_range :: "nat \<Rightarrow> int \<Rightarrow> int option \<Rightarrow> int list" where
  "open_range 0 n mx = []"
| "open_range (Suc fuel) n mx =
     (case mx of
        Some m \<Rightarrow> if n < m then n # open_range fuel (n + 1) mx else []
      | None \<Rightarrow> n # open_range fuel (n + 1) mx)"

definition loop_iterate :: "nat \<Rightarrow> loop_options \<Rightarrow> (int \<Rightarrow> bool) \<Rightarrow> string option \<Rightarrow> item list result" where
  "loop_iterate fuel opts stopped after =
     rbind (loop_begin after) (\<lambda>begin.
       Inr (map loop_item (takeWhile (\<lambda>n. \<not> stopped n) (open_range fuel begin (lo_max_iterations opts)))))"

definition loop_on_event :: "bool \<Rightarrow> pipeline_event list \<Rightarrow> bool" where
  "loop_on_event is_running events = (if StopLoopEvent \<in> set events then False else is_running)"

lemma open_range_bounded: "n + int fuel \<ge> m \<Longrightarrow> open_range fuel n (Some m) = [n..m - 1]"
  by (induction fuel n "Some m" rule: open_range.induct) (auto simp: upto.simps)

lemma open_range_unbounded: "open_range fuel n None = [n..n + int fuel - 1]"
proof (induction fuel arbitrary: n)
  case (Suc fuel)
  then show ?case by (subst upto.simps) (simp add: algebra_simps)
qed simp

text \<open>A full run, from the start, performs each of the iterations \<open>0 .. m - 1\<close> once, in order.\<close>

lemma loop_full_run:
  "nat m \<le> fuel \<Longrightarrow>
    loop_iterate fuel \<lparr>lo_max_iterations = Some m\<rparr> (\<lambda>_. False) None = Inr (map loop_item [0..m - 1])"
  by (simp add: loop_iterate_def loop_begin_def open_range_bounded takeWhile_eq_all_conv [THEN iffD2])

text \<open>
  \<open>next_batch\<close> is documented to return items "greater than after". A loop resumed from the
  cursor of iteration \<open>n\<close>, which is committed when \<open>n\<close> has finished, starts with \<open>n\<close> again.
\<close>

lemma loop_resume_repeats:
  assumes "0 \<le> n" and "n < m" and "nat (m - n) \<le> fuel"
  shows "loop_iterate fuel \<lparr>lo_max_iterations = Some m\<rparr> (\<lambda>_. False) (it_cursor (loop_item n))
    = Inr (loop_item n # map loop_item [n + 1..m - 1])"
  using assms
  by (simp add: loop_iterate_def loop_begin_def loop_item_def new_item_def cursor_int_def
      open_range_bounded takeWhile_eq_all_conv [THEN iffD2] upto.simps [of n])

section \<open>Batching inventory\<close>

text \<open>
  \<open>BatchingInventory.iterate\<close> over the items its inner inventory runs. The new item is a
  replacement of the last one of the batch and carries the arguments of all.
\<close>

definition batch_item :: "item list \<Rightarrow> item" where
  "batch_item batch = (last batch)\<lparr>it_args := [(''batch'', PList (map (\<lambda>i. PDict (it_args i)) batch))]\<rparr>"

definition effective_batch_size :: "nat \<Rightarrow> nat" where
  "effective_batch_size b = (if b = 0 then 10 else b)"

function batches :: "nat \<Rightarrow> 'a list \<Rightarrow> 'a list list" where
  "batches b xs =
     (if take (effective_batch_size b) xs = [] then []
      else take (effective_batch_size b) xs # batches b (drop (effective_batch_size b) xs))"
  by pat_completeness auto
termination
  by (relation "measure (\<lambda>(b, xs). length xs)") (auto simp: effective_batch_size_def split: if_splits)

declare batches.simps [simp del]

definition batching_iterate :: "nat \<Rightarrow> item list \<Rightarrow> item list" where
  "batching_iterate b xs = map batch_item (batches b xs)"

lemma batches_concat: "concat (batches b xs) = xs"
proof (induction b xs rule: batches.induct)
  case (1 b xs)
  then show ?case
    by (subst batches.simps) (auto simp: effective_batch_size_def split: if_splits)
qed

lemma batches_sizes:
  "ys \<in> set (batches b xs) \<Longrightarrow> ys \<noteq> [] \<and> length ys \<le> effective_batch_size b"
proof (induction b xs rule: batches.induct)
  case (1 b xs)
  then show ?case by (subst (asm) (2) batches.simps) (auto split: if_splits)
qed

definition batch_args :: "item \<Rightarrow> pyval list" where
  "batch_args i = (case dget (it_args i) ''batch'' of Some (PList vs) \<Rightarrow> vs | _ \<Rightarrow> [])"

text \<open>
  Batching neither loses, repeats nor reorders an item: the batches, put end to end, hold
  the arguments of exactly the inner items; no batch is empty or larger than the batch size,
  and each batch carries the cursor of its last item.
\<close>

theorem batching_preserves_items:
  "concat (map batch_args (batching_iterate b xs)) = map (\<lambda>i. PDict (it_args i)) xs \<and>
   (\<forall>n < length (batching_iterate b xs).
      batch_args (batching_iterate b xs ! n) \<noteq> [] \<and>
      length (batch_args (batching_iterate b xs ! n)) \<le> effective_batch_size b \<and>
      it_cursor (batching_iterate b xs ! n) = it_cursor (last (batches b xs ! n)))"
proof -
  have args: "batch_args (batch_item ys) = map (\<lambda>i. PDict (it_args i)) ys" for ys
    by (simp add: batch_args_def batch_item_def)
  have "concat (map batch_args (batching_iterate b xs)) = map (\<lambda>i. PDict (it_args i)) (concat (batches b xs))"
    by (simp add: batching_iterate_def comp_def args map_concat)
  moreover have "batches b xs ! n \<in> set (batches b xs)" if "n < length (batches b xs)" for n
    using that by simp
  ultimately show ?thesis
    using batches_sizes [of _ b xs]
    by (simp add: batches_concat batching_iterate_def args) (simp add: batch_item_def)
qed

lemma batching_preserves_items_witness:
  "concat (map batch_args (batching_iterate 2 (static_items [[], [(''a'', PInt 1)], []])))
     = [PDict [], PDict [(''a'', PInt 1)], PDict []]"
  using batching_preserves_items [of 2 "static_items [[], [(''a'', PInt 1)], []]"]
  by (simp add: static_items_def enumerate_from_def)

section \<open>Periodic inventory\<close>

text \<open>
  \<open>ticks\<close> stands for what \<open>croniter\<close> yields from the resume instant (a finite prefix), each
  with the reading of the clock when the loop looks at it; \<open>isoformat\<close> is the datetime text.
\<close>

definition periodic_resume_from :: "time option \<Rightarrow> time \<Rightarrow> time" where
  "periodic_resume_from after_date start_date = (case after_date of Some d \<Rightarrow> d | None \<Rightarrow> start_date)"

fun periodic_iterate ::
  "(time \<Rightarrow> string) \<Rightarrow> time option \<Rightarrow> time option \<Rightarrow> (time \<times> time) list \<Rightarrow> iter_event list" where
  "periodic_iterate isoformat end_date after_date [] = []"
| "periodic_iterate isoformat end_date after_date ((tick, now) # ticks) =
     (if after_date = Some tick then periodic_iterate isoformat end_date after_date ticks
      else if (case end_date of None \<Rightarrow> False | Some e \<Rightarrow> tick > e) then []
      else (if tick > now then [Sleep (tick - now)] else []) @
        Yield (new_item (nat tick) (isoformat tick) [(''timestamp'', PStr (isoformat tick))]) #
        periodic_iterate isoformat end_date after_date ticks)"

text \<open>Every tick in the window is yielded once, in order, and the tick resumed from is not.\<close>

lemma periodic_yields:
  "yields (periodic_iterate isoformat end_date after_date ticks) =
     map (\<lambda>tick. new_item (nat tick) (isoformat tick) [(''timestamp'', PStr (isoformat tick))])
       (filter (\<lambda>tick. after_date \<noteq> Some tick)
         (takeWhile (\<lambda>tick. after_date = Some tick \<or> (\<forall>e. end_date = Some e \<longrightarrow> tick \<le> e)) (map fst ticks)))"
  by (induction isoformat end_date after_date ticks rule: periodic_iterate.induct)
    (auto split: option.splits)

text \<open>No tick is yielded before its time: the sleep before it covers what is missing.\<close>

lemma periodic_sleeps:
  "periodic_iterate isoformat end_date after_date [(tick, now)] = Sleep d # evs \<Longrightarrow> now + d = tick \<and> d > 0"
  by (auto split: if_splits option.splits)

end
