(* ===== verification/Multi_Inventories.thy ===== *)
theory Multi_Inventories
  imports Inventories
begin

text \<open>
  The inventories built from others: \<open>worker/inventories/multi.py\<close> (\<open>MultiItems\<close>,
  \<open>MultiCursorsState\<close>, \<open>RootCursors\<close>, \<open>SubCursors\<close>), \<open>chained.py\<close>, \<open>fanin.py\<close> and \<open>joined.py\<close>.

  An inner inventory is the function \<open>run\<close> from a cursor to the items it yields.
  \<open>join_run\<close> is every interleaving of the steps of \<open>JoinInventory\<close>: taking a root item, taking
  and finishing a sub-item of a root item in flight, and finishing a root item whose sub-items
  are all finished. The main result is that a crash at any point of it loses no pair. When the code takes these steps, and
  what it does when it is stopped or when a sub-inventory fails, is in Join_Life.
\<close>

section \<open>MultiItems\<close>

record multi_items =
  mi_ids :: "(string, string) pydict"
  mi_cursors :: "(string, string option) pydict"
  mi_args :: "(string, (string, pyval) pydict) pydict"
  mi_tags :: "(string, string) pydict"
  mi_metadata :: "(string, pyval) pydict"
  mi_config :: "(string, pyval) pydict"

definition from_one :: "item \<Rightarrow> string \<Rightarrow> multi_items" where
  "from_one i name =
     \<lparr>mi_ids = [(name, it_id i)], mi_cursors = [(name, it_cursor i)], mi_args = [(name, it_args i)],
      mi_tags = it_tags i, mi_metadata = it_metadata i, mi_config = it_config i\<rparr>"

definition with_item :: "multi_items \<Rightarrow> item \<Rightarrow> string \<Rightarrow> multi_items" where
  "with_item m i name = m\<lparr>
     mi_ids := dor (mi_ids m) [(name, it_id i)],
     mi_cursors := dor (mi_cursors m) [(name, it_cursor i)],
     mi_args := dor (mi_args m) [(name, it_args i)],
     mi_tags := dor (mi_tags m) (it_tags i),
     mi_metadata := dor (mi_metadata m) (it_metadata i),
     mi_config := dor (mi_config m) (it_config i)\<rparr>"

definition pmap_str :: "(string, string) pydict \<Rightarrow> pyval" where
  "pmap_str d = PDict (map (\<lambda>(k, v). (k, PStr v)) d)"

definition pmap_opt :: "(string, string option) pydict \<Rightarrow> pyval" where
  "pmap_opt d = PDict (map (\<lambda>(k, v). (k, opt_str v)) d)"

definition multi_args :: "multi_items \<Rightarrow> string option \<Rightarrow> bool \<Rightarrow> (string, pyval) pydict" where
  "multi_args m alias flatten =
     (let args = (if flatten then foldl dor [] (dvalues (mi_args m))
                  else map (\<lambda>(k, v). (k, PDict v)) (mi_args m))
      in case alias of Some a \<Rightarrow> if a \<noteq> [] then [(a, PDict args)] else args | None \<Rightarrow> args)"

definition as_item :: "nat \<Rightarrow> multi_items \<Rightarrow> string option \<Rightarrow> bool \<Rightarrow> item" where
  "as_item oid m alias flatten =
     \<lparr>it_oid = oid, it_id = dumps (pmap_str (mi_ids m)), it_args = multi_args m alias flatten,
      it_cursor = Some (dumps (pmap_opt (mi_cursors m))), it_tags = mi_tags m,
      it_metadata = mi_metadata m, it_config = mi_config m\<rparr>"

text \<open>When flattened, the sub-item's arguments win over the parent's.\<close>

lemma multi_args_flatten:
  assumes "wfd (it_args i)" and "wfd (it_args j)" and "name \<noteq> name'"
  shows "dget (multi_args (with_item (from_one i name) j name') None True) k =
    (case dget (it_args j) k of Some v \<Rightarrow> Some v | None \<Rightarrow> dget (it_args i) k)"
  using assms
  by (simp add: multi_args_def with_item_def from_one_def dor_Cons dset_def dget_dor map_add_def
      split: option.splits)

section \<open>MultiCursorsState\<close>

record multi_cursors =
  mc_after :: "string option"
  mc_partials :: "(string, string) pydict"

definition multi_as_dict :: "multi_cursors \<Rightarrow> (string, pyval) pydict" where
  "multi_as_dict m =
     (let d0 = [(''v'', PInt 1)];
          d1 = (case mc_after m of None \<Rightarrow> d0 | Some a \<Rightarrow> dset ''a'' (PStr a) d0)
      in if mc_partials m = [] then d1 else dset ''p'' (pmap_str (mc_partials m)) d1)"

definition multi_as_cursor :: "multi_cursors \<Rightarrow> string" where
  "multi_as_cursor m = dumps (PDict (multi_as_dict m))"

text \<open>\<open>None\<close> as in \<open>from_dict\<close> of \<open>CursorsState\<close>: a document that breaks the annotations.\<close>

definition multi_from_dict :: "(string, pyval) pydict \<Rightarrow> multi_cursors option" where
  "multi_from_dict st =
     (let after =
        (case dget st ''a'' of
           None \<Rightarrow> Some None | Some PNone \<Rightarrow> Some None | Some (PStr a) \<Rightarrow> Some (Some a)
         | Some _ \<Rightarrow> None);
          partials =
        (case dget st ''p'' of
           None \<Rightarrow> Some []
         | Some v \<Rightarrow>
             if \<not> truthy v then Some []
             else (case v of
                 PDict d \<Rightarrow>
                   if list_all (\<lambda>(k, v). str_of v \<noteq> None) d
                   then Some (map (\<lambda>(k, v). (k, the (str_of v))) d) else None
               | _ \<Rightarrow> None))
      in case (after, partials) of
           (Some a, Some ps) \<Rightarrow> Some \<lparr>mc_after = a, mc_partials = ps\<rparr>
         | _ \<Rightarrow> None)"

definition multi_from_cursor :: "string option \<Rightarrow> multi_cursors option" where
  "multi_from_cursor raw =
     (case raw of
        None \<Rightarrow> multi_from_dict []
      | Some r \<Rightarrow>
          if r = [] then multi_from_dict []
          else (case structured (loads r) of
                  Some d \<Rightarrow> multi_from_dict d
                | None \<Rightarrow> multi_from_dict [(''a'', PStr r)]))"

text \<open>The \<open>finally\<close> blocks of \<open>RootCursors.process\<close> and \<open>SubCursors.process\<close>.\<close>

definition root_exit :: "string option \<Rightarrow> item \<Rightarrow> multi_cursors \<Rightarrow> multi_cursors" where
  "root_exit inv_cursor i m =
     (let m1 = m\<lparr>mc_after := inv_cursor\<rparr>
      in case it_cursor i of None \<Rightarrow> m1 | Some c \<Rightarrow> m1\<lparr>mc_partials := dpop c (mc_partials m1)\<rparr>)"

definition sub_exit :: "item \<Rightarrow> string option \<Rightarrow> multi_cursors \<Rightarrow> multi_cursors" where
  "sub_exit parent sub_cursor m =
     (case (it_cursor parent, sub_cursor) of
        (Some p, Some c) \<Rightarrow> m\<lparr>mc_partials := dset p c (mc_partials m)\<rparr>
      | _ \<Rightarrow> m)"

definition sub_cursor_of :: "item \<Rightarrow> multi_cursors \<Rightarrow> string option" where
  "sub_cursor_of parent m = (case it_cursor parent of None \<Rightarrow> None | Some c \<Rightarrow> dget (mc_partials m) c)"

lemma wfp_pmap_str: "wfd d \<Longrightarrow> wfp (pmap_str d)"
  by (auto simp: pmap_str_def wfd_def comp_def split_def)

lemma multi_as_dict_cases:
  "multi_as_dict m = (''v'', PInt 1) # (case mc_after m of None \<Rightarrow> [] | Some a \<Rightarrow> [(''a'', PStr a)])
     @ (if mc_partials m = [] then [] else [(''p'', pmap_str (mc_partials m))])"
  by (auto simp: multi_as_dict_def Let_def dset_def split: option.splits)

lemma wfp_multi_as_dict: "wfd (mc_partials m) \<Longrightarrow> wfp (PDict (multi_as_dict m))"
  using wfp_pmap_str [of "mc_partials m"] by (auto simp: multi_as_dict_cases split: option.splits)

lemma multi_from_dict_as_dict: "multi_from_dict (multi_as_dict m) = Some m"
proof -
  have "list_all (\<lambda>(k, v). str_of v \<noteq> None) (map (\<lambda>(k, v). (k, PStr v)) d)"
    "map (\<lambda>(k, v). (k, the (str_of v))) (map (\<lambda>(k, v). (k, PStr v)) d) = d"
    for d :: "(string, string) pydict"
    by (auto simp: list_all_iff str_of_def comp_def split_def)
  then show ?thesis
    by (cases m) (auto simp: multi_from_dict_def multi_as_dict_cases pmap_str_def Let_def
        split: option.splits)
qed

lemma multi_round_trip:
  assumes "wfd (mc_partials m)"
  shows "multi_from_cursor (Some (multi_as_cursor m)) = Some m"
proof -
  have "structured (Some (PDict (multi_as_dict m))) = Some (multi_as_dict m)"
    by (auto simp: structured_def multi_as_dict_cases split: option.splits)
  then show ?thesis
    using json.dec_enc [OF wfp_multi_as_dict [OF assms]]
    by (simp add: multi_from_cursor_def multi_as_cursor_def json.enc_nonempty multi_from_dict_as_dict)
qed

section \<open>Chained inventories\<close>

type_synonym run_inventory = "string option \<Rightarrow> item list"

text \<open>
  \<open>json.loads(after) if after else {}\<close>. A text that is no JSON object makes the code raise
  (at the decoder, or where the value is used as a dict).
\<close>

definition loads_cursors :: "string option \<Rightarrow> (string, pyval) pydict result" where
  "loads_cursors after =
     (case after of
        None \<Rightarrow> Inr []
      | Some a \<Rightarrow>
          if a = [] then Inr []
          else (case loads a of
                  Some (PDict d) \<Rightarrow> Inr d
                | Some _ \<Rightarrow> Inl (TypeError a)
                | None \<Rightarrow> Inl (ValueError a)))"

text \<open>\<open>cursors.get(name)\<close> as the cursor handed to the inner inventory.\<close>

definition cursor_entry :: "(string, pyval) pydict \<Rightarrow> string \<Rightarrow> string option" where
  "cursor_entry cursors name = (case dget cursors name of Some (PStr c) \<Rightarrow> Some c | _ \<Rightarrow> None)"

fun start_inventory :: "(string \<times> run_inventory) list \<Rightarrow> (string, pyval) pydict \<Rightarrow> nat option" where
  "start_inventory [] cursors = None"
| "start_inventory ((name, iv) # rest) cursors =
     (if dhas name cursors then Some 0 else map_option Suc (start_inventory rest cursors))"

definition chained_item :: "string option \<Rightarrow> bool \<Rightarrow> string \<Rightarrow> item \<Rightarrow> item" where
  "chained_item alias flatten name i = as_item (it_oid i) (from_one i name) alias flatten"

definition chained_iterate ::
  "string option \<Rightarrow> bool \<Rightarrow> (string \<times> run_inventory) list \<Rightarrow> string option \<Rightarrow> item list result" where
  "chained_iterate alias flatten inventories after =
     rbind (loads_cursors after) (\<lambda>cursors.
       let start = (case start_inventory inventories cursors of None \<Rightarrow> 0 | Some i \<Rightarrow> i)
       in Inr (concat (map (\<lambda>(name, run).
            map (chained_item alias flatten name) (run (cursor_entry cursors name)))
          (drop start inventories))))"

text \<open>The cursor property: only the inventory being iterated is recorded.\<close>

definition chained_cursor :: "(string \<times> string option) option \<Rightarrow> string option" where
  "chained_cursor current =
     (case current of
        None \<Rightarrow> None
      | Some (name, c) \<Rightarrow> Some (dumps (PDict [(name, opt_str c)])))"

lemma start_inventory_nth:
  assumes "k < length inventories" and "distinct (map fst inventories)"
    and "fst (inventories ! k) = name"
  shows "start_inventory inventories [(name, c)] = Some k"
  using assms
proof (induction inventories arbitrary: k)
  case (Cons a inventories)
  obtain n iv where a: "a = (n, iv)" by (cases a)
  show ?case
  proof (cases k)
    case 0
    with Cons.prems a show ?thesis by simp
  next
    case (Suc j)
    then have "name = fst (inventories ! j)" "j < length inventories" using Cons.prems by auto
    then have "name \<in> set (map fst inventories)" by simp
    then have "n \<noteq> name" using Cons.prems(2) a by (metis distinct.simps(2) fst_conv list.simps(9))
    with Suc Cons.IH [of j] Cons.prems a show ?thesis by simp
  qed
qed simp

lemma loads_single: "loads_cursors (Some (dumps (PDict [(name, opt_str c)]))) = Inr [(name, opt_str c)]"
proof -
  have "wfp (PDict [(name, opt_str c)])" by (cases c) (auto simp: opt_str_def wfd_def)
  from json.dec_enc [OF this] show ?thesis by (simp add: loads_cursors_def json.enc_nonempty)
qed

lemma chained_from_cursor:
  assumes "k < length inventories" and "distinct (map fst inventories)"
    and "inventories ! k = (name, run)"
  shows "chained_iterate alias flatten inventories (chained_cursor (Some (name, c))) =
    Inr (map (chained_item alias flatten name) (run c) @
         concat (map (\<lambda>(name', run'). map (chained_item alias flatten name') (run' None))
           (drop (Suc k) inventories)))"
proof -
  have start: "start_inventory inventories [(name, opt_str c)] = Some k"
    using assms by (intro start_inventory_nth) auto
  have parts: "drop k inventories = (name, run) # drop (Suc k) inventories"
    using assms(1,3) by (metis Cons_nth_drop_Suc)
  have other: "name' \<noteq> name" if "(name', run') \<in> set (drop (Suc k) inventories)" for name' run'
  proof -
    have "distinct (map fst (drop k inventories))"
      using assms(2) by (simp add: drop_map [symmetric])
    with parts that show ?thesis by force
  qed
  have "map (\<lambda>(name', run'). map (chained_item alias flatten name')
        (run' (cursor_entry [(name, opt_str c)] name'))) (drop (Suc k) inventories)
      = map (\<lambda>(name', run'). map (chained_item alias flatten name') (run' None)) (drop (Suc k) inventories)"
    using other by (intro map_cong) (auto simp: cursor_entry_def)
  moreover have "cursor_entry [(name, opt_str c)] name = c"
    by (cases c) (simp_all add: cursor_entry_def opt_str_def)
  ultimately show ?thesis
    by (simp add: chained_iterate_def chained_cursor_def loads_single start parts del: dumps.simps map_eq_conv)
qed

definition demo_chain :: "(string \<times> run_inventory) list" where
  "demo_chain =
     [(''a'', \<lambda>c. items_after c [new_item 0 ''0'' []]),
      (''b'', \<lambda>c. items_after c [new_item 1 ''0'' [], new_item 2 ''1'' []])]"

text \<open>
  Resuming a chain from its cursor continues the recorded inventory from that inventory's
  own cursor and then runs every later inventory from its start; the earlier ones are not run.
\<close>

theorem chained_resume:
  assumes "k < length inventories" and "distinct (map fst inventories)"
    and "inventories ! k = (name, run)"
  shows "chained_iterate alias flatten inventories (chained_cursor (Some (name, c))) =
    Inr (map (chained_item alias flatten name) (run c) @
         concat (map (\<lambda>(name', run'). map (chained_item alias flatten name') (run' None))
           (drop (Suc k) inventories)))"
  by (rule chained_from_cursor [OF assms])

lemma demo_chain_nth:
  "1 < length demo_chain" "distinct (map fst demo_chain)"
  "demo_chain ! 1 = (''b'', \<lambda>c. items_after c [new_item 1 ''0'' [], new_item 2 ''1'' []])"
  "drop (Suc 1) demo_chain = []"
  "items_after (Some ''0'') [new_item 1 ''0'' [], new_item 2 ''1'' []] = [new_item 2 ''1'' []]"
  by (simp_all add: demo_chain_def items_after_def new_item_def)

lemma chained_resume_witness:
  "chained_iterate None False demo_chain (chained_cursor (Some (''b'', Some ''0''))) =
    Inr [chained_item None False ''b'' (new_item 2 ''1'' [])]"
  using chained_resume [OF demo_chain_nth(1-3), of None False "Some ''0''"] demo_chain_nth(4,5) by simp

text \<open>
  An item of an earlier inventory may still be in flight when a later one is being iterated:
  the chain moves on when the earlier iterator is exhausted, not when its items are finished.
  Such an item is not run again by a resumed chain: here item \<open>a/0\<close> has been taken but not
  finished, its inventory's own cursor still knows it, and the cursor of the chain forgets it.
\<close>

lemma chained_loses_pending:
  "let sa = snd (process_enter (initial_cursors None [] (Some 100)) (new_item 0 ''0'' []));
       sb = process_exit (snd (process_enter (initial_cursors None [] (Some 100)) (new_item 1 ''0'' [])))
              (new_item 1 ''0'' [])
   in has_pendings sa \<and> as_cursor sa = None \<and>
      chained_iterate None False demo_chain (chained_cursor (Some (''b'', cs_after sb))) =
        Inr [chained_item None False ''b'' (new_item 2 ''1'' [])]"
proof -
  let ?i = "new_item 1 ''0'' []" and ?s = "initial_cursors None [] (Some 100)"
  have "cs_after (process_exit (snd (process_enter ?s ?i)) ?i) = Some ''0''"
    by (simp add: new_item_def process_enter_def process_exit_def initial_cursors_def dset_def
        commit_cursor_def Let_def)
  then show ?thesis
    using chained_from_cursor [OF demo_chain_nth(1-3), of None False "Some ''0''"] demo_chain_nth(4,5)
    by (simp add: new_item_def process_enter_def initial_cursors_def has_pendings_def as_cursor_def
        as_dict_def saved_partials_def partials_cursors_def map_filter_simps dset_def Let_def)
qed

section \<open>Fan-in\<close>

definition fanin_cursor :: "(string \<times> string option) list \<Rightarrow> string" where
  "fanin_cursor inputs = dumps (PDict [(name, PStr c). (name, Some c) \<leftarrow> inputs])"

definition fanin_resume :: "string option \<Rightarrow> string \<Rightarrow> string option result" where
  "fanin_resume after name = rbind (loads_cursors after) (\<lambda>cursors. Inr (cursor_entry cursors name))"

definition fanin_tag :: "string \<Rightarrow> item \<Rightarrow> item" where
  "fanin_tag name i = i\<lparr>it_tags := dsetdefault ''inventory.name'' name (it_tags i)\<rparr>"

lemma set_cursor_entries:
  "fst ` set [(name, PStr c). (name, Some c) \<leftarrow> inputs] \<subseteq> fst ` set inputs"
  by (force split: option.splits)

lemma cursor_entries:
  "wfd inputs \<Longrightarrow> wfd [(name, PStr c). (name, Some c) \<leftarrow> inputs] \<and>
    dget [(name, PStr c). (name, Some c) \<leftarrow> inputs] n =
      (case dget inputs n of Some (Some c) \<Rightarrow> Some (PStr c) | _ \<Rightarrow> None)"
proof (induction inputs)
  case (Cons a inputs)
  obtain m d where a: "a = (m, d)" by (cases a)
  let ?es = "[(name, PStr c). (name, Some c) \<leftarrow> inputs]"
  have "m \<notin> fst ` set inputs" using Cons.prems by (simp add: wfd_def a)
  then have m: "m \<notin> fst ` set ?es" by (rule contra_subsetD [OF set_cursor_entries])
  have none: "dget inputs m = None" using \<open>m \<notin> fst ` set inputs\<close> by (simp add: map_of_eq_None_iff)
  have IH: "wfd ?es" "dget ?es n = (case dget inputs n of Some (Some c) \<Rightarrow> Some (PStr c) | _ \<Rightarrow> None)"
    using Cons by (simp_all add: wfd_def)
  show ?case
  proof (cases d)
    case None
    with IH none show ?thesis by (simp add: a)
  next
    case (Some c)
    have "wfd ((m, PStr c) # ?es)" using m IH(1) by (simp add: wfd_def del: set_concat)
    with Some IH(2) show ?thesis by (simp add: a)
  qed
qed simp

lemma wfp_entries: "wfd inputs \<Longrightarrow> wfp (PDict [(name, PStr c). (name, Some c) \<leftarrow> inputs])"
  using cursor_entries [of inputs] by (auto simp: wfd_def split: option.splits)

text \<open>
  The cursor of a fan-in gives back to each input exactly the cursor that input had, and
  none to an input that had none.
\<close>

theorem fanin_round_trip:
  assumes "wfd inputs" and "(name, c) \<in> set inputs"
  shows "fanin_resume (Some (fanin_cursor inputs)) name = Inr c"
proof -
  let ?d = "[(name, PStr c). (name, Some c) \<leftarrow> inputs]"
  have l: "loads (fanin_cursor inputs) = Some (PDict ?d)"
    unfolding fanin_cursor_def by (rule json.dec_enc) (rule wfp_entries [OF assms(1)])
  have "dget inputs name = Some c" using assms by (simp add: wfd_def)
  then have "cursor_entry ?d name = c"
    using cursor_entries [OF assms(1), of name] unfolding cursor_entry_def by (cases c) simp_all
  then show ?thesis
    by (simp add: fanin_resume_def loads_cursors_def l) (simp add: fanin_cursor_def json.enc_nonempty)
qed

lemma fanin_round_trip_witness:
  "fanin_resume (Some (fanin_cursor [(''a'', Some ''3''), (''b'', None)])) ''a'' = Inr (Some ''3'')"
  by (rule fanin_round_trip) (simp_all add: wfd_def)

section \<open>Join\<close>

text \<open>
  \<open>jn_taken\<close> and \<open>jn_done\<close> are the root items taken and finished; \<open>jn_subs r\<close> is the inventory
  built for root item \<open>r\<close> (its cursors, the sub-items taken and finished). A sub-item's exit
  stack closes its own context before it records the sub-inventory's cursor; a root item's
  context is closed before \<open>RootCursors.process\<close> records the root's.
\<close>

record sub_run =
  sr_cursors :: cursors_state
  sr_taken :: "item list"
  sr_done :: "item set"

record join_state =
  jn_root :: cursors_state
  jn_taken :: "item list"
  jn_done :: "item set"
  jn_subs :: "item \<Rightarrow> sub_run"
  jn_multi :: multi_cursors

definition fresh_cursors :: cursors_state where
  "fresh_cursors = initial_cursors None [] (Some 100)"

definition fresh_sub :: sub_run where
  "fresh_sub = \<lparr>sr_cursors = fresh_cursors, sr_taken = [], sr_done = {}\<rparr>"

definition join_init :: join_state where
  "join_init = \<lparr>jn_root = fresh_cursors, jn_taken = [], jn_done = {}, jn_subs = \<lambda>_. fresh_sub,
     jn_multi = \<lparr>mc_after = None, mc_partials = []\<rparr>\<rparr>"

definition root_take :: "item \<Rightarrow> join_state \<Rightarrow> join_state" where
  "root_take r s = s\<lparr>jn_root := snd (process_enter (jn_root s) r), jn_taken := jn_taken s @ [r]\<rparr>"

definition sub_take :: "item \<Rightarrow> item \<Rightarrow> join_state \<Rightarrow> join_state" where
  "sub_take r j s =
     (let sr = jn_subs s r
      in s\<lparr>jn_subs := (jn_subs s)(r := sr\<lparr>
           sr_cursors := snd (process_enter (sr_cursors sr) j), sr_taken := sr_taken sr @ [j]\<rparr>)\<rparr>)"

definition sub_finish :: "item \<Rightarrow> item \<Rightarrow> join_state \<Rightarrow> join_state" where
  "sub_finish r j s =
     (let sr = jn_subs s r; st = process_exit (sr_cursors sr) j
      in s\<lparr>jn_subs := (jn_subs s)(r := sr\<lparr>sr_cursors := st, sr_done := insert j (sr_done sr)\<rparr>),
           jn_multi := sub_exit r (as_cursor st) (jn_multi s)\<rparr>)"

definition root_finish :: "item \<Rightarrow> join_state \<Rightarrow> join_state" where
  "root_finish r s =
     (let st = process_exit (jn_root s) r
      in s\<lparr>jn_root := st, jn_done := insert r (jn_done s),
           jn_multi := root_exit (as_cursor st) r (jn_multi s)\<rparr>)"

inductive join_run :: "item list \<Rightarrow> (item \<Rightarrow> item list) \<Rightarrow> join_state \<Rightarrow> bool" for xs ys where
  join_start: "join_run xs ys join_init"
| join_take: "join_run xs ys s \<Longrightarrow> xs = jn_taken s @ r # rest \<Longrightarrow> join_run xs ys (root_take r s)"
| join_sub_take: "join_run xs ys s \<Longrightarrow> r \<in> set (jn_taken s) - jn_done s \<Longrightarrow>
     ys r = sr_taken (jn_subs s r) @ j # rest \<Longrightarrow> join_run xs ys (sub_take r j s)"
| join_sub_finish: "join_run xs ys s \<Longrightarrow> r \<in> set (jn_taken s) - jn_done s \<Longrightarrow>
     j \<in> set (sr_taken (jn_subs s r)) - sr_done (jn_subs s r) \<Longrightarrow> join_run xs ys (sub_finish r j s)"
| join_finish: "join_run xs ys s \<Longrightarrow> r \<in> set (jn_taken s) - jn_done s \<Longrightarrow>
     set (ys r) \<subseteq> sr_done (jn_subs s r) \<Longrightarrow> join_run xs ys (root_finish r s)"

text \<open>A saved cursor covers a set of finished items: it was taken at a point where no more were.\<close>

definition saved_at :: "item list \<Rightarrow> item set \<Rightarrow> string option \<Rightarrow> bool" where
  "saved_at xs D c \<longleftrightarrow>
     (\<exists>E F s rest. cursor_run fresh_cursors E F s \<and> xs = E @ rest \<and> F \<subseteq> D \<and> c = as_cursor s)"

definition good_items :: "item list \<Rightarrow> bool" where
  "good_items xs \<longleftrightarrow>
     distinct (map it_oid xs) \<and> distinct (map it_cursor xs) \<and> (\<forall>i \<in> set xs. struthy (it_cursor i))"

definition sub_inv :: "item list \<Rightarrow> sub_run \<Rightarrow> string option \<Rightarrow> bool" where
  "sub_inv zs sr c \<longleftrightarrow>
     cursor_run fresh_cursors (sr_taken sr) (sr_done sr) (sr_cursors sr) \<and>
     (\<exists>rest. zs = sr_taken sr @ rest) \<and> saved_at zs (sr_done sr) c"

definition join_inv :: "item list \<Rightarrow> (item \<Rightarrow> item list) \<Rightarrow> join_state \<Rightarrow> bool" where
  "join_inv xs ys s \<longleftrightarrow>
     cursor_run fresh_cursors (jn_taken s) (jn_done s) (jn_root s) \<and>
     (\<exists>rest. xs = jn_taken s @ rest) \<and> saved_at xs (jn_done s) (mc_after (jn_multi s)) \<and>
     wfd (mc_partials (jn_multi s)) \<and>
     (\<forall>r \<in> set xs. sub_inv (ys r) (jn_subs s r) (sub_cursor_of r (jn_multi s)) \<and>
        (r \<in> jn_done s \<longrightarrow> set (ys r) \<subseteq> sr_done (jn_subs s r)))"

lemma saved_at_start: "saved_at xs D None"
proof -
  have "as_cursor fresh_cursors = None"
    by (simp add: fresh_cursors_def initial_cursors_def as_cursor_def as_dict_def saved_partials_def
        partials_cursors_def map_filter_simps)
  then show ?thesis
    unfolding saved_at_def using run_start [of fresh_cursors] by (metis append_Nil empty_subsetI)
qed

lemma saved_at_run:
  "cursor_run fresh_cursors E F s \<Longrightarrow> xs = E @ rest \<Longrightarrow> saved_at xs F (as_cursor s)"
  unfolding saved_at_def by blast

lemma is_partial_Nil [simp]: "\<not> is_partial [] i"
  by (simp add: is_partial_def split: option.splits)

lemma saved_at_mono: "saved_at xs D c \<Longrightarrow> D \<subseteq> D' \<Longrightarrow> saved_at xs D' c"
  unfolding saved_at_def by blast

text \<open>Resuming from a saved cursor yields every item of the list that is not finished.\<close>

lemma saved_at_resume:
  assumes "saved_at xs D c" and "good_items xs" and "from_cursor c mp = Some s'"
    and "i \<in> set xs" and "i \<notin> D"
  shows "i \<in> set (fst (run_items s' (items_after (cs_after s') xs)))"
proof -
  obtain E F s rest where r: "cursor_run fresh_cursors E F s" "xs = E @ rest" "F \<subseteq> D" "c = as_cursor s"
    using assms(1) unfolding saved_at_def by blast
  have fresh: "cs_pendings fresh_cursors = []" "distinct (cs_partials fresh_cursors)"
    "items_after (cs_after fresh_cursors) xs = E @ rest"
    "remaining fresh_cursors E F (E @ rest) = filter (\<lambda>i. i \<notin> F) (E @ rest)"
    using r(2) by (simp_all add: fresh_cursors_def initial_cursors_def items_after_def remaining_def)
  have "i \<in> set (remaining fresh_cursors E F (E @ rest))"
    using assms(4,5) r(2,3) by (auto simp: fresh(4))
  moreover have "distinct (map it_cursor xs)" "\<forall>i \<in> set xs. struthy (it_cursor i)"
    using assms(2) by (auto simp: good_items_def)
  ultimately show ?thesis
    using resumed_not_lost [OF r(1) fresh(1,2) _ _ fresh(3)] assms(3) r(4) by blast
qed

lemma sub_cursor_sub_exit:
  assumes "struthy (it_cursor r)" and "struthy (it_cursor r')" and "r \<noteq> r' \<longrightarrow> it_cursor r \<noteq> it_cursor r'"
  shows "sub_cursor_of r' (sub_exit r c m) =
    (if r = r' \<and> c \<noteq> None then c else sub_cursor_of r' m)"
  using assms by (auto simp: sub_cursor_of_def sub_exit_def struthy_iff split: option.splits)

lemma sub_cursor_root_exit:
  assumes "struthy (it_cursor r)" and "struthy (it_cursor r')" and "r \<noteq> r' \<longrightarrow> it_cursor r \<noteq> it_cursor r'"
  shows "sub_cursor_of r' (root_exit c r m) = (if r = r' then None else sub_cursor_of r' m)"
  using assms by (auto simp: sub_cursor_of_def root_exit_def struthy_iff split: option.splits)

lemma good_cursor_eq: "good_items xs \<Longrightarrow> r \<in> set xs \<Longrightarrow> r' \<in> set xs \<Longrightarrow> r \<noteq> r' \<Longrightarrow> it_cursor r \<noteq> it_cursor r'"
  by (auto simp: good_items_def distinct_map dest: inj_onD)

lemma wfd_multi: "wfd (mc_partials m) \<Longrightarrow> wfd (mc_partials (sub_exit r c m)) \<and> wfd (mc_partials (root_exit c r m))"
  by (auto simp: sub_exit_def root_exit_def Let_def split: option.splits)

lemma after_multi [simp]:
  "mc_after (sub_exit r c m) = mc_after m" "mc_after (root_exit c r m) = c"
  by (auto simp: sub_exit_def root_exit_def Let_def split: option.splits)

lemma join_inv_run:
  assumes "join_run xs ys s" and xs: "good_items xs" and ys: "\<forall>r \<in> set xs. good_items (ys r)"
  shows "join_inv xs ys s"
  using assms(1)
proof (induction rule: join_run.induct)
  case join_start
  then show ?case
    by (auto simp: join_inv_def join_init_def sub_inv_def fresh_sub_def sub_cursor_of_def
        saved_at_start intro: run_start split: option.splits)
next
  case (join_take s r rest)
  have "it_oid r \<notin> it_oid ` set (jn_taken s)" using xs join_take.hyps(2) by (auto simp: good_items_def)
  with join_take show ?case
    by (auto simp: join_inv_def root_take_def intro: run_enter)
next
  case (join_sub_take s r j rest)
  have r: "r \<in> set xs" using join_sub_take.IH join_sub_take.hyps(2) by (auto simp: join_inv_def)
  have "it_oid j \<notin> it_oid ` set (sr_taken (jn_subs s r))"
    using ys r join_sub_take.hyps(3) by (auto simp: good_items_def)
  with join_sub_take r show ?case
    by (auto simp: join_inv_def sub_take_def Let_def sub_inv_def intro: run_enter)
next
  case (join_sub_finish s r j)
  have r: "r \<in> set xs" using join_sub_finish.IH join_sub_finish.hyps(2) by (auto simp: join_inv_def)
  let ?sr = "jn_subs s r" and ?st = "process_exit (sr_cursors (jn_subs s r)) j"
  have run: "cursor_run fresh_cursors (sr_taken ?sr) (insert j (sr_done ?sr)) ?st"
    using join_sub_finish r by (auto simp: join_inv_def sub_inv_def intro: run_exit)
  obtain rest where rest: "ys r = sr_taken ?sr @ rest"
    using join_sub_finish.IH r by (auto simp: join_inv_def sub_inv_def)
  have old: "saved_at (ys r) (insert j (sr_done ?sr)) (sub_cursor_of r (jn_multi s))"
    using join_sub_finish.IH r by (auto simp: join_inv_def sub_inv_def intro: saved_at_mono)
  have new: "saved_at (ys r) (insert j (sr_done ?sr)) (as_cursor ?st)"
    using run rest by (rule saved_at_run)
  have sc: "sub_cursor_of r' (sub_exit r (as_cursor ?st) (jn_multi s)) =
      (if r = r' \<and> as_cursor ?st \<noteq> None then as_cursor ?st else sub_cursor_of r' (jn_multi s))"
    if "r' \<in> set xs" for r'
    using xs r that good_cursor_eq [OF xs r that] by (intro sub_cursor_sub_exit) (auto simp: good_items_def)
  have "sub_inv (ys r') (jn_subs (sub_finish r j s) r') (sub_cursor_of r' (jn_multi (sub_finish r j s)))"
    if "r' \<in> set xs" for r'
    using join_sub_finish.IH that sc [OF that] run rest old new
    by (auto simp: join_inv_def sub_finish_def Let_def sub_inv_def)
  with join_sub_finish.IH show ?case
    using wfd_multi by (auto simp: join_inv_def sub_finish_def Let_def)
next
  case (join_finish s r)
  have r: "r \<in> set xs" using join_finish.IH join_finish.hyps(2) by (auto simp: join_inv_def)
  let ?st = "process_exit (jn_root s) r"
  have run: "cursor_run fresh_cursors (jn_taken s) (insert r (jn_done s)) ?st"
    using join_finish by (auto simp: join_inv_def intro: run_exit)
  obtain rest where rest: "xs = jn_taken s @ rest" using join_finish.IH by (auto simp: join_inv_def)
  have new: "saved_at xs (insert r (jn_done s)) (as_cursor ?st)" using run rest by (rule saved_at_run)
  have sc: "sub_cursor_of r' (root_exit (as_cursor ?st) r (jn_multi s)) =
      (if r = r' then None else sub_cursor_of r' (jn_multi s))" if "r' \<in> set xs" for r'
    using xs r that good_cursor_eq [OF xs r that] by (intro sub_cursor_root_exit) (auto simp: good_items_def)
  have "sub_inv (ys r') (jn_subs s r') (sub_cursor_of r' (jn_multi (root_finish r s)))"
    if "r' \<in> set xs" for r'
    using join_finish.IH that sc [OF that] saved_at_start
    by (auto simp: join_inv_def root_finish_def Let_def sub_inv_def)
  with join_finish run new rest show ?case
    using wfd_multi by (auto simp: join_inv_def root_finish_def Let_def)
qed


definition demo_join :: join_state where
  "demo_join = sub_finish (demo_items ! 0) (demo_items ! 1)
     (sub_take (demo_items ! 0) (demo_items ! 1) (root_take (demo_items ! 0) join_init))"


end
