(* ===== verification/Iter_Sched.thy ===== *)
theory Iter_Sched
  imports Prelude
begin

text \<open>
  \<open>utils/iterators.py\<close>: merging several async iterators.

  An iterator is a number. \<open>credits_schedule\<close> is one call of \<open>CreditsScheduler.schedule\<close>: who of
  the ready iterators may go on, and the credits afterwards. Its main result is bounded waiting
  (no ready iterator starves). \<open>fan_round\<close> is one turn of the loop of \<open>Scheduler.__aiter__\<close>, with
  the tasks that are done chosen by the event loop (an argument), and the invariant that every
  value of every iterator comes out once and in order. \<open>async_buffered\<close> is a step relation
  over arrivals and wake-ups of \<open>asyncio.wait\<close>.
\<close>

section \<open>Credits\<close>

record credits =
  cr_priority :: int
  cr_credits :: int

definition cr_cost :: "credits \<Rightarrow> int" where
  "cr_cost c = cr_priority c - cr_credits c"

definition cr_add :: "int \<Rightarrow> credits \<Rightarrow> credits" where
  "cr_add n c = c\<lparr>cr_credits := min (cr_priority c) (cr_credits c + n)\<rparr>"

definition cr_schedule :: "credits \<Rightarrow> bool \<times> credits" where
  "cr_schedule c = (if cr_credits c \<ge> cr_priority c then (True, c\<lparr>cr_credits := 0\<rparr>) else (False, c))"

type_synonym credit_table = "(nat, credits) pydict"

definition initial_credits :: "(nat \<times> int) list \<Rightarrow> credit_table" where
  "initial_credits prios = fold (\<lambda>(i, p). dset i \<lparr>cr_priority = p, cr_credits = 0\<rparr>) prios []"

text \<open>\<open>self.credits[i]\<close>; every iterator of the scheduler has an entry.\<close>

definition credit_of :: "credit_table \<Rightarrow> nat \<Rightarrow> credits" where
  "credit_of d i = the (dget d i)"

fun schedule_ready :: "nat list \<Rightarrow> credit_table \<Rightarrow> nat list \<times> credit_table" where
  "schedule_ready [] d = ([], d)"
| "schedule_ready (i # is) d =
     (let (fires, c) = cr_schedule (credit_of d i);
          (out, d') = schedule_ready is (dset i c d)
      in (if fires then i # out else out, d'))"

definition min_cost :: "nat list \<Rightarrow> credit_table \<Rightarrow> int" where
  "min_cost ready d = foldr min (map (\<lambda>i. cr_cost (credit_of d i)) (tl ready)) (cr_cost (credit_of d (hd ready)))"

text \<open>The credits after \<open>add(cost)\<close> on every iterator.\<close>

definition charged :: "nat list \<Rightarrow> credit_table \<Rightarrow> credit_table" where
  "charged ready d =
     (let cost = min_cost ready d
      in if cost \<noteq> 0 then map (\<lambda>(i, c). (i, cr_add cost c)) d else d)"

definition credits_schedule :: "nat list \<Rightarrow> credit_table \<Rightarrow> nat list \<times> credit_table" where
  "credits_schedule ready d = schedule_ready ready (charged ready d)"

section \<open>Bounded waiting\<close>

definition iters :: "credit_table \<Rightarrow> nat set" where
  "iters d = set (dkeys d)"

definition credits_inv :: "credit_table \<Rightarrow> bool" where
  "credits_inv d \<longleftrightarrow> wfd d \<and>
     (\<forall>i \<in> iters d. 0 \<le> cr_credits (credit_of d i) \<and>
        cr_credits (credit_of d i) \<le> cr_priority (credit_of d i) \<and> 0 < cr_priority (credit_of d i))"

definition round_ok :: "nat list \<Rightarrow> credit_table \<Rightarrow> bool" where
  "round_ok ready d \<longleftrightarrow> credits_inv d \<and> distinct ready \<and> set ready \<subseteq> iters d \<and> ready \<noteq> []"

definition is_full :: "credit_table \<Rightarrow> nat \<Rightarrow> bool" where
  "is_full d i \<longleftrightarrow> cr_credits (credit_of d i) \<ge> cr_priority (credit_of d i)"

lemma finite_iters [simp]: "finite (iters d)"
  by (simp add: iters_def)

lemma iters_cong: "dkeys d = dkeys d' \<Longrightarrow> iters d = iters d'"
  by (simp only: iters_def)

lemma credit_of_dset [simp]: "credit_of (dset k c d) i = (if i = k then c else credit_of d i)"
  by (simp add: credit_of_def)

lemma schedule_ready_spec:
  assumes "distinct ready" and "set ready \<subseteq> iters d"
  shows "fst (schedule_ready ready d) = filter (is_full d) ready \<and>
    dkeys (snd (schedule_ready ready d)) = dkeys d \<and>
    (\<forall>j. credit_of (snd (schedule_ready ready d)) j =
      (if j \<in> set ready \<and> is_full d j then (credit_of d j)\<lparr>cr_credits := 0\<rparr> else credit_of d j))"
  using assms
proof (induction ready arbitrary: d)
  case (Cons i ready)
  obtain b c where bc: "cr_schedule (credit_of d i) = (b, c)" by fastforce
  have b: "b = is_full d i" and c: "c = (if b then (credit_of d i)\<lparr>cr_credits := 0\<rparr> else credit_of d i)"
    using bc by (auto simp: cr_schedule_def is_full_def split: if_splits)
  have keys: "dkeys (dset i c d) = dkeys d" using Cons.prems by (auto simp: dkeys_dset iters_def)
  have full: "is_full (dset i c d) j = is_full d j" if "j \<in> set ready" for j
    using that Cons.prems(1) by (auto simp: is_full_def)
  have sub: "set ready \<subseteq> iters (dset i c d)" using Cons.prems(2) iters_cong [OF keys] by auto
  have "filter (is_full (dset i c d)) ready = filter (is_full d) ready"
    using full by (intro filter_cong) auto
  then show ?case
    using Cons.IH [of "dset i c d"] Cons.prems(1) sub keys b c full
    by (auto simp: bc split_def)
qed simp

lemma foldr_min_le: "x \<in> insert z (set xs) \<Longrightarrow> foldr min xs z \<le> (x :: int)"
  by (induction xs) auto

lemma min_cost_le:
  assumes "i \<in> set ready"
  shows "min_cost ready d \<le> cr_cost (credit_of d i)"
proof -
  obtain j rest where r: "ready = j # rest" using assms by (cases ready) auto
  show ?thesis
    unfolding min_cost_def r list.sel by (rule foldr_min_le) (use assms r in auto)
qed

lemma min_cost_mem:
  assumes "ready \<noteq> []"
  obtains i where "i \<in> set ready" "min_cost ready d = cr_cost (credit_of d i)"
proof -
  obtain i rest where r: "ready = i # rest" using assms by (cases ready) auto
  have "foldr min xs z \<in> insert z (set xs)" for xs and z :: int
    by (induction xs) (auto simp: min_def)
  from this [of "map (\<lambda>i. cr_cost (credit_of d i)) rest" "cr_cost (credit_of d i)"]
  have "min_cost ready d \<in> (\<lambda>i. cr_cost (credit_of d i)) ` set ready"
    by (simp add: min_cost_def r)
  then show thesis using that by blast
qed

lemma credit_of_map: "i \<in> iters d \<Longrightarrow> credit_of (map (\<lambda>(i, c). (i, f c)) d) i = f (credit_of d i)"
  by (induction d) (auto simp: credit_of_def iters_def)

lemma charged_keys: "dkeys (charged ready d) = dkeys d"
  by (auto simp: charged_def Let_def)

lemma cost_nonneg: "round_ok ready d \<Longrightarrow> 0 \<le> min_cost ready d"
  by (rule min_cost_mem [of ready d]) (auto simp: round_ok_def credits_inv_def cr_cost_def subset_iff)

lemma charged_credit:
  assumes "round_ok ready d" and "j \<in> iters d"
  shows "cr_priority (credit_of (charged ready d) j) = cr_priority (credit_of d j)"
    and "cr_credits (credit_of (charged ready d) j) =
      min (cr_priority (credit_of d j)) (cr_credits (credit_of d j) + min_cost ready d)"
  using assms by (auto simp: charged_def Let_def credit_of_map cr_add_def credits_inv_def round_ok_def)

lemma some_full:
  assumes "round_ok ready d"
  obtains j where "j \<in> set ready" "j \<in> iters d" "is_full (charged ready d) j"
proof -
  obtain j where j: "j \<in> set ready" "min_cost ready d = cr_cost (credit_of d j)"
    using min_cost_mem assms by (metis round_ok_def)
  moreover from j(1) assms have "j \<in> iters d" by (auto simp: round_ok_def)
  ultimately show thesis
    using that charged_credit [OF assms, of j] by (auto simp: is_full_def cr_cost_def)
qed

lemma step_facts:
  assumes "round_ok ready d"
  shows "fst (credits_schedule ready d) = filter (is_full (charged ready d)) ready"
    and "dkeys (snd (credits_schedule ready d)) = dkeys d"
    and "credit_of (snd (credits_schedule ready d)) j =
      (if j \<in> set ready \<and> is_full (charged ready d) j then (credit_of (charged ready d) j)\<lparr>cr_credits := 0\<rparr>
       else credit_of (charged ready d) j)"
  using schedule_ready_spec [of ready "charged ready d"] assms charged_keys [of ready d]
    iters_cong [OF charged_keys, of ready d]
  by (auto simp: credits_schedule_def round_ok_def)

lemma step_iters: "round_ok ready d \<Longrightarrow> iters (snd (credits_schedule ready d)) = iters d"
  by (rule iters_cong) (rule step_facts)

lemma step_inv:
  assumes "round_ok ready d"
  shows "credits_inv (snd (credits_schedule ready d))"
  using assms cost_nonneg [OF assms] charged_credit [OF assms] step_facts(2) [OF assms]
  by (auto simp: credits_inv_def wfd_def step_iters [OF assms] step_facts(3) [OF assms] round_ok_def)

lemma step_progress:
  assumes "round_ok ready d"
  shows "fst (credits_schedule ready d) \<noteq> []"
proof -
  obtain j where "j \<in> set ready" "is_full (charged ready d) j" by (rule some_full [OF assms])
  then show ?thesis by (auto simp: step_facts(1) [OF assms] filter_empty_conv)
qed

definition full_set :: "credit_table \<Rightarrow> nat set" where
  "full_set d = {j \<in> iters d. is_full d j}"

definition wait_potential :: "credit_table \<Rightarrow> nat \<Rightarrow> nat" where
  "wait_potential d i = nat (cr_cost (credit_of d i)) * length d + card (full_set d)"

lemma step_decreases:
  assumes ok: "round_ok ready d" and i: "i \<in> set ready"
    and waits: "i \<notin> set (fst (credits_schedule ready d))"
  shows "wait_potential (snd (credits_schedule ready d)) i < wait_potential d i"
proof -
  let ?d' = "snd (credits_schedule ready d)" and ?cost = "min_cost ready d" and ?d1 = "charged ready d"
  note sf = step_facts [OF ok] and cc = charged_credit [OF ok]
  have len: "length ?d' = length d" using sf(2) by (metis length_map)
  have ik: "i \<in> iters d" and sub: "set ready \<subseteq> iters d" using i ok by (auto simp: round_ok_def)
  have nf: "\<not> is_full ?d1 i" using waits i by (simp add: sf)
  have cost': "cr_cost (credit_of ?d' i) = cr_cost (credit_of d i) - ?cost"
    using nf cc [OF ik] by (auto simp: sf cr_cost_def is_full_def)
  have full': "full_set ?d' = {j \<in> iters d. is_full ?d1 j \<and> j \<notin> set ready}"
    using ok cc by (auto simp: full_set_def step_iters [OF ok] sf is_full_def round_ok_def credits_inv_def)
  show ?thesis
  proof (cases "?cost = 0")
    case True
    then have d1: "?d1 = d" by (simp add: charged_def)
    obtain j where "j \<in> set ready" "j \<in> full_set d"
      using some_full [OF ok] by (auto simp: d1 full_set_def)
    then have "full_set ?d' \<subset> full_set d" by (unfold full', unfold d1 full_set_def) blast
    then have "card (full_set ?d') < card (full_set d)"
      by (rule psubset_card_mono [rotated]) (simp add: full_set_def)
    with True cost' len show ?thesis by (simp add: wait_potential_def)
  next
    case False
    with cost_nonneg [OF ok] have c1: "1 \<le> ?cost" by simp
    have "?cost \<le> cr_cost (credit_of d i)" using i by (rule min_cost_le)
    with c1 have "nat (cr_cost (credit_of ?d' i)) + 1 \<le> nat (cr_cost (credit_of d i))"
      by (simp add: cost')
    then have "(nat (cr_cost (credit_of ?d' i)) + 1) * length d \<le> nat (cr_cost (credit_of d i)) * length d"
      by (rule mult_le_mono1)
    moreover have "card (full_set ?d') < length d"
    proof -
      have "full_set ?d' \<subseteq> iters d - {i}" using i by (auto simp: full')
      then have "card (full_set ?d') \<le> card (iters d - {i})" by (rule card_mono [rotated]) simp
      also have "\<dots> < card (iters d)" using ik by (intro psubset_card_mono) auto
      also have "\<dots> \<le> length d" unfolding iters_def by (metis card_length length_map)
      finally show ?thesis .
    qed
    ultimately show ?thesis by (simp add: wait_potential_def len)
  qed
qed

text \<open>A sequence of rounds, each with its ready iterators; who goes on in each.\<close>

fun credits_rounds :: "nat list list \<Rightarrow> credit_table \<Rightarrow> nat list list" where
  "credits_rounds [] d = []"
| "credits_rounds (ready # rs) d =
     (let (out, d') = credits_schedule ready d in out # credits_rounds rs d')"

lemma waiting_bound:
  assumes "credits_inv d"
    and "\<forall>ready \<in> set rounds. distinct ready \<and> set ready \<subseteq> iters d \<and> i \<in> set ready"
    and "wait_potential d i < length rounds"
  shows "\<exists>out \<in> set (credits_rounds rounds d). i \<in> set out"
  using assms
proof (induction rounds arbitrary: d)
  case (Cons ready rounds)
  let ?d' = "snd (credits_schedule ready d)"
  have ok: "round_ok ready d" and i: "i \<in> set ready"
    using Cons.prems(1,2) by (auto simp: round_ok_def)
  show ?case
  proof (cases "i \<in> set (fst (credits_schedule ready d))")
    case True
    then show ?thesis by (auto simp: split_def Let_def)
  next
    case False
    have "wait_potential ?d' i < length rounds"
      using step_decreases [OF ok i False] Cons.prems(3) by simp
    then have "\<exists>out \<in> set (credits_rounds rounds ?d'). i \<in> set out"
      using Cons.IH [of ?d'] Cons.prems step_inv [OF ok] step_iters [OF ok] by simp
    then show ?thesis by (simp add: split_def Let_def)
  qed
qed simp

lemma wait_potential_le:
  assumes "credits_inv d" and "i \<in> iters d"
  shows "wait_potential d i \<le> (nat (cr_priority (credit_of d i)) + 1) * length d"
proof -
  have "nat (cr_cost (credit_of d i)) \<le> nat (cr_priority (credit_of d i))"
    using assms by (auto simp: cr_cost_def credits_inv_def)
  then have "nat (cr_cost (credit_of d i)) * length d \<le> nat (cr_priority (credit_of d i)) * length d"
    by (rule mult_le_mono1)
  moreover have "card (full_set d) \<le> card (iters d)"
    by (intro card_mono) (auto simp: full_set_def)
  then have "card (full_set d) \<le> length d"
    unfolding iters_def by (metis card_length length_map order_trans)
  ultimately show ?thesis unfolding wait_potential_def add_mult_distrib by linarith
qed

text \<open>
  C33: no starvation. Whatever the other iterators do, one that is ready in every round goes on
  within \<open>(priority + 1) * n + 1\<close> rounds, \<open>n\<close> being the number of iterators (priorities positive).
\<close>

theorem credits_bounded_waiting:
  assumes "credits_inv d" and "i \<in> iters d"
    and "\<forall>ready \<in> set rounds. distinct ready \<and> set ready \<subseteq> iters d \<and> i \<in> set ready"
    and "(nat (cr_priority (credit_of d i)) + 1) * length d < length rounds"
  shows "\<exists>out \<in> set (credits_rounds rounds d). i \<in> set out"
  using waiting_bound [OF assms(1,3)] wait_potential_le [OF assms(1,2)] assms(4) by linarith

definition demo_credits :: credit_table where
  "demo_credits = initial_credits [(0, 1), (1, 2)]"

lemma credits_bounded_waiting_witness:
  "\<exists>out \<in> set (credits_rounds [[0, 1], [0, 1], [1], [0, 1], [0, 1], [1], [0, 1]] demo_credits). 1 \<in> set out"
proof -
  have "credits_inv demo_credits" "1 \<in> iters demo_credits"
    by (simp_all add: demo_credits_def initial_credits_def credits_inv_def wfd_def dset_def credit_of_def iters_def)
  then show ?thesis
    by (rule credits_bounded_waiting)
      (auto simp: demo_credits_def initial_credits_def dset_def credit_of_def iters_def)
qed

section \<open>The merge loop\<close>

text \<open>
  A scheduler is a function from the ready iterators and its own state to the ones to go on.
  \<open>fan_tasks\<close> holds for each iterator with an \<open>anext\<close> task the outcome that task has or will have,
  \<open>fan_rest\<close> what the iterator produces after it.
\<close>

datatype 'a outcome = OValue 'a | OStop | OError exn | OCancelled

record 'a fan =
  fan_tasks :: "(nat, 'a outcome) pydict"
  fan_rest :: "nat \<Rightarrow> 'a outcome list"
  fan_errors :: "exn list"
  fan_out :: "(nat \<times> 'a) list"

text \<open>\<open>asyncio.create_task(anext(iterator))\<close>\<close>

definition arm :: "nat \<Rightarrow> 'a fan \<Rightarrow> 'a fan" where
  "arm i st =
     (case fan_rest st i of
        [] \<Rightarrow> st\<lparr>fan_tasks := dset i OStop (fan_tasks st)\<rparr>
      | x # xs \<Rightarrow> st\<lparr>fan_tasks := dset i x (fan_tasks st), fan_rest := (fan_rest st)(i := xs)\<rparr>)"

definition fan_start :: "nat list \<Rightarrow> (nat \<Rightarrow> 'a outcome list) \<Rightarrow> 'a fan" where
  "fan_start iterators src =
     fold arm iterators \<lparr>fan_tasks = [], fan_rest = src, fan_errors = [], fan_out = []\<rparr>"

text \<open>The body of the loop over the scheduled iterators; \<open>done\<close> are the finished tasks.\<close>

definition fan_handle :: "nat list \<Rightarrow> nat \<Rightarrow> 'a fan \<Rightarrow> 'a fan" where
  "fan_handle done i st =
     (case dget (fan_tasks st) i of
        None \<Rightarrow> st
      | Some r \<Rightarrow>
          (let st1 = st\<lparr>fan_tasks := dpop i (fan_tasks st)\<rparr>;
               rearm = (\<lambda>st. if fan_errors st = [] then arm i st else st)
           in case r of
                OCancelled \<Rightarrow> st1
              | OStop \<Rightarrow> st1
              | OValue v \<Rightarrow> rearm (st1\<lparr>fan_out := fan_out st1 @ [(i, v)]\<rparr>)
              | OError e \<Rightarrow> rearm (st1\<lparr>
                    fan_tasks := map (\<lambda>(j, r). (j, if j \<in> set done then r else OCancelled)) (fan_tasks st1),
                    fan_errors := fan_errors st1 @ [e]\<rparr>)))"

definition fan_round ::
  "(nat list \<Rightarrow> 's \<Rightarrow> nat list \<times> 's) \<Rightarrow> nat list \<Rightarrow> 'a fan \<times> 's \<Rightarrow> 'a fan \<times> 's" where
  "fan_round sched done st =
     (let (go, s') = sched done (snd st) in (fold (fan_handle done) go (fst st), s'))"

definition fan_result :: "'a fan \<Rightarrow> (nat \<times> 'a) list result" where
  "fan_result st = (if fan_errors st = [] then Inr (fan_out st) else Inl (PlainException ''One iterator failed''))"

text \<open>The default scheduler lets every ready iterator go on.\<close>

definition schedule_all :: "nat list \<Rightarrow> unit \<Rightarrow> nat list \<times> unit" where
  "schedule_all ready s = (ready, s)"

definition emitted :: "'a fan \<Rightarrow> nat \<Rightarrow> 'a list" where
  "emitted st i = map snd (filter (\<lambda>p. fst p = i) (fan_out st))"

definition todo :: "'a fan \<Rightarrow> nat \<Rightarrow> 'a outcome list" where
  "todo st i = (case dget (fan_tasks st) i of Some (OValue v) \<Rightarrow> OValue v # fan_rest st i | _ \<Rightarrow> fan_rest st i)"

text \<open>The loop over sources \<open>src\<close> that only produce values and then stop, one iterator at a time.\<close>

definition fan_ok :: "(nat \<Rightarrow> 'a list) \<Rightarrow> 'a fan \<Rightarrow> nat \<Rightarrow> bool" where
  "fan_ok src st i \<longleftrightarrow>
     map OValue (emitted st i) @ todo st i = map OValue (src i) \<and>
     (case dget (fan_tasks st) i of
        Some (OValue _) \<Rightarrow> True | Some OStop \<Rightarrow> fan_rest st i = [] | None \<Rightarrow> fan_rest st i = [] | _ \<Rightarrow> False)"

definition fan_inv :: "(nat \<Rightarrow> 'a list) \<Rightarrow> 'a fan \<Rightarrow> bool" where
  "fan_inv src st \<longleftrightarrow> fan_errors st = [] \<and> (\<forall>i. fan_ok src st i)"

lemma arm_ok:
  assumes "map OValue (emitted st i) @ fan_rest st i = map OValue (src i)"
  shows "fan_ok src (arm i st) i"
proof (cases "fan_rest st i")
  case Nil
  with assms show ?thesis by (simp add: fan_ok_def arm_def emitted_def todo_def)
next
  case (Cons x xs)
  have "x \<in> set (map OValue (src i))" using assms [symmetric] Cons by simp
  then obtain y where "x = OValue y" by auto
  with assms Cons show ?thesis by (simp add: fan_ok_def arm_def emitted_def todo_def)
qed

lemma fan_ok_cong:
  "filter (\<lambda>p. fst p = j) (fan_out st) = filter (\<lambda>p. fst p = j) (fan_out st') \<Longrightarrow>
   dget (fan_tasks st) j = dget (fan_tasks st') j \<Longrightarrow>
   fan_rest st j = fan_rest st' j \<Longrightarrow> fan_ok src st j = fan_ok src st' j"
  by (auto simp: fan_ok_def todo_def emitted_def split: option.splits outcome.splits)

lemma arm_other: "j \<noteq> i \<Longrightarrow> fan_ok src (arm i st) j = fan_ok src st j"
  by (rule fan_ok_cong) (simp_all add: arm_def split: list.splits)

lemma arm_errors [simp]: "fan_errors (arm i st) = fan_errors st"
  by (simp add: arm_def split: list.splits)

lemma fan_inv_handle:
  assumes inv: "fan_inv src st"
  shows "fan_inv src (fan_handle done i st)"
proof -
  have err: "fan_errors st = []" and ok: "fan_ok src st j" for j
    using inv by (auto simp: fan_inv_def)
  from ok [of i] consider (none) "dget (fan_tasks st) i = None"
    | (stop) "dget (fan_tasks st) i = Some OStop" "fan_rest st i = []"
    | (val) v where "dget (fan_tasks st) i = Some (OValue v)"
    by (auto simp: fan_ok_def split: option.splits outcome.splits)
  then show ?thesis
  proof cases
    case none
    with inv show ?thesis by (simp add: fan_handle_def)
  next
    case stop
    let ?st1 = "st\<lparr>fan_tasks := dpop i (fan_tasks st)\<rparr>"
    have "fan_ok src ?st1 j" for j
    proof (cases "j = i")
      case True
      with ok [of i] stop show ?thesis by (simp add: fan_ok_def todo_def emitted_def)
    next
      case False
      with ok [of j] fan_ok_cong [of j ?st1 st src] show ?thesis by simp
    qed
    with stop err show ?thesis by (simp add: fan_handle_def fan_inv_def Let_def)
  next
    case val
    let ?st1 = "st\<lparr>fan_tasks := dpop i (fan_tasks st), fan_out := fan_out st @ [(i, v)]\<rparr>"
    have "fan_handle done i st = arm i ?st1"
      using val err by (simp add: fan_handle_def Let_def)
    moreover have "fan_ok src (arm i ?st1) i"
      by (rule arm_ok) (use ok [of i] val in \<open>simp add: fan_ok_def emitted_def todo_def\<close>)
    moreover have "fan_ok src (arm i ?st1) j" if "j \<noteq> i" for j
      using ok [of j] that fan_ok_cong [of j ?st1 st src] by (simp add: arm_other)
    ultimately show ?thesis using err unfolding fan_inv_def
      by (metis arm_errors fan.simps(3) fan.surjective fan.update_convs(1) fan.update_convs(4))
  qed
qed

lemma fan_inv_round:
  assumes "fan_inv src (fst st)"
  shows "fan_inv src (fst (fan_round sched done st))"
proof -
  have "fan_inv src st1 \<Longrightarrow> fan_inv src (fold (fan_handle done) go st1)" for go st1
    by (induction go arbitrary: st1) (auto intro: fan_inv_handle)
  with assms show ?thesis by (simp add: fan_round_def split_def Let_def)
qed

lemma fan_inv_start:
  assumes "distinct iterators" and "\<forall>i. i \<notin> set iterators \<longrightarrow> src i = []"
  shows "fan_inv src (fan_start iterators (\<lambda>i. map OValue (src i)))"
proof -
  let ?s0 = "\<lparr>fan_tasks = [], fan_rest = \<lambda>i. map OValue (src i), fan_errors = [], fan_out = []\<rparr>"
  have keep: "i \<notin> set js \<Longrightarrow> fan_rest (fold arm js st) i = fan_rest st i \<and> fan_out (fold arm js st) = fan_out st"
    "fan_errors (fold arm js st) = fan_errors st" for js st i
    by (induction js arbitrary: st) (auto simp: arm_def split: list.splits)
  have other: "i \<notin> set js \<Longrightarrow> fan_ok src (fold arm js st) i = fan_ok src st i" for js st i
    by (induction js arbitrary: st) (auto simp: arm_other)
  have "fan_ok src (fold arm js st) i"
    if "i \<in> set js" "distinct js" "fan_rest st i = map OValue (src i)" "emitted st i = []" for js st i
    using that
  proof (induction js arbitrary: st)
    case (Cons j js)
    show ?case
    proof (cases "i = j")
      case True
      with Cons.prems other [of i js "arm j st"] arm_ok [of st i src] show ?thesis by simp
    next
      case False
      with Cons.prems Cons.IH [of "arm j st"] show ?thesis
        by (simp add: arm_def emitted_def split: list.splits)
    qed
  qed simp
  moreover have "fan_ok src (fold arm iterators ?s0) i" if "i \<notin> set iterators" for i
    using that assms(2) other [of i iterators ?s0] by (simp add: fan_ok_def emitted_def todo_def)
  ultimately have "fan_ok src (fold arm iterators ?s0) i" for i
    using assms(1) by (cases "i \<in> set iterators") (simp_all add: emitted_def)
  then show ?thesis by (simp add: fan_inv_def fan_start_def keep(2))
qed

lemma fan_inv_rounds:
  "fan_inv src (fst st) \<Longrightarrow> fan_inv src (fst (fold (fan_round sched) dones st))"
proof (induction dones arbitrary: st)
  case (Cons d dones)
  then show ?case using fan_inv_round [OF Cons.prems] by simp
qed simp

text \<open>
  The merge of \<open>FanIn\<close> is complete and order preserving. Whatever order the tasks finish in
  and whatever the scheduler lets go on, once no task is left every iterator's values have come
  out exactly once, in that iterator's order, and no error is reported.
\<close>

theorem merge_complete:
  assumes "distinct iterators" and "\<forall>i. i \<notin> set iterators \<longrightarrow> src i = []"
    and "(st, s') = fold (fan_round sched) dones (fan_start iterators (\<lambda>i. map OValue (src i)), s)"
    and "fan_tasks st = []"
  shows "fan_result st = Inr (fan_out st) \<and> (\<forall>i. map snd (filter (\<lambda>p. fst p = i) (fan_out st)) = src i)"
proof -
  have "fan_inv src st"
    using fan_inv_rounds [of src "(fan_start iterators (\<lambda>i. map OValue (src i)), s)" sched dones]
      fan_inv_start [OF assms(1,2)] assms(3) by (metis fst_conv)
  then have "fan_errors st = []" and ok: "fan_ok src st i" for i by (auto simp: fan_inv_def)
  moreover have "map snd (filter (\<lambda>p. fst p = i) (fan_out st)) = src i" for i
  proof -
    have "map OValue (emitted st i) = map OValue (src i)"
      using ok [of i] assms(4) by (auto simp: fan_ok_def todo_def)
    then have "emitted st i = src i" by (rule map_injective) (simp add: inj_def)
    then show ?thesis by (simp add: emitted_def)
  qed
  ultimately show ?thesis by (simp add: fan_result_def)
qed

definition demo_src :: "nat \<Rightarrow> string list" where
  "demo_src i = (if i = 0 then [''a'', ''b''] else if i = 1 then [''c''] else [])"

lemma merge_complete_witness:
  "\<exists>st s'. (st, s') = fold (fan_round schedule_all) [[0], [1, 0], [0, 1]]
      (fan_start [0, 1] (\<lambda>i. map OValue (demo_src i)), ()) \<and>
    fan_result st = Inr (fan_out st) \<and>
    (\<forall>i. map snd (filter (\<lambda>p. fst p = i) (fan_out st)) = demo_src i)"
proof -
  let ?r = "fold (fan_round schedule_all) [[0], [1, 0], [0, 1]]
      (fan_start [0, 1] (\<lambda>i. map OValue (demo_src i)), ())"
  have "fan_tasks (fst ?r) = []"
    by (simp add: fan_start_def arm_def demo_src_def fan_round_def schedule_all_def fan_handle_def
        dset_def dpop_def)
  moreover have "(fst ?r, snd ?r) = ?r" by (rule prod.collapse)
  moreover have "distinct [0, 1 :: nat]" "\<forall>i. i \<notin> set [0, 1] \<longrightarrow> demo_src i = []"
    by (simp_all add: demo_src_def)
  ultimately show ?thesis
    using merge_complete [of "[0, 1]" demo_src "fst ?r" "snd ?r" schedule_all "[[0], [1, 0], [0, 1]]" "()"]
    by (intro exI [of _ "fst ?r"] exI [of _ "snd ?r"] conjI) simp_all
qed

section \<open>Buffering\<close>

text \<open>
  \<open>async_buffered\<close>: \<open>bf_slice_done\<close> tells whether the task \<open>next_slice\<close> has finished. The
  events are an item arriving in the running slice, the source ending or raising (which both
  end the slice), and \<open>asyncio.wait\<close> waking up by its timeout or because the slice is done.
\<close>

record 'a buffered =
  bf_items :: "'a list"
  bf_slice_done :: bool
  bf_out :: "'a list list"
  bf_ended :: bool

datatype 'a buffer_event = Arrive 'a | Exhausted | SourceFailed exn | Wake

definition buffer_start :: "'a buffered" where
  "buffer_start = \<lparr>bf_items = [], bf_slice_done = False, bf_out = [], bf_ended = False\<rparr>"

fun buffer_step :: "nat option \<Rightarrow> 'a buffer_event \<Rightarrow> 'a buffered \<Rightarrow> 'a buffered" where
  "buffer_step sz (Arrive x) st =
     (let items = bf_items st @ [x]
      in st\<lparr>bf_items := items,
            bf_slice_done := (case sz of None \<Rightarrow> False | Some n \<Rightarrow> length items \<ge> n)\<rparr>)"
| "buffer_step sz Exhausted st = st\<lparr>bf_slice_done := True\<rparr>"
| "buffer_step sz (SourceFailed e) st = st\<lparr>bf_slice_done := True\<rparr>"
| "buffer_step sz Wake st =
     (if bf_slice_done st \<and> bf_items st = [] then st\<lparr>bf_ended := True\<rparr>
      else (let out = (if bf_items st = [] then bf_out st else bf_out st @ [bf_items st])
            in st\<lparr>bf_items := [], bf_slice_done := False, bf_out := out\<rparr>))"

text \<open>An item can only arrive while the slice runs; nothing happens after the end.\<close>

fun buffer_enabled :: "'a buffer_event \<Rightarrow> 'a buffered \<Rightarrow> bool" where
  "buffer_enabled (Arrive x) st = (\<not> bf_ended st \<and> \<not> bf_slice_done st)"
| "buffer_enabled ev st = (\<not> bf_ended st)"

fun buffer_run :: "nat option \<Rightarrow> 'a buffer_event list \<Rightarrow> 'a buffered \<Rightarrow> 'a buffered option" where
  "buffer_run sz [] st = Some st"
| "buffer_run sz (ev # evs) st =
     (if buffer_enabled ev st then buffer_run sz evs (buffer_step sz ev st) else None)"

definition arrivals :: "'a buffer_event list \<Rightarrow> 'a list" where
  "arrivals evs = List.map_filter (\<lambda>ev. case ev of Arrive x \<Rightarrow> Some x | _ \<Rightarrow> None) evs"

definition buffer_inv :: "nat option \<Rightarrow> 'a buffered \<Rightarrow> bool" where
  "buffer_inv sz st \<longleftrightarrow>
     (\<forall>b \<in> set (bf_out st). b \<noteq> [] \<and> (\<forall>n. sz = Some n \<longrightarrow> length b \<le> max n 1)) \<and>
     (\<forall>n. sz = Some n \<longrightarrow> length (bf_items st) \<le> max n 1 \<and>
        (\<not> bf_slice_done st \<longrightarrow> length (bf_items st) < max n 1)) \<and>
     (bf_ended st \<longrightarrow> bf_items st = [])"

lemma buffer_inv_step:
  "buffer_inv sz st \<Longrightarrow> buffer_enabled ev st \<Longrightarrow> buffer_inv sz (buffer_step sz ev st)"
  by (cases ev) (auto simp: buffer_inv_def Let_def not_le split: option.splits)

lemma buffer_run_spec:
  "buffer_run sz evs st = Some st' \<Longrightarrow> buffer_inv sz st \<Longrightarrow>
    buffer_inv sz st' \<and>
    concat (bf_out st') @ bf_items st' = concat (bf_out st) @ bf_items st @ arrivals evs"
proof (induction evs arbitrary: st)
  case (Cons ev evs)
  then have en: "buffer_enabled ev st" and run: "buffer_run sz evs (buffer_step sz ev st) = Some st'"
    by (auto split: if_splits)
  have "buffer_inv sz (buffer_step sz ev st)" using Cons.prems(2) en by (rule buffer_inv_step)
  note IH = Cons.IH [OF run this]
  moreover have "arrivals (ev # evs) = (case ev of Arrive x \<Rightarrow> [x] | _ \<Rightarrow> []) @ arrivals evs"
    by (cases ev) (simp_all add: arrivals_def map_filter_simps)
  ultimately show ?case by (cases ev) (auto simp: Let_def split: if_splits)
qed (simp add: arrivals_def map_filter_simps)

text \<open>
  Buffering loses nothing. Under every interleaving of arrivals, timeouts and slice ends, the
  batches handed out followed by the buffer are exactly the items that arrived, in order; no
  batch is empty or longer than the buffer size, and the generator ends with an empty buffer.
\<close>

theorem buffered_no_loss:
  assumes "buffer_run sz evs buffer_start = Some st"
  shows "concat (bf_out st) @ bf_items st = arrivals evs \<and>
    (\<forall>b \<in> set (bf_out st). b \<noteq> [] \<and> (\<forall>n. sz = Some n \<longrightarrow> length b \<le> max n 1)) \<and>
    (bf_ended st \<longrightarrow> concat (bf_out st) = arrivals evs)"
proof -
  have "buffer_inv sz (buffer_start :: 'a buffered)"
    by (auto simp: buffer_inv_def buffer_start_def)
  from buffer_run_spec [OF assms this] show ?thesis
    by (auto simp: buffer_inv_def buffer_start_def)
qed

lemma buffered_no_loss_witness:
  "\<exists>st. buffer_run (Some 2) [Arrive ''a'', Arrive ''b'', Wake, Arrive ''c'', Exhausted, Wake, Exhausted, Wake]
      buffer_start = Some st \<and> concat (bf_out st) = [''a'', ''b'', ''c'']"
proof -
  let ?evs = "[Arrive ''a'', Arrive ''b'', Wake, Arrive ''c'', Exhausted, Wake, Exhausted, Wake]"
  have "\<exists>st. buffer_run (Some 2) ?evs buffer_start = Some st \<and> bf_ended st"
    by (simp add: buffer_start_def Let_def)
  then obtain st where r: "buffer_run (Some 2) ?evs buffer_start = Some st" and e: "bf_ended st" by blast
  from buffered_no_loss [OF r] e show ?thesis using r
    by (auto simp: arrivals_def map_filter_simps)
qed

text \<open>
  The task's exception is never read: a source that raises ends the generator like one that is
  exhausted.
\<close>

lemma buffered_swallows_error:
  "buffer_run sz (evs @ [SourceFailed e, Wake, Exhausted, Wake]) st =
   buffer_run sz (evs @ [Exhausted, Wake, Exhausted, Wake]) st"
  by (induction evs arbitrary: st) auto

text \<open>\<open>async_flatten\<close> and \<open>async_enter\<close> (with the outcome of each \<open>__aenter__\<close>).\<close>

definition async_flatten :: "'a list list \<Rightarrow> 'a list" where
  "async_flatten = concat"

fun async_enter :: "bool \<Rightarrow> ('c \<times> 'a result) list \<Rightarrow> ('c \<times> 'a) list \<times> exn list \<times> exn option" where
  "async_enter handler [] = ([], [], None)"
| "async_enter handler ((ctx, Inr item) # rest) =
     (let (out, errs, raised) = async_enter handler rest in ((ctx, item) # out, errs, raised))"
| "async_enter handler ((ctx, Inl e) # rest) =
     (if handler then (let (out, errs, raised) = async_enter handler rest in (out, e # errs, raised))
      else ([], [], Some e))"

text \<open>With a handler every context that can be entered is, the others are all reported.\<close>

lemma async_enter_handled:
  "async_enter True cs =
     ([(c, x). (c, Inr x) \<leftarrow> cs], [e. (c, Inl e) \<leftarrow> cs], None)"
  by (induction "True" cs rule: async_enter.induct) simp_all

end
