(* ===== verification/Hooks_Lib.thy ===== *)
theory Hooks_Lib
  imports Core_Types
begin

text \<open>
  \<open>utils/hooks.py\<close> (event hooks and context hooks) and the composition of them in
  \<open>worker/services/hooks.py\<close>.

  A handler is its observable behaviour: a plain callable that returns or raises, a generator
  (what \<open>next\<close>, \<open>send\<close>, \<open>throw\<close> and \<open>close\<close> do), or \<open>HGroup\<close>, the generator methods
  \<open>Hooks.on_message_executed\<close> and its siblings, which emit the hooks that a queue or a message
  configures around the same scope. Every function returns the trace of what is called, sent,
  thrown and reported, so that order and multiplicity can be stated.
\<close>

section \<open>Handlers\<close>

datatype first_step = FirstYields | FirstStops | FirstRaises exn

datatype reply = RStop | RYield | RRaise exn

text \<open>\<open>gb_throw e = None\<close>: the generator lets the exception thrown into it propagate.\<close>

record 'r gen_body =
  gb_first :: first_step
  gb_send :: "'r \<Rightarrow> reply"
  gb_throw :: "exn \<Rightarrow> reply option"
  gb_close :: "exn option"

datatype 'r handler =
    HPlain nat "exn option"
  | HGen nat "'r gen_body"
  | HGroup "'r handler list"

datatype 'r live =
    Live nat "'r gen_body"
  | LiveGroup "'r live list"

datatype 'r hook_event =
    Called nat
  | Sent nat 'r
  | Thrown nat exn
  | Reported exn

type_synonym error_handler_fn = "(exn \<Rightarrow> exn option) option"

text \<open>\<open>handle_error\<close>: the error handler, when there is one, returns or raises.\<close>

definition handle_error :: "error_handler_fn \<Rightarrow> exn \<Rightarrow> 'r hook_event list \<times> exn option" where
  "handle_error eh e = (case eh of None \<Rightarrow> ([], None) | Some h \<Rightarrow> ([Reported e], h e))"

text \<open>\<open>p ;; q\<close>: go on with \<open>q\<close> unless \<open>p\<close> raised.\<close>

definition andthen :: "'e list \<times> exn option \<Rightarrow> 'e list \<times> exn option \<Rightarrow> 'e list \<times> exn option" where
  "andthen p q = (case snd p of Some e \<Rightarrow> p | None \<Rightarrow> (fst p @ fst q, snd q))"

section \<open>Event hooks\<close>

fun call_handlers :: "error_handler_fn \<Rightarrow> (nat \<times> exn option) list \<Rightarrow> 'r hook_event list \<times> exn option" where
  "call_handlers eh [] = ([], None)"
| "call_handlers eh ((i, raises) # hs) =
     andthen
       (case raises of
          None \<Rightarrow> ([Called i], None)
        | Some e \<Rightarrow> (let (t, x) = handle_error eh e in (Called i # t, x)))
       (call_handlers eh hs)"

section \<open>Context hooks: on_call\<close>

fun call_one :: "error_handler_fn \<Rightarrow> 'r handler \<Rightarrow> 'r hook_event list \<times> (exn + 'r live list)"
  and on_call :: "error_handler_fn \<Rightarrow> 'r handler list \<Rightarrow> 'r hook_event list \<times> (exn + 'r live list)" where
  "call_one eh (HPlain i raises) =
     (case raises of
        None \<Rightarrow> ([Called i], Inr [])
      | Some e \<Rightarrow>
          (let (t, x) = handle_error eh e
           in (Called i # t, case x of None \<Rightarrow> Inr [] | Some e' \<Rightarrow> Inl e')))"
| "call_one eh (HGen i b) =
     (case gb_first b of
        FirstYields \<Rightarrow> ([Called i], Inr [Live i b])
      | FirstStops \<Rightarrow> ([Called i], Inr [])
      | FirstRaises e \<Rightarrow>
          (let (t, x) = handle_error eh e
           in (Called i # t, case x of None \<Rightarrow> Inr [] | Some e' \<Rightarrow> Inl e')))"
| "call_one eh (HGroup hs) =
     (if hs = [] then ([], Inr [])
      else case on_call eh hs of
        (t, Inr ls) \<Rightarrow> (t, Inr [LiveGroup ls])
      | (t, Inl e) \<Rightarrow>
          (let (t', x) = handle_error eh e
           in (t @ t', case x of None \<Rightarrow> Inr [] | Some e' \<Rightarrow> Inl e')))"
| "on_call eh [] = ([], Inr [])"
| "on_call eh (h # hs) =
     (case call_one eh h of
        (t, Inl e) \<Rightarrow> (t, Inl e)
      | (t, Inr ls) \<Rightarrow>
          (case on_call eh hs of
             (t', Inl e) \<Rightarrow> (t @ t', Inl e)
           | (t', Inr ls') \<Rightarrow> (t @ t', Inr (ls @ ls'))))"

section \<open>Context hooks: on_error and on_result\<close>

text \<open>The error of a handler that yields again, reported from inside the outer \<open>try\<close>.\<close>

definition must_yield_once :: exn where
  "must_yield_once = ValueError ''Handler must yield once''"

definition yielded_again :: "error_handler_fn \<Rightarrow> 'r gen_body \<Rightarrow> 'r hook_event list \<times> exn option" where
  "yielded_again eh b =
     (case gb_close b of
        Some e \<Rightarrow> handle_error eh e
      | None \<Rightarrow>
          (case handle_error eh must_yield_once of
             (t, None) \<Rightarrow> (t, None)
           | (t, Some e) \<Rightarrow> (let (t', x) = handle_error eh e in (t @ t', x))))"

definition handle_reply :: "error_handler_fn \<Rightarrow> 'r gen_body \<Rightarrow> reply \<Rightarrow> 'r hook_event list \<times> exn option" where
  "handle_reply eh b r =
     (case r of
        RStop \<Rightarrow> ([], None)
      | RYield \<Rightarrow> yielded_again eh b
      | RRaise e \<Rightarrow> handle_error eh e)"

text \<open>Generators are resumed in reverse: the rest of the list before its head.\<close>

fun error_one :: "error_handler_fn \<Rightarrow> exn \<Rightarrow> 'r live \<Rightarrow> 'r hook_event list \<times> exn option"
  and on_error :: "error_handler_fn \<Rightarrow> exn \<Rightarrow> 'r live list \<Rightarrow> 'r hook_event list \<times> exn option" where
  "error_one eh e (Live i b) =
     (let (t, x) = (case gb_throw b e of None \<Rightarrow> ([], None) | Some r \<Rightarrow> handle_reply eh b r)
      in (Thrown i e # t, x))"
| "error_one eh e (LiveGroup ls) =
     (case on_error eh e ls of
        (t, None) \<Rightarrow> (t, None)
      | (t, Some e') \<Rightarrow> (let (t', x) = handle_error eh e' in (t @ t', x)))"
| "on_error eh e [] = ([], None)"
| "on_error eh e (l # ls) = andthen (on_error eh e ls) (error_one eh e l)"

fun result_one :: "error_handler_fn \<Rightarrow> 'r \<Rightarrow> 'r live \<Rightarrow> 'r hook_event list \<times> exn option"
  and on_result :: "error_handler_fn \<Rightarrow> 'r \<Rightarrow> 'r live list \<Rightarrow> 'r hook_event list \<times> exn option" where
  "result_one eh r (Live i b) =
     (let (t, x) = handle_reply eh b (gb_send b r) in (Sent i r # t, x))"
| "result_one eh r (LiveGroup ls) =
     (case on_result eh r ls of
        (t, None) \<Rightarrow> (t, None)
      | (t, Some e) \<Rightarrow>
          (case on_error eh e ls of
             (t', None) \<Rightarrow> (t @ t', None)
           | (t', Some e') \<Rightarrow> (let (t'', x) = handle_error eh e' in (t @ t' @ t'', x))))"
| "on_result eh r [] = ([], None)"
| "on_result eh r (l # ls) = andthen (on_result eh r ls) (result_one eh r l)"

text \<open>\<open>ContextHookEmiter.__call__\<close> around a scope that returns or raises.\<close>

definition emit_context ::
  "error_handler_fn \<Rightarrow> 'r handler list \<Rightarrow> 'r result \<Rightarrow> 'r hook_event list \<times> 'r result" where
  "emit_context eh handlers scope =
     (case on_call eh handlers of
        (t, Inl e) \<Rightarrow> (t, Inl e)
      | (t, Inr gens) \<Rightarrow>
          (let (t1, raised) =
             (case scope of Inr r \<Rightarrow> on_result eh r gens | Inl e \<Rightarrow> ([], Some e))
           in case raised of
                None \<Rightarrow> (t @ t1, scope)
              | Some e \<Rightarrow>
                  (case on_error eh e gens of
                     (t2, None) \<Rightarrow> (t @ t1 @ t2, Inl e)
                   | (t2, Some e') \<Rightarrow> (t @ t1 @ t2, Inl e'))))"

section \<open>Correctness of context hooks\<close>

definition quiet :: "error_handler_fn \<Rightarrow> bool" where
  "quiet eh \<longleftrightarrow> (\<forall>h e. eh = Some h \<longrightarrow> h e = None)"

text \<open>The handlers called, and the generators left suspended, in registration order.\<close>

fun called_ids :: "'r handler \<Rightarrow> nat list" where
  "called_ids (HPlain i raises) = [i]"
| "called_ids (HGen i b) = [i]"
| "called_ids (HGroup hs) = concat (map called_ids hs)"

fun suspended_ids :: "'r handler \<Rightarrow> nat list" where
  "suspended_ids (HPlain i raises) = []"
| "suspended_ids (HGen i b) = (if gb_first b = FirstYields then [i] else [])"
| "suspended_ids (HGroup hs) = concat (map suspended_ids hs)"

fun live_ids :: "'r live \<Rightarrow> nat list" where
  "live_ids (Live i b) = [i]"
| "live_ids (LiveGroup ls) = concat (map live_ids ls)"

definition calls :: "'r hook_event list \<Rightarrow> nat list" where
  "calls t = List.map_filter (\<lambda>ev. case ev of Called i \<Rightarrow> Some i | _ \<Rightarrow> None) t"

definition resumes :: "'r hook_event list \<Rightarrow> 'r hook_event list" where
  "resumes t = filter (\<lambda>ev. case ev of Sent _ _ \<Rightarrow> True | Thrown _ _ \<Rightarrow> True | _ \<Rightarrow> False) t"

lemma trace_simps [simp]:
  "calls [] = []" "calls (a @ b) = calls a @ calls b" "calls (Called i # t) = i # calls t"
  "calls (Sent i r # t) = calls t" "calls (Thrown i e # t) = calls t" "calls (Reported e # t) = calls t"
  "resumes [] = []" "resumes (a @ b) = resumes a @ resumes b" "resumes (Called i # t) = resumes t"
  "resumes (Sent i r # t) = Sent i r # resumes t" "resumes (Thrown i e # t) = Thrown i e # resumes t"
  "resumes (Reported e # t) = resumes t"
  by (simp_all add: calls_def resumes_def map_filter_simps map_filter_def)

lemma quiet_handle_error:
  assumes "quiet eh"
  obtains t :: "'r hook_event list"
    where "handle_error eh e = (t, None)" "calls t = []" "resumes t = []"
  using assms by (cases eh) (auto simp: handle_error_def quiet_def)

lemma quiet_handle_reply:
  assumes "quiet eh"
  obtains t :: "'r hook_event list"
    where "handle_reply eh b r = (t, None)" "calls t = []" "resumes t = []"
proof -
  note he = quiet_handle_error [OF assms, where 'r = 'r]
  have "\<exists>t :: 'r hook_event list. yielded_again eh b = (t, None) \<and> calls t = [] \<and> resumes t = []"
  proof (cases "gb_close b")
    case None
    then show ?thesis by (rule_tac he [of must_yield_once]) (simp add: yielded_again_def)
  next
    case (Some e)
    then show ?thesis by (rule_tac he [of e]) (simp add: yielded_again_def)
  qed
  then have "\<exists>t :: 'r hook_event list. handle_reply eh b r = (t, None) \<and> calls t = [] \<and> resumes t = []"
  proof (cases r)
    case (RRaise e)
    then show ?thesis by (rule_tac he [of e]) (simp add: handle_reply_def)
  qed (simp_all add: handle_reply_def)
  then show thesis using that by blast
qed

lemma quiet_on_error:
  fixes l :: "'r live" and ls :: "'r live list"
  shows "quiet eh \<Longrightarrow> snd (error_one eh e l) = None \<and> calls (fst (error_one eh e l)) = [] \<and>
      resumes (fst (error_one eh e l)) = map (\<lambda>i. Thrown i e) (rev (live_ids l))"
    and "quiet eh \<Longrightarrow> snd (on_error eh e ls) = None \<and> calls (fst (on_error eh e ls)) = [] \<and>
      resumes (fst (on_error eh e ls)) = map (\<lambda>i. Thrown i e) (rev (concat (map live_ids ls)))"
proof (induction eh e l and eh e ls rule: error_one_on_error.induct)
  case (1 eh e i b)
  show ?case
  proof (cases "gb_throw b e")
    case (Some r)
    then show ?thesis by (rule_tac quiet_handle_reply [OF 1, of b r]) simp
  qed simp
qed (auto simp: andthen_def split_def split: option.splits prod.splits)

lemma quiet_on_result:
  fixes l :: "'r live" and ls :: "'r live list"
  shows "quiet eh \<Longrightarrow> snd (result_one eh r l) = None \<and> calls (fst (result_one eh r l)) = [] \<and>
      resumes (fst (result_one eh r l)) = map (\<lambda>i. Sent i r) (rev (live_ids l))"
    and "quiet eh \<Longrightarrow> snd (on_result eh r ls) = None \<and> calls (fst (on_result eh r ls)) = [] \<and>
      resumes (fst (on_result eh r ls)) = map (\<lambda>i. Sent i r) (rev (concat (map live_ids ls)))"
proof (induction eh r l and eh r ls rule: result_one_on_result.induct)
  case (1 eh r i b)
  show ?case by (rule quiet_handle_reply [OF 1, of b "gb_send b r"]) simp
qed (auto simp: andthen_def split_def split: option.splits prod.splits)

lemma quiet_on_call:
  fixes h :: "'r handler" and hs :: "'r handler list"
  shows "quiet eh \<Longrightarrow> \<exists>t ls. call_one eh h = (t, Inr ls) \<and> calls t = called_ids h \<and> resumes t = [] \<and>
      concat (map live_ids ls) = suspended_ids h"
    and "quiet eh \<Longrightarrow> \<exists>t ls. on_call eh hs = (t, Inr ls) \<and> calls t = concat (map called_ids hs) \<and>
      resumes t = [] \<and> concat (map live_ids ls) = concat (map suspended_ids hs)"
proof (induction eh h and eh hs rule: call_one_on_call.induct)
  case (1 eh i raises)
  show ?case
  proof (cases raises)
    case (Some e)
    then show ?thesis by (rule_tac quiet_handle_error [OF 1, of e, where 'r = 'r]) simp
  qed simp
next
  case (2 eh i b)
  show ?case
  proof (cases "gb_first b")
    case (FirstRaises e)
    then show ?thesis by (rule_tac quiet_handle_error [OF 2, of e, where 'r = 'r]) simp
  qed simp_all
next
  case (3 eh hs)
  then show ?case by (cases "hs = []") force+
next
  case (5 eh h hs)
  then obtain t1 ls1 where 1: "call_one eh h = (t1, Inr ls1)" "calls t1 = called_ids h" "resumes t1 = []"
    "concat (map live_ids ls1) = suspended_ids h" by blast
  then obtain t2 ls2 where "on_call eh hs = (t2, Inr ls2)" "calls t2 = concat (map called_ids hs)"
    "resumes t2 = []" "concat (map live_ids ls2) = concat (map suspended_ids hs)"
    using "5.IH"(2) [OF 1(1) [symmetric] refl "5.prems"] by blast
  with 1 show ?case by simp
qed simp

lemma context_hook_transparent_aux:
  assumes "quiet eh" and "emit_context eh handlers scope = (t, out)"
  shows "out = scope \<and> calls t = concat (map called_ids handlers) \<and>
    resumes t = (case scope of
        Inr r \<Rightarrow> map (\<lambda>i. Sent i r) (rev (concat (map suspended_ids handlers)))
      | Inl e \<Rightarrow> map (\<lambda>i. Thrown i e) (rev (concat (map suspended_ids handlers))))"
proof -
  obtain t0 ls where c: "on_call eh handlers = (t0, Inr ls)" "calls t0 = concat (map called_ids handlers)"
    "resumes t0 = []" "concat (map live_ids ls) = concat (map suspended_ids handlers)"
    using quiet_on_call(2) [OF assms(1)] by blast
  show ?thesis
    using assms(2) c quiet_on_result(2) [OF assms(1), of _ ls] quiet_on_error(2) [OF assms(1), of _ ls]
    by (cases scope) (auto simp: emit_context_def split_def split: option.splits prod.splits)
qed

text \<open>
  Hooks observe and never interfere. With an error handler that does not raise, emitting a
  context hook returns exactly what the wrapped scope returns or raises; every handler is called
  once, in registration order, even when others fail; and every suspended generator is resumed
  exactly once, with the result or with the error, in the reverse of that order.
\<close>

theorem context_hook_transparent:
  assumes "quiet eh" and "emit_context eh handlers scope = (t, out)"
  shows "out = scope \<and> calls t = concat (map called_ids handlers) \<and>
    resumes t = (case scope of
        Inr r \<Rightarrow> map (\<lambda>i. Sent i r) (rev (concat (map suspended_ids handlers)))
      | Inl e \<Rightarrow> map (\<lambda>i. Thrown i e) (rev (concat (map suspended_ids handlers))))"
  by (rule context_hook_transparent_aux [OF assms])

definition demo_gen :: "nat \<Rightarrow> string handler" where
  "demo_gen i = HGen i \<lparr>gb_first = FirstYields, gb_send = \<lambda>_. RStop, gb_throw = \<lambda>_. None, gb_close = None\<rparr>"

definition demo_handlers :: "string handler list" where
  "demo_handlers = [demo_gen 0, HPlain 1 (Some (ValueError ''x'')), HGroup [demo_gen 2, demo_gen 3]]"

lemma context_hook_transparent_witness:
  "\<exists>t. emit_context (Some (\<lambda>_. None)) demo_handlers (Inr ''ok'') = (t, Inr ''ok'') \<and>
    calls t = [0, 1, 2, 3] \<and> resumes t = [Sent 3 ''ok'', Sent 2 ''ok'', Sent 0 ''ok'']"
proof -
  have "quiet (Some (\<lambda>_. None))" by (simp add: quiet_def)
  moreover obtain t out where
    "emit_context (Some (\<lambda>_. None)) demo_handlers (Inr ''ok'') = (t, out)" by fastforce
  ultimately show ?thesis
    using context_hook_transparent [of "Some (\<lambda>_. None)" demo_handlers "Inr ''ok''" t out]
    by (auto simp: demo_handlers_def demo_gen_def)
qed

text \<open>
  An error handler that raises breaks this: the generators already resumed with the result are
  resumed again with that error, and the emitter raises although the scope succeeded.
\<close>

lemma raising_error_handler_resumes_twice:
  "emit_context (Some (\<lambda>e. Some e))
     [HGen 0 \<lparr>gb_first = FirstYields, gb_send = \<lambda>_. RRaise ResourceUnavailable, gb_throw = \<lambda>_. None, gb_close = None\<rparr>,
      demo_gen 1] (Inr ''ok'')
   = ([Called 0, Called 1, Sent 1 ''ok'', Sent 0 ''ok'', Reported ResourceUnavailable,
       Thrown 1 ResourceUnavailable, Thrown 0 ResourceUnavailable], Inl ResourceUnavailable)"
  by (simp add: emit_context_def demo_gen_def handle_reply_def handle_error_def andthen_def)

text \<open>Event hooks: with a handler that does not raise, every handler is called once, in order.\<close>

lemma call_handlers_all:
  "quiet eh \<Longrightarrow> snd (call_handlers eh hs :: 'r hook_event list \<times> exn option) = None \<and>
    calls (fst (call_handlers eh hs :: 'r hook_event list \<times> exn option)) = map fst hs"
proof (induction eh hs rule: call_handlers.induct)
  case (2 eh i raises hs)
  show ?case
  proof (cases raises)
    case (Some e)
    with 2 show ?thesis
      by (rule_tac quiet_handle_error [OF 2(2), of e, where 'r = 'r]) (simp add: andthen_def)
  qed (use 2 in \<open>simp add: andthen_def\<close>)
qed simp

section \<open>The hooks service\<close>

text \<open>
  \<open>loads\<close> stands for \<open>_load_handler\<close>'s import of a name: \<open>None\<close> when it fails or is not callable
  (the failure is logged and the handler skipped).
\<close>

definition loads_handlers :: "(string \<Rightarrow> 'h option) \<Rightarrow> string list \<Rightarrow> 'h list" where
  "loads_handlers ld names = List.map_filter ld names"

definition config_names :: "(string, pyval) pydict \<Rightarrow> string \<Rightarrow> string list" where
  "config_names config name =
     (case dget config ''hooks'' of
        Some (PDict hooks) \<Rightarrow>
          (case dget hooks name of
             Some (PList vs) \<Rightarrow> List.map_filter (\<lambda>v. case v of PStr s \<Rightarrow> Some s | _ \<Rightarrow> None) vs
           | _ \<Rightarrow> [])
      | _ \<Rightarrow> [])"

definition config_handlers ::
  "(string \<Rightarrow> 'h option) \<Rightarrow> (string, pyval) pydict \<Rightarrow> string \<Rightarrow> 'h list option" where
  "config_handlers ld config name =
     (let names = config_names config name in if names = [] then None else Some (loads_handlers ld names))"

text \<open>\<open>_msg_handlers\<close>: the queue's handlers, then the message's.\<close>

definition msg_handlers ::
  "(string \<Rightarrow> 'h option) \<Rightarrow> (string, pyval) pydict \<Rightarrow> (string, pyval) pydict \<Rightarrow> string \<Rightarrow> 'h list option" where
  "msg_handlers ld queue_config msg_config name =
     (let q = config_handlers ld queue_config name; m = config_handlers ld msg_config name
      in if m = None \<and> q = None then None
         else Some ((case q of None \<Rightarrow> [] | Some hs \<Rightarrow> hs) @ (case m of None \<Rightarrow> [] | Some hs \<Rightarrow> hs)))"

text \<open>
  The hook a \<open>Hooks\<close> service emits for a message: the handlers of its options and, last, the
  generator method that wraps the configured ones. Its \<open>hook_failed\<close> hook has no error handler,
  so reporting an error never raises.
\<close>

definition hook_failed_emit :: "(nat \<times> exn option) list \<Rightarrow> exn \<Rightarrow> exn option" where
  "hook_failed_emit failed_handlers e =
     snd (call_handlers None failed_handlers :: unit hook_event list \<times> exn option)"

definition service_hook ::
  "(nat \<times> exn option) list \<Rightarrow> 'r handler list \<Rightarrow> (string \<Rightarrow> 'r handler option) \<Rightarrow>
   (string, pyval) pydict \<Rightarrow> (string, pyval) pydict \<Rightarrow> string \<Rightarrow> 'r result \<Rightarrow>
     'r hook_event list \<times> 'r result" where
  "service_hook failed_handlers options ld queue_config msg_config name scope =
     emit_context (Some (hook_failed_emit failed_handlers))
       (options @ [HGroup (case msg_handlers ld queue_config msg_config name of None \<Rightarrow> [] | Some hs \<Rightarrow> hs)])
       scope"

text \<open>
  A message's hooks run in the order options, queue, message and are resumed in the
  reverse order, and no failing hook, nor a failing \<open>hook_failed\<close> handler, changes the outcome.
\<close>

theorem service_hook_order:
  assumes "service_hook failed_handlers options ld queue_config msg_config name scope = (t, out)"
  shows "out = scope \<and>
    calls t = concat (map called_ids (options @ loads_handlers ld (config_names queue_config name) @
       loads_handlers ld (config_names msg_config name))) \<and>
    resumes t = map (\<lambda>i. case scope of Inr r \<Rightarrow> Sent i r | Inl e \<Rightarrow> Thrown i e)
      (rev (concat (map suspended_ids (options @ loads_handlers ld (config_names queue_config name) @
       loads_handlers ld (config_names msg_config name)))))"
proof -
  have "snd (call_handlers None failed_handlers :: unit hook_event list \<times> exn option) = None"
    using call_handlers_all [of None failed_handlers, where 'r = unit] by (simp add: quiet_def)
  then have "quiet (Some (hook_failed_emit failed_handlers))" by (simp add: quiet_def hook_failed_emit_def)
  moreover have "(case msg_handlers ld queue_config msg_config name of None \<Rightarrow> [] | Some hs \<Rightarrow> hs)
      = loads_handlers ld (config_names queue_config name) @ loads_handlers ld (config_names msg_config name)"
    by (auto simp: msg_handlers_def config_handlers_def Let_def loads_handlers_def map_filter_simps)
  ultimately show ?thesis
    using context_hook_transparent_aux [of "Some (hook_failed_emit failed_handlers)"
        "options @ [HGroup (loads_handlers ld (config_names queue_config name) @
           loads_handlers ld (config_names msg_config name))]" scope t out] assms
    by (cases scope) (simp_all add: service_hook_def)
qed

lemma service_hook_order_witness:
  "\<exists>t. service_hook [(9, Some (ValueError ''y''))] [demo_gen 0]
      (\<lambda>n. if n = ''q'' then Some (demo_gen 1) else if n = ''m'' then Some (demo_gen 2) else None)
      [(''hooks'', PDict [(''message_executed'', PList [PStr ''q'', PStr ''bad''])])]
      [(''hooks'', PDict [(''message_executed'', PList [PStr ''m''])])]
      ''message_executed'' (Inl ResourceUnavailable) = (t, Inl ResourceUnavailable) \<and>
    calls t = [0, 1, 2]"
proof -
  let ?ld = "\<lambda>n. if n = ''q'' then Some (demo_gen 1) else if n = ''m'' then Some (demo_gen 2) else None"
    and ?qc = "[(''hooks'', PDict [(''message_executed'', PList [PStr ''q'', PStr ''bad''])])]"
    and ?mc = "[(''hooks'', PDict [(''message_executed'', PList [PStr ''m''])])]"
  obtain t out where r: "service_hook [(9, Some (ValueError ''y''))] [demo_gen 0] ?ld ?qc ?mc
      ''message_executed'' (Inl ResourceUnavailable) = (t, out)" by fastforce
  from service_hook_order [OF r] have "out = Inl ResourceUnavailable" "calls t = [0, 1, 2]"
    by (simp_all add: loads_handlers_def config_names_def map_filter_simps demo_gen_def)
  with r show ?thesis by blast
qed

section \<open>The context hooks of the service\<close>

text \<open>The hooks of a message, by their field.\<close>

definition message_published_hook ::
  "(nat \<times> exn option) list \<Rightarrow> unit handler list \<Rightarrow> (string \<Rightarrow> unit handler option) \<Rightarrow>
   (string, pyval) pydict \<Rightarrow> (string, pyval) pydict \<Rightarrow> unit result \<Rightarrow> unit hook_event list \<times> unit result" where
  "message_published_hook failed_handlers options ld queue_config msg_config scope =
     service_hook failed_handlers options ld queue_config msg_config ''message_published'' scope"

definition results_processed_hook ::
  "(nat \<times> exn option) list \<Rightarrow> unit handler list \<Rightarrow> (string \<Rightarrow> unit handler option) \<Rightarrow>
   (string, pyval) pydict \<Rightarrow> (string, pyval) pydict \<Rightarrow> unit result \<Rightarrow> unit hook_event list \<times> unit result" where
  "results_processed_hook failed_handlers options ld queue_config msg_config scope =
     service_hook failed_handlers options ld queue_config msg_config ''results_processed'' scope"

text \<open>The building of a queue has the queue's configuration only.\<close>

definition work_queue_built_hook ::
  "(nat \<times> exn option) list \<Rightarrow> 'q handler list \<Rightarrow> (string \<Rightarrow> 'q handler option) \<Rightarrow>
   (string, pyval) pydict \<Rightarrow> 'q result \<Rightarrow> 'q hook_event list \<times> 'q result" where
  "work_queue_built_hook failed_handlers options ld queue_config scope =
     emit_context (Some (hook_failed_emit failed_handlers))
       (options @ [HGroup (case config_handlers ld queue_config ''work_queue_built'' of None \<Rightarrow> [] | Some hs \<Rightarrow> hs)])
       scope"

text \<open>An executor's hook is the synchronous \<open>ContextHook\<close>, the same steps without awaiting.\<close>

definition sync_emit_context ::
  "error_handler_fn \<Rightarrow> 'r handler list \<Rightarrow> 'r result \<Rightarrow> 'r hook_event list \<times> 'r result" where
  "sync_emit_context eh handlers scope = emit_context eh handlers scope"

lemma work_queue_built_order:
  assumes "work_queue_built_hook failed_handlers options ld queue_config scope = (t, out)"
  shows "out = scope \<and>
    calls t = concat (map called_ids (options @ loads_handlers ld (config_names queue_config ''work_queue_built'')))"
proof -
  have "snd (call_handlers None failed_handlers :: unit hook_event list \<times> exn option) = None"
    using call_handlers_all [of None failed_handlers, where 'r = unit] by (simp add: quiet_def)
  then have "quiet (Some (hook_failed_emit failed_handlers))" by (simp add: quiet_def hook_failed_emit_def)
  moreover have "(case config_handlers ld queue_config ''work_queue_built'' of None \<Rightarrow> [] | Some hs \<Rightarrow> hs)
      = loads_handlers ld (config_names queue_config ''work_queue_built'')"
    by (auto simp: config_handlers_def Let_def loads_handlers_def map_filter_simps)
  ultimately show ?thesis
    using context_hook_transparent_aux [of "Some (hook_failed_emit failed_handlers)"
        "options @ [HGroup (loads_handlers ld (config_names queue_config ''work_queue_built''))]" scope t out] assms
    by (cases scope) (simp_all add: work_queue_built_hook_def)
qed

end
