(* ===== verification/Traceback.thy ===== *)
theory Traceback
  imports Core_Types
begin

text \<open>
  \<open>utils/traceback_data.py\<close>: \<open>TracebackData\<close>, its construction from an exception chain and its
  text form, and the text form of \<open>RemoteException\<close> (\<open>worker/executors/bootstrap.py\<close>).

  A live exception is a node of a graph (\<open>__cause__\<close> and \<open>__context__\<close> are edges, so sharing and
  cycles exist); fuel is the interpreter's recursion limit. The stack is printed with runs of
  equal frames compressed; the printed lines determine the frames printed.
\<close>

section \<open>Data\<close>

record frame_data =
  fr_filename :: string
  fr_lineno :: int
  fr_module :: string
  fr_name :: string
  fr_locals :: "(string, string) pydict"
  fr_lines_before :: "string list"
  fr_line :: string
  fr_lines_after :: "string list"

datatype traceback_data =
  Traceback (tb_exc_type: string) (tb_exc_module: string) (tb_exc_str: string)
    (tb_stack: "frame_data list") (tb_truncated: bool) (tb_cause: "traceback_data option")
    (tb_context: "traceback_data option") (tb_suppress_context: bool) (tb_notes: "string list option")

section \<open>Building from an exception\<close>

record exc_node =
  ex_type :: string
  ex_module :: string
  ex_str :: string
  ex_frames :: "frame_data list"
  ex_cause :: "nat option"
  ex_context :: "nat option"
  ex_suppress :: bool
  ex_notes :: "string list option"

type_synonym exc_graph = "nat \<Rightarrow> exc_node"

text \<open>
  \<open>from_exc_info\<close>; \<open>None\<close> is a \<open>RecursionError\<close> leaving the call. \<open>_seen\<close> holds the exception
  itself only: \<open>from_exception\<close> does not pass the set on.
\<close>

fun from_exc_info :: "nat \<Rightarrow> exc_graph \<Rightarrow> nat \<Rightarrow> traceback_data option" where
  "from_exc_info 0 g i = None"
| "from_exc_info (Suc depth) g i =
     (let seen = [i];
          sub = (\<lambda>link. case link of
                     None \<Rightarrow> Some None
                   | Some j \<Rightarrow> if j \<in> set seen then Some None
                              else map_option Some (from_exc_info depth g j));
          n = g i;
          (truncated, cause, context) =
            (case sub (ex_cause n) of
               None \<Rightarrow> (True, None, None)
             | Some c \<Rightarrow> (case sub (ex_context n) of None \<Rightarrow> (True, c, None) | Some x \<Rightarrow> (False, c, x)))
      in Some (Traceback (ex_type n) (ex_module n) (ex_str n) (ex_frames n) truncated cause context
           (ex_suppress n) (ex_notes n)))"

primrec tb_nodes :: "traceback_data \<Rightarrow> nat" where
  "tb_nodes (Traceback ty md st stack tr c x supp ns) =
     1 + (case map_option tb_nodes c of None \<Rightarrow> 0 | Some k \<Rightarrow> k)
       + (case map_option tb_nodes x of None \<Rightarrow> 0 | Some k \<Rightarrow> k)"

text \<open>A chain of \<open>n\<close> statements \<open>raise ... from e\<close>, each inside the handler of the one before.\<close>

definition raise_from_chain :: exc_graph where
  "raise_from_chain i =
     \<lparr>ex_type = ''E'', ex_module = ''m'', ex_str = [], ex_frames = [],
      ex_cause = (if i = 0 then None else Some (i - 1)),
      ex_context = (if i = 0 then None else Some (i - 1)), ex_suppress = True, ex_notes = None\<rparr>"

lemma raise_from_chain_links:
  "ex_cause (raise_from_chain 0) = None" "ex_context (raise_from_chain 0) = None"
  "ex_cause (raise_from_chain (Suc n)) = Some n" "ex_context (raise_from_chain (Suc n)) = Some n"
  by (simp_all add: raise_from_chain_def)

text \<open>
  The set \<open>_seen\<close> is there to visit each exception once. It is not shared between the calls, so a
  chain of \<open>n\<close> exceptions is copied \<open>2 ^ n\<close> times.
\<close>

lemma traceback_chain_blowup:
  "n < depth \<Longrightarrow> \<exists>tb. from_exc_info depth raise_from_chain n = Some tb \<and> tb_nodes tb = 2 ^ (n + 1) - 1"
proof (induction n arbitrary: depth)
  case 0
  then obtain d where "depth = Suc d" by (cases depth) auto
  then show ?case by (simp add: raise_from_chain_links Let_def)
next
  case (Suc n)
  then obtain d where d: "depth = Suc d" "n < d" by (cases depth) auto
  from Suc.IH [OF d(2)] obtain tb
    where tb: "from_exc_info d raise_from_chain n = Some tb" "tb_nodes tb = 2 ^ (n + 1) - 1" by blast
  have "(1 :: nat) \<le> 2 ^ (n + 1)" by simp
  then have "1 + (2 ^ (n + 1) - 1) + (2 ^ (n + 1) - 1) = (2 :: nat) ^ (Suc n + 1) - 1" by simp
  with tb d(1) show ?case by (simp add: raise_from_chain_links Let_def)
qed

section \<open>Printing the stack\<close>

type_synonym frame_key = "string \<times> int \<times> string"

definition frame_key :: "frame_data \<Rightarrow> frame_key" where
  "frame_key f = (fr_filename f, fr_lineno f, fr_name f)"

datatype stack_line = FrameLine frame_key | SourceLine string | Repeated nat

definition recursive_cutoff :: nat where
  "recursive_cutoff = 3"

definition repeat_line :: "nat \<Rightarrow> stack_line list" where
  "repeat_line count =
     (if count > recursive_cutoff then [Repeated (count - recursive_cutoff)] else [])"

fun stack_lines :: "frame_key option \<Rightarrow> nat \<Rightarrow> frame_data list \<Rightarrow> stack_line list" where
  "stack_lines prev count [] = repeat_line count"
| "stack_lines prev count (f # fs) =
     (let changed = (prev \<noteq> Some (frame_key f));
          pre = (if changed then repeat_line count else []);
          count' = (if changed then 0 else count) + 1
      in pre @
         (if count' > recursive_cutoff then []
          else FrameLine (frame_key f) # (if fr_line f = [] then [] else [SourceLine (fr_line f)])) @
         stack_lines (Some (frame_key f)) count' fs)"

definition format_stack :: "frame_data list \<Rightarrow> stack_line list" where
  "format_stack stack = stack_lines None 0 stack"

text \<open>What a reader of the printed lines understands.\<close>

fun expand_lines :: "frame_key option \<Rightarrow> stack_line list \<Rightarrow> frame_key list" where
  "expand_lines prev [] = []"
| "expand_lines prev (FrameLine k # ls) = k # expand_lines (Some k) ls"
| "expand_lines prev (SourceLine s # ls) = expand_lines prev ls"
| "expand_lines prev (Repeated n # ls) =
     (case prev of None \<Rightarrow> [] | Some k \<Rightarrow> replicate n k) @ expand_lines prev ls"

lemma expand_repeat:
  "prev = Some k \<Longrightarrow> expand_lines prev (repeat_line count @ ls) =
     replicate (count - recursive_cutoff) k @ expand_lines prev ls"
  by (simp add: repeat_line_def)

lemma expand_stack_lines:
  "prev = None \<longrightarrow> count = 0 \<Longrightarrow>
   expand_lines prev (stack_lines prev count fs) =
     (case prev of None \<Rightarrow> [] | Some k \<Rightarrow> replicate (count - recursive_cutoff) k) @ map frame_key fs"
proof (induction fs arbitrary: prev count)
  case Nil
  then show ?case by (auto simp: repeat_line_def recursive_cutoff_def split: option.splits)
next
  case (Cons f fs)
  show ?case
  proof (cases "prev = Some (frame_key f)")
    case True
    have "replicate (Suc count - recursive_cutoff) k @ xs = (if recursive_cutoff \<le> count
        then replicate (count - recursive_cutoff) k @ k # xs else xs)" for k :: frame_key and xs
      by (auto simp: Suc_diff_le replicate_append_same [symmetric])
    with Cons.IH [of "Some (frame_key f)" "Suc count"] True show ?thesis
      by (auto simp: Let_def)
  next
    case False
    with Cons.IH [of "Some (frame_key f)" 1] Cons.prems show ?thesis
      by (cases prev) (simp_all add: Let_def repeat_line_def recursive_cutoff_def)
  qed
qed

text \<open>
  The compressed stack is lossless. However long the runs of repeated frames, the lines
  printed determine the file, line and function of every frame, in order; no frame is dropped
  or invented by the compression.
\<close>

theorem format_stack_lossless: "expand_lines None (format_stack stack) = map frame_key stack"
  using expand_stack_lines [of None 0 stack] by (simp add: format_stack_def)

section \<open>Text\<close>

definition newline :: string where "newline = [CHR 0x0A]"

definition render_line :: "stack_line \<Rightarrow> string" where
  "render_line l =
     (case l of
        FrameLine (file, line, name) \<Rightarrow>
          ''  File '' @ [CHR 0x22] @ file @ [CHR 0x22] @ '', line '' @ int_str line @ '', in '' @ name @ newline
      | SourceLine s \<Rightarrow> ''    '' @ s @ newline
      | Repeated n \<Rightarrow>
          ''  [Previous line repeated '' @ nat_str n @ '' more time'' @ (if n > 1 then ''s'' else []) @ '']'' @ newline)"

definition final_exc_line :: "string \<Rightarrow> string \<Rightarrow> string" where
  "final_exc_line etype val = (if val = [] then etype @ newline else etype @ '': '' @ val @ newline)"

definition format_exception_only :: "traceback_data \<Rightarrow> string" where
  "format_exception_only tb =
     (let stype = (if tb_exc_module tb \<in> {''__main__'', ''builtins''} then tb_exc_type tb
                   else tb_exc_module tb @ ''.'' @ tb_exc_type tb)
      in join_with newline (final_exc_line stype (tb_exc_str tb) #
           (case tb_notes tb of None \<Rightarrow> [] | Some ns \<Rightarrow> ns)))"

definition cause_message :: string where
  "cause_message = newline @ ''The above exception was the direct cause of the following exception:'' @ newline @ newline"

definition context_message :: string where
  "context_message = newline @ ''During handling of the above exception, another exception occurred:'' @ newline @ newline"

definition truncated_message :: string where
  "truncated_message = ''Chained exceptions have been truncated to avoid stack overflow in traceback formatting:'' @ newline"

text \<open>\<open>format(chain=True)\<close>. Its parameters \<open>include_line\<close> and \<open>include_locals\<close> are not passed on.\<close>

fun format_tb :: "traceback_data \<Rightarrow> string list" where
  "format_tb (Traceback ty md st stack tr c x supp ns) =
     (case c of
        Some t \<Rightarrow> format_tb t @ [cause_message]
      | None \<Rightarrow> (case x of Some t \<Rightarrow> if supp then [] else format_tb t @ [context_message] | None \<Rightarrow> [])) @
     (if tr then [truncated_message] else []) @
     (if stack = [] then []
      else (''Traceback (most recent call last):'' @ newline) # map render_line (format_stack stack)) @
     [format_exception_only (Traceback ty md st stack tr c x supp ns)]"

text \<open>The line naming the exception is always the last one printed.\<close>

lemma format_tb_last: "last (format_tb tb) = format_exception_only tb \<and> format_tb tb \<noteq> []"
  by (cases tb) simp

definition remote_exception_str :: "traceback_data \<Rightarrow> string" where
  "remote_exception_str tb =
     format_exception_only tb @ newline @ ''RemoteException '' @ concat (format_tb tb)"

end
