(* ===== verification/Error_Handling.thy ===== *)
theory Error_Handling
  imports Traceback
begin

text \<open>
  \<open>worker/error_handling.py\<close>: what happens to the exception of a pipeline.

  Regular expressions (module \<open>re\<close>) are two arguments: \<open>compile\<close> (\<open>None\<close> for a pattern that does
  not compile) and \<open>matches\<close> (\<open>Pattern.match(...) is not None\<close>). Messages are embedded as values
  the way they are nested in the arguments of the error message.
\<close>

section \<open>Texts\<close>

text \<open>\<open>s.split(c)\<close>, \<open>s.strip()\<close> and \<open>s.rsplit(c, 1)[-1]\<close>.\<close>

fun split_on :: "char \<Rightarrow> string \<Rightarrow> string list" where
  "split_on c [] = [[]]"
| "split_on c (x # xs) =
     (if x = c then [] # split_on c xs
      else case split_on c xs of [] \<Rightarrow> [[x]] | p # ps \<Rightarrow> (x # p) # ps)"

definition is_space :: "char \<Rightarrow> bool" where
  "is_space c \<longleftrightarrow> c = CHR '' '' \<or> c = CHR 0x09 \<or> c = CHR 0x0A \<or> c = CHR 0x0B \<or> c = CHR 0x0C \<or> c = CHR 0x0D"

definition strip :: "string \<Rightarrow> string" where
  "strip s = rev (dropWhile is_space (rev (dropWhile is_space s)))"

definition after_last :: "char \<Rightarrow> string \<Rightarrow> string" where
  "after_last c s = rev (takeWhile (\<lambda>x. x \<noteq> c) (rev s))"

definition starts_with :: "string \<Rightarrow> string \<Rightarrow> bool" where
  "starts_with p s \<longleftrightarrow> take (length p) s = p"

lemma split_on_nonempty [simp]: "split_on c s \<noteq> []"
  by (induction s) (auto split: list.splits)

section \<open>Filters\<close>

record 're exception_filter =
  ef_message :: "'re option"
  ef_type :: "'re option"
  ef_module :: "'re option"
  ef_lineno :: int

record exception_details =
  ed_message :: string
  ed_type :: string
  ed_module :: string
  ed_lineno :: int
  ed_traceback :: traceback_data

definition pad_parts :: "string list \<Rightarrow> string list" where
  "pad_parts parts = parts @ replicate (5 - length parts) []"

text \<open>\<open>re.compile(p) if p else None\<close>\<close>

definition compile_opt :: "(string \<Rightarrow> 're option) \<Rightarrow> string \<Rightarrow> 're option result" where
  "compile_opt compile p =
     (if p = [] then Inr None
      else case compile p of None \<Rightarrow> Inl (PlainException ''re.error'') | Some r \<Rightarrow> Inr (Some r))"

definition parse_lineno :: "string \<Rightarrow> int result" where
  "parse_lineno s =
     (if s = [] then Inr 0
      else case parse_int s of
        None \<Rightarrow> Inl (PlainException ''invalid lineno'')
      | Some n \<Rightarrow> if n < 0 then Inl (PlainException ''invalid lineno'') else Inr n)"

definition parse_warning_filter ::
  "(string \<Rightarrow> 're option) \<Rightarrow> (string \<Rightarrow> string) \<Rightarrow> string \<Rightarrow> bool \<Rightarrow> 're exception_filter result" where
  "parse_warning_filter compile re_escape arg escape =
     (let parts = split_on (CHR '':'') arg
      in if length parts > 5 then Inl (PlainException ''Too many fields'')
         else
           (let fields = map strip (pad_parts parts);
                esc = (\<lambda>s suffix. if s \<noteq> [] \<and> escape then re_escape s @ suffix else s);
                message = esc (fields ! 1) [];
                category = esc (fields ! 2) (CHR 0x5C # ''Z'');
                module = esc (fields ! 3) (CHR 0x5C # ''Z'')
            in rbind (parse_lineno (fields ! 4)) (\<lambda>lineno.
               rbind (compile_opt compile message) (\<lambda>m.
               rbind (compile_opt compile category) (\<lambda>c.
               rbind (compile_opt compile module) (\<lambda>md.
               Inr \<lparr>ef_message = m, ef_type = c, ef_module = md, ef_lineno = lineno\<rparr>))))))"

definition match_exception_name :: "('re \<Rightarrow> string \<Rightarrow> bool) \<Rightarrow> 're \<Rightarrow> string \<Rightarrow> bool" where
  "match_exception_name matches pat name =
     (matches pat name \<or> (CHR ''.'' \<in> set name \<and> matches pat (after_last (CHR ''.'') name)))"

definition does_error_match ::
  "('re \<Rightarrow> string \<Rightarrow> bool) \<Rightarrow> exception_details \<Rightarrow> 're exception_filter \<Rightarrow> bool" where
  "does_error_match matches e f \<longleftrightarrow>
     (case ef_message f of None \<Rightarrow> True | Some p \<Rightarrow> matches p (ed_message e)) \<and>
     (case ef_type f of None \<Rightarrow> True | Some p \<Rightarrow> match_exception_name matches p (ed_type e)) \<and>
     (case ef_module f of None \<Rightarrow> True | Some p \<Rightarrow> matches p (ed_module e)) \<and>
     (ef_lineno f = 0 \<or> ed_lineno e = ef_lineno f)"

definition is_output_error_handler :: "string \<Rightarrow> bool" where
  "is_output_error_handler output = starts_with ''error:'' output"

section \<open>The exception\<close>

text \<open>
  A caught exception: its class, its text and the traceback extracted from it, or the remote
  traceback when it is a \<open>RemoteException\<close>.
\<close>

record caught =
  cx_class_module :: string
  cx_class_name :: string
  cx_str :: string
  cx_remote :: "traceback_data option"
  cx_traceback :: traceback_data

definition get_exception_details :: "caught \<Rightarrow> exception_details result" where
  "get_exception_details x =
     (let (ty, tb) =
        (case cx_remote x of
           Some tb \<Rightarrow> (tb_exc_module tb @ ''.'' @ tb_exc_type tb, tb)
         | None \<Rightarrow> (cx_class_module x @ ''.'' @ cx_class_name x, cx_traceback x))
      in if tb_stack tb = [] then Inl (PlainException ''IndexError'')
         else Inr \<lparr>ed_message = cx_str x, ed_type = ty, ed_module = fr_module (last (tb_stack tb)),
                   ed_lineno = fr_lineno (last (tb_stack tb)), ed_traceback = tb\<rparr>)"

section \<open>Republishing\<close>

definition republish_handlers :: "output_definition list \<Rightarrow> republish_options list" where
  "republish_handlers handlers =
     List.map_filter (\<lambda>h. case h of OutHandler eh \<Rightarrow> eh_republish eh | OutComponent _ \<Rightarrow> None) handlers"

definition is_handled :: "output_definition list \<Rightarrow> bool" where
  "is_handled handlers =
     list_all (\<lambda>h. case h of OutHandler eh \<Rightarrow> eh_set_handled eh | OutComponent _ \<Rightarrow> True) handlers"

text \<open>
  The \<open>error_handler\<close> entry of the metadata, set to \<open>{}\<close> and \<open>retried\<close> to 0 when missing.
  Other shapes than the ones this module writes are a \<open>TypeError\<close>.
\<close>

definition error_meta :: "topic_message \<Rightarrow> (string, pyval) pydict result" where
  "error_meta m =
     (case dget (tm_metadata m) ''error_handler'' of
        None \<Rightarrow> Inr []
      | Some (PDict d) \<Rightarrow> Inr d
      | Some _ \<Rightarrow> Inl (TypeError ''error_handler''))"

definition retried_of :: "(string, pyval) pydict \<Rightarrow> int result" where
  "retried_of meta =
     (case dget meta ''retried'' of
        None \<Rightarrow> Inr 0
      | Some (PInt n) \<Rightarrow> Inr n
      | Some _ \<Rightarrow> Inl (TypeError ''retried''))"

text \<open>\<open>republish\<close>: the outputs, and the message with its count incremented in place.\<close>

definition republish ::
  "topic_message \<Rightarrow> republish_options list \<Rightarrow> (pipeline_output list \<times> topic_message) result" where
  "republish m handlers =
     rbind (error_meta m) (\<lambda>meta.
     rbind (retried_of meta) (\<lambda>retried.
       let meta' = dset ''retried'' (PInt (retried + 1)) meta;
           m' = m\<lparr>tm_metadata := dset ''error_handler'' (PDict meta') (tm_metadata m)\<rparr>
       in Inr (map (\<lambda>h. \<lparr>po_channel = rp_channel h, po_message = m'\<rparr>)
                 (filter (\<lambda>h. \<not> retried \<ge> rp_max_retry h) handlers), m')))"

section \<open>Handling an exception\<close>

record handled_error =
  he_results :: pipeline_results
  he_handled :: bool
  he_cause :: caught

datatype reraised = ReraiseSelf handled_error | ReraiseCause caught

definition reraise :: "handled_error \<Rightarrow> reraised" where
  "reraise e = (if he_handled e then ReraiseSelf e else ReraiseCause (he_cause e))"

definition message_val :: "topic_message \<Rightarrow> pyval" where
  "message_val m = PDict [
     (''id'', PStr (tm_id m)), (''args'', PDict (tm_args m)),
     (''tags'', PDict (map (\<lambda>(k, v). (k, PStr v)) (tm_tags m))),
     (''config'', PDict (tm_config m)), (''metadata'', PDict (tm_metadata m))]"

definition error_val :: "exception_details \<Rightarrow> pyval" where
  "error_val e = PDict [
     (''type'', PStr (ed_type e)), (''module'', PStr (ed_module e)), (''message'', PStr (ed_message e)),
     (''traceback'', PStr (remote_exception_str (ed_traceback e)))]"

text \<open>
  The filter of an error channel, tried on the exception. The \<open>except Exception\<close> logs a filter
  that does not parse and falls through to the handling below it: such a channel matches.
\<close>

definition channel_matches ::
  "(string \<Rightarrow> 're option) \<Rightarrow> ('re \<Rightarrow> string \<Rightarrow> bool) \<Rightarrow> (string \<Rightarrow> string) \<Rightarrow> exception_details \<Rightarrow> string \<Rightarrow> bool" where
  "channel_matches compile matches re_escape details channel =
     (is_output_error_handler channel \<and>
      (case parse_warning_filter compile re_escape channel False of
         Inl _ \<Rightarrow> True
       | Inr f \<Rightarrow> does_error_match matches details f))"

text \<open>The error message and the republished ones; \<open>new_id\<close> is the fresh identifier.\<close>

definition handle_channel ::
  "string \<Rightarrow> caught \<Rightarrow> exception_details \<Rightarrow> topic_message \<Rightarrow> string \<Rightarrow> output_definition list \<Rightarrow>
     handled_error result" where
  "handle_channel new_id x details m channel handlers =
     (let rps = republish_handlers handlers;
          error_output = (\<lambda>cause. \<lparr>po_channel = channel, po_message = new_topic_message new_id
             [(''cause'', message_val cause), (''error'', error_val details)]\<rparr>);
          result = (\<lambda>outs handled. \<lparr>he_results = \<lparr>pr_outputs = outs, pr_resources = [], pr_events = []\<rparr>,
             he_handled = handled, he_cause = x\<rparr>)
      in if rps = [] then Inr (result [error_output m] (is_handled handlers))
         else rbind (republish m rps) (\<lambda>(outs, m').
           Inr (result (error_output m' # outs) (is_handled handlers \<and> outs \<noteq> []))))"

fun process_channels ::
  "(string \<Rightarrow> bool) \<Rightarrow> (string \<Rightarrow> output_definition list \<Rightarrow> handled_error result) \<Rightarrow>
   (string, output_definition list) pydict \<Rightarrow> handled_error option result" where
  "process_channels matching handle [] = Inr None"
| "process_channels matching handle ((channel, handlers) # rest) =
     (if matching channel then rbind (handle channel handlers) (\<lambda>e. Inr (Some e))
      else process_channels matching handle rest)"

text \<open>\<open>Inr None\<close>: it returns, and the caller re-raises; \<open>Inr (Some e)\<close>: it raises \<open>HandledError\<close>.\<close>

definition process_pipeline_exception ::
  "(string \<Rightarrow> 're option) \<Rightarrow> ('re \<Rightarrow> string \<Rightarrow> bool) \<Rightarrow> (string \<Rightarrow> string) \<Rightarrow> string \<Rightarrow>
   (string, output_definition list) pydict \<Rightarrow> topic_message \<Rightarrow> caught \<Rightarrow> handled_error option result" where
  "process_pipeline_exception compile matches re_escape new_id outputs m x =
     rbind (get_exception_details x) (\<lambda>details.
       process_channels (channel_matches compile matches re_escape details)
         (handle_channel new_id x details m) outputs)"

section \<open>Routing\<close>

lemma process_channels_spec:
  "process_channels matching handle outputs =
     (case filter (\<lambda>(c, hs). matching c) outputs of
        [] \<Rightarrow> Inr None
      | (c, hs) # _ \<Rightarrow> rbind (handle c hs) (\<lambda>e. Inr (Some e)))"
  by (induction matching handle outputs rule: process_channels.induct) auto

text \<open>
  An exception goes to the first error channel whose filter accepts it and to no other; it
  is left to the caller exactly when no channel accepts it.
\<close>

theorem error_routing:
  assumes "get_exception_details x = Inr details"
  shows "process_pipeline_exception compile matches re_escape new_id outputs m x =
    (case filter (\<lambda>(c, hs). channel_matches compile matches re_escape details c) outputs of
       [] \<Rightarrow> Inr None
     | (c, hs) # _ \<Rightarrow> rbind (handle_channel new_id x details m c hs) (\<lambda>e. Inr (Some e)))"
  using assms by (simp add: process_pipeline_exception_def process_channels_spec)

definition demo_frame :: frame_data where
  "demo_frame = \<lparr>fr_filename = ''a.py'', fr_lineno = 7, fr_module = ''a'', fr_name = ''f'', fr_locals = [],
     fr_lines_before = [], fr_line = [], fr_lines_after = []\<rparr>"

definition demo_caught :: caught where
  "demo_caught = \<lparr>cx_class_module = ''builtins'', cx_class_name = ''ValueError'', cx_str = ''bad'', cx_remote = None,
     cx_traceback = Traceback ''ValueError'' ''builtins'' ''bad'' [demo_frame] False None None False None\<rparr>"

definition demo_outputs :: "(string, output_definition list) pydict" where
  "demo_outputs = [(''default'', []), (''error::KeyError'', []),
     (''error::ValueError'', [OutHandler \<lparr>eh_set_handled = True, eh_republish = None\<rparr>])]"

lemma error_routing_witness:
  "\<exists>e. process_pipeline_exception Some (\<lambda>p s. starts_with p s) id ''n'' demo_outputs
      (new_topic_message ''1'' []) demo_caught = Inr (Some e) \<and> he_handled e \<and>
    map po_channel (pr_outputs (he_results e)) = [''error::ValueError'']"
proof -
  have "get_exception_details demo_caught = Inr \<lparr>ed_message = ''bad'', ed_type = ''builtins.ValueError'',
      ed_module = ''a'', ed_lineno = 7, ed_traceback = cx_traceback demo_caught\<rparr>"
    by (simp add: get_exception_details_def demo_caught_def demo_frame_def)
  from error_routing [OF this, of Some "\<lambda>p s. starts_with p s" id "''n''" demo_outputs "new_topic_message ''1'' []"]
  show ?thesis
    by (simp add: demo_outputs_def channel_matches_def is_output_error_handler_def starts_with_def
        parse_warning_filter_def pad_parts_def strip_def is_space_def parse_lineno_def compile_opt_def
        does_error_match_def match_exception_name_def after_last_def handle_channel_def Let_def
        republish_handlers_def is_handled_def map_filter_simps numeral_2_eq_2 numeral_3_eq_3 eval_nat_numeral)
qed

text \<open>
  A channel whose filter cannot be parsed, such as one with a misspelt line number, takes every
  exception: the failure to parse it is logged but the channel is not skipped.
\<close>

lemma malformed_channel_takes_all:
  "channel_matches compile matches re_escape details ''error::ZeroDivisionError::x''"
proof -
  have "parse_warning_filter compile re_escape ''error::ZeroDivisionError::x'' False
      = Inl (PlainException ''invalid lineno'')"
    by (simp add: parse_warning_filter_def pad_parts_def strip_def is_space_def parse_lineno_def
        Let_def is_digit_def)
  then show ?thesis
    by (simp add: channel_matches_def is_output_error_handler_def starts_with_def)
qed

section \<open>Bounded retries\<close>

text \<open>The message as it comes back after \<open>n\<close> failures.\<close>

fun fail_times :: "republish_options list \<Rightarrow> nat \<Rightarrow> topic_message \<Rightarrow> (pipeline_output list list \<times> topic_message) result" where
  "fail_times hs 0 m = Inr ([], m)"
| "fail_times hs (Suc n) m =
     rbind (republish m hs) (\<lambda>(outs, m').
     rbind (fail_times hs n m') (\<lambda>(rest, m''). Inr (outs # rest, m'')))"

definition retry_count :: "topic_message \<Rightarrow> int \<Rightarrow> bool" where
  "retry_count m k \<longleftrightarrow> (\<exists>meta. error_meta m = Inr meta \<and> retried_of meta = Inr k)"

lemma republish_count:
  assumes "retry_count m k"
  obtains outs m' where "republish m hs = Inr (outs, m')" "retry_count m' (k + 1)"
    "map po_channel outs = map rp_channel (filter (\<lambda>h. k < rp_max_retry h) hs)"
proof -
  obtain meta where "error_meta m = Inr meta" "retried_of meta = Inr k"
    using assms by (auto simp: retry_count_def)
  then have "\<exists>outs m'. republish m hs = Inr (outs, m') \<and> retry_count m' (k + 1) \<and>
      map po_channel outs = map rp_channel (filter (\<lambda>h. k < rp_max_retry h) hs)"
    by (simp add: republish_def Let_def retry_count_def error_meta_def retried_of_def comp_def not_le)
  then show thesis using that by blast
qed

lemma fail_times_count:
  "retry_count m k \<Longrightarrow> \<exists>outss m'. fail_times hs n m = Inr (outss, m') \<and> retry_count m' (k + int n) \<and>
    map (map po_channel) outss =
      map (\<lambda>i. map rp_channel (filter (\<lambda>h. k + int i < rp_max_retry h) hs)) [0..<n]"
proof (induction n arbitrary: m k)
  case (Suc n)
  obtain outs m1 where r: "republish m hs = Inr (outs, m1)" "retry_count m1 (k + 1)"
    "map po_channel outs = map rp_channel (filter (\<lambda>h. k < rp_max_retry h) hs)"
    using republish_count [OF Suc.prems] by metis
  obtain outss m2 where f: "fail_times hs n m1 = Inr (outss, m2)" "retry_count m2 (k + 1 + int n)"
    "map (map po_channel) outss = map (\<lambda>i. map rp_channel (filter (\<lambda>h. k + 1 + int i < rp_max_retry h) hs)) [0..<n]"
    using Suc.IH [OF r(2)] by blast
  have "[0..<Suc n] = 0 # map Suc [0..<n]" by (simp add: map_Suc_upt upt_conv_Cons)
  then show ?case using r f by (simp add: comp_def algebra_simps)
qed (simp add: retry_count_def)

text \<open>
  C20: retries are bounded. However often a fresh message fails, a republish handler sends it
  back on its channel exactly \<open>max_retry\<close> times, on the first \<open>max_retry\<close> failures; from then on
  nothing is republished.
\<close>

theorem republish_bounded:
  assumes "error_meta m = Inr []" and "0 \<le> rp_max_retry h"
  shows "\<exists>outss m'. fail_times [h] n m = Inr (outss, m') \<and>
    map (map po_channel) outss =
      map (\<lambda>i. if int i < rp_max_retry h then [rp_channel h] else []) [0..<n] \<and>
    length (concat outss) = min n (nat (rp_max_retry h))"
proof -
  have "retry_count m 0" using assms(1) by (simp add: retry_count_def retried_of_def)
  from fail_times_count [OF this, of "[h]" n] obtain outss m'
    where f: "fail_times [h] n m = Inr (outss, m')"
      and o: "map (map po_channel) outss = map (\<lambda>i. if int i < rp_max_retry h then [rp_channel h] else []) [0..<n]"
    by (auto cong: if_cong)
  have "length (concat outss) = length (concat (map (map po_channel) outss))"
    by (simp add: length_concat comp_def)
  also have "\<dots> = min n (nat (rp_max_retry h))"
    unfolding o using assms(2) by (induction n) (auto simp: min_def)
  finally show ?thesis using f o by blast
qed

lemma republish_bounded_witness:
  "\<exists>outss m'. fail_times [\<lparr>rp_channel = ''retry'', rp_max_retry = 2\<rparr>] 5 (new_topic_message ''1'' []) =
      Inr (outss, m') \<and> length (concat outss) = 2"
  using republish_bounded [of "new_topic_message ''1'' []" "\<lparr>rp_channel = ''retry'', rp_max_retry = 2\<rparr>" 5]
  by (auto simp: error_meta_def new_topic_message_def)

text \<open>When the retries are used up, the error is no longer handled and the original is re-raised.\<close>

lemma exhausted_reraises_cause:
  assumes "republish m (republish_handlers handlers) = Inr ([], m')" and "republish_handlers handlers \<noteq> []"
    and "handle_channel new_id x details m channel handlers = Inr e"
  shows "reraise e = ReraiseCause x"
  using assms by (auto simp: handle_channel_def reraise_def Let_def)

end
