(* ===== verification/Topics.thy ===== *)
theory Topics
  imports Lru Json Core_Types
begin

text \<open>
  \<open>worker/topics/\<close>: the topics messages are read from and published to.

  For RabbitMQ the broker is an argument: the outcomes of the successive attempts to publish,
  and whether another task of this topic holds the publish lock at that moment. Time is the
  list of delays slept. Memory and batching topics are step functions over the events of their
  queue; the locale \<open>lossless_queue\<close> is what both promise (what comes in comes out, once and in
  order), with the lemma their users rely on.
\<close>

section \<open>Lossless queues\<close>

locale lossless_queue =
  fixes step :: "'e \<Rightarrow> 's \<Rightarrow> 's"
    and delivered :: "'s \<Rightarrow> 'a list"
    and held :: "'s \<Rightarrow> 'a list"
    and accepted :: "'e \<Rightarrow> 's \<Rightarrow> 'a list"
  assumes step_conserves:
    "delivered (step e s) @ held (step e s) = delivered s @ held s @ accepted e s"
begin

primrec run :: "'e list \<Rightarrow> 's \<Rightarrow> 's" where
  "run [] s = s"
| "run (e # es) s = run es (step e s)"

primrec all_accepted :: "'e list \<Rightarrow> 's \<Rightarrow> 'a list" where
  "all_accepted [] s = []"
| "all_accepted (e # es) s = accepted e s @ all_accepted es (step e s)"

lemma run_conserves:
  "delivered (run es s) @ held (run es s) = delivered s @ held s @ all_accepted es s"
proof (induction es arbitrary: s)
  case (Cons e es)
  then show ?case using step_conserves [of e s] by (metis append.assoc run.simps(2) all_accepted.simps(2))
qed simp

lemma run_drained:
  "delivered s = [] \<Longrightarrow> held s = [] \<Longrightarrow> held (run es s) = [] \<Longrightarrow> delivered (run es s) = all_accepted es s"
  using run_conserves [of es s] by simp

end

section \<open>Memory topic\<close>

record memory_queue =
  mq_maxsize :: int
  mq_messages :: "topic_message list"
  mq_unfinished :: nat
  mq_received :: "topic_message list"

definition new_queue :: "int \<Rightarrow> memory_queue" where
  "new_queue n = \<lparr>mq_maxsize = n, mq_messages = [], mq_unfinished = 0, mq_received = []\<rparr>"

type_synonym memory_queues = "(string, memory_queue) pydict"

definition get_queue :: "string \<Rightarrow> int \<Rightarrow> memory_queues \<Rightarrow> memory_queue \<times> memory_queues" where
  "get_queue queue_id maxsize qs =
     (case dget qs queue_id of
        Some q \<Rightarrow> (q, qs)
      | None \<Rightarrow> (new_queue maxsize, dset queue_id (new_queue maxsize) qs))"

definition queue_full :: "memory_queue \<Rightarrow> bool" where
  "queue_full q \<longleftrightarrow> 0 < mq_maxsize q \<and> mq_maxsize q \<le> int (length (mq_messages q))"

text \<open>
  The events of one queue: a publish that does not wait, one that waits (enabled when there is
  room), the reader taking a message, and a message context being left (\<open>task_done\<close>).
\<close>

datatype memory_event = PublishNoWait topic_message | PublishWait topic_message | Take | TaskDone

definition memory_put :: "topic_message \<Rightarrow> memory_queue \<Rightarrow> memory_queue" where
  "memory_put m q = q\<lparr>mq_messages := mq_messages q @ [m], mq_unfinished := mq_unfinished q + 1\<rparr>"

definition memory_publish_nowait :: "topic_message \<Rightarrow> memory_queue \<Rightarrow> bool \<times> memory_queue" where
  "memory_publish_nowait m q = (if queue_full q then (False, q) else (True, memory_put m q))"

fun memory_step :: "memory_event \<Rightarrow> memory_queue \<Rightarrow> memory_queue" where
  "memory_step (PublishNoWait m) q = snd (memory_publish_nowait m q)"
| "memory_step (PublishWait m) q = (if queue_full q then q else memory_put m q)"
| "memory_step Take q =
     (case mq_messages q of
        [] \<Rightarrow> q
      | m # ms \<Rightarrow> q\<lparr>mq_messages := ms, mq_received := mq_received q @ [m]\<rparr>)"
| "memory_step TaskDone q = q\<lparr>mq_unfinished := mq_unfinished q - 1\<rparr>"

fun memory_accepted :: "memory_event \<Rightarrow> memory_queue \<Rightarrow> topic_message list" where
  "memory_accepted (PublishNoWait m) q = (if queue_full q then [] else [m])"
| "memory_accepted (PublishWait m) q = (if queue_full q then [] else [m])"
| "memory_accepted ev q = []"

interpretation memory: lossless_queue memory_step mq_received mq_messages memory_accepted
proof
  fix e q
  show "mq_received (memory_step e q) @ mq_messages (memory_step e q)
      = mq_received q @ mq_messages q @ memory_accepted e q"
    by (cases e) (auto simp: memory_publish_nowait_def memory_put_def split: list.splits)
qed

lemma memory_bound_step:
  "0 < mq_maxsize q \<Longrightarrow> int (length (mq_messages q)) \<le> mq_maxsize q \<Longrightarrow>
    mq_maxsize (memory_step e q) = mq_maxsize q \<and>
    int (length (mq_messages (memory_step e q))) \<le> mq_maxsize q"
  by (cases e) (auto simp: memory_publish_nowait_def memory_put_def queue_full_def split: list.splits)

lemma memory_bound_run:
  "0 < mq_maxsize q \<Longrightarrow> int (length (mq_messages q)) \<le> mq_maxsize q \<Longrightarrow>
    int (length (mq_messages (memory.run es q))) \<le> mq_maxsize q"
proof (induction es arbitrary: q)
  case (Cons e es)
  then show ?case using memory_bound_step [of q e] Cons.IH [of "memory_step e q"] by simp
qed simp

text \<open>
  A memory topic is a bounded FIFO: at every point, what has been received followed by what
  is queued is exactly what was accepted, in order, and the queue never exceeds its size.
\<close>

theorem memory_topic_fifo:
  assumes "0 < n"
  shows "mq_received (memory.run es (new_queue n)) @ mq_messages (memory.run es (new_queue n))
      = memory.all_accepted es (new_queue n) \<and>
    int (length (mq_messages (memory.run es (new_queue n)))) \<le> n"
  using memory.run_conserves [of es "new_queue n"] memory_bound_run [of "new_queue n" es] assms
  by (simp add: new_queue_def)

lemma memory_topic_fifo_witness:
  "let a = new_topic_message ''a'' []; b = new_topic_message ''b'' []; c = new_topic_message ''c'' [];
       es = [PublishNoWait a, PublishNoWait b, Take, PublishWait c]
   in mq_received (memory.run es (new_queue 1)) @ mq_messages (memory.run es (new_queue 1)) = [a, c]"
  using memory_topic_fifo [of 1 "[PublishNoWait (new_topic_message ''a'' []),
      PublishNoWait (new_topic_message ''b'' []), Take, PublishWait (new_topic_message ''c'' [])]"]
  by (simp add: Let_def new_queue_def memory_publish_nowait_def queue_full_def memory_put_def)

section \<open>Batching topic\<close>

text \<open>
  The reader task \<open>_run_topic_task\<close>: a message taken from the queue, a time-out of the wait,
  and the end (\<open>force_done\<close> and an empty queue). An output is a batch, or the messages one by one
  with \<open>flatten\<close>.
\<close>

record batching_topic =
  bt_size :: nat
  bt_flatten :: bool
  bt_batch :: "topic_message list"
  bt_out :: "topic_message list list"
  bt_finished :: bool

datatype batching_event = BtMessage topic_message | BtTimeout | BtDone

definition bt_flush :: "batching_topic \<Rightarrow> batching_topic" where
  "bt_flush b =
     (if bt_batch b = [] then b
      else if bt_flatten b then b\<lparr>bt_out := bt_out b @ map (\<lambda>m. [m]) (bt_batch b), bt_batch := []\<rparr>
      else b\<lparr>bt_out := bt_out b @ [take (bt_size b) (bt_batch b)], bt_batch := drop (bt_size b) (bt_batch b)\<rparr>)"

fun bt_step :: "batching_event \<Rightarrow> batching_topic \<Rightarrow> batching_topic" where
  "bt_step (BtMessage m) b =
     (if bt_finished b then b
      else let b1 = b\<lparr>bt_batch := bt_batch b @ [m]\<rparr>
           in if length (bt_batch b1) \<ge> bt_size b1 then bt_flush b1 else b1)"
| "bt_step BtTimeout b = (if bt_finished b then b else bt_flush b)"
| "bt_step BtDone b = (if bt_finished b then b else (bt_flush b)\<lparr>bt_finished := True\<rparr>)"

definition bt_accepted :: "batching_event \<Rightarrow> batching_topic \<Rightarrow> topic_message list" where
  "bt_accepted e b = (case e of BtMessage m \<Rightarrow> if bt_finished b then [] else [m] | _ \<Rightarrow> [])"

definition bt_start :: "nat \<Rightarrow> bool \<Rightarrow> batching_topic" where
  "bt_start n fl = \<lparr>bt_size = n, bt_flatten = fl, bt_batch = [], bt_out = [], bt_finished = False\<rparr>"

definition batch_context :: "string \<Rightarrow> topic_message list \<Rightarrow> topic_message" where
  "batch_context new_id batch = new_topic_message new_id [(''batch'', PList (map (\<lambda>m. PDict (tm_args m)) batch))]"

lemma concat_singletons [simp]: "concat (map (\<lambda>m. [m]) xs) = xs"
  by (induction xs) auto

lemma bt_flush_conserves [simp]:
  "concat (bt_out (bt_flush b)) @ bt_batch (bt_flush b) = concat (bt_out b) @ bt_batch b"
  by (simp add: bt_flush_def)

interpretation batching: lossless_queue bt_step "\<lambda>b. concat (bt_out b)" bt_batch bt_accepted
proof
  fix e b
  show "concat (bt_out (bt_step e b)) @ bt_batch (bt_step e b) = concat (bt_out b) @ bt_batch b @ bt_accepted e b"
    by (cases e) (auto simp: bt_accepted_def Let_def)
qed

definition bt_inv :: "nat \<Rightarrow> batching_topic \<Rightarrow> bool" where
  "bt_inv n b \<longleftrightarrow> bt_size b = n \<and> 0 < n \<and> length (bt_batch b) < n \<and>
     (\<forall>o' \<in> set (bt_out b). o' \<noteq> [] \<and> length o' \<le> n) \<and> (bt_finished b \<longrightarrow> bt_batch b = [])"

lemma bt_inv_step: "bt_inv n b \<Longrightarrow> bt_inv n (bt_step e b)"
  by (cases e) (auto simp: bt_inv_def bt_flush_def Let_def)

lemma bt_inv_run: "bt_inv n b \<Longrightarrow> bt_inv n (batching.run es b)"
  by (induction es arbitrary: b) (auto intro: bt_inv_step)

lemma bt_finished_run: "bt_finished b \<Longrightarrow> bt_finished (batching.run es b)"
proof (induction es arbitrary: b)
  case (Cons e es)
  then show ?case by (cases e) auto
qed simp

text \<open>
  A batching topic delivers every message of its sub-topic once and in order, in batches
  that are neither empty nor larger than \<open>batch_size\<close>, and holds nothing back when it ends.
\<close>

theorem batching_topic_complete:
  assumes "0 < n" and "bt_finished (batching.run es (bt_start n fl))"
  shows "concat (bt_out (batching.run es (bt_start n fl))) = batching.all_accepted es (bt_start n fl) \<and>
    (\<forall>b \<in> set (bt_out (batching.run es (bt_start n fl))). b \<noteq> [] \<and> length b \<le> n)"
proof -
  have "bt_inv n (bt_start n fl)" using assms(1) by (simp add: bt_inv_def bt_start_def)
  then have "bt_inv n (batching.run es (bt_start n fl))" by (rule bt_inv_run)
  then show ?thesis
    using assms(2) batching.run_drained [of "bt_start n fl" es] by (auto simp: bt_inv_def bt_start_def)
qed

lemma batching_topic_complete_witness:
  "let a = new_topic_message ''a'' []; b = new_topic_message ''b'' []; c = new_topic_message ''c'' []
   in concat (bt_out (batching.run [BtMessage a, BtMessage b, BtMessage c, BtTimeout, BtDone] (bt_start 2 False)))
      = [a, b, c]"
  using batching_topic_complete [of 2 "[BtMessage (new_topic_message ''a'' []), BtMessage (new_topic_message ''b'' []),
      BtMessage (new_topic_message ''c'' []), BtTimeout, BtDone]" False]
  by (simp add: bt_start_def bt_flush_def bt_accepted_def Let_def)

section \<open>RabbitMQ: publishing\<close>

datatype publish_outcome =
    Published
  | Nacked
  | Rejected exn
  | PublishFailed exn

definition failure_retry_backoffs :: "time list" where
  "failure_retry_backoffs = [0, 5, 10, 20, 30, 60]"

definition retry_publish_delay :: time where
  "retry_publish_delay = 10"

text \<open>\<open>backoff_sleep\<close>: whether it slept, and how long.\<close>

definition backoff_sleep :: "nat \<Rightarrow> bool \<times> time list" where
  "backoff_sleep attempt =
     (if attempt \<ge> length failure_retry_backoffs then (False, [])
      else (True, [failure_retry_backoffs ! attempt]))"

text \<open>
  The loop of \<open>publish\<close>. \<open>mine\<close> tells whether this reservation already holds the lock; each
  attempt comes with its outcome and whether another task holds the lock then. \<open>None\<close> is a
  publish still going on when the listed attempts are used up. \<open>Rejected\<close> is a delivery error that
  is no negative acknowledgement, or a \<open>PublishError\<close>: it is always raised.
\<close>

fun publish_loop ::
  "bool \<Rightarrow> nat \<Rightarrow> bool \<Rightarrow> (publish_outcome \<times> bool) list \<Rightarrow> time list \<times> bool result option" where
  "publish_loop wait attempt mine [] = ([], None)"
| "publish_loop wait attempt mine ((Published, other) # rest) = ([], Some (Inr True))"
| "publish_loop wait attempt mine ((Rejected e, other) # rest) = ([], Some (Inl e))"
| "publish_loop wait attempt mine ((Nacked, other) # rest) =
     (if \<not> wait then ([], Some (Inr False))
      else (let has_locked = mine \<or> \<not> other;
                (slept, r) = publish_loop wait 0 True rest
            in ((if has_locked then [retry_publish_delay] else []) @ slept, r)))"
| "publish_loop wait attempt mine ((PublishFailed e, other) # rest) =
     (if \<not> wait then ([], Some (Inl e))
      else (let has_locked = mine \<or> \<not> other
            in if has_locked
               then (case backoff_sleep attempt of
                       (False, _) \<Rightarrow> ([], Some (Inl e))
                     | (True, s) \<Rightarrow>
                         (let (slept, r) = publish_loop wait (attempt + 1) True rest in (s @ slept, r)))
               else publish_loop wait attempt True rest))"

definition rabbit_publish ::
  "bool \<Rightarrow> bool \<Rightarrow> bool \<Rightarrow> (publish_outcome \<times> bool) list \<Rightarrow> time list \<times> bool result option" where
  "rabbit_publish is_closed locked_reservations wait outcomes =
     (if is_closed then ([], Some (Inl TopicClosedError))
      else if \<not> wait \<and> locked_reservations then ([], Some (Inr False))
      else publish_loop wait 0 False outcomes)"

text \<open>
  A publish that must not wait never does: it sleeps not at all and its first attempt
  decides it.
\<close>

theorem publish_nowait_never_sleeps:
  assumes "outcomes \<noteq> []"
  shows "fst (rabbit_publish closed locked False outcomes) = [] \<and>
    snd (rabbit_publish closed locked False outcomes) \<noteq> None"
proof -
  obtain oc other rest where "outcomes = (oc, other) # rest" using assms by (cases outcomes) auto
  then show ?thesis by (cases oc) (simp_all add: rabbit_publish_def)
qed

lemma publish_nowait_never_sleeps_witness:
  "fst (rabbit_publish False False False [(Nacked, False)]) = []"
  using publish_nowait_never_sleeps [of "[(Nacked, False)]" False False] by blast

lemma publish_nacks:
  "publish_loop True attempt mine (replicate n (Nacked, False) @ (Published, b) # rest)
    = (replicate n retry_publish_delay, Some (Inr True))"
  by (induction n arbitrary: attempt mine) simp_all

lemma publish_failures:
  "attempt + k = length failure_retry_backoffs \<Longrightarrow>
   publish_loop True attempt mine (replicate (Suc k) (PublishFailed e, False) @ rest)
    = (drop attempt failure_retry_backoffs, Some (Inl e))"
proof (induction k arbitrary: attempt mine)
  case 0
  then show ?case by (simp add: backoff_sleep_def)
next
  case (Suc k)
  then have a: "attempt < length failure_retry_backoffs" by simp
  then have "drop attempt failure_retry_backoffs
      = failure_retry_backoffs ! attempt # drop (Suc attempt) failure_retry_backoffs"
    by (rule Cons_nth_drop_Suc [symmetric])
  with a Suc.IH [of "Suc attempt" True] Suc.prems show ?case by (simp add: backoff_sleep_def)
qed

text \<open>
  A waiting publish outlasts any number of negative acknowledgements, pausing ten seconds
  after each, while a broker that keeps failing is given up on with its error after exactly
  seven failures and the back-offs 0, 5, 10, 20, 30 and 60.
\<close>

theorem publish_wait_policy:
  "rabbit_publish False locked True (replicate n (Nacked, False) @ (Published, b) # rest)
     = (replicate n 10, Some (Inr True)) \<and>
   rabbit_publish False locked True (replicate 7 (PublishFailed e, False) @ rest)
     = ([0, 5, 10, 20, 30, 60], Some (Inl e))"
proof -
  have "publish_loop True 0 False (replicate (Suc 6) (PublishFailed e, False) @ rest)
      = (drop 0 failure_retry_backoffs, Some (Inl e))"
    by (rule publish_failures) (simp add: failure_retry_backoffs_def)
  then show ?thesis
    by (simp add: rabbit_publish_def publish_nacks retry_publish_delay_def failure_retry_backoffs_def)
qed

section \<open>RabbitMQ: consuming\<close>

text \<open>
  The loop of \<open>run\<close>: each connection delivers messages and ends or fails. The trace is the
  messages and the pauses. The result of \<open>backoff_sleep\<close> is not looked at.
\<close>

datatype 'm consume_event = Delivered 'm | Paused time

fun consume_loop :: "nat \<Rightarrow> ('m list \<times> exn option) list \<Rightarrow> 'm consume_event list" where
  "consume_loop attempt [] = []"
| "consume_loop attempt ((msgs, fin) # rest) =
     (let attempt' = (if msgs = [] then attempt else 0)
      in map Delivered msgs @
         (case fin of
            None \<Rightarrow> []
          | Some e \<Rightarrow> map Paused (snd (backoff_sleep attempt')) @ consume_loop (attempt' + 1) rest))"

definition pauses :: "'m consume_event list \<Rightarrow> time list" where
  "pauses t = List.map_filter (\<lambda>ev. case ev of Paused d \<Rightarrow> Some d | Delivered _ \<Rightarrow> None) t"

lemma pauses_simps [simp]:
  "pauses [] = []" "pauses (a @ b) = pauses a @ pauses b" "pauses (map Paused ds) = ds"
proof -
  show "pauses (map Paused ds) = ds" by (induction ds) (simp_all add: pauses_def map_filter_simps)
qed (simp_all add: pauses_def map_filter_simps map_filter_def)

text \<open>
  Once the back-offs are used up the consumer reconnects without any pause, however often the
  broker refuses.
\<close>

lemma consume_spins:
  "length failure_retry_backoffs \<le> attempt \<Longrightarrow>
    pauses (consume_loop attempt (replicate n ([] :: 'm list, Some e))) = []"
  by (induction n arbitrary: attempt) (simp_all add: backoff_sleep_def)

lemma consume_failures:
  "attempt + k = length failure_retry_backoffs \<Longrightarrow>
    pauses (consume_loop attempt (replicate (k + n) ([] :: 'm list, Some e))) = drop attempt failure_retry_backoffs"
proof (induction k arbitrary: attempt)
  case 0
  then show ?case using consume_spins [of attempt n e] by simp
next
  case (Suc k)
  then have a: "attempt < length failure_retry_backoffs" by simp
  then have "drop attempt failure_retry_backoffs
      = failure_retry_backoffs ! attempt # drop (Suc attempt) failure_retry_backoffs"
    by (rule Cons_nth_drop_Suc [symmetric])
  with a Suc.IH [of "Suc attempt"] Suc.prems show ?case by (simp add: backoff_sleep_def pauses_def map_filter_simps)
qed

datatype settlement = Ack | Requeue | Reject

definition truthy_retry :: "int option \<Rightarrow> bool" where
  "truthy_retry r \<longleftrightarrow> r \<noteq> None \<and> r \<noteq> Some 0"

definition truthy_id :: "string option \<Rightarrow> bool" where
  "truthy_id i \<longleftrightarrow> i \<noteq> None \<and> i \<noteq> Some []"

text \<open>\<open>attempt_by_message[id] += 1\<close> on the LRU dict, whose default is 0.\<close>

definition count_attempt :: "string \<Rightarrow> (string, int) lru \<Rightarrow> (string, int) lru" where
  "count_attempt i c =
     (case lru_getitem i c of
        Inl _ \<Rightarrow> c
      | Inr (n, c') \<Rightarrow> lru_setitem i (n + 1) c')"

definition message_context ::
  "int option \<Rightarrow> string option \<Rightarrow> bool \<Rightarrow> (string, int) lru \<Rightarrow> settlement \<times> (string, int) lru" where
  "message_context max_retry mid succeeds c =
     (let counted = truthy_id mid \<and> truthy_retry max_retry;
          requeue = (counted \<and> lru_get (the mid) 0 c < the max_retry)
      in if succeeds then (Ack, if truthy_id mid then lru_pop (the mid) c else c)
         else (if requeue then Requeue else Reject,
               if counted then count_attempt (the mid) c else c))"

text \<open>The broker delivers a requeued message again; here to a consumer that always fails.\<close>

fun failing_deliveries :: "nat \<Rightarrow> int option \<Rightarrow> string option \<Rightarrow> (string, int) lru \<Rightarrow> settlement list" where
  "failing_deliveries 0 max_retry mid c = []"
| "failing_deliveries (Suc fuel) max_retry mid c =
     (case message_context max_retry mid False c of
        (Requeue, c') \<Rightarrow> Requeue # failing_deliveries fuel max_retry mid c'
      | (s, c') \<Rightarrow> [s])"

lemma count_attempt_get:
  assumes "lru_inv c" and "default_factory c = Some 0"
  shows "lru_get i 0 (count_attempt i c) = lru_get i 0 c + 1"
    and "lru_inv (count_attempt i c)" and "default_factory (count_attempt i c) = Some 0"
proof -
  have "\<exists>n c'. lru_getitem i c = Inr (n, c')"
    using assms(2) by (auto simp: lru_getitem_def Let_def split: option.splits)
  then obtain n c' where g: "lru_getitem i c = Inr (n, c')" by blast
  have n: "n = lru_get i 0 c" and d: "default_factory c' = Some 0"
    using g assms(2) by (auto simp: lru_getitem_def lru_get_def dget_or_def Let_def split: option.splits)
  have inv: "lru_inv c'" using assms(1) g by (rule lru_inv_getitem)
  then have "0 < cache_len c'" by (simp add: lru_inv_def)
  then show "lru_get i 0 (count_attempt i c) = lru_get i 0 c + 1"
    by (simp add: count_attempt_def g n)
  show "lru_inv (count_attempt i c)" using inv by (simp add: count_attempt_def g lru_inv_setitem)
  show "default_factory (count_attempt i c) = Some 0" by (simp add: count_attempt_def g d)
qed

lemma failing_deliveries_from:
  assumes "mid \<noteq> []" and "0 < mr"
  shows "lru_inv c \<Longrightarrow> default_factory c = Some 0 \<Longrightarrow> lru_get mid 0 c \<le> mr \<Longrightarrow>
    nat (mr - lru_get mid 0 c) < fuel \<Longrightarrow>
    failing_deliveries fuel (Some mr) (Some mid) c = replicate (nat (mr - lru_get mid 0 c)) Requeue @ [Reject]"
proof (induction fuel arbitrary: c)
  case (Suc fuel)
  let ?n = "lru_get mid 0 c"
  note ca = count_attempt_get [OF Suc.prems(1,2), of mid]
  show ?case
  proof (cases "?n < mr")
    case True
    then have "nat (mr - ?n) = Suc (nat (mr - (?n + 1)))" by simp
    with True Suc.IH [of "count_attempt mid c"] Suc.prems ca assms show ?thesis
      by (simp add: message_context_def truthy_id_def truthy_retry_def)
  next
    case False
    with Suc.prems assms show ?thesis
      by (simp add: message_context_def truthy_id_def truthy_retry_def)
  qed
qed simp



text \<open>
  The count is dropped on success only. A message that was rejected and later arrives again under
  the same identifier is rejected at its first failure.
\<close>

lemma rejected_count_is_kept:
  assumes "lru_inv c" and "default_factory c = Some 0" and "mid \<noteq> []" and "0 < m" and "lru_get mid 0 c = m"
  shows "fst (message_context (Some m) (Some mid) False (snd (message_context (Some m) (Some mid) False c))) = Reject"
  using count_attempt_get [OF assms(1,2), of mid] assms
  by (simp add: message_context_def truthy_id_def truthy_retry_def)

section \<open>RabbitMQ: set-up and serializers\<close>

definition opt_pstr :: "string option \<Rightarrow> pyval" where
  "opt_pstr x = (case x of None \<Rightarrow> PNone | Some s \<Rightarrow> PStr s)"

record rabbit_options =
  ro_max_length :: "int option"
  ro_max_length_bytes :: "int option"
  ro_overflow :: "string option"
  ro_arguments :: "(string, pyval) pydict"

definition default_int_arg :: "string \<Rightarrow> int option \<Rightarrow> (string, pyval) pydict \<Rightarrow> (string, pyval) pydict" where
  "default_int_arg k x d = (case x of Some n \<Rightarrow> if n \<noteq> 0 then dsetdefault k (PInt n) d else d | None \<Rightarrow> d)"

definition queue_arguments :: "rabbit_options \<Rightarrow> (string, pyval) pydict" where
  "queue_arguments opts =
     dsetdefault ''x-overflow'' (opt_pstr (ro_overflow opts))
       (default_int_arg ''x-max-length-bytes'' (ro_max_length_bytes opts)
         (default_int_arg ''x-max-length'' (ro_max_length opts) (ro_arguments opts)))"

text \<open>Arguments given explicitly are never overridden by the shortcuts.\<close>

lemma dsetdefault_keeps: "dget d k = Some v \<Longrightarrow> dget (dsetdefault k' v' d) k = Some v"
  by (cases "dget d k' = None") auto

lemma queue_arguments_keeps:
  assumes "dget (ro_arguments opts) k = Some v"
  shows "dget (queue_arguments opts) k = Some v"
proof -
  have keep: "dget (default_int_arg k' x d) k = Some v" if "dget d k = Some v" for k' x d
    using dsetdefault_keeps [OF that] that by (simp add: default_int_arg_def split: option.splits)
  show ?thesis unfolding queue_arguments_def by (intro dsetdefault_keeps keep assms)
qed

datatype serializer = SerJson | SerPickle

definition content_type :: "serializer \<Rightarrow> string" where
  "content_type s = (case s of SerJson \<Rightarrow> ''application/json'' | SerPickle \<Rightarrow> ''application/python-pickle'')"

definition from_content_type :: "string \<Rightarrow> serializer option" where
  "from_content_type ct =
     (if ct = content_type SerJson then Some SerJson
      else if ct = content_type SerPickle then Some SerPickle else None)"

definition deserializer :: "serializer \<Rightarrow> string option \<Rightarrow> serializer" where
  "deserializer configured ct =
     (case ct of
        Some c \<Rightarrow> if c = [] then configured
                  else (case from_content_type c of Some s \<Rightarrow> s | None \<Rightarrow> configured)
      | None \<Rightarrow> configured)"

text \<open>A message is decoded with the serializer that encoded it, whatever the reader's setting.\<close>

lemma serializer_round_trip: "deserializer configured (Some (content_type s)) = s"
  by (cases s) (simp_all add: deserializer_def from_content_type_def content_type_def)

section \<open>Delayed topic\<close>

text \<open>\<open>fmt\<close> and \<open>unfmt\<close> are the text form of an instant and its parser.\<close>

definition delayed_publish :: "(time \<Rightarrow> string) \<Rightarrow> time \<Rightarrow> time \<Rightarrow> topic_message \<Rightarrow> topic_message" where
  "delayed_publish fmt now delay m =
     m\<lparr>tm_metadata := dset ''delayed_topic'' (PDict [(''not_before'', PStr (fmt (now + delay)))]) (tm_metadata m)\<rparr>"

definition sleep_before_yield :: "(string \<Rightarrow> time option) \<Rightarrow> time \<Rightarrow> topic_message \<Rightarrow> time list result" where
  "sleep_before_yield unfmt now m =
     (case dget (tm_metadata m) ''delayed_topic'' of
        Some (PDict meta) \<Rightarrow>
          (case dget meta ''not_before'' of
             Some (PStr s) \<Rightarrow>
               (case unfmt s of
                  Some nb \<Rightarrow> Inr (if nb - now > 0 then [nb - now] else [])
                | None \<Rightarrow> Inl (ValueError s))
           | _ \<Rightarrow> Inl (TypeError ''not_before''))
      | _ \<Rightarrow> Inl (KeyError ''delayed_topic''))"

text \<open>
  A delayed message is not handed out early: published at \<open>t\<close> with a delay and consumed at
  \<open>now\<close>, it is yielded at \<open>max now (t + delay)\<close>, provided the text form of instants round-trips.
\<close>

theorem delayed_not_before:
  assumes "\<And>d. unfmt (fmt d) = Some d"
  shows "\<exists>slept. sleep_before_yield unfmt now (delayed_publish fmt t delay m) = Inr slept \<and>
    now + sum_list slept = max now (t + delay)"
  using assms by (simp add: sleep_before_yield_def delayed_publish_def)

lemma delayed_not_before_witness:
  "\<exists>slept. sleep_before_yield parse_int 100 (delayed_publish int_str 90 60 (new_topic_message ''1'' [])) = Inr slept \<and>
    100 + sum_list slept = 150"
  using delayed_not_before [of parse_int int_str 100 90 60 "new_topic_message ''1'' []"] by simp

section \<open>File topic\<close>

definition file_line :: "topic_message \<Rightarrow> string" where
  "file_line m = dumps (PDict [(''id'', PStr (tm_id m)), (''args'', PDict (tm_args m))]) @ [CHR 0x0A]"

text \<open>\<open>for line in fd\<close>: lines keep their line feed, the last one may lack it.\<close>

fun file_lines :: "string \<Rightarrow> string \<Rightarrow> string list" where
  "file_lines acc [] = (if acc = [] then [] else [acc])"
| "file_lines acc (c # cs) =
     (if c = CHR 0x0A then (acc @ [c]) # file_lines [] cs else file_lines (acc @ [c]) cs)"

definition file_message :: "string \<Rightarrow> topic_message result" where
  "file_message line =
     (case loads line of
        Some (PDict d) \<Rightarrow>
          (case (dget d ''id'', dget d ''args'') of
             (Some (PStr i), Some (PDict args)) \<Rightarrow> Inr (new_topic_message i args)
           | (_, None) \<Rightarrow> Inl (KeyError ''args'')
           | _ \<Rightarrow> Inl (TypeError line))
      | Some _ \<Rightarrow> Inl (TypeError line)
      | None \<Rightarrow> Inl (ValueError line))"

definition file_run :: "string \<Rightarrow> topic_message list result" where
  "file_run content = mapM file_message (file_lines [] content)"

lemma hex_digit_no_nl: "n < 16 \<Longrightarrow> hex_digit n \<noteq> CHR 0x0A"
proof -
  assume n: "n < 16"
  have "hex_val (hex_digit n) = Some n" using n by (rule hex_val_hex_digit)
  moreover have "hex_val (CHR 0x0A) = None" by (simp add: hex_val_def)
  ultimately show ?thesis by auto
qed

lemma escape_char_no_nl: "CHR 0x0A \<notin> set (escape_char c)"
proof -
  have "of_char c < (256 :: nat)" by simp
  then have "hex_digit (of_char c div 16) \<noteq> CHR 0x0A" "hex_digit (of_char c mod 16) \<noteq> CHR 0x0A"
    by (auto intro!: hex_digit_no_nl simp: less_mult_imp_div_less)
  then show ?thesis by (auto simp: escape_char_def quote_char_def backslash_def)
qed

lemma dumps_str_no_nl: "CHR 0x0A \<notin> set (dumps_str s)"
  using escape_char_no_nl by (auto simp: dumps_str_def quote_char_def)

lemma nat_str_no_nl: "CHR 0x0A \<notin> set (nat_str n)"
  using nat_str_digits [of n] by (auto simp: list_all_iff is_digit_def)

lemma joins_set: "set (joins sep xs) \<subseteq> set sep \<union> \<Union> (set ` set xs)"
  by (induction sep xs rule: joins.induct) auto

lemma dumps_no_nl: "CHR 0x0A \<notin> set (dumps v)"
proof (induction v rule: dumps.induct)
  case (3 i)
  then show ?case using nat_str_no_nl by (auto simp: int_str_def)
next
  case (4 s)
  then show ?case by (simp add: dumps_str_no_nl)
next
  case (5 xs)
  then show ?case by (auto dest!: subsetD [OF joins_set])
next
  case (6 d)
  then show ?case using dumps_str_no_nl by (auto dest!: subsetD [OF joins_set])
qed auto

lemma file_lines_line:
  "CHR 0x0A \<notin> set l \<Longrightarrow> file_lines acc (l @ CHR 0x0A # rest) = (acc @ l @ [CHR 0x0A]) # file_lines [] rest"
  by (induction l arbitrary: acc) auto

lemma loads_trailing_nl:
  assumes "wfp v" shows "loads (dumps v @ [CHR 0x0A]) = Some v"
proof -
  have "parse_val (Suc (length (dumps v @ [CHR 0x0A]))) (dumps v @ [CHR 0x0A]) = Some (v, [CHR 0x0A])"
    using assms by (intro parse_dumps) (auto simp: num_end_def is_digit_def starts_fraction_def)
  then show ?thesis by (simp add: loads_def skip_ws_def is_ws_def)
qed

definition file_ok :: "topic_message \<Rightarrow> bool" where
  "file_ok m \<longleftrightarrow> wfp (PDict (tm_args m))"

lemma file_message_line:
  assumes "file_ok m" shows "file_message (file_line m) = Inr (new_topic_message (tm_id m) (tm_args m))"
proof -
  have "wfp (PDict [(''id'', PStr (tm_id m)), (''args'', PDict (tm_args m))])"
    using assms by (simp add: file_ok_def)
  from loads_trailing_nl [OF this] show ?thesis
    by (simp add: file_message_def file_line_def del: dumps.simps)
qed

text \<open>
  What a file topic publishes, one JSON document per line, it reads back: the same messages
  with the same identifiers and arguments, in order.
\<close>

theorem file_topic_round_trip:
  assumes "\<forall>m \<in> set ms. file_ok m"
  shows "file_run (concat (map file_line ms)) = Inr (map (\<lambda>m. new_topic_message (tm_id m) (tm_args m)) ms)"
  using assms
proof (induction ms)
  case (Cons m ms)
  have "file_lines [] (file_line m @ concat (map file_line ms)) = file_line m # file_lines [] (concat (map file_line ms))"
    using file_lines_line [OF dumps_no_nl] by (simp add: file_line_def del: dumps.simps)
  with Cons show ?case by (simp add: file_run_def file_message_line)
qed (simp add: file_run_def)

lemma file_topic_round_trip_witness:
  "file_run (concat (map file_line [new_topic_message ''1'' [(''a'', PInt 7)], new_topic_message ''2'' []]))
    = Inr [new_topic_message ''1'' [(''a'', PInt 7)], new_topic_message ''2'' []]"
  using file_topic_round_trip [of "[new_topic_message ''1'' [(''a'', PInt 7)], new_topic_message ''2'' []]"]
  by (simp add: file_ok_def new_topic_message_def)

section \<open>Other topics\<close>

definition null_publish :: "topic_message \<Rightarrow> bool \<Rightarrow> bool result" where
  "null_publish m wait = Inr True"

definition periodic_publish :: "topic_message \<Rightarrow> bool \<Rightarrow> bool result" where
  "periodic_publish m wait = Inl (ValueError ''Cannot publish on periodic topic'')"

text \<open>A static topic yields its messages once, or for ever with \<open>cycle\<close> (the first \<open>n\<close> are given).\<close>

definition static_topic_run :: "topic_message list \<Rightarrow> bool \<Rightarrow> nat \<Rightarrow> topic_message list" where
  "static_topic_run messages cycle n =
     (if \<not> cycle then take n messages
      else if messages = [] then []
      else map (\<lambda>i. messages ! (i mod length messages)) [0..<n])"

text \<open>
  \<open>BlockingTopic.run\<close> over the results of \<open>run_once_blocking\<close>: an error is logged and retried
  after the pause, \<open>None\<close> ends the topic, an empty list waits.
\<close>

fun blocking_run :: "topic_message list option result list \<Rightarrow> topic_message list" where
  "blocking_run [] = []"
| "blocking_run (Inl e # rest) = blocking_run rest"
| "blocking_run (Inr None # rest) = []"
| "blocking_run (Inr (Some ms) # rest) = ms @ blocking_run rest"

text \<open>A transient failure of the source loses nothing of what it returns later.\<close>

lemma blocking_run_skips_errors:
  "blocking_run rs = blocking_run (filter (\<lambda>r. case r of Inl _ \<Rightarrow> False | Inr _ \<Rightarrow> True) rs)"
  by (induction rs rule: blocking_run.induct) auto

end
