(* ===== verification/Definitions.thy ===== *)
theory Definitions
  imports Core_Types
begin

text \<open>
  \<open>worker_manager/config/\<close>: the declarative objects and their compilation into
  \<open>StaticDefinitions\<close>, with the patches of \<open>models/topology_patches.py\<close> merged in
  (\<open>utils/dict.py\<close>).

  Arguments stand for code outside the repository: \<open>decode\<close> is \<open>fromdict\<close> (pydantic) applied to the
  document of an object of a given kind, \<open>dynamic\<close> is the imported function a dynamic topology
  names, \<open>search\<close> is \<open>re.Pattern.search(name) is not None\<close>.
\<close>

section \<open>Static definitions\<close>

datatype resource_def = Res resource_item | Prov resources_provider_item

record static_definitions =
  sd_executors :: "(string, component_definition) pydict"
  sd_inventories :: "(string, component_definition) pydict"
  sd_topics :: "(string, component_definition) pydict"
  sd_job_definitions :: "(string, job_definition) pydict"
  sd_jobs :: "(string, queue_item) pydict"
  sd_resources_providers :: "(string, resources_provider_item) pydict"
  sd_resources :: "(string, resource_item) pydict"
  sd_resources_by_type :: "(string, resource_def list) pydict"

definition empty_definitions :: static_definitions where
  "empty_definitions = \<lparr>sd_executors = [], sd_inventories = [], sd_topics = [], sd_job_definitions = [],
     sd_jobs = [], sd_resources_providers = [], sd_resources = [], sd_resources_by_type = []\<rparr>"

section \<open>Declarative objects\<close>

record object_metadata =
  md_name :: string
  md_labels :: "(string, string) pydict"

record component_spec =
  sp_type :: string
  sp_options :: "(string, pyval) pydict"

record job_input_spec =
  jin_inventory :: "string option"
  jin_topic :: "string option"

datatype job_output = OutTopicName string | OutErrorHandler error_handler

record job_spec =
  js_pipeline :: pipeline_info
  js_input :: "job_input_spec option"
  js_inputs :: "(string, job_input_spec) pydict"
  js_output :: "(string, job_output list) pydict"
  js_config :: "(string, pyval) pydict"
  js_executor :: string

record resource_spec =
  rs_type :: string
  rs_data :: "(string, pyval) pydict"
  rs_default_delay :: time
  rs_rate_limit :: "rate_limit_item option"
  rs_concurrency :: int

record provider_spec =
  ps_type :: string
  ps_resource_type :: string
  ps_options :: "(string, pyval) pydict"

datatype base_object =
    Executor object_metadata component_spec
  | InventoryObj object_metadata component_spec
  | TopicItem object_metadata component_spec
  | JobDefinitionObj object_metadata job_spec string
  | JobObj object_metadata job_spec
  | ResourceObj object_metadata resource_spec
  | ResourcesProviderObj object_metadata provider_spec
  | DynamicTopology object_metadata string
  | UnsupportedObj

definition component_of :: "object_metadata \<Rightarrow> component_spec \<Rightarrow> component_definition" where
  "component_of md sp = \<lparr>cd_name = md_name md, cd_type = sp_type sp, cd_options = sp_options sp\<rparr>"

definition provider_of :: "object_metadata \<Rightarrow> provider_spec \<Rightarrow> resources_provider_item" where
  "provider_of md sp = \<lparr>rpi_name = md_name md, rpi_type = ps_type sp,
     rpi_resource_type = ps_resource_type sp, rpi_options = ps_options sp\<rparr>"

definition resource_of :: "object_metadata \<Rightarrow> resource_spec \<Rightarrow> resource_item" where
  "resource_of md sp = \<lparr>ri_name = md_name md, ri_type = rs_type sp, ri_data = rs_data sp,
     ri_default_delay = rs_default_delay sp, ri_rate_limit = rs_rate_limit sp\<rparr>"

text \<open>\<open>JobInput.__post_init__\<close>\<close>

definition check_job_input :: "job_input_spec \<Rightarrow> unit result" where
  "check_job_input i =
     (if \<not> struthy (jin_inventory i) \<and> \<not> struthy (jin_topic i)
      then Inl (PlainException ''JobInput must specify one of inventory or topic'')
      else if struthy (jin_inventory i) \<and> struthy (jin_topic i)
      then Inl (PlainException ''JobInput cannot specify both inventory and topic'')
      else Inr ())"

definition lookup :: "(string, 'a) pydict \<Rightarrow> string \<Rightarrow> 'a result" where
  "lookup d k = (case dget d k of None \<Rightarrow> Inl (KeyError k) | Some v \<Rightarrow> Inr v)"

definition job_input_object :: "static_definitions \<Rightarrow> job_input_spec \<Rightarrow> component_definition result" where
  "job_input_object sd i =
     (if struthy (jin_inventory i) then lookup (sd_inventories sd) (the (jin_inventory i))
      else if struthy (jin_topic i) then lookup (sd_topics sd) (the (jin_topic i))
      else Inl (PlainException ''JobInput has no job or topic''))"

definition job_output_object :: "static_definitions \<Rightarrow> job_output \<Rightarrow> output_definition result" where
  "job_output_object sd out =
     (case out of
        OutTopicName t \<Rightarrow> rbind (lookup (sd_topics sd) t) (\<lambda>c. Inr (OutComponent c))
      | OutErrorHandler h \<Rightarrow> Inr (OutHandler h))"

definition job_outputs :: "static_definitions \<Rightarrow> job_spec \<Rightarrow> (string, output_definition list) pydict result" where
  "job_outputs sd sp =
     mapM (\<lambda>(k, outs). rbind (mapM (job_output_object sd) outs) (\<lambda>os. Inr (k, os))) (js_output sp)"

definition default_input_name :: string where
  "default_input_name = ''default''"

definition job_inputs :: "job_spec \<Rightarrow> (string, job_input_spec) pydict" where
  "job_inputs sp =
     (case js_input sp of None \<Rightarrow> js_inputs sp | Some i \<Rightarrow> dset default_input_name i (js_inputs sp))"

definition queue_item_name :: "string \<Rightarrow> string \<Rightarrow> string" where
  "queue_item_name name input_name =
     (if input_name \<noteq> default_input_name then name @ ''-'' @ input_name else name)"

text \<open>\<open>JobSpec.to_core_objects\<close>: one queue item per input.\<close>

definition job_queue_items ::
  "static_definitions \<Rightarrow> string \<Rightarrow> (string, string) pydict \<Rightarrow> job_spec \<Rightarrow> queue_item list result" where
  "job_queue_items sd name labels sp =
     (if job_inputs sp = [] then Inl (PlainException ''JobSpec has no input'')
      else mapM (\<lambda>(input_name, i).
        rbind (job_input_object sd i) (\<lambda>inp.
        rbind (job_outputs sd sp) (\<lambda>outs.
        Inr \<lparr>qi_name = queue_item_name name input_name,
             qi_pipeline = \<lparr>qp_info = js_pipeline sp, qp_args = []\<rparr>,
             qi_output = outs, qi_input = inp, qi_config = js_config sp,
             qi_labels = dor [(''internal.job-definition-name'', name)] labels,
             qi_executor = js_executor sp\<rparr>))) (job_inputs sp))"

section \<open>StaticDefinitions.add\<close>

definition append_by_type :: "string \<Rightarrow> resource_def \<Rightarrow> (string, resource_def list) pydict \<Rightarrow> (string, resource_def list) pydict" where
  "append_by_type ty r d = dset ty (dget_or d ty [] @ [r]) d"

definition add_resource_item :: "resource_item \<Rightarrow> static_definitions \<Rightarrow> static_definitions" where
  "add_resource_item r sd = sd\<lparr>sd_resources := dset (ri_name r) r (sd_resources sd),
     sd_resources_by_type := append_by_type (ri_type r) (Res r) (sd_resources_by_type sd)\<rparr>"

text \<open>The instances of a resource: numbered from 1 when there are several.\<close>

definition resource_instances :: "object_metadata \<Rightarrow> resource_spec \<Rightarrow> resource_item list" where
  "resource_instances md sp =
     map (\<lambda>i. let r = resource_of md sp
              in if rs_concurrency sp > 1 then r\<lparr>ri_name := md_name md @ ''-'' @ int_str i\<rparr> else r)
       [1..rs_concurrency sp]"

definition add_object ::
  "(string \<Rightarrow> static_definitions \<Rightarrow> static_definitions result) \<Rightarrow> base_object \<Rightarrow> static_definitions \<Rightarrow>
     static_definitions result" where
  "add_object dynamic obj sd =
     (case obj of
        Executor md sp \<Rightarrow> Inr (sd\<lparr>sd_executors := dset (md_name md) (component_of md sp) (sd_executors sd)\<rparr>)
      | InventoryObj md sp \<Rightarrow> Inr (sd\<lparr>sd_inventories := dset (md_name md) (component_of md sp) (sd_inventories sd)\<rparr>)
      | TopicItem md sp \<Rightarrow> Inr (sd\<lparr>sd_topics := dset (md_name md) (component_of md sp) (sd_topics sd)\<rparr>)
      | JobDefinitionObj md sp interval \<Rightarrow>
          rbind (job_queue_items sd (md_name md) (md_labels md) sp) (\<lambda>items.
            Inr (sd\<lparr>sd_job_definitions := fold (\<lambda>q. dset (qi_name q)
              \<lparr>jd_name = qi_name q, jd_template = q, jd_minimal_interval = interval\<rparr>) items (sd_job_definitions sd)\<rparr>))
      | JobObj md sp \<Rightarrow>
          rbind (job_queue_items sd (md_name md) (md_labels md) sp) (\<lambda>items.
            Inr (sd\<lparr>sd_jobs := fold (\<lambda>q. dset (qi_name q) q) items (sd_jobs sd)\<rparr>))
      | ResourcesProviderObj md sp \<Rightarrow>
          (let p = provider_of md sp
           in Inr (sd\<lparr>sd_resources_providers := dset (rpi_name p) p (sd_resources_providers sd),
                sd_resources_by_type := append_by_type (rpi_resource_type p) (Prov p) (sd_resources_by_type sd)\<rparr>))
      | ResourceObj md sp \<Rightarrow> Inr (fold add_resource_item (resource_instances md sp) sd)
      | DynamicTopology md module \<Rightarrow> dynamic module sd
      | UnsupportedObj \<Rightarrow> Inl (PlainException ''Unsupported base object type''))"

section \<open>Compilation\<close>

record uncompiled_object =
  uo_api_version :: string
  uo_kind :: string
  uo_name :: string
  uo_data :: pyval

text \<open>\<open>utils/dict.py\<close>: \<open>b\<close> is merged into \<open>a\<close>.\<close>

function deep_merge :: "(string, pyval) pydict \<Rightarrow> (string, pyval) pydict \<Rightarrow> (string, pyval) pydict" where
  "deep_merge a [] = a"
| "deep_merge a ((k, v) # b) =
     deep_merge (dset k (case (dget a k, v) of
         (Some (PDict x), PDict y) \<Rightarrow> PDict (deep_merge x y)
       | _ \<Rightarrow> v) a) b"
  by pat_completeness auto
termination
  by (relation "measure (\<lambda>(a, b). size (PDict b))") auto

record topology_patch =
  tp_kind :: string
  tp_name :: string
  tp_data :: "(string, pyval) pydict"

text \<open>Objects of the same kind and name share one entry of the dict: the last one is patched.\<close>

fun patch_last :: "topology_patch \<Rightarrow> uncompiled_object list \<Rightarrow> uncompiled_object list" where
  "patch_last p [] = []"
| "patch_last p (u # us) =
     (if uo_kind u = tp_kind p \<and> uo_name u = tp_name p \<and>
         \<not> list_ex (\<lambda>u'. uo_kind u' = tp_kind p \<and> uo_name u' = tp_name p) us
      then u\<lparr>uo_data := (case uo_data u of PDict d \<Rightarrow> PDict (deep_merge d (tp_data p)) | v \<Rightarrow> v)\<rparr> # us
      else u # patch_last p us)"

definition merge_with_patches :: "uncompiled_object list \<Rightarrow> topology_patch list \<Rightarrow> uncompiled_object list" where
  "merge_with_patches objs patches = fold patch_last patches objs"

definition kinds_in_order :: "string list" where
  "kinds_in_order = [''DatalineupExecutor'', ''DatalineupInventory'', ''DatalineupTopic'',
     ''DatalineupJobDefinition'', ''DatalineupJob'', ''DatalineupResource'', ''DatalineupResourcesProvider'',
     ''DatalineupDynamicTopology'']"

definition dynamic_topology_kind :: string where
  "dynamic_topology_kind = ''DatalineupDynamicTopology''"

definition obj_key :: "uncompiled_object \<Rightarrow> string \<times> string" where
  "obj_key u = (uo_kind u, uo_name u)"

text \<open>The first loop: an object whose kind and name were seen before is refused.\<close>

fun check_unique :: "(string \<times> string) list \<Rightarrow> uncompiled_object list \<Rightarrow> unit result" where
  "check_unique seen [] = Inr ()"
| "check_unique seen (u # us) =
     (if obj_key u \<in> set seen
      then Inl (PlainException (uo_kind u @ ''/'' @ uo_name u @ '' already exists''))
      else check_unique (obj_key u # seen) us)"

fun add_all ::
  "(string \<Rightarrow> pyval \<Rightarrow> base_object result) \<Rightarrow> (string \<Rightarrow> static_definitions \<Rightarrow> static_definitions result) \<Rightarrow>
   uncompiled_object list \<Rightarrow> static_definitions \<Rightarrow> static_definitions result" where
  "add_all decode dynamic [] sd = Inr sd"
| "add_all decode dynamic (u # us) sd =
     rbind (decode (uo_kind u) (uo_data u)) (\<lambda>obj.
       if uo_kind u = dynamic_topology_kind
       then add_all decode dynamic us (case add_object dynamic obj sd of Inl _ \<Rightarrow> sd | Inr sd' \<Rightarrow> sd')
       else rbind (add_object dynamic obj sd) (add_all decode dynamic us))"

definition compile_static_definitions ::
  "(string \<Rightarrow> pyval \<Rightarrow> base_object result) \<Rightarrow> (string \<Rightarrow> static_definitions \<Rightarrow> static_definitions result) \<Rightarrow>
   uncompiled_object list \<Rightarrow> topology_patch list \<Rightarrow> static_definitions result" where
  "compile_static_definitions decode dynamic objs patches =
     (let us = merge_with_patches objs patches
      in rbind (check_unique [] us) (\<lambda>_.
         rbind (add_all decode dynamic
                  (concat (map (\<lambda>k. filter (\<lambda>u. uo_kind u = k) us) kinds_in_order)) empty_definitions) (\<lambda>sd.
           (case filter (\<lambda>u. uo_kind u \<notin> set kinds_in_order) us of
              [] \<Rightarrow> Inr sd
            | u # _ \<Rightarrow> Inl (PlainException (''Unsupported kind '' @ uo_kind u))))))"

definition filter_with_jobs_selector :: "(string \<Rightarrow> bool) \<Rightarrow> static_definitions \<Rightarrow> static_definitions" where
  "filter_with_jobs_selector search sd = sd\<lparr>
     sd_jobs := filter (\<lambda>(n, _). search n) (sd_jobs sd),
     sd_job_definitions := filter (\<lambda>(n, _). search n) (sd_job_definitions sd)\<rparr>"

definition load_static_definition ::
  "(string \<Rightarrow> pyval \<Rightarrow> base_object result) \<Rightarrow> (string \<Rightarrow> static_definitions \<Rightarrow> static_definitions result) \<Rightarrow>
   (string \<Rightarrow> string \<Rightarrow> bool) \<Rightarrow> uncompiled_object list option \<Rightarrow> topology_patch list \<Rightarrow> string option \<Rightarrow>
   static_definitions result" where
  "load_static_definition decode dynamic search objs patches selector =
     (case objs of
        None \<Rightarrow> Inr empty_definitions
      | Some us \<Rightarrow>
          rbind (compile_static_definitions decode dynamic us patches) (\<lambda>sd.
            Inr (if struthy selector then filter_with_jobs_selector (search (the selector)) sd else sd)))"

section \<open>Merging patches\<close>

lemma wfd_deep_merge: "wfd a \<Longrightarrow> wfd (deep_merge a b)"
  by (induction a b rule: deep_merge.induct) auto

text \<open>
  Merging a patch keeps every key the patch does not mention, merges dict into dict
  recursively, and otherwise takes the value of the patch.
\<close>

theorem deep_merge_spec:
  assumes "wfd b"
  shows "dget (deep_merge a b) k =
    (case dget b k of
       None \<Rightarrow> dget a k
     | Some v \<Rightarrow> Some (case (dget a k, v) of
          (Some (PDict x), PDict y) \<Rightarrow> PDict (deep_merge x y) | _ \<Rightarrow> v))"
  using assms
proof (induction b arbitrary: a)
  case (Cons p b)
  obtain k' v where p: "p = (k', v)" by (cases p)
  have b: "wfd b" "dget b k' = None"
    using Cons.prems by (auto simp: p wfd_def map_of_eq_None_iff)
  show ?case
  proof (cases "k = k'")
    case True
    with Cons.IH [OF b(1)] b(2) show ?thesis by (simp add: p)
  next
    case False
    then have "dget (dset k' w a) k = dget a k" for w by simp
    with False Cons.IH [OF b(1)] show ?thesis by (cases "dget b k") (simp_all add: p)
  qed
qed simp

lemma deep_merge_spec_witness:
  "dget (deep_merge [(''a'', PInt 1), (''d'', PDict [(''x'', PInt 1)])] [(''d'', PDict [(''y'', PInt 2)])]) ''d''
    = Some (PDict [(''x'', PInt 1), (''y'', PInt 2)])"
  using deep_merge_spec [of "[(''d'', PDict [(''y'', PInt 2)])]"
      "[(''a'', PInt 1), (''d'', PDict [(''x'', PInt 1)])]" "''d''"]
  by (simp add: wfd_def dset_def)

section \<open>What compilation guarantees\<close>

lemma patch_last_keys: "map obj_key (patch_last p us) = map obj_key us"
  by (induction p us rule: patch_last.induct) (auto simp: obj_key_def)

lemma merge_keys: "map obj_key (merge_with_patches us ps) = map obj_key us"
  unfolding merge_with_patches_def by (induction ps arbitrary: us) (simp_all add: patch_last_keys)

lemma check_unique_iff:
  "check_unique seen us = Inr () \<longleftrightarrow>
    distinct (map obj_key us) \<and> (\<forall>u \<in> set us. obj_key u \<notin> set seen)"
proof (induction seen us rule: check_unique.induct)
  case (2 seen u us)
  then show ?case by (cases "obj_key u \<in> set seen") (simp, simp add: image_iff, metis)
qed simp

lemma compile_parts:
  assumes "compile_static_definitions decode dynamic objs patches = Inr sd"
  shows "check_unique [] (merge_with_patches objs patches) = Inr ()"
    and "\<exists>us. add_all decode dynamic us empty_definitions = Inr sd"
    and "filter (\<lambda>u. uo_kind u \<notin> set kinds_in_order) (merge_with_patches objs patches) = []"
proof -
  let ?us = "merge_with_patches objs patches"
  obtain s where "check_unique [] ?us = Inr ()"
    and "add_all decode dynamic (concat (map (\<lambda>k. filter (\<lambda>u. uo_kind u = k) ?us) kinds_in_order))
      empty_definitions = Inr s"
    and "(case filter (\<lambda>u. uo_kind u \<notin> set kinds_in_order) ?us of
        [] \<Rightarrow> Inr s | u # _ \<Rightarrow> Inl (PlainException (''Unsupported kind '' @ uo_kind u))) = Inr sd"
  proof -
    fix P assume P: "\<And>s. check_unique [] ?us = Inr () \<Longrightarrow>
      add_all decode dynamic (concat (map (\<lambda>k. filter (\<lambda>u. uo_kind u = k) ?us) kinds_in_order))
        empty_definitions = Inr s \<Longrightarrow>
      (case filter (\<lambda>u. uo_kind u \<notin> set kinds_in_order) ?us of
        [] \<Rightarrow> Inr s | u # _ \<Rightarrow> Inl (PlainException (''Unsupported kind '' @ uo_kind u))) = Inr sd \<Longrightarrow> P"
    from assms obtain x s where "check_unique [] ?us = Inr x"
      "add_all decode dynamic (concat (map (\<lambda>k. filter (\<lambda>u. uo_kind u = k) ?us) kinds_in_order))
        empty_definitions = Inr s"
      "(case filter (\<lambda>u. uo_kind u \<notin> set kinds_in_order) ?us of
        [] \<Rightarrow> Inr s | u # _ \<Rightarrow> Inl (PlainException (''Unsupported kind '' @ uo_kind u))) = Inr sd"
      unfolding compile_static_definitions_def Let_def rbind_Inr_iff by blast
    then show P by (intro P [of s]) auto
  qed
  then show "check_unique [] ?us = Inr ()" and "\<exists>us. add_all decode dynamic us empty_definitions = Inr sd"
    and "filter (\<lambda>u. uo_kind u \<notin> set kinds_in_order) ?us = []"
    by (cases "filter (\<lambda>u. uo_kind u \<notin> set kinds_in_order) ?us"; auto)+
qed

text \<open>
  A set of objects compiles only when no two have the same kind and name and every kind is
  a known one.
\<close>

theorem compile_rejects_duplicates:
  assumes "compile_static_definitions decode dynamic objs patches = Inr sd"
  shows "distinct (map obj_key objs) \<and> (\<forall>u \<in> set objs. uo_kind u \<in> set kinds_in_order)"
proof -
  let ?us = "merge_with_patches objs patches"
  note u = compile_parts(1) [OF assms] and k = compile_parts(3) [OF assms]
  have keys: "map obj_key ?us = map obj_key objs" by (rule merge_keys)
  have "uo_kind ` set ?us = uo_kind ` set objs"
    using arg_cong [OF keys, of "\<lambda>xs. fst ` set xs"] by (simp add: image_comp comp_def obj_key_def)
  with u k keys show ?thesis
    unfolding check_unique_iff filter_empty_conv by (metis (no_types, lifting) image_iff)
qed

definition def_type :: "resource_def \<Rightarrow> string" where
  "def_type d = (case d of Res r \<Rightarrow> ri_type r | Prov p \<Rightarrow> rpi_resource_type p)"

text \<open>The index by type agrees with the resources and providers registered.\<close>

definition resource_index_ok :: "static_definitions \<Rightarrow> bool" where
  "resource_index_ok sd \<longleftrightarrow>
     (\<forall>n r. dget (sd_resources sd) n = Some r \<longrightarrow> Res r \<in> set (dget_or (sd_resources_by_type sd) (ri_type r) [])) \<and>
     (\<forall>n p. dget (sd_resources_providers sd) n = Some p \<longrightarrow>
        Prov p \<in> set (dget_or (sd_resources_by_type sd) (rpi_resource_type p) [])) \<and>
     (\<forall>ty d. d \<in> set (dget_or (sd_resources_by_type sd) ty []) \<longrightarrow>
        def_type d = ty)"

lemma dget_or_append_by_type:
  "dget_or (append_by_type ty r d) ty' [] = (if ty' = ty then dget_or d ty [] @ [r] else dget_or d ty' [])"
  by (simp add: append_by_type_def dget_or_def)

lemma append_by_type_keeps:
  "d \<in> set (dget_or idx ty' []) \<Longrightarrow> d \<in> set (dget_or (append_by_type ty r idx) ty' [])"
  by (auto simp: dget_or_append_by_type)

lemma append_by_type_new: "r \<in> set (dget_or (append_by_type ty r idx) ty [])"
  by (simp add: dget_or_append_by_type)

lemma append_by_type_types:
  assumes "\<forall>ty d. d \<in> set (dget_or idx ty []) \<longrightarrow> def_type d = ty"
  shows "\<forall>ty d. d \<in> set (dget_or (append_by_type (def_type r) r idx) ty []) \<longrightarrow> def_type d = ty"
  using assms by (auto simp: dget_or_append_by_type split: if_splits)

lemma index_add_resource: "resource_index_ok sd \<Longrightarrow> resource_index_ok (add_resource_item r sd)"
  using append_by_type_types [of "sd_resources_by_type sd" "Res r"]
  by (auto simp: resource_index_ok_def add_resource_item_def def_type_def append_by_type_new
      intro: append_by_type_keeps split: if_splits)

lemma index_add_provider: "resource_index_ok sd \<Longrightarrow>
   resource_index_ok (sd\<lparr>sd_resources_providers := dset (rpi_name p) p (sd_resources_providers sd),
     sd_resources_by_type := append_by_type (rpi_resource_type p) (Prov p) (sd_resources_by_type sd)\<rparr>)"
  using append_by_type_types [of "sd_resources_by_type sd" "Prov p"]
  by (auto simp: resource_index_ok_def def_type_def append_by_type_new
      intro: append_by_type_keeps split: if_splits)

lemma index_add_resources: "resource_index_ok sd \<Longrightarrow> resource_index_ok (fold add_resource_item rs sd)"
  by (induction rs arbitrary: sd) (auto intro: index_add_resource)

definition keeps_index :: "(string \<Rightarrow> static_definitions \<Rightarrow> static_definitions result) \<Rightarrow> bool" where
  "keeps_index dynamic \<longleftrightarrow> (\<forall>m sd sd'. resource_index_ok sd \<and> dynamic m sd = Inr sd' \<longrightarrow> resource_index_ok sd')"

lemma index_add_object:
  assumes "resource_index_ok sd" and "keeps_index dynamic" and "add_object dynamic obj sd = Inr sd'"
  shows "resource_index_ok sd'"
proof (cases obj)
  case (ResourceObj md sp)
  with assms show ?thesis by (auto simp: add_object_def intro: index_add_resources)
next
  case (ResourcesProviderObj md sp)
  with assms show ?thesis
    by (auto simp: add_object_def Let_def intro: index_add_provider)
next
  case (DynamicTopology md m)
  with assms show ?thesis by (auto simp: add_object_def keeps_index_def)
qed (use assms in \<open>auto simp: add_object_def resource_index_ok_def rbind_Inr_iff\<close>)

lemma index_add_all:
  "add_all decode dynamic us sd = Inr sd' \<Longrightarrow> keeps_index dynamic \<Longrightarrow> resource_index_ok sd \<Longrightarrow> resource_index_ok sd'"
proof (induction us arbitrary: sd)
  case (Cons u us)
  then obtain obj where obj: "decode (uo_kind u) (uo_data u) = Inr obj" by (auto simp: rbind_Inr_iff)
  have ok: "add_object dynamic obj sd = Inr s1 \<Longrightarrow> resource_index_ok s1" for s1
    using Cons.prems index_add_object by blast
  show ?case
  proof (cases "uo_kind u = dynamic_topology_kind")
    case True
    with Cons obj ok show ?thesis by (cases "add_object dynamic obj sd") auto
  next
    case False
    with Cons obj ok show ?thesis by (cases "add_object dynamic obj sd") auto
  qed
qed simp

text \<open>
  In compiled definitions every resource and provider is found under its own type, and the
  index lists under a type only resources and providers of that type.
\<close>

theorem compile_indexes_resources:
  assumes "compile_static_definitions decode dynamic objs patches = Inr sd" and "keeps_index dynamic"
  shows "resource_index_ok sd"
proof -
  have "resource_index_ok empty_definitions"
    by (simp add: resource_index_ok_def empty_definitions_def dget_or_def)
  then show ?thesis using compile_parts(2) [OF assms(1)] index_add_all assms(2) by blast
qed

definition demo_resource :: uncompiled_object where
  "demo_resource = \<lparr>uo_api_version = ''v1'', uo_kind = ''DatalineupResource'', uo_name = ''r'', uo_data = PNone\<rparr>"

definition demo_decode :: "string \<Rightarrow> pyval \<Rightarrow> base_object result" where
  "demo_decode k d = Inr (ResourceObj \<lparr>md_name = ''r'', md_labels = []\<rparr>
     \<lparr>rs_type = ''t'', rs_data = [], rs_default_delay = 0, rs_rate_limit = None, rs_concurrency = 1\<rparr>)"

lemma demo_compiles: "\<exists>sd. compile_static_definitions demo_decode (\<lambda>_ sd. Inr sd) [demo_resource] [] = Inr sd"
  by (simp add: compile_static_definitions_def merge_with_patches_def kinds_in_order_def demo_resource_def
      demo_decode_def dynamic_topology_kind_def add_object_def)

lemma compile_rejects_duplicates_witness:
  "\<exists>sd. compile_static_definitions demo_decode (\<lambda>_ sd. Inr sd) [demo_resource] [] = Inr sd \<and>
    uo_kind demo_resource \<in> set kinds_in_order"
proof -
  obtain sd where sd: "compile_static_definitions demo_decode (\<lambda>_ sd. Inr sd) [demo_resource] [] = Inr sd"
    using demo_compiles by blast
  from compile_rejects_duplicates [OF sd] sd show ?thesis by simp
qed

lemma compile_indexes_resources_witness:
  "\<exists>sd. compile_static_definitions demo_decode (\<lambda>_ sd. Inr sd) [demo_resource] [] = Inr sd \<and> resource_index_ok sd"
proof -
  obtain sd where sd: "compile_static_definitions demo_decode (\<lambda>_ sd. Inr sd) [demo_resource] [] = Inr sd"
    using demo_compiles by blast
  have "keeps_index (\<lambda>_ sd. Inr sd)" by (simp add: keeps_index_def)
  from compile_indexes_resources [OF sd this] sd show ?thesis by blast
qed

section \<open>Names\<close>

lemma queue_item_name_inj: "queue_item_name n a = queue_item_name n b \<Longrightarrow> a = b"
  by (auto simp: queue_item_name_def split: if_splits)

lemma job_queue_items_names:
  assumes "job_queue_items sd name labels sp = Inr items" and "wfd (js_inputs sp)"
  shows "map qi_name items = map (queue_item_name name) (dkeys (job_inputs sp)) \<and> distinct (map qi_name items)"
proof -
  define f where "f = (\<lambda>(input_name, i).
        rbind (job_input_object sd i) (\<lambda>inp. rbind (job_outputs sd sp) (\<lambda>outs.
        Inr \<lparr>qi_name = queue_item_name name input_name,
             qi_pipeline = \<lparr>qp_info = js_pipeline sp, qp_args = []\<rparr>,
             qi_output = outs, qi_input = inp, qi_config = js_config sp,
             qi_labels = dor [(''internal.job-definition-name'', name)] labels,
             qi_executor = js_executor sp\<rparr>)))"
  have "mapM f (job_inputs sp) = Inr items"
    using assms(1) by (simp add: job_queue_items_def f_def split: if_splits)
  then have all: "list_all2 (\<lambda>x y. f x = Inr y) (job_inputs sp) items" by (simp add: mapM_Inr_iff)
  have name: "f x = Inr y \<Longrightarrow> qi_name y = queue_item_name name (fst x)" for x y
    by (auto simp: f_def rbind_Inr_iff split: prod.splits)
  from all have names: "map qi_name items = map (queue_item_name name) (dkeys (job_inputs sp))"
    by (induction rule: list_all2_induct) (auto dest: name)
  moreover have "distinct (dkeys (job_inputs sp))"
    using assms(2) wfd_dset [OF assms(2)] by (auto simp: job_inputs_def wfd_def split: option.splits)
  then have "distinct (map (queue_item_name name) (dkeys (job_inputs sp)))"
    by (auto simp: distinct_map inj_on_def dest: queue_item_name_inj)
  ultimately show ?thesis by simp
qed

text \<open>A resource with concurrency \<open>n\<close> is \<open>n\<close> instances with different names, all of its type.\<close>

lemma resource_instances_spec:
  "length (resource_instances md sp) = nat (rs_concurrency sp) \<and>
   distinct (map ri_name (resource_instances md sp)) \<and>
   (\<forall>r \<in> set (resource_instances md sp). ri_type r = rs_type sp)"
proof -
  have "distinct (map ri_name (resource_instances md sp))"
  proof (cases "rs_concurrency sp > 1")
    case True
    then have "map ri_name (resource_instances md sp) = map (\<lambda>i. md_name md @ ''-'' @ int_str i) [1..rs_concurrency sp]"
      by (simp add: resource_instances_def Let_def)
    then show ?thesis by (simp add: distinct_map inj_on_def int_str_inj)
  next
    case False
    then have "rs_concurrency sp = 1 \<or> rs_concurrency sp < 1" by linarith
    then show ?thesis by (auto simp: resource_instances_def)
  qed
  then show ?thesis by (auto simp: resource_instances_def Let_def resource_of_def)
qed

end
