(* ===== verification/Manager_Db.thy ===== *)
theory Manager_Db
  imports Definitions
begin

text \<open>
  The worker manager's database and its stores: \<open>models/job.py\<close>, \<open>models/queue.py\<close>,
  \<open>stores/jobs_store.py\<close> and \<open>stores/queues_store.py\<close>.

  A table is a list of rows; a primary key that is inserted twice, and the check constraint
  that a job with an error is completed, are errors of the statement. An update of a row that
  does not exist changes nothing. Clock readings are arguments. The order in which a query
  without \<open>ORDER BY\<close> returns its rows is an argument where it matters (\<open>arrange\<close>).
\<close>

section \<open>Tables\<close>

record queue_row =
  qr_name :: string
  qr_assigned_at :: "time option"
  qr_assigned_to :: "string option"
  qr_enabled :: bool

record job_row =
  jr_name :: string
  jr_cursor :: "string option"
  jr_completed_at :: "time option"
  jr_started_at :: time
  jr_queue_name :: string
  jr_error :: "string option"
  jr_definition :: "string option"

record db =
  db_queues :: "queue_row list"
  db_jobs :: "job_row list"
  db_cursors :: "(string \<times> string, pyval) pydict"

definition integrity_error :: exn where
  "integrity_error = PlainException ''IntegrityError''"

definition job_row_ok :: "job_row \<Rightarrow> bool" where
  "job_row_ok j \<longleftrightarrow> jr_error j = None \<or> jr_completed_at j \<noteq> None"

definition db_ok :: "db \<Rightarrow> bool" where
  "db_ok d \<longleftrightarrow> distinct (map qr_name (db_queues d)) \<and> distinct (map jr_name (db_jobs d)) \<and>
     list_all job_row_ok (db_jobs d)"

definition queue_row_of :: "string \<Rightarrow> db \<Rightarrow> queue_row option" where
  "queue_row_of n d = find (\<lambda>q. qr_name q = n) (db_queues d)"

definition get_job :: "string \<Rightarrow> db \<Rightarrow> job_row option" where
  "get_job n d = find (\<lambda>j. jr_name j = n) (db_jobs d)"

text \<open>The relationship \<open>Queue.job\<close>.\<close>

definition job_of_queue :: "string \<Rightarrow> db \<Rightarrow> job_row option" where
  "job_of_queue qn d = find (\<lambda>j. jr_queue_name j = qn) (db_jobs d)"

definition update_queue :: "(queue_row \<Rightarrow> queue_row) \<Rightarrow> string \<Rightarrow> db \<Rightarrow> db" where
  "update_queue f n d = d\<lparr>db_queues := map (\<lambda>q. if qr_name q = n then f q else q) (db_queues d)\<rparr>"

section \<open>Queues store\<close>

definition create_queue :: "string \<Rightarrow> db \<Rightarrow> db result" where
  "create_queue n d =
     (if queue_row_of n d \<noteq> None then Inl integrity_error
      else Inr (d\<lparr>db_queues := db_queues d @
        [\<lparr>qr_name = n, qr_assigned_at = None, qr_assigned_to = None, qr_enabled = True\<rparr>]\<rparr>))"

text \<open>\<open>rmatch selector name\<close> is the database's regular expression match.\<close>

definition selected :: "(string \<Rightarrow> string \<Rightarrow> bool) \<Rightarrow> string option \<Rightarrow> queue_row \<Rightarrow> bool" where
  "selected rmatch selector q = (if struthy selector then rmatch (the selector) (qr_name q) else True)"

definition get_assigned_queues ::
  "(string \<Rightarrow> string \<Rightarrow> bool) \<Rightarrow> string \<Rightarrow> time \<Rightarrow> string option \<Rightarrow> db \<Rightarrow> queue_row list" where
  "get_assigned_queues rmatch worker assigned_after selector d =
     sort_key qr_name (filter (\<lambda>q. qr_enabled q \<and> qr_assigned_to q = Some worker \<and>
       (case qr_assigned_at q of None \<Rightarrow> False | Some t \<Rightarrow> t \<ge> assigned_after) \<and> selected rmatch selector q)
       (db_queues d))"

definition get_unassigned_queues ::
  "(string \<Rightarrow> string \<Rightarrow> bool) \<Rightarrow> (queue_row list \<Rightarrow> queue_row list) \<Rightarrow> time \<Rightarrow> string option \<Rightarrow> nat option \<Rightarrow>
     db \<Rightarrow> queue_row list" where
  "get_unassigned_queues rmatch arrange assigned_before selector limit d =
     (let rows = arrange (filter (\<lambda>q. qr_enabled q \<and>
            (case qr_assigned_at q of None \<Rightarrow> True | Some t \<Rightarrow> t < assigned_before) \<and> selected rmatch selector q)
            (db_queues d))
      in case limit of Some n \<Rightarrow> if n = 0 then rows else take n rows | None \<Rightarrow> rows)"

definition disable_queue :: "string \<Rightarrow> db \<Rightarrow> db" where
  "disable_queue n d = update_queue (\<lambda>q. q\<lparr>qr_enabled := False\<rparr>) n d"

section \<open>Jobs store\<close>

definition create_job :: "string \<Rightarrow> string \<Rightarrow> string option \<Rightarrow> time \<Rightarrow> db \<Rightarrow> db result" where
  "create_job n queue_name def_name now d =
     (if get_job n d \<noteq> None then Inl integrity_error
      else Inr (d\<lparr>db_jobs := db_jobs d @
        [\<lparr>jr_name = n, jr_cursor = None, jr_completed_at = None, jr_started_at = now,
          jr_queue_name = queue_name, jr_error = None, jr_definition = def_name\<rparr>]\<rparr>))"

text \<open>\<open>ORDER BY started_at DESC\<close>, the first row.\<close>

definition get_last_job :: "string \<Rightarrow> db \<Rightarrow> job_row option" where
  "get_last_job def_name d =
     (case sort_key (\<lambda>j. - jr_started_at j) (filter (\<lambda>j. jr_definition j = Some def_name) (db_jobs d)) of
        [] \<Rightarrow> None | j # _ \<Rightarrow> Some j)"

text \<open>A statement that would break the check constraint of one of its rows fails.\<close>

definition update_job_row :: "(job_row \<Rightarrow> job_row) \<Rightarrow> string \<Rightarrow> db \<Rightarrow> db result" where
  "update_job_row f n d =
     (let js = map (\<lambda>j. if jr_name j = n then f j else j) (db_jobs d)
      in if list_all job_row_ok js then Inr (d\<lparr>db_jobs := js\<rparr>) else Inl integrity_error)"

definition set_truthy :: "string option \<Rightarrow> string option \<Rightarrow> string option" where
  "set_truthy new old = (if struthy new then new else old)"

definition update_values :: "string option \<Rightarrow> time option \<Rightarrow> string option \<Rightarrow> job_row \<Rightarrow> job_row" where
  "update_values cursor completed_at error j = j\<lparr>
     jr_cursor := set_truthy cursor (jr_cursor j),
     jr_completed_at := (case completed_at of None \<Rightarrow> jr_completed_at j | Some t \<Rightarrow> Some t),
     jr_error := set_truthy error (jr_error j)\<rparr>"

definition close_job_queue :: "string \<Rightarrow> time option \<Rightarrow> db \<Rightarrow> db result" where
  "close_job_queue n completed_at d =
     (case completed_at of
        None \<Rightarrow> Inr d
      | Some _ \<Rightarrow>
          (case get_job n d of
             None \<Rightarrow> Inl (PlainException ''Updating unknown job'')
           | Some j \<Rightarrow> Inr (disable_queue (jr_queue_name j) d)))"

definition update_job ::
  "string \<Rightarrow> string option \<Rightarrow> time option \<Rightarrow> string option \<Rightarrow> db \<Rightarrow> db result" where
  "update_job n cursor completed_at error d =
     rbind (close_job_queue n completed_at d) (\<lambda>d1.
       if \<not> struthy cursor \<and> completed_at = None \<and> \<not> struthy error then Inr d1
       else update_job_row (update_values cursor completed_at error) n d1)"

definition set_failed :: "string \<Rightarrow> string \<Rightarrow> time \<Rightarrow> db \<Rightarrow> db result" where
  "set_failed n error utcnow d = update_job n None (Some utcnow) (Some error) d"

text \<open>The check of \<open>PUT /api/jobs/<name>\<close>.\<close>

definition api_update_job :: "string \<Rightarrow> job_input \<Rightarrow> db \<Rightarrow> db result" where
  "api_update_job n i d =
     (if struthy (ji_error i) \<and> ji_completed_at i = None
      then Inl (PlainException ''CANNOT_ERROR_UNCOMPLETED_JOB'')
      else update_job n (ji_cursor i) (ji_completed_at i) (ji_error i) d)"

section \<open>Cursors states\<close>

definition namespace_of :: "db \<Rightarrow> string \<Rightarrow> string" where
  "namespace_of d job_id =
     (case get_job job_id d of
        None \<Rightarrow> job_id
      | Some j \<Rightarrow> (case jr_definition j of Some s \<Rightarrow> if s \<noteq> [] then s else job_id | None \<Rightarrow> job_id))"

definition cursor_rows :: "db \<Rightarrow> jobs_states \<Rightarrow> ((string \<times> string) \<times> pyval) list" where
  "cursor_rows d st =
     concat (map (\<lambda>(job_id, js). map (\<lambda>(c, s). ((namespace_of d job_id, c), PDict s)) (js_cursors_states js)) st)"

text \<open>The values written for one job, and the bulk updates of jobs and queues.\<close>

definition sync_job_row :: "job_state \<Rightarrow> job_row \<Rightarrow> job_row" where
  "sync_job_row js j =
     (let j1 = (if struthy (js_cursor js) then j\<lparr>jr_cursor := js_cursor js\<rparr> else j)
      in case js_completion js of
           None \<Rightarrow> j1
         | Some c \<Rightarrow> j1\<lparr>jr_completed_at := Some (jc_completed_at c),
                        jr_error := (case jc_error c of None \<Rightarrow> jr_error j1 | Some e \<Rightarrow> Some e)\<rparr>)"

definition sync_jobs_states :: "jobs_states \<Rightarrow> db \<Rightarrow> db" where
  "sync_jobs_states st d =
     (let d1 = d\<lparr>db_cursors := fold (\<lambda>(k, v). dset k v) (cursor_rows d st) (db_cursors d)\<rparr>;
          d2 = d1\<lparr>db_jobs := map (\<lambda>j. case dget st (jr_name j) of None \<Rightarrow> j | Some js \<Rightarrow> sync_job_row js j) (db_jobs d1)\<rparr>
      in fold (\<lambda>(job_id, js). if js_completion js = None then id else disable_queue job_id) st d2)"

definition fetch_cursors_states ::
  "(string, string list) pydict \<Rightarrow> db \<Rightarrow> (string, (string, pyval option) pydict) pydict" where
  "fetch_cursors_states query d =
     map (\<lambda>(job, cursors). (job, map (\<lambda>c. (c, dget (db_cursors d) (namespace_of d job, c))) cursors)) query"

section \<open>Starting a job by hand\<close>

definition ticks_per_second :: time where
  "ticks_per_second = 1000000"

definition job_name_at :: "string \<Rightarrow> time \<Rightarrow> string" where
  "job_name_at n t = n @ ''-'' @ int_str (t div ticks_per_second)"

text \<open>What is to be started: the queue item, the job that ran it last, the definition's name.\<close>

definition start_target ::
  "start_job_input \<Rightarrow> static_definitions \<Rightarrow> db \<Rightarrow> queue_item option \<times> job_row option \<times> string option" where
  "start_target inp sd d =
     (let by_name = (if struthy (sj_name inp) then dget (sd_jobs sd) (the (sj_name inp)) else None);
          job0 = (if struthy (sj_name inp) \<and> by_name = None then get_job (the (sj_name inp)) d else None);
          def_name = (case job0 of None \<Rightarrow> sj_job_definition_name inp | Some j \<Rightarrow> jr_definition j);
          definition = (if struthy def_name then dget (sd_job_definitions sd) (the def_name) else None)
      in case definition of
           None \<Rightarrow> (by_name, job0, def_name)
         | Some jd \<Rightarrow>
             (Some (jd_template jd),
              (case job0 of None \<Rightarrow> get_last_job (the def_name) d | Some j \<Rightarrow> Some j), def_name))"

definition cancel_running :: "job_row option \<Rightarrow> bool \<Rightarrow> time \<Rightarrow> db \<Rightarrow> db result" where
  "cancel_running job restart now d =
     (case job of
        None \<Rightarrow> Inr d
      | Some j \<Rightarrow>
          if jr_completed_at j \<noteq> None then Inr d
          else if restart then update_job (jr_name j) None (Some now) (Some ''Cancelled'') d
          else Inl (ValueError ''Job already started.''))"

definition start ::
  "start_job_input \<Rightarrow> static_definitions \<Rightarrow> bool \<Rightarrow> time \<Rightarrow> db \<Rightarrow> (string \<times> db) result" where
  "start inp sd restart now d =
     (case start_target inp sd d of
        (None, _, _) \<Rightarrow> Inl (ValueError ''Job not Found.'')
      | (Some q, job, def_name) \<Rightarrow>
          rbind (cancel_running job restart now d) (\<lambda>d1.
          let n = job_name_at (qi_name q) now
          in rbind (create_queue n d1) (\<lambda>d2.
             rbind (create_job n n def_name now d2) (\<lambda>d3. Inr (n, d3)))))"

text \<open>The checks of \<open>POST /api/jobs/_start\<close>.\<close>

definition api_start_job ::
  "start_job_input \<Rightarrow> static_definitions \<Rightarrow> bool \<Rightarrow> time \<Rightarrow> db \<Rightarrow> (string \<times> db) result" where
  "api_start_job inp sd restart now d =
     (if \<not> struthy (sj_name inp) \<and> \<not> struthy (sj_job_definition_name inp)
      then Inl (PlainException ''MUST_SPECIFY_JOB'')
      else if struthy (sj_name inp) \<and> struthy (sj_job_definition_name inp)
      then Inl (PlainException ''MUST_SPECIFY_ONE_JOB'')
      else start inp sd restart now d)"

section \<open>Joining definitions\<close>

definition queue_item_state_of :: "job_row \<Rightarrow> queue_item_state" where
  "queue_item_state_of j =
     \<lparr>qs_cursor = (if struthy (jr_cursor j) then jr_cursor j else None), qs_started_at = jr_started_at j\<rparr>"

definition join_definitions :: "static_definitions \<Rightarrow> db \<Rightarrow> string \<Rightarrow> queue_item_with_state result" where
  "join_definitions sd d qname =
     (case job_of_queue qname d of
        None \<Rightarrow> Inl (NotImplementedError ''Only support Job queue'')
      | Some j \<Rightarrow>
          rbind (case jr_definition j of
                   None \<Rightarrow> lookup (sd_jobs sd) (jr_name j)
                 | Some dn \<Rightarrow> rbind (lookup (sd_job_definitions sd) dn) (\<lambda>jd. Inr (jd_template jd))) (\<lambda>q.
            Inr (with_state (q\<lparr>qi_name := qname\<rparr>) (queue_item_state_of j))))"

lemma join_definitions_name: "join_definitions sd d qname = Inr q \<Longrightarrow> qi_name q = qname"
  by (auto simp: join_definitions_def rbind_Inr_iff split: option.splits)

section \<open>Well-formedness is preserved\<close>

lemma find_None_map: "find (\<lambda>x. f x = n) xs = None \<longleftrightarrow> n \<notin> f ` set xs"
  by (auto simp: find_None_iff)

lemma update_queue_names [simp]:
  "(\<And>q. qr_name (f q) = qr_name q) \<Longrightarrow> map qr_name (db_queues (update_queue f n d)) = map qr_name (db_queues d)"
  "db_jobs (update_queue f n d) = db_jobs d" "db_cursors (update_queue f n d) = db_cursors d"
  by (auto simp: update_queue_def)

lemma db_ok_disable [simp]: "db_ok d \<Longrightarrow> db_ok (disable_queue n d)"
  by (simp add: db_ok_def disable_queue_def)

lemma db_ok_create_queue: "db_ok d \<Longrightarrow> create_queue n d = Inr d' \<Longrightarrow> db_ok d'"
  by (auto simp: create_queue_def db_ok_def queue_row_of_def find_None_map split: if_splits)

lemma db_ok_create_job: "db_ok d \<Longrightarrow> create_job n q dn now d = Inr d' \<Longrightarrow> db_ok d'"
  by (auto simp: create_job_def db_ok_def get_job_def find_None_map job_row_ok_def split: if_splits)

lemma db_ok_update_job_row:
  assumes "db_ok d" and "update_job_row f n d = Inr d'" and "\<And>j. jr_name (f j) = jr_name j"
  shows "db_ok d'"
proof -
  have "map jr_name (map (\<lambda>j. if jr_name j = n then f j else j) (db_jobs d)) = map jr_name (db_jobs d)"
    using assms(3) by simp
  then show ?thesis
    using assms(1,2) by (auto simp: update_job_row_def Let_def db_ok_def simp del: map_map split: if_splits)
qed

lemma db_ok_update_job:
  assumes "db_ok d" and "update_job n c t e d = Inr d'" shows "db_ok d'"
proof -
  obtain d1 where d1: "close_job_queue n t d = Inr d1"
    and u: "(if \<not> struthy c \<and> t = None \<and> \<not> struthy e then Inr d1
       else update_job_row (update_values c t e) n d1) = Inr d'"
    using assms(2) by (auto simp: update_job_def rbind_Inr_iff)
  have ok: "db_ok d1" using d1 assms(1) by (auto simp: close_job_queue_def split: option.splits)
  show ?thesis
  proof (cases "\<not> struthy c \<and> t = None \<and> \<not> struthy e")
    case False
    with u have "update_job_row (update_values c t e) n d1 = Inr d'" by (simp only: if_False)
    then show ?thesis by (rule db_ok_update_job_row [OF ok]) (simp add: update_values_def)
  qed (use u ok in simp)
qed

lemma db_ok_start:
  assumes "db_ok d" and "start inp sd restart now d = Inr (n, d')" shows "db_ok d'"
proof -
  obtain q job dn where t: "start_target inp sd d = (Some q, job, dn)"
    using assms(2) by (auto simp: start_def split: prod.splits option.splits)
  with assms(2) obtain d1 d2 where "cancel_running job restart now d = Inr d1"
    and d2: "create_queue n d1 = Inr d2" "create_job n n dn now d2 = Inr d'"
    by (auto simp: start_def Let_def rbind_Inr_iff)
  then have "db_ok d1"
    using assms(1) db_ok_update_job by (auto simp: cancel_running_def split: option.splits if_splits)
  with d2 show ?thesis using db_ok_create_queue db_ok_create_job by blast
qed

lemma fold_disable:
  "db_jobs (fold (\<lambda>(i, js). if js_completion js = None then id else disable_queue i) st d) = db_jobs d \<and>
   db_cursors (fold (\<lambda>(i, js). if js_completion js = None then id else disable_queue i) st d) = db_cursors d \<and>
   map qr_name (db_queues (fold (\<lambda>(i, js). if js_completion js = None then id else disable_queue i) st d))
     = map qr_name (db_queues d)"
  by (induction st arbitrary: d) (auto simp: disable_queue_def)

lemma sync_job_row_ok: "job_row_ok j \<Longrightarrow> job_row_ok (sync_job_row js j) \<and> jr_name (sync_job_row js j) = jr_name j"
  by (auto simp: sync_job_row_def job_row_ok_def Let_def split: option.splits)

lemma db_ok_sync_states:
  assumes "db_ok d" shows "db_ok (sync_jobs_states st d)"
proof -
  let ?f = "\<lambda>j. case dget st (jr_name j) of None \<Rightarrow> j | Some js \<Rightarrow> sync_job_row js j"
  have "job_row_ok j \<Longrightarrow> job_row_ok (?f j) \<and> jr_name (?f j) = jr_name j" for j
    using sync_job_row_ok by (cases "dget st (jr_name j)") auto
  then have "list_all job_row_ok (map ?f (db_jobs d))" "map jr_name (map ?f (db_jobs d)) = map jr_name (db_jobs d)"
    using assms by (auto simp: db_ok_def list_all_iff)
  then show ?thesis
    using assms unfolding db_ok_def sync_jobs_states_def Let_def by (simp add: fold_disable del: map_map)
qed

section \<open>Cursors states are kept\<close>

lemma fold_dset_last:
  "dget (fold (\<lambda>(k, v). dset k v) kvs d) k = (case dget (rev kvs) k of None \<Rightarrow> dget d k | Some v \<Rightarrow> Some v)"
proof (induction kvs arbitrary: d)
  case (Cons p kvs)
  obtain k' v' where p: "p = (k', v')" by (cases p)
  show ?case by (auto simp: p Cons.IH map_add_def split: option.splits)
qed simp

lemma db_cursors_sync:
  "dget (db_cursors (sync_jobs_states st d)) k =
     (case dget (rev (cursor_rows d st)) k of None \<Rightarrow> dget (db_cursors d) k | Some v \<Rightarrow> Some v)"
  by (simp add: sync_jobs_states_def Let_def fold_disable fold_dset_last)

lemma namespace_of_sync [simp]: "namespace_of (sync_jobs_states st d) job = namespace_of d job"
proof -
  let ?f = "\<lambda>j. case dget st (jr_name j) of None \<Rightarrow> j | Some js \<Rightarrow> sync_job_row js j"
  have keep: "jr_name (?f j) = jr_name j \<and> jr_definition (?f j) = jr_definition j" for j
    by (auto simp: sync_job_row_def Let_def split: option.splits)
  have "map_option jr_definition (find (\<lambda>j. jr_name j = job) (map ?f js))
      = map_option jr_definition (find (\<lambda>j. jr_name j = job) js)" for js
    by (induction js) (use keep in auto)
  then have "map_option jr_definition (get_job job (sync_jobs_states st d)) = map_option jr_definition (get_job job d)"
    by (simp add: get_job_def sync_jobs_states_def Let_def fold_disable)
  then show ?thesis by (auto simp: namespace_of_def split: option.splits)
qed

text \<open>
  States written by \<open>sync_jobs_states\<close> are what a later fetch returns: for a job and a cursor
  the state last written under the job's namespace, and otherwise what was stored before. Jobs
  of the same definition share their cursors' states.
\<close>

theorem fetch_after_sync:
  "fetch_cursors_states [(job, [c])] (sync_jobs_states st d) =
     [(job, [(c, case dget (rev (cursor_rows d st)) (namespace_of d job, c) of
                   None \<Rightarrow> dget (db_cursors d) (namespace_of d job, c)
                 | Some v \<Rightarrow> Some v)])]"
  by (simp add: fetch_cursors_states_def db_cursors_sync cong: option.case_cong)

section \<open>Starting a static job\<close>

text \<open>
  A job of \<open>static_definitions.jobs\<close> started by name gets a name with the time appended and no
  definition name, so its definition is looked up under a name that does not exist.
\<close>

lemma started_static_job_cannot_join:
  assumes "dget (sd_jobs sd) n = Some q" and "n \<noteq> []" and "db_ok d"
    and "start \<lparr>sj_name = Some n, sj_job_definition_name = None\<rparr> sd restart now d = Inr (n', d')"
    and "dget (sd_jobs sd) n' = None" and "job_of_queue n' d = None"
  shows "join_definitions sd d' n' = Inl (KeyError n')"
proof -
  have "start_target \<lparr>sj_name = Some n, sj_job_definition_name = None\<rparr> sd d = (Some q, None, None)"
    using assms(1,2) by (simp add: start_target_def Let_def)
  then obtain d2 where "create_queue n' d = Inr d2" "create_job n' n' None now d2 = Inr d'"
    using assms(4) by (auto simp: start_def cancel_running_def Let_def rbind_Inr_iff)
  then have "db_jobs d' = db_jobs d @ [\<lparr>jr_name = n', jr_cursor = None, jr_completed_at = None,
      jr_started_at = now, jr_queue_name = n', jr_error = None, jr_definition = None\<rparr>]"
    by (auto simp: create_queue_def create_job_def split: if_splits)
  moreover have "find P (xs @ [x]) = (if find P xs = None then (if P x then Some x else None) else find P xs)"
    for P xs and x :: job_row by (induction xs) auto
  ultimately have "\<exists>j. job_of_queue n' d' = Some j \<and> jr_definition j = None \<and> jr_name j = n'"
    using assms(6) by (simp add: job_of_queue_def)
  then show ?thesis using assms(5) by (auto simp: join_definitions_def lookup_def)
qed

end
