(* ===== verification/Lock_Service.thy ===== *)
theory Lock_Service
  imports Manager_Db "HOL-Library.Multiset" "HOL-Library.Sublist"
begin

text \<open>
  \<open>worker_manager/services/lock.py\<close>: how the queues are given to workers.

  A queue is identified by its primary key, so the list \<open>assigned_items\<close> of the code is a list
  of names here and the attributes of the row are read from and written to the table.
  \<open>rmatch\<close> and \<open>arrange\<close> are the database's regular expressions and row order, \<open>repr_exn\<close> is
  \<open>repr\<close> of an exception. \<open>now\<close> is the clock when the request starts and \<open>now'\<close> the clock when
  the assignments are refreshed.
\<close>

section \<open>Assigned and new queues\<close>

definition lock_expiration :: time where
  "lock_expiration = 15 * 60 * ticks_per_second"

definition unassign :: "string \<Rightarrow> db \<Rightarrow> db" where
  "unassign n = update_queue (\<lambda>q. q\<lparr>qr_assigned_at := None, qr_assigned_to := None\<rparr>) n"

definition assign :: "string \<Rightarrow> time \<Rightarrow> string \<Rightarrow> db \<Rightarrow> db" where
  "assign worker now n = update_queue (\<lambda>q. q\<lparr>qr_assigned_at := Some now, qr_assigned_to := Some worker\<rparr>) n"

text \<open>\<open>lock_input.executors\<close> is tested for truth: \<open>None\<close> and the empty list select every executor.\<close>

definition executors_given :: "lock_input \<Rightarrow> bool" where
  "executors_given inp = (case li_executors inp of None \<Rightarrow> False | Some es \<Rightarrow> es \<noteq> [])"

definition executor_selected :: "lock_input \<Rightarrow> string \<Rightarrow> bool" where
  "executor_selected inp e = (\<not> executors_given inp \<or> e \<in> set (the (li_executors inp)))"

definition candidates ::
  "(string \<Rightarrow> string \<Rightarrow> bool) \<Rightarrow> (queue_row list \<Rightarrow> queue_row list) \<Rightarrow> lock_input \<Rightarrow> nat \<Rightarrow> time \<Rightarrow> db \<Rightarrow>
     string list \<times> db" where
  "candidates rmatch arrange inp max_items now d =
     (let cutoff = now - lock_expiration;
          mine = map qr_name (get_assigned_queues rmatch (li_worker_id inp) cutoff (li_selector inp) d);
          d1 = fold unassign (drop max_items mine) d;
          kept = take max_items mine
      in (if length kept < max_items
          then kept @ map qr_name (get_unassigned_queues rmatch arrange cutoff (li_selector inp)
                 (if executors_given inp then None else Some (max_items - length kept)) d1)
          else kept, d1))"

section \<open>Joining definitions\<close>

text \<open>An item whose definition cannot be joined is dropped, and its job is failed.\<close>

fun join_items ::
  "static_definitions \<Rightarrow> lock_input \<Rightarrow> (exn \<Rightarrow> string) \<Rightarrow> time \<Rightarrow> string list \<Rightarrow> db \<Rightarrow>
     (queue_item_with_state list \<times> db) result" where
  "join_items sd inp repr_exn now [] d = Inr ([], d)"
| "join_items sd inp repr_exn now (n # ns) d =
     (case join_definitions sd d n of
        Inr q \<Rightarrow>
          rbind (join_items sd inp repr_exn now ns d) (\<lambda>(qs, d').
            Inr (if executor_selected inp (qi_executor q) then q # qs else qs, d'))
      | Inl e \<Rightarrow>
          rbind (case job_of_queue n d of
                   None \<Rightarrow> Inr d
                 | Some j \<Rightarrow> set_failed (jr_name j) (repr_exn e) now d)
            (join_items sd inp repr_exn now ns))"

section \<open>Resources and executors\<close>

record collected =
  co_items :: "queue_item_with_state list"
  co_resources :: "(string, resource_item) pydict"
  co_providers :: "(string, resources_provider_item) pydict"
  co_executors :: "(string, component_definition) pydict"

definition add_def ::
  "resource_def \<Rightarrow> (string, resource_item) pydict \<times> (string, resources_provider_item) pydict \<Rightarrow>
     (string, resource_item) pydict \<times> (string, resources_provider_item) pydict" where
  "add_def r acc = (case r of
       Res i \<Rightarrow> (dset (ri_name i) i (fst acc), snd acc)
     | Prov p \<Rightarrow> (fst acc, dset (rpi_name p) p (snd acc)))"

text \<open>The resources of an item; \<open>None\<close> when one of its types has none.\<close>

fun item_resources ::
  "static_definitions \<Rightarrow> string list \<Rightarrow> (string, resource_item) pydict \<times> (string, resources_provider_item) pydict \<Rightarrow>
     ((string, resource_item) pydict \<times> (string, resources_provider_item) pydict) option" where
  "item_resources sd [] acc = Some acc"
| "item_resources sd (ty # tys) acc =
     (case dget (sd_resources_by_type sd) ty of
        None \<Rightarrow> None
      | Some rs \<Rightarrow> if rs = [] then None else item_resources sd tys (fold add_def rs acc))"

definition required_types :: "queue_item_with_state \<Rightarrow> string list" where
  "required_types q = dvalues (pi_resources (qp_info (qi_pipeline q)))"

definition collect_item :: "static_definitions \<Rightarrow> queue_item_with_state \<Rightarrow> collected \<Rightarrow> collected" where
  "collect_item sd q c =
     (case item_resources sd (required_types q) ([], []) of
        None \<Rightarrow> c
      | Some (rs, ps) \<Rightarrow>
          (let c1 = c\<lparr>co_resources := dor (co_resources c) rs, co_providers := dor (co_providers c) ps\<rparr>
           in case dget (sd_executors sd) (qi_executor q) of
                None \<Rightarrow> c1
              | Some e \<Rightarrow> c1\<lparr>co_items := co_items c @ [q],
                             co_executors := dsetdefault (cd_name e) e (co_executors c)\<rparr>))"

definition empty_collected :: collected where
  "empty_collected = \<lparr>co_items = [], co_resources = [], co_providers = [], co_executors = []\<rparr>"

definition collect_items :: "static_definitions \<Rightarrow> queue_item_with_state list \<Rightarrow> collected" where
  "collect_items sd qs = fold (collect_item sd) qs empty_collected"

definition lock_response_of :: "collected \<Rightarrow> lock_response" where
  "lock_response_of c =
     \<lparr>lr_items = co_items c,
      lr_resources = sort_key ri_name (dvalues (co_resources c)),
      lr_providers = sort_key rpi_name (dvalues (co_providers c)),
      lr_executors = sort_key cd_name (dvalues (co_executors c))\<rparr>"

definition lock_jobs ::
  "(string \<Rightarrow> string \<Rightarrow> bool) \<Rightarrow> (queue_row list \<Rightarrow> queue_row list) \<Rightarrow> (exn \<Rightarrow> string) \<Rightarrow> lock_input \<Rightarrow> nat \<Rightarrow>
     static_definitions \<Rightarrow> time \<Rightarrow> time \<Rightarrow> db \<Rightarrow> (lock_response \<times> db) result" where
  "lock_jobs rmatch arrange repr_exn inp max_items sd now now' d =
     (case candidates rmatch arrange inp max_items now d of
        (names, d1) \<Rightarrow>
          rbind (join_items sd inp repr_exn now names d1) (\<lambda>(qs, d2).
          let c = collect_items sd qs
          in Inr (lock_response_of c, fold (assign (li_worker_id inp) now') (map qi_name (co_items c)) d2)))"

section \<open>Rows\<close>

lemma update_queue_compose:
  "db_queues (fold (update_queue f) ns d) = map (\<lambda>q. fold (\<lambda>n q. if qr_name q = n then f q else q) ns q) (db_queues d)"
  by (induction ns arbitrary: d) (simp_all add: update_queue_def comp_def)

lemma fold_update_queue:
  assumes "\<And>q. qr_name (f q) = qr_name q" and "\<And>q. f (f q) = f q"
  shows "db_queues (fold (update_queue f) ns d) = map (\<lambda>q. if qr_name q \<in> set ns then f q else q) (db_queues d)"
proof -
  have "fold (\<lambda>n q. if qr_name q = n then f q else q) ns q = (if qr_name q \<in> set ns then f q else q)" for q
    by (induction ns arbitrary: q) (auto simp: assms)
  then show ?thesis by (simp add: update_queue_compose)
qed

lemma fold_update_queue_rest [simp]:
  "db_jobs (fold (update_queue f) ns d) = db_jobs d" "db_cursors (fold (update_queue f) ns d) = db_cursors d"
  by (induction ns arbitrary: d) auto

lemma fold_unassign:
  "db_queues (fold unassign ns d) = map (\<lambda>q. if qr_name q \<in> set ns
     then q\<lparr>qr_assigned_at := None, qr_assigned_to := None\<rparr> else q) (db_queues d)"
  "db_jobs (fold unassign ns d) = db_jobs d" "db_cursors (fold unassign ns d) = db_cursors d"
  using fold_update_queue [of "\<lambda>q. q\<lparr>qr_assigned_at := None, qr_assigned_to := None\<rparr>" ns d]
  by (simp_all add: unassign_def [abs_def])

lemma fold_assign:
  "db_queues (fold (assign w t) ns d) = map (\<lambda>q. if qr_name q \<in> set ns
     then q\<lparr>qr_assigned_at := Some t, qr_assigned_to := Some w\<rparr> else q) (db_queues d)"
  "db_jobs (fold (assign w t) ns d) = db_jobs d" "db_cursors (fold (assign w t) ns d) = db_cursors d"
  using fold_update_queue [of "\<lambda>q. q\<lparr>qr_assigned_at := Some t, qr_assigned_to := Some w\<rparr>" ns d]
  by (simp_all add: assign_def [abs_def])

text \<open>A row order permutes the rows of a query.\<close>

definition row_order :: "(queue_row list \<Rightarrow> queue_row list) \<Rightarrow> bool" where
  "row_order arrange \<longleftrightarrow> (\<forall>xs. mset (arrange xs) = mset xs)"

lemma row_order_set: "row_order arrange \<Longrightarrow> set (arrange xs) = set xs"
  unfolding row_order_def by (metis mset_eq_setD)

lemma set_unassigned:
  assumes "row_order arrange" and "q \<in> set (get_unassigned_queues rmatch arrange cutoff sel lim d)"
  shows "q \<in> set (db_queues d) \<and> qr_enabled q \<and> (\<forall>t. qr_assigned_at q = Some t \<longrightarrow> t < cutoff)"
proof -
  let ?rows = "arrange (filter (\<lambda>q. qr_enabled q \<and>
      (case qr_assigned_at q of None \<Rightarrow> True | Some t \<Rightarrow> t < cutoff) \<and> selected rmatch sel q) (db_queues d))"
  have limit: "set (case lim of Some n \<Rightarrow> if n = 0 then rows else take n rows | None \<Rightarrow> rows) \<subseteq> set rows" for rows
    by (cases lim) (auto dest: in_set_takeD)
  have "q \<in> set ?rows"
    by (rule subsetD [OF limit]) (rule assms(2) [unfolded get_unassigned_queues_def Let_def])
  then show ?thesis using row_order_set [OF assms(1)] by auto
qed

lemma candidates_alt:
  "candidates rmatch arrange inp m now d =
     (let mine = map qr_name (get_assigned_queues rmatch (li_worker_id inp) (now - lock_expiration) (li_selector inp) d)
      in if length mine < m
         then (mine @ map qr_name (get_unassigned_queues rmatch arrange (now - lock_expiration) (li_selector inp)
                 (if executors_given inp then None else Some (m - length mine)) d), d)
         else (take m mine, fold unassign (drop m mine) d))"
  by (simp add: candidates_def Let_def)

lemma unassign_names [simp]: "map qr_name (db_queues (fold unassign ns d)) = map qr_name (db_queues d)"
  by (simp add: fold_unassign)

lemma candidates_names:
  "candidates rmatch arrange inp m now d = (names, d1) \<Longrightarrow> map qr_name (db_queues d1) = map qr_name (db_queues d)"
  unfolding candidates_def Let_def by (drule arg_cong [where f = snd]) (metis snd_conv unassign_names)

lemma assign_names [simp]: "map qr_name (db_queues (fold (assign w t) ns d)) = map qr_name (db_queues d)"
  by (simp add: fold_assign)

text \<open>Every candidate is an enabled queue that is the worker's own or not validly assigned.\<close>

lemma candidates_free:
  assumes "row_order arrange" and "candidates rmatch arrange inp m now d = (names, d1)" and "n \<in> set names"
  shows "\<exists>q \<in> set (db_queues d). qr_name q = n \<and> qr_enabled q \<and>
    (qr_assigned_to q = Some (li_worker_id inp) \<or>
     (\<forall>t. qr_assigned_at q = Some t \<longrightarrow> t < now - lock_expiration))"
proof -
  let ?mine = "map qr_name (get_assigned_queues rmatch (li_worker_id inp) (now - lock_expiration) (li_selector inp) d)"
  let ?new = "\<lambda>lim. get_unassigned_queues rmatch arrange (now - lock_expiration) (li_selector inp) lim d"
  have "n \<in> set ?mine \<or> (\<exists>lim. n \<in> qr_name ` set (?new lim))"
    using assms(2,3) by (auto simp: candidates_alt Let_def split: if_splits dest: in_set_takeD)
  then show ?thesis
    using set_unassigned [OF assms(1)] by (fastforce simp: get_assigned_queues_def)
qed

section \<open>Joining and collecting\<close>

text \<open>The queues of \<open>d'\<close> are those of \<open>d\<close>, some of them disabled.\<close>

definition only_disabled :: "db \<Rightarrow> db \<Rightarrow> bool" where
  "only_disabled d d' \<longleftrightarrow> list_all2 (\<lambda>q q'. q' = q\<lparr>qr_enabled := qr_enabled q'\<rparr> \<and> (qr_enabled q' \<longrightarrow> qr_enabled q))
     (db_queues d) (db_queues d')"

lemma only_disabled_refl [simp, intro]: "only_disabled d d"
  by (auto simp: only_disabled_def intro!: list.rel_refl)

lemma only_disabled_trans:
  assumes "only_disabled a b" and "only_disabled b c" shows "only_disabled a c"
proof -
  let ?R = "\<lambda>q q' :: queue_row. q' = q\<lparr>qr_enabled := qr_enabled q'\<rparr> \<and> (qr_enabled q' \<longrightarrow> qr_enabled q)"
  have "list_all2 ?R (db_queues a) (db_queues b)" "list_all2 ?R (db_queues b) (db_queues c)"
    using assms by (simp_all add: only_disabled_def)
  moreover have "?R x z" if "?R x y" "?R y z" for x y z :: queue_row
    using that by (cases x; cases y; cases z) auto
  ultimately show ?thesis unfolding only_disabled_def by (rule list_all2_trans [rotated]) blast
qed

lemma only_disabled_row:
  assumes "only_disabled d d'" and "q' \<in> set (db_queues d')"
  shows "\<exists>q \<in> set (db_queues d). qr_name q' = qr_name q \<and> qr_assigned_to q' = qr_assigned_to q \<and>
    qr_assigned_at q' = qr_assigned_at q \<and> (qr_enabled q' \<longrightarrow> qr_enabled q)"
proof -
  obtain i where i: "i < length (db_queues d')" "q' = db_queues d' ! i"
    using assms(2) by (auto simp: in_set_conv_nth)
  let ?q = "db_queues d ! i"
  have "i < length (db_queues d)" and eq: "q' = ?q\<lparr>qr_enabled := qr_enabled q'\<rparr>" "qr_enabled q' \<longrightarrow> qr_enabled ?q"
    using assms(1) i by (auto simp: only_disabled_def list_all2_conv_all_nth)
  moreover have "qr_name q' = qr_name ?q" "qr_assigned_to q' = qr_assigned_to ?q" "qr_assigned_at q' = qr_assigned_at ?q"
    by (subst eq(1), simp)+
  ultimately show ?thesis by (metis nth_mem)
qed

lemma only_disabled_names:
  "only_disabled d d' \<Longrightarrow> map qr_name (db_queues d') = map qr_name (db_queues d)"
proof (unfold only_disabled_def, induction rule: list_all2_induct)
  case (Cons x xs y ys)
  then have "qr_name y = qr_name x" by (metis queue_row.select_convs(1) queue_row.surjective queue_row.update_convs(4))
  with Cons show ?case by simp
qed simp

lemma only_disabled_disable [intro]: "only_disabled d (disable_queue n d)"
  by (auto simp: only_disabled_def disable_queue_def update_queue_def list_all2_map2 intro!: list.rel_refl)

lemma only_disabled_jobs [simp]: "only_disabled d (d'\<lparr>db_jobs := js\<rparr>) = only_disabled d d'"
  "only_disabled d (d'\<lparr>db_cursors := cs\<rparr>) = only_disabled d d'"
  by (simp_all add: only_disabled_def)

lemma only_disabled_update_job: "update_job n c t e d = Inr d' \<Longrightarrow> only_disabled d d'"
  by (auto simp: update_job_def close_job_queue_def rbind_Inr_iff update_job_row_def Let_def
      split: option.splits if_splits)

lemma join_items_rows:
  "join_items sd inp repr_exn now ns d = Inr (qs, d') \<Longrightarrow> only_disabled d d'"
proof (induction ns arbitrary: d qs)
  case (Cons n ns)
  show ?case
  proof (cases "join_definitions sd d n")
    case (Inr q)
    with Cons show ?thesis by (auto simp: rbind_Inr_iff)
  next
    case (Inl e)
    with Cons.prems obtain d1 where d1: "(case job_of_queue n d of
        None \<Rightarrow> Inr d | Some j \<Rightarrow> set_failed (jr_name j) (repr_exn e) now d) = Inr d1"
      and r: "join_items sd inp repr_exn now ns d1 = Inr (qs, d')"
      by (auto simp: rbind_Inr_iff)
    have "only_disabled d d1"
      using d1 by (cases "job_of_queue n d") (auto simp: set_failed_def dest: only_disabled_update_job)
    from only_disabled_trans [OF this Cons.IH [OF r]] show ?thesis .
  qed
qed auto

lemma join_items_names:
  "join_items sd inp repr_exn now ns d = Inr (qs, d') \<Longrightarrow> subseq (map qi_name qs) ns"
proof (induction ns arbitrary: d qs)
  case (Cons n ns)
  show ?case
  proof (cases "join_definitions sd d n")
    case (Inr q)
    with Cons show ?thesis by (auto simp: rbind_Inr_iff split: if_splits dest: join_definitions_name)
  next
    case (Inl e)
    with Cons show ?thesis by (auto simp: rbind_Inr_iff)
  qed
qed simp

lemma collect_items_subseq: "subseq (co_items (collect_items sd qs)) qs"
proof -
  have "subseq (co_items (fold (collect_item sd) qs c)) (co_items c @ qs)" for c
  proof (induction qs arbitrary: c)
    case (Cons q qs)
    have "co_items (collect_item sd q c) = co_items c \<or> co_items (collect_item sd q c) = co_items c @ [q]"
      by (simp add: collect_item_def Let_def split: option.splits prod.splits)
    then have "subseq (co_items (collect_item sd q c) @ qs) (co_items c @ q # qs)"
    proof
      assume "co_items (collect_item sd q c) = co_items c"
      then show ?thesis by (simp add: list_emb_append_mono list_emb_Cons)
    qed simp
    with Cons.IH [of "collect_item sd q c"] show ?case
      by (metis fold_simps(2) subseq_order.order_trans)
  qed simp
  from this [of empty_collected] show ?thesis by (simp add: collect_items_def empty_collected_def)
qed

text \<open>The dicts of the collection are keyed by name.\<close>

definition keyed :: "('a \<Rightarrow> string) \<Rightarrow> (string, 'a) pydict \<Rightarrow> bool" where
  "keyed name d \<longleftrightarrow> (\<forall>(k, v) \<in> set d. name v = k)"

lemma keyed_dset: "keyed name d \<Longrightarrow> name v = k \<Longrightarrow> keyed name (dset k v d)"
  unfolding keyed_def dset_def by (induction d) auto

lemma keyed_dor: "keyed name a \<Longrightarrow> keyed name b \<Longrightarrow> keyed name (dor a b)"
proof (induction b arbitrary: a)
  case (Cons p b)
  obtain k v where p: "p = (k, v)" by (cases p)
  with Cons.prems have "keyed name b" "name v = k" by (auto simp: keyed_def)
  with Cons show ?case by (simp add: p dor_Cons keyed_dset)
qed simp

lemma keyed_Nil [simp]: "keyed name []"
  by (simp add: keyed_def)

lemma keyed_values: "keyed name d \<Longrightarrow> name ` set (dvalues d) = set (dkeys d)"
  unfolding keyed_def by (induction d) auto

definition has_defs ::
  "(string, resource_item) pydict \<times> (string, resources_provider_item) pydict \<Rightarrow> resource_def list \<Rightarrow> bool" where
  "has_defs acc rs \<longleftrightarrow> (\<forall>i. Res i \<in> set rs \<longrightarrow> ri_name i \<in> set (dkeys (fst acc))) \<and>
     (\<forall>p. Prov p \<in> set rs \<longrightarrow> rpi_name p \<in> set (dkeys (snd acc)))"

definition acc_keyed ::
  "(string, resource_item) pydict \<times> (string, resources_provider_item) pydict \<Rightarrow> bool" where
  "acc_keyed acc \<longleftrightarrow> keyed ri_name (fst acc) \<and> keyed rpi_name (snd acc)"

definition acc_le ::
  "(string, resource_item) pydict \<times> (string, resources_provider_item) pydict \<Rightarrow>
   (string, resource_item) pydict \<times> (string, resources_provider_item) pydict \<Rightarrow> bool" where
  "acc_le a b \<longleftrightarrow> set (dkeys (fst a)) \<subseteq> set (dkeys (fst b)) \<and> set (dkeys (snd a)) \<subseteq> set (dkeys (snd b))"

lemma acc_le_refl [simp]: "acc_le a a" by (simp add: acc_le_def)

lemma acc_le_trans [trans]: "acc_le a b \<Longrightarrow> acc_le b c \<Longrightarrow> acc_le a c"
  unfolding acc_le_def by (meson subset_trans)

lemma has_defs_mono: "has_defs a rs \<Longrightarrow> acc_le a b \<Longrightarrow> has_defs b rs"
  by (auto simp: has_defs_def acc_le_def)

lemma add_def_le: "acc_le acc (add_def r acc)"
  by (auto simp: add_def_def acc_le_def split: resource_def.splits)

lemma add_defs_spec:
  "acc_keyed acc \<Longrightarrow> acc_keyed (fold add_def rs acc) \<and> acc_le acc (fold add_def rs acc) \<and> has_defs (fold add_def rs acc) rs"
proof (induction rs arbitrary: acc)
  case Nil
  then show ?case by (simp add: has_defs_def)
next
  case (Cons r rs)
  have k: "acc_keyed (add_def r acc)"
    using Cons.prems by (auto simp: acc_keyed_def add_def_def keyed_dset split: resource_def.splits)
  have one: "has_defs (add_def r acc) [r]"
    by (auto simp: has_defs_def add_def_def split: resource_def.splits)
  note rest = Cons.IH [OF k]
  have "has_defs (fold add_def rs (add_def r acc)) [r]"
    using has_defs_mono [OF one] rest by blast
  then have "has_defs (fold add_def rs (add_def r acc)) (r # rs)"
    using rest by (auto simp: has_defs_def)
  moreover have "acc_le acc (fold add_def rs (add_def r acc))"
    using acc_le_trans [OF add_def_le] rest by blast
  ultimately show ?case using rest by simp
qed

lemma item_resources_spec:
  "item_resources sd tys acc = Some acc' \<Longrightarrow> acc_keyed acc \<Longrightarrow>
   acc_keyed acc' \<and> acc_le acc acc' \<and>
   (\<forall>ty \<in> set tys. \<exists>rs. dget (sd_resources_by_type sd) ty = Some rs \<and> rs \<noteq> [] \<and> has_defs acc' rs)"
proof (induction tys arbitrary: acc)
  case (Cons ty tys)
  then obtain rs where rs: "dget (sd_resources_by_type sd) ty = Some rs" "rs \<noteq> []"
    and rest: "item_resources sd tys (fold add_def rs acc) = Some acc'"
    by (auto split: option.splits if_splits)
  note one = add_defs_spec [OF Cons.prems(2), of rs]
  then have "acc_keyed (fold add_def rs acc)" by blast
  note IH = Cons.IH [OF rest this]
  then have "has_defs acc' rs" using one has_defs_mono by blast
  moreover have "acc_le acc acc'" using one IH acc_le_trans by blast
  ultimately show ?case using IH rs by auto
qed simp

text \<open>An item is served when its resources and its executor are among those collected.\<close>

definition served :: "static_definitions \<Rightarrow> collected \<Rightarrow> queue_item_with_state \<Rightarrow> bool" where
  "served sd c q \<longleftrightarrow>
     (\<forall>ty \<in> set (required_types q). \<exists>rs. dget (sd_resources_by_type sd) ty = Some rs \<and> rs \<noteq> [] \<and>
        has_defs (co_resources c, co_providers c) rs) \<and>
     (\<exists>e. dget (sd_executors sd) (qi_executor q) = Some e \<and> cd_name e \<in> set (dkeys (co_executors c)))"

definition collected_ok :: "static_definitions \<Rightarrow> collected \<Rightarrow> bool" where
  "collected_ok sd c \<longleftrightarrow> acc_keyed (co_resources c, co_providers c) \<and> keyed cd_name (co_executors c) \<and>
     (\<forall>q \<in> set (co_items c). served sd c q)"

lemma keyed_dsetdefault: "keyed name d \<Longrightarrow> name v = k \<Longrightarrow> keyed name (dsetdefault k v d)"
  by (simp add: dsetdefault_def keyed_dset)

lemma set_dkeys_dsetdefault: "set (dkeys (dsetdefault k v d)) = insert k (set (dkeys d))"
  by (auto simp: dsetdefault_def dhas_def)

lemma served_mono:
  "served sd c q \<Longrightarrow> acc_le (co_resources c, co_providers c) (co_resources c', co_providers c') \<Longrightarrow>
   set (dkeys (co_executors c)) \<subseteq> set (dkeys (co_executors c')) \<Longrightarrow> served sd c' q"
  unfolding served_def using has_defs_mono by blast

lemma collect_item_ok:
  assumes "collected_ok sd c" shows "collected_ok sd (collect_item sd q c)"
proof (cases "item_resources sd (required_types q) ([], [])")
  case None
  with assms show ?thesis by (simp add: collect_item_def)
next
  case (Some acc)
  obtain rs ps where acc: "acc = (rs, ps)" by (cases acc)
  note spec = item_resources_spec [OF Some [unfolded acc]]
  have k: "acc_keyed (rs, ps)" using spec by (simp add: acc_keyed_def)
  define c1 where "c1 = c\<lparr>co_resources := dor (co_resources c) rs, co_providers := dor (co_providers c) ps\<rparr>"
  have le: "acc_le (co_resources c, co_providers c) (co_resources c1, co_providers c1)"
    "acc_le (rs, ps) (co_resources c1, co_providers c1)"
    by (auto simp: c1_def acc_le_def set_dkeys_dor simp del: set_map)
  have k1: "acc_keyed (co_resources c1, co_providers c1)"
    using assms k by (simp add: c1_def collected_ok_def acc_keyed_def keyed_dor)
  have ex: "co_executors c1 = co_executors c" "co_items c1 = co_items c" by (simp_all add: c1_def)
  have ok1: "collected_ok sd c1"
    using assms k1 ex le(1) unfolding collected_ok_def by (metis order_refl served_mono)
  show ?thesis
  proof (cases "dget (sd_executors sd) (qi_executor q)")
    case None
    with Some acc ok1 show ?thesis by (simp add: collect_item_def c1_def)
  next
    case (Some e)
    define c2 where "c2 = c1\<lparr>co_items := co_items c1 @ [q], co_executors := dsetdefault (cd_name e) e (co_executors c1)\<rparr>"
    have eq: "collect_item sd q c = c2"
      using \<open>item_resources _ _ _ = _\<close> acc Some by (simp add: collect_item_def c2_def c1_def)
    have sub: "set (dkeys (co_executors c1)) \<subseteq> set (dkeys (co_executors c2))"
      by (simp add: c2_def set_dkeys_dsetdefault subset_insertI del: set_map)
    have same: "co_resources c2 = co_resources c1" "co_providers c2 = co_providers c1" by (simp_all add: c2_def)
    have "served sd c2 q"
      unfolding served_def same
    proof (intro conjI ballI)
      fix ty assume "ty \<in> set (required_types q)"
      with spec have "\<exists>rs'. dget (sd_resources_by_type sd) ty = Some rs' \<and> rs' \<noteq> [] \<and> has_defs (rs, ps) rs'"
        by (simp add: acc_keyed_def)
      with has_defs_mono le(2) show "\<exists>rs'. dget (sd_resources_by_type sd) ty = Some rs' \<and> rs' \<noteq> [] \<and>
          has_defs (co_resources c1, co_providers c1) rs'" by blast
    qed (use Some in \<open>simp add: c2_def set_dkeys_dsetdefault del: set_map\<close>)
    moreover have "served sd c2 q'" if "q' \<in> set (co_items c1)" for q'
      using ok1 that sub same served_mono [of sd c1 q' c2] by (simp add: collected_ok_def del: set_map)
    ultimately show ?thesis
      using ok1 by (auto simp: eq collected_ok_def same keyed_dsetdefault c2_def)
  qed
qed

lemma collect_items_ok: "collected_ok sd (collect_items sd qs)"
proof -
  have "collected_ok sd c \<Longrightarrow> collected_ok sd (fold (collect_item sd) qs c)" for c
    by (induction qs arbitrary: c) (auto intro: collect_item_ok)
  moreover have "collected_ok sd empty_collected"
    by (simp add: collected_ok_def empty_collected_def acc_keyed_def)
  ultimately show ?thesis by (simp add: collect_items_def)
qed

section \<open>What a response promises\<close>

lemma lock_parts:
  assumes "lock_jobs rmatch arrange repr_exn inp m sd now now' d = Inr (r, d')"
  obtains names d1 qs d2 where "candidates rmatch arrange inp m now d = (names, d1)"
    and "join_items sd inp repr_exn now names d1 = Inr (qs, d2)"
    and "r = lock_response_of (collect_items sd qs)"
    and "d' = fold (assign (li_worker_id inp) now') (map qi_name (lr_items r)) d2"
  using assms by (auto simp: lock_jobs_def Let_def rbind_Inr_iff lock_response_of_def split: prod.splits)

text \<open>
  C19: a lock response is complete: for every item it holds, every resource type of the item's
  pipeline has resources, all of them are in the response by name, and so is the executor.
\<close>

theorem lock_response_complete:
  assumes "lock_jobs rmatch arrange repr_exn inp m sd now now' d = Inr (r, d')" and "q \<in> set (lr_items r)"
  shows "(\<forall>ty \<in> set (required_types q). \<exists>rs. dget (sd_resources_by_type sd) ty = Some rs \<and> rs \<noteq> [] \<and>
       (\<forall>i. Res i \<in> set rs \<longrightarrow> ri_name i \<in> ri_name ` set (lr_resources r)) \<and>
       (\<forall>p. Prov p \<in> set rs \<longrightarrow> rpi_name p \<in> rpi_name ` set (lr_providers r))) \<and>
    (\<exists>e. dget (sd_executors sd) (qi_executor q) = Some e \<and> cd_name e \<in> cd_name ` set (lr_executors r))"
proof -
  obtain qs where r: "r = lock_response_of (collect_items sd qs)" using assms(1) by (rule lock_parts)
  let ?c = "collect_items sd qs"
  have ok: "collected_ok sd ?c" by (rule collect_items_ok)
  then have keys: "ri_name ` set (lr_resources r) = set (dkeys (co_resources ?c))"
    "rpi_name ` set (lr_providers r) = set (dkeys (co_providers ?c))"
    "cd_name ` set (lr_executors r) = set (dkeys (co_executors ?c))"
    by (simp_all add: r lock_response_of_def collected_ok_def acc_keyed_def keyed_values del: set_map)
  have "served sd ?c q" using ok assms(2) by (simp add: collected_ok_def r lock_response_of_def)
  then show ?thesis unfolding keys served_def has_defs_def by (simp del: set_map)
qed

lemma lock_items_candidates:
  assumes "join_items sd inp repr_exn now names d1 = Inr (qs, d2)"
  shows "subseq (map qi_name (lr_items (lock_response_of (collect_items sd qs)))) names"
  using subseq_order.order_trans [OF subseq_map [OF collect_items_subseq] join_items_names [OF assms]]
  by (simp add: lock_response_of_def)

lemma candidates_length:
  assumes "candidates rmatch arrange inp m now d = (names, d1)" and "\<not> executors_given inp"
  shows "length names \<le> m"
proof -
  have new: "length (get_unassigned_queues rmatch arrange cutoff sel (Some k) d) \<le> k" if "k \<noteq> 0" for cutoff sel k d
    using that by (simp add: get_unassigned_queues_def Let_def)
  have "a + length (get_unassigned_queues rmatch arrange cutoff sel (Some (m - a)) d) \<le> m" if "a < m" for a cutoff sel d
    using new [of "m - a" cutoff sel d] that by simp
  with assms show ?thesis
    by (auto simp: candidates_alt Let_def split: if_splits)
qed

text \<open>
  Without a list of executors a response holds at most \<open>max_assigned_items\<close> items.
\<close>

theorem lock_respects_max:
  assumes "lock_jobs rmatch arrange repr_exn inp m sd now now' d = Inr (r, d')"
    and "\<not> executors_given inp"
  shows "length (lr_items r) \<le> m"
proof -
  obtain names d1 qs d2 where n: "candidates rmatch arrange inp m now d = (names, d1)"
    and j: "join_items sd inp repr_exn now names d1 = Inr (qs, d2)"
    and r: "r = lock_response_of (collect_items sd qs)"
    using assms(1) by (rule lock_parts)
  have "length (map qi_name (lr_items r)) \<le> length names"
    unfolding r by (rule list_emb_length [OF lock_items_candidates [OF j]])
  with candidates_length [OF n assms(2)] show ?thesis by simp
qed

section \<open>Assignments\<close>

text \<open>\<open>held w t n d\<close>: queue \<open>n\<close> exists, and while it is enabled it is assigned to \<open>w\<close> since \<open>t\<close> or later.\<close>

definition held :: "string \<Rightarrow> time \<Rightarrow> string \<Rightarrow> db \<Rightarrow> bool" where
  "held w t n d \<longleftrightarrow> n \<in> qr_name ` set (db_queues d) \<and>
     (\<forall>q \<in> set (db_queues d). qr_name q = n \<and> qr_enabled q \<longrightarrow>
        qr_assigned_to q = Some w \<and> (\<exists>t'. qr_assigned_at q = Some t' \<and> t \<le> t'))"

lemma held_only_disabled:
  assumes "held w t n d" and "only_disabled d d'" shows "held w t n d'"
proof -
  have "qr_name ` set (db_queues d') = qr_name ` set (db_queues d)"
    using arg_cong [OF only_disabled_names [OF assms(2)], of set] by simp
  with assms(1) show ?thesis
    using only_disabled_row [OF assms(2)] unfolding held_def by metis
qed

lemma held_other_names:
  assumes "held w t n d" and "n \<notin> set ns" and "\<And>q. qr_name (f q) = qr_name q"
    and "db_queues d' = map (\<lambda>q. if qr_name q \<in> set ns then f q else q) (db_queues d)"
  shows "held w t n d'"
proof -
  have q': "q \<in> set (db_queues d)" if "q \<in> set (db_queues d')" "qr_name q = n" for q
    using that assms(2-4) by auto
  obtain q where "q \<in> set (db_queues d)" "qr_name q = n" using assms(1) by (auto simp: held_def)
  then have "q \<in> set (db_queues d')" using assms(2,4) by force
  with \<open>qr_name q = n\<close> q' assms(1) show ?thesis unfolding held_def by blast
qed

text \<open>What a lock gives is held by the worker from the refresh on.\<close>

lemma lock_holds:
  assumes "row_order arrange" and "lock_jobs rmatch arrange repr_exn inp m sd now now' d = Inr (r, d')"
    and "n \<in> qi_name ` set (lr_items r)"
  shows "held (li_worker_id inp) now' n d'"
proof -
  obtain names d1 qs d2 where c: "candidates rmatch arrange inp m now d = (names, d1)"
    and j: "join_items sd inp repr_exn now names d1 = Inr (qs, d2)"
    and r: "r = lock_response_of (collect_items sd qs)"
    and d': "d' = fold (assign (li_worker_id inp) now') (map qi_name (lr_items r)) d2"
    using assms(2) by (rule lock_parts)
  have "n \<in> set (map qi_name (lr_items r))" using assms(3) by simp
  then have "n \<in> set names"
    using list_emb_set [OF lock_items_candidates [OF j]] unfolding r by blast
  then have "n \<in> qr_name ` set (db_queues d)"
    using candidates_free [OF assms(1) c] by auto
  moreover have "set (map qr_name (db_queues d1)) = set (map qr_name (db_queues d))"
    by (rule arg_cong [OF candidates_names [OF c]])
  moreover have "qr_name ` set (db_queues d2) = qr_name ` set (db_queues d1)"
    using arg_cong [OF only_disabled_names [OF join_items_rows [OF j]], of set] by simp
  ultimately have "n \<in> qr_name ` set (db_queues d2)" by simp
  then have "n \<in> qr_name ` set (db_queues d')"
    by (simp only: d' set_map [symmetric] assign_names)
  moreover have "n \<in> set (map qi_name (lr_items r))" using assms(3) by simp
  then have "qr_assigned_to q = Some (li_worker_id inp) \<and> qr_assigned_at q = Some now'"
    if row: "q \<in> set (db_queues d')" "qr_name q = n" for q
  proof -
    obtain p where p: "q = (if qr_name p \<in> set (map qi_name (lr_items r))
        then p\<lparr>qr_assigned_at := Some now', qr_assigned_to := Some (li_worker_id inp)\<rparr> else p)"
      using row(1) unfolding d' fold_assign(1) set_map image_iff by blast
    with row(2) \<open>n \<in> set (map qi_name (lr_items r))\<close> show ?thesis
      by (cases "qr_name p \<in> set (map qi_name (lr_items r))") auto
  qed
  ultimately show ?thesis by (simp add: held_def)
qed

text \<open>A lock by another worker within the expiration neither takes nor changes a held queue.\<close>

lemma lock_respects_held:
  assumes "row_order arrange" and "distinct (map qr_name (db_queues d))"
    and "lock_jobs rmatch arrange repr_exn inp m sd now now' d = Inr (r, d')"
    and "held w t n d" and "w \<noteq> li_worker_id inp" and "now < t + lock_expiration"
  shows "n \<notin> qi_name ` set (lr_items r) \<and> held w t n d'"
proof -
  obtain names d1 qs d2 where c: "candidates rmatch arrange inp m now d = (names, d1)"
    and j: "join_items sd inp repr_exn now names d1 = Inr (qs, d2)"
    and r: "r = lock_response_of (collect_items sd qs)"
    and d': "d' = fold (assign (li_worker_id inp) now') (map qi_name (lr_items r)) d2"
    using assms(3) by (rule lock_parts)
  have "n \<notin> set names"
  proof
    assume "n \<in> set names"
    then obtain q where "q \<in> set (db_queues d)" "qr_name q = n" "qr_enabled q"
      "qr_assigned_to q = Some (li_worker_id inp) \<or> (\<forall>t. qr_assigned_at q = Some t \<longrightarrow> t < now - lock_expiration)"
      using candidates_free [OF assms(1) c] by blast
    with assms(4-6) show False unfolding held_def by fastforce
  qed
  then have items: "n \<notin> set (map qi_name (lr_items r))"
    using list_emb_set [OF lock_items_candidates [OF j]] unfolding r by blast
  define extra where "extra = drop m (map qr_name (get_assigned_queues rmatch (li_worker_id inp)
    (now - lock_expiration) (li_selector inp) d))"
  have d1: "d1 = fold unassign extra d"
    using c by (auto simp: candidates_def Let_def extra_def split: if_splits)
  have "n \<notin> set extra"
  proof
    assume "n \<in> set extra"
    then obtain q where "q \<in> set (db_queues d)" "qr_name q = n" "qr_enabled q"
      "qr_assigned_to q = Some (li_worker_id inp)"
      by (auto simp: extra_def get_assigned_queues_def dest!: in_set_dropD)
    with assms(4,5) show False unfolding held_def by fastforce
  qed
  then have "held w t n d1"
    using held_other_names [OF assms(4), where ns = extra and d' = d1
        and f = "\<lambda>q. q\<lparr>qr_assigned_at := None, qr_assigned_to := None\<rparr>"] by (simp add: d1 fold_unassign)
  then have "held w t n d2" using held_only_disabled join_items_rows [OF j] by blast
  then have "held w t n d'"
    using held_other_names [of w t n d2 "map qi_name (lr_items r)"
        "\<lambda>q. q\<lparr>qr_assigned_at := Some now', qr_assigned_to := Some (li_worker_id inp)\<rparr>" d'] items
    by (simp add: d' fold_assign)
  with items show ?thesis by simp
qed

section \<open>A concrete request\<close>

definition demo_item :: queue_item where
  "demo_item = \<lparr>qi_name = ''j'', qi_pipeline = \<lparr>qp_info = \<lparr>pi_name = ''p'', pi_resources = [(''r'', ''T'')]\<rparr>, qp_args = []\<rparr>,
     qi_output = [], qi_input = \<lparr>cd_name = ''i'', cd_type = ''I'', cd_options = []\<rparr>, qi_config = [], qi_labels = [],
     qi_executor = ''default''\<rparr>"

definition demo_res :: resource_item where
  "demo_res = \<lparr>ri_name = ''r1'', ri_type = ''T'', ri_data = [], ri_default_delay = 0, ri_rate_limit = None\<rparr>"

definition demo_sd :: static_definitions where
  "demo_sd = empty_definitions\<lparr>sd_jobs := [(''j'', demo_item), (''k'', demo_item)],
     sd_executors := [(''default'', \<lparr>cd_name = ''default'', cd_type = ''E'', cd_options = []\<rparr>)],
     sd_resources := [(''r1'', demo_res)], sd_resources_by_type := [(''T'', [Res demo_res])]\<rparr>"

definition demo_job :: "string \<Rightarrow> job_row" where
  "demo_job n = \<lparr>jr_name = n, jr_cursor = None, jr_completed_at = None, jr_started_at = 0, jr_queue_name = n,
     jr_error = None, jr_definition = None\<rparr>"

definition demo_db :: db where
  "demo_db = \<lparr>db_queues = [\<lparr>qr_name = ''j'', qr_assigned_at = None, qr_assigned_to = None, qr_enabled = True\<rparr>,
       \<lparr>qr_name = ''k'', qr_assigned_at = None, qr_assigned_to = None, qr_enabled = True\<rparr>],
     db_jobs = [demo_job ''j'', demo_job ''k''], db_cursors = []\<rparr>"

definition demo_lock :: "string list option \<Rightarrow> lock_input" where
  "demo_lock es = \<lparr>li_worker_id = ''w1'', li_selector = None, li_executors = es\<rparr>"

definition demo_request :: "string list option \<Rightarrow> (lock_response \<times> db) result" where
  "demo_request es = lock_jobs (\<lambda>_ _. True) id (\<lambda>_. ''error'') (demo_lock es) 1 demo_sd 0 0 demo_db"

lemmas demo_simps = demo_request_def lock_jobs_def demo_lock_def demo_sd_def demo_db_def demo_job_def demo_res_def
  demo_item_def candidates_def executors_given_def get_assigned_queues_def get_unassigned_queues_def selected_def
  join_definitions_def job_of_queue_def lookup_def empty_definitions_def executor_selected_def collect_items_def
  collect_item_def required_types_def empty_collected_def lock_response_of_def with_state_def queue_item.defs
  queue_item_state_of_def add_def_def dset_def dor_def dsetdefault_def

lemma demo_request_items:
  "\<exists>r d'. demo_request None = Inr (r, d') \<and> map qi_name (lr_items r) = [''j''] \<and> map ri_name (lr_resources r) = [''r1'']"
  by (simp add: demo_simps Let_def)

lemma lock_response_complete_witness:
  "\<exists>r d'. demo_request None = Inr (r, d') \<and> map qi_name (lr_items r) = [''j''] \<and>
     (\<exists>e :: component_definition. cd_name e \<in> cd_name ` set (lr_executors r))"
proof -
  obtain r d' where r: "demo_request None = Inr (r, d')" "map qi_name (lr_items r) = [''j'']"
    using demo_request_items by (elim exE conjE) (rule that)
  then obtain q where q: "q \<in> set (lr_items r)" by (cases "lr_items r") auto
  have "\<exists>e :: component_definition. cd_name e \<in> cd_name ` set (lr_executors r)"
    using lock_response_complete [OF r(1) [unfolded demo_request_def] q] by blast
  then show ?thesis by (intro exI [of _ r] exI [of _ d'] conjI r)
qed

lemma lock_respects_max_witness:
  "\<exists>r d'. demo_request None = Inr (r, d') \<and> map qi_name (lr_items r) = [''j''] \<and> length (lr_items r) \<le> 1"
proof -
  obtain r d' where r: "demo_request None = Inr (r, d')" "map qi_name (lr_items r) = [''j'']"
    using demo_request_items by (elim exE conjE) (rule that)
  have "\<not> executors_given (demo_lock None)" by (simp add: executors_given_def demo_lock_def)
  from lock_respects_max [OF r(1) [unfolded demo_request_def] this] show ?thesis
    by (intro exI [of _ r] exI [of _ d'] conjI r)
qed

text \<open>With a list of executors the limit is not applied: every selected queue is assigned.\<close>

lemma executors_lift_max:
  "\<exists>r d'. demo_request (Some [''default'']) = Inr (r, d') \<and> length (lr_items r) = 2"
  by (simp add: demo_simps Let_def)

end
