(* ===== verification/Sync_Service.thy ===== *)
theory Sync_Service
  imports Lock_Service
begin

text \<open>
  \<open>worker_manager/services/sync.py\<close>: creating the jobs that are due, and the requests of the
  worker manager's API as steps over the database.

  The session does not flush by itself (\<open>autoflush=False\<close>): queries see the committed rows, new
  rows wait for the next commit. When a commit fails its rows are rolled back and the session
  refuses everything until it is closed. \<open>next_run\<close> is \<open>croniter(expr, start).get_next()\<close>.
\<close>

section \<open>The session\<close>

record new_job =
  nj_name :: string
  nj_definition :: "string option"
  nj_cursor :: "string option"
  nj_started_at :: time

record sync_session =
  ss_db :: db
  ss_new :: "new_job list"
  ss_failed :: bool

definition insert_new :: "new_job \<Rightarrow> db \<Rightarrow> db result" where
  "insert_new nj d =
     rbind (create_queue (nj_name nj) d) (\<lambda>d1.
     rbind (create_job (nj_name nj) (nj_name nj) (nj_definition nj) (nj_started_at nj) d1) (\<lambda>d2.
       Inr (d2\<lparr>db_jobs := map (\<lambda>j. if jr_name j = nj_name nj then j\<lparr>jr_cursor := nj_cursor nj\<rparr> else j) (db_jobs d2)\<rparr>)))"

fun insert_all :: "new_job list \<Rightarrow> db \<Rightarrow> db result" where
  "insert_all [] d = Inr d"
| "insert_all (nj # njs) d = rbind (insert_new nj d) (insert_all njs)"

definition commit :: "sync_session \<Rightarrow> sync_session" where
  "commit s =
     (if ss_failed s then s
      else case insert_all (ss_new s) (ss_db s) of
             Inl _ \<Rightarrow> s\<lparr>ss_new := [], ss_failed := True\<rparr>
           | Inr d \<Rightarrow> s\<lparr>ss_db := d, ss_new := []\<rparr>)"

section \<open>The loops of \<open>_sync_jobs\<close>\<close>

definition sync_static_job :: "time \<Rightarrow> queue_item \<Rightarrow> sync_session \<Rightarrow> sync_session" where
  "sync_static_job now q s =
     (if get_job (qi_name q) (ss_db s) \<noteq> None then s
      else s\<lparr>ss_new := ss_new s @ [\<lparr>nj_name = qi_name q, nj_definition = None, nj_cursor = None, nj_started_at = now\<rparr>]\<rparr>)"

text \<open>Whether a definition is due after its last job; an interval that does not parse is an error.\<close>

definition due :: "(string \<Rightarrow> time \<Rightarrow> time result) \<Rightarrow> time \<Rightarrow> job_definition \<Rightarrow> job_row option \<Rightarrow> bool result" where
  "due next_run now jd last_job =
     (case last_job of
        None \<Rightarrow> Inr True
      | Some j \<Rightarrow>
          if jr_completed_at j = None then Inr False
          else if struthy (jr_error j) then Inr True
          else rbind (next_run (jd_minimal_interval jd) (jr_started_at j)) (\<lambda>t. Inr (t \<le> now)))"

definition resume_cursor :: "job_row option \<Rightarrow> string option" where
  "resume_cursor last_job =
     (case last_job of None \<Rightarrow> None | Some j \<Rightarrow> if struthy (jr_error j) then jr_cursor j else None)"

definition sync_definition ::
  "(string \<Rightarrow> time \<Rightarrow> time result) \<Rightarrow> time \<Rightarrow> job_definition \<Rightarrow> sync_session \<Rightarrow> sync_session" where
  "sync_definition next_run now jd s =
     (if ss_failed s then s
      else let last_job = get_last_job (jd_name jd) (ss_db s)
           in case due next_run now jd last_job of
                Inl _ \<Rightarrow> s
              | Inr False \<Rightarrow> s
              | Inr True \<Rightarrow>
                  commit (s\<lparr>ss_new := ss_new s @ [\<lparr>nj_name = job_name_at (jd_name jd) now,
                    nj_definition = Some (jd_name jd), nj_cursor = resume_cursor last_job, nj_started_at = now\<rparr>]\<rparr>))"

text \<open>\<open>_sync_jobs\<close> followed by the commit of the request's \<open>session_scope\<close>.\<close>

definition sync_jobs_locked ::
  "(string \<Rightarrow> time \<Rightarrow> time result) \<Rightarrow> static_definitions \<Rightarrow> time \<Rightarrow> db \<Rightarrow> db" where
  "sync_jobs_locked next_run sd now d =
     ss_db (commit (fold (sync_definition next_run now) (dvalues (sd_job_definitions sd))
       (fold (sync_static_job now) (dvalues (sd_jobs sd)) \<lparr>ss_db = d, ss_new = [], ss_failed = False\<rparr>)))"

text \<open>A sync that finds another one running does nothing.\<close>

definition sync_jobs ::
  "(string \<Rightarrow> time \<Rightarrow> time result) \<Rightarrow> bool \<Rightarrow> static_definitions \<Rightarrow> time \<Rightarrow> db \<Rightarrow> db" where
  "sync_jobs next_run locked sd now d = (if locked then d else sync_jobs_locked next_run sd now d)"

section \<open>Inserting\<close>

lemma create_queue_rows:
  assumes "create_queue n d = Inr d'"
  shows "db_queues d' = db_queues d @ [\<lparr>qr_name = n, qr_assigned_at = None, qr_assigned_to = None, qr_enabled = True\<rparr>]"
    and "db_jobs d' = db_jobs d" and "n \<notin> qr_name ` set (db_queues d)"
  using assms by (auto simp: create_queue_def queue_row_of_def find_None_map split: if_splits)

lemma create_job_rows:
  assumes "create_job n qn dn now d = Inr d'"
  shows "db_jobs d' = db_jobs d @ [\<lparr>jr_name = n, jr_cursor = None, jr_completed_at = None, jr_started_at = now,
      jr_queue_name = qn, jr_error = None, jr_definition = dn\<rparr>]"
    and "db_queues d' = db_queues d" and "n \<notin> jr_name ` set (db_jobs d)"
  using assms by (auto simp: create_job_def get_job_def find_None_map split: if_splits)

lemma update_absent: "n \<notin> jr_name ` set js \<Longrightarrow> map (\<lambda>j. if jr_name j = n then f j else j) js = js"
  by (induction js) auto

lemma insert_new_rows:
  assumes "insert_new nj d = Inr d'"
  shows "db_jobs d' = db_jobs d @ [\<lparr>jr_name = nj_name nj, jr_cursor = nj_cursor nj, jr_completed_at = None,
      jr_started_at = nj_started_at nj, jr_queue_name = nj_name nj, jr_error = None, jr_definition = nj_definition nj\<rparr>]"
    and "db_queues d' = db_queues d @
      [\<lparr>qr_name = nj_name nj, qr_assigned_at = None, qr_assigned_to = None, qr_enabled = True\<rparr>]"
    and "nj_name nj \<notin> qr_name ` set (db_queues d)" and "nj_name nj \<notin> jr_name ` set (db_jobs d)"
proof -
  obtain d1 d2 where q: "create_queue (nj_name nj) d = Inr d1"
    and j: "create_job (nj_name nj) (nj_name nj) (nj_definition nj) (nj_started_at nj) d1 = Inr d2"
    and d': "d' = d2\<lparr>db_jobs := map (\<lambda>j. if jr_name j = nj_name nj then j\<lparr>jr_cursor := nj_cursor nj\<rparr> else j) (db_jobs d2)\<rparr>"
    using assms unfolding insert_new_def rbind_Inr_iff by blast
  note rows = create_queue_rows [OF q] create_job_rows [OF j]
  show "nj_name nj \<notin> qr_name ` set (db_queues d)" by (rule rows)
  show nj: "nj_name nj \<notin> jr_name ` set (db_jobs d)" using rows(2,6) by simp
  show "db_queues d' = db_queues d @
      [\<lparr>qr_name = nj_name nj, qr_assigned_at = None, qr_assigned_to = None, qr_enabled = True\<rparr>]"
    by (simp add: d' rows)
  show "db_jobs d' = db_jobs d @ [\<lparr>jr_name = nj_name nj, jr_cursor = nj_cursor nj, jr_completed_at = None,
      jr_started_at = nj_started_at nj, jr_queue_name = nj_name nj, jr_error = None, jr_definition = nj_definition nj\<rparr>]"
    by (simp add: d' rows update_absent [OF nj])
qed

lemma db_ok_insert_new:
  assumes "db_ok d" and "insert_new nj d = Inr d'" shows "db_ok d'"
  using assms(1) insert_new_rows(3,4) [OF assms(2)]
  by (simp add: db_ok_def insert_new_rows(1,2) [OF assms(2)] job_row_ok_def)

text \<open>What every insertion keeps is kept by a sync.\<close>

lemma insert_all_keeps:
  assumes "\<And>nj d d'. nj \<in> set njs \<Longrightarrow> P d \<Longrightarrow> insert_new nj d = Inr d' \<Longrightarrow> P d'"
  shows "P d \<Longrightarrow> insert_all njs d = Inr d' \<Longrightarrow> P d'"
  using assms
proof (induction njs arbitrary: d)
  case (Cons nj njs)
  then obtain d1 where "insert_new nj d = Inr d1" "insert_all njs d1 = Inr d'" by (auto simp: rbind_Inr_iff)
  with Cons show ?case by (metis list.set_intros)
qed simp

lemma commit_keeps:
  assumes "P (ss_db s)" and "\<And>nj d d'. nj \<in> set (ss_new s) \<Longrightarrow> P d \<Longrightarrow> insert_new nj d = Inr d' \<Longrightarrow> P d'"
  shows "P (ss_db (commit s))"
proof (cases "insert_all (ss_new s) (ss_db s)")
  case (Inr d)
  have "P d" by (rule insert_all_keeps [where P = P, OF assms(2) assms(1) Inr])
  with Inr assms(1) show ?thesis by (simp add: commit_def)
qed (use assms(1) in \<open>simp add: commit_def\<close>)

lemma commit_new: "set (ss_new (commit s)) \<subseteq> set (ss_new s)"
  by (auto simp: commit_def split: sum.splits)

text \<open>
  The session between two definitions: \<open>P\<close> holds of the rows, and the new rows are jobs without a
  definition, started at \<open>now\<close>.
\<close>

definition session_ok :: "(db \<Rightarrow> bool) \<Rightarrow> time \<Rightarrow> sync_session \<Rightarrow> bool" where
  "session_ok P now s \<longleftrightarrow> P (ss_db s) \<and> (\<forall>nj \<in> set (ss_new s). nj_definition nj = None \<and> nj_started_at nj = now)"

lemma static_jobs_ok: "session_ok P now s \<Longrightarrow> session_ok P now (fold (sync_static_job now) qs s)"
proof (induction qs arbitrary: s)
  case (Cons q qs)
  have "session_ok P now (sync_static_job now q s)"
    using Cons.prems by (auto simp: session_ok_def sync_static_job_def)
  from Cons.IH [OF this] show ?case by simp
qed simp

lemma commit_empties: "ss_failed s \<or> ss_new (commit s) = []"
  by (auto simp: commit_def split: sum.splits)

lemma sync_definition_ok:
  assumes ok: "session_ok P now s"
    and static: "\<And>nj d d'. nj_definition nj = None \<Longrightarrow> nj_started_at nj = now \<Longrightarrow> P d \<Longrightarrow> insert_new nj d = Inr d' \<Longrightarrow> P d'"
    and new: "\<And>d1 d'. due next_run now jd (get_last_job (jd_name jd) (ss_db s)) = Inr True \<Longrightarrow>
      insert_all (ss_new s) (ss_db s) = Inr d1 \<Longrightarrow> P d1 \<Longrightarrow>
      insert_new \<lparr>nj_name = job_name_at (jd_name jd) now, nj_definition = Some (jd_name jd),
        nj_cursor = resume_cursor (get_last_job (jd_name jd) (ss_db s)), nj_started_at = now\<rparr> d1 = Inr d' \<Longrightarrow> P d'"
  shows "session_ok P now (sync_definition next_run now jd s)"
proof -
  let ?last = "get_last_job (jd_name jd) (ss_db s)"
  let ?nj = "\<lparr>nj_name = job_name_at (jd_name jd) now, nj_definition = Some (jd_name jd),
    nj_cursor = resume_cursor ?last, nj_started_at = now\<rparr>"
  let ?s = "s\<lparr>ss_new := ss_new s @ [?nj]\<rparr>"
  have snoc: "insert_all (njs @ [nj]) d = rbind (insert_all njs d) (insert_new nj)" for njs nj d
  proof (induction njs arbitrary: d)
    case Nil
    then show ?case by (cases "insert_new nj d") auto
  next
    case (Cons a njs)
    then show ?case by (cases "insert_new a d") auto
  qed
  have P: "P (ss_db s)" using ok by (simp add: session_ok_def)
  have "sync_definition next_run now jd s = s \<or>
      (due next_run now jd ?last = Inr True \<and> \<not> ss_failed s \<and> sync_definition next_run now jd s = commit ?s)"
    by (auto simp: sync_definition_def Let_def split: sum.splits bool.splits)
  then consider "sync_definition next_run now jd s = s"
    | "due next_run now jd ?last = Inr True" "\<not> ss_failed s" "sync_definition next_run now jd s = commit ?s"
    by blast
  then show ?thesis
  proof cases
    case 1
    with ok show ?thesis by simp
  next
    case 2
    have "session_ok P now (commit ?s)"
    proof (cases "insert_all (ss_new s @ [?nj]) (ss_db s)")
      case (Inl e)
      with 2(2) P show ?thesis by (simp add: commit_def session_ok_def)
    next
      case (Inr d')
      then obtain d1 where d1: "insert_all (ss_new s) (ss_db s) = Inr d1" "insert_new ?nj d1 = Inr d'"
        by (auto simp: snoc rbind_Inr_iff)
      have "P d1"
        by (rule insert_all_keeps [where P = P, OF static P d1(1)]) (use ok in \<open>auto simp: session_ok_def\<close>)
      with new [OF 2(1) d1(1)] d1(2) Inr 2(2) show ?thesis by (simp add: commit_def session_ok_def)
    qed
    with 2(3) show ?thesis by simp
  qed
qed

section \<open>At most one active job per definition\<close>

definition single_active :: "db \<Rightarrow> bool" where
  "single_active d \<longleftrightarrow> (\<forall>j \<in> set (db_jobs d). \<forall>j' \<in> set (db_jobs d).
     jr_definition j \<noteq> None \<and> jr_completed_at j = None \<and> jr_definition j' = jr_definition j \<and> jr_name j' \<noteq> jr_name j \<longrightarrow>
       jr_started_at j' < jr_started_at j)"

definition active_jobs :: "string \<Rightarrow> db \<Rightarrow> job_row list" where
  "active_jobs dn d = filter (\<lambda>j. jr_definition j = Some dn \<and> jr_completed_at j = None) (db_jobs d)"

lemma single_active_length:
  assumes "db_ok d" and "single_active d" shows "length (active_jobs dn d) \<le> 1"
proof (rule ccontr)
  let ?xs = "active_jobs dn d"
  assume "\<not> length ?xs \<le> 1"
  then have l: "0 < length ?xs" "1 < length ?xs" by auto
  have "distinct (map jr_name ?xs)" using assms(1) by (simp add: db_ok_def active_jobs_def distinct_map_filter)
  then have neq: "jr_name (?xs ! 0) \<noteq> jr_name (?xs ! 1)"
    using l by (metis distinct_conv_nth length_map nth_map zero_neq_one)
  have "?xs ! i \<in> set (db_jobs d) \<and> jr_definition (?xs ! i) = Some dn \<and> jr_completed_at (?xs ! i) = None"
    if "i < length ?xs" for i
    using nth_mem [OF that] by (auto simp: active_jobs_def)
  from this [OF l(1)] this [OF l(2)] neq assms(2) show False
    unfolding single_active_def by (metis less_asym option.distinct(1))
qed

lemma get_last_job_max:
  assumes "get_last_job dn d = Some j"
  shows "j \<in> set (db_jobs d) \<and> jr_definition j = Some dn \<and>
    (\<forall>j' \<in> set (db_jobs d). jr_definition j' = Some dn \<longrightarrow> jr_started_at j' \<le> jr_started_at j)"
proof -
  let ?js = "filter (\<lambda>j. jr_definition j = Some dn) (db_jobs d)"
  obtain rest where s: "sort_key (\<lambda>j. - jr_started_at j) ?js = j # rest"
    using assms by (auto simp: get_last_job_def split: list.splits)
  have "set (j # rest) = set ?js" unfolding s [symmetric] by simp
  moreover have "sorted (map (\<lambda>j. - jr_started_at j) (j # rest))" unfolding s [symmetric] by simp
  ultimately show ?thesis by auto
qed

lemma get_last_job_None:
  "get_last_job dn d = None \<longleftrightarrow> (\<forall>j \<in> set (db_jobs d). jr_definition j \<noteq> Some dn)"
proof -
  have "set (sort_key (\<lambda>j. - jr_started_at j) (filter (\<lambda>j. jr_definition j = Some dn) (db_jobs d)))
      = {j \<in> set (db_jobs d). jr_definition j = Some dn}" by simp
  then show ?thesis
    unfolding get_last_job_def by (cases "sort_key (\<lambda>j. - jr_started_at j) (filter (\<lambda>j. jr_definition j = Some dn) (db_jobs d))") auto
qed

text \<open>When the last job is completed, so are all of its definition.\<close>

lemma last_completed_all:
  assumes "db_ok d" and "single_active d" and "get_last_job dn d = Some l" and "jr_completed_at l \<noteq> None"
    and "j \<in> set (db_jobs d)" and "jr_definition j = Some dn"
  shows "jr_completed_at j \<noteq> None"
proof
  assume n: "jr_completed_at j = None"
  note l = get_last_job_max [OF assms(3)]
  have "jr_name l \<noteq> jr_name j"
  proof
    assume "jr_name l = jr_name j"
    then have "l = j" using assms(1,5) l by (auto simp: db_ok_def distinct_map dest: inj_onD)
    with n assms(4) show False by simp
  qed
  with l assms(2,5,6) n have "jr_started_at l < jr_started_at j" unfolding single_active_def by simp
  with l assms(5,6) show False by fastforce
qed

lemma single_active_add:
  assumes "single_active d" and "db_jobs d' = db_jobs d @ [nj]"
    and "\<And>dn j. jr_definition nj = Some dn \<Longrightarrow> j \<in> set (db_jobs d) \<Longrightarrow> jr_definition j = Some dn \<Longrightarrow>
      jr_completed_at j \<noteq> None \<and> jr_started_at j < jr_started_at nj"
  shows "single_active d'"
proof (cases "jr_definition nj")
  case None
  with assms(1,2) show ?thesis unfolding single_active_def by auto
next
  case (Some dn)
  then have "\<forall>j \<in> set (db_jobs d). jr_definition j = Some dn \<longrightarrow>
      jr_completed_at j \<noteq> None \<and> jr_started_at j < jr_started_at nj" using assms(3) by blast
  with Some assms(1,2) show ?thesis unfolding single_active_def by fastforce
qed

text \<open>Rows that are updated keep their name, definition and start, and are never reopened.\<close>

definition jobs_progress :: "db \<Rightarrow> db \<Rightarrow> bool" where
  "jobs_progress d d' \<longleftrightarrow> list_all2 (\<lambda>j j'. jr_name j' = jr_name j \<and> jr_definition j' = jr_definition j \<and>
     jr_started_at j' = jr_started_at j \<and> (jr_completed_at j \<noteq> None \<longrightarrow> jr_completed_at j' \<noteq> None)) (db_jobs d) (db_jobs d')"

lemma jobs_progress_refl [simp, intro]: "jobs_progress d d"
  by (auto simp: jobs_progress_def intro!: list.rel_refl)

lemma jobs_progress_trans:
  assumes "jobs_progress a b" and "jobs_progress b c" shows "jobs_progress a c"
  using assms unfolding jobs_progress_def by (rule list_all2_trans [rotated]) auto

lemma jobs_progress_row:
  assumes "jobs_progress d d'" and "j' \<in> set (db_jobs d')"
  shows "\<exists>j \<in> set (db_jobs d). jr_name j' = jr_name j \<and> jr_definition j' = jr_definition j \<and>
    jr_started_at j' = jr_started_at j \<and> (jr_completed_at j \<noteq> None \<longrightarrow> jr_completed_at j' \<noteq> None)"
proof -
  obtain i where i: "i < length (db_jobs d')" "j' = db_jobs d' ! i"
    using assms(2) by (auto simp: in_set_conv_nth)
  with assms(1) have "i < length (db_jobs d)" by (simp add: jobs_progress_def list_all2_lengthD)
  then show ?thesis
    using assms(1) i unfolding jobs_progress_def list_all2_conv_all_nth
    by (intro bexI [of _ "db_jobs d ! i"]) auto
qed

lemma single_active_progress:
  assumes "single_active d" and "jobs_progress d d'" shows "single_active d'"
  unfolding single_active_def
proof (intro ballI impI)
  fix x y assume xy: "x \<in> set (db_jobs d')" "y \<in> set (db_jobs d')"
    "jr_definition x \<noteq> None \<and> jr_completed_at x = None \<and> jr_definition y = jr_definition x \<and> jr_name y \<noteq> jr_name x"
  obtain a where a: "a \<in> set (db_jobs d)" "jr_name x = jr_name a" "jr_definition x = jr_definition a"
    "jr_started_at x = jr_started_at a" "jr_completed_at a \<noteq> None \<longrightarrow> jr_completed_at x \<noteq> None"
    using jobs_progress_row [OF assms(2) xy(1)] by blast
  obtain b where b: "b \<in> set (db_jobs d)" "jr_name y = jr_name b" "jr_definition y = jr_definition b"
    "jr_started_at y = jr_started_at b"
    using jobs_progress_row [OF assms(2) xy(2)] by blast
  from assms(1) a(1) b(1) have "jr_definition a \<noteq> None \<and> jr_completed_at a = None \<and>
      jr_definition b = jr_definition a \<and> jr_name b \<noteq> jr_name a \<longrightarrow> jr_started_at b < jr_started_at a"
    unfolding single_active_def by blast
  then show "jr_started_at y < jr_started_at x" using a b xy(3) by auto
qed

section \<open>A sync keeps the invariant\<close>

text \<open>The rows during a sync at \<open>now\<close>: whatever has a definition started before, or is new and active.\<close>

definition sync_inv :: "time \<Rightarrow> db \<Rightarrow> bool" where
  "sync_inv now d \<longleftrightarrow> db_ok d \<and> single_active d \<and>
     (\<forall>j \<in> set (db_jobs d). jr_started_at j < now \<or> (jr_started_at j = now \<and> jr_completed_at j = None))"

lemma insert_static_inv:
  assumes "nj_definition nj = None" and "nj_started_at nj = now" and "sync_inv now d" and "insert_new nj d = Inr d'"
  shows "sync_inv now d'"
  unfolding sync_inv_def
proof (intro conjI)
  show "db_ok d'" by (rule db_ok_insert_new [OF _ assms(4)]) (use assms(3) in \<open>simp add: sync_inv_def\<close>)
  show "single_active d'"
    by (rule single_active_add [OF _ insert_new_rows(1) [OF assms(4)]]) (use assms(1,3) in \<open>simp_all add: sync_inv_def\<close>)
qed (use assms(2,3) in \<open>auto simp: insert_new_rows(1) [OF assms(4)] sync_inv_def\<close>)

lemma insert_all_static_jobs:
  assumes "insert_all njs d = Inr d'" and "\<forall>nj \<in> set njs. nj_definition nj = None"
  shows "filter (\<lambda>j. jr_definition j = Some dn) (db_jobs d') = filter (\<lambda>j. jr_definition j = Some dn) (db_jobs d)"
  using assms
proof (induction njs arbitrary: d)
  case (Cons nj njs)
  then obtain d1 where d1: "insert_new nj d = Inr d1" "insert_all njs d1 = Inr d'" by (auto simp: rbind_Inr_iff)
  with Cons have "filter (\<lambda>j. jr_definition j = Some dn) (db_jobs d') = filter (\<lambda>j. jr_definition j = Some dn) (db_jobs d1)"
    by simp
  then show ?case using Cons.prems(2) by (simp add: insert_new_rows(1) [OF d1(1)])
qed simp

lemma insert_due_inv:
  assumes inv0: "sync_inv now d" and due: "due next_run now jd (get_last_job (jd_name jd) d) = Inr True"
    and same: "filter (\<lambda>j. jr_definition j = Some (jd_name jd)) (db_jobs d1) =
      filter (\<lambda>j. jr_definition j = Some (jd_name jd)) (db_jobs d)"
    and inv1: "sync_inv now d1"
    and new: "insert_new \<lparr>nj_name = n, nj_definition = Some (jd_name jd), nj_cursor = c, nj_started_at = now\<rparr> d1 = Inr d'"
  shows "sync_inv now d'"
proof -
  have old: "jr_completed_at j \<noteq> None \<and> jr_started_at j < now"
    if row: "j \<in> set (db_jobs d1)" "jr_definition j = Some (jd_name jd)" for j
  proof -
    have "j \<in> set (filter (\<lambda>j. jr_definition j = Some (jd_name jd)) (db_jobs d1))" using row by simp
    then have j: "j \<in> set (db_jobs d)" unfolding same by simp
    then obtain l where l: "get_last_job (jd_name jd) d = Some l"
      using row(2) get_last_job_None [of "jd_name jd" d] by (cases "get_last_job (jd_name jd) d") auto
    with due have "jr_completed_at l \<noteq> None" by (auto simp: due_def split: if_splits)
    with l j row(2) inv0 have "jr_completed_at j \<noteq> None"
      unfolding sync_inv_def by (metis last_completed_all)
    then show ?thesis using j inv0 unfolding sync_inv_def by auto
  qed
  show ?thesis
    unfolding sync_inv_def
  proof (intro conjI)
    show "db_ok d'" by (rule db_ok_insert_new [OF _ new]) (use inv1 in \<open>simp add: sync_inv_def\<close>)
    show "single_active d'"
      by (rule single_active_add [OF _ insert_new_rows(1) [OF new]]) (use inv1 old in \<open>simp_all add: sync_inv_def\<close>)
  qed (use inv1 in \<open>auto simp: insert_new_rows(1) [OF new] sync_inv_def\<close>)
qed

lemma sync_jobs_inv:
  assumes "sync_inv now d" shows "sync_inv now (sync_jobs_locked next_run sd now d)"
proof -
  have step: "session_ok (sync_inv now) now (sync_definition next_run now jd s)"
    if ok: "session_ok (sync_inv now) now s" for jd s
  proof (rule sync_definition_ok [OF ok])
    fix nj d d' assume "nj_definition nj = None" "nj_started_at nj = now" "sync_inv now d" "insert_new nj d = Inr d'"
    then show "sync_inv now d'" by (rule insert_static_inv)
  next
    fix d1 d' assume h: "due next_run now jd (get_last_job (jd_name jd) (ss_db s)) = Inr True"
      "insert_all (ss_new s) (ss_db s) = Inr d1" "sync_inv now d1"
      "insert_new \<lparr>nj_name = job_name_at (jd_name jd) now, nj_definition = Some (jd_name jd),
        nj_cursor = resume_cursor (get_last_job (jd_name jd) (ss_db s)), nj_started_at = now\<rparr> d1 = Inr d'"
    have "\<forall>nj \<in> set (ss_new s). nj_definition nj = None" "sync_inv now (ss_db s)"
      using ok by (auto simp: session_ok_def)
    with h show "sync_inv now d'" using insert_due_inv insert_all_static_jobs by blast
  qed
  have all: "session_ok (sync_inv now) now s \<Longrightarrow> session_ok (sync_inv now) now (fold (sync_definition next_run now) jds s)"
    for jds s
  proof (induction jds arbitrary: s)
    case (Cons jd jds)
    from Cons.IH [OF step [OF Cons.prems]] show ?case by simp
  qed simp
  have start: "session_ok (sync_inv now) now \<lparr>ss_db = d, ss_new = [], ss_failed = False\<rparr>"
    using assms by (simp add: session_ok_def)
  have fin: "session_ok (sync_inv now) now (fold (sync_definition next_run now) (dvalues (sd_job_definitions sd))
      (fold (sync_static_job now) (dvalues (sd_jobs sd)) \<lparr>ss_db = d, ss_new = [], ss_failed = False\<rparr>))"
    by (rule all [OF static_jobs_ok [OF start]])
  show ?thesis
    unfolding sync_jobs_locked_def
    by (rule commit_keeps [where P = "sync_inv now"]) (use fin insert_static_inv in \<open>auto simp: session_ok_def\<close>)
qed

end
