(* ===== verification/Manager_Api.thy ===== *)
theory Manager_Api
  imports Sync_Service
begin

text \<open>
  The worker manager as a state machine: every request of \<open>worker_manager/api/\<close> that writes is a
  step from one committed database to the next. Requests are serialised by the locks of
  \<open>api/lock.py\<close> and \<open>services/sync.py\<close> and by the transactions; a request that fails is rolled
  back and is no step. Definitions are reloaded at every sync, so each step has its own.
\<close>

section \<open>Steps\<close>

datatype manager_event =
    Locked lock_input time time lock_response
  | JobUpdated string job_input
  | StatesSynced jobs_states
  | Started start_job_input bool time string
  | Synced time

record manager_env =
  me_rmatch :: "string \<Rightarrow> string \<Rightarrow> bool"
  me_arrange :: "queue_row list \<Rightarrow> queue_row list"
  me_repr :: "exn \<Rightarrow> string"
  me_next_run :: "string \<Rightarrow> time \<Rightarrow> time result"
  me_max_items :: nat

inductive manager_step :: "manager_env \<Rightarrow> db \<Rightarrow> manager_event \<Rightarrow> db \<Rightarrow> bool" for env where
  lock_step: "lock_jobs (me_rmatch env) (me_arrange env) (me_repr env) inp (me_max_items env) sd now now' d = Inr (r, d') \<Longrightarrow>
    now \<le> now' \<Longrightarrow> manager_step env d (Locked inp now now' r) d'"
| update_step: "api_update_job n i d = Inr d' \<Longrightarrow> manager_step env d (JobUpdated n i) d'"
| states_step: "manager_step env d (StatesSynced st) (sync_jobs_states st d)"
| start_step: "api_start_job inp sd restart now d = Inr (n, d') \<Longrightarrow> manager_step env d (Started inp restart now n) d'"
| sync_step: "manager_step env d (Synced now) (sync_jobs (me_next_run env) locked sd now d)"

inductive_cases lockedE: "manager_step env d (Locked inp now now' r) d'"

inductive manager_run :: "manager_env \<Rightarrow> db \<Rightarrow> manager_event list \<Rightarrow> db \<Rightarrow> bool" for env where
  run_Nil: "manager_run env d [] d"
| run_Cons: "manager_step env d e d1 \<Longrightarrow> manager_run env d1 es d' \<Longrightarrow> manager_run env d (e # es) d'"

inductive_simps run_Nil_iff [simp]: "manager_run env d [] d'"
inductive_simps run_Cons_iff [simp]: "manager_run env d (e # es) d'"

lemma run_append_iff: "manager_run env d (xs @ ys) d' \<longleftrightarrow> (\<exists>d1. manager_run env d xs d1 \<and> manager_run env d1 ys d')"
  by (induction xs arbitrary: d) auto

lemma run_invariant:
  assumes "manager_run env d es d'" and "P d"
    and "\<And>d e d'. e \<in> set es \<Longrightarrow> P d \<Longrightarrow> manager_step env d e d' \<Longrightarrow> P d'"
  shows "P d'"
  using assms
proof (induction es arbitrary: d)
  case (Cons e es)
  then obtain d1 where d1: "manager_step env d e d1" "manager_run env d1 es d'" by auto
  then have "P d1" using Cons.prems(2,3) by (meson list.set_intros(1))
  then show ?case by (rule Cons.IH [OF d1(2)]) (meson Cons.prems(3) list.set_intros(2))
qed simp

section \<open>What each request does to the rows\<close>

lemma progress_update_job_row:
  assumes "update_job_row (update_values c t e) n d = Inr d'" shows "jobs_progress d d'"
  using assms by (auto simp: update_job_row_def Let_def jobs_progress_def list_all2_map2 update_values_def
      split: if_splits option.splits intro!: list.rel_refl)

lemma progress_disable [intro]: "jobs_progress d (disable_queue n d)"
  by (auto simp: jobs_progress_def disable_queue_def update_queue_def intro!: list.rel_refl)

lemma progress_update_job: "update_job n c t e d = Inr d' \<Longrightarrow> jobs_progress d d'"
  by (auto simp: update_job_def close_job_queue_def rbind_Inr_iff split: option.splits if_splits
      dest: progress_update_job_row intro: jobs_progress_trans [OF progress_disable])

lemma progress_join_items:
  "join_items sd inp repr_exn now ns d = Inr (qs, d') \<Longrightarrow> jobs_progress d d'"
proof (induction ns arbitrary: d qs)
  case (Cons n ns)
  show ?case
  proof (cases "join_definitions sd d n")
    case (Inr q)
    with Cons show ?thesis by (auto simp: rbind_Inr_iff)
  next
    case (Inl e)
    with Cons.prems obtain d1 where d1: "(case job_of_queue n d of
        None \<Rightarrow> Inr d | Some j \<Rightarrow> set_failed (jr_name j) (repr_exn e) now d) = Inr d1"
      and r: "join_items sd inp repr_exn now ns d1 = Inr (qs, d')"
      by (auto simp: rbind_Inr_iff)
    have "jobs_progress d d1"
      using d1 by (cases "job_of_queue n d") (auto simp: set_failed_def dest: progress_update_job)
    from jobs_progress_trans [OF this Cons.IH [OF r]] show ?thesis .
  qed
qed auto

lemma db_ok_join_items:
  "join_items sd inp repr_exn now ns d = Inr (qs, d') \<Longrightarrow> db_ok d \<Longrightarrow> db_ok d'"
proof (induction ns arbitrary: d qs)
  case (Cons n ns)
  show ?case
  proof (cases "join_definitions sd d n")
    case (Inr q)
    with Cons show ?thesis by (auto simp: rbind_Inr_iff)
  next
    case (Inl e)
    with Cons.prems obtain d1 where d1: "(case job_of_queue n d of
        None \<Rightarrow> Inr d | Some j \<Rightarrow> set_failed (jr_name j) (repr_exn e) now d) = Inr d1"
      and r: "join_items sd inp repr_exn now ns d1 = Inr (qs, d')"
      by (auto simp: rbind_Inr_iff)
    have "db_ok d1"
      using d1 Cons.prems(2) by (cases "job_of_queue n d") (auto simp: set_failed_def dest: db_ok_update_job)
    from Cons.IH [OF r this] show ?thesis .
  qed
qed auto

lemma lock_jobs_rows:
  assumes "lock_jobs rmatch arrange repr_exn inp m sd now now' d = Inr (r, d')"
  shows "jobs_progress d d'" and "db_ok d \<Longrightarrow> db_ok d'"
    and "map qr_name (db_queues d') = map qr_name (db_queues d)"
proof -
  obtain names d1 qs d2 where c: "candidates rmatch arrange inp m now d = (names, d1)"
    and j: "join_items sd inp repr_exn now names d1 = Inr (qs, d2)"
    and d': "d' = fold (assign (li_worker_id inp) now') (map qi_name (lr_items r)) d2"
    using assms by (rule lock_parts)
  have jobs: "db_jobs d1 = db_jobs d" "db_jobs d' = db_jobs d2"
    using c by (auto simp: candidates_def Let_def fold_unassign d' fold_assign split: if_splits)
  note names1 = candidates_names [OF c]
  have names2: "map qr_name (db_queues d') = map qr_name (db_queues d2)" by (simp only: d' assign_names)
  show "jobs_progress d d'"
    using progress_join_items [OF j] by (simp add: jobs_progress_def jobs)
  show "map qr_name (db_queues d') = map qr_name (db_queues d)"
    by (simp only: names2 only_disabled_names [OF join_items_rows [OF j]] names1)
  assume "db_ok d"
  then have "db_ok d1" by (simp only: db_ok_def jobs names1)
  then have "db_ok d2" by (rule db_ok_join_items [OF j])
  then show "db_ok d'" by (simp only: db_ok_def jobs names2)
qed

lemma states_rows:
  "jobs_progress d (sync_jobs_states st d)" "only_disabled d (sync_jobs_states st d)"
proof -
  let ?f = "\<lambda>j. case dget st (jr_name j) of None \<Rightarrow> j | Some js \<Rightarrow> sync_job_row js j"
  have "jr_name (?f j) = jr_name j \<and> jr_definition (?f j) = jr_definition j \<and> jr_started_at (?f j) = jr_started_at j \<and>
      (jr_completed_at j \<noteq> None \<longrightarrow> jr_completed_at (?f j) \<noteq> None)" for j
    by (auto simp: sync_job_row_def Let_def split: option.splits)
  then show "jobs_progress d (sync_jobs_states st d)"
    by (simp add: jobs_progress_def sync_jobs_states_def Let_def fold_disable list_all2_map2 list_all2_same)
  have "only_disabled d (fold (\<lambda>(i, js). if js_completion js = None then id else disable_queue i) st d1)"
    if "only_disabled d d1" for d1
    using that
  proof (induction st arbitrary: d1)
    case (Cons x st)
    have "only_disabled d ((\<lambda>(i, js). if js_completion js = None then id else disable_queue i) x d1)"
      using Cons.prems by (auto split: prod.splits intro: only_disabled_trans)
    from Cons.IH [OF this] show ?case by simp
  qed simp
  then show "only_disabled d (sync_jobs_states st d)"
    by (simp add: sync_jobs_states_def Let_def)
qed

lemma held_insert:
  assumes "held w t n d" and "db_queues d' = db_queues d @ [q]" and "qr_name q \<notin> qr_name ` set (db_queues d)"
  shows "held w t n d'"
  using assms unfolding held_def by auto

text \<open>What an insertion keeps, a sync keeps.\<close>

lemma sync_keeps:
  assumes ins: "\<And>nj d d'. P d \<Longrightarrow> insert_new nj d = Inr d' \<Longrightarrow> P d'" and "P d"
  shows "P (sync_jobs next_run locked sd now d)"
proof -
  have com: "P (ss_db (commit s))" if "P (ss_db s)" for s
    by (rule commit_keeps [where P = P, OF that]) (rule ins)
  have static: "ss_db (fold (sync_static_job now) qs s) = ss_db s" for qs s
    by (induction qs arbitrary: s) (auto simp: sync_static_job_def)
  have "P (ss_db (sync_definition next_run now jd s))" if h: "P (ss_db s)" for jd s
  proof -
    have "P (ss_db (commit (s\<lparr>ss_new := x\<rparr>)))" for x by (rule com) (simp add: h)
    with h show ?thesis by (auto simp: sync_definition_def Let_def split: sum.splits bool.splits)
  qed
  then have "P (ss_db (fold (sync_definition next_run now) jds s))" if "P (ss_db s)" for jds s
    using that by (induction jds arbitrary: s) simp_all
  then have "P (sync_jobs_locked next_run sd now d)"
    unfolding sync_jobs_locked_def by (intro com) (simp add: static assms(2))
  with assms(2) show ?thesis by (simp add: sync_jobs_def)
qed

lemma held_sync:
  assumes "held w t n d" shows "held w t n (sync_jobs next_run locked sd now d)"
proof (rule sync_keeps [where P = "held w t n", OF _ assms])
  fix nj d d' assume h: "held w t n d" and i: "insert_new nj d = Inr d'"
  show "held w t n d'"
    by (rule held_insert [OF h insert_new_rows(2) [OF i]]) (simp add: insert_new_rows(3) [OF i])
qed

lemma db_ok_sync: "db_ok d \<Longrightarrow> db_ok (sync_jobs next_run locked sd now d)"
  by (rule sync_keeps [where P = db_ok]) (rule db_ok_insert_new)

lemma held_start:
  assumes "held w t n d" and "api_start_job inp sd restart now d = Inr (n', d')"
  shows "held w t n d'"
proof -
  obtain q job dn d1 d2 where c: "cancel_running job restart now d = Inr d1"
    and d2: "create_queue n' d1 = Inr d2" "create_job n' n' dn now d2 = Inr d'"
    using assms(2) by (auto simp: api_start_job_def start_def Let_def rbind_Inr_iff split: if_splits prod.splits option.splits)
  have "only_disabled d d1"
    using c by (auto simp: cancel_running_def split: option.splits if_splits dest: only_disabled_update_job)
  then have "held w t n d1" by (rule held_only_disabled [OF assms(1)])
  then show ?thesis
    by (rule held_insert [where q = "\<lparr>qr_name = n', qr_assigned_at = None, qr_assigned_to = None, qr_enabled = True\<rparr>"])
      (simp_all add: create_job_rows(2) [OF d2(2)] create_queue_rows [OF d2(1)])
qed

lemma db_ok_step: "manager_step env d e d' \<Longrightarrow> db_ok d \<Longrightarrow> db_ok d'"
proof (induction rule: manager_step.induct)
  case (update_step n i d d')
  then show ?case by (auto simp: api_update_job_def split: if_splits dest: db_ok_update_job)
next
  case (start_step inp sd restart now d n d')
  then show ?case by (auto simp: api_start_job_def split: if_splits dest: db_ok_start)
qed (auto simp: db_ok_sync_states db_ok_sync lock_jobs_rows)

lemma db_ok_run: "manager_run env d es d' \<Longrightarrow> db_ok d \<Longrightarrow> db_ok d'"
  by (erule run_invariant) (auto dest: db_ok_step)

section \<open>No item is given to two workers\<close>

text \<open>The requests of other workers that arrive before the assignment expires.\<close>

fun spares :: "string \<Rightarrow> time \<Rightarrow> manager_event \<Rightarrow> bool" where
  "spares w t (Locked inp now now' r) = (li_worker_id inp \<noteq> w \<and> now < t + lock_expiration)"
| "spares w t _ = True"

lemma held_step:
  assumes "row_order (me_arrange env)" and "manager_step env d e d'" and "db_ok d" and "held w t n d" and "spares w t e"
  shows "held w t n d'"
  using assms(2)
proof cases
  case (lock_step inp sd now now' r)
  have "distinct (map qr_name (db_queues d))" "w \<noteq> li_worker_id inp" "now < t + lock_expiration"
    using assms(3,5) lock_step(1) by (auto simp: db_ok_def)
  with lock_respects_held [OF assms(1) _ lock_step(2) assms(4)] show ?thesis by blast
next
  case (update_step n i)
  then show ?thesis
    using assms(4) by (auto simp: api_update_job_def split: if_splits dest: only_disabled_update_job held_only_disabled)
qed (use assms(4) in \<open>auto simp: held_sync intro: held_start held_only_disabled states_rows\<close>)

text \<open>
  C3: an item given to a worker is not given to another one as long as the assignment has not
  expired and the worker has not asked again, whatever requests of any kind come in between.
\<close>

theorem no_double_assignment:
  assumes "row_order (me_arrange env)" and "db_ok d0"
    and "manager_run env d0 (es @ Locked i1 a a' r1 # fs @ [Locked i2 b b' r2]) d"
    and "list_all (spares (li_worker_id i1) a') (fs @ [Locked i2 b b' r2])"
  shows "set (map qi_name (lr_items r1)) \<inter> set (map qi_name (lr_items r2)) = {}"
proof -
  obtain d1 d2 d3 where r1: "manager_run env d0 es d1" and l1: "manager_step env d1 (Locked i1 a a' r1) d2"
    and rf: "manager_run env d2 fs d3" and l2: "manager_step env d3 (Locked i2 b b' r2) d"
    using assms(3) by (auto simp: run_append_iff)
  have ok2: "db_ok d2" using db_ok_run [OF r1 assms(2)] db_ok_step [OF l1] by blast
  obtain sd where k1: "lock_jobs (me_rmatch env) (me_arrange env) (me_repr env) i1 (me_max_items env) sd a a' d1 = Inr (r1, d2)"
    using l1 by (rule lockedE)
  obtain sd' where k2: "lock_jobs (me_rmatch env) (me_arrange env) (me_repr env) i2 (me_max_items env) sd' b b' d3 = Inr (r2, d)"
    using l2 by (rule lockedE)
  have "n \<notin> qi_name ` set (lr_items r2)" if n: "n \<in> qi_name ` set (lr_items r1)" for n
  proof -
    have "held (li_worker_id i1) a' n d2" by (rule lock_holds [OF assms(1) k1 n])
    with ok2 have "db_ok d2 \<and> held (li_worker_id i1) a' n d2" by simp
    then have "db_ok d3 \<and> held (li_worker_id i1) a' n d3"
    proof (rule run_invariant [OF rf])
      fix d e d' assume "e \<in> set fs" "db_ok d \<and> held (li_worker_id i1) a' n d" "manager_step env d e d'"
      then show "db_ok d' \<and> held (li_worker_id i1) a' n d'"
        using assms(1,4) held_step db_ok_step by (auto simp: list_all_iff)
    qed
    then show ?thesis
      using lock_respects_held [OF assms(1) _ k2, of "li_worker_id i1" a' n] assms(4) by (auto simp: db_ok_def)
  qed
  then show ?thesis by auto
qed

section \<open>One active job per definition\<close>

text \<open>The times at which jobs are created, and the requests that create them for a definition.\<close>

fun creation_time :: "manager_event \<Rightarrow> time option" where
  "creation_time (Started inp restart now n) = Some now"
| "creation_time (Synced now) = Some now"
| "creation_time _ = None"

fun by_definition :: "manager_event \<Rightarrow> bool" where
  "by_definition (Started inp restart now n) = (\<not> struthy (sj_name inp))"
| "by_definition _ = True"

definition started_before :: "time \<Rightarrow> db \<Rightarrow> bool" where
  "started_before t d \<longleftrightarrow> (\<forall>j \<in> set (db_jobs d). jr_started_at j < t)"

lemma started_before_progress: "started_before t d \<Longrightarrow> jobs_progress d d' \<Longrightarrow> started_before t d'"
  unfolding started_before_def using jobs_progress_row by metis

lemma update_job_completes:
  assumes "update_job n c (Some t) e d = Inr d'" and "j \<in> set (db_jobs d')" and "jr_name j = n"
  shows "jr_completed_at j \<noteq> None"
proof -
  obtain d1 where "update_job_row (update_values c (Some t) e) n d1 = Inr d'"
    using assms(1) by (auto simp: update_job_def rbind_Inr_iff)
  then have "db_jobs d' = map (\<lambda>j. if jr_name j = n then update_values c (Some t) e j else j) (db_jobs d1)"
    by (simp add: update_job_row_def Let_def split: if_splits) (metis db.select_convs(2) db.surjective db.update_convs(2))
  with assms(2) have "\<exists>i \<in> set (db_jobs d1). j = (if jr_name i = n then update_values c (Some t) e i else i)"
    by (simp only: set_map image_iff)
  then obtain i where "j = (if jr_name i = n then update_values c (Some t) e i else i)" by blast
  then show ?thesis using assms(3) by (cases "jr_name i = n") (auto simp: update_values_def)
qed

lemma start_target_by_definition:
  assumes "\<not> struthy (sj_name inp)"
  shows "start_target inp sd d =
    (case (if struthy (sj_job_definition_name inp)
           then dget (sd_job_definitions sd) (the (sj_job_definition_name inp)) else None) of
       None \<Rightarrow> (None, None, sj_job_definition_name inp)
     | Some jd \<Rightarrow> (Some (jd_template jd), get_last_job (the (sj_job_definition_name inp)) d, sj_job_definition_name inp))"
  using assms by (simp add: start_target_def Let_def cong: option.case_cong)

lemma start_single_active:
  assumes "db_ok d" and "single_active d" and "started_before now d" and "\<not> struthy (sj_name inp)"
    and "api_start_job inp sd restart now d = Inr (n, d')"
  shows "single_active d' \<and> (\<forall>t > now. started_before t d')"
proof -
  obtain q job dn d1 d2 where t: "start_target inp sd d = (Some q, job, dn)"
    and c: "cancel_running job restart now d = Inr d1"
    and d2: "create_queue n d1 = Inr d2" "create_job n n dn now d2 = Inr d'"
    using assms(5) by (auto simp: api_start_job_def start_def Let_def rbind_Inr_iff split: if_splits prod.splits option.splits)
  have last: "\<exists>name. dn = Some name \<and> job = get_last_job name d"
  proof (cases "sj_job_definition_name inp")
    case None
    with t assms(4) show ?thesis by (simp add: start_target_by_definition)
  next
    case (Some name)
    with t assms(4) show ?thesis
      by (cases "name = []"; cases "dget (sd_job_definitions sd) name") (auto simp: start_target_by_definition intro!: exI [of _ name])
  qed
  then obtain name where dn: "dn = Some name" "job = get_last_job name d" by blast
  have p: "jobs_progress d d1"
    using c by (auto simp: cancel_running_def split: option.splits if_splits dest: progress_update_job)
  have ok1: "db_ok d1"
    using c assms(1) by (auto simp: cancel_running_def split: option.splits if_splits dest: db_ok_update_job)
  have s1: "single_active d1" by (rule single_active_progress [OF assms(2) p])
  have b1: "started_before now d1" by (rule started_before_progress [OF assms(3) p])
  have closed: "jr_completed_at j \<noteq> None" if j: "j \<in> set (db_jobs d1)" "jr_definition j = Some name" for j
  proof -
    obtain i where i: "i \<in> set (db_jobs d)" "jr_name j = jr_name i" "jr_definition i = Some name"
      "jr_completed_at i \<noteq> None \<longrightarrow> jr_completed_at j \<noteq> None"
      using jobs_progress_row [OF p j(1)] j(2) by auto
    then obtain l where l: "job = Some l" using dn(2) get_last_job_None [of name d] by (cases job) auto
    show ?thesis
    proof (cases "jr_completed_at l = None")
      case False
      then show ?thesis using last_completed_all [OF assms(1,2) _ False i(1,3)] dn(2) l i(4) by simp
    next
      case True
      with c l have u: "update_job (jr_name l) None (Some now) (Some ''Cancelled'') d = Inr d1"
        by (auto simp: cancel_running_def split: if_splits)
      note m = get_last_job_max [OF dn(2) [unfolded l, symmetric]]
      show ?thesis
      proof (cases "jr_name i = jr_name l")
        case True
        then show ?thesis using update_job_completes [OF u j(1)] i(2) by simp
      next
        case False
        then have "jr_completed_at i = None \<Longrightarrow> jr_started_at l < jr_started_at i"
          using assms(2) i(1,3) m unfolding single_active_def by simp
        then show ?thesis using m i by fastforce
      qed
    qed
  qed
  have jobs: "db_jobs d' = db_jobs d1 @ [\<lparr>jr_name = n, jr_cursor = None, jr_completed_at = None,
      jr_started_at = now, jr_queue_name = n, jr_error = None, jr_definition = dn\<rparr>]"
    by (simp add: create_job_rows(1) [OF d2(2)] create_queue_rows(2) [OF d2(1)])
  have "single_active d'"
    by (rule single_active_add [OF s1 jobs]) (use closed b1 dn in \<open>auto simp: started_before_def\<close>)
  moreover have "\<forall>t > now. started_before t d'"
    using b1 by (auto simp: jobs started_before_def)
  ultimately show ?thesis by simp
qed

lemma sync_single_active:
  assumes "db_ok d" and "single_active d" and "started_before now d"
  shows "single_active (sync_jobs next_run locked sd now d) \<and> (\<forall>t > now. started_before t (sync_jobs next_run locked sd now d))"
proof (cases locked)
  case True
  with assms show ?thesis by (auto simp: sync_jobs_def started_before_def)
next
  case False
  have "sync_inv now d" using assms by (simp add: sync_inv_def started_before_def)
  from sync_jobs_inv [OF this] False show ?thesis
    by (fastforce simp: sync_inv_def sync_jobs_def started_before_def)
qed

lemma progress_step:
  "manager_step env d e d' \<Longrightarrow> creation_time e = None \<Longrightarrow> jobs_progress d d'"
  by (erule manager_step.cases)
    (auto simp: lock_jobs_rows states_rows api_update_job_def split: if_splits dest: progress_update_job)

text \<open>
  C4: with a clock that moves between the requests that create jobs, no definition ever has two
  jobs that are not completed, as long as jobs are started by definition and by the schedule.
\<close>

theorem one_active_job:
  assumes "manager_run env d es d'" and "db_ok d" and "single_active d"
    and "sorted_wrt (<) (List.map_filter creation_time es)"
    and "\<forall>t \<in> set (List.map_filter creation_time es). started_before t d"
    and "list_all by_definition es"
  shows "length (active_jobs dn d') \<le> 1"
  using assms
proof (induction es arbitrary: d)
  case Nil
  then have "d' = d" by simp
  with single_active_length [OF Nil.prems(2,3)] show ?case by simp
next
  case (Cons e es)
  obtain d1 where s: "manager_step env d e d1" and r: "manager_run env d1 es d'" using Cons.prems(1) by auto
  have ok: "db_ok d1" using db_ok_step [OF s] Cons.prems(2) .
  show ?case
  proof (cases "creation_time e")
    case None
    have p: "jobs_progress d d1" by (rule progress_step [OF s None])
    show ?thesis
      by (rule Cons.IH [OF r ok single_active_progress [OF Cons.prems(3) p]])
        (use Cons.prems(4-6) None started_before_progress [OF _ p] in \<open>auto simp: List.map_filter_simps\<close>)
  next
    case (Some now)
    have before: "started_before now d" and later: "\<forall>t \<in> set (List.map_filter creation_time es). now < t"
      using Cons.prems(4,5) Some by (auto simp: List.map_filter_simps)
    have "single_active d1 \<and> (\<forall>t > now. started_before t d1)"
      using s
    proof cases
      case (start_step inp sd restart now' n)
      then show ?thesis
        using start_single_active [OF Cons.prems(2,3)] before Some Cons.prems(6) by auto
    next
      case (sync_step now' locked sd)
      then show ?thesis using sync_single_active [OF Cons.prems(2,3)] before Some by auto
    qed (use Some in auto)
    then have s1: "single_active d1" and b1: "\<forall>t \<in> set (List.map_filter creation_time es). started_before t d1"
      using later by auto
    show ?thesis
      by (rule Cons.IH [OF r ok s1 _ b1]) (use Cons.prems(4,6) Some in \<open>auto simp: List.map_filter_simps\<close>)
  qed
qed

section \<open>A concrete run\<close>

definition demo_env :: manager_env where
  "demo_env = \<lparr>me_rmatch = (\<lambda>_ _. True), me_arrange = id, me_repr = (\<lambda>_. ''error''),
     me_next_run = (\<lambda>_ t. Inr (t + 60)), me_max_items = 1\<rparr>"

definition demo_worker :: "string \<Rightarrow> lock_input" where
  "demo_worker w = \<lparr>li_worker_id = w, li_selector = None, li_executors = None\<rparr>"

definition demo_first :: "(lock_response \<times> db) result" where
  "demo_first = lock_jobs (\<lambda>_ _. True) id (\<lambda>_. ''error'') (demo_worker ''w1'') 1 demo_sd 0 0 demo_db"

text \<open>Two workers, each asking for one item: the first gets one of the two queues, the second the other.\<close>

lemma demo_two_locks:
  "\<exists>r1 r2 d1 d2.
     lock_jobs (\<lambda>_ _. True) id (\<lambda>_. ''error'') (demo_worker ''w1'') 1 demo_sd 0 0 demo_db = Inr (r1, d1) \<and>
     lock_jobs (\<lambda>_ _. True) id (\<lambda>_. ''error'') (demo_worker ''w2'') 1 demo_sd 5 5 d1 = Inr (r2, d2) \<and>
     map qi_name (lr_items r1) = [''j''] \<and> map qi_name (lr_items r2) = [''k'']"
  by (simp add: demo_simps demo_worker_def Let_def assign_def update_queue_def lock_expiration_def ticks_per_second_def)

lemma no_double_assignment_witness:
  "\<exists>r1 r2 d. manager_run demo_env demo_db [Locked (demo_worker ''w1'') 0 0 r1, Locked (demo_worker ''w2'') 5 5 r2] d \<and>
     map qi_name (lr_items r1) = [''j''] \<and> set (map qi_name (lr_items r1)) \<inter> set (map qi_name (lr_items r2)) = {}"
proof -
  obtain r1 r2 d1 d2 where
    l: "lock_jobs (\<lambda>_ _. True) id (\<lambda>_. ''error'') (demo_worker ''w1'') 1 demo_sd 0 0 demo_db = Inr (r1, d1)"
    "lock_jobs (\<lambda>_ _. True) id (\<lambda>_. ''error'') (demo_worker ''w2'') 1 demo_sd 5 5 d1 = Inr (r2, d2)"
    and n: "map qi_name (lr_items r1) = [''j'']"
    using demo_two_locks by (elim exE conjE) (rule that)
  have run: "manager_run demo_env demo_db ([] @ Locked (demo_worker ''w1'') 0 0 r1 # [] @ [Locked (demo_worker ''w2'') 5 5 r2]) d2"
    using lock_step [of demo_env "demo_worker ''w1''" demo_sd 0 0 demo_db r1 d1]
      lock_step [of demo_env "demo_worker ''w2''" demo_sd 5 5 d1 r2 d2] l
    by (auto simp: demo_env_def)
  have "row_order (me_arrange demo_env)" "db_ok demo_db"
    "list_all (spares (li_worker_id (demo_worker ''w1'')) 0) ([] @ [Locked (demo_worker ''w2'') 5 5 r2])"
    by (simp_all add: demo_env_def row_order_def demo_db_def demo_job_def db_ok_def job_row_ok_def demo_worker_def
        lock_expiration_def ticks_per_second_def)
  from no_double_assignment [OF this(1,2) run this(3)] run n show ?thesis
    by (intro exI [of _ r1] exI [of _ r2] exI [of _ d2]) simp
qed

definition demo_sched :: static_definitions where
  "demo_sched = empty_definitions\<lparr>sd_job_definitions :=
     [(''daily'', \<lparr>jd_name = ''daily'', jd_template = demo_item, jd_minimal_interval = ''* * * * *''\<rparr>)]\<rparr>"

definition empty_db :: db where
  "empty_db = \<lparr>db_queues = [], db_jobs = [], db_cursors = []\<rparr>"

definition demo_synced :: "time \<Rightarrow> db \<Rightarrow> db" where
  "demo_synced now d = sync_jobs (me_next_run demo_env) False demo_sched now d"

lemma demo_synced_once: "length (active_jobs ''daily'' (demo_synced 7 empty_db)) = 1"
  by (simp add: demo_synced_def sync_jobs_def sync_jobs_locked_def demo_sched_def empty_definitions_def empty_db_def
      sync_definition_def Let_def get_last_job_def due_def commit_def insert_new_def create_queue_def queue_row_of_def
      create_job_def get_job_def active_jobs_def resume_cursor_def)

lemma one_active_job_witness:
  "manager_run demo_env empty_db [Synced 7, Synced 9] (demo_synced 9 (demo_synced 7 empty_db)) \<and>
   length (active_jobs ''daily'' (demo_synced 7 empty_db)) = 1 \<and>
   length (active_jobs ''daily'' (demo_synced 9 (demo_synced 7 empty_db))) \<le> 1"
proof -
  have run: "manager_run demo_env empty_db [Synced 7, Synced 9] (demo_synced 9 (demo_synced 7 empty_db))"
    by (auto simp: demo_synced_def intro: sync_step)
  have "db_ok empty_db" "single_active empty_db" "list_all by_definition [Synced 7, Synced 9]"
    "sorted_wrt (<) (List.map_filter creation_time [Synced 7, Synced 9])"
    "\<forall>t \<in> set (List.map_filter creation_time [Synced 7, Synced 9]). started_before t empty_db"
    by (simp_all add: empty_db_def db_ok_def single_active_def started_before_def List.map_filter_simps)
  from one_active_job [OF run this(1,2,4,5,3)] run demo_synced_once show ?thesis by simp
qed

text \<open>
  Started by the name of a finished job, a definition can have two active jobs: the check looks
  at the named job only.
\<close>

definition two_jobs_db :: db where
  "two_jobs_db = \<lparr>db_queues = [], db_jobs =
     [\<lparr>jr_name = ''daily-1'', jr_cursor = None, jr_completed_at = Some 1, jr_started_at = 0, jr_queue_name = ''daily-1'',
        jr_error = None, jr_definition = Some ''daily''\<rparr>,
      \<lparr>jr_name = ''daily-2'', jr_cursor = None, jr_completed_at = None, jr_started_at = 2, jr_queue_name = ''daily-2'',
        jr_error = None, jr_definition = Some ''daily''\<rparr>], db_cursors = []\<rparr>"

lemma start_by_old_name_doubles:
  "length (active_jobs ''daily'' two_jobs_db) = 1 \<and>
   (\<exists>n d'. api_start_job \<lparr>sj_name = Some ''daily-1'', sj_job_definition_name = None\<rparr> demo_sched False 9 two_jobs_db = Inr (n, d') \<and>
     length (active_jobs ''daily'' d') = 2)"
  by (simp add: two_jobs_db_def demo_job_def api_start_job_def start_def start_target_def demo_sched_def
      empty_definitions_def Let_def get_job_def cancel_running_def job_name_at_def demo_item_def create_queue_def
      queue_row_of_def create_job_def active_jobs_def ticks_per_second_def int_str_def nat_str.simps digit_char_def)

end
