(* ===== verification/Resources.thy ===== *)
theory Resources
  imports Core_Types
begin

text \<open>
  \<open>worker/resources/manager.py\<close> and \<open>worker/resources/provider.py\<close>: pools of resources that are
  lent to one message at a time, rate limits, and the providers that fill the pools.

  A \<open>ResourceData\<close> is compared by identity (\<open>eq=False\<close>); its identity is a number here.
  Arguments: \<open>pick\<close> is the element \<open>set.pop\<close> takes, \<open>strategies\<close> the names the limits library
  knows, and the statistics of a rate limiter are the values it returned.
\<close>

section \<open>Pools\<close>

record resource_data =
  rd_name :: string
  rd_type :: string
  rd_data :: "(string, pyval) pydict"
  rd_default_delay :: time
  rd_rate_limit :: "rate_limit_item option"
  rd_state :: "(string, pyval) pydict option"

record exclusive_resources =
  er_availables :: "nat set"
  er_used :: "nat set"
  er_resources :: "(string, nat) pydict"
  er_limiters :: "string set"

definition empty_pool :: exclusive_resources where
  "empty_pool = \<lparr>er_availables = {}, er_used = {}, er_resources = [], er_limiters = {}\<rparr>"

text \<open>
  \<open>add\<close>; the exception it raises, if any, and the pool afterwards. An unknown strategy is only
  found once the resource is available.
\<close>

definition pool_add ::
  "string set \<Rightarrow> nat \<Rightarrow> resource_data \<Rightarrow> exclusive_resources \<Rightarrow> exn option \<times> exclusive_resources" where
  "pool_add strategies i r e =
     (if dhas (rd_name r) (er_resources e) then (Some (ValueError ''Cannot add a resource twice''), e)
      else let e1 = e\<lparr>er_availables := insert i (er_availables e),
                      er_resources := dset (rd_name r) i (er_resources e)\<rparr>
           in case rd_rate_limit r of
                None \<Rightarrow> (None, e1)
              | Some rl \<Rightarrow>
                  if rl_strategy rl \<in> strategies
                  then (None, e1\<lparr>er_limiters := insert (rd_name r) (er_limiters e1)\<rparr>)
                  else (Some (ValueError ''Cannot add resource, invalid rate limit strategy''), e1))"

definition pool_remove :: "string \<Rightarrow> exclusive_resources \<Rightarrow> exclusive_resources" where
  "pool_remove n e =
     (case dget (er_resources e) n of
        None \<Rightarrow> e
      | Some i \<Rightarrow> e\<lparr>er_resources := dpop n (er_resources e), er_availables := er_availables e - {i},
                     er_used := er_used e - {i}, er_limiters := er_limiters e - {n}\<rparr>)"

definition try_acquire ::
  "(nat set \<Rightarrow> nat) \<Rightarrow> exclusive_resources \<Rightarrow> nat option \<times> exclusive_resources" where
  "try_acquire pick e =
     (if er_availables e = {} then (None, e)
      else let i = pick (er_availables e)
           in (Some i, e\<lparr>er_availables := er_availables e - {i}, er_used := insert i (er_used e)\<rparr>))"

text \<open>\<open>acquire(wait=False)\<close>\<close>

definition acquire_nowait ::
  "(nat set \<Rightarrow> nat) \<Rightarrow> exclusive_resources \<Rightarrow> nat result \<times> exclusive_resources" where
  "acquire_nowait pick e =
     (case try_acquire pick e of (None, e') \<Rightarrow> (Inl ResourceUnavailable, e') | (Some i, e') \<Rightarrow> (Inr i, e'))"

text \<open>
  \<open>release\<close> tests membership before it waits for the lock, and removes under the lock. \<open>set.remove\<close>
  raises when the element is gone.
\<close>

definition release_locked :: "nat \<Rightarrow> exclusive_resources \<Rightarrow> exclusive_resources result" where
  "release_locked i e =
     (if i \<notin> er_used e then Inl (KeyError ''resource'')
      else Inr (e\<lparr>er_used := er_used e - {i}, er_availables := insert i (er_availables e)\<rparr>))"

definition pool_release :: "nat \<Rightarrow> exclusive_resources \<Rightarrow> exclusive_resources result" where
  "pool_release i e = (if i \<in> er_used e then release_locked i e else Inr e)"

section \<open>Exclusive use\<close>

text \<open>
  The operations of a pool in any order. A resource that is added is a new object, and a context
  gives its resource back once (it forgets it). \<open>rt_held\<close> are the resources of the contexts that
  have not released.
\<close>

datatype resource_op = RAdd nat resource_data | RRemove string | RAcquire | RRelease nat

record resource_trace =
  rt_pool :: exclusive_resources
  rt_held :: "nat list"
  rt_seen :: "nat set"

definition op_enabled :: "resource_op \<Rightarrow> resource_trace \<Rightarrow> bool" where
  "op_enabled ev s =
     (case ev of RAdd i r \<Rightarrow> i \<notin> rt_seen s | RRelease i \<Rightarrow> i \<in> set (rt_held s) | _ \<Rightarrow> True)"

definition resource_step ::
  "string set \<Rightarrow> (nat set \<Rightarrow> nat) \<Rightarrow> resource_op \<Rightarrow> resource_trace \<Rightarrow> resource_trace" where
  "resource_step strategies pick ev s =
     (case ev of
        RAdd i r \<Rightarrow> s\<lparr>rt_pool := snd (pool_add strategies i r (rt_pool s)), rt_seen := insert i (rt_seen s)\<rparr>
      | RRemove n \<Rightarrow> s\<lparr>rt_pool := pool_remove n (rt_pool s)\<rparr>
      | RAcquire \<Rightarrow>
          (case acquire_nowait pick (rt_pool s) of
             (Inl _, e) \<Rightarrow> s
           | (Inr i, e) \<Rightarrow> s\<lparr>rt_pool := e, rt_held := rt_held s @ [i]\<rparr>)
      | RRelease i \<Rightarrow>
          (case pool_release i (rt_pool s) of
             Inl _ \<Rightarrow> s
           | Inr e \<Rightarrow> s\<lparr>rt_pool := e, rt_held := remove1 i (rt_held s)\<rparr>))"

fun resource_run ::
  "string set \<Rightarrow> (nat set \<Rightarrow> nat) \<Rightarrow> resource_op list \<Rightarrow> resource_trace \<Rightarrow> resource_trace" where
  "resource_run strategies pick [] s = s"
| "resource_run strategies pick (ev # evs) s =
     (if op_enabled ev s then resource_run strategies pick evs (resource_step strategies pick ev s)
      else resource_run strategies pick evs s)"

definition registered :: "exclusive_resources \<Rightarrow> nat set" where
  "registered e = set (dvalues (er_resources e))"

definition pool_inv :: "resource_trace \<Rightarrow> bool" where
  "pool_inv s \<longleftrightarrow>
     wfd (er_resources (rt_pool s)) \<and> distinct (dvalues (er_resources (rt_pool s))) \<and>
     er_availables (rt_pool s) \<inter> set (rt_held s) = {} \<and>
     er_used (rt_pool s) = registered (rt_pool s) \<inter> set (rt_held s) \<and>
     er_availables (rt_pool s) \<union> er_used (rt_pool s) = registered (rt_pool s) \<and>
     distinct (rt_held s) \<and> registered (rt_pool s) \<subseteq> rt_seen s \<and> set (rt_held s) \<subseteq> rt_seen s"

lemma set_dvalues_dpop:
  assumes "wfd d" and "distinct (dvalues d)" and "dget d n = Some i"
  shows "set (dvalues (dpop n d)) = set (dvalues d) - {i} \<and> distinct (dvalues (dpop n d))"
  using assms
proof (induction d)
  case (Cons p d)
  obtain k v where p: "p = (k, v)" by (cases p)
  show ?case
  proof (cases "k = n")
    case True
    with Cons.prems p have "n \<notin> set (dkeys d)" by (simp add: wfd_def)
    then have "dpop n d = d" by (simp add: dpop_def delete_id)
    with True Cons.prems p show ?thesis by (auto simp: dpop_def)
  next
    case False
    with Cons.prems p have "wfd d" "distinct (dvalues d)" "dget d n = Some i" by (auto simp: wfd_def)
    with Cons.IH have IH: "set (dvalues (dpop n d)) = set (dvalues d) - {i}" "distinct (dvalues (dpop n d))" by auto
    have "v \<noteq> i" using Cons.prems p dget_in_set [OF \<open>dget d n = Some i\<close>] by force
    moreover have "v \<notin> set (dvalues d)" using Cons.prems p by simp
    ultimately show ?thesis using False IH p by (auto simp: dpop_def)
  qed
qed simp

lemma pool_add_inv:
  assumes "pool_inv s" and "i \<notin> rt_seen s"
  shows "pool_inv (s\<lparr>rt_pool := snd (pool_add st i r (rt_pool s)), rt_seen := insert i (rt_seen s)\<rparr>)"
proof -
  let ?e = "rt_pool s"
  have i: "i \<notin> registered ?e" "i \<notin> set (rt_held s)" using assms by (auto simp: pool_inv_def)
  show ?thesis
  proof (cases "dhas (rd_name r) (er_resources ?e)")
    case True
    with assms show ?thesis by (auto simp: pool_add_def pool_inv_def)
  next
    case False
    then have new: "dset (rd_name r) i (er_resources ?e) = er_resources ?e @ [(rd_name r, i)]"
      by (intro dset_new) (simp add: dhas_def)
    have e: "er_availables (snd (pool_add st i r ?e)) = insert i (er_availables ?e)"
      "er_used (snd (pool_add st i r ?e)) = er_used ?e"
      "er_resources (snd (pool_add st i r ?e)) = er_resources ?e @ [(rd_name r, i)]"
      using False new by (auto simp: pool_add_def Let_def split: option.splits)
    have "wfd (er_resources ?e @ [(rd_name r, i)])"
      using assms(1) False by (simp add: pool_inv_def wfd_def dhas_def)
    with assms(1) i show ?thesis
      by (auto simp: pool_inv_def e registered_def simp del: set_map)
  qed
qed

lemma pool_remove_inv:
  assumes "pool_inv s" shows "pool_inv (s\<lparr>rt_pool := pool_remove n (rt_pool s)\<rparr>)"
proof (cases "dget (er_resources (rt_pool s)) n")
  case None
  with assms show ?thesis by (simp add: pool_remove_def)
next
  case (Some i)
  have "wfd (er_resources (rt_pool s))" "distinct (dvalues (er_resources (rt_pool s)))"
    using assms by (simp_all add: pool_inv_def)
  from set_dvalues_dpop [OF this Some] assms show ?thesis
    by (auto simp: pool_remove_def Some pool_inv_def registered_def simp del: set_map)
qed

lemma resource_step_inv:
  assumes "pool_inv s" and "op_enabled ev s" and pick: "\<And>S. S \<noteq> {} \<Longrightarrow> pick S \<in> S"
  shows "pool_inv (resource_step st pick ev s)"
proof (cases ev)
  case (RAdd i r)
  with assms show ?thesis using pool_add_inv by (simp add: resource_step_def op_enabled_def)
next
  case (RRemove n)
  with assms show ?thesis using pool_remove_inv by (simp add: resource_step_def)
next
  case RAcquire
  show ?thesis
  proof (cases "er_availables (rt_pool s) = {}")
    case True
    with assms RAcquire show ?thesis by (simp add: resource_step_def acquire_nowait_def try_acquire_def)
  next
    case False
    define i where "i = pick (er_availables (rt_pool s))"
    have "i \<in> er_availables (rt_pool s)" using pick [OF False] by (simp add: i_def)
    moreover from this have "i \<in> registered (rt_pool s)" "i \<in> rt_seen s"
      using assms(1) by (auto simp: pool_inv_def)
    moreover have "resource_step st pick ev s =
        s\<lparr>rt_pool := (rt_pool s)\<lparr>er_availables := er_availables (rt_pool s) - {i}, er_used := insert i (er_used (rt_pool s))\<rparr>,
          rt_held := rt_held s @ [i]\<rparr>"
      using False RAcquire by (simp add: resource_step_def acquire_nowait_def try_acquire_def Let_def i_def)
    ultimately show ?thesis using assms(1)
      by (auto simp: pool_inv_def registered_def simp del: set_map)
  qed
next
  case (RRelease i)
  with assms show ?thesis
    by (auto simp: resource_step_def op_enabled_def pool_release_def release_locked_def pool_inv_def registered_def
        simp del: set_map)
qed

definition empty_trace :: resource_trace where
  "empty_trace = \<lparr>rt_pool = empty_pool, rt_held = [], rt_seen = {}\<rparr>"

lemma resource_run_inv:
  assumes "\<And>S. S \<noteq> {} \<Longrightarrow> pick S \<in> S"
  shows "pool_inv s \<Longrightarrow> pool_inv (resource_run st pick evs s)"
  by (induction evs arbitrary: s) (auto intro: resource_step_inv [OF _ _ assms])

lemma empty_trace_inv: "pool_inv empty_trace"
  by (simp add: pool_inv_def empty_trace_def empty_pool_def registered_def)

text \<open>
  C12: resources are exclusive and none leaks. Whatever is added, removed, acquired and released
  in whatever order, no two contexts hold the same resource; a registered resource is available
  exactly when no context holds it, so once every context has released all of them are available.
\<close>

theorem resources_exclusive:
  assumes "\<And>S. S \<noteq> {} \<Longrightarrow> pick S \<in> S"
  shows "distinct (rt_held (resource_run st pick evs empty_trace)) \<and>
    er_availables (rt_pool (resource_run st pick evs empty_trace)) =
      registered (rt_pool (resource_run st pick evs empty_trace)) - set (rt_held (resource_run st pick evs empty_trace))"
  using resource_run_inv [where pick = pick, OF assms empty_trace_inv, of st evs]
  by (auto simp: pool_inv_def)

definition demo_rd :: "string \<Rightarrow> resource_data" where
  "demo_rd n = \<lparr>rd_name = n, rd_type = ''T'', rd_data = [], rd_default_delay = 0, rd_rate_limit = None, rd_state = None\<rparr>"

definition first_of :: "nat set \<Rightarrow> nat" where
  "first_of S = (LEAST x. x \<in> S)"

definition demo_ops :: "resource_op list" where
  "demo_ops = [RAdd 1 (demo_rd ''a''), RAcquire, RAdd 2 (demo_rd ''b''), RAcquire, RRelease 1]"

lemma demo_ops_run: "rt_held (resource_run {} first_of demo_ops empty_trace) = [2]"
proof -
  have "first_of {i} = i" for i unfolding first_of_def by (rule Least_equality) auto
  then show ?thesis
    by (simp add: demo_ops_def empty_trace_def empty_pool_def op_enabled_def resource_step_def pool_add_def demo_rd_def
        dset_def dhas_def acquire_nowait_def try_acquire_def Let_def pool_release_def release_locked_def)
qed

lemma resources_exclusive_witness:
  "rt_held (resource_run {} first_of demo_ops empty_trace) = [2] \<and>
   er_availables (rt_pool (resource_run {} first_of demo_ops empty_trace)) =
     registered (rt_pool (resource_run {} first_of demo_ops empty_trace)) - {2}"
proof -
  have "S \<noteq> {} \<Longrightarrow> first_of S \<in> S" for S unfolding first_of_def by (auto intro: LeastI)
  from resources_exclusive [of first_of, OF this] demo_ops_run show ?thesis by simp
qed

text \<open>
  A resource removed while in use and added again under the same name is a new object: the name
  is lent twice.
\<close>

lemma removed_name_lent_twice:
  "rt_held (resource_run {} Min [RAdd 1 (demo_rd ''a''), RAcquire, RRemove ''a'', RAdd 2 (demo_rd ''a''), RAcquire] empty_trace)
     = [1, 2]"
  by (simp add: empty_trace_def empty_pool_def op_enabled_def resource_step_def pool_add_def demo_rd_def dset_def
      dhas_def acquire_nowait_def try_acquire_def Let_def pool_remove_def dpop_def)

text \<open>A release that loses the race for the lock against a removal raises.\<close>

lemma release_race:
  assumes "i \<in> er_used e" and "dget (er_resources e) n = Some i"
  shows "release_locked i (pool_remove n e) = Inl (KeyError ''resource'')"
  using assms by (simp add: pool_remove_def release_locked_def)

text \<open>A resource with an unknown strategy raises, and is available all the same.\<close>

lemma invalid_strategy_is_added:
  assumes "\<not> dhas (rd_name r) (er_resources e)" and "rd_rate_limit r = Some rl" and "rl_strategy rl \<notin> strategies"
  shows "fst (pool_add strategies i r e) \<noteq> None \<and> i \<in> er_availables (snd (pool_add strategies i r e))"
  using assms by (simp add: pool_add_def)

section \<open>Contexts: delays and rate limits\<close>

record resource_context =
  rc_resource :: "nat option"
  rc_release_at :: "time option"

text \<open>A float that an \<open>if\<close> tests: \<open>None\<close> and 0 are false.\<close>

definition time_truthy :: "time option \<Rightarrow> bool" where
  "time_truthy t \<longleftrightarrow> t \<noteq> None \<and> t \<noteq> Some 0"

text \<open>
  \<open>_apply_rate_limit\<close> on the \<open>(reset_time, remaining)\<close> pairs of the limits, and \<open>__aenter__\<close>;
  \<open>limited\<close> tells whether the resource has a limiter and a rate limit.
\<close>

definition apply_rate_limit :: "(time \<times> int) list \<Rightarrow> resource_context \<Rightarrow> resource_context" where
  "apply_rate_limit stats c =
     (let release_ats = map fst (filter (\<lambda>(reset, remaining). remaining \<le> 1) stats)
      in if release_ats = [] then c
         else let m = Max (set release_ats)
              in if \<not> time_truthy (rc_release_at c) \<or> m > the (rc_release_at c)
                 then c\<lparr>rc_release_at := Some m\<rparr> else c)"

definition enter_context ::
  "time \<Rightarrow> resource_data \<Rightarrow> bool \<Rightarrow> (time \<times> int) list \<Rightarrow> resource_context \<Rightarrow> resource_context result" where
  "enter_context now r limited stats c =
     (if rc_resource c = None then Inl (ValueError ''Cannot enter a released context'')
      else let c1 = (if rd_default_delay r \<noteq> 0 then c\<lparr>rc_release_at := Some (now + rd_default_delay r)\<rparr> else c)
           in Inr (if limited then apply_rate_limit stats c1 else c1))"

text \<open>\<open>update_resources_used\<close> calls \<open>release_later\<close> with the value the pipeline yields.\<close>

definition release_later :: "time \<Rightarrow> resource_context \<Rightarrow> resource_context" where
  "release_later t c = c\<lparr>rc_release_at := Some t\<rparr>"

text \<open>
  \<open>release\<close>: the identity given back and the time at which it is, now or after sleeping; a context
  gives back at most once.
\<close>

definition context_release :: "time \<Rightarrow> resource_context \<Rightarrow> (nat \<times> time) option \<times> resource_context" where
  "context_release now c =
     (case rc_resource c of
        None \<Rightarrow> (None, c)
      | Some i \<Rightarrow>
          (Some (i, if time_truthy (rc_release_at c) then max now (the (rc_release_at c)) else now),
           c\<lparr>rc_resource := None\<rparr>))"

lemma context_releases_once: "fst (context_release t' (snd (context_release t c))) = None"
  by (simp add: context_release_def split: option.splits)

definition new_context :: "nat \<Rightarrow> resource_context" where
  "new_context i = \<lparr>rc_resource = Some i, rc_release_at = None\<rparr>"

lemma apply_rate_limit_le:
  assumes "(reset, remaining) \<in> set stats" and "remaining \<le> 1" and "0 < reset"
  shows "\<exists>t. rc_release_at (apply_rate_limit stats c) = Some t \<and> reset \<le> t \<and> 0 < t"
proof -
  let ?ats = "map fst (filter (\<lambda>(reset, remaining). remaining \<le> 1) stats)"
  have mem: "reset \<in> set ?ats" using assms(1,2) by force
  then have ne: "?ats \<noteq> []" by (metis empty_iff list.set(1))
  have le: "reset \<le> Max (set ?ats)" using mem by simp
  show ?thesis
  proof (cases "\<not> time_truthy (rc_release_at c) \<or> Max (set ?ats) > the (rc_release_at c)")
    case True
    with ne le assms(3) show ?thesis by (simp add: apply_rate_limit_def Let_def)
  next
    case False
    then obtain t where "rc_release_at c = Some t" "Max (set ?ats) \<le> t" by (auto simp: time_truthy_def)
    with False ne le assms(3) show ?thesis by (auto simp: apply_rate_limit_def Let_def)
  qed
qed

lemma apply_rate_limit_keeps:
  assumes "rc_release_at c = Some t" and "0 < t"
  shows "\<exists>t'. rc_release_at (apply_rate_limit stats c) = Some t' \<and> t \<le> t' \<and> rc_resource (apply_rate_limit stats c) = rc_resource c"
  using assms by (auto simp: apply_rate_limit_def Let_def time_truthy_def)

text \<open>
  C37: a rate limited resource is not given back early: when entering used up a limit, or the
  resource has a delay, leaving the context returns it no earlier than the limit's reset and than
  the delay allow (unless the pipeline itself asked for a time).
\<close>

theorem rate_limit_respected:
  assumes "enter_context now r True stats (new_context i) = Inr c" and "0 < now" and "0 \<le> rd_default_delay r"
    and "fst (context_release later c) = Some (j, at)"
  shows "j = i \<and> later \<le> at \<and> (rd_default_delay r \<noteq> 0 \<longrightarrow> now + rd_default_delay r \<le> at) \<and>
    (\<forall>(reset, remaining) \<in> set stats. remaining \<le> 1 \<and> 0 < reset \<longrightarrow> reset \<le> at)"
proof -
  define c1 where "c1 = (if rd_default_delay r \<noteq> 0 then (new_context i)\<lparr>rc_release_at := Some (now + rd_default_delay r)\<rparr>
    else new_context i)"
  have c: "c = apply_rate_limit stats c1"
    using assms(1) by (simp add: enter_context_def Let_def c1_def new_context_def split: if_splits)
  have res: "rc_resource c = Some i"
    by (simp add: c apply_rate_limit_def Let_def c1_def new_context_def)
  then have j: "j = i" and at: "at = (if time_truthy (rc_release_at c) then max later (the (rc_release_at c)) else later)"
    using assms(4) by (simp_all add: context_release_def)
  have reset: "reset \<le> at" if s: "(reset, remaining) \<in> set stats" "remaining \<le> 1" "0 < reset" for reset remaining
    using apply_rate_limit_le [OF s, of c1] by (auto simp: c [symmetric] at time_truthy_def)
  have delay: "now + rd_default_delay r \<le> at" if d: "rd_default_delay r \<noteq> 0"
  proof -
    have "rc_release_at c1 = Some (now + rd_default_delay r)" "0 < now + rd_default_delay r"
      using d assms(2,3) by (simp_all add: c1_def)
    from apply_rate_limit_keeps [OF this, of stats] \<open>0 < now + _\<close> show ?thesis
      by (auto simp: c [symmetric] at time_truthy_def)
  qed
  from j at reset delay show ?thesis by (auto simp: at)
qed

lemma rate_limit_respected_witness:
  "\<exists>c. enter_context 100 (demo_rd ''a'') True [(160, 1), (130, 5)] (new_context 7) = Inr c \<and>
     fst (context_release 105 c) = Some (7, 160)"
proof -
  have c: "enter_context 100 (demo_rd ''a'') True [(160, 1), (130, 5)] (new_context 7)
      = Inr \<lparr>rc_resource = Some 7, rc_release_at = Some 160\<rparr>" (is "_ = Inr ?c")
    by (simp add: enter_context_def demo_rd_def new_context_def apply_rate_limit_def time_truthy_def)
  have r: "fst (context_release 105 ?c) = Some (7, 160)" by (simp add: context_release_def time_truthy_def)
  from rate_limit_respected [OF c _ _ r] c r show ?thesis by (auto simp: demo_rd_def)
qed

text \<open>The time a pipeline asks for replaces the one the rate limit set, also by an earlier one.\<close>

lemma release_later_overrides:
  "rc_release_at (release_later t (apply_rate_limit stats c)) = Some t"
  by (simp add: release_later_def)

section \<open>Acquiring several types\<close>

text \<open>
  \<open>acquire_many\<close> takes its types in sorted order and waits for each. A caller is the types it
  still has to take and those it holds; once it holds all, it works and gives them back. \<open>avail\<close>
  counts the available resources of each type.
\<close>

record acquirer =
  aq_todo :: "string list"
  aq_held :: "string list"

definition acquire_many :: "string set \<Rightarrow> acquirer" where
  "acquire_many types = \<lparr>aq_todo = sorted_list_of_set types, aq_held = []\<rparr>"

record acquire_state =
  as_avail :: "string \<Rightarrow> nat"
  as_callers :: "acquirer list"

inductive acquire_step :: "acquire_state \<Rightarrow> acquire_state \<Rightarrow> bool" where
  arrive: "finite types \<Longrightarrow> acquire_step s (s\<lparr>as_callers := as_callers s @ [acquire_many types]\<rparr>)"
| take_type: "i < length (as_callers s) \<Longrightarrow> as_callers s ! i = \<lparr>aq_todo = ty # tys, aq_held = hs\<rparr> \<Longrightarrow> 0 < as_avail s ty \<Longrightarrow>
    acquire_step s (s\<lparr>as_avail := (as_avail s)(ty := as_avail s ty - 1),
      as_callers := (as_callers s)[i := \<lparr>aq_todo = tys, aq_held = hs @ [ty]\<rparr>]\<rparr>)"
| give_back: "i < length (as_callers s) \<Longrightarrow> as_callers s ! i = \<lparr>aq_todo = [], aq_held = hs\<rparr> \<Longrightarrow>
    acquire_step s (s\<lparr>as_avail := (\<lambda>ty. as_avail s ty + count_list hs ty),
      as_callers := take i (as_callers s) @ drop (Suc i) (as_callers s)\<rparr>)"

definition held_of :: "string \<Rightarrow> acquirer list \<Rightarrow> nat" where
  "held_of ty cs = sum_list (map (\<lambda>c. count_list (aq_held c) ty) cs)"

definition acquire_inv :: "(string \<Rightarrow> nat) \<Rightarrow> acquire_state \<Rightarrow> bool" where
  "acquire_inv cap s \<longleftrightarrow>
     (\<forall>ty. as_avail s ty + held_of ty (as_callers s) = cap ty) \<and>
     (\<forall>c \<in> set (as_callers s). sorted_wrt (<) (aq_held c @ aq_todo c))"

lemma held_of_split:
  "i < length cs \<Longrightarrow> held_of ty cs = held_of ty (take i cs @ drop (Suc i) cs) + count_list (aq_held (cs ! i)) ty"
  by (subst (1) id_take_nth_drop [of i cs]) (auto simp: held_of_def)

lemma held_of_update:
  "i < length cs \<Longrightarrow> held_of ty (cs[i := c]) = held_of ty (take i cs @ drop (Suc i) cs) + count_list (aq_held c) ty"
  by (simp add: upd_conv_take_nth_drop held_of_def)

lemma acquire_step_inv:
  assumes "acquire_step s s'" and "acquire_inv cap s"
  shows "acquire_inv cap s'"
  using assms(1)
proof cases
  case (arrive types)
  with assms(2) show ?thesis
    by (auto simp: acquire_inv_def held_of_def acquire_many_def)
next
  case (take_type i ty tys hs)
  let ?cs = "as_callers s"
  have "as_avail s t + held_of t ?cs = cap t" for t using assms(2) by (simp add: acquire_inv_def)
  moreover have "held_of t ?cs = held_of t (take i ?cs @ drop (Suc i) ?cs) + count_list hs t" for t
    using held_of_split [OF take_type(2)] take_type(3) by simp
  moreover have "held_of t (?cs[i := \<lparr>aq_todo = tys, aq_held = hs @ [ty]\<rparr>])
      = held_of t (take i ?cs @ drop (Suc i) ?cs) + count_list (hs @ [ty]) t" for t
    using held_of_update [OF take_type(2)] by simp
  ultimately have "as_avail s' t + held_of t (as_callers s') = cap t" for t
    using take_type(1,4) by (cases "t = ty") (fastforce simp: count_list_append)+
  moreover have "sorted_wrt (<) (aq_held c @ aq_todo c)" if "c \<in> set (as_callers s')" for c
  proof -
    have "c = \<lparr>aq_todo = tys, aq_held = hs @ [ty]\<rparr> \<or> c \<in> set ?cs"
      using that take_type(1) set_update_subset_insert [of ?cs i] by auto
    moreover have "sorted_wrt (<) (hs @ ty # tys)"
      using assms(2) nth_mem [OF take_type(2)] take_type(3) by (force simp: acquire_inv_def)
    ultimately show ?thesis using assms(2) by (auto simp: acquire_inv_def)
  qed
  ultimately show ?thesis by (simp add: acquire_inv_def)
next
  case (give_back i hs)
  have "held_of t (as_callers s) = held_of t (as_callers s') + count_list hs t" for t
    using held_of_split [OF give_back(2)] give_back(1,3) by simp
  moreover have "set (as_callers s') \<subseteq> set (as_callers s)"
    using give_back(1) by (auto dest: in_set_takeD in_set_dropD)
  moreover have "as_avail s' t = as_avail s t + count_list hs t" for t using give_back(1) by simp
  moreover have "as_avail s t + held_of t (as_callers s) = cap t" for t using assms(2) by (simp add: acquire_inv_def)
  ultimately have "as_avail s' t + held_of t (as_callers s') = cap t" for t by (metis add.assoc add.commute)
  with \<open>set (as_callers s') \<subseteq> _\<close> assms(2) show ?thesis unfolding acquire_inv_def by blast
qed

lemma held_of_pos: "0 < held_of ty cs \<longleftrightarrow> (\<exists>c \<in> set cs. ty \<in> set (aq_held c))"
  by (induction cs) (auto simp: held_of_def count_list_0_iff intro: gr0I)

text \<open>A caller goes on when it has everything or the next type it needs is available.\<close>

definition can_go_on :: "acquire_state \<Rightarrow> acquirer \<Rightarrow> bool" where
  "can_go_on s c = (case aq_todo c of [] \<Rightarrow> True | ty # _ \<Rightarrow> 0 < as_avail s ty)"

text \<open>
  C36: callers that wait for several types never deadlock: whatever callers came, took and gave
  back in whatever order, if each type that is asked for has at least one resource, some caller
  can go on.
\<close>

theorem acquire_many_no_deadlock:
  assumes "acquire_step\<^sup>*\<^sup>* \<lparr>as_avail = cap, as_callers = []\<rparr> s" and "as_callers s \<noteq> []"
    and "\<forall>c \<in> set (as_callers s). \<forall>ty \<in> set (aq_todo c). 0 < cap ty"
  shows "\<exists>c \<in> set (as_callers s). can_go_on s c"
proof (rule ccontr)
  assume stuck: "\<not> (\<exists>c \<in> set (as_callers s). can_go_on s c)"
  let ?cs = "as_callers s"
  have inv: "acquire_inv cap s"
    using assms(1)
  proof (induction rule: rtranclp_induct)
    case base
    then show ?case by (simp add: acquire_inv_def held_of_def)
  next
    case (step y z)
    then show ?case using acquire_step_inv by blast
  qed
  have waits: "aq_todo c \<noteq> [] \<and> as_avail s (hd (aq_todo c)) = 0" if "c \<in> set ?cs" for c
    using stuck that by (cases "aq_todo c") (auto simp: can_go_on_def)
  define m where "m = Max ((\<lambda>c. hd (aq_todo c)) ` set ?cs)"
  have "m \<in> (\<lambda>c. hd (aq_todo c)) ` set ?cs" unfolding m_def using assms(2) by (intro Max_in) auto
  then obtain c where c: "c \<in> set ?cs" "m = hd (aq_todo c)" by blast
  then have "m \<in> set (aq_todo c)" using waits by simp
  with assms(3) c(1) have "0 < cap m" by blast
  moreover have "as_avail s m = 0" using waits c by simp
  ultimately have "0 < held_of m ?cs" using inv unfolding acquire_inv_def by (metis add_0)
  then obtain d where d: "d \<in> set ?cs" "m \<in> set (aq_held d)" by (auto simp: held_of_pos)
  have "sorted_wrt (<) (aq_held d @ aq_todo d)" using inv d(1) by (simp add: acquire_inv_def)
  then have "m < hd (aq_todo d)" using d waits by (auto simp: sorted_wrt_append)
  moreover have "hd (aq_todo d) \<le> m" unfolding m_def using d(1) by (intro Max_ge) auto
  ultimately show False by simp
qed

definition demo_cap :: "string \<Rightarrow> nat" where
  "demo_cap ty = 1"

lemma demo_acquire:
  "\<exists>s. acquire_step\<^sup>*\<^sup>* \<lparr>as_avail = demo_cap, as_callers = []\<rparr> s \<and>
     as_callers s = [\<lparr>aq_todo = [''b''], aq_held = [''a'']\<rparr>, \<lparr>aq_todo = [''a'', ''b''], aq_held = []\<rparr>]"
proof -
  have sorted: "sorted_list_of_set {''a'', ''b''} = [''a'', ''b'']" by (simp add: insort_key.simps)
  let ?s1 = "\<lparr>as_avail = demo_cap, as_callers = [acquire_many {''a'', ''b''}]\<rparr>"
  let ?s2 = "\<lparr>as_avail = demo_cap, as_callers = [acquire_many {''a'', ''b''}, acquire_many {''a'', ''b''}]\<rparr>"
  let ?s3 = "\<lparr>as_avail = demo_cap(''a'' := 0), as_callers =
    [\<lparr>aq_todo = [''b''], aq_held = [''a'']\<rparr>, \<lparr>aq_todo = [''a'', ''b''], aq_held = []\<rparr>]\<rparr>"
  have "acquire_step \<lparr>as_avail = demo_cap, as_callers = []\<rparr> ?s1"
    using arrive [of "{''a'', ''b''}" "\<lparr>as_avail = demo_cap, as_callers = []\<rparr>"] by simp
  moreover have "acquire_step ?s1 ?s2" using arrive [of "{''a'', ''b''}" ?s1] by simp
  moreover have "acquire_step ?s2 ?s3"
    using take_type [of 0 ?s2 "''a''" "[''b'']" "[]"] by (simp add: acquire_many_def sorted demo_cap_def)
  ultimately have "acquire_step\<^sup>*\<^sup>* \<lparr>as_avail = demo_cap, as_callers = []\<rparr> ?s3"
    by (meson rtranclp.rtrancl_into_rtrancl rtranclp.rtrancl_refl)
  then show ?thesis by force
qed

lemma acquire_many_no_deadlock_witness:
  "\<exists>s. acquire_step\<^sup>*\<^sup>* \<lparr>as_avail = demo_cap, as_callers = []\<rparr> s \<and> length (as_callers s) = 2 \<and>
     (\<exists>c \<in> set (as_callers s). can_go_on s c)"
proof -
  obtain s where s: "acquire_step\<^sup>*\<^sup>* \<lparr>as_avail = demo_cap, as_callers = []\<rparr> s"
    "as_callers s = [\<lparr>aq_todo = [''b''], aq_held = [''a'']\<rparr>, \<lparr>aq_todo = [''a'', ''b''], aq_held = []\<rparr>]"
    using demo_acquire by (elim exE conjE) (rule that)
  have "as_callers s \<noteq> []" "\<forall>c \<in> set (as_callers s). \<forall>ty \<in> set (aq_todo c). 0 < demo_cap ty"
    by (simp_all add: s(2) demo_cap_def)
  from acquire_many_no_deadlock [OF s(1) this] show ?thesis
    by (intro exI [of _ s] conjI s(1)) (simp_all add: s(2))
qed

section \<open>Providers\<close>

record resources_manager =
  rm_pools :: "string \<Rightarrow> exclusive_resources"
  rm_next :: nat

definition manager_add ::
  "string set \<Rightarrow> resource_data \<Rightarrow> resources_manager \<Rightarrow> exn option \<times> resources_manager" where
  "manager_add st r m =
     (case pool_add st (rm_next m) r (rm_pools m (rd_type r)) of
        (e, p) \<Rightarrow> (e, m\<lparr>rm_pools := (rm_pools m)(rd_type r := p), rm_next := Suc (rm_next m)\<rparr>))"

definition manager_remove :: "string \<Rightarrow> string \<Rightarrow> resources_manager \<Rightarrow> resources_manager" where
  "manager_remove ty n m = m\<lparr>rm_pools := (rm_pools m)(ty := pool_remove n (rm_pools m ty))\<rparr>"

record provided_resource =
  pr_name :: string
  pr_data :: "(string, pyval) pydict"
  pr_default_delay :: time
  pr_rate_limit :: "rate_limit_item option"

text \<open>A provider is the type it provides and the names it manages.\<close>

definition provided_data :: "string \<Rightarrow> provided_resource \<Rightarrow> resource_data" where
  "provided_data ty x = \<lparr>rd_name = pr_name x, rd_type = ty, rd_data = pr_data x,
     rd_default_delay = pr_default_delay x, rd_rate_limit = pr_rate_limit x, rd_state = None\<rparr>"

definition provider_add ::
  "string set \<Rightarrow> string \<Rightarrow> provided_resource \<Rightarrow> string set \<times> resources_manager \<Rightarrow>
     exn option \<times> string set \<times> resources_manager" where
  "provider_add st ty x s =
     (if pr_name x \<in> fst s then (None, s)
      else case manager_add st (provided_data ty x) (snd s) of (e, m) \<Rightarrow> (e, insert (pr_name x) (fst s), m))"

definition provider_remove :: "string \<Rightarrow> string \<Rightarrow> string set \<times> resources_manager \<Rightarrow> string set \<times> resources_manager" where
  "provider_remove ty n s = (fst s - {n}, manager_remove ty n (snd s))"

fun provider_add_all ::
  "string set \<Rightarrow> string \<Rightarrow> provided_resource list \<Rightarrow> string set \<times> resources_manager \<Rightarrow>
     exn option \<times> string set \<times> resources_manager" where
  "provider_add_all st ty [] s = (None, s)"
| "provider_add_all st ty (x # xs) s =
     (case provider_add st ty x s of
        (Some e, s') \<Rightarrow> (Some e, s')
      | (None, s') \<Rightarrow> provider_add_all st ty xs s')"

text \<open>\<open>PeriodicSyncProvider.update\<close>; the names to remove are a set, sorted here.\<close>

definition provider_update ::
  "string set \<Rightarrow> string \<Rightarrow> provided_resource list \<Rightarrow> string set \<times> resources_manager \<Rightarrow>
     exn option \<times> string set \<times> resources_manager" where
  "provider_update st ty xs s =
     (case provider_add_all st ty xs s of
        (Some e, s') \<Rightarrow> (Some e, s')
      | (None, s') \<Rightarrow> (None, fold (provider_remove ty) (sorted_list_of_set (fst s' - set (map pr_name xs))) s'))"

definition provider_close :: "string \<Rightarrow> string set \<times> resources_manager \<Rightarrow> string set \<times> resources_manager" where
  "provider_close ty s = fold (provider_remove ty) (sorted_list_of_set (fst s)) s"

definition pool_names :: "string \<Rightarrow> resources_manager \<Rightarrow> string set" where
  "pool_names ty m = set (dkeys (er_resources (rm_pools m ty)))"

lemma manager_add_names:
  "manager_add st r m = (None, m') \<Longrightarrow>
     pool_names ty m' = (if ty = rd_type r then insert (rd_name r) (pool_names ty m) else pool_names ty m)"
  by (auto simp: manager_add_def pool_add_def pool_names_def Let_def set_dkeys_dset simp del: set_map
      split: prod.splits if_splits option.splits)

lemma provider_add_all_names:
  "provider_add_all st ty xs s = (None, s') \<Longrightarrow> fst s \<subseteq> pool_names ty (snd s) \<Longrightarrow>
     fst s' = fst s \<union> set (map pr_name xs) \<and> pool_names ty (snd s') = pool_names ty (snd s) \<union> set (map pr_name xs)"
proof (induction xs arbitrary: s)
  case (Cons x xs)
  then obtain s1 where s1: "provider_add st ty x s = (None, s1)" "provider_add_all st ty xs s1 = (None, s')"
    by (auto split: prod.splits option.splits)
  have one: "fst s1 = insert (pr_name x) (fst s) \<and> pool_names ty (snd s1) = insert (pr_name x) (pool_names ty (snd s))"
  proof (cases "pr_name x \<in> fst s")
    case True
    with s1(1) Cons.prems(2) show ?thesis by (auto simp: provider_add_def)
  next
    case False
    then obtain m where m: "manager_add st (provided_data ty x) (snd s) = (None, m)" "s1 = (insert (pr_name x) (fst s), m)"
      using s1(1) by (auto simp: provider_add_def split: prod.splits)
    from manager_add_names [OF m(1), of ty] m(2) show ?thesis by (simp add: provided_data_def)
  qed
  then have "fst s1 \<subseteq> pool_names ty (snd s1)" using Cons.prems(2) by auto
  from Cons.IH [OF s1(2) this] one show ?case by auto
qed simp

lemma manager_remove_names: "pool_names ty (manager_remove ty n m) = pool_names ty m - {n}"
proof -
  have "dget (er_resources (rm_pools m ty)) n = None \<longleftrightarrow> n \<notin> pool_names ty m"
    by (simp add: pool_names_def dget_None_iff del: set_map)
  then show ?thesis
    by (auto simp: manager_remove_def pool_remove_def pool_names_def dkeys_dpop simp del: set_map split: option.splits)
qed

lemma provider_removes_names:
  "fst (fold (provider_remove ty) ns s) = fst s - set ns \<and>
   pool_names ty (snd (fold (provider_remove ty) ns s)) = pool_names ty (snd s) - set ns"
  by (induction ns arbitrary: s) (auto simp: provider_remove_def manager_remove_names)

text \<open>
  A provider converges to what its source returned: an update that does not fail leaves the
  provider managing exactly the names returned, adds all of them to the pool of its type, removes
  those it managed before and that are gone, and leaves the resources of others alone.
\<close>

theorem provider_update_converges:
  assumes "provider_update st ty xs s = (None, s')" and "finite (fst s)" and "fst s \<subseteq> pool_names ty (snd s)"
  shows "fst s' = set (map pr_name xs) \<and>
    pool_names ty (snd s') = (pool_names ty (snd s) - fst s) \<union> set (map pr_name xs)"
proof -
  obtain s1 where s1: "provider_add_all st ty xs s = (None, s1)"
    and s': "s' = fold (provider_remove ty) (sorted_list_of_set (fst s1 - set (map pr_name xs))) s1"
    using assms(1) by (auto simp: provider_update_def split: prod.splits option.splits)
  note a = provider_add_all_names [OF s1 assms(3)]
  have "finite (fst s1)" using a assms(2) by simp
  with provider_removes_names [of ty "sorted_list_of_set (fst s1 - set (map pr_name xs))" s1] a assms(3)
  show ?thesis unfolding s' by auto
qed

definition demo_provided :: "string \<Rightarrow> provided_resource" where
  "demo_provided n = \<lparr>pr_name = n, pr_data = [], pr_default_delay = 0, pr_rate_limit = None\<rparr>"

definition empty_manager :: resources_manager where
  "empty_manager = \<lparr>rm_pools = (\<lambda>_. empty_pool), rm_next = 0\<rparr>"

lemma provider_update_converges_witness:
  "\<exists>s'. provider_update {} ''T'' [demo_provided ''a''] ({}, empty_manager) = (None, s') \<and> fst s' = {''a''} \<and>
     pool_names ''T'' (snd s') = {''a''}"
proof -
  obtain s' where s': "provider_update {} ''T'' [demo_provided ''a''] ({}, empty_manager) = (None, s')"
    by (simp add: provider_update_def provider_add_def manager_add_def pool_add_def demo_provided_def provided_data_def
        empty_manager_def empty_pool_def)
  from provider_update_converges [OF s'] s' show ?thesis
    by (auto simp: pool_names_def empty_manager_def empty_pool_def demo_provided_def)
qed

text \<open>
  A provider that returns the name of a resource it does not own fails to add it but counts it as
  managed, and removes the other's resource when it closes.
\<close>

definition owned_elsewhere :: resources_manager where
  "owned_elsewhere = snd (manager_add {} (demo_rd ''a'') empty_manager)"

lemma provider_removes_foreign_resource:
  "\<exists>e s'. provider_update {} ''T'' [demo_provided ''a''] ({}, owned_elsewhere) = (Some e, s') \<and>
     ''a'' \<in> pool_names ''T'' owned_elsewhere \<and> ''a'' \<notin> pool_names ''T'' (snd (provider_close ''T'' s'))"
  by (simp add: provider_update_def provider_add_def manager_add_def pool_add_def demo_provided_def provided_data_def
      empty_manager_def empty_pool_def owned_elsewhere_def demo_rd_def dset_def provider_close_def provider_remove_def
      manager_remove_def pool_remove_def dpop_def pool_names_def)

end
