(* ===== verification/Work_Manager.thy ===== *)
theory Work_Manager
  imports Lock_Service Resources
begin

text \<open>
  The worker's side of the synchronisation: \<open>worker/work_factory.py\<close>, \<open>worker/work_manager.py\<close>,
  \<open>worker/executors/manager.py\<close> and \<open>Broker.run_sync\<close> of \<open>worker/broker.py\<close>.

  Arguments: \<open>import_name\<close> finds a class by its path and says what it is a subclass of,
  \<open>from_options\<close> builds an object of a class from its options, \<open>popen\<close> and \<open>pclose\<close> are a
  provider's \<open>_open\<close> and \<open>_close\<close>, which act on the resources manager. The sets of names to add
  and to drop are taken in the order of the dicts they come from.
\<close>

section \<open>Building work\<close>

datatype klass = InventoryClass | TopicClass | OtherClass

definition item_builtins :: "(string, klass) pydict" where
  "item_builtins = [
     (''DummyInventory'', InventoryClass), (''StaticInventory'', InventoryClass), (''ChainedInventory'', InventoryClass),
     (''PeriodicInventory'', InventoryClass), (''BatchingInventory'', InventoryClass), (''DelayedTopic'', TopicClass),
     (''DummyTopic'', TopicClass), (''FileTopic'', TopicClass), (''LoggingTopic'', TopicClass),
     (''MemoryTopic'', TopicClass), (''PeriodicTopic'', TopicClass), (''RabbitMQTopic'', TopicClass),
     (''StaticTopic'', TopicClass), (''BatchingTopic'', TopicClass), (''NullTopic'', TopicClass)]"

record built_item =
  bi_class :: klass
  bi_name :: string
  bi_options :: "(string, pyval) pydict"

definition build_item ::
  "(string \<Rightarrow> klass option result) \<Rightarrow> (string \<Rightarrow> (string, pyval) pydict \<Rightarrow> unit result) \<Rightarrow>
     component_definition \<Rightarrow> built_item result" where
  "build_item import_name from_options c =
     rbind (case dget item_builtins (cd_type c) of Some k \<Rightarrow> Inr (Some k) | None \<Rightarrow> import_name (cd_type c)) (\<lambda>k.
       let options = dor [(''name'', PStr (cd_name c))] (cd_options c)
       in case k of
            None \<Rightarrow> Inl (ValueError ''Unknown topic type'')
          | Some OtherClass \<Rightarrow> Inl (ValueError ''must be a Topic or Inventory'')
          | Some kl \<Rightarrow> rbind (from_options (cd_type c) options) (\<lambda>_.
              Inr \<lparr>bi_class = kl, bi_name = cd_name c, bi_options = options\<rparr>))"

text \<open>The input of a queue: a topic, or the job that runs an inventory.\<close>

datatype queue_input = InputTopic built_item | InputJob built_item

record executable_queue =
  eq_definition :: queue_item_with_state
  eq_topic :: queue_input
  eq_output :: "(string, built_item list) pydict"

definition eq_name :: "executable_queue \<Rightarrow> string" where
  "eq_name q = qi_name (eq_definition q)"

definition eq_executor :: "executable_queue \<Rightarrow> string" where
  "eq_executor q = qi_executor (eq_definition q)"

definition component_outputs :: "output_definition list \<Rightarrow> component_definition list" where
  "component_outputs outs = List.map_filter (\<lambda>t. case t of OutComponent c \<Rightarrow> Some c | OutHandler _ \<Rightarrow> None) outs"

definition build ::
  "(string \<Rightarrow> klass option result) \<Rightarrow> (string \<Rightarrow> (string, pyval) pydict \<Rightarrow> unit result) \<Rightarrow>
     queue_item_with_state \<Rightarrow> executable_queue result" where
  "build import_name from_options q =
     rbind (build_item import_name from_options (qi_input q)) (\<lambda>inp.
     rbind (mapM (\<lambda>(k, ts). rbind (mapM (build_item import_name from_options) (component_outputs ts))
              (\<lambda>outs. Inr (k, filter (\<lambda>b. bi_class b = TopicClass) outs))) (qi_output q)) (\<lambda>outputs.
     Inr \<lparr>eq_definition = q,
          eq_topic = (if bi_class inp = InventoryClass then InputJob inp else InputTopic inp),
          eq_output = outputs\<rparr>))"

lemma build_definition: "build imp fo q = Inr x \<Longrightarrow> eq_definition x = q"
  by (auto simp: build_def rbind_Inr_iff)

section \<open>Work manager\<close>

record 'a items_sync =
  sy_add :: "'a list"
  sy_drop :: "'a list"

record work_sync =
  ws_queues :: "executable_queue items_sync"
  ws_resources :: "resource_data items_sync"
  ws_providers :: "resources_provider_item items_sync"
  ws_executors :: "component_definition items_sync"

record work_manager =
  wm_items :: "(string, executable_queue) pydict"
  wm_resources :: "(string, resource_data) pydict"
  wm_providers :: "(string, resources_provider_item) pydict"
  wm_executors :: "(string, component_definition) pydict"

text \<open>\<open>{item.name: item for item in xs}\<close>\<close>

definition by_name :: "('a \<Rightarrow> string) \<Rightarrow> 'a list \<Rightarrow> (string, 'a) pydict" where
  "by_name name xs = fold (\<lambda>x. dset (name x) x) xs []"

text \<open>
  What the \<open>load_\<close> methods share: the new names are built (a name that fails to build is left
  out), and the names that are gone are popped.
\<close>

definition load_sync ::
  "('a \<Rightarrow> 'b option) \<Rightarrow> (string, 'a) pydict \<Rightarrow> (string, 'b) pydict \<Rightarrow> 'b items_sync \<times> (string, 'b) pydict" where
  "load_sync mk sync_items current =
     (let add = filter (\<lambda>(k, _). \<not> dhas k current) sync_items;
          drop = filter (\<lambda>(k, _). \<not> dhas k sync_items) current;
          added = List.map_filter (\<lambda>(k, x). map_option (Pair k) (mk x)) add
      in (\<lparr>sy_add = dvalues added, sy_drop = dvalues drop\<rparr>, fold dpop (dkeys drop) (dor current added)))"

definition build_resource_data :: "resource_item \<Rightarrow> resource_data" where
  "build_resource_data r = \<lparr>rd_name = ri_name r, rd_type = ri_type r, rd_data = ri_data r,
     rd_default_delay = ri_default_delay r, rd_rate_limit = ri_rate_limit r, rd_state = None\<rparr>"

definition load_queues ::
  "(queue_item_with_state \<Rightarrow> executable_queue result) \<Rightarrow> lock_response \<Rightarrow> work_manager \<Rightarrow>
     executable_queue items_sync \<times> work_manager" where
  "load_queues mkq r wm =
     (case load_sync (\<lambda>q. case mkq q of Inl _ \<Rightarrow> None | Inr x \<Rightarrow> Some x) (by_name qi_name (lr_items r)) (wm_items wm) of
        (s, items) \<Rightarrow> (s, wm\<lparr>wm_items := items\<rparr>))"

definition load_resources :: "lock_response \<Rightarrow> work_manager \<Rightarrow> resource_data items_sync \<times> work_manager" where
  "load_resources r wm =
     (case load_sync (\<lambda>x. Some (build_resource_data x)) (by_name ri_name (lr_resources r)) (wm_resources wm) of
        (s, items) \<Rightarrow> (s, wm\<lparr>wm_resources := items\<rparr>))"

text \<open>A provider that cannot be built raises, before anything of the providers is recorded.\<close>

definition load_resources_providers ::
  "(resources_provider_item \<Rightarrow> unit result) \<Rightarrow> lock_response \<Rightarrow> work_manager \<Rightarrow>
     resources_provider_item items_sync result \<times> work_manager" where
  "load_resources_providers pbuild r wm =
     (case mapM (\<lambda>(k, p). pbuild p)
        (filter (\<lambda>(k, _). \<not> dhas k (wm_providers wm)) (by_name rpi_name (lr_providers r))) of
        Inl e \<Rightarrow> (Inl e, wm)
      | Inr _ \<Rightarrow>
          (case load_sync Some (by_name rpi_name (lr_providers r)) (wm_providers wm) of
             (s, items) \<Rightarrow> (Inr s, wm\<lparr>wm_providers := items\<rparr>)))"

definition load_executors :: "lock_response \<Rightarrow> work_manager \<Rightarrow> component_definition items_sync \<times> work_manager" where
  "load_executors r wm =
     (case load_sync Some (by_name cd_name (lr_executors r)) (wm_executors wm) of
        (s, items) \<Rightarrow> (s, wm\<lparr>wm_executors := items\<rparr>))"

text \<open>\<open>sync\<close> after the lock: what it returns or raises, and the work manager it leaves behind.\<close>

definition wm_sync ::
  "(queue_item_with_state \<Rightarrow> executable_queue result) \<Rightarrow> (resources_provider_item \<Rightarrow> unit result) \<Rightarrow>
     lock_response \<Rightarrow> work_manager \<Rightarrow> work_sync result \<times> work_manager" where
  "wm_sync mkq pbuild r wm =
     (case load_queues mkq r wm of (qs, wm1) \<Rightarrow>
      case load_resources r wm1 of (rs, wm2) \<Rightarrow>
      case load_resources_providers pbuild r wm2 of
        (Inl e, wm3) \<Rightarrow> (Inl e, wm3)
      | (Inr ps, wm3) \<Rightarrow>
          (case load_executors r wm3 of (es, wm4) \<Rightarrow>
             (Inr \<lparr>ws_queues = qs, ws_resources = rs, ws_providers = ps, ws_executors = es\<rparr>, wm4)))"

section \<open>Executors manager\<close>

text \<open>The executors by name, each with the queues its scheduler holds.\<close>

type_synonym executors_manager = "(string, executable_queue list) pydict"

definition add_executor ::
  "(component_definition \<Rightarrow> unit result) \<Rightarrow> component_definition \<Rightarrow> executors_manager \<Rightarrow> executors_manager result" where
  "add_executor xbuild c em =
     (if dhas (cd_name c) em then Inl (ValueError ''Executor already defined'')
      else rbind (xbuild c) (\<lambda>_. Inr (dset (cd_name c) [] em)))"

definition add_queue :: "executable_queue \<Rightarrow> executors_manager \<Rightarrow> executors_manager result" where
  "add_queue q em =
     (case dget em (eq_executor q) of
        None \<Rightarrow> Inl (ValueError ''Executor missing'')
      | Some qs \<Rightarrow> Inr (dset (eq_executor q) (qs @ [q]) em))"

definition remove_queue :: "executable_queue \<Rightarrow> executors_manager \<Rightarrow> executors_manager" where
  "remove_queue q em =
     (case dget em (eq_executor q) of
        None \<Rightarrow> em
      | Some qs \<Rightarrow> dset (eq_executor q) (removeAll q qs) em)"

definition remove_executor :: "component_definition \<Rightarrow> executors_manager \<Rightarrow> executors_manager result" where
  "remove_executor c em =
     (if dhas (cd_name c) em then Inr (dpop (cd_name c) em) else Inl (ValueError ''Executor missing''))"

section \<open>The broker's loop\<close>

text \<open>A \<open>for\<close> loop whose body may raise.\<close>

fun each :: "('a \<Rightarrow> 's \<Rightarrow> 's result) \<Rightarrow> 'a list \<Rightarrow> 's \<Rightarrow> 's result" where
  "each f [] s = Inr s"
| "each f (x # xs) s = rbind (f x s) (each f xs)"

definition add_resource :: "string set \<Rightarrow> resource_data \<Rightarrow> resources_manager \<Rightarrow> resources_manager result" where
  "add_resource st r m = (case manager_add st r m of (None, m') \<Rightarrow> Inr m' | (Some e, _) \<Rightarrow> Inl e)"

record broker =
  bk_work :: work_manager
  bk_executors :: executors_manager
  bk_resources :: resources_manager

record broker_env =
  be_build :: "queue_item_with_state \<Rightarrow> executable_queue result"
  be_pbuild :: "resources_provider_item \<Rightarrow> unit result"
  be_xbuild :: "component_definition \<Rightarrow> unit result"
  be_strategies :: "string set"
  be_popen :: "resources_provider_item \<Rightarrow> resources_manager \<Rightarrow> resources_manager result"
  be_pclose :: "resources_provider_item \<Rightarrow> resources_manager \<Rightarrow> resources_manager result"

text \<open>The part of \<open>run_sync\<close> outside of the \<open>try\<close>: an error ends the broker.\<close>

definition apply_sync :: "broker_env \<Rightarrow> work_sync \<Rightarrow> executors_manager \<times> resources_manager \<Rightarrow>
    (executors_manager \<times> resources_manager) result" where
  "apply_sync env ws s =
     rbind (each (add_executor (be_xbuild env)) (sy_add (ws_executors ws)) (fst s)) (\<lambda>em1.
     rbind (each add_queue (sy_add (ws_queues ws)) em1) (\<lambda>em2.
     rbind (each (add_resource (be_strategies env)) (sy_add (ws_resources ws)) (snd s)) (\<lambda>rm1.
     rbind (each (be_popen env) (sy_add (ws_providers ws)) rm1) (\<lambda>rm2.
     rbind (each (be_pclose env) (sy_drop (ws_providers ws)) rm2) (\<lambda>rm3.
     let rm4 = fold (\<lambda>r. manager_remove (rd_type r) (rd_name r)) (sy_drop (ws_resources ws)) rm3;
         em3 = fold remove_queue (sy_drop (ws_queues ws)) em2
     in rbind (each remove_executor (sy_drop (ws_executors ws)) em3) (\<lambda>em4. Inr (em4, rm4)))))))"

text \<open>
  One round: \<open>Inl\<close> when the broker dies; a sync that raises is logged and the loop goes on, with
  the work manager as the sync left it.
\<close>

definition broker_round :: "broker_env \<Rightarrow> lock_response result \<Rightarrow> broker \<Rightarrow> broker result" where
  "broker_round env resp b =
     (case resp of
        Inl _ \<Rightarrow> Inr b
      | Inr r \<Rightarrow>
          (case wm_sync (be_build env) (be_pbuild env) r (bk_work b) of
             (Inl _, wm) \<Rightarrow> Inr (b\<lparr>bk_work := wm\<rparr>)
           | (Inr ws, wm) \<Rightarrow>
               rbind (apply_sync env ws (bk_executors b, bk_resources b)) (\<lambda>(em, rm).
                 Inr \<lparr>bk_work = wm, bk_executors = em, bk_resources = rm\<rparr>)))"

section \<open>What a sync leaves\<close>

lemma by_name_spec:
  "wfd (by_name name xs) \<and> set (dkeys (by_name name xs)) = name ` set xs \<and> keyed name (by_name name xs) \<and>
   set (dvalues (by_name name xs)) \<subseteq> set xs"
proof -
  have "wfd (fold (\<lambda>x. dset (name x) x) xs d) \<and> set (dkeys (fold (\<lambda>x. dset (name x) x) xs d)) = set (dkeys d) \<union> name ` set xs \<and>
      keyed name (fold (\<lambda>x. dset (name x) x) xs d) \<and> set (dvalues (fold (\<lambda>x. dset (name x) x) xs d)) \<subseteq> set (dvalues d) \<union> set xs"
    if "wfd d" "keyed name d" for d
    using that
  proof (induction xs arbitrary: d)
    case (Cons x xs)
    have "wfd (dset (name x) x d)" "keyed name (dset (name x) x d)" using Cons.prems by (simp_all add: keyed_dset)
    note IH = Cons.IH [OF this]
    have "set (dvalues (dset (name x) x d)) \<subseteq> insert x (set (dvalues d))"
      unfolding dset_def by (induction d) auto
    with IH show ?case by (auto simp: set_dkeys_dset simp del: set_map)
  qed simp
  from this [of "[]"] show ?thesis by (simp add: by_name_def)
qed

lemma fold_dpop: "dget (fold dpop ks d) = (\<lambda>k. if k \<in> set ks then None else dget d k)"
  by (induction ks arbitrary: d) (auto simp: fun_eq_iff)

lemma wfd_fold_dpop: "wfd d \<Longrightarrow> wfd (fold dpop ks d)"
  by (induction ks arbitrary: d) auto

lemma map_filter_keys: "fst ` set (List.map_filter (\<lambda>(k, x). map_option (Pair k) (mk x)) d) \<subseteq> fst ` set d"
  by (force simp: List.map_filter_def)

lemma dget_map_filter:
  "wfd d \<Longrightarrow> dget (List.map_filter (\<lambda>(k, x). map_option (Pair k) (mk x)) d) k = Option.bind (dget d k) mk"
proof (induction d)
  case (Cons p d)
  obtain k' x where p: "p = (k', x)" by (cases p)
  have "wfd d" using Cons.prems by (simp add: wfd_def)
  moreover have "dget (List.map_filter (\<lambda>(k, x). map_option (Pair k) (mk x)) d) k' = None"
    using Cons.prems p map_filter_keys [of mk d] by (auto simp: wfd_def dget_None_iff)
  ultimately show ?case using Cons.IH by (cases "mk x") (auto simp: p List.map_filter_simps)
qed (simp add: List.map_filter_simps)

lemma wfd_map_filter: "wfd d \<Longrightarrow> wfd (List.map_filter (\<lambda>(k, x). map_option (Pair k) (mk x)) d)"
proof (induction d)
  case (Cons p d)
  obtain k' x where p: "p = (k', x)" by (cases p)
  with Cons map_filter_keys [of mk d] show ?case by (cases "mk x") (auto simp: List.map_filter_simps wfd_def)
qed (simp add: List.map_filter_simps)

lemma load_sync_spec:
  assumes "load_sync mk S C = (s, C')" and "wfd S" and "wfd C"
  shows "wfd C'"
    and "dget C' k = (case dget S k of None \<Rightarrow> None | Some x \<Rightarrow> (case dget C k of Some y \<Rightarrow> Some y | None \<Rightarrow> mk x))"
    and "y \<in> set (sy_add s) \<longleftrightarrow> (\<exists>k x. dget S k = Some x \<and> dget C k = None \<and> mk x = Some y)"
    and "y \<in> set (sy_drop s) \<longleftrightarrow> (\<exists>k. dget S k = None \<and> dget C k = Some y)"
proof -
  let ?add = "filter (\<lambda>(k, _). \<not> dhas k C) S" and ?drop = "filter (\<lambda>(k, _). \<not> dhas k S) C"
  let ?added = "List.map_filter (\<lambda>(k, x). map_option (Pair k) (mk x)) ?add"
  have s: "s = \<lparr>sy_add = dvalues ?added, sy_drop = dvalues ?drop\<rparr>" and C': "C' = fold dpop (dkeys ?drop) (dor C ?added)"
    using assms(1) by (simp_all add: load_sync_def Let_def)
  have wadd: "wfd ?add" "wfd ?drop" using assms(2,3) by simp_all
  have gadd: "dget ?add k = (if dget C k = None then dget S k else None)" for k
    using dget_filter [of "\<lambda>k. \<not> dhas k C" S k] by (simp add: dhas_iff_dget)
  have gdrop: "dget ?drop k = (if dget S k = None then dget C k else None)" for k
    using dget_filter [of "\<lambda>k. \<not> dhas k S" C k] by (simp add: dhas_iff_dget)
  have gadded: "dget ?added k = (if dget C k = None then Option.bind (dget S k) mk else None)" for k
    by (simp add: dget_map_filter [OF wadd(1)] gadd)
  have wadded: "wfd ?added" by (rule wfd_map_filter [OF wadd(1)])
  show "wfd C'" unfolding C' by (intro wfd_fold_dpop wfd_dor assms(3))
  have dropped: "k \<in> set (dkeys ?drop) \<longleftrightarrow> dget S k = None \<and> dget C k \<noteq> None" for k
    using gdrop [of k] dget_None_iff [of ?drop k] by (auto split: if_splits)
  show "dget C' k = (case dget S k of None \<Rightarrow> None | Some x \<Rightarrow> (case dget C k of Some y \<Rightarrow> Some y | None \<Rightarrow> mk x))"
    unfolding C' fold_dpop dropped dget_dor [OF wadded]
    by (auto simp: map_add_def gadded split: option.splits)
  show "y \<in> set (sy_add s) \<longleftrightarrow> (\<exists>k x. dget S k = Some x \<and> dget C k = None \<and> mk x = Some y)"
  proof -
    have "y \<in> set (dvalues ?added) \<longleftrightarrow> (\<exists>k. dget ?added k = Some y)"
      using wadded by (force simp: wfd_dget_iff image_iff)
    also have "\<dots> \<longleftrightarrow> (\<exists>k x. dget S k = Some x \<and> dget C k = None \<and> mk x = Some y)"
      by (auto simp: gadded bind_eq_Some_conv split: if_splits)
    finally show ?thesis by (simp add: s)
  qed
  show "y \<in> set (sy_drop s) \<longleftrightarrow> (\<exists>k. dget S k = None \<and> dget C k = Some y)"
  proof -
    have "y \<in> set (dvalues ?drop) \<longleftrightarrow> (\<exists>k. dget ?drop k = Some y)"
      using wadd(2) by (force simp: wfd_dget_iff image_iff)
    then show ?thesis by (auto simp: s gdrop split: if_splits)
  qed
qed

lemma keyed_map_filter:
  assumes "keyed name S" and "\<And>x y. mk x = Some y \<Longrightarrow> name' y = name x"
  shows "keyed name' (List.map_filter (\<lambda>(k, x). map_option (Pair k) (mk x)) S)"
  using assms(1)
proof (induction S)
  case (Cons p S)
  obtain k x where p: "p = (k, x)" by (cases p)
  from Cons have IH: "keyed name' (List.map_filter (\<lambda>(k, x). map_option (Pair k) (mk x)) S)" and n: "name x = k"
    by (auto simp: keyed_def p)
  show ?case
  proof (cases "mk x")
    case None
    with IH show ?thesis by (simp add: p List.map_filter_simps)
  next
    case (Some y)
    with IH n assms(2) [OF Some] show ?thesis by (simp add: p List.map_filter_simps keyed_def)
  qed
qed (simp add: List.map_filter_simps)

lemma keyed_names: "keyed name d \<Longrightarrow> map name (dvalues d) = dkeys d"
  by (induction d) (auto simp: keyed_def)

lemma keyed_filter: "keyed name d \<Longrightarrow> keyed name (filter P d)"
  by (auto simp: keyed_def)

lemma load_sync_distinct:
  assumes "load_sync mk S C = (s, C')" and "wfd S" and "wfd C" and "keyed name S" and "keyed name' C"
    and "\<And>x y. mk x = Some y \<Longrightarrow> name' y = name x"
  shows "distinct (map name' (sy_add s))" and "distinct (map name' (sy_drop s))" and "keyed name' C'"
proof -
  let ?add = "filter (\<lambda>(k, _). \<not> dhas k C) S" and ?drop = "filter (\<lambda>(k, _). \<not> dhas k S) C"
  let ?added = "List.map_filter (\<lambda>(k, x). map_option (Pair k) (mk x)) ?add"
  have s: "s = \<lparr>sy_add = dvalues ?added, sy_drop = dvalues ?drop\<rparr>" and C': "C' = fold dpop (dkeys ?drop) (dor C ?added)"
    using assms(1) by (simp_all add: load_sync_def Let_def)
  have k: "keyed name' ?added" by (rule keyed_map_filter [OF keyed_filter [OF assms(4)] assms(6)])
  have "wfd ?added" by (rule wfd_map_filter) (simp add: assms(2))
  then show "distinct (map name' (sy_add s))" by (simp add: s wfd_def keyed_names [OF k] del: map_map)
  have "wfd ?drop" using assms(3) by simp
  then show "distinct (map name' (sy_drop s))"
    by (simp add: s wfd_def keyed_names [OF keyed_filter [OF assms(5)]] del: map_map)
  have "keyed name' (fold dpop ks d)" if "keyed name' d" for ks d
    using that
  proof (induction ks arbitrary: d)
    case (Cons k ks)
    have "keyed name' (dpop k d)"
      unfolding dpop_def AList.delete_eq by (rule keyed_filter [OF Cons.prems])
    from Cons.IH [OF this] show ?case by simp
  qed simp
  from this [OF keyed_dor [OF assms(5) k]] show "keyed name' C'" by (simp add: C')
qed

section \<open>The loops of a round\<close>

lemma each_add_executor:
  assumes "\<forall>c \<in> set cs. xbuild c = Inr ()" and "distinct (map cd_name cs)" and "\<forall>c \<in> set cs. dget em (cd_name c) = None"
    and "wfd em"
  shows "\<exists>em'. each (add_executor xbuild) cs em = Inr em' \<and> wfd em' \<and>
    (\<forall>k. dget em' k = (if k \<in> cd_name ` set cs then Some [] else dget em k))"
  using assms
proof (induction cs arbitrary: em)
  case (Cons c cs)
  have one: "add_executor xbuild c em = Inr (dset (cd_name c) [] em)"
    using Cons.prems by (simp add: add_executor_def dhas_iff_dget)
  have "\<exists>em'. each (add_executor xbuild) cs (dset (cd_name c) [] em) = Inr em' \<and> wfd em' \<and>
      (\<forall>k. dget em' k = (if k \<in> cd_name ` set cs then Some [] else dget (dset (cd_name c) [] em) k))"
    by (rule Cons.IH) (use Cons.prems in \<open>auto simp: image_iff\<close>)
  with one show ?case by auto
qed simp

lemma each_add_queue:
  assumes "\<forall>q \<in> set qs. dget em (eq_executor q) \<noteq> None" and "wfd em"
  shows "\<exists>em'. each add_queue qs em = Inr em' \<and> wfd em' \<and>
    (\<forall>k. dget em' k = map_option (\<lambda>old. old @ filter (\<lambda>q. eq_executor q = k) qs) (dget em k))"
  using assms
proof (induction qs arbitrary: em)
  case Nil
  have "map_option (\<lambda>old. old) x = x" for x :: "executable_queue list option" by (cases x) auto
  with Nil show ?case by simp
next
  case (Cons q qs)
  obtain old where old: "dget em (eq_executor q) = Some old" using Cons.prems by auto
  let ?em = "dset (eq_executor q) (old @ [q]) em"
  have one: "add_queue q em = Inr ?em" by (simp add: add_queue_def old)
  have "\<exists>em'. each add_queue qs ?em = Inr em' \<and> wfd em' \<and>
      (\<forall>k. dget em' k = map_option (\<lambda>old. old @ filter (\<lambda>q. eq_executor q = k) qs) (dget ?em k))"
    by (rule Cons.IH) (use Cons.prems in auto)
  with one old show ?case by auto
qed

lemma fold_remove_queue:
  "dget (fold remove_queue qs em) k = map_option (filter (\<lambda>q. \<not> (q \<in> set qs \<and> eq_executor q = k))) (dget em k) \<and>
   (wfd em \<longrightarrow> wfd (fold remove_queue qs em))"
proof (induction qs arbitrary: em)
  case Nil
  show ?case by (cases "dget em k") auto
next
  case (Cons q qs)
  have one: "dget (remove_queue q em) k = map_option (filter (\<lambda>p. \<not> (p = q \<and> eq_executor p = k))) (dget em k)"
  proof (cases "dget em (eq_executor q)")
    case None
    moreover have "filter (\<lambda>p. \<not> (p = q \<and> eq_executor p = k)) x = x" if "k \<noteq> eq_executor q" for x
      using that by (auto simp: filter_id_conv)
    ultimately show ?thesis by (cases "k = eq_executor q"; cases "dget em k") (auto simp: remove_queue_def)
  next
    case (Some old)
    have "removeAll q old = filter (\<lambda>p. \<not> (p = q \<and> eq_executor p = eq_executor q)) old"
      by (simp add: removeAll_filter_not_eq) (rule filter_cong, auto)
    moreover have "filter (\<lambda>p. \<not> (p = q \<and> eq_executor p = k)) x = x" if "k \<noteq> eq_executor q" for x
      using that by (auto simp: filter_id_conv)
    ultimately show ?thesis using Some by (cases "k = eq_executor q"; cases "dget em k") (auto simp: remove_queue_def)
  qed
  have wf: "wfd em \<Longrightarrow> wfd (remove_queue q em)" by (auto simp: remove_queue_def split: option.splits)
  show ?case using Cons.IH [of "remove_queue q em"] one wf
    by (auto simp: option.map_comp comp_def intro!: map_option_cong filter_cong)
qed

lemma each_remove_executor:
  assumes "distinct (map cd_name cs)" and "\<forall>c \<in> set cs. dget em (cd_name c) \<noteq> None" and "wfd em"
  shows "\<exists>em'. each remove_executor cs em = Inr em' \<and> wfd em' \<and>
    (\<forall>k. dget em' k = (if k \<in> cd_name ` set cs then None else dget em k))"
  using assms
proof (induction cs arbitrary: em)
  case (Cons c cs)
  have one: "remove_executor c em = Inr (dpop (cd_name c) em)"
    using Cons.prems by (simp add: remove_executor_def dhas_iff_dget)
  have "\<exists>em'. each remove_executor cs (dpop (cd_name c) em) = Inr em' \<and> wfd em' \<and>
      (\<forall>k. dget em' k = (if k \<in> cd_name ` set cs then None else dget (dpop (cd_name c) em) k))"
    by (rule Cons.IH) (use Cons.prems in \<open>auto simp: image_iff\<close>)
  with one show ?case by auto
qed simp

lemma each_add_resource:
  assumes "distinct (map rd_name rs)" and "\<forall>r \<in> set rs. rd_name r \<notin> pool_names (rd_type r) m"
    and "\<forall>r \<in> set rs. \<forall>rl. rd_rate_limit r = Some rl \<longrightarrow> rl_strategy rl \<in> st"
  shows "\<exists>m'. each (add_resource st) rs m = Inr m' \<and>
    (\<forall>ty. pool_names ty m' = pool_names ty m \<union> {rd_name r | r. r \<in> set rs \<and> rd_type r = ty})"
  using assms
proof (induction rs arbitrary: m)
  case (Cons r rs)
  have "fst (manager_add st r m) = None"
    using Cons.prems(2,3)
    by (auto simp: manager_add_def pool_add_def pool_names_def dhas_def Let_def split: option.splits)
  then obtain m1 where m1: "manager_add st r m = (None, m1)" by (cases "manager_add st r m") auto
  then have one: "add_resource st r m = Inr m1" by (simp add: add_resource_def)
  note n1 = manager_add_names [OF m1]
  have "\<exists>m'. each (add_resource st) rs m1 = Inr m' \<and>
      (\<forall>ty. pool_names ty m' = pool_names ty m1 \<union> {rd_name r | r. r \<in> set rs \<and> rd_type r = ty})"
    by (rule Cons.IH) (use Cons.prems in \<open>auto simp: n1 image_iff\<close>)
  with one show ?case by (auto simp: n1)
qed simp

lemma fold_manager_remove:
  "pool_names ty (fold (\<lambda>r. manager_remove (rd_type r) (rd_name r)) rs m) =
     pool_names ty m - {rd_name r | r. r \<in> set rs \<and> rd_type r = ty}"
proof (induction rs arbitrary: m)
  case (Cons r rs)
  have "pool_names ty (manager_remove (rd_type r) (rd_name r) m) =
      pool_names ty m - (if rd_type r = ty then {rd_name r} else {})"
    using manager_remove_names [of ty "rd_name r" m] by (auto simp: manager_remove_def pool_names_def)
  with Cons.IH show ?case by auto
qed simp

section \<open>A round converges to the response\<close>

text \<open>
  The state between two rounds: the executors running are those of the work manager, every queue
  it knows is held by its executor, and the pools hold exactly its resources.
\<close>

definition broker_ok :: "broker \<Rightarrow> bool" where
  "broker_ok b \<longleftrightarrow>
     wfd (wm_items (bk_work b)) \<and> wfd (wm_resources (bk_work b)) \<and> wfd (wm_executors (bk_work b)) \<and>
     wfd (bk_executors b) \<and>
     keyed eq_name (wm_items (bk_work b)) \<and> keyed rd_name (wm_resources (bk_work b)) \<and> keyed cd_name (wm_executors (bk_work b)) \<and>
     (\<forall>k. dget (bk_executors b) k = None \<longleftrightarrow> dget (wm_executors (bk_work b)) k = None) \<and>
     (\<forall>n q. dget (wm_items (bk_work b)) n = Some q \<longrightarrow>
        (\<exists>qs. dget (bk_executors b) (eq_executor q) = Some qs \<and> q \<in> set qs)) \<and>
     (\<forall>ty. pool_names ty (bk_resources b) =
        {n. \<exists>r. dget (wm_resources (bk_work b)) n = Some r \<and> rd_type r = ty})"

text \<open>
  What the worker manager promises of a response (see \<open>lock_response_complete\<close>) and what must hold
  on the worker: everything builds, no providers, and an item that is kept keeps its executor.
\<close>

definition good_response :: "broker_env \<Rightarrow> lock_response \<Rightarrow> work_manager \<Rightarrow> bool" where
  "good_response env r wm \<longleftrightarrow>
     lr_providers r = [] \<and> wm_providers wm = [] \<and>
     (\<forall>q \<in> set (lr_items r). \<exists>x. be_build env q = Inr x \<and> eq_definition x = q) \<and>
     (\<forall>c \<in> set (lr_executors r). be_xbuild env c = Inr ()) \<and>
     (\<forall>x \<in> set (lr_resources r). \<forall>rl. ri_rate_limit x = Some rl \<longrightarrow> rl_strategy rl \<in> be_strategies env) \<and>
     (\<forall>q \<in> set (lr_items r). qi_executor q \<in> cd_name ` set (lr_executors r)) \<and>
     (\<forall>q \<in> set (lr_items r). \<forall>x. dget (wm_items wm) (qi_name q) = Some x \<longrightarrow> eq_executor x = qi_executor q)"

lemma dget_by_name: "dget (by_name name xs) k = None \<longleftrightarrow> k \<notin> name ` set xs"
  using by_name_spec [of name xs] dget_None_iff [of "by_name name xs" k] by (simp del: set_map)

lemma dget_by_name_in: "dget (by_name name xs) k = Some x \<Longrightarrow> x \<in> set xs \<and> name x = k"
proof -
  assume "dget (by_name name xs) k = Some x"
  then have in_set: "(k, x) \<in> set (by_name name xs)" by (rule dget_in_set)
  then have "x \<in> set (dvalues (by_name name xs))" using image_eqI [of x snd "(k, x)"] by simp
  moreover have "keyed name (by_name name xs)" "set (dvalues (by_name name xs)) \<subseteq> set xs"
    using by_name_spec [of name xs] by simp_all
  ultimately show ?thesis using in_set unfolding keyed_def by blast
qed

text \<open>The queues, resources and executors a sync leaves, in terms of the response.\<close>

lemma load_queues_spec:
  assumes ok: "broker_ok b" and good: "good_response env r (bk_work b)"
    and l: "load_queues (be_build env) r (bk_work b) = (s, wm')"
  shows "wfd (wm_items wm') \<and> keyed eq_name (wm_items wm') \<and>
    wm' = (bk_work b)\<lparr>wm_items := wm_items wm'\<rparr> \<and>
    (\<forall>k. dget (wm_items wm') k = None \<longleftrightarrow> k \<notin> qi_name ` set (lr_items r)) \<and>
    (\<forall>k q. dget (wm_items wm') k = Some q \<longrightarrow>
       eq_executor q \<in> cd_name ` set (lr_executors r) \<and> (q \<in> set (sy_add s) \<or> dget (wm_items (bk_work b)) k = Some q)) \<and>
    (\<forall>q \<in> set (sy_add s). eq_executor q \<in> cd_name ` set (lr_executors r)) \<and>
    (\<forall>q \<in> set (sy_drop s). dget (wm_items wm') (eq_name q) = None)"
proof -
  let ?mk = "\<lambda>q. case be_build env q of Inl _ \<Rightarrow> None | Inr x \<Rightarrow> Some x"
  let ?S = "by_name qi_name (lr_items r)" and ?C = "wm_items (bk_work b)"
  obtain C' where ls: "load_sync ?mk ?S ?C = (s, C')" and wm': "wm' = (bk_work b)\<lparr>wm_items := C'\<rparr>"
    using l by (auto simp: load_queues_def split: prod.splits)
  have wS: "wfd ?S" "keyed qi_name ?S" using by_name_spec [of qi_name "lr_items r"] by simp_all
  have wC: "wfd ?C" "keyed eq_name ?C" using ok by (simp_all add: broker_ok_def)
  have mk: "\<exists>x. ?mk q = Some x \<and> eq_definition x = q" if "q \<in> set (lr_items r)" for q
    using good that unfolding good_response_def by fastforce
  note spec = load_sync_spec [OF ls wS(1) wC(1)]
  have mk_S: "dget ?S k = Some q \<Longrightarrow> \<exists>x. ?mk q = Some x \<and> eq_definition x = q \<and> q \<in> set (lr_items r) \<and> qi_name q = k" for k q
    using mk dget_by_name_in [of qi_name "lr_items r" k q] by blast
  have ex: "eq_executor q \<in> cd_name ` set (lr_executors r)"
    if k: "dget C' k = Some q" for k q
  proof -
    obtain x where x: "dget ?S k = Some x" using spec(2) [of k] k by (cases "dget ?S k") auto
    with mk_S obtain y where y: "?mk x = Some y" "eq_definition y = x" "x \<in> set (lr_items r)" "qi_name x = k" by blast
    have "qi_executor x \<in> cd_name ` set (lr_executors r)" using good y(3) by (simp add: good_response_def)
    moreover have "eq_executor q = qi_executor x"
    proof (cases "dget ?C k")
      case None
      with spec(2) [of k] k x y show ?thesis by (simp add: eq_executor_def)
    next
      case (Some z)
      with spec(2) [of k] k x have "z = q" by simp
      with Some good y(3,4) show ?thesis by (simp add: good_response_def)
    qed
    ultimately show ?thesis by simp
  qed
  have kC: "keyed eq_name C'"
  proof -
    have "eq_name q = k" if "(k, q) \<in> set C'" for k q
    proof -
      from that have k: "dget C' k = Some q" using spec(1) by (simp add: wfd_dget_iff)
      then obtain x where x: "dget ?S k = Some x" using spec(2) [of k] by (cases "dget ?S k") auto
      show ?thesis
      proof (cases "dget ?C k")
        case None
        with spec(2) [of k] k x mk_S [OF x] show ?thesis by (auto simp: eq_name_def)
      next
        case (Some z)
        with spec(2) [of k] k x have "z = q" by simp
        with Some have "(k, q) \<in> set ?C" using dget_in_set by simp
        with wC(2) show ?thesis unfolding keyed_def by auto
      qed
    qed
    then show ?thesis by (auto simp: keyed_def)
  qed
  have dom: "dget C' k = None \<longleftrightarrow> k \<notin> qi_name ` set (lr_items r)" for k
  proof (cases "dget ?S k")
    case None
    with spec(2) [of k] show ?thesis by (simp add: dget_by_name)
  next
    case (Some x)
    moreover from this have "k \<in> qi_name ` set (lr_items r)" using dget_by_name [of qi_name "lr_items r" k] by auto
    ultimately show ?thesis using spec(2) [of k] mk_S [OF Some] by (auto split: option.splits)
  qed
  have kept: "q \<in> set (sy_add s) \<or> dget ?C k = Some q" if k: "dget C' k = Some q" for k q
  proof -
    obtain x where x: "dget ?S k = Some x" using spec(2) [of k] k by (cases "dget ?S k") auto
    show ?thesis
    proof (cases "dget ?C k")
      case None
      with spec(2) [of k] k x have "?mk x = Some q" by simp
      with x None spec(3) show ?thesis by blast
    next
      case (Some z)
      with spec(2) [of k] k x show ?thesis by simp
    qed
  qed
  have added: "eq_executor q \<in> cd_name ` set (lr_executors r)" if a: "q \<in> set (sy_add s)" for q
  proof -
    obtain k x where "dget ?S k = Some x" "dget ?C k = None" "?mk x = Some q" using a unfolding spec(3) by blast
    with spec(2) [of k] have "dget C' k = Some q" by simp
    then show ?thesis by (rule ex)
  qed
  have dropped: "dget C' (eq_name q) = None" if d: "q \<in> set (sy_drop s)" for q
  proof -
    obtain k where k: "dget ?S k = None" "dget ?C k = Some q" using d unfolding spec(4) by blast
    then have "eq_name q = k" using wC(2) dget_in_set [of ?C k q] unfolding keyed_def by auto
    with k spec(2) [of k] show ?thesis by simp
  qed
  show ?thesis using spec(1) kC dom ex kept added dropped by (auto simp: wm')
qed

lemma load_sync_total:
  assumes l: "load_sync (\<lambda>x. Some (f x)) (by_name name xs) C = (s, C')" and C: "wfd C" "keyed name' C"
    and f: "\<And>x. name' (f x) = name x"
  shows "wfd C'" and "keyed name' C'" and "distinct (map name' (sy_add s))" and "distinct (map name' (sy_drop s))"
    and "\<And>k. dget C' k = None \<longleftrightarrow> k \<notin> name ` set xs"
    and "\<And>k y. dget C' k = Some y \<Longrightarrow> dget C k = Some y \<or> (dget C k = None \<and> y \<in> set (sy_add s) \<and> name' y = k)"
    and "\<And>k y. dget C k = Some y \<Longrightarrow> k \<in> name ` set xs \<Longrightarrow> dget C' k = Some y"
    and "\<And>y. y \<in> set (sy_add s) \<Longrightarrow> dget C' (name' y) = Some y \<and> dget C (name' y) = None \<and> (\<exists>x \<in> set xs. y = f x)"
    and "\<And>k. dget C k = None \<Longrightarrow> k \<in> name ` set xs \<Longrightarrow> \<exists>y \<in> set (sy_add s). name' y = k"
    and "\<And>y. y \<in> set (sy_drop s) \<longleftrightarrow> dget C (name' y) = Some y \<and> name' y \<notin> name ` set xs"
proof -
  let ?S = "by_name name xs"
  have S: "wfd ?S" "keyed name ?S" using by_name_spec [of name xs] by simp_all
  note spec = load_sync_spec [OF l S(1) C(1)] and dist = load_sync_distinct [OF l S(1) C(1) S(2) C(2)]
  show "wfd C'" by (rule spec(1))
  show "keyed name' C'" "distinct (map name' (sy_add s))" "distinct (map name' (sy_drop s))"
    using dist f by auto
  show dom: "dget C' k = None \<longleftrightarrow> k \<notin> name ` set xs" for k
    using spec(2) [of k] dget_by_name [of name xs k] by (auto split: option.splits)
  have nm: "name' y = k" if "dget C k = Some y" for k y
    using C(2) dget_in_set [OF that] unfolding keyed_def by auto
  show "dget C k = Some y \<or> (dget C k = None \<and> y \<in> set (sy_add s) \<and> name' y = k)" if k: "dget C' k = Some y" for k y
  proof (cases "dget C k")
    case None
    obtain x where x: "dget ?S k = Some x" using spec(2) [of k] k by (cases "dget ?S k") auto
    with None k spec(2) [of k] have y: "y = f x" by simp
    with x None have "y \<in> set (sy_add s)" unfolding spec(3) by blast
    with None y dget_by_name_in [OF x] f show ?thesis by simp
  next
    case (Some z)
    with k spec(2) [of k] show ?thesis by (auto split: option.splits)
  qed
  show "dget C' k = Some y" if "dget C k = Some y" "k \<in> name ` set xs" for k y
    using that spec(2) [of k] dget_by_name [of name xs k] by (auto split: option.splits)
  show "dget C' (name' y) = Some y \<and> dget C (name' y) = None \<and> (\<exists>x \<in> set xs. y = f x)" if a: "y \<in> set (sy_add s)" for y
  proof -
    obtain k x where x: "dget ?S k = Some x" "dget C k = None" "y = f x" using a unfolding spec(3) by blast
    have "name' y = k" using dget_by_name_in [OF x(1)] x(3) f by simp
    with x spec(2) [of k] dget_by_name_in [OF x(1)] show ?thesis by auto
  qed
  show "\<exists>y \<in> set (sy_add s). name' y = k" if h: "dget C k = None" "k \<in> name ` set xs" for k
  proof -
    obtain x where x: "dget ?S k = Some x" using dget_by_name [of name xs k] h(2) by (cases "dget ?S k") auto
    with h(1) have "f x \<in> set (sy_add s)" unfolding spec(3) by blast
    with dget_by_name_in [OF x] f show ?thesis by auto
  qed
  show "y \<in> set (sy_drop s) \<longleftrightarrow> dget C (name' y) = Some y \<and> name' y \<notin> name ` set xs" for y
    unfolding spec(4) dget_by_name using nm by blast
qed

lemma load_sync_empty: "load_sync mk [] [] = (\<lparr>sy_add = [], sy_drop = []\<rparr>, [])"
  by (simp add: load_sync_def dor_def List.map_filter_simps)

text \<open>The resources of a round.\<close>

lemma resources_round:
  assumes ok: "broker_ok b" and good: "good_response env r wm"
    and l: "load_sync (\<lambda>x. Some (build_resource_data x)) (by_name ri_name (lr_resources r)) (wm_resources (bk_work b)) = (s, C')"
  shows "\<exists>m. each (add_resource (be_strategies env)) (sy_add s) (bk_resources b) = Inr m \<and>
    (\<forall>ty. pool_names ty (fold (\<lambda>r. manager_remove (rd_type r) (rd_name r)) (sy_drop s) m) =
       {n. \<exists>r. dget C' n = Some r \<and> rd_type r = ty}) \<and>
    wfd C' \<and> keyed rd_name C' \<and> (\<forall>k. dget C' k = None \<longleftrightarrow> k \<notin> ri_name ` set (lr_resources r))"
proof -
  let ?C = "wm_resources (bk_work b)"
  have C: "wfd ?C" "keyed rd_name ?C" and pools: "\<And>ty. pool_names ty (bk_resources b) = {n. \<exists>r. dget ?C n = Some r \<and> rd_type r = ty}"
    using ok by (simp_all add: broker_ok_def)
  note T = load_sync_total [OF l C, simplified build_resource_data_def, simplified]
  have "rd_rate_limit y = Some rl \<Longrightarrow> rl_strategy rl \<in> be_strategies env" if "y \<in> set (sy_add s)" for y rl
    using T(8) [OF that] good by (auto simp: good_response_def)
  moreover have "rd_name y \<notin> pool_names (rd_type y) (bk_resources b)" if "y \<in> set (sy_add s)" for y
    using T(8) [OF that] by (simp add: pools)
  ultimately obtain m where m: "each (add_resource (be_strategies env)) (sy_add s) (bk_resources b) = Inr m"
    "\<And>ty. pool_names ty m = pool_names ty (bk_resources b) \<union> {rd_name y | y. y \<in> set (sy_add s) \<and> rd_type y = ty}"
    using each_add_resource [OF T(3), of "bk_resources b" "be_strategies env"] by blast
  have "n \<in> pool_names ty (fold (\<lambda>r. manager_remove (rd_type r) (rd_name r)) (sy_drop s) m) \<longleftrightarrow>
      (\<exists>y. dget C' n = Some y \<and> rd_type y = ty)" for n ty
  proof
    assume "n \<in> pool_names ty (fold (\<lambda>r. manager_remove (rd_type r) (rd_name r)) (sy_drop s) m)"
    then have n: "n \<in> pool_names ty (bk_resources b) \<or> (\<exists>y \<in> set (sy_add s). rd_name y = n \<and> rd_type y = ty)"
      and nd: "\<And>y. y \<in> set (sy_drop s) \<Longrightarrow> rd_name y = n \<Longrightarrow> rd_type y \<noteq> ty"
      by (auto simp: fold_manager_remove m)
    from n show "\<exists>y. dget C' n = Some y \<and> rd_type y = ty"
    proof
      assume "n \<in> pool_names ty (bk_resources b)"
      then obtain y where y: "dget ?C n = Some y" "rd_type y = ty" by (auto simp: pools)
      have "rd_name y = n" using C(2) dget_in_set [OF y(1)] unfolding keyed_def by auto
      then have "n \<in> ri_name ` set (lr_resources r)" using nd y T(10) by blast
      with T(7) [OF y(1)] y(2) show ?thesis by blast
    qed (use T(8) in blast)
  next
    assume "\<exists>y. dget C' n = Some y \<and> rd_type y = ty"
    then obtain y where y: "dget C' n = Some y" "rd_type y = ty" by blast
    then have "n \<in> pool_names ty m" using T(6) [OF y(1)] by (auto simp: m pools)
    moreover have "rd_name x \<noteq> n" if "x \<in> set (sy_drop s)" for x
      using that y(1) T(5) T(10) by (metis option.distinct(1))
    ultimately show "n \<in> pool_names ty (fold (\<lambda>r. manager_remove (rd_type r) (rd_name r)) (sy_drop s) m)"
      by (auto simp: fold_manager_remove)
  qed
  with m(1) T(1,2,5) show ?thesis by blast
qed

text \<open>The executors and queues of a round.\<close>

lemma executors_round:
  assumes ok: "broker_ok b" and good: "good_response env r (bk_work b)"
    and lq: "load_queues (be_build env) r (bk_work b) = (sq, wm')"
    and le: "load_sync (\<lambda>x. Some (id x)) (by_name cd_name (lr_executors r)) (wm_executors (bk_work b)) = (se, E')"
  shows "\<exists>em1 em2 em4. each (add_executor (be_xbuild env)) (sy_add se) (bk_executors b) = Inr em1 \<and>
    each add_queue (sy_add sq) em1 = Inr em2 \<and>
    each remove_executor (sy_drop se) (fold remove_queue (sy_drop sq) em2) = Inr em4 \<and> wfd em4 \<and>
    (\<forall>k. dget em4 k = None \<longleftrightarrow> dget E' k = None) \<and>
    (\<forall>n q. dget (wm_items wm') n = Some q \<longrightarrow> (\<exists>qs. dget em4 (eq_executor q) = Some qs \<and> q \<in> set qs))"
proof -
  let ?em = "bk_executors b" and ?E = "wm_executors (bk_work b)" and ?X = "cd_name ` set (lr_executors r)"
  have E: "wfd ?E" "keyed cd_name ?E" and em: "wfd ?em" "\<And>k. dget ?em k = None \<longleftrightarrow> dget ?E k = None"
    and old: "\<And>n q. dget (wm_items (bk_work b)) n = Some q \<Longrightarrow> \<exists>qs. dget ?em (eq_executor q) = Some qs \<and> q \<in> set qs"
    using ok by (simp_all add: broker_ok_def)
  note T = load_sync_total [OF le E, simplified id_def, simplified] and Q = load_queues_spec [OF ok good lq]
  have "be_xbuild env c = Inr ()" if "c \<in> set (sy_add se)" for c
    using T(8) [OF that] good by (auto simp: good_response_def)
  then obtain em1 where em1: "each (add_executor (be_xbuild env)) (sy_add se) ?em = Inr em1" "wfd em1"
    "\<And>k. dget em1 k = (if k \<in> cd_name ` set (sy_add se) then Some [] else dget ?em k)"
    using each_add_executor [OF _ T(3), of "be_xbuild env" ?em] em T(8) by auto
  have X1: "dget em1 k \<noteq> None" if "k \<in> ?X" for k
    using T(9) [OF _ that] em(2) [of k] by (cases "dget ?E k") (auto simp: em1(3))
  have "dget em1 (eq_executor q) \<noteq> None" if "q \<in> set (sy_add sq)" for q using X1 Q that by blast
  then obtain em2 where em2: "each add_queue (sy_add sq) em1 = Inr em2" "wfd em2"
    "\<And>k. dget em2 k = map_option (\<lambda>old. old @ filter (\<lambda>q. eq_executor q = k) (sy_add sq)) (dget em1 k)"
    using each_add_queue [OF _ em1(2), of "sy_add sq"] by blast
  define em3 where "em3 = fold remove_queue (sy_drop sq) em2"
  have em3: "wfd em3" "\<And>k. dget em3 k = map_option (filter (\<lambda>q. \<not> (q \<in> set (sy_drop sq) \<and> eq_executor q = k))) (dget em2 k)"
    using fold_remove_queue em2(2) by (simp_all add: em3_def)
  have none: "dget em3 k = None \<longleftrightarrow> k \<notin> cd_name ` set (sy_add se) \<and> dget ?E k = None" for k
    by (auto simp: em3(2) em2(3) em1(3) em(2))
  have "dget em3 (cd_name c) \<noteq> None" if "c \<in> set (sy_drop se)" for c
    using that unfolding T(10) none by simp
  then obtain em4 where em4: "each remove_executor (sy_drop se) em3 = Inr em4" "wfd em4"
    "\<And>k. dget em4 k = (if k \<in> cd_name ` set (sy_drop se) then None else dget em3 k)"
    using each_remove_executor [OF T(4) _ em3(1)] by blast
  have drop: "k \<in> cd_name ` set (sy_drop se) \<longleftrightarrow> dget ?E k \<noteq> None \<and> k \<notin> ?X" for k
  proof
    assume "dget ?E k \<noteq> None \<and> k \<notin> ?X"
    then obtain c where c: "dget ?E k = Some c" "k \<notin> ?X" by auto
    moreover have "cd_name c = k" using E(2) dget_in_set [OF c(1)] unfolding keyed_def by auto
    ultimately show "k \<in> cd_name ` set (sy_drop se)" using T(10) [of c] by blast
  qed (use T(10) in auto)
  have add: "k \<in> cd_name ` set (sy_add se) \<longleftrightarrow> dget ?E k = None \<and> k \<in> ?X" for k
  proof
    assume "k \<in> cd_name ` set (sy_add se)"
    then obtain c where c: "c \<in> set (sy_add se)" "k = cd_name c" by blast
    from T(8) [OF c(1)] c(2) show "dget ?E k = None \<and> k \<in> ?X" by simp
  next
    assume h: "dget ?E k = None \<and> k \<in> ?X"
    obtain c where "c \<in> set (sy_add se)" "cd_name c = k" using T(9) [OF conjunct1 [OF h] conjunct2 [OF h]] by blast
    then show "k \<in> cd_name ` set (sy_add se)" by blast
  qed
  have dom: "dget em4 k = None \<longleftrightarrow> dget E' k = None" for k
    unfolding T(5) using drop [of k] add [of k] none [of k] by (auto simp: em4(3))
  have "\<exists>qs. dget em4 (eq_executor q) = Some qs \<and> q \<in> set qs" if q: "dget (wm_items wm') n = Some q" for n q
  proof -
    have x: "eq_executor q \<in> ?X" and where_q: "q \<in> set (sy_add sq) \<or> dget (wm_items (bk_work b)) n = Some q"
      using Q q by blast+
    obtain qs where qs: "dget em1 (eq_executor q) = Some qs" using X1 [OF x] by blast
    have "q \<in> set (qs @ filter (\<lambda>p. eq_executor p = eq_executor q) (sy_add sq))"
    proof (cases "q \<in> set (sy_add sq)")
      case False
      with where_q old obtain qs' where o: "dget ?em (eq_executor q) = Some qs'" "q \<in> set qs'" by blast
      have "dget ?E (eq_executor q) \<noteq> None" using em(2) [of "eq_executor q"] o(1) by simp
      then have "eq_executor q \<notin> cd_name ` set (sy_add se)" unfolding add by simp
      with qs o show ?thesis by (simp add: em1(3))
    qed simp
    moreover have "eq_name q = n" using Q dget_in_set [OF q] unfolding keyed_def by auto
    then have "q \<notin> set (sy_drop sq)" using Q q by force
    ultimately show ?thesis using drop [of "eq_executor q"] x by (simp add: em4(3) em3(2) em2(3) qs)
  qed
  with em1(1) em2(1) em4(1,2) dom show ?thesis unfolding em3_def by blast
qed


section \<open>A concrete worker\<close>

definition demo_queue :: "string \<Rightarrow> string \<Rightarrow> queue_item_with_state" where
  "demo_queue n ex = with_state (demo_item\<lparr>qi_name := n, qi_executor := ex\<rparr>) \<lparr>qs_cursor = None, qs_started_at = 0\<rparr>"

definition demo_executor :: "string \<Rightarrow> component_definition" where
  "demo_executor n = \<lparr>cd_name = n, cd_type = ''ProcessExecutor'', cd_options = []\<rparr>"

definition demo_build :: "queue_item_with_state \<Rightarrow> executable_queue result" where
  "demo_build q = Inr \<lparr>eq_definition = q,
     eq_topic = InputTopic \<lparr>bi_class = TopicClass, bi_name = [], bi_options = []\<rparr>, eq_output = []\<rparr>"

definition demo_broker_env :: broker_env where
  "demo_broker_env = \<lparr>be_build = demo_build, be_pbuild = (\<lambda>_. Inl (ValueError ''no such provider'')),
     be_xbuild = (\<lambda>_. Inr ()), be_strategies = {}, be_popen = (\<lambda>_ m. Inr m), be_pclose = (\<lambda>_ m. Inr m)\<rparr>"

definition demo_response :: "string \<Rightarrow> resources_provider_item list \<Rightarrow> lock_response" where
  "demo_response ex ps = \<lparr>lr_items = [demo_queue ''q'' ex], lr_resources = [demo_res], lr_providers = ps,
     lr_executors = [demo_executor ex]\<rparr>"

definition empty_broker :: broker where
  "empty_broker = \<lparr>bk_work = \<lparr>wm_items = [], wm_resources = [], wm_providers = [], wm_executors = []\<rparr>,
     bk_executors = [], bk_resources = empty_manager\<rparr>"

lemma empty_broker_ok: "broker_ok empty_broker"
  by (simp add: broker_ok_def empty_broker_def pool_names_def empty_manager_def empty_pool_def)

lemma demo_good_response: "good_response demo_broker_env (demo_response ''default'' []) (bk_work empty_broker)"
  by (simp add: good_response_def demo_broker_env_def demo_response_def empty_broker_def demo_build_def demo_res_def
      demo_queue_def demo_executor_def)


section \<open>Work that is stranded\<close>

text \<open>
  A sync that fails on a provider has already recorded the queues: they are never given to an
  executor, and the next sync finds nothing to add.
\<close>

lemma failed_sync_strands_queues:
  assumes "wfd (wm_items (bk_work b))" and "wm_sync (be_build env) (be_pbuild env) r (bk_work b) = (Inl e, wm')"
  shows "\<exists>b'. broker_round env (Inr r) b = Inr b' \<and> bk_executors b' = bk_executors b \<and>
    sy_add (fst (load_queues (be_build env) r (bk_work b'))) = []"
proof -
  let ?mk = "\<lambda>q. case be_build env q of Inl _ \<Rightarrow> None | Inr x \<Rightarrow> Some x"
  let ?S = "by_name qi_name (lr_items r)" and ?C = "wm_items (bk_work b)"
  obtain sq C' where ls: "load_sync ?mk ?S ?C = (sq, C')" by fastforce
  have S: "wfd ?S" using by_name_spec [of qi_name "lr_items r"] by simp
  note spec = load_sync_spec [OF ls S assms(1)]
  have items: "wm_items wm' = C'"
    using assms(2) ls by (auto simp: wm_sync_def load_queues_def load_resources_def load_resources_providers_def
        load_executors_def split: prod.splits sum.splits)
  obtain s2 C2 where l2: "load_sync ?mk ?S C' = (s2, C2)" by fastforce
  have "y \<notin> set (sy_add s2)" for y
    unfolding load_sync_spec(3) [OF l2 S spec(1)] using spec(2) by (auto split: option.splits)
  then have "sy_add s2 = []" by (cases "sy_add s2") auto
  then show ?thesis
    using assms(2) l2 items by (simp add: broker_round_def load_queues_def)
qed

text \<open>
  A queue whose definition moves to another executor is kept under its old one, which is dropped
  when nothing else uses it: the queue runs nowhere.
\<close>

lemma moved_queue_is_stranded:
  "\<exists>b1 b2. broker_round demo_broker_env (Inr (demo_response ''a'' [])) empty_broker = Inr b1 \<and>
     broker_round demo_broker_env (Inr (demo_response ''b'' [])) b1 = Inr b2 \<and>
     dget (wm_items (bk_work b2)) ''q'' \<noteq> None \<and> bk_executors b2 = [(''b'', [])]"
  by (simp add: broker_round_def demo_broker_env_def demo_response_def empty_broker_def wm_sync_def load_queues_def
      load_resources_def load_resources_providers_def load_executors_def load_sync_def by_name_def dset_def
      List.map_filter_simps dor_def demo_build_def demo_queue_def demo_executor_def demo_res_def demo_item_def
      apply_sync_def add_executor_def add_queue_def eq_executor_def add_resource_def manager_add_def pool_add_def
      build_resource_data_def empty_manager_def empty_pool_def remove_executor_def dpop_def Let_def)

end
