(* ===== verification/Job_State.thy ===== *)
theory Job_State
  imports Manager_Db
begin

text \<open>
  The worker's job state: \<open>worker/services/job_state/store.py\<close> (the write cache) and
  \<open>worker/services/job_state/service.py\<close> (hooks, fetching and flushing).

  The store keeps what has been set since the last flush and, while a flush is under way or after
  it has succeeded, what that flush sent. The flush context is three operations: \<open>flush_begin\<close>
  on entry, nothing on a normal exit, \<open>flush_failed\<close> when an exception leaves it. SHA-256 and the
  HTTP client are arguments. A Python set is a list here; where its order could matter a statement
  says so.
\<close>

section \<open>States and their merge\<close>

definition merge_completion :: "job_completion \<Rightarrow> job_completion \<Rightarrow> job_completion" where
  "merge_completion old new =
     old\<lparr>jc_completed_at := jc_completed_at new, jc_error := jc_error new\<rparr>"

definition merge_state :: "job_state \<Rightarrow> job_state \<Rightarrow> job_state" where
  "merge_state old new = old\<lparr>
     js_cursor := (if struthy (js_cursor new) then js_cursor new else js_cursor old),
     js_cursors_states := dor (js_cursors_states old) (js_cursors_states new),
     js_completion :=
       (case js_completion new of
          None \<Rightarrow> js_completion old
        | Some n \<Rightarrow> Some (case js_completion old of None \<Rightarrow> n | Some c \<Rightarrow> merge_completion c n))\<rparr>"

definition merge_job :: "string \<times> job_state \<Rightarrow> jobs_states \<Rightarrow> jobs_states" where
  "merge_job = (\<lambda>(job, state) d.
     dset job (case dget d job of None \<Rightarrow> state | Some old \<Rightarrow> merge_state old state) d)"

definition merge_jobs :: "jobs_states \<Rightarrow> jobs_states \<Rightarrow> jobs_states" where
  "merge_jobs d new = fold merge_job new d"

text \<open>\<open>jobs\<close> is a \<open>defaultdict\<close>: reading a missing job inserts an empty state.\<close>

definition on_job :: "(job_state \<Rightarrow> job_state) \<Rightarrow> string \<Rightarrow> jobs_states \<Rightarrow> jobs_states" where
  "on_job f job d = dset job (f (case dget d job of None \<Rightarrow> empty_job_state | Some s \<Rightarrow> s)) d"

definition get_cursors_states ::
  "string \<Rightarrow> string list \<Rightarrow> jobs_states \<Rightarrow> (string, (string, pyval) pydict) pydict" where
  "get_cursors_states job cursors d =
     (case dget d job of
        None \<Rightarrow> []
      | Some s \<Rightarrow> filter (\<lambda>(c, _). c \<in> set cursors) (js_cursors_states s))"

section \<open>The store\<close>

record sync_store =
  st_current :: jobs_states
  st_flushing :: "jobs_states option"

definition new_store :: sync_store where
  "new_store = \<lparr>st_current = [], st_flushing = None\<rparr>"

datatype store_op =
    SetJobCursor string string
  | SetJobCompleted string time
  | SetJobFailed string string time
  | SetJobCursorState string string "(string, pyval) pydict"
  | ReadJobState string

fun set_on_state :: "store_op \<Rightarrow> job_state \<Rightarrow> job_state" where
  "set_on_state (SetJobCursor _ c) s = s\<lparr>js_cursor := Some c\<rparr>"
| "set_on_state (SetJobCompleted _ now) s = s\<lparr>js_completion := Some \<lparr>jc_completed_at = now, jc_error = None\<rparr>\<rparr>"
| "set_on_state (SetJobFailed _ e now) s = s\<lparr>js_completion := Some \<lparr>jc_completed_at = now, jc_error = Some e\<rparr>\<rparr>"
| "set_on_state (SetJobCursorState _ c v) s = s\<lparr>js_cursors_states := dset c v (js_cursors_states s)\<rparr>"
| "set_on_state (ReadJobState _) s = s"

fun op_job :: "store_op \<Rightarrow> string" where
  "op_job (SetJobCursor job _) = job"
| "op_job (SetJobCompleted job _) = job"
| "op_job (SetJobFailed job _ _) = job"
| "op_job (SetJobCursorState job _ _) = job"
| "op_job (ReadJobState job) = job"

definition store_set :: "store_op \<Rightarrow> sync_store \<Rightarrow> sync_store" where
  "store_set oper s = s\<lparr>st_current := on_job (set_on_state oper) (op_job oper) (st_current s)\<rparr>"

definition flush_begin :: "sync_store \<Rightarrow> sync_store" where
  "flush_begin s = s\<lparr>st_current := [], st_flushing := Some (st_current s)\<rparr>"

definition flush_failed :: "sync_store \<Rightarrow> sync_store" where
  "flush_failed s =
     (case st_flushing s of
        None \<Rightarrow> s
      | Some f \<Rightarrow> s\<lparr>st_current := merge_jobs f (st_current s), st_flushing := None\<rparr>)"

definition get_local_cursors_states ::
  "string \<Rightarrow> string list \<Rightarrow> sync_store \<Rightarrow> (string, (string, pyval) pydict) pydict" where
  "get_local_cursors_states job cursors s =
     (let states = get_cursors_states job cursors (st_current s);
          missing = filter (\<lambda>c. \<not> dhas c states) (remdups cursors)
      in case st_flushing s of
           Some f \<Rightarrow> if missing \<noteq> [] then dor states (get_cursors_states job missing f) else states
         | None \<Rightarrow> states)"

section \<open>The abstract view: updates are a monoid\<close>

text \<open>
  What a job's state says, as the worker manager sees it: a falsy cursor says nothing. Merging is
  the addition of a monoid, in which every entry of the right summand wins.
\<close>

datatype job_view =
  JobView (jv_cursor: "string option") (jv_states: "string \<Rightarrow> (string, pyval) pydict option")
    (jv_completion: "job_completion option")

definition orelse :: "'a option \<Rightarrow> 'a option \<Rightarrow> 'a option" where
  "orelse new old = (case new of None \<Rightarrow> old | Some _ \<Rightarrow> new)"

lemma orelse_simps [simp]: "orelse None x = x" "orelse (Some y) x = Some y" "orelse x None = x" "orelse x x = x"
  by (simp_all add: orelse_def split: option.splits)

lemma orelse_assoc: "orelse a (orelse b c) = orelse (orelse a b) c"
  by (simp add: orelse_def split: option.splits)

instantiation job_view :: monoid_add
begin

definition zero_job_view :: job_view where
  "zero_job_view = JobView None Map.empty None"

definition plus_job_view :: "job_view \<Rightarrow> job_view \<Rightarrow> job_view" where
  "plus_job_view a b =
     JobView (orelse (jv_cursor b) (jv_cursor a)) (jv_states a ++ jv_states b)
       (orelse (jv_completion b) (jv_completion a))"

instance
  by standard (simp_all add: zero_job_view_def plus_job_view_def orelse_assoc)

end

lemma view_plus_sel [simp]:
  "jv_cursor (a + b) = orelse (jv_cursor b) (jv_cursor a)"
  "jv_states (a + b) = jv_states a ++ jv_states b"
  "jv_completion (a + b) = orelse (jv_completion b) (jv_completion a)"
  by (simp_all add: plus_job_view_def)

lemma view_zero_sel [simp]: "jv_cursor 0 = None" "jv_states 0 = Map.empty" "jv_completion 0 = None"
  by (simp_all add: zero_job_view_def)

lemma view_plus_idem: "(a :: job_view) + a = a"
  by (cases a) (auto simp: plus_job_view_def map_add_def fun_eq_iff split: option.splits)

lemma view_plus_idem_left: "(a :: job_view) + (a + b) = a + b"
  by (simp add: view_plus_idem flip: add.assoc)

definition truthy_text :: "string option \<Rightarrow> string option" where
  "truthy_text x = (if struthy x then x else None)"

lemma truthy_text_None [simp]: "truthy_text None = None"
  by (simp add: truthy_text_def)

definition state_view :: "job_state \<Rightarrow> job_view" where
  "state_view s = JobView (truthy_text (js_cursor s)) (dget (js_cursors_states s)) (js_completion s)"

definition view :: "jobs_states \<Rightarrow> string \<Rightarrow> job_view" where
  "view d job = (case dget d job of None \<Rightarrow> 0 | Some s \<Rightarrow> state_view s)"

definition wf_states :: "jobs_states \<Rightarrow> bool" where
  "wf_states d \<longleftrightarrow> wfd d \<and> (\<forall>job s. dget d job = Some s \<longrightarrow> wfd (js_cursors_states s))"

lemma wf_states_Nil [simp]: "wf_states []"
  by (simp add: wf_states_def)

lemma wf_states_dset: "wf_states d \<Longrightarrow> wfd (js_cursors_states s) \<Longrightarrow> wf_states (dset job s d)"
  by (simp add: wf_states_def)

lemma view_Nil [simp]: "view [] job = 0"
  by (simp add: view_def)

lemma view_dset: "view (dset job s d) j = (if j = job then state_view s else view d j)"
  by (simp add: view_def)

lemma state_view_empty [simp]: "state_view empty_job_state = 0"
  by (simp add: state_view_def empty_job_state_def zero_job_view_def)

lemma state_view_merge:
  assumes "wfd (js_cursors_states new)"
  shows "state_view (merge_state old new) = state_view old + state_view new"
proof -
  have c: "truthy_text (if struthy a then a else b) = orelse (truthy_text a) (truthy_text b)" for a b
    by (cases a) (auto simp: truthy_text_def)
  show ?thesis
    by (auto simp: state_view_def merge_state_def plus_job_view_def c dget_dor [OF assms] merge_completion_def
        split: option.splits)
qed

lemma merge_state_wf: "wfd (js_cursors_states old) \<Longrightarrow> wfd (js_cursors_states (merge_state old new))"
  by (simp add: merge_state_def)

lemma merge_job_view:
  assumes "wf_states d" and "wfd (js_cursors_states s)"
  shows "wf_states (merge_job (job, s) d) \<and>
    view (merge_job (job, s) d) j = view d j + (if j = job then state_view s else 0)"
  using assms
  by (auto simp: merge_job_def view_dset state_view_merge view_def wf_states_dset merge_state_wf
      wf_states_def split: option.splits)

lemma wf_states_Cons:
  assumes "wf_states ((job, s) # b)"
  shows "job \<notin> fst ` set b \<and> wfd (js_cursors_states s) \<and> wf_states b"
proof -
  have d: "wfd ((job, s) # b)" and w: "dget ((job, s) # b) j = Some x \<Longrightarrow> wfd (js_cursors_states x)" for j x
    using assms by (auto simp: wf_states_def)
  have n: "job \<notin> fst ` set b" and "wfd b"
    using d by (auto simp: wfd_def)
  moreover have "wfd (js_cursors_states x)" if "dget b j = Some x" for j x
  proof -
    have "j \<noteq> job" using n that by (force dest: map_of_SomeD)
    with that w [of j x] show ?thesis by simp
  qed
  ultimately show ?thesis using w [of job s] by (simp add: wf_states_def)
qed

lemma merge_jobs_view:
  assumes "wf_states a" and "wf_states b"
  shows "wf_states (merge_jobs a b) \<and> view (merge_jobs a b) j = view a j + view b j"
  using assms
proof (induction b arbitrary: a)
  case Nil
  then show ?case by (simp add: merge_jobs_def)
next
  case (Cons p b)
  obtain job s where p: "p = (job, s)" by (cases p)
  have new: "job \<notin> fst ` set b" and s: "wfd (js_cursors_states s)" and b: "wf_states b"
    using wf_states_Cons [OF Cons.prems(2) [unfolded p]] by auto
  have m: "merge_jobs a (p # b) = merge_jobs (merge_job p a) b"
    by (simp add: merge_jobs_def)
  have v: "view (p # b) j = (if j = job then state_view s else 0) + view b j"
  proof -
    have "dget b job = None" using new by (simp add: map_of_eq_None_iff)
    then show ?thesis by (simp add: view_def p)
  qed
  show ?case
    using Cons.IH [OF _ b, of "merge_job p a"] merge_job_view [OF Cons.prems(1) s, of job j]
    by (simp add: m [unfolded p] v [unfolded p] p add.assoc)
qed


text \<open>What one update adds to the view.\<close>

fun delta :: "store_op \<Rightarrow> job_view" where
  "delta (SetJobCursor _ c) = JobView (truthy_text (Some c)) Map.empty None"
| "delta (SetJobCompleted _ now) = JobView None Map.empty (Some \<lparr>jc_completed_at = now, jc_error = None\<rparr>)"
| "delta (SetJobFailed _ e now) = JobView None Map.empty (Some \<lparr>jc_completed_at = now, jc_error = Some e\<rparr>)"
| "delta (SetJobCursorState _ c v) = JobView None [c \<mapsto> v] None"
| "delta (ReadJobState _) = 0"

text \<open>
  A cursor that is set to the empty text would clear the cursor in the cache only: a job's cursor
  is never empty.
\<close>

fun op_ok :: "store_op \<Rightarrow> bool" where
  "op_ok (SetJobCursor _ c) = (c \<noteq> [])"
| "op_ok _ = True"

lemma state_view_set_on_state:
  "op_ok oper \<Longrightarrow> state_view (set_on_state oper s) = state_view s + delta oper"
  by (cases oper) (auto simp: state_view_def plus_job_view_def truthy_text_def fun_eq_iff map_add_def)

lemma set_on_state_wf: "wfd (js_cursors_states s) \<Longrightarrow> wfd (js_cursors_states (set_on_state oper s))"
  by (cases oper) simp_all

lemma on_job_view:
  assumes "wf_states d" and "op_ok oper"
  shows "wf_states (on_job (set_on_state oper) (op_job oper) d) \<and>
    view (on_job (set_on_state oper) (op_job oper) d) j = view d j + (if op_job oper = j then delta oper else 0)"
proof -
  let ?s = "case dget d (op_job oper) of None \<Rightarrow> empty_job_state | Some s \<Rightarrow> s"
  have w: "wfd (js_cursors_states ?s)"
    using assms(1) by (simp add: wf_states_def empty_job_state_def split: option.splits)
  have v: "state_view ?s = view d (op_job oper)"
    by (simp add: view_def split: option.splits)
  show ?thesis
    using wf_states_dset [OF assms(1) set_on_state_wf [OF w]] assms(2)
    by (simp add: on_job_def view_dset state_view_set_on_state v)
qed

section \<open>The cache and the worker manager together\<close>

text \<open>
  A flush request may also fail after the worker manager has applied it (\<open>FlushLost\<close>: the reply
  is lost). \<open>DelayedThrottle\<close> runs one flush at a time: \<open>sw_busy\<close> tells whether one is under way.
\<close>

datatype sync_event = Update store_op | FlushBegin | FlushOk | FlushRefused | FlushLost

record sync_world =
  sw_store :: sync_store
  sw_busy :: bool
  sw_manager :: jobs_states

definition new_world :: sync_world where
  "new_world = \<lparr>sw_store = new_store, sw_busy = False, sw_manager = []\<rparr>"

definition sent_states :: "sync_store \<Rightarrow> jobs_states" where
  "sent_states s = (case st_flushing s of None \<Rightarrow> [] | Some f \<Rightarrow> f)"

definition received :: "sync_world \<Rightarrow> jobs_states" where
  "received w = merge_jobs (sw_manager w) (sent_states (sw_store w))"

fun sync_step :: "sync_event \<Rightarrow> sync_world \<Rightarrow> sync_world" where
  "sync_step (Update oper) w = w\<lparr>sw_store := store_set oper (sw_store w)\<rparr>"
| "sync_step FlushBegin w =
     (if sw_busy w then w else w\<lparr>sw_store := flush_begin (sw_store w), sw_busy := True\<rparr>)"
| "sync_step FlushOk w = (if sw_busy w then w\<lparr>sw_busy := False, sw_manager := received w\<rparr> else w)"
| "sync_step FlushRefused w =
     (if sw_busy w then w\<lparr>sw_store := flush_failed (sw_store w), sw_busy := False\<rparr> else w)"
| "sync_step FlushLost w =
     (if sw_busy w
      then w\<lparr>sw_store := flush_failed (sw_store w), sw_busy := False, sw_manager := received w\<rparr>
      else w)"

definition sync_run :: "sync_event list \<Rightarrow> sync_world \<Rightarrow> sync_world" where
  "sync_run evs w = fold sync_step evs w"

definition local_view :: "sync_store \<Rightarrow> string \<Rightarrow> job_view" where
  "local_view s job = view (sent_states s) job + view (st_current s) job"

text \<open>The abstraction: what the manager will have once everything has been sent.\<close>

definition world_view :: "sync_world \<Rightarrow> string \<Rightarrow> job_view" where
  "world_view w job = view (sw_manager w) job + local_view (sw_store w) job"

definition updates_of :: "string \<Rightarrow> sync_event list \<Rightarrow> job_view" where
  "updates_of job evs =
     sum_list (map (\<lambda>ev. case ev of Update oper \<Rightarrow> if op_job oper = job then delta oper else 0 | _ \<Rightarrow> 0) evs)"

fun event_ok :: "sync_event \<Rightarrow> bool" where
  "event_ok (Update oper) = op_ok oper"
| "event_ok _ = True"

definition world_inv :: "sync_world \<Rightarrow> bool" where
  "world_inv w \<longleftrightarrow> wf_states (sw_manager w) \<and> wf_states (st_current (sw_store w)) \<and>
     wf_states (sent_states (sw_store w)) \<and> (sw_busy w \<longrightarrow> st_flushing (sw_store w) \<noteq> None) \<and>
     (\<not> sw_busy w \<longrightarrow> (\<forall>j. view (sw_manager w) j + view (sent_states (sw_store w)) j = view (sw_manager w) j))"

lemma world_inv_new: "world_inv new_world"
  by (simp add: world_inv_def new_world_def new_store_def sent_states_def)

lemma sent_flush_failed [simp]:
  "st_flushing s \<noteq> None \<Longrightarrow> sent_states (flush_failed s) = []"
  by (auto simp: sent_states_def flush_failed_def)

lemma current_flush_failed:
  "st_flushing s \<noteq> None \<Longrightarrow> st_current (flush_failed s) = merge_jobs (sent_states s) (st_current s)"
  by (auto simp: sent_states_def flush_failed_def)

lemma sent_store_set [simp]: "sent_states (store_set oper s) = sent_states s"
  by (simp add: sent_states_def store_set_def)

lemma flush_begin_sel [simp]:
  "sent_states (flush_begin s) = st_current s" "st_current (flush_begin s) = []"
  "st_flushing (flush_begin s) = Some (st_current s)"
  by (simp_all add: sent_states_def flush_begin_def)

lemma received_view:
  assumes "world_inv w"
  shows "wf_states (received w) \<and> view (received w) j = view (sw_manager w) j + view (sent_states (sw_store w)) j"
  using assms merge_jobs_view by (simp add: world_inv_def received_def)

lemma sync_step_view:
  assumes "world_inv w" and "event_ok ev"
  shows "world_inv (sync_step ev w) \<and> world_view (sync_step ev w) job = world_view w job + updates_of job [ev]"
proof (cases ev)
  case (Update oper)
  have "wf_states (st_current (sw_store w))" "op_ok oper"
    using assms by (simp_all add: world_inv_def Update)
  note * = on_job_view [OF this]
  show ?thesis using assms *
    by (simp add: Update world_inv_def world_view_def local_view_def updates_of_def store_set_def add.assoc
        sent_states_def)
next
  case FlushBegin
  then show ?thesis using assms
    by (auto simp: world_inv_def world_view_def local_view_def updates_of_def add.assoc [symmetric])
next
  case FlushOk
  then show ?thesis using assms received_view [OF assms(1)]
    by (auto simp: world_inv_def world_view_def local_view_def updates_of_def add.assoc view_plus_idem
        view_plus_idem_left)
next
  case FlushRefused
  then show ?thesis using assms merge_jobs_view
    by (auto simp: world_inv_def world_view_def local_view_def updates_of_def current_flush_failed)
next
  case FlushLost
  then show ?thesis using assms received_view [OF assms(1)] merge_jobs_view
    by (auto simp: world_inv_def world_view_def local_view_def updates_of_def current_flush_failed
        add.assoc view_plus_idem_left)
qed

lemma sync_run_view:
  assumes "world_inv w" and "list_all event_ok evs"
  shows "world_inv (sync_run evs w) \<and> world_view (sync_run evs w) job = world_view w job + updates_of job evs"
  using assms
proof (induction evs arbitrary: w)
  case Nil
  then show ?case by (simp add: sync_run_def updates_of_def)
next
  case (Cons ev evs)
  have ok: "event_ok ev" "list_all event_ok evs" using Cons.prems(2) by auto
  note step = sync_step_view [OF Cons.prems(1) ok(1)]
  show ?case
    using Cons.IH [OF conjunct1 [OF step [of job]] ok(2)] step [of job]
    by (simp add: sync_run_def updates_of_def add.assoc)
qed

lemma flush_sends_everything:
  assumes "world_inv w" and "\<not> sw_busy w"
  shows "view (sw_manager (sync_step FlushOk (sync_step FlushBegin w))) job = world_view w job"
proof -
  let ?b = "sync_step FlushBegin w"
  have b: "world_inv ?b" "world_view ?b job = world_view w job"
    using sync_step_view [OF assms(1), of FlushBegin job] by (simp_all add: updates_of_def)
  have "sw_manager (sync_step FlushOk ?b) = received ?b" using assms(2) by simp
  moreover have "view (received ?b) job = world_view ?b job"
    using received_view [OF b(1), of job] assms(2) by (simp add: world_view_def local_view_def)
  ultimately show ?thesis using b(2) by simp
qed

lemma world_view_new [simp]: "world_view new_world job = 0"
  by (simp add: world_view_def new_world_def local_view_def new_store_def sent_states_def)


definition demo_events :: "sync_event list" where
  "demo_events = [Update (SetJobCursorState ''j'' ''c'' [(''n'', PInt 1)]), Update (SetJobCursor ''j'' ''c''),
     FlushBegin, Update (SetJobCursorState ''j'' ''c'' [(''n'', PInt 2)]), FlushLost,
     Update (SetJobCompleted ''j'' 9)]"

lemma demo_events_ok: "list_all event_ok demo_events"
  by (simp add: demo_events_def)

lemma demo_updates:
  "updates_of ''j'' demo_events
     = JobView (Some ''c'') [''c'' \<mapsto> [(''n'', PInt 2)]] (Some \<lparr>jc_completed_at = 9, jc_error = None\<rparr>)"
  by (simp add: demo_events_def updates_of_def plus_job_view_def zero_job_view_def truthy_text_def)


text \<open>
  An empty cursor is the exception: it replaces the cursor in the cache, and vanishes when a failed
  flush is merged back.
\<close>

definition cached_cursor :: "sync_world \<Rightarrow> string \<Rightarrow> string option" where
  "cached_cursor w job = (case dget (st_current (sw_store w)) job of None \<Rightarrow> None | Some s \<Rightarrow> js_cursor s)"

lemma empty_cursor_is_dropped:
  "cached_cursor (sync_run [Update (SetJobCursor ''j'' ''a''), Update (SetJobCursor ''j'' '''')] new_world) ''j''
     = Some '''' \<and>
   cached_cursor (sync_run [Update (SetJobCursor ''j'' ''a''), FlushBegin, Update (SetJobCursor ''j'' ''''),
     FlushRefused] new_world) ''j'' = Some ''a''"
  by (simp add: cached_cursor_def sync_run_def new_world_def new_store_def store_set_def on_job_def flush_begin_def
      flush_failed_def merge_jobs_def merge_job_def merge_state_def empty_job_state_def dset_def)

section \<open>Reading through the cache\<close>

text \<open>\<open>remote\<close> is the cursors fetcher.\<close>

definition service_fetch ::
  "(string \<Rightarrow> string list \<Rightarrow> (string, (string, pyval) pydict) pydict result) \<Rightarrow> string \<Rightarrow> string list \<Rightarrow>
     sync_store \<Rightarrow> (string, (string, pyval) pydict) pydict result" where
  "service_fetch remote job cursors s =
     (let states = get_local_cursors_states job cursors s;
          missing = filter (\<lambda>c. \<not> dhas c states) (remdups cursors)
      in if missing \<noteq> [] then rbind (remote job missing) (\<lambda>r. Inr (dor states r)) else Inr states)"

lemma dget_filter_key: "dget (filter (\<lambda>(c, _). c \<in> A) d) c = (if c \<in> A then dget d c else None)"
  using dget_filter [of "\<lambda>c. c \<in> A" d c] by simp

lemma get_cursors_states_view:
  assumes "wf_states d"
  shows "wfd (get_cursors_states job cursors d) \<and>
    dget (get_cursors_states job cursors d) c = (if c \<in> set cursors then jv_states (view d job) c else None)"
  using assms
  by (auto simp: get_cursors_states_def view_def state_view_def dget_filter_key wf_states_def split: option.splits)

lemma get_local_view:
  assumes "wf_states (st_current s)" and "wf_states (sent_states s)"
  shows "wfd (get_local_cursors_states job cursors s) \<and>
    dget (get_local_cursors_states job cursors s) c
      = (if c \<in> set cursors then jv_states (local_view s job) c else None)"
proof -
  let ?st = "get_cursors_states job cursors (st_current s)"
  let ?missing = "filter (\<lambda>c. \<not> dhas c ?st) (remdups cursors)"
  have st: "wfd ?st" "dget ?st c = (if c \<in> set cursors then jv_states (view (st_current s) job) c else None)" for c
    using get_cursors_states_view [OF assms(1)] by simp_all
  have fl: "wfd (get_cursors_states job ?missing (sent_states s))"
    "dget (get_cursors_states job ?missing (sent_states s)) c
      = (if c \<in> set cursors \<and> jv_states (view (st_current s) job) c = None
         then jv_states (view (sent_states s) job) c else None)" for c
    using get_cursors_states_view [OF assms(2)] by (auto simp: dhas_iff_dget st(2))
  have none: "?missing = [] \<longleftrightarrow> (\<forall>c \<in> set cursors. jv_states (view (st_current s) job) c \<noteq> None)"
    by (auto simp: filter_empty_conv dhas_iff_dget st(2))
  show ?thesis
  proof (cases "st_flushing s")
    case None
    then show ?thesis using st
      by (simp add: get_local_cursors_states_def Let_def local_view_def sent_states_def)
  next
    case (Some f)
    then have f: "sent_states s = f" by (simp add: sent_states_def)
    show ?thesis
    proof (cases "?missing = []")
      case True
      then have "get_local_cursors_states job cursors s = ?st"
        by (simp add: get_local_cursors_states_def Let_def Some)
      then show ?thesis using st none True
        by (auto simp: local_view_def map_add_def split: option.splits)
    next
      case False
      then have g: "get_local_cursors_states job cursors s = dor ?st (get_cursors_states job ?missing f)"
        by (simp add: get_local_cursors_states_def Let_def Some)
      show ?thesis using st fl
        unfolding g f by (auto simp: local_view_def f dget_dor map_add_def split: option.splits)
    qed
  qed
qed

text \<open>
  C18: reading through the cache is reading the latest value. With a fetcher that answers with the
  manager's states, a fetch returns for every cursor asked for the last state that was set for it,
  whatever has been flushed, is being flushed or has failed to be, and nothing for other cursors.
\<close>

theorem fetch_reads_latest:
  assumes "list_all event_ok evs" and "w = sync_run evs new_world"
    and "\<And>cs. \<exists>r. remote job cs = Inr r \<and> wfd r \<and>
      (\<forall>c. dget r c = (if c \<in> set cs then jv_states (view (sw_manager w) job) c else None))"
  shows "\<exists>r. service_fetch remote job cursors (sw_store w) = Inr r \<and>
    (\<forall>c. dget r c = (if c \<in> set cursors then jv_states (updates_of job evs) c else None))"
proof -
  have w: "world_inv w" "world_view w job = updates_of job evs"
    using sync_run_view [OF world_inv_new assms(1), of job] by (simp_all add: assms(2))
  let ?l = "get_local_cursors_states job cursors (sw_store w)"
  let ?missing = "filter (\<lambda>c. \<not> dhas c ?l) (remdups cursors)"
  have l: "wfd ?l" "dget ?l c = (if c \<in> set cursors then jv_states (local_view (sw_store w) job) c else None)" for c
    using get_local_view w(1) by (simp_all add: world_inv_def)
  have all: "jv_states (updates_of job evs) c
      = orelse (jv_states (local_view (sw_store w) job) c) (jv_states (view (sw_manager w) job) c)" for c
    by (simp add: w(2) [symmetric] world_view_def map_add_def orelse_def split: option.splits)
  obtain r where r: "remote job ?missing = Inr r" "wfd r"
    "\<And>c. dget r c = (if c \<in> set ?missing then jv_states (view (sw_manager w) job) c else None)"
    using assms(3) [of ?missing] by blast
  show ?thesis
  proof (cases "?missing = []")
    case True
    then have "\<forall>c \<in> set cursors. dhas c ?l" by (auto simp: filter_empty_conv)
    then have "dget ?l c = (if c \<in> set cursors then jv_states (updates_of job evs) c else None)" for c
      using l(2) [of c] by (auto simp: all dhas_iff_dget orelse_def split: option.splits)
    with True show ?thesis by (simp add: service_fetch_def)
  next
    case False
    have "dget (dor ?l r) c = (if c \<in> set cursors then jv_states (updates_of job evs) c else None)" for c
      using l(2) [of c] r(3) [of c]
      by (auto simp: all dget_dor [OF r(2)] dhas_iff_dget map_add_def orelse_def split: option.splits)
    with False r(1) show ?thesis by (simp add: service_fetch_def Let_def)
  qed
qed

text \<open>A fetcher that answers from the given states.\<close>

definition direct_fetch ::
  "jobs_states \<Rightarrow> string \<Rightarrow> string list \<Rightarrow> (string, (string, pyval) pydict) pydict result" where
  "direct_fetch d job cursors = Inr (get_cursors_states job cursors d)"

lemma fetch_reads_latest_witness:
  "\<exists>r. service_fetch (direct_fetch (sw_manager (sync_run demo_events new_world))) ''j'' [''c'', ''d'']
     (sw_store (sync_run demo_events new_world)) = Inr r \<and>
     dget r ''c'' = Some [(''n'', PInt 2)] \<and> dget r ''d'' = None"
proof -
  let ?w = "sync_run demo_events new_world"
  have "wf_states (sw_manager ?w)"
    using sync_run_view [OF world_inv_new demo_events_ok] by (simp add: world_inv_def)
  then have "\<exists>r. direct_fetch (sw_manager ?w) ''j'' cs = Inr r \<and> wfd r \<and>
      (\<forall>c. dget r c = (if c \<in> set cs then jv_states (view (sw_manager ?w) ''j'') c else None))" for cs
    using get_cursors_states_view [of "sw_manager ?w" "''j''" cs] by (simp add: direct_fetch_def)
  from fetch_reads_latest [where cursors = "[''c'', ''d'']" and job = "''j''" and remote = "direct_fetch (sw_manager ?w)",
      OF demo_events_ok refl this] demo_updates
  show ?thesis by auto
qed

section \<open>Cursor formats and the fetcher\<close>

text \<open>\<open>sha\<close> is the hexadecimal SHA-256 digest of a text.\<close>

datatype cursor_format = RAW | SHA256

fun format_cursor :: "(string \<Rightarrow> string) \<Rightarrow> cursor_format \<Rightarrow> string \<Rightarrow> string" where
  "format_cursor sha RAW cursor = cursor"
| "format_cursor sha SHA256 cursor = ''sha256:'' @ sha cursor"

record job_state_options =
  jo_flush_delay :: time
  jo_auto_flush :: bool
  jo_fetch_cursor_formats :: "cursor_format list"
  jo_save_cursor_format :: cursor_format

definition default_options :: job_state_options where
  "default_options = \<lparr>jo_flush_delay = 10 * ticks_per_second, jo_auto_flush = True,
     jo_fetch_cursor_formats = [SHA256], jo_save_cursor_format = SHA256\<rparr>"

record formatted_request =
  fr_by_cursor :: "(string, string list) pydict"
  fr_by_formatted :: "(string, string) pydict"

definition formatted_pairs :: "(string \<Rightarrow> string) \<Rightarrow> cursor_format list \<Rightarrow> string list \<Rightarrow> (string \<times> string) list" where
  "formatted_pairs sha formats cursors =
     concat (map (\<lambda>c. map (\<lambda>f. (format_cursor sha f c, c)) formats) cursors)"

definition from_cursors :: "(string \<Rightarrow> string) \<Rightarrow> cursor_format list \<Rightarrow> string list \<Rightarrow> formatted_request" where
  "from_cursors sha formats cursors = \<lparr>
     fr_by_cursor = dor [] (map (\<lambda>c. (c, map (\<lambda>f. format_cursor sha f c) formats)) cursors),
     fr_by_formatted = dor [] (formatted_pairs sha formats cursors)\<rparr>"

definition all_cursors :: "formatted_request \<Rightarrow> string list" where
  "all_cursors r = dkeys (fr_by_formatted r)"

definition request_map :: "formatted_request \<Rightarrow> string \<Rightarrow> string option" where
  "request_map r key = dget (fr_by_formatted r) key"

text \<open>One entry of the comprehension that maps the answer back; the request is looked up only for a value.\<close>

definition map_entry ::
  "(string, formatted_request) pydict \<Rightarrow> string \<Rightarrow> string \<times> pyval option \<Rightarrow> (string \<times> pyval) option result" where
  "map_entry formatted job = (\<lambda>(k, v).
     case v of
       None \<Rightarrow> Inr None
     | Some x \<Rightarrow>
         (case dget formatted job of
            None \<Rightarrow> Inl (KeyError job)
          | Some r \<Rightarrow> Inr (map_option (\<lambda>fk. (fk, x)) (request_map r k))))"

definition map_answer ::
  "(string, formatted_request) pydict \<Rightarrow> string \<times> (string, pyval option) pydict \<Rightarrow>
     (string \<times> (string, pyval) pydict) result" where
  "map_answer formatted = (\<lambda>(job, states).
     rbind (mapM (map_entry formatted job) states) (\<lambda>es. Inr (job, dor [] (List.map_filter id es))))"

text \<open>
  \<open>client\<close> is the request to the worker manager. The pending queries are a dict from job to set of
  cursors, emptied before the request.
\<close>

type_synonym cursor_queries = "(string, string list) pydict"

definition enqueue_query :: "string \<Rightarrow> string list \<Rightarrow> cursor_queries \<Rightarrow> cursor_queries" where
  "enqueue_query job cursors q =
     (let old = dget_or q job [] in dset job (old @ filter (\<lambda>c. c \<notin> set old) (remdups cursors)) q)"

definition do_fetch ::
  "(string \<Rightarrow> string) \<Rightarrow> cursor_format list \<Rightarrow>
     ((string, string list) pydict \<Rightarrow> (string, (string, pyval option) pydict) pydict result) \<Rightarrow>
     cursor_queries \<Rightarrow> (string, (string, pyval) pydict) pydict result" where
  "do_fetch sha formats client queries =
     (let formatted = map (\<lambda>(job, cs). (job, from_cursors sha formats cs)) queries
      in rbind (client (map (\<lambda>(job, r). (job, all_cursors r)) formatted)) (\<lambda>answer.
         rbind (mapM (map_answer formatted) answer) (\<lambda>es. Inr (dor [] es))))"

text \<open>What one \<open>fetch\<close> call returns from the shared request.\<close>

definition fetch_result ::
  "(string, (string, pyval) pydict) pydict result \<Rightarrow> string \<Rightarrow> (string, pyval) pydict result" where
  "fetch_result r job = rbind r (\<lambda>d. Inr (dget_or d job []))"

definition prepare_jobs_states :: "(string \<Rightarrow> string) \<Rightarrow> cursor_format \<Rightarrow> jobs_states \<Rightarrow> jobs_states" where
  "prepare_jobs_states sha fmt d =
     map (\<lambda>(job, s). (job, \<lparr>js_cursor = js_cursor s,
       js_cursors_states = dor [] (map (\<lambda>(c, v). (format_cursor sha fmt c, v)) (js_cursors_states s)),
       js_completion = js_completion s\<rparr>)) d"

text \<open>\<open>JobStateService.flush\<close>: an empty state is not sent.\<close>

definition service_flush ::
  "(string \<Rightarrow> string) \<Rightarrow> cursor_format \<Rightarrow> sync_store \<Rightarrow> jobs_states option \<times> sync_store" where
  "service_flush sha fmt s =
     (let s' = flush_begin s; state = st_current s
      in (if state = [] then None else Some (prepare_jobs_states sha fmt state), s'))"

text \<open>Distinct cursors have distinct keys.\<close>

definition formats_apart :: "(string \<Rightarrow> string) \<Rightarrow> cursor_format list \<Rightarrow> string list \<Rightarrow> bool" where
  "formats_apart sha formats cursors \<longleftrightarrow>
     (\<forall>c \<in> set cursors. \<forall>c' \<in> set cursors. \<forall>f \<in> set formats. \<forall>f' \<in> set formats.
        format_cursor sha f c = format_cursor sha f' c' \<longrightarrow> c = c')"

lemma formatted_pairs_set:
  "(k, c) \<in> set (formatted_pairs sha formats cursors) \<longleftrightarrow>
     c \<in> set cursors \<and> (\<exists>f \<in> set formats. k = format_cursor sha f c)"
  by (auto simp: formatted_pairs_def)

lemma request_map_format:
  assumes "formats_apart sha formats cursors"
  shows "request_map (from_cursors sha formats cursors) k = Some c \<longleftrightarrow>
    c \<in> set cursors \<and> (\<exists>f \<in> set formats. k = format_cursor sha f c)"
proof -
  let ?p = "formatted_pairs sha formats cursors"
  have u: "c1 = c2" if "(k, c1) \<in> set ?p" "(k, c2) \<in> set ?p" for c1 c2
    using assms that unfolding formatted_pairs_set formats_apart_def by blast
  have "map_of (rev ?p) k = Some c \<longleftrightarrow> (k, c) \<in> set ?p"
    using u map_of_unique [of k c "rev ?p"] by (auto dest: map_of_SomeD)
  then show ?thesis
    by (simp add: request_map_def from_cursors_def dget_dor_rev formatted_pairs_set)
qed

lemma set_all_cursors:
  "set (all_cursors (from_cursors sha formats cursors))
     = {format_cursor sha f c | f c. f \<in> set formats \<and> c \<in> set cursors}"
proof -
  have "set (all_cursors (from_cursors sha formats cursors)) = fst ` set (formatted_pairs sha formats cursors)"
    using set_dkeys_dor [of "[]" "formatted_pairs sha formats cursors"]
    by (simp add: all_cursors_def from_cursors_def)
  then show ?thesis by (force simp: formatted_pairs_def)
qed

text \<open>
  The worker manager's answer: a value or nothing for every key of the request. \<open>answers\<close> relates it
  to the value of a cursor: some format of the cursor finds it, and no format finds another.
\<close>

definition manager_client ::
  "(string \<Rightarrow> string \<Rightarrow> pyval option) \<Rightarrow> (string, string list) pydict \<Rightarrow>
     (string, (string, pyval option) pydict) pydict result" where
  "manager_client srv q = Inr (map (\<lambda>(job, keys). (job, map (\<lambda>k. (k, srv job k)) keys)) q)"

definition answers ::
  "(string \<Rightarrow> string) \<Rightarrow> cursor_format list \<Rightarrow> (string \<Rightarrow> pyval option) \<Rightarrow> string \<Rightarrow> pyval option \<Rightarrow> bool" where
  "answers sha formats srv c v \<longleftrightarrow>
     (\<forall>f \<in> set formats. srv (format_cursor sha f c) \<in> {None, v}) \<and>
     (v \<noteq> None \<longrightarrow> (\<exists>f \<in> set formats. srv (format_cursor sha f c) = v))"

lemma map_filter_id_set: "(k, x) \<in> set (List.map_filter id es) \<longleftrightarrow> Some (k, x) \<in> set es"
  by (induction es) (auto simp: List.map_filter_simps split: option.splits)

text \<open>The value one key of the answer contributes.\<close>

definition key_entry :: "formatted_request \<Rightarrow> (string \<Rightarrow> pyval option) \<Rightarrow> string \<Rightarrow> (string \<times> pyval) option" where
  "key_entry r srv k = (case srv k of None \<Rightarrow> None | Some x \<Rightarrow> map_option (\<lambda>c. (c, x)) (request_map r k))"

lemma key_entry_Some: "key_entry r srv k = Some (c, x) \<longleftrightarrow> srv k = Some x \<and> request_map r k = Some c"
  by (auto simp: key_entry_def split: option.splits)

lemma map_answer_request:
  assumes "dget formatted job = Some r"
  shows "map_answer formatted (job, map (\<lambda>k. (k, srv k)) keys)
    = Inr (job, dor [] (List.map_filter id (map (key_entry r srv) keys)))"
proof -
  have "map_entry formatted job (k, srv k) = Inr (key_entry r srv k)" for k
    by (simp add: map_entry_def key_entry_def assms split: option.splits)
  then show ?thesis
    by (simp add: map_answer_def mapM_comp mapM_map [where g = "key_entry r srv"])
qed

lemma mapped_value:
  assumes "formats_apart sha formats cs" and "c \<in> set cs \<Longrightarrow> answers sha formats srv c v"
    and "r = from_cursors sha formats cs"
    and "d = dor [] (List.map_filter id (map (key_entry r srv) (all_cursors r)))"
  shows "dget d c = (if c \<in> set cs then v else None)"
proof -
  let ?es = "List.map_filter id (map (key_entry r srv) (all_cursors r))"
  have mem: "(c, x) \<in> set ?es \<longleftrightarrow> (\<exists>k \<in> set (all_cursors r). srv k = Some x \<and> request_map r k = Some c)" for c x
    using key_entry_Some [of r srv _ c x] by (auto simp: map_filter_id_set image_iff) metis+
  have mem': "(c, x) \<in> set ?es \<longleftrightarrow> c \<in> set cs \<and> (\<exists>f \<in> set formats. srv (format_cursor sha f c) = Some x)" for c x
    unfolding mem using assms(3) request_map_format [OF assms(1)] set_all_cursors [of sha formats cs] by auto
  have d: "dget d c = map_of (rev ?es) c"
    by (simp add: assms(4) dget_dor_rev)
  show ?thesis
  proof (cases "c \<in> set cs \<and> v \<noteq> None")
    case True
    then obtain x where x: "v = Some x" by auto
    then have a: "\<forall>f \<in> set formats. srv (format_cursor sha f c) \<in> {None, Some x}"
      and b: "\<exists>f \<in> set formats. srv (format_cursor sha f c) = Some x"
      using assms(2) True x by (simp_all add: answers_def)
    have i: "(c, x) \<in> set ?es" using True b by (simp only: mem')
    have u: "v' = x" if h: "(c, v') \<in> set ?es" for v'
    proof -
      obtain f where "f \<in> set formats" "srv (format_cursor sha f c) = Some v'" using h by (simp only: mem') blast
      with a show ?thesis by force
    qed
    have "map_of (rev ?es) c = Some x"
    proof (rule map_of_unique)
      show "(c, x) \<in> set (rev ?es)" using i by (simp only: set_rev)
    next
      fix v' assume h: "(c, v') \<in> set (rev ?es)"
      show "v' = x" by (rule u [OF h [unfolded set_rev]])
    qed
    with d x True show ?thesis by simp
  next
    case False
    have "(c, x) \<notin> set ?es" for x
    proof
      assume "(c, x) \<in> set ?es"
      then obtain f where f: "c \<in> set cs" "f \<in> set formats" "srv (format_cursor sha f c) = Some x"
        by (simp only: mem') blast
      then show False using assms(2) False by (auto simp: answers_def)
    qed
    then have "map_of (rev ?es) c = None" by (metis map_of_SomeD not_None_eq set_rev)
    with d False show ?thesis by auto
  qed
qed

lemma do_fetch_manager:
  assumes "wfd queries" and "dget queries job = Some cs" and "formats_apart sha formats cs"
  shows "\<exists>d. fetch_result (do_fetch sha formats (manager_client srv) queries) job = Inr d \<and>
    (\<forall>c v. (c \<in> set cs \<longrightarrow> answers sha formats (srv job) c v) \<longrightarrow>
       dget d c = (if c \<in> set cs then v else None))"
proof -
  let ?formatted = "map (\<lambda>(job, cs). (job, from_cursors sha formats cs)) queries"
  let ?g = "\<lambda>(j, cs). (j, let r = from_cursors sha formats cs in dor [] (List.map_filter id
     (map (key_entry r (srv j)) (all_cursors r))))"
  let ?answer = "map (\<lambda>(j, cs). (j, map (\<lambda>k. (k, srv j k)) (all_cursors (from_cursors sha formats cs)))) queries"
  have fm: "dget ?formatted j = map_option (from_cursors sha formats) (dget queries j)" for j
    by (simp add: map_of_map)
  have "mapM (\<lambda>q. map_answer ?formatted (case q of (j, cs) \<Rightarrow>
      (j, map (\<lambda>k. (k, srv j k)) (all_cursors (from_cursors sha formats cs))))) queries = Inr (map ?g queries)"
  proof (rule mapM_map)
    fix q assume q: "q \<in> set queries"
    obtain j cs' where jc: "q = (j, cs')" by (cases q)
    have "dget ?formatted j = Some (from_cursors sha formats cs')"
      using q assms(1) by (simp add: fm jc wfd_def)
    then show "map_answer ?formatted (case q of (j, cs) \<Rightarrow>
        (j, map (\<lambda>k. (k, srv j k)) (all_cursors (from_cursors sha formats cs)))) = Inr (?g q)"
      by (simp only: jc prod.case map_answer_request Let_def)
  qed
  then have "mapM (map_answer ?formatted) ?answer = Inr (map ?g queries)" by (simp only: mapM_comp)
  then have "do_fetch sha formats (manager_client srv) queries = Inr (dor [] (map ?g queries))"
    by (simp add: do_fetch_def manager_client_def Let_def comp_def split_def)
  moreover have "dget (dor [] (map ?g queries)) job = map_option (\<lambda>cs. snd (?g (job, cs))) (dget queries job)"
  proof -
    have "wfd (map ?g queries)" using assms(1) by (simp add: wfd_def comp_def case_prod_beta)
    moreover have "map_of (map ?g qs) job = map_option (\<lambda>cs. snd (?g (job, cs))) (map_of qs job)" for qs
      by (induction qs) (auto simp: Let_def)
    ultimately show ?thesis by (simp add: dget_dor)
  qed
  ultimately have "fetch_result (do_fetch sha formats (manager_client srv) queries) job = Inr (snd (?g (job, cs)))"
    by (simp add: fetch_result_def dget_or_def assms(2))
  then show ?thesis
    using mapped_value [where srv = "srv job", OF assms(3) _ refl refl] by (simp add: Let_def)
qed

section \<open>From a worker to the next one\<close>

definition enqueue_all :: "(string \<times> string list) list \<Rightarrow> cursor_queries" where
  "enqueue_all calls = fold (\<lambda>(job, cs). enqueue_query job cs) calls []"

definition cursors_asked :: "string \<Rightarrow> (string \<times> string list) list \<Rightarrow> string set" where
  "cursors_asked job calls = (\<Union>(j, cs) \<in> set calls. if j = job then set cs else {})"

definition query_set :: "cursor_queries \<Rightarrow> string \<Rightarrow> string set" where
  "query_set q job = set (dget_or q job [])"

lemma enqueue_query_set:
  "query_set (enqueue_query job cs q) j = query_set q j \<union> (if j = job then set cs else {})"
  by (auto simp: enqueue_query_def query_set_def dget_or_def Let_def split: option.splits)

lemma enqueue_query_wf: "wfd q \<Longrightarrow> wfd (enqueue_query job cs q)"
  by (simp add: enqueue_query_def Let_def)

lemma fold_enqueue:
  "wfd q \<Longrightarrow> wfd (fold (\<lambda>(job, cs). enqueue_query job cs) calls q) \<and>
     query_set (fold (\<lambda>(job, cs). enqueue_query job cs) calls q) job = query_set q job \<union> cursors_asked job calls"
proof (induction calls arbitrary: q)
  case (Cons p calls)
  obtain j cs where p: "p = (j, cs)" by (cases p)
  show ?case
    using Cons.IH [OF enqueue_query_wf [OF Cons.prems]]
    by (auto simp: p enqueue_query_set cursors_asked_def)
qed (simp add: cursors_asked_def)

lemma enqueue_all_wf: "wfd (enqueue_all calls)"
  and enqueue_all_set: "query_set (enqueue_all calls) job = cursors_asked job calls"
  using fold_enqueue [of "[]" calls job] by (simp_all add: enqueue_all_def query_set_def dget_or_def)

lemma fetch_is_manager_client:
  "Inr (fetch_cursors_states q d) = manager_client (\<lambda>job k. dget (db_cursors d) (namespace_of d job, k)) q"
  by (simp add: fetch_cursors_states_def manager_client_def)

lemma prepared_rows:
  "((ns, k), x) \<in> set (cursor_rows d (prepare_jobs_states sha fmt st)) \<longleftrightarrow>
     (\<exists>(job, s) \<in> set st. ns = namespace_of d job \<and>
       (\<exists>v. x = PDict v \<and> (k, v) \<in> set (dor [] (map (\<lambda>(c, v). (format_cursor sha fmt c, v)) (js_cursors_states s)))))"
  by (force simp: cursor_rows_def prepare_jobs_states_def)

lemma saved_row:
  assumes "wf_states st" and "dget st job = Some s" and "dget (js_cursors_states s) c = Some v"
    and "formats_apart sha [fmt] (dkeys (js_cursors_states s))"
    and "\<And>job'. job' \<in> set (dkeys st) \<Longrightarrow> namespace_of d job' = namespace_of d job \<Longrightarrow> job' = job"
  shows "dget (db_cursors (sync_jobs_states (prepare_jobs_states sha fmt st) d))
    (namespace_of d job, format_cursor sha fmt c) = Some (PDict v)"
proof -
  let ?k = "format_cursor sha fmt c" and ?ps = "map (\<lambda>(c, v). (format_cursor sha fmt c, v)) (js_cursors_states s)"
  have w: "wfd st" "wfd (js_cursors_states s)" using assms(1,2) by (auto simp: wf_states_def)
  have cv: "(c, v) \<in> set (js_cursors_states s)" using assms(3) by (rule map_of_SomeD)
  have same: "v' = v" if h: "(?k, v') \<in> set ?ps" for v'
  proof -
    obtain c' where c': "(c', v') \<in> set (js_cursors_states s)" "format_cursor sha fmt c' = ?k"
      using h by auto
    then have "c' = c" using assms(4) cv by (force simp: formats_apart_def)
    with c' cv w(2) show ?thesis by (metis wfd_dget_iff option.inject)
  qed
  have "map_of (rev ?ps) ?k = Some v"
  proof (rule map_of_unique)
    show "(?k, v) \<in> set (rev ?ps)" using cv by force
  next
    fix v' assume h: "(?k, v') \<in> set (rev ?ps)"
    show "v' = v" by (rule same [OF h [unfolded set_rev]])
  qed
  then have d: "dget (dor [] ?ps) ?k = Some v" by (simp add: dget_dor_rev)
  let ?rows = "cursor_rows d (prepare_jobs_states sha fmt st)"
  have "map_of (rev ?rows) (namespace_of d job, ?k) = Some (PDict v)"
  proof (rule map_of_unique)
    have "(job, s) \<in> set st" using assms(2) by (rule map_of_SomeD)
    then show "((namespace_of d job, ?k), PDict v) \<in> set (rev ?rows)"
      using map_of_SomeD [OF d] unfolding set_rev prepared_rows by blast
  next
    fix x assume "((namespace_of d job, ?k), x) \<in> set (rev ?rows)"
    then obtain job' s' v' where h: "(job', s') \<in> set st" "namespace_of d job = namespace_of d job'" "x = PDict v'"
      "(?k, v') \<in> set (dor [] (map (\<lambda>(c, v). (format_cursor sha fmt c, v)) (js_cursors_states s')))"
      unfolding set_rev prepared_rows by blast
    have "job' \<in> set (dkeys st)" using h(1) by force
    then have "job' = job" using assms(5) h(2) by metis
    then have "s' = s" using h(1) assms(2) w(1) by (metis wfd_dget_iff option.inject)
    then have "dget (dor [] ?ps) ?k = Some v'" using h(4) by (simp add: wfd_dget_iff [symmetric])
    then show "x = PDict v" using d h(3) by simp
  qed
  then show ?thesis by (simp add: db_cursors_sync)
qed

text \<open>
  C27: a cursor's state survives the worker. When a flush has sent a state \<open>v\<close> for a cursor of a job, a
  worker that later asks for that cursor, in a request it shares with any other calls, gets \<open>v\<close>,
  through the format of the keys and the tables of the worker manager. The format it is saved in
  is one of those fetched, keys of distinct cursors differ, no other job flushed writes the same
  namespace, and no other format has an older value.
\<close>

theorem cursor_state_round_trip:
  assumes "wf_states st" and "dget st job = Some s" and "dget (js_cursors_states s) c = Some v"
    and "save \<in> set formats"
    and "formats_apart sha formats (dkeys (js_cursors_states s) @ cs)" and "set cs = cursors_asked job calls"
    and "c \<in> cursors_asked job calls"
    and "\<And>job'. job' \<in> set (dkeys st) \<Longrightarrow> namespace_of d job' = namespace_of d job \<Longrightarrow> job' = job"
    and "\<And>f. f \<in> set formats \<Longrightarrow> format_cursor sha f c \<noteq> format_cursor sha save c \<Longrightarrow>
      dget (db_cursors (sync_jobs_states (prepare_jobs_states sha save st) d)) (namespace_of d job, format_cursor sha f c) = None"
  shows "\<exists>r. fetch_result (do_fetch sha formats
      (\<lambda>q. Inr (fetch_cursors_states q (sync_jobs_states (prepare_jobs_states sha save st) d)))
      (enqueue_all calls)) job = Inr r \<and> dget r c = Some (PDict v)"
proof -
  let ?d = "sync_jobs_states (prepare_jobs_states sha save st) d"
  let ?srv = "\<lambda>job k. dget (db_cursors ?d) (namespace_of ?d job, k)"
  obtain qs where qs: "dget (enqueue_all calls) job = Some qs" "set qs = set cs"
    using enqueue_all_set [of calls job] assms(6,7)
    by (cases "dget (enqueue_all calls) job") (simp_all add: query_set_def dget_or_def)
  have apart: "formats_apart sha formats qs" "formats_apart sha [save] (dkeys (js_cursors_states s))"
    using assms(4,5) qs(2) by (auto simp: formats_apart_def)
  have "?srv job (format_cursor sha save c) = Some (PDict v)"
    using saved_row [OF assms(1,2,3) apart(2) assms(8)] by simp
  moreover have "?srv job (format_cursor sha f c) \<in> {None, Some (PDict v)}" if "f \<in> set formats" for f
    using calculation assms(9) [OF that] by (cases "format_cursor sha f c = format_cursor sha save c") simp_all
  ultimately have "answers sha formats (?srv job) c (Some (PDict v))"
    using assms(4) by (auto simp: answers_def)
  moreover have "c \<in> set qs" using assms(6,7) qs(2) by simp
  moreover have "(\<lambda>q. Inr (fetch_cursors_states q ?d)) = manager_client ?srv"
    by (rule ext) (rule fetch_is_manager_client)
  ultimately show ?thesis
    using do_fetch_manager [OF enqueue_all_wf qs(1) apart(1), of ?srv] by auto
qed

definition demo_sha :: "string \<Rightarrow> string" where
  "demo_sha s = rev s"

definition demo_states :: jobs_states where
  "demo_states = [(''j'', \<lparr>js_cursor = None, js_cursors_states = [(''a'', [(''n'', PInt 1)])], js_completion = None\<rparr>)]"

definition demo_tables :: db where
  "demo_tables = \<lparr>db_queues = [], db_jobs = [], db_cursors = []\<rparr>"

lemma cursor_state_round_trip_witness:
  "\<exists>r. fetch_result (do_fetch demo_sha [SHA256]
      (\<lambda>q. Inr (fetch_cursors_states q (sync_jobs_states (prepare_jobs_states demo_sha SHA256 demo_states) demo_tables)))
      (enqueue_all [(''j'', [''a'']), (''k'', [''a'']), (''j'', [''b''])])) ''j'' = Inr r \<and>
    dget r ''a'' = Some (PDict [(''n'', PInt 1)])"
proof (rule cursor_state_round_trip)
  show "wf_states demo_states" by (simp add: demo_states_def wf_states_def wfd_def)
  show "dget demo_states ''j'' = Some (snd (hd demo_states))" by (simp add: demo_states_def)
  show "dget (js_cursors_states (snd (hd demo_states))) ''a'' = Some [(''n'', PInt 1)]" by (simp add: demo_states_def)
  show "SHA256 \<in> set [SHA256]" by simp
  show "formats_apart demo_sha [SHA256] (dkeys (js_cursors_states (snd (hd demo_states))) @ [''a'', ''b''])"
    by (simp add: demo_states_def formats_apart_def demo_sha_def)
  show "set [''a'', ''b''] = cursors_asked ''j'' [(''j'', [''a'']), (''k'', [''a'']), (''j'', [''b''])]"
    by (auto simp: cursors_asked_def)
  show "''a'' \<in> cursors_asked ''j'' [(''j'', [''a'']), (''k'', [''a'']), (''j'', [''b''])]"
    by (simp add: cursors_asked_def)
qed (auto simp: demo_states_def)

section \<open>The hooks\<close>

text \<open>
  \<open>sub_dict k d\<close> is \<open>d.get(k, {})\<close> where a dict method is called on the result. A state cursor is a
  text or \<open>None\<close>; another truthy value, which no inventory produces, is an error here.
\<close>

definition sub_dict :: "string \<Rightarrow> (string, pyval) pydict \<Rightarrow> (string, pyval) pydict result" where
  "sub_dict k d =
     (case dget d k of
        None \<Rightarrow> Inr []
      | Some (PDict e) \<Rightarrow> Inr e
      | Some _ \<Rightarrow> Inl (PlainException ''AttributeError''))"

definition on_work_queue_built :: "(string, pyval) pydict \<Rightarrow> (string, pyval) pydict result" where
  "on_work_queue_built config =
     rbind (sub_dict ''job_state'' config) (\<lambda>js.
       if truthy (dget_or js ''cursors_states_enabled'' PNone)
       then (case dget_or config ''job'' (PDict []) of
               PDict j \<Rightarrow> Inr (dset ''job'' (PDict (dset ''batching_enabled'' (PBool True) j)) config)
             | _ \<Rightarrow> Inl (TypeError ''job''))
       else Inr config)"

text \<open>\<open>metadata.setdefault("job_state", {}).setdefault("state_cursor", job's cursor)\<close>.\<close>

definition default_state_cursor :: "(string, pyval) pydict \<Rightarrow> (string, pyval) pydict result" where
  "default_state_cursor md =
     rbind (sub_dict ''job_state'' md) (\<lambda>js.
     rbind (sub_dict ''job'' md) (\<lambda>j.
       Inr (dset ''job_state'' (PDict (dsetdefault ''state_cursor'' (dget_or j ''cursor'' PNone) js)) md)))"

definition state_cursor :: "(string, pyval) pydict \<Rightarrow> string option result" where
  "state_cursor md =
     rbind (sub_dict ''job_state'' md) (\<lambda>js.
       case dget_or js ''state_cursor'' PNone of
         PStr c \<Rightarrow> Inr (if c = [] then None else Some c)
       | v \<Rightarrow> if truthy v then Inl (TypeError ''state_cursor'') else Inr None)"

definition namespace_option :: "(string, pyval) pydict \<Rightarrow> string \<Rightarrow> string result" where
  "namespace_option config queue_name =
     rbind (sub_dict ''job_state'' config) (\<lambda>js.
       case dget_or js ''cursors_states_namespace'' PNone of
         PStr n \<Rightarrow> Inr (if n = [] then queue_name else n)
       | v \<Rightarrow> if truthy v then Inl (TypeError ''cursors_states_namespace'') else Inr queue_name)"

definition set_cursor_state :: "(string, (string, pyval) pydict) pydict \<Rightarrow> (string, pyval) pydict \<Rightarrow>
     (string, pyval) pydict result" where
  "set_cursor_state states md =
     rbind (sub_dict ''job_state'' md) (\<lambda>js.
     rbind (state_cursor md) (\<lambda>c.
       let v = (case c of None \<Rightarrow> PNone | Some k \<Rightarrow> (case dget states k of None \<Rightarrow> PNone | Some s \<Rightarrow> PDict s))
       in Inr (dset ''job_state'' (PDict (dset ''cursor_state'' v js)) md)))"

definition on_items_batched ::
  "(string \<Rightarrow> string list \<Rightarrow> (string, (string, pyval) pydict) pydict result) \<Rightarrow> (string, pyval) pydict \<Rightarrow> string \<Rightarrow>
     (string, pyval) pydict list \<Rightarrow> (string, pyval) pydict list result" where
  "on_items_batched fetch config job_name mds =
     rbind (mapM default_state_cursor mds) (\<lambda>mds1.
     rbind (mapM state_cursor mds1) (\<lambda>cs.
     rbind (namespace_option config job_name) (\<lambda>ns.
     rbind (fetch ns (List.map_filter id cs)) (\<lambda>states.
       mapM (set_cursor_state states) mds1))))"

definition on_message_polled :: "(string, pyval) pydict \<Rightarrow> pyval option result" where
  "on_message_polled md =
     rbind (sub_dict ''job_state'' md) (\<lambda>js.
       let v = dget_or js ''cursor_state'' PNone in Inr (if truthy v then Some v else None))"

text \<open>The updates a message's events make, and the error that stops them.\<close>

fun on_pipeline_events ::
  "(string, pyval) pydict \<Rightarrow> (string, pyval) pydict \<Rightarrow> string \<Rightarrow> pipeline_event list \<Rightarrow>
     store_op list \<times> exn option" where
  "on_pipeline_events md config queue_name [] = ([], None)"
| "on_pipeline_events md config queue_name (CursorStateUpdated state cursor # evs) =
     (case (if struthy cursor then Inr cursor else state_cursor md) of
        Inl e \<Rightarrow> ([], Some e)
      | Inr None \<Rightarrow> on_pipeline_events md config queue_name evs
      | Inr (Some c) \<Rightarrow>
          (case namespace_option config queue_name of
             Inl e \<Rightarrow> ([], Some e)
           | Inr ns \<Rightarrow>
               (let (ops, err) = on_pipeline_events md config queue_name evs
                in (SetJobCursorState ns c state # ops, err))))"
| "on_pipeline_events md config queue_name (_ # evs) = on_pipeline_events md config queue_name evs"

text \<open>\<open>set_job_failed\<close> formats the error; \<open>name\<close> and \<open>text\<close> are its type's name and its \<open>str\<close>.\<close>

definition service_set_failed :: "string \<Rightarrow> string \<Rightarrow> string \<Rightarrow> time \<Rightarrow> sync_store \<Rightarrow> sync_store" where
  "service_set_failed job ename etext now s = store_set (SetJobFailed job (ename @ '': '' @ etext) now) s"

text \<open>
  The state fetched for an item's cursor is what its pipeline gets when the item is polled, except
  that an empty state is not passed at all.
\<close>

lemma polled_state:
  assumes "set_cursor_state states md = Inr md'" and "state_cursor md = Inr (Some c)"
  shows "on_message_polled md' = Inr (case dget states c of None \<Rightarrow> None | Some s \<Rightarrow> if s = [] then None else Some (PDict s))"
proof -
  obtain js where "md' = dset ''job_state'' (PDict (dset ''cursor_state''
      (case dget states c of None \<Rightarrow> PNone | Some s \<Rightarrow> PDict s) js)) md"
    using assms by (auto simp: set_cursor_state_def rbind_Inr_iff Let_def)
  then have "sub_dict ''job_state'' md' = Inr (dset ''cursor_state''
      (case dget states c of None \<Rightarrow> PNone | Some s \<Rightarrow> PDict s) js)"
    by (simp add: sub_dict_def)
  then show ?thesis by (simp add: on_message_polled_def dget_or_def split: option.split)
qed

end
