(* ===== verification/Async_Utils.thy ===== *)
theory Async_Utils
  imports Prelude
begin

text \<open>
  The asyncio helpers of \<open>utils/asyncutils.py\<close>: \<open>DelayedThrottle\<close>, \<open>SharedLock\<close>,
  \<open>AsyncLazyDict\<close> and \<open>TasksGroup\<close>.

  A coroutine runs without interruption between two awaits, so each of these stretches is one
  operation on the object's state; what an await waits for is an operation of its own. Futures
  are numbered, and the state records which have been settled and how.
\<close>

section \<open>DelayedThrottle\<close>

datatype 'r outcome = Returned 'r | Raised exn | WasCancelled

text \<open>Where the delayed task is: in the wait for its delay, or in the function (with its arguments and the future it will settle).\<close>

datatype 'a throttle_phase = Waiting | Running 'a "nat option"

record ('a, 'r) throttle =
  th_task :: "'a throttle_phase option"
  th_params :: "'a option"
  th_event :: bool
  th_fut :: "nat option"
  th_next :: nat
  th_settled :: "(nat \<times> 'r outcome) list"
  th_called :: "'a list"

definition new_throttle :: "('a, 'r) throttle" where
  "new_throttle = \<lparr>th_task = None, th_params = None, th_event = False, th_fut = None, th_next = 0,
     th_settled = [], th_called = []\<rparr>"

definition call_nowait :: "'a \<Rightarrow> ('a, 'r) throttle \<Rightarrow> ('a, 'r) throttle" where
  "call_nowait a t =
     (let t1 = t\<lparr>th_params := Some a\<rparr>
      in if th_task t1 = None then t1\<lparr>th_task := Some Waiting\<rparr> else t1)"

definition throttle_call :: "'a \<Rightarrow> ('a, 'r) throttle \<Rightarrow> nat \<times> ('a, 'r) throttle" where
  "throttle_call a t =
     (case th_fut t of
        None \<Rightarrow> (th_next t, call_nowait a (t\<lparr>th_fut := Some (th_next t), th_next := Suc (th_next t)\<rparr>))
      | Some n \<Rightarrow> (n, call_nowait a t))"

text \<open>A future that is done cannot be settled again: the attempt raises in the task that ends anyway.\<close>

definition settle :: "nat option \<Rightarrow> 'r outcome \<Rightarrow> ('a, 'r) throttle \<Rightarrow> ('a, 'r) throttle" where
  "settle f r t =
     (case f of
        None \<Rightarrow> t
      | Some n \<Rightarrow> if n \<in> fst ` set (th_settled t) then t else t\<lparr>th_settled := th_settled t @ [(n, r)]\<rparr>)"

text \<open>The \<open>finally\<close> of \<open>_delay_call\<close>.\<close>

definition end_call :: "('a, 'r) throttle \<Rightarrow> ('a, 'r) throttle" where
  "end_call t =
     (case th_params t of
        None \<Rightarrow> t\<lparr>th_task := None\<rparr>
      | Some a \<Rightarrow> call_nowait a (t\<lparr>th_task := None\<rparr>))"

text \<open>The wait ends, by its delay or because the event is set.\<close>

definition throttle_wake :: "('a, 'r) throttle \<Rightarrow> ('a, 'r) throttle" where
  "throttle_wake t =
     (case th_task t of
        Some Waiting \<Rightarrow>
          (case th_params t of
             None \<Rightarrow> end_call (settle (th_fut t) WasCancelled (t\<lparr>th_event := False\<rparr>))
           | Some a \<Rightarrow> t\<lparr>th_task := Some (Running a (th_fut t)), th_params := None, th_event := False,
               th_fut := None, th_called := th_called t @ [a]\<rparr>)
      | _ \<Rightarrow> t)"

definition throttle_finish :: "'r outcome \<Rightarrow> ('a, 'r) throttle \<Rightarrow> ('a, 'r) throttle" where
  "throttle_finish r t =
     (case th_task t of Some (Running a f) \<Rightarrow> end_call (settle f r t) | _ \<Rightarrow> t)"

definition throttle_cancel :: "('a, 'r) throttle \<Rightarrow> ('a, 'r) throttle" where
  "throttle_cancel t =
     (let t1 = t\<lparr>th_params := None\<rparr>
      in case th_task t of
           None \<Rightarrow> t1
         | Some Waiting \<Rightarrow> end_call (settle (th_fut t) WasCancelled (t1\<lparr>th_event := False\<rparr>))
         | Some (Running a f) \<Rightarrow> end_call (settle f WasCancelled t1))"

definition throttle_flush :: "('a, 'r) throttle \<Rightarrow> ('a, 'r) throttle" where
  "throttle_flush t = (if th_task t = None then t else t\<lparr>th_event := True\<rparr>)"

datatype ('a, 'r) throttle_event =
  CallNowait 'a | Call 'a | Wake | Finish "'r outcome" | Flush | Cancel

fun throttle_step :: "('a, 'r) throttle_event \<Rightarrow> ('a, 'r) throttle \<Rightarrow> ('a, 'r) throttle" where
  "throttle_step (CallNowait a) t = call_nowait a t"
| "throttle_step (Call a) t = snd (throttle_call a t)"
| "throttle_step Wake t = throttle_wake t"
| "throttle_step (Finish r) t = throttle_finish r t"
| "throttle_step Flush t = throttle_flush t"
| "throttle_step Cancel t = throttle_cancel t"

definition throttle_run :: "('a, 'r) throttle_event list \<Rightarrow> ('a, 'r) throttle \<Rightarrow> ('a, 'r) throttle" where
  "throttle_run evs t = fold throttle_step evs t"

text \<open>The futures that are still to be settled, and the arguments of the last call.\<close>

definition open_futures :: "('a, 'r) throttle \<Rightarrow> nat set" where
  "open_futures t =
     set_option (th_fut t) \<union> (case th_task t of Some (Running _ f) \<Rightarrow> set_option f | _ \<Rightarrow> {})"

fun last_call :: "'a option \<Rightarrow> ('a, 'r) throttle_event list \<Rightarrow> 'a option" where
  "last_call l [] = l"
| "last_call l (CallNowait a # evs) = last_call (Some a) evs"
| "last_call l (Call a # evs) = last_call (Some a) evs"
| "last_call l (_ # evs) = last_call l evs"

definition throttle_inv :: "'a option \<Rightarrow> ('a, 'r) throttle \<Rightarrow> bool" where
  "throttle_inv l t \<longleftrightarrow>
     (th_params t \<noteq> None \<longrightarrow> th_task t \<noteq> None) \<and> (th_task t = Some Waiting \<longrightarrow> th_params t \<noteq> None) \<and>
     (th_fut t \<noteq> None \<longrightarrow> th_params t \<noteq> None) \<and>
     fst ` set (th_settled t) \<union> open_futures t = {..<th_next t} \<and>
     fst ` set (th_settled t) \<inter> open_futures t = {} \<and> distinct (map fst (th_settled t)) \<and>
     (\<forall>a f. th_task t = Some (Running a f) \<and> f \<noteq> None \<longrightarrow> th_fut t \<noteq> f) \<and>
     (case th_params t of
        Some a \<Rightarrow> l = Some a
      | None \<Rightarrow> l = (if th_called t = [] then None else Some (last (th_called t))))"

lemma throttle_inv_new: "throttle_inv None new_throttle"
  by (simp add: throttle_inv_def new_throttle_def open_futures_def)

fun no_cancel :: "('a, 'r) throttle_event \<Rightarrow> bool" where
  "no_cancel Cancel = False"
| "no_cancel _ = True"

lemma call_nowait_inv: "throttle_inv l t \<Longrightarrow> throttle_inv (Some a) (call_nowait a t)"
  by (auto simp: throttle_inv_def call_nowait_def open_futures_def Let_def split: option.splits throttle_phase.splits)

lemma throttle_call_inv:
  assumes "throttle_inv l t" shows "throttle_inv (Some a) (snd (throttle_call a t))"
proof (cases "th_fut t")
  case None
  have "throttle_inv (Some a) (call_nowait a (t\<lparr>th_fut := Some (th_next t), th_next := Suc (th_next t)\<rparr>))"
    using assms None
    by (auto simp: throttle_inv_def call_nowait_def open_futures_def Let_def lessThan_Suc
        split: option.splits throttle_phase.splits)
  with None show ?thesis by (simp add: throttle_call_def)
next
  case (Some n)
  with assms show ?thesis by (simp add: throttle_call_def call_nowait_inv)
qed

lemma throttle_wake_inv: "throttle_inv l t \<Longrightarrow> throttle_inv l (throttle_wake t)"
  by (auto simp: throttle_inv_def throttle_wake_def open_futures_def split: option.splits throttle_phase.splits)

lemma throttle_finish_inv:
  assumes "throttle_inv l t" shows "throttle_inv l (throttle_finish r t)"
proof (cases "\<exists>a f. th_task t = Some (Running a f)")
  case True
  then obtain a f where r: "th_task t = Some (Running a f)" by blast
  show ?thesis
  proof (cases f)
    case None
    with assms r show ?thesis
      by (auto simp: throttle_inv_def throttle_finish_def settle_def end_call_def call_nowait_def open_futures_def
          split: option.splits)
  next
    case (Some n)
    then have n: "n \<notin> fst ` set (th_settled t)" "th_fut t \<noteq> Some n"
      using assms r by (auto simp: throttle_inv_def open_futures_def)
    with assms r Some show ?thesis
      by (auto simp: throttle_inv_def throttle_finish_def settle_def end_call_def call_nowait_def open_futures_def
          split: option.splits)
  qed
next
  case False
  then have "throttle_finish r t = t"
    by (auto simp: throttle_finish_def split: option.splits throttle_phase.splits)
  with assms show ?thesis by simp
qed

lemma last_call_append: "last_call l (evs @ evs') = last_call (last_call l evs) evs'"
  by (induction l evs rule: last_call.induct) simp_all

lemma throttle_step_inv:
  assumes "throttle_inv l t" and "no_cancel ev"
  shows "throttle_inv (last_call l [ev]) (throttle_step ev t)"
proof (cases ev)
  case Flush
  then show ?thesis using assms
    by (auto simp: throttle_flush_def throttle_inv_def open_futures_def split: option.splits throttle_phase.splits)
qed (use assms in \<open>simp_all add: call_nowait_inv throttle_call_inv throttle_wake_inv throttle_finish_inv\<close>)

lemma throttle_run_inv:
  "throttle_inv l t \<Longrightarrow> list_all no_cancel evs \<Longrightarrow> throttle_inv (last_call l evs) (throttle_run evs t)"
proof (induction evs arbitrary: l t)
  case (Cons ev evs)
  have "throttle_inv (last_call l [ev]) (throttle_step ev t)"
    using Cons.prems throttle_step_inv by auto
  from Cons.IH [OF this] Cons.prems(2) show ?case
    using last_call_append [of l "[ev]" evs] by (simp add: throttle_run_def)
qed (simp add: throttle_run_def)

lemma throttle_run_append: "throttle_run (evs @ evs') t = throttle_run evs' (throttle_run evs t)"
  by (simp add: throttle_run_def)

text \<open>Two rounds of waiting and calling leave the throttle idle.\<close>

lemma throttle_drains:
  assumes "throttle_inv l t"
  shows "th_task (throttle_run [Wake, Finish r, Wake, Finish r'] t) = None"
  using assms
  by (cases "th_task t"; cases "th_params t")
    (auto simp: throttle_run_def throttle_wake_def throttle_finish_def end_call_def settle_def call_nowait_def
      throttle_inv_def split: option.splits throttle_phase.splits if_splits)



text \<open>
  \<open>flush\<close> waits for the task there is. A call made while the function runs is left to the next task,
  which is still waiting when the flush returns.
\<close>

lemma flush_misses_requeued_call:
  assumes "th_task t = Some (Running a f)"
  shows "th_params (throttle_finish r (throttle_flush (call_nowait b t))) = Some b \<and>
    th_task (throttle_finish r (throttle_flush (call_nowait b t))) = Some Waiting \<and>
    th_called (throttle_finish r (throttle_flush (call_nowait b t))) = th_called t"
  using assms
  by (simp add: throttle_flush_def throttle_finish_def call_nowait_def end_call_def settle_def split: option.split)

text \<open>
  A cancelled wait settles the callers' future but keeps it for later callers, who get the
  cancellation of a call that was not theirs.
\<close>

lemma cancelled_future_is_reused:
  "\<exists>n t. throttle_call (2::nat) (throttle_run [Call 1, Cancel] new_throttle) = (n, t) \<and>
     (n, WasCancelled) \<in> set (th_settled t) \<and>
     (\<forall>r. th_settled (throttle_run [Wake, Finish (Returned r)] t) = th_settled t)"
  by (simp add: throttle_run_def new_throttle_def throttle_call_def call_nowait_def throttle_wake_def
      throttle_cancel_def throttle_finish_def end_call_def settle_def)

section \<open>SharedLock\<close>

text \<open>
  \<open>sl_entered\<close> are the tasks inside the semaphore, \<open>sl_reserved\<close> those among them that have got past the
  lock and have their reservation, \<open>sl_locker\<close> the one that holds the lock. A limit of \<open>0\<close> is no limit.
  An operation that an await would block is \<open>None\<close>.
\<close>

record shared_lock =
  sl_max_reservations :: nat
  sl_locker :: "nat option"
  sl_entered :: "nat list"
  sl_reserved :: "nat set"

definition new_shared_lock :: "nat \<Rightarrow> shared_lock" where
  "new_shared_lock n = \<lparr>sl_max_reservations = n, sl_locker = None, sl_entered = [], sl_reserved = {}\<rparr>"

definition lock_locked :: "shared_lock \<Rightarrow> bool" where
  "lock_locked s \<longleftrightarrow> sl_locker s \<noteq> None"

definition semaphore_locked :: "shared_lock \<Rightarrow> bool" where
  "semaphore_locked s \<longleftrightarrow> sl_max_reservations s \<noteq> 0 \<and> sl_max_reservations s \<le> length (sl_entered s)"

definition locked_reservations :: "shared_lock \<Rightarrow> bool" where
  "locked_reservations s \<longleftrightarrow> lock_locked s \<or> semaphore_locked s"

definition sl_enter :: "nat \<Rightarrow> shared_lock \<Rightarrow> shared_lock option" where
  "sl_enter r s = (if semaphore_locked s then None else Some (s\<lparr>sl_entered := sl_entered s @ [r]\<rparr>))"

definition sl_reserve :: "nat \<Rightarrow> shared_lock \<Rightarrow> shared_lock option" where
  "sl_reserve r s = (if lock_locked s then None else Some (s\<lparr>sl_reserved := insert r (sl_reserved s)\<rparr>))"

definition sl_acquire :: "nat \<Rightarrow> shared_lock \<Rightarrow> shared_lock option" where
  "sl_acquire r s =
     (if sl_locker s = Some r then Some s
      else if lock_locked s then None else Some (s\<lparr>sl_locker := Some r\<rparr>))"

definition sl_release :: "nat \<Rightarrow> shared_lock \<Rightarrow> shared_lock" where
  "sl_release r s = (if sl_locker s \<noteq> Some r then s else s\<lparr>sl_locker := None\<rparr>)"

definition sl_leave :: "nat \<Rightarrow> shared_lock \<Rightarrow> shared_lock" where
  "sl_leave r s =
     (let s1 = sl_release r s
      in s1\<lparr>sl_entered := remove1 r (sl_entered s1), sl_reserved := sl_reserved s1 - {r}\<rparr>)"

inductive shared_lock_step :: "shared_lock \<Rightarrow> shared_lock \<Rightarrow> bool" where
  enter: "r \<notin> set (sl_entered s) \<Longrightarrow> sl_enter r s = Some s' \<Longrightarrow> shared_lock_step s s'"
| reserve: "r \<in> set (sl_entered s) - sl_reserved s \<Longrightarrow> sl_reserve r s = Some s' \<Longrightarrow> shared_lock_step s s'"
| acquire: "r \<in> sl_reserved s \<Longrightarrow> sl_acquire r s = Some s' \<Longrightarrow> shared_lock_step s s'"
| release: "r \<in> sl_reserved s \<Longrightarrow> shared_lock_step s (sl_release r s)"
| leave: "r \<in> sl_reserved s \<Longrightarrow> shared_lock_step s (sl_leave r s)"

definition shared_lock_inv :: "nat \<Rightarrow> shared_lock \<Rightarrow> bool" where
  "shared_lock_inv n s \<longleftrightarrow> sl_max_reservations s = n \<and> distinct (sl_entered s) \<and>
     set_option (sl_locker s) \<subseteq> sl_reserved s \<and> sl_reserved s \<subseteq> set (sl_entered s) \<and>
     (n \<noteq> 0 \<longrightarrow> length (sl_entered s) \<le> n)"

lemmas shared_lock_defs = sl_enter_def sl_reserve_def sl_acquire_def sl_release_def sl_leave_def
  locked_reservations_def lock_locked_def semaphore_locked_def Let_def

lemma shared_lock_step_inv:
  "shared_lock_step s s' \<Longrightarrow> shared_lock_inv n s \<Longrightarrow> shared_lock_inv n s'"
  by (induction rule: shared_lock_step.induct)
    (auto simp: shared_lock_inv_def shared_lock_defs length_remove1 split: if_splits)

lemma shared_lock_reachable:
  assumes "shared_lock_step\<^sup>*\<^sup>* (new_shared_lock n) s"
  shows "shared_lock_inv n s"
  using assms
proof (induction rule: rtranclp_induct)
  case base
  show ?case by (simp add: shared_lock_inv_def new_shared_lock_def)
next
  case (step s s')
  then show ?case using shared_lock_step_inv by blast
qed

text \<open>
  The lock is exclusive among reservations, and while it is held no reservation is made: the
  reservations present are those made before. When its holder leaves, another can take it.
\<close>

lemma locked_blocks_reservations:
  assumes "shared_lock_step s s'" and "lock_locked s" and "lock_locked s'"
  shows "sl_reserved s' \<subseteq> sl_reserved s \<and> sl_locker s' = sl_locker s"
  using assms
  by (induction rule: shared_lock_step.induct) (auto simp: shared_lock_defs split: if_splits)

lemma leave_frees_lock:
  assumes "sl_locker s = Some r" and "r' \<in> sl_reserved s" and "r' \<noteq> r"
  shows "\<exists>s'. sl_acquire r' (sl_leave r s) = Some s' \<and> sl_locker s' = Some r' \<and> r' \<in> sl_reserved s'"
  using assms by (simp add: shared_lock_defs)

section \<open>AsyncLazyDict\<close>

text \<open>
  A value that is being initialised, or has been. \<open>ld_started\<close> and \<open>ld_failed\<close> record the keys whose
  initialiser was started and failed.
\<close>

datatype 'v lazy_entry = InFlight | Ready 'v

record ('k, 'v) lazy_dict =
  ld_data :: "('k, 'v lazy_entry) pydict"
  ld_started :: "'k list"
  ld_failed :: "'k list"

definition new_lazy_dict :: "('k, 'v) lazy_dict" where
  "new_lazy_dict = \<lparr>ld_data = [], ld_started = [], ld_failed = []\<rparr>"

definition lazy_get :: "'k \<Rightarrow> ('k, 'v) lazy_dict \<Rightarrow> ('k, 'v) lazy_dict" where
  "lazy_get k d =
     (if dhas k (ld_data d) then d
      else d\<lparr>ld_data := dset k InFlight (ld_data d), ld_started := ld_started d @ [k]\<rparr>)"

definition lazy_initialised :: "'k \<Rightarrow> 'v result \<Rightarrow> ('k, 'v) lazy_dict \<Rightarrow> ('k, 'v) lazy_dict" where
  "lazy_initialised k r d =
     (if dget (ld_data d) k \<noteq> Some InFlight then d
      else case r of
        Inl _ \<Rightarrow> d\<lparr>ld_data := dpop k (ld_data d), ld_failed := ld_failed d @ [k]\<rparr>
      | Inr v \<Rightarrow> d\<lparr>ld_data := dset k (Ready v) (ld_data d)\<rparr>)"

datatype ('k, 'v) lazy_event = LazyGet 'k | Initialised 'k "'v result"

fun lazy_step :: "('k, 'v) lazy_event \<Rightarrow> ('k, 'v) lazy_dict \<Rightarrow> ('k, 'v) lazy_dict" where
  "lazy_step (LazyGet k) d = lazy_get k d"
| "lazy_step (Initialised k r) d = lazy_initialised k r d"

definition lazy_inv :: "('k, 'v) lazy_dict \<Rightarrow> bool" where
  "lazy_inv d \<longleftrightarrow> (\<forall>k. count_list (ld_started d) k = count_list (ld_failed d) k + (if dhas k (ld_data d) then 1 else 0))"

lemma dhas_update [simp]: "dhas k' (dset k v d) = (k' = k \<or> dhas k' d)" "dhas k' (dpop k d) = (k' \<noteq> k \<and> dhas k' d)"
  by (auto simp: dhas_iff_dget)

lemma lazy_step_inv: "lazy_inv d \<Longrightarrow> lazy_inv (lazy_step ev d)"
proof (cases ev)
  case (Initialised k r)
  assume d: "lazy_inv d"
  show ?thesis
  proof (cases "dget (ld_data d) k = Some InFlight")
    case True
    then have "dhas k (ld_data d)" by (simp add: dhas_iff_dget)
    with d True show ?thesis
      by (cases r) (auto simp: Initialised lazy_inv_def lazy_initialised_def)
  qed (use d in \<open>simp add: Initialised lazy_initialised_def\<close>)
qed (auto simp: lazy_inv_def lazy_get_def)

text \<open>
  The initialiser of a key runs once for all the callers there are, and again only after it has
  failed; a value that is there is never computed again.
\<close>

lemma lazy_runs_once:
  "lazy_inv (fold lazy_step evs new_lazy_dict) \<and>
   count_list (ld_started (fold lazy_step evs new_lazy_dict)) k
     \<le> Suc (count_list (ld_failed (fold lazy_step evs new_lazy_dict)) k)"
proof -
  have "lazy_inv d \<Longrightarrow> lazy_inv (fold lazy_step evs d)" for d :: "('a, 'b) lazy_dict"
    by (induction evs arbitrary: d) (simp_all add: lazy_step_inv)
  moreover have "lazy_inv new_lazy_dict" by (simp add: lazy_inv_def new_lazy_dict_def)
  ultimately have i: "lazy_inv (fold lazy_step evs new_lazy_dict)" by blast
  then have "count_list (ld_started (fold lazy_step evs new_lazy_dict)) k
      = count_list (ld_failed (fold lazy_step evs new_lazy_dict)) k
        + (if dhas k (ld_data (fold lazy_step evs new_lazy_dict)) then 1 else 0)"
    by (simp only: lazy_inv_def)
  with i show ?thesis by simp
qed

lemma ready_is_kept:
  "dget (ld_data d) k = Some (Ready v) \<Longrightarrow> dget (ld_data (lazy_step ev d)) k = Some (Ready v)"
  by (cases ev) (auto simp: lazy_get_def lazy_initialised_def dhas_iff_dget split: sum.splits)

end
