(* ===== verification/Flush_Service.thy ===== *)
theory Flush_Service
  imports Job_State Async_Utils
begin

text \<open>
  \<open>JobStateService\<close> as a whole: the store of \<open>Job_State\<close> behind the throttle of \<open>Async_Utils\<close>. Every
  update asks the throttle for a flush; the throttle's function enters the store's flush context,
  sends the states and leaves the context with the request's outcome. Here it is proved, and no
  longer assumed, that flushes do not overlap.
\<close>

section \<open>The service\<close>

datatype flush_reply = Applied | Refused | ReplyLost

record flush_service =
  fs_auto_flush :: bool
  fs_throttle :: "(unit, unit) throttle"
  fs_world :: sync_world

definition new_service :: "bool \<Rightarrow> flush_service" where
  "new_service auto = \<lparr>fs_auto_flush = auto, fs_throttle = new_throttle, fs_world = new_world\<rparr>"

datatype service_event =
    SetState store_op
  | ThrottleWakes
  | FlushEnds flush_reply
  | CloseService

definition maybe_flush :: "flush_service \<Rightarrow> flush_service" where
  "maybe_flush s = (if fs_auto_flush s then s\<lparr>fs_throttle := call_nowait () (fs_throttle s)\<rparr> else s)"

definition is_flushing :: "('a, 'r) throttle \<Rightarrow> bool" where
  "is_flushing t = (case th_task t of Some (Running _ _) \<Rightarrow> True | _ \<Rightarrow> False)"

definition service_wakes :: "flush_service \<Rightarrow> flush_service" where
  "service_wakes s =
     (let t = throttle_wake (fs_throttle s)
      in s\<lparr>fs_throttle := t,
           fs_world := (if is_flushing t \<and> \<not> is_flushing (fs_throttle s)
                        then sync_step FlushBegin (fs_world s) else fs_world s)\<rparr>)"

fun reply_event :: "flush_reply \<Rightarrow> sync_event" where
  "reply_event Applied = FlushOk"
| "reply_event Refused = FlushRefused"
| "reply_event ReplyLost = FlushLost"

fun reply_outcome :: "flush_reply \<Rightarrow> unit outcome" where
  "reply_outcome Applied = Returned ()"
| "reply_outcome _ = Raised (PlainException ''request failed'')"

definition flush_ends :: "flush_reply \<Rightarrow> flush_service \<Rightarrow> flush_service" where
  "flush_ends r s =
     (if is_flushing (fs_throttle s)
      then s\<lparr>fs_throttle := throttle_finish (reply_outcome r) (fs_throttle s),
             fs_world := sync_step (reply_event r) (fs_world s)\<rparr>
      else s)"

definition close_service :: "flush_service \<Rightarrow> flush_service" where
  "close_service s = (let s1 = maybe_flush s in s1\<lparr>fs_throttle := throttle_flush (fs_throttle s1)\<rparr>)"

fun service_step :: "service_event \<Rightarrow> flush_service \<Rightarrow> flush_service" where
  "service_step (SetState oper) s = maybe_flush (s\<lparr>fs_world := sync_step (Update oper) (fs_world s)\<rparr>)"
| "service_step ThrottleWakes s = service_wakes s"
| "service_step (FlushEnds r) s = flush_ends r s"
| "service_step CloseService s = close_service s"

definition service_run :: "service_event list \<Rightarrow> flush_service \<Rightarrow> flush_service" where
  "service_run evs s = fold service_step evs s"

fun service_event_ok :: "service_event \<Rightarrow> bool" where
  "service_event_ok (SetState oper) = op_ok oper"
| "service_event_ok _ = True"

definition service_updates :: "string \<Rightarrow> service_event list \<Rightarrow> job_view" where
  "service_updates job evs =
     sum_list (map (\<lambda>ev. case ev of SetState oper \<Rightarrow> if op_job oper = job then delta oper else 0 | _ \<Rightarrow> 0) evs)"

section \<open>Flushes do not overlap\<close>

text \<open>A task that waits has something to call the function with.\<close>

definition armed :: "('a, 'r) throttle \<Rightarrow> bool" where
  "armed t \<longleftrightarrow> (th_task t = Some Waiting \<longrightarrow> th_params t \<noteq> None)"

definition service_inv :: "flush_service \<Rightarrow> bool" where
  "service_inv s \<longleftrightarrow> world_inv (fs_world s) \<and> sw_busy (fs_world s) = is_flushing (fs_throttle s) \<and>
     armed (fs_throttle s)"

lemma is_flushing_simps [simp]:
  "is_flushing (call_nowait a t) = is_flushing t" "is_flushing (throttle_flush t) = is_flushing t"
  "is_flushing (throttle_finish r t) = False"
  by (auto simp: is_flushing_def call_nowait_def throttle_flush_def throttle_finish_def end_call_def settle_def Let_def
      split: option.splits throttle_phase.splits)

lemma is_flushing_wake:
  "armed t \<Longrightarrow> is_flushing (throttle_wake t) \<longleftrightarrow> is_flushing t \<or> th_task t = Some Waiting"
  by (auto simp: armed_def is_flushing_def throttle_wake_def split: option.splits throttle_phase.splits)

lemma armed_steps:
  assumes "armed t"
  shows "armed (call_nowait a t)" "armed (throttle_flush t)" "armed (throttle_wake t)" "armed (throttle_finish r t)"
  using assms
  by (auto simp: armed_def call_nowait_def throttle_flush_def throttle_wake_def throttle_finish_def end_call_def
      settle_def Let_def split: option.splits throttle_phase.splits)

lemma busy_step [simp]:
  "sw_busy (sync_step (Update oper) w) = sw_busy w" "sw_busy (sync_step FlushBegin w)"
  "\<not> sw_busy (sync_step (reply_event r) w)"
  by (simp_all, cases r, simp_all)

lemma maybe_flush_inv: "service_inv s \<Longrightarrow> service_inv (maybe_flush s)"
  by (simp add: service_inv_def maybe_flush_def armed_steps)

lemma service_step_inv:
  assumes "service_inv s" and "service_event_ok ev"
  shows "service_inv (service_step ev s) \<and>
    world_view (fs_world (service_step ev s)) job = world_view (fs_world s) job + service_updates job [ev]"
proof (cases ev)
  case (SetState oper)
  have "event_ok (Update oper)" using assms(2) by (simp add: SetState)
  note * = sync_step_view [OF _ this]
  have "service_inv (s\<lparr>fs_world := sync_step (Update oper) (fs_world s)\<rparr>)"
    using assms(1) * busy_step(1) by (simp add: service_inv_def del: sync_step.simps)
  from maybe_flush_inv [OF this] show ?thesis
    using assms(1) * [of "fs_world s" job]
    by (auto simp: SetState service_updates_def updates_of_def service_inv_def maybe_flush_def simp del: sync_step.simps)
next
  case ThrottleWakes
  have w: "armed (fs_throttle s)"
    using assms(1) by (simp add: service_inv_def)
  show ?thesis
    using assms(1) sync_step_view [of "fs_world s" FlushBegin job] is_flushing_wake [OF w] armed_steps(3) [OF w]
    by (auto simp: ThrottleWakes service_wakes_def service_inv_def service_updates_def updates_of_def Let_def
        simp del: sync_step.simps)
next
  case (FlushEnds r)
  have r: "event_ok (reply_event r)" "updates_of job [reply_event r] = 0"
    by (cases r; simp add: updates_of_def)+
  have w: "armed (fs_throttle s)"
    using assms(1) by (simp add: service_inv_def)
  show ?thesis
    using assms(1) sync_step_view [OF _ r(1), of "fs_world s" job] r(2) armed_steps(4) [OF w]
    by (auto simp: FlushEnds flush_ends_def service_inv_def service_updates_def simp del: sync_step.simps)
next
  case CloseService
  have i: "service_inv (maybe_flush s)" by (rule maybe_flush_inv [OF assms(1)])
  then show ?thesis
    by (simp add: CloseService close_service_def Let_def service_inv_def service_updates_def maybe_flush_def armed_steps)
qed

lemma service_run_inv:
  assumes "service_inv s" and "list_all service_event_ok evs"
  shows "service_inv (service_run evs s) \<and>
    world_view (fs_world (service_run evs s)) job = world_view (fs_world s) job + service_updates job evs"
  using assms
proof (induction evs arbitrary: s)
  case Nil
  then show ?case by (simp add: service_run_def service_updates_def)
next
  case (Cons ev evs)
  have ok: "service_event_ok ev" "list_all service_event_ok evs" using Cons.prems(2) by auto
  note step = service_step_inv [OF Cons.prems(1) ok(1), of job]
  show ?case
    using Cons.IH [OF conjunct1 [OF step] ok(2)] step
    by (simp add: service_run_def service_updates_def add.assoc)
qed

lemma service_inv_new: "service_inv (new_service auto)"
  using world_inv_new by (simp add: service_inv_def new_service_def new_throttle_def is_flushing_def new_world_def armed_def)

lemma auto_flush_kept [simp]: "fs_auto_flush (service_step ev s) = fs_auto_flush s"
  by (cases ev)
    (simp_all add: maybe_flush_def service_wakes_def flush_ends_def close_service_def Let_def)

lemma auto_flush_run [simp]: "fs_auto_flush (service_run evs s) = fs_auto_flush s"
  unfolding service_run_def by (induction evs arbitrary: s) simp_all

lemma close_starts_flush:
  assumes "\<not> is_flushing (fs_throttle s)" and "fs_auto_flush s"
  shows "fs_world (service_run [CloseService, ThrottleWakes, FlushEnds Applied] s)
    = sync_step FlushOk (sync_step FlushBegin (fs_world s))"
proof -
  let ?c = "close_service s"
  have t: "th_task (fs_throttle ?c) = Some Waiting" "th_params (fs_throttle ?c) = Some ()"
    and w: "fs_world ?c = fs_world s"
    using assms
    by (auto simp: close_service_def maybe_flush_def call_nowait_def throttle_flush_def is_flushing_def Let_def
        split: option.splits throttle_phase.splits)
  have f: "is_flushing (throttle_wake (fs_throttle ?c))" "\<not> is_flushing (fs_throttle ?c)"
    using t by (simp_all add: throttle_wake_def is_flushing_def)
  then have "service_wakes ?c = ?c\<lparr>fs_throttle := throttle_wake (fs_throttle ?c),
      fs_world := sync_step FlushBegin (fs_world s)\<rparr>"
    by (simp add: service_wakes_def Let_def w)
  with f(1) show ?thesis
    by (simp add: service_run_def flush_ends_def del: sync_step.simps)
qed


definition demo_service :: "service_event list" where
  "demo_service = [SetState (SetJobCursor ''j'' ''a''), ThrottleWakes, FlushEnds Refused,
     SetState (SetJobCompleted ''j'' 5)]"

lemmas service_simps = service_run_def new_service_def new_world_def new_store_def new_throttle_def maybe_flush_def
  call_nowait_def throttle_wake_def throttle_finish_def throttle_flush_def end_call_def settle_def service_wakes_def
  flush_ends_def close_service_def is_flushing_def store_set_def on_job_def flush_begin_def flush_failed_def
  empty_job_state_def Let_def


text \<open>
  A flush that is running when the service closes is the one the service waits for: an update made
  since its request was built is still in the store when the wait is over, and nothing sends it.
\<close>

lemma close_while_flushing_misses:
  "let s = service_run [SetState (SetJobCursor ''j'' ''a''), ThrottleWakes, SetState (SetJobCursor ''j'' ''b''),
       CloseService, FlushEnds Applied] (new_service True)
   in view (sw_manager (fs_world s)) ''j'' = JobView (Some ''a'') Map.empty None \<and>
      view (st_current (sw_store (fs_world s))) ''j'' = JobView (Some ''b'') Map.empty None \<and>
      \<not> is_flushing (fs_throttle s)"
  by (simp add: service_simps received_def sent_states_def merge_jobs_def merge_job_def dset_def view_def state_view_def
      truthy_text_def)

text \<open>A refused flush puts its states back, and nothing is scheduled to try again before the next update.\<close>

lemma refused_flush_is_not_retried:
  "let s = service_run [SetState (SetJobCursor ''j'' ''a''), ThrottleWakes, FlushEnds Refused] (new_service True)
   in th_task (fs_throttle s) = None \<and> view (st_current (sw_store (fs_world s))) ''j'' = JobView (Some ''a'') Map.empty None"
  by (simp add: service_simps merge_jobs_def merge_job_def dset_def view_def state_view_def truthy_text_def)

end
