(* ===== verification/Task_Scheduler.thy ===== *)
theory Task_Scheduler
  imports Prelude "HOL-Library.Multiset"
begin

text \<open>
  The scheduler of an executor, \<open>worker/executors/scheduler.py\<close>: it polls the queues round-robin, with
  one \<open>__anext__\<close> task per queue, and yields their messages.

  Items and tasks are numbers; a task's result, once there, is in \<open>sc_results\<close>. \<open>run\<close> is the operations
  \<open>sched_wait\<close> (the tasks that are done, in the order in which they will be processed),
  \<open>process_task\<close> (up to its \<open>yield\<close>) and \<open>resume_task\<close> (after it); \<open>abort_task\<close> is the exception that
  reaches the generator while it is suspended there. Between them other operations may come. The
  order in which \<open>asyncio.wait\<close> returns the tasks is an argument (\<open>arrange\<close>).
\<close>

section \<open>State\<close>

datatype 'v task_result =
    Value 'v
  | TaskCancelled
  | RaisedCancelled
  | StopIteration
  | RaisedError exn
  | RaisedFatal

record slot =
  sl_task :: nat
  sl_order :: nat
  sl_running :: bool

record 'v scheduler =
  sc_slots :: "(nat, slot) pydict"
  sc_tasks :: "(nat, nat) pydict"
  sc_group :: "nat list"
  sc_running :: "bool option"
  sc_results :: "(nat, 'v task_result) pydict"
  sc_cancelling :: "nat set"
  sc_next :: nat
  sc_batch :: "nat list"
  sc_held :: "(nat \<times> nat) option"
  sc_out :: "(nat \<times> 'v) list"
  sc_closed :: "nat list"

definition new_scheduler :: "'v scheduler" where
  "new_scheduler = \<lparr>sc_slots = [], sc_tasks = [], sc_group = [], sc_running = None, sc_results = [],
     sc_cancelling = {}, sc_next = 0, sc_batch = [], sc_held = None, sc_out = [], sc_closed = []\<rparr>"

definition task_done :: "nat \<Rightarrow> 'v scheduler \<Rightarrow> bool" where
  "task_done t s \<longleftrightarrow> dhas t (sc_results s)"

section \<open>Operations\<close>

text \<open>A new \<open>__anext__\<close> task of an item.\<close>

definition create_task :: "nat \<Rightarrow> 'v scheduler \<Rightarrow> nat \<times> 'v scheduler" where
  "create_task item s =
     (sc_next s, s\<lparr>sc_tasks := dset (sc_next s) item (sc_tasks s), sc_group := sc_group s @ [sc_next s],
        sc_next := Suc (sc_next s)\<rparr>)"

definition sched_add :: "nat \<Rightarrow> 'v scheduler \<Rightarrow> 'v scheduler" where
  "sched_add item s =
     (let (t, s1) = create_task item s
      in s1\<lparr>sc_slots := dset item \<lparr>sl_task = t, sl_order = 0, sl_running = True\<rparr> (sc_slots s1)\<rparr>)"

definition stop_slot :: "nat \<Rightarrow> slot \<Rightarrow> 'v scheduler \<Rightarrow> 'v scheduler" where
  "stop_slot item sl s =
     (let s1 = s\<lparr>sc_slots := dset item (sl\<lparr>sl_running := False\<rparr>) (sc_slots s)\<rparr>
      in if task_done (sl_task sl) s then s1
         else s1\<lparr>sc_cancelling := insert (sl_task sl) (sc_cancelling s1)\<rparr>)"

definition sched_remove :: "nat \<Rightarrow> 'v scheduler \<Rightarrow> 'v scheduler" where
  "sched_remove item s =
     (case dget (sc_slots s) item of None \<Rightarrow> s | Some sl \<Rightarrow> stop_slot item sl s)"

definition sched_close :: "'v scheduler \<Rightarrow> 'v scheduler" where
  "sched_close s =
     (let s1 = s\<lparr>sc_group := [], sc_running := Some False,
          sc_results := fold (\<lambda>t. dsetdefault t TaskCancelled) (sc_group s) (sc_results s)\<rparr>
      in fold (\<lambda>(item, sl). stop_slot item sl) (sc_slots s1) s1)"

definition task_order :: "'v scheduler \<Rightarrow> nat \<Rightarrow> int" where
  "task_order s t =
     (case dget (sc_tasks s) t of
        None \<Rightarrow> - 1
      | Some item \<Rightarrow> (case dget (sc_slots s) item of None \<Rightarrow> - 1 | Some sl \<Rightarrow> int (sl_order sl)))"

definition sched_wait :: "(nat list \<Rightarrow> nat list) \<Rightarrow> 'v scheduler \<Rightarrow> 'v scheduler" where
  "sched_wait arrange s =
     (let finished = filter (\<lambda>t. task_done t s) (sc_group s)
      in s\<lparr>sc_group := filter (\<lambda>t. \<not> task_done t s) (sc_group s),
           sc_batch := sort_key (task_order s) (arrange finished)\<rparr>)"

definition stop_slot_generator :: "nat \<Rightarrow> 'v scheduler \<Rightarrow> 'v scheduler" where
  "stop_slot_generator item s = s\<lparr>sc_closed := sc_closed s @ [item]\<rparr>"

definition requeue_task :: "nat \<Rightarrow> slot \<Rightarrow> 'v scheduler \<Rightarrow> 'v scheduler" where
  "requeue_task item sl s =
     (let (t, s1) = create_task item s
      in s1\<lparr>sc_slots := dset item (sl\<lparr>sl_task := t, sl_order := Suc (sl_order sl)\<rparr>) (sc_slots s1)\<rparr>)"

text \<open>The \<open>else\<close> of \<open>process_task\<close>.\<close>

definition next_or_stop :: "nat \<Rightarrow> 'v scheduler \<Rightarrow> 'v scheduler" where
  "next_or_stop item s =
     (case dget (sc_slots s) item of
        None \<Rightarrow> s
      | Some sl \<Rightarrow>
          if \<not> sl_running sl
          then stop_slot_generator item (s\<lparr>sc_slots := dpop item (sc_slots s)\<rparr>)
          else requeue_task item sl s)"

text \<open>The \<open>except BaseException\<close> of \<open>process_task\<close>: the task is put back, and the loop is left.\<close>

definition put_back :: "nat \<Rightarrow> nat \<Rightarrow> 'v scheduler \<Rightarrow> 'v scheduler" where
  "put_back t item s =
     s\<lparr>sc_tasks := dset t item (sc_tasks s), sc_group := sc_group s @ [t], sc_batch := [], sc_held := None\<rparr>"

definition process_item :: "nat \<Rightarrow> nat \<Rightarrow> 'v task_result \<Rightarrow> 'v scheduler \<Rightarrow> 'v scheduler" where
  "process_item t item r s =
     (if r = TaskCancelled \<or> \<not> dhas item (sc_slots s) then s
      else case r of
        Value v \<Rightarrow> s\<lparr>sc_held := Some (t, item), sc_out := sc_out s @ [(item, v)]\<rparr>
      | RaisedFatal \<Rightarrow> put_back t item s
      | StopIteration \<Rightarrow> next_or_stop item (sched_remove item s)
      | RaisedError e \<Rightarrow> next_or_stop item (sched_remove item s)
      | _ \<Rightarrow> next_or_stop item s)"

definition process_task :: "'v scheduler \<Rightarrow> 'v scheduler" where
  "process_task s =
     (case sc_batch s of
        [] \<Rightarrow> s
      | t # batch \<Rightarrow>
          (case (dget (sc_tasks s) t, dget (sc_results s) t) of
             (Some item, Some r) \<Rightarrow>
               process_item t item r (s\<lparr>sc_batch := batch, sc_tasks := dpop t (sc_tasks s)\<rparr>)
           | _ \<Rightarrow> s))"

definition resume_task :: "'v scheduler \<Rightarrow> 'v scheduler" where
  "resume_task s =
     (case sc_held s of None \<Rightarrow> s | Some (t, item) \<Rightarrow> next_or_stop item (s\<lparr>sc_held := None\<rparr>))"

definition abort_task :: "'v scheduler \<Rightarrow> 'v scheduler" where
  "abort_task s = (case sc_held s of None \<Rightarrow> s | Some (t, item) \<Rightarrow> put_back t item s)"

text \<open>A task ends; it ends cancelled only when that was asked for.\<close>

definition task_ends :: "nat \<Rightarrow> 'v task_result \<Rightarrow> 'v scheduler \<Rightarrow> 'v scheduler" where
  "task_ends t r s = s\<lparr>sc_results := dset t r (sc_results s)\<rparr>"

section \<open>Runs\<close>

inductive sched_step :: "(nat list \<Rightarrow> nat list) \<Rightarrow> 'v scheduler \<Rightarrow> 'v scheduler \<Rightarrow> bool"
  for arrange :: "nat list \<Rightarrow> nat list" where
  add: "\<not> dhas item (sc_slots s) \<Longrightarrow> item \<notin> snd ` set (sc_tasks s) \<Longrightarrow> \<forall>t. sc_held s \<noteq> Some (t, item) \<Longrightarrow>
    sched_step arrange s (sched_add item s)"
| remove: "sched_step arrange s (sched_remove item s)"
| ends: "dhas t (sc_tasks s) \<Longrightarrow> \<not> task_done t s \<Longrightarrow> (r = TaskCancelled \<longrightarrow> t \<in> sc_cancelling s) \<Longrightarrow> r \<noteq> RaisedFatal \<Longrightarrow>
    sched_step arrange s (task_ends t r s)"
| wait: "sc_batch s = [] \<Longrightarrow> sc_held s = None \<Longrightarrow> sched_step arrange s (sched_wait arrange s)"
| process: "sc_held s = None \<Longrightarrow> sched_step arrange s (process_task s)"
| resume: "sched_step arrange s (resume_task s)"

text \<open>The order in which tasks are returned is a permutation of them.\<close>

definition permutes :: "(nat list \<Rightarrow> nat list) \<Rightarrow> bool" where
  "permutes arrange \<longleftrightarrow> (\<forall>xs. mset (arrange xs) = mset xs)"

text \<open>
  Every slot that runs has a task: one that is waited for or is about to be processed, or the one
  whose value is being yielded. An item never has two tasks, so its generator is never asked for
  a second value while it produces the first.
\<close>

definition slot_served :: "'v scheduler \<Rightarrow> nat \<Rightarrow> slot \<Rightarrow> bool" where
  "slot_served s item sl \<longleftrightarrow>
     sc_held s = Some (sl_task sl, item) \<or>
     (dget (sc_tasks s) (sl_task sl) = Some item \<and> sl_task sl \<in> set (sc_group s) \<union> set (sc_batch s))"

definition served_ok :: "'v scheduler \<Rightarrow> bool" where
  "served_ok s \<longleftrightarrow> (\<forall>item sl. dget (sc_slots s) item = Some sl \<longrightarrow> sl_running sl \<longrightarrow>
     slot_served s item sl \<and> sl_task sl \<notin> sc_cancelling s)"

definition slots_ok :: "'v scheduler \<Rightarrow> bool" where
  "slots_ok s \<longleftrightarrow> (\<forall>i j a b. dget (sc_slots s) i = Some a \<longrightarrow> dget (sc_slots s) j = Some b \<longrightarrow>
     sl_task a = sl_task b \<longrightarrow> i = j)"

definition tasks_ok :: "'v scheduler \<Rightarrow> bool" where
  "tasks_ok s \<longleftrightarrow>
     (\<forall>t t' item. dget (sc_tasks s) t = Some item \<longrightarrow> dget (sc_tasks s) t' = Some item \<longrightarrow> t = t')"

definition queued_ok :: "'v scheduler \<Rightarrow> bool" where
  "queued_ok s \<longleftrightarrow> (\<forall>t \<in> set (sc_group s) \<union> set (sc_batch s). dget (sc_tasks s) t \<noteq> None) \<and>
     distinct (sc_group s @ sc_batch s) \<and> (\<forall>t \<in> set (sc_batch s). task_done t s)"

definition held_ok :: "'v scheduler \<Rightarrow> bool" where
  "held_ok s \<longleftrightarrow> (\<forall>t item. sc_held s = Some (t, item) \<longrightarrow>
     dget (sc_tasks s) t = None \<and> (\<forall>t'. dget (sc_tasks s) t' \<noteq> Some item))"

definition fresh_ok :: "'v scheduler \<Rightarrow> bool" where
  "fresh_ok s \<longleftrightarrow>
     (\<forall>t. dget (sc_tasks s) t \<noteq> None \<longrightarrow> t < sc_next s) \<and> (\<forall>t. task_done t s \<longrightarrow> t < sc_next s) \<and>
     (\<forall>t \<in> sc_cancelling s. t < sc_next s) \<and>
     (\<forall>item sl. dget (sc_slots s) item = Some sl \<longrightarrow> sl_task sl < sc_next s) \<and>
     (\<forall>t item. sc_held s = Some (t, item) \<longrightarrow> t < sc_next s)"

definition results_ok :: "'v scheduler \<Rightarrow> bool" where
  "results_ok s \<longleftrightarrow> (\<forall>t r. dget (sc_results s) t = Some r \<longrightarrow>
     (r = TaskCancelled \<longrightarrow> t \<in> sc_cancelling s) \<and> r \<noteq> RaisedFatal)"

definition sched_inv :: "'v scheduler \<Rightarrow> bool" where
  "sched_inv s \<longleftrightarrow> served_ok s \<and> slots_ok s \<and> tasks_ok s \<and> queued_ok s \<and> held_ok s \<and> fresh_ok s \<and> results_ok s"

text \<open>The same with one item left out: its task has just been taken.\<close>

definition sched_inv_but :: "nat \<Rightarrow> 'v scheduler \<Rightarrow> bool" where
  "sched_inv_but item s \<longleftrightarrow>
     (\<forall>i sl. i \<noteq> item \<longrightarrow> dget (sc_slots s) i = Some sl \<longrightarrow> sl_running sl \<longrightarrow>
        slot_served s i sl \<and> sl_task sl \<notin> sc_cancelling s) \<and>
     slots_ok s \<and> tasks_ok s \<and> queued_ok s \<and> held_ok s \<and> fresh_ok s \<and> results_ok s \<and>
     (\<forall>t. dget (sc_tasks s) t \<noteq> Some item) \<and> (\<forall>t. sc_held s \<noteq> Some (t, item))"

lemmas sched_inv_defs = served_ok_def slots_ok_def tasks_ok_def queued_ok_def held_ok_def fresh_ok_def results_ok_def slot_served_def

lemma sched_inv_new: "sched_inv new_scheduler"
  by (simp add: sched_inv_def sched_inv_defs new_scheduler_def task_done_def)

lemma task_done_simps [simp]:
  "task_done t (s\<lparr>sc_slots := a\<rparr>) = task_done t s" "task_done t (s\<lparr>sc_tasks := b\<rparr>) = task_done t s"
  "task_done t (s\<lparr>sc_cancelling := c\<rparr>) = task_done t s" "task_done t (s\<lparr>sc_group := d\<rparr>) = task_done t s"
  "task_done t (s\<lparr>sc_batch := d\<rparr>) = task_done t s" "task_done t (s\<lparr>sc_held := h\<rparr>) = task_done t s"
  "task_done t (s\<lparr>sc_out := ov\<rparr>) = task_done t s" "task_done t (s\<lparr>sc_next := n\<rparr>) = task_done t s"
  "task_done t (s\<lparr>sc_closed := d\<rparr>) = task_done t s"
  by (simp_all add: task_done_def)

lemma sched_inv_create:
  assumes "sched_inv_but item s" and "create_task item s = (t, s1)"
  shows "sched_inv (s1\<lparr>sc_slots := dset item \<lparr>sl_task = t, sl_order = n, sl_running = True\<rparr> (sc_slots s1)\<rparr>)"
proof -
  let ?s = "s1\<lparr>sc_slots := dset item \<lparr>sl_task = t, sl_order = n, sl_running = True\<rparr> (sc_slots s1)\<rparr>"
  have t: "t = sc_next s" and s1: "s1 = s\<lparr>sc_tasks := dset (sc_next s) item (sc_tasks s),
      sc_group := sc_group s @ [sc_next s], sc_next := Suc (sc_next s)\<rparr>"
    using assms(2) by (auto simp: create_task_def)
  have i: "\<forall>i sl. i \<noteq> item \<longrightarrow> dget (sc_slots s) i = Some sl \<longrightarrow> sl_running sl \<longrightarrow>
        slot_served s i sl \<and> sl_task sl \<notin> sc_cancelling s"
    "slots_ok s" "tasks_ok s" "queued_ok s" "held_ok s" "fresh_ok s" "results_ok s"
    and none: "dget (sc_tasks s) t' \<noteq> Some item" "sc_held s \<noteq> Some (t', item)" for t'
    using assms(1) by (simp_all add: sched_inv_but_def)
  have new: "dget (sc_tasks s) (sc_next s) = None" "sc_next s \<notin> sc_cancelling s"
    "sc_next s \<notin> set (sc_group s)" "sc_next s \<notin> set (sc_batch s)"
    using i(4,6) by (auto simp: queued_ok_def fresh_ok_def)
  have "served_ok ?s" using i(1) new by (auto simp: served_ok_def slot_served_def t s1)
  moreover have "sl_task a \<noteq> sc_next s" if "dget (sc_slots s) j = Some a" for j a
    using i(6) that unfolding fresh_ok_def by (metis less_irrefl)
  then have "slots_ok ?s" using i(2) by (auto simp: slots_ok_def t s1) blast+
  moreover have "tasks_ok ?s" using i(3) none new by (auto simp: tasks_ok_def t s1)
  moreover have "queued_ok ?s" using i(4) new by (auto simp: queued_ok_def t s1)
  moreover have "held_ok ?s"
    unfolding held_ok_def
  proof (intro allI impI)
    fix t' j assume "sc_held ?s = Some (t', j)"
    then have h: "sc_held s = Some (t', j)" by (simp add: s1)
    then have "j \<noteq> item" "t' \<noteq> sc_next s" using none(2) i(6) by (auto simp: fresh_ok_def)
    then show "dget (sc_tasks ?s) t' = None \<and> (\<forall>t''. dget (sc_tasks ?s) t'' \<noteq> Some j)"
      using i(5) h by (auto simp: held_ok_def s1)
  qed
  moreover have "fresh_ok ?s" using i(6) by (auto simp: fresh_ok_def t s1 less_Suc_eq)
  moreover have "results_ok ?s" using i(7) by (simp add: results_ok_def s1)
  ultimately show ?thesis by (simp add: sched_inv_def)
qed


lemma sched_inv_add:
  assumes "sched_inv s" and "\<not> dhas item (sc_slots s)" and "item \<notin> snd ` set (sc_tasks s)"
    and "\<forall>t. sc_held s \<noteq> Some (t, item)"
  shows "sched_inv (sched_add item s)"
proof -
  have n: "dget (sc_tasks s) t \<noteq> Some item" for t
    using assms(3) by (force dest: map_of_SomeD)
  then have "sched_inv_but item s"
    using assms(1,4) by (simp add: sched_inv_but_def sched_inv_def served_ok_def)
  then show ?thesis
    using sched_inv_create [of item s "fst (create_task item s)" "snd (create_task item s)" 0]
    by (simp add: sched_add_def split_def Let_def)
qed

lemma sched_inv_stop_slot:
  assumes "sched_inv s" and "dget (sc_slots s) item = Some sl"
  shows "sched_inv (stop_slot item sl s)"
proof -
  have i: "served_ok s" "slots_ok s" "tasks_ok s" "queued_ok s" "held_ok s" "fresh_ok s" "results_ok s"
    using assms(1) by (simp_all add: sched_inv_def)
  have other: "sl_task a \<noteq> sl_task sl" if "dget (sc_slots s) j = Some a" "j \<noteq> item" for a j
    using i(2) assms(2) that by (auto simp: slots_ok_def)
  have sv: "served_ok (stop_slot item sl s)"
    using i(1) other by (auto simp: served_ok_def slot_served_def stop_slot_def Let_def)
  have old: "\<exists>a0. dget (sc_slots s) j = Some a0 \<and> sl_task a0 = sl_task a"
    if "dget (sc_slots (stop_slot item sl s)) j = Some a" for j a
    using that assms(2) by (auto simp: stop_slot_def Let_def split: if_splits)
  have so: "slots_ok (stop_slot item sl s)"
    using i(2) old unfolding slots_ok_def by metis
  have "tasks_ok (stop_slot item sl s) = tasks_ok s" "queued_ok (stop_slot item sl s) = queued_ok s"
    "held_ok (stop_slot item sl s) = held_ok s"
    by (simp_all add: tasks_ok_def queued_ok_def held_ok_def stop_slot_def Let_def)
  moreover have "fresh_ok (stop_slot item sl s)"
    using i(6) assms(2) by (auto simp: fresh_ok_def stop_slot_def Let_def)
  moreover have "results_ok (stop_slot item sl s)"
    using i(7) by (auto simp: results_ok_def stop_slot_def Let_def)
  ultimately show ?thesis using sv so i(3,4,5) by (simp add: sched_inv_def)
qed

lemma sched_inv_remove: "sched_inv s \<Longrightarrow> sched_inv (sched_remove item s)"
  by (simp add: sched_remove_def sched_inv_stop_slot split: option.split)

lemma sched_inv_ends:
  assumes "sched_inv s" and "dhas t (sc_tasks s)" and "r = TaskCancelled \<longrightarrow> t \<in> sc_cancelling s" and "r \<noteq> RaisedFatal"
  shows "sched_inv (task_ends t r s)"
proof -
  have d: "task_done t' (task_ends t r s) \<longleftrightarrow> t' = t \<or> task_done t' s" for t'
    by (auto simp: task_ends_def task_done_def dhas_iff_dget)
  have "dget (sc_tasks s) t \<noteq> None" using assms(2) by (simp add: dhas_iff_dget)
  then have "queued_ok (task_ends t r s)" "fresh_ok (task_ends t r s)"
    using assms(1) by (auto simp: sched_inv_def queued_ok_def fresh_ok_def d) (auto simp: task_ends_def)
  moreover have "served_ok (task_ends t r s) = served_ok s" "slots_ok (task_ends t r s) = slots_ok s"
    "tasks_ok (task_ends t r s) = tasks_ok s" "held_ok (task_ends t r s) = held_ok s"
    by (simp_all add: task_ends_def served_ok_def slots_ok_def tasks_ok_def held_ok_def slot_served_def)
  moreover have "results_ok (task_ends t r s)"
    using assms by (auto simp: sched_inv_def results_ok_def task_ends_def)
  ultimately show ?thesis using assms(1) by (simp add: sched_inv_def)
qed

lemma sched_inv_wait:
  assumes "sched_inv s" and "sc_batch s = []" and "mset (arrange (filter (\<lambda>t. task_done t s) (sc_group s)))
      = mset (filter (\<lambda>t. task_done t s) (sc_group s))"
  shows "sched_inv (sched_wait arrange s)"
proof -
  let ?w = "sched_wait arrange s"
  have m: "mset (sc_batch ?w) = mset (filter (\<lambda>t. task_done t s) (sc_group s))"
    using assms(3) by (simp add: sched_wait_def Let_def)
  have b: "set (sc_batch ?w) = {t \<in> set (sc_group s). task_done t s}"
    using mset_eq_setD [OF m] by auto
  have g: "set (sc_group ?w) = {t \<in> set (sc_group s). \<not> task_done t s}"
    by (auto simp: sched_wait_def Let_def)
  have "distinct (sc_group s)" using assms(1) by (simp add: sched_inv_def queued_ok_def)
  then have "distinct (sc_batch ?w)" "distinct (sc_group ?w)"
    using mset_eq_imp_distinct_iff [OF m] by (simp_all add: sched_wait_def Let_def)
  then have "queued_ok ?w"
    using assms(1) b g by (auto simp: queued_ok_def sched_inv_def sched_wait_def Let_def)
  moreover have "served_ok ?w"
    using assms(1,2) b g by (auto simp: served_ok_def slot_served_def sched_inv_def sched_wait_def Let_def)
  moreover have "slots_ok ?w = slots_ok s" "tasks_ok ?w = tasks_ok s" "held_ok ?w = held_ok s" "fresh_ok ?w = fresh_ok s"
    "results_ok ?w = results_ok s"
    by (simp_all add: results_ok_def slots_ok_def tasks_ok_def held_ok_def fresh_ok_def sched_wait_def Let_def)
  ultimately show ?thesis using assms(1) by (simp add: sched_inv_def)
qed


lemma sched_inv_but_served:
  assumes "sched_inv_but item s"
    and "\<And>sl. dget (sc_slots s) item = Some sl \<Longrightarrow> sl_running sl \<Longrightarrow>
      slot_served s item sl \<and> sl_task sl \<notin> sc_cancelling s"
  shows "sched_inv s"
proof -
  have "served_ok s"
    unfolding served_ok_def
  proof (intro allI impI)
    fix i sl assume h: "dget (sc_slots s) i = Some sl" "sl_running sl"
    show "slot_served s i sl \<and> sl_task sl \<notin> sc_cancelling s"
      using assms h by (cases "i = item") (auto simp: sched_inv_but_def)
  qed
  with assms(1) show ?thesis by (simp add: sched_inv_but_def sched_inv_def)
qed

lemma next_or_stop_inv:
  assumes "sched_inv_but item s"
  shows "sched_inv (next_or_stop item s)"
proof (cases "dget (sc_slots s) item")
  case None
  then have "sched_inv s" using sched_inv_but_served [OF assms] by simp
  with None show ?thesis by (simp add: next_or_stop_def)
next
  case (Some sl)
  show ?thesis
  proof (cases "sl_running sl")
    case True
    then obtain tk n where sl: "sl = \<lparr>sl_task = tk, sl_order = n, sl_running = True\<rparr>"
      by (cases sl) auto
    show ?thesis
      using sched_inv_create [OF assms, of "fst (create_task item s)" "snd (create_task item s)" "Suc n"]
      by (simp add: next_or_stop_def Some sl requeue_task_def split_def Let_def)
  next
    case False
    let ?s = "stop_slot_generator item (s\<lparr>sc_slots := dpop item (sc_slots s)\<rparr>)"
    have s: "next_or_stop item s = ?s" by (simp add: next_or_stop_def Some False)
    have "served_ok ?s"
      using assms by (auto simp: sched_inv_but_def served_ok_def slot_served_def stop_slot_generator_def)
    moreover have "slots_ok ?s" using assms
      by (auto simp: sched_inv_but_def slots_ok_def stop_slot_generator_def)
    moreover have "tasks_ok ?s = tasks_ok s" "queued_ok ?s = queued_ok s" "held_ok ?s = held_ok s"
      "results_ok ?s = results_ok s"
      by (simp_all add: results_ok_def tasks_ok_def queued_ok_def held_ok_def stop_slot_generator_def)
    moreover have "fresh_ok ?s"
      using assms by (auto simp: sched_inv_but_def fresh_ok_def stop_slot_generator_def)
    ultimately show ?thesis using assms by (simp add: s sched_inv_but_def sched_inv_def)
  qed
qed

lemma sched_inv_resume:
  assumes "sched_inv s" shows "sched_inv (resume_task s)"
proof (cases "sc_held s")
  case (Some h)
  obtain t item where h: "h = (t, item)" by (cases h)
  let ?s = "s\<lparr>sc_held := None\<rparr>"
  have "held_ok s" using assms by (simp add: sched_inv_def)
  then have "\<forall>t'. dget (sc_tasks s) t' \<noteq> Some item" by (simp add: held_ok_def Some h)
  moreover have "\<forall>i sl. i \<noteq> item \<longrightarrow> dget (sc_slots ?s) i = Some sl \<longrightarrow> sl_running sl \<longrightarrow>
      slot_served ?s i sl \<and> sl_task sl \<notin> sc_cancelling ?s"
    using assms by (auto simp: sched_inv_def served_ok_def slot_served_def Some h)
  moreover have "slots_ok ?s = slots_ok s" "tasks_ok ?s = tasks_ok s" "queued_ok ?s = queued_ok s"
    "results_ok ?s = results_ok s"
    by (simp_all add: results_ok_def slots_ok_def tasks_ok_def queued_ok_def)
  moreover have "held_ok ?s" "fresh_ok ?s"
    using assms by (auto simp: sched_inv_def held_ok_def fresh_ok_def)
  ultimately have "sched_inv_but item ?s"
    using assms by (simp add: sched_inv_but_def sched_inv_def)
  from next_or_stop_inv [OF this] show ?thesis by (simp add: resume_task_def Some h)
qed (use assms in \<open>simp add: resume_task_def\<close>)


lemma sched_inv_but_remove:
  assumes "sched_inv_but item s" shows "sched_inv_but item (sched_remove item s)"
proof (cases "dget (sc_slots s) item")
  case None
  with assms show ?thesis by (simp add: sched_remove_def)
next
  case (Some sl)
  let ?s = "stop_slot item sl s"
  have i: "slots_ok s" "fresh_ok s" using assms by (simp_all add: sched_inv_but_def)
  have other: "sl_task a \<noteq> sl_task sl" if "dget (sc_slots s) j = Some a" "j \<noteq> item" for a j
    using i(1) Some that by (auto simp: slots_ok_def)
  have served: "\<forall>i a. i \<noteq> item \<longrightarrow> dget (sc_slots ?s) i = Some a \<longrightarrow> sl_running a \<longrightarrow>
      slot_served ?s i a \<and> sl_task a \<notin> sc_cancelling ?s"
    using assms other by (auto simp: sched_inv_but_def slot_served_def stop_slot_def Let_def)
  have old: "\<exists>a0. dget (sc_slots s) j = Some a0 \<and> sl_task a0 = sl_task a"
    if "dget (sc_slots ?s) j = Some a" for j a
    using that Some by (auto simp: stop_slot_def Let_def split: if_splits)
  have "slots_ok ?s" using i(1) old unfolding slots_ok_def by metis
  moreover have "tasks_ok ?s = tasks_ok s" "queued_ok ?s = queued_ok s" "held_ok ?s = held_ok s"
    "sc_tasks ?s = sc_tasks s" "sc_held ?s = sc_held s"
    by (simp_all add: tasks_ok_def queued_ok_def held_ok_def stop_slot_def Let_def)
  moreover have "fresh_ok ?s" using i(2) Some by (auto simp: fresh_ok_def stop_slot_def Let_def)
  moreover have "results_ok ?s" using assms by (auto simp: sched_inv_but_def results_ok_def stop_slot_def Let_def)
  ultimately show ?thesis using assms served by (simp add: sched_inv_but_def sched_remove_def Some)
qed

text \<open>Taking a task out of the batch.\<close>

lemma sched_inv_take:
  assumes "sched_inv s" and "sc_held s = None" and "sc_batch s = t # batch" and "dget (sc_tasks s) t = Some item"
  shows "sched_inv_but item (s\<lparr>sc_batch := batch, sc_tasks := dpop t (sc_tasks s)\<rparr>)"
    and "\<And>sl. dget (sc_slots s) item = Some sl \<Longrightarrow> sl_running sl \<Longrightarrow> sl_task sl = t \<and> t \<notin> sc_cancelling s"
proof -
  have i: "served_ok s" "slots_ok s" "tasks_ok s" "queued_ok s" "held_ok s" "fresh_ok s" "results_ok s"
    using assms(1) by (simp_all add: sched_inv_def)
  let ?s = "s\<lparr>sc_batch := batch, sc_tasks := dpop t (sc_tasks s)\<rparr>"
  have only: "t' = t" if "dget (sc_tasks s) t' = Some item" for t'
    using i(3) assms(4) that by (auto simp: tasks_ok_def)
  have served: "\<forall>i sl. i \<noteq> item \<longrightarrow> dget (sc_slots ?s) i = Some sl \<longrightarrow> sl_running sl \<longrightarrow>
      slot_served ?s i sl \<and> sl_task sl \<notin> sc_cancelling ?s"
    using i(1) assms by (auto simp: served_ok_def slot_served_def)
  have "slots_ok ?s = slots_ok s" "results_ok ?s = results_ok s"
    by (simp_all add: slots_ok_def results_ok_def)
  moreover have "tasks_ok ?s" using i(3) by (auto simp: tasks_ok_def)
  moreover have "queued_ok ?s" using i(4) by (auto simp: queued_ok_def assms(3))
  moreover have "held_ok ?s" using i(5) assms(2) by (simp add: held_ok_def)
  moreover have "fresh_ok ?s" using i(6) by (auto simp: fresh_ok_def)
  moreover have "dget (sc_tasks ?s) t' \<noteq> Some item" for t' using only by auto
  ultimately show "sched_inv_but item ?s" using i served assms(2) by (simp add: sched_inv_but_def)
  show "sl_task sl = t \<and> t \<notin> sc_cancelling s" if h: "dget (sc_slots s) item = Some sl" "sl_running sl" for sl
  proof -
    have "slot_served s item sl" "sl_task sl \<notin> sc_cancelling s" using i(1) h by (auto simp: served_ok_def)
    with only [of "sl_task sl"] assms(2) show ?thesis by (simp add: slot_served_def)
  qed
qed

lemma sched_inv_process:
  assumes "sched_inv s" and "sc_held s = None" shows "sched_inv (process_task s)"
proof (cases "sc_batch s")
  case (Cons t batch)
  have "t \<in> set (sc_batch s)" by (simp add: Cons)
  then obtain item r where tr: "dget (sc_tasks s) t = Some item" "dget (sc_results s) t = Some r"
    using assms(1) unfolding sched_inv_def queued_ok_def task_done_def dhas_iff_dget by (metis UnCI not_None_eq)
  let ?s = "s\<lparr>sc_batch := batch, sc_tasks := dpop t (sc_tasks s)\<rparr>"
  note take = sched_inv_take [OF assms Cons tr(1)]
  have p: "process_task s = process_item t item r ?s" by (simp add: process_task_def Cons tr)
  have r: "r = TaskCancelled \<Longrightarrow> t \<in> sc_cancelling s" "r \<noteq> RaisedFatal"
    using assms(1) tr(2) by (auto simp: sched_inv_def results_ok_def)
  have kept: "sched_inv ?s" if "\<And>sl. dget (sc_slots s) item = Some sl \<Longrightarrow> \<not> sl_running sl"
    using sched_inv_but_served [OF take(1)] that by fastforce
  show ?thesis
  proof (cases "r = TaskCancelled \<or> \<not> dhas item (sc_slots s)")
    case True
    then have "sched_inv ?s" using take(2) r(1) by (intro kept) (auto simp: dhas_iff_dget)
    with True show ?thesis by (simp add: p process_item_def)
  next
    case False
    then have e: "process_task s = (case r of
        Value v \<Rightarrow> ?s\<lparr>sc_held := Some (t, item), sc_out := sc_out ?s @ [(item, v)]\<rparr>
      | RaisedFatal \<Rightarrow> put_back t item ?s
      | StopIteration \<Rightarrow> next_or_stop item (sched_remove item ?s)
      | RaisedError e \<Rightarrow> next_or_stop item (sched_remove item ?s)
      | _ \<Rightarrow> next_or_stop item ?s)" by (simp add: p process_item_def)
    have stop: "sched_inv (next_or_stop item (sched_remove item ?s))" "sched_inv (next_or_stop item ?s)"
      by (rule next_or_stop_inv [OF sched_inv_but_remove [OF take(1)]]) (rule next_or_stop_inv [OF take(1)])
    show ?thesis
    proof (cases r)
      case (Value v)
      let ?v = "?s\<lparr>sc_held := Some (t, item), sc_out := sc_out ?s @ [(item, v)]\<rparr>"
      have "served_ok ?v"
        unfolding served_ok_def
      proof (intro allI impI)
        fix i sl assume h: "dget (sc_slots ?v) i = Some sl" "sl_running sl"
        show "slot_served ?v i sl \<and> sl_task sl \<notin> sc_cancelling ?v"
        proof (cases "i = item")
          case True
          with h take(2) [of sl] show ?thesis by (simp add: slot_served_def)
        next
          case False
          then have "slot_served ?s i sl \<and> sl_task sl \<notin> sc_cancelling ?s"
            using take(1) h by (simp add: sched_inv_but_def)
          with assms(2) show ?thesis by (simp add: slot_served_def)
        qed
      qed
      moreover have "held_ok ?v" using take(1) by (auto simp: sched_inv_but_def held_ok_def)
      moreover have "slots_ok ?v = slots_ok ?s" "tasks_ok ?v = tasks_ok ?s" "queued_ok ?v = queued_ok ?s"
        "results_ok ?v = results_ok ?s"
        by (simp_all add: slots_ok_def tasks_ok_def queued_ok_def results_ok_def)
      moreover have "fresh_ok ?v"
        using take(1) assms(1) tr(1) by (auto simp: sched_inv_but_def sched_inv_def fresh_ok_def)
      ultimately show ?thesis using take(1) by (simp add: e Value sched_inv_but_def sched_inv_def)
    qed (use stop r(2) in \<open>simp_all add: e\<close>)
  qed
qed (use assms in \<open>simp add: process_task_def\<close>)


lemma sched_step_inv:
  assumes "sched_step arrange s s'" and "permutes arrange" and "sched_inv s"
  shows "sched_inv s'"
  using assms
proof (induction rule: sched_step.induct)
  case (wait s)
  then show ?case by (intro sched_inv_wait) (simp_all add: permutes_def)
qed (simp_all add: sched_inv_add sched_inv_remove sched_inv_ends sched_inv_process sched_inv_resume)

lemma sched_reachable_inv:
  assumes "(sched_step arrange)\<^sup>*\<^sup>* new_scheduler s" and "permutes arrange"
  shows "sched_inv s"
  using assms(1) by (induction rule: rtranclp_induct) (simp_all add: sched_inv_new sched_step_inv [OF _ assms(2)])


definition demo_sched_run :: "string scheduler" where
  "demo_sched_run =
     process_task (sched_wait id (task_ends 1 (Value ''b'') (task_ends 0 (Value ''a'') (sched_add 8 (sched_add 7 new_scheduler)))))"

lemma demo_sched_reachable: "(sched_step id)\<^sup>*\<^sup>* new_scheduler demo_sched_run"
proof -
  let ?s1 = "sched_add 7 new_scheduler :: string scheduler" and ?s2 = "sched_add 8 (sched_add 7 new_scheduler) :: string scheduler"
  let ?s3 = "task_ends 0 (Value ''a'') ?s2" let ?s4 = "task_ends 1 (Value ''b'') ?s3"
  note d = sched_add_def create_task_def new_scheduler_def task_ends_def task_done_def dset_def sched_wait_def
  have "sched_step id new_scheduler ?s1" by (rule sched_step.add) (simp_all add: new_scheduler_def)
  moreover have "sched_step id ?s1 ?s2" by (rule sched_step.add) (simp_all add: d)
  moreover have "sched_step id ?s2 ?s3" by (rule sched_step.ends) (simp_all add: d)
  moreover have "sched_step id ?s3 ?s4" by (rule sched_step.ends) (simp_all add: d)
  moreover have "sched_step id ?s4 (sched_wait id ?s4)" by (rule sched_step.wait) (simp_all add: d)
  moreover have "sched_step id (sched_wait id ?s4) demo_sched_run"
    unfolding demo_sched_run_def by (rule sched_step.process) (simp add: d)
  ultimately show ?thesis by (meson rtranclp.rtrancl_into_rtrancl rtranclp.rtrancl_refl)
qed


section \<open>Rounds\<close>

text \<open>What the task will yield when it is processed, if its item is still there.\<close>

definition yield_of :: "'v scheduler \<Rightarrow> nat \<Rightarrow> (nat \<times> 'v) list" where
  "yield_of s t =
     (case (dget (sc_tasks s) t, dget (sc_results s) t) of
        (Some item, Some (Value v)) \<Rightarrow> if dhas item (sc_slots s) then [(item, v)] else []
      | _ \<Rightarrow> [])"

lemma yield_of_cong:
  assumes "sc_tasks w = sc_tasks s" and "sc_results w = sc_results s" and "sc_slots w = sc_slots s"
  shows "yield_of w t = yield_of s t"
  unfolding yield_of_def assms ..

text \<open>The loop of \<open>run\<close> over the tasks that are done, without interruption.\<close>

fun sched_round :: "nat \<Rightarrow> 'v scheduler \<Rightarrow> 'v scheduler" where
  "sched_round 0 s = s"
| "sched_round (Suc n) s = sched_round n (resume_task (process_task s))"

lemma next_or_stop_frame:
  "sc_out (next_or_stop item s) = sc_out s" "sc_batch (next_or_stop item s) = sc_batch s"
  "sc_held (next_or_stop item s) = sc_held s" "sc_results (next_or_stop item s) = sc_results s"
  "t \<noteq> sc_next s \<Longrightarrow> dget (sc_tasks (next_or_stop item s)) t = dget (sc_tasks s) t"
  "i \<noteq> item \<Longrightarrow> dget (sc_slots (next_or_stop item s)) i = dget (sc_slots s) i"
  by (auto simp: next_or_stop_def stop_slot_generator_def requeue_task_def create_task_def split: option.split)

lemma sched_remove_frame:
  "sc_out (sched_remove item s) = sc_out s" "sc_batch (sched_remove item s) = sc_batch s"
  "sc_held (sched_remove item s) = sc_held s" "sc_results (sched_remove item s) = sc_results s"
  "sc_tasks (sched_remove item s) = sc_tasks s" "sc_next (sched_remove item s) = sc_next s"
  "i \<noteq> item \<Longrightarrow> dget (sc_slots (sched_remove item s)) i = dget (sc_slots s) i"
  by (auto simp: sched_remove_def stop_slot_def Let_def split: option.split)

lemma round_step_shape:
  assumes "sched_inv s" and "sc_held s = None" and "sc_batch s = t # batch"
    and "dget (sc_tasks s) t = Some item" and "dget (sc_results s) t = Some r"
  shows "\<exists>x. (resume_task (process_task s) = x \<or> resume_task (process_task s) = next_or_stop item x) \<and>
    sc_tasks x = dpop t (sc_tasks s) \<and> sc_results x = sc_results s \<and> sc_next x = sc_next s \<and> sc_held x = None \<and>
    sc_batch x = batch \<and> sc_out x = sc_out s @ yield_of s t \<and>
    (\<forall>i. i \<noteq> item \<longrightarrow> dget (sc_slots x) i = dget (sc_slots s) i)"
proof -
  let ?s = "s\<lparr>sc_batch := batch, sc_tasks := dpop t (sc_tasks s)\<rparr>"
  have p: "process_task s = process_item t item r ?s" by (simp add: process_task_def assms(3-5))
  have nf: "r \<noteq> RaisedFatal" using assms(1,5) by (auto simp: sched_inv_def results_ok_def)
  show ?thesis
  proof (cases "r = TaskCancelled \<or> \<not> dhas item (sc_slots s)")
    case True
    then have "resume_task (process_task s) = ?s" "yield_of s t = []"
      using assms by (auto simp: p process_item_def resume_task_def yield_of_def split: task_result.split)
    then show ?thesis using assms(2) by (intro exI [of _ ?s]) simp
  next
    case False
    show ?thesis
    proof (cases r)
      case (Value v)
      let ?x = "?s\<lparr>sc_out := sc_out s @ [(item, v)], sc_held := None\<rparr>"
      have "process_task s = ?s\<lparr>sc_held := Some (t, item), sc_out := sc_out s @ [(item, v)]\<rparr>"
        using False by (simp add: p process_item_def Value)
      then have "resume_task (process_task s) = next_or_stop item ?x" by (simp add: resume_task_def)
      moreover have "yield_of s t = [(item, v)]" using False by (simp add: yield_of_def assms(4,5) Value)
      ultimately show ?thesis by (intro exI [of _ ?x]) simp
    next
      case TaskCancelled
      with False show ?thesis by simp
    next
      case RaisedCancelled
      with False have "resume_task (process_task s) = next_or_stop item ?s" "yield_of s t = []"
        by (simp_all add: p process_item_def resume_task_def next_or_stop_frame assms(2) yield_of_def assms(4,5))
      then show ?thesis using assms(2) by (intro exI [of _ ?s]) simp
    next
      case StopIteration
      with False have "resume_task (process_task s) = next_or_stop item (sched_remove item ?s)" "yield_of s t = []"
        by (simp_all add: p process_item_def resume_task_def next_or_stop_frame sched_remove_frame assms(2) yield_of_def assms(4,5))
      then show ?thesis using assms(2) by (intro exI [of _ "sched_remove item ?s"]) (simp add: sched_remove_frame)
    next
      case (RaisedError e)
      with False have "resume_task (process_task s) = next_or_stop item (sched_remove item ?s)" "yield_of s t = []"
        by (simp_all add: p process_item_def resume_task_def next_or_stop_frame sched_remove_frame assms(2) yield_of_def assms(4,5))
      then show ?thesis using assms(2) by (intro exI [of _ "sched_remove item ?s"]) (simp add: sched_remove_frame)
    qed (use nf in simp)
  qed
qed

lemma round_step:
  assumes "sched_inv s" and "sc_held s = None" and "sc_batch s = t # batch"
  shows "sched_inv (resume_task (process_task s)) \<and> sc_held (resume_task (process_task s)) = None \<and>
    sc_batch (resume_task (process_task s)) = batch \<and> sc_out (resume_task (process_task s)) = sc_out s @ yield_of s t \<and>
    (\<forall>t' \<in> set batch. yield_of (resume_task (process_task s)) t' = yield_of s t')"
proof -
  let ?r = "resume_task (process_task s)"
  have inv: "sched_inv ?r" using sched_inv_resume [OF sched_inv_process [OF assms(1,2)]] .
  have q: "queued_ok s" "tasks_ok s" "fresh_ok s" using assms(1) by (simp_all add: sched_inv_def)
  obtain item r where tr: "dget (sc_tasks s) t = Some item" "dget (sc_results s) t = Some r"
    using q(1) by (auto simp: queued_ok_def task_done_def dhas_iff_dget assms(3))
  obtain x where x: "?r = x \<or> ?r = next_or_stop item x" "sc_tasks x = dpop t (sc_tasks s)"
    "sc_results x = sc_results s" "sc_next x = sc_next s" "sc_held x = None" "sc_batch x = batch"
    "sc_out x = sc_out s @ yield_of s t" "\<forall>i. i \<noteq> item \<longrightarrow> dget (sc_slots x) i = dget (sc_slots s) i"
    using round_step_shape [OF assms tr] by blast
  have same: "yield_of ?r t' = yield_of s t'" if t': "t' \<in> set batch" for t'
  proof -
    obtain item' where i: "dget (sc_tasks s) t' = Some item'"
      using q(1) t' unfolding queued_ok_def assms(3) by (metis UnI2 list.set_intros(2) not_None_eq)
    have tt: "t' \<noteq> t" using q(1) t' by (auto simp: queued_ok_def assms(3))
    have ni: "item' \<noteq> item" using q(2) i tr(1) tt by (auto simp: tasks_ok_def)
    have nn: "t' \<noteq> sc_next x" using q(3) i x(4) by (auto simp: fresh_ok_def)
    have "dget (sc_tasks ?r) t' = Some item'" "sc_results ?r = sc_results s"
      "dget (sc_slots ?r) item' = dget (sc_slots s) item'"
      using x(1,2,3,8) i tt ni nn next_or_stop_frame [where item = item and s = x] by auto
    then show ?thesis by (simp add: yield_of_def i dhas_iff_dget cong: option.case_cong task_result.case_cong)
  qed
  have "sc_held ?r = None" "sc_batch ?r = batch" "sc_out ?r = sc_out s @ yield_of s t"
    using x(1,5,6,7) next_or_stop_frame [where item = item and s = x] by auto
  with inv same show ?thesis by blast
qed

lemma sched_round_out:
  assumes "sched_inv s" and "sc_held s = None" and "length (sc_batch s) = n"
  shows "sc_out (sched_round n s) = sc_out s @ concat (map (yield_of s) (sc_batch s)) \<and>
    sc_batch (sched_round n s) = [] \<and> sc_held (sched_round n s) = None \<and> sched_inv (sched_round n s)"
  using assms
proof (induction n arbitrary: s)
  case (Suc n)
  then obtain t batch where b: "sc_batch s = t # batch" by (cases "sc_batch s") auto
  note r = round_step [OF Suc.prems(1,2) b]
  have "map (yield_of (resume_task (process_task s))) batch = map (yield_of s) batch"
    using r by simp
  with Suc.IH [of "resume_task (process_task s)"] r Suc.prems(3) b show ?case by simp
qed simp


definition demo_ready :: "string scheduler" where
  "demo_ready = task_ends 1 (Value ''b'') (task_ends 0 (Value ''a'') (sched_add 8 (sched_add 7 new_scheduler)))"

lemma demo_ready_reachable: "(sched_step id)\<^sup>*\<^sup>* new_scheduler demo_ready"
proof -
  let ?s1 = "sched_add 7 new_scheduler :: string scheduler" and ?s2 = "sched_add 8 (sched_add 7 new_scheduler) :: string scheduler"
  note d = sched_add_def create_task_def new_scheduler_def task_ends_def task_done_def dset_def
  have "sched_step id new_scheduler ?s1" by (rule sched_step.add) (simp_all add: new_scheduler_def)
  moreover have "sched_step id ?s1 ?s2" by (rule sched_step.add) (simp_all add: d)
  moreover have "sched_step id ?s2 (task_ends 0 (Value ''a'') ?s2)" by (rule sched_step.ends) (simp_all add: d)
  moreover have "sched_step id (task_ends 0 (Value ''a'') ?s2) demo_ready"
    unfolding demo_ready_def by (rule sched_step.ends) (simp_all add: d)
  ultimately show ?thesis by (meson rtranclp.rtrancl_into_rtrancl rtranclp.rtrancl_refl)
qed


section \<open>What the scheduler forgets\<close>

text \<open>
  A queue removed while its task waits for a message: the task is cancelled, and processing it
  returns before the branch that would close the generator, settle the future and delete the slot.
\<close>

definition demo_removed :: "string scheduler" where
  "demo_removed = process_task (sched_wait id (task_ends 0 TaskCancelled (sched_remove 7 (sched_add 7 new_scheduler))))"

lemma removed_slot_stays:
  "dhas 7 (sc_slots demo_removed) \<and> sc_closed demo_removed = [] \<and> sc_tasks demo_removed = [] \<and> sc_group demo_removed = []"
  by (simp add: demo_removed_def sched_remove_def stop_slot_def sched_add_def create_task_def new_scheduler_def
      task_ends_def task_done_def dset_def dpop_def sched_wait_def task_order_def process_task_def process_item_def Let_def)

text \<open>
  An exception that reaches \<open>run\<close> while it yields puts the task it was processing back. The other tasks
  of the round were taken out of the group and are not waited for again, although their queues run.
\<close>

lemma abort_forgets_round:
  "let s = abort_task demo_sched_run in
    sc_group s = [0] \<and> sc_batch s = [] \<and> dget (sc_tasks s) 1 = Some 8 \<and>
    \<not> slot_served s 8 \<lparr>sl_task = 1, sl_order = 0, sl_running = True\<rparr>"
  by (simp add: demo_sched_run_def abort_task_def put_back_def slot_served_def sched_add_def create_task_def
      new_scheduler_def task_ends_def task_done_def dset_def dpop_def sched_wait_def task_order_def process_task_def
      process_item_def Let_def)

end
