(* ===== verification/Job_Runner.thy ===== *)
theory Job_Runner
  imports Cursors Flush_Service
begin

text \<open>
  \<open>worker/job.py\<close>: a job runs an inventory as a topic, saves the inventory's cursor whenever an item
  is done, and marks itself completed or failed at the end.

  The run is the relation \<open>job_run\<close> on the cursors' state, with the items entered, those finished, and
  every cursor the job has had in its state so far (the one it was started with first). An item
  that an earlier run had finished is entered and left without becoming a message.
\<close>

section \<open>Running\<close>

definition save_cursor :: "string \<Rightarrow> cursors_state \<Rightarrow> store_op list" where
  "save_cursor name s = (case as_cursor s of None \<Rightarrow> [] | Some c \<Rightarrow> [SetJobCursor name c])"

text \<open>The end of \<open>Job.run\<close>: the inventory is exhausted and joined, or an exception was raised.\<close>

datatype job_end = Exhausted | RunRaised string string

definition end_job :: "string \<Rightarrow> time \<Rightarrow> job_end \<Rightarrow> store_op list" where
  "end_job name now e =
     (case e of
        Exhausted \<Rightarrow> [SetJobCompleted name now]
      | RunRaised etype etext \<Rightarrow> [SetJobFailed name (etype @ '': '' @ etext) now])"

text \<open>\<open>join\<close> waits until the inventory has no pending item.\<close>

definition join_ready :: "cursors_state \<Rightarrow> bool" where
  "join_ready s \<longleftrightarrow> \<not> has_pendings s"

inductive job_run ::
  "string option \<Rightarrow> nat option \<Rightarrow> cursors_state \<Rightarrow> item list \<Rightarrow> item set \<Rightarrow> cursors_state \<Rightarrow> string option list \<Rightarrow> bool"
  for c0 :: "string option" and mp :: "nat option" where
  job_start: "from_cursor c0 mp = Some s0 \<Longrightarrow> job_run c0 mp s0 [] {} s0 [c0]"
| job_enter: "job_run c0 mp s0 E F s C \<Longrightarrow> it_oid i \<notin> it_oid ` set E \<Longrightarrow> fst (process_enter s i) \<Longrightarrow>
    job_run c0 mp s0 (E @ [i]) F (snd (process_enter s i)) C"
| job_skip: "job_run c0 mp s0 E F s C \<Longrightarrow> it_oid i \<notin> it_oid ` set E \<Longrightarrow> \<not> fst (process_enter s i) \<Longrightarrow>
    job_run c0 mp s0 (E @ [i]) (insert i F) (process_exit (snd (process_enter s i)) i) C"
| job_item_done: "job_run c0 mp s0 E F s C \<Longrightarrow> i \<in> set E \<Longrightarrow> i \<notin> F \<Longrightarrow>
    job_run c0 mp s0 E (insert i F) (process_exit s i)
      (C @ (case as_cursor (process_exit s i) of None \<Rightarrow> [] | Some c \<Rightarrow> [Some c]))"

lemma from_dict_max_partials:
  "from_dict d mp' = map_option (\<lambda>s. s\<lparr>cs_max_partials := mp'\<rparr>) (from_dict d mp)"
  by (simp add: from_dict_def Let_def initial_cursors_def split: option.split)

lemma from_dict_fresh: "from_dict d mp = Some s \<Longrightarrow>
  distinct (cs_partials s) \<and> cs_pendings s = [] \<and> cs_max_partials s = mp"
  by (auto simp: from_dict_def Let_def initial_cursors_def split: option.splits if_splits pyval.splits)

lemma from_cursor_dict: "\<exists>d. \<forall>mp. from_cursor c mp = from_dict d mp"
proof (cases c)
  case (Some r)
  show ?thesis
  proof (cases "r = []")
    case False
    then show ?thesis by (cases "structured (loads r)") (auto simp: from_cursor_def Some)
  qed (auto simp: from_cursor_def Some)
qed (auto simp: from_cursor_def)

lemma from_cursor_shape:
  assumes "from_cursor c mp = Some s"
  shows "\<exists>a ps. distinct ps \<and> s = initial_cursors a ps mp \<and> (\<forall>mp'. from_cursor c mp' = Some (initial_cursors a ps mp'))"
proof -
  obtain d where d: "\<And>mp. from_cursor c mp = from_dict d mp" using from_cursor_dict by blast
  have f: "distinct (cs_partials s)" "s = initial_cursors (cs_after s) (cs_partials s) mp"
    using from_dict_fresh [of d mp s] assms by (auto simp: d initial_cursors_def)
  have "from_cursor c mp' = Some (initial_cursors (cs_after s) (cs_partials s) mp')" for mp'
    using from_dict_max_partials [of d mp' mp] assms from_dict_fresh [of d mp s]
    by (simp add: d initial_cursors_def)
  with f show ?thesis by blast
qed

lemma job_run_start: "job_run c0 mp s0 E F s C \<Longrightarrow> from_cursor c0 mp = Some s0"
  by (induction rule: job_run.induct) auto

lemma job_run_cursor_run: "job_run c0 mp s0 E F s C \<Longrightarrow> cursor_run s0 E F s"
proof (induction rule: job_run.induct)
  case (job_skip s0 E F s C i)
  have "i \<notin> F" using job_skip.hyps(2) cursor_run_props(1) [OF job_skip.IH] by auto
  then show ?case
    using run_exit [OF run_enter [OF job_skip.IH job_skip.hyps(2)], of i] by simp
qed (auto intro: run_start run_enter run_exit)

text \<open>Every cursor the job has had was the cursor of an earlier state of the same run.\<close>

definition earlier_cursor :: "string option \<Rightarrow> cursors_state \<Rightarrow> item list \<Rightarrow> item set \<Rightarrow> string option \<Rightarrow> bool" where
  "earlier_cursor c0 s0 E F c \<longleftrightarrow> c = c0 \<or>
     (\<exists>E1 F1 s1 more. cursor_run s0 E1 F1 s1 \<and> E = E1 @ more \<and> F1 \<subseteq> F \<and> c = as_cursor s1)"

lemma earlier_cursor_mono:
  "earlier_cursor c0 s0 E F c \<Longrightarrow> F \<subseteq> F' \<Longrightarrow> earlier_cursor c0 s0 (E @ is) F' c"
  unfolding earlier_cursor_def by (metis append.assoc order_trans)

lemma saved_cursors_earlier: "job_run c0 mp s0 E F s C \<Longrightarrow> c \<in> set C \<Longrightarrow> earlier_cursor c0 s0 E F c"
proof (induction rule: job_run.induct)
  case (job_start s0)
  then show ?case by (simp add: earlier_cursor_def)
next
  case (job_enter s0 E F s C i)
  then show ?case using earlier_cursor_mono [of c0 s0 E F c F "[i]"] by simp
next
  case (job_skip s0 E F s C i)
  then show ?case using earlier_cursor_mono [of c0 s0 E F c "insert i F" "[i]"] by auto
next
  case (job_item_done s0 E F s C i)
  let ?s = "process_exit s i"
  have run: "cursor_run s0 E (insert i F) ?s"
    using job_item_done.hyps job_run_cursor_run by (intro run_exit) auto
  show ?case
  proof (cases "c \<in> set C")
    case True
    then show ?thesis using job_item_done.IH earlier_cursor_mono [of c0 s0 E F c "insert i F" "[]"] by auto
  next
    case False
    then have "c = as_cursor ?s" using job_item_done.prems by (auto split: option.splits)
    with run show ?thesis unfolding earlier_cursor_def by blast
  qed
qed

lemma earlier_cursor_safe:
  assumes "earlier_cursor c0 s0 E F c" and "from_cursor c0 mp = Some s0"
    and xs: "distinct (map it_cursor xs)" "\<forall>i \<in> set xs. struthy (it_cursor i)"
    and ys: "items_after (cs_after s0) xs = E @ rest"
    and load: "from_cursor c mp' = Some s'"
    and i: "i \<in> set (E @ rest)" "i \<notin> F" "\<not> is_partial (cs_partials s0) i"
  shows "i \<in> set (fst (run_items s' (items_after (cs_after s') xs)))"
proof -
  obtain a ps where s0: "distinct ps" "s0 = initial_cursors a ps mp"
    "\<And>mp'. from_cursor c0 mp' = Some (initial_cursors a ps mp')"
    using from_cursor_shape [OF assms(2)] by blast
  consider "c = c0" | E1 F1 s1 more where "cursor_run s0 E1 F1 s1" "E = E1 @ more" "F1 \<subseteq> F" "c = as_cursor s1"
    using assms(1) unfolding earlier_cursor_def by blast
  then show ?thesis
  proof cases
    case 1
    then have s': "s' = initial_cursors a ps mp'" using load s0(3) by simp
    obtain pre where "xs = pre @ items_after a xs" using items_after_suffix by blast
    then have "distinct (map it_cursor (items_after a xs))" using xs(1) by (metis distinct_append map_append)
    then show ?thesis
      using run_items_filter [of "items_after a xs" s'] s0(1,2) ys i
      by (simp add: s' initial_cursors_def)
  next
    case 2
    have p: "cs_pendings s0 = []" "distinct (cs_partials s0)" using s0 by (simp_all add: initial_cursors_def)
    have "i \<in> set (remaining s0 E1 F1 (E1 @ more @ rest))"
      using i 2 by (auto simp: remaining_def)
    with 2 ys show ?thesis
      using resumed_not_lost [OF 2(1) p xs, of "more @ rest" mp' s' i] load by simp
  qed
qed

text \<open>
  Any cursor a job has ever saved is a safe one to restart from. Whatever the interleaving of
  items, and however old the cursor is, the restarted job gets every item that had not finished
  when the worker stopped, except those that the first run already knew to be done.
\<close>

theorem restart_loses_nothing:
  assumes run: "job_run c0 mp s0 E F s C" and c: "c \<in> set C"
    and xs: "distinct (map it_cursor xs)" "\<forall>i \<in> set xs. struthy (it_cursor i)"
    and ys: "items_after (cs_after s0) xs = E @ rest"
    and load: "from_cursor c mp' = Some s'"
    and i: "i \<in> set (E @ rest)" "i \<notin> F" "\<not> is_partial (cs_partials s0) i"
  shows "i \<in> set (fst (run_items s' (items_after (cs_after s') xs)))"
  by (rule earlier_cursor_safe [OF saved_cursors_earlier [OF run c] job_run_start [OF run] xs ys load i])

lemma demo_job_run:
  "job_run None (Some 100) (initial_cursors None [] (Some 100)) [demo_items ! 0, demo_items ! 1] {demo_items ! 1}
     (process_exit (snd (process_enter (snd (process_enter (initial_cursors None [] (Some 100)) (demo_items ! 0))) (demo_items ! 1))) (demo_items ! 1))
     [None, Some (dumps (PDict [(''v'', PInt 1), (''p'', PList [PStr ''1''])]))]"
proof -
  let ?s0 = "initial_cursors None [] (Some 100)"
  let ?s1 = "snd (process_enter ?s0 (demo_items ! 0))" let ?s2 = "snd (process_enter ?s1 (demo_items ! 1))"
  note d = demo_items_def new_item_def initial_cursors_def process_enter_def process_exit_def Let_def dset_def
  have "from_cursor None (Some 100) = Some ?s0" by (simp add: from_cursor_def from_dict_def)
  from job_start [OF this] have "job_run None (Some 100) ?s0 ([] @ [demo_items ! 0]) {} ?s1 [None]"
    by (rule job_enter) (simp_all add: d)
  then have "job_run None (Some 100) ?s0 (([] @ [demo_items ! 0]) @ [demo_items ! 1]) {} ?s2 [None]"
    by (rule job_enter) (simp_all add: d)
  then have r: "job_run None (Some 100) ?s0 [demo_items ! 0, demo_items ! 1] {} ?s2 [None]" by simp
  have "as_cursor (process_exit ?s2 (demo_items ! 1)) = Some (dumps (PDict [(''v'', PInt 1), (''p'', PList [PStr ''1''])]))"
    by (simp add: as_cursor_def as_dict_def saved_partials_def partials_cursors_def d commit_cursor_def map_filter_simps)
  with job_item_done [OF r, of "demo_items ! 1"] show ?thesis by simp
qed

lemma restart_loses_nothing_witness:
  "demo_items ! 0 \<in> set (fst (run_items (initial_cursors None [''1''] (Some 100)) demo_items))"
proof -
  let ?s = "process_exit (snd (process_enter (snd (process_enter (initial_cursors None [] (Some 100)) (demo_items ! 0))) (demo_items ! 1))) (demo_items ! 1)"
  let ?c = "Some (dumps (PDict [(''v'', PInt 1), (''p'', PList [PStr ''1''])]))"
  note d = demo_items_def new_item_def initial_cursors_def process_enter_def process_exit_def Let_def dset_def
  have s: "as_cursor ?s = ?c"
    by (simp add: as_cursor_def as_dict_def saved_partials_def partials_cursors_def d commit_cursor_def map_filter_simps)
  have "from_cursor (as_cursor ?s) (Some 100) = Some (initial_cursors None [''1''] (Some 100))"
    by (simp add: from_cursor_as_cursor saved_partials_def partials_cursors_def d commit_cursor_def map_filter_simps)
  then have l: "from_cursor ?c (Some 100) = Some (initial_cursors None [''1''] (Some 100))" by (simp only: s)
  have xs: "distinct (map it_cursor demo_items)" "\<forall>i \<in> set demo_items. struthy (it_cursor i)"
    using demo_hyps(4,5) .
  have "items_after (cs_after (initial_cursors None [] (Some 100))) demo_items
      = [demo_items ! 0, demo_items ! 1] @ [demo_items ! 2]"
    by (simp add: demo_items_def new_item_def items_after_def initial_cursors_def)
  from restart_loses_nothing [OF demo_job_run _ xs this l, of "demo_items ! 0"] show ?thesis
    by (simp add: items_after_def initial_cursors_def demo_items_def new_item_def is_partial_def)
qed


definition demo_done :: cursors_state where
  "demo_done = process_exit (snd (process_enter (initial_cursors None [] (Some 100)) (demo_items ! 0))) (demo_items ! 0)"


end
