(* ===== verification/Pipeline.thy ===== *)
theory Pipeline
  imports Core_Types
begin

text \<open>
  What a worker does with one message: \<open>worker/pipeline_message.py\<close>, the argument binding of
  \<open>utils/inspect.py\<close> and the classification of results of \<open>worker/executors/bootstrap.py\<close>.

  The pipeline itself, the decoding of arguments by pydantic and the subclass test of \<open>find_by_type\<close>
  are arguments.
\<close>

section \<open>Pipeline messages\<close>

record pipeline_message =
  pm_info :: pipeline_info
  pm_message :: topic_message
  pm_meta_args :: "(string, pyval) pydict"

definition has_arg :: "string \<Rightarrow> pipeline_message \<Rightarrow> bool" where
  "has_arg name pm \<longleftrightarrow> dhas name (tm_args (pm_message pm))"

text \<open>A set: the types, without duplicates.\<close>

definition missing_resources :: "pipeline_message \<Rightarrow> string list" where
  "missing_resources pm =
     remdups (map snd (filter (\<lambda>(name, _). \<not> has_arg name pm) (pi_resources (pm_info pm))))"

definition set_arg :: "string \<Rightarrow> pyval \<Rightarrow> pipeline_message \<Rightarrow> pipeline_message" where
  "set_arg name v pm =
     pm\<lparr>pm_message := (pm_message pm)\<lparr>tm_args := dset name v (tm_args (pm_message pm))\<rparr>\<rparr>"

text \<open>\<open>update_with_resources\<close>: a type that was not given raises, after what has been filled in so far.\<close>

fun fill_resources ::
  "(string, string) pydict \<Rightarrow> (string, (string, pyval) pydict) pydict \<Rightarrow> pipeline_message \<Rightarrow>
     exn option \<times> pipeline_message" where
  "fill_resources [] given pm = (None, pm)"
| "fill_resources ((name, ty) # rs) given pm =
     (if has_arg name pm then fill_resources rs given pm
      else case dget given ty of
        None \<Rightarrow> (Some (KeyError ty), pm)
      | Some data \<Rightarrow> fill_resources rs given (set_arg name (PDict data) pm))"

definition update_with_resources ::
  "(string, (string, pyval) pydict) pydict \<Rightarrow> pipeline_message \<Rightarrow> exn option \<times> pipeline_message" where
  "update_with_resources given pm = fill_resources (pi_resources (pm_info pm)) given pm"

definition resource_names :: "pipeline_message \<Rightarrow> (string, pyval) pydict" where
  "resource_names pm =
     dor [] (List.map_filter (\<lambda>(name, ty).
        case dget (tm_args (pm_message pm)) name of
          Some (PDict d) \<Rightarrow> Some (ty, dget_or d ''name'' PNone)
        | _ \<Rightarrow> None) (pi_resources (pm_info pm)))"

definition set_meta_arg :: "string \<Rightarrow> pyval \<Rightarrow> pipeline_message \<Rightarrow> pipeline_message" where
  "set_meta_arg meta_type v pm = pm\<lparr>pm_meta_args := dset meta_type v (pm_meta_args pm)\<rparr>"

definition as_remote :: "pipeline_message \<Rightarrow> pipeline_message" where
  "as_remote pm = pm\<lparr>pm_message := (pm_message pm)\<lparr>tm_config := []\<rparr>\<rparr>"

section \<open>Binding arguments\<close>

datatype param_kind = PositionalOrKeyword | KeywordOnly | VarKeyword | OtherKind

record param =
  pa_name :: string
  pa_kind :: param_kind

record params_dataclass =
  pd_fields :: "param list"
  pd_has_kwargs :: bool

definition dataclass_from_params :: "param list \<Rightarrow> params_dataclass" where
  "dataclass_from_params ps =
     \<lparr>pd_fields = filter (\<lambda>p. pa_kind p = PositionalOrKeyword \<or> pa_kind p = KeywordOnly) ps,
      pd_has_kwargs = list_ex (\<lambda>p. pa_kind p = VarKeyword) ps\<rparr>"

text \<open>\<open>matches meta p\<close> is the test of \<open>find_by_type\<close> on a field's type.\<close>

definition find_by_type :: "(string \<Rightarrow> param \<Rightarrow> bool) \<Rightarrow> string \<Rightarrow> params_dataclass \<Rightarrow> string option" where
  "find_by_type matches meta d = map_option pa_name (find (matches meta) (pd_fields d))"

definition meta_args ::
  "(string \<Rightarrow> param \<Rightarrow> bool) \<Rightarrow> params_dataclass \<Rightarrow> (string, pyval) pydict \<Rightarrow> (string, pyval) pydict \<Rightarrow>
     (string, pyval) pydict" where
  "meta_args matches d metas args =
     fold (\<lambda>(meta, v) a. case find_by_type matches meta d of None \<Rightarrow> a | Some f \<Rightarrow> dset f v a) metas args"

text \<open>The keyword arguments of the call: the decoded fields, and the other arguments for \<open>**kwargs\<close>.\<close>

definition call_kwargs :: "params_dataclass \<Rightarrow> (string, pyval) pydict \<Rightarrow> (string, pyval) pydict \<Rightarrow> (string, pyval) pydict" where
  "call_kwargs d decoded args =
     decoded @ (if pd_has_kwargs d then filter (\<lambda>(k, _). \<not> dhas k decoded) args else [])"

definition execute ::
  "(string \<Rightarrow> param \<Rightarrow> bool) \<Rightarrow> (params_dataclass \<Rightarrow> (string, pyval) pydict \<Rightarrow> (string, pyval) pydict result) \<Rightarrow>
     param list \<Rightarrow> ((string, pyval) pydict \<Rightarrow> 'r result) \<Rightarrow> pipeline_message \<Rightarrow> 'r result" where
  "execute matches decode ps pipeline pm =
     (let d = dataclass_from_params ps;
          args = meta_args matches d (pm_meta_args pm) (tm_args (pm_message pm))
      in rbind (decode d args) (\<lambda>decoded. pipeline (call_kwargs d decoded args)))"

section \<open>Results\<close>

text \<open>What a pipeline yields, and what it returns: nothing, one result, an iterable (whose iteration may raise after some results), or something else.\<close>

datatype yielded =
    YOutput pipeline_output
  | YMessage topic_message
  | YResource resource_used
  | YEvent pipeline_event
  | YInvalid

datatype pipeline_return =
    ReturnedNone
  | ReturnedOne yielded
  | ReturnedMany "yielded list" "exn option"

definition add_result :: "yielded \<Rightarrow> pipeline_results \<Rightarrow> pipeline_results" where
  "add_result y r =
     (case y of
        YOutput po \<Rightarrow> r\<lparr>pr_outputs := pr_outputs r @ [po]\<rparr>
      | YMessage m \<Rightarrow> r\<lparr>pr_outputs := pr_outputs r @ [\<lparr>po_channel = ''default'', po_message = m\<rparr>]\<rparr>
      | YResource u \<Rightarrow> r\<lparr>pr_resources := pr_resources r @ [u]\<rparr>
      | YEvent e \<Rightarrow> r\<lparr>pr_events := pr_events r @ [e]\<rparr>
      | YInvalid \<Rightarrow> r)"

definition run_pipeline :: "pipeline_return result \<Rightarrow> pipeline_results result" where
  "run_pipeline ret =
     rbind ret (\<lambda>v.
       let (ys, failed) = (case v of
             ReturnedNone \<Rightarrow> ([], None)
           | ReturnedOne y \<Rightarrow> ([y], None)
           | ReturnedMany ys e \<Rightarrow> (ys, e))
       in case failed of
            Some e \<Rightarrow> Inl e
          | None \<Rightarrow> Inr (fold add_result ys empty_results))"

text \<open>The meta argument \<open>TopicMessage\<close> (the message itself) and the run.\<close>

definition bootstrap_pipeline ::
  "(topic_message \<Rightarrow> pyval) \<Rightarrow> (pipeline_message \<Rightarrow> pipeline_return result) \<Rightarrow> pipeline_message \<Rightarrow> pipeline_results result" where
  "bootstrap_pipeline encode exec pm =
     run_pipeline (exec (set_meta_arg ''datalineup_engine.core.topic.TopicMessage'' (encode (pm_message pm)) pm))"

section \<open>Properties\<close>

lemma set_arg_has [simp]: "has_arg n (set_arg name v pm) \<longleftrightarrow> n = name \<or> has_arg n pm"
  by (auto simp: has_arg_def set_arg_def dhas_iff_dget)

lemma set_arg_get [simp]:
  "dget (tm_args (pm_message (set_arg name v pm))) n = (if n = name then Some v else dget (tm_args (pm_message pm)) n)"
  by (simp add: set_arg_def)

lemma pm_info_set_arg [simp]: "pm_info (set_arg name v pm) = pm_info pm"
  by (simp add: set_arg_def)

lemma fill_resources_ok:
  assumes "\<forall>(name, ty) \<in> set rs. has_arg name pm \<or> dhas ty given"
  shows "\<exists>pm'. fill_resources rs given pm = (None, pm') \<and> pm_info pm' = pm_info pm \<and>
    (\<forall>n. has_arg n pm' \<longleftrightarrow> has_arg n pm \<or> n \<in> fst ` set rs) \<and>
    (\<forall>n. has_arg n pm \<longrightarrow> dget (tm_args (pm_message pm')) n = dget (tm_args (pm_message pm)) n) \<and>
    (wfd rs \<longrightarrow> (\<forall>(n, ty) \<in> set rs. \<not> has_arg n pm \<longrightarrow> dget (tm_args (pm_message pm')) n = map_option PDict (dget given ty)))"
  using assms
proof (induction rs arbitrary: pm)
  case Nil
  then show ?case by simp
next
  case (Cons r rs)
  obtain name ty where r: "r = (name, ty)" by (cases r)
  show ?case
  proof (cases "has_arg name pm")
    case True
    with Cons.prems Cons.IH [of pm] show ?thesis by (auto simp: r wfd_def)
  next
    case False
    then obtain data where data: "dget given ty = Some data"
      using Cons.prems by (auto simp: r dhas_iff_dget)
    let ?pm = "set_arg name (PDict data) pm"
    have "\<forall>(n, t) \<in> set rs. has_arg n ?pm \<or> dhas t given" using Cons.prems by (auto simp: r)
    then obtain pm' where pm': "fill_resources rs given ?pm = (None, pm')" "pm_info pm' = pm_info ?pm"
      "\<forall>n. has_arg n pm' \<longleftrightarrow> has_arg n ?pm \<or> n \<in> fst ` set rs"
      "\<forall>n. has_arg n ?pm \<longrightarrow> dget (tm_args (pm_message pm')) n = dget (tm_args (pm_message ?pm)) n"
      "wfd rs \<longrightarrow> (\<forall>(n, t) \<in> set rs. \<not> has_arg n ?pm \<longrightarrow> dget (tm_args (pm_message pm')) n = map_option PDict (dget given t))"
      using Cons.IH by blast
    have "dget (tm_args (pm_message pm')) n = dget (tm_args (pm_message pm)) n" if "has_arg n pm" for n
      using pm'(4) that False by auto
    moreover have "dget (tm_args (pm_message pm')) n = map_option PDict (dget given t)"
      if "wfd (r # rs)" "(n, t) \<in> set (r # rs)" "\<not> has_arg n pm" for n t
    proof (cases "n = name")
      case True
      with that have "t = ty" by (force simp: r wfd_def)
      with True pm'(4) data show ?thesis by simp
    next
      case False
      with that pm'(5) show ?thesis by (auto simp: r wfd_def)
    qed
    moreover have "fill_resources (r # rs) given pm = (None, pm')" using pm'(1) False data by (simp add: r)
    moreover have "\<forall>n. has_arg n pm' \<longleftrightarrow> has_arg n pm \<or> n \<in> fst ` set (r # rs)" using pm'(3) by (auto simp: r)
    ultimately show ?thesis using pm'(2) by (intro exI [of _ pm']) auto
  qed
qed

text \<open>
  Once the missing resources have been acquired the pipeline lacks none. If every type in
  \<open>missing_resources\<close> is given, filling the message in succeeds, nothing is missing afterwards, each
  parameter that was missing holds the resource of its type, and the arguments the message came
  with are untouched.
\<close>

theorem acquired_resources_complete:
  assumes "wfd (pi_resources (pm_info pm))" and "set (missing_resources pm) \<subseteq> set (dkeys given)"
  shows "\<exists>pm'. update_with_resources given pm = (None, pm') \<and> missing_resources pm' = [] \<and>
    (\<forall>(name, ty) \<in> set (pi_resources (pm_info pm)).
       dget (tm_args (pm_message pm')) name =
         (if has_arg name pm then dget (tm_args (pm_message pm)) name else map_option PDict (dget given ty))) \<and>
    (\<forall>name. has_arg name pm \<longrightarrow> dget (tm_args (pm_message pm')) name = dget (tm_args (pm_message pm)) name)"
proof -
  have "\<forall>(name, ty) \<in> set (pi_resources (pm_info pm)). has_arg name pm \<or> dhas ty given"
    using assms(2) by (force simp: missing_resources_def dhas_def)
  from fill_resources_ok [OF this] obtain pm' where
    pm': "update_with_resources given pm = (None, pm')" "pm_info pm' = pm_info pm"
    "\<forall>n. has_arg n pm' \<longleftrightarrow> has_arg n pm \<or> n \<in> fst ` set (pi_resources (pm_info pm))"
    "\<forall>n. has_arg n pm \<longrightarrow> dget (tm_args (pm_message pm')) n = dget (tm_args (pm_message pm)) n"
    "\<forall>(n, ty) \<in> set (pi_resources (pm_info pm)). \<not> has_arg n pm \<longrightarrow>
       dget (tm_args (pm_message pm')) n = map_option PDict (dget given ty)"
    using assms(1) unfolding update_with_resources_def by blast
  have "missing_resources pm' = []"
    using pm'(2,3) by (force simp: missing_resources_def filter_empty_conv)
  with pm'(1,4,5) show ?thesis by (intro exI [of _ pm']) auto
qed


definition demo_message :: pipeline_message where
  "demo_message = \<lparr>pm_info = \<lparr>pi_name = ''p'', pi_resources = [(''a'', ''T''), (''b'', ''T''), (''c'', ''U'')]\<rparr>,
     pm_message = new_topic_message ''1'' [(''c'', PInt 3)], pm_meta_args = []\<rparr>"

lemma acquired_resources_complete_witness:
  "missing_resources demo_message = [''T''] \<and>
   (\<exists>pm'. update_with_resources [(''T'', [(''name'', PStr ''r'')])] demo_message = (None, pm') \<and> missing_resources pm' = [] \<and>
      dget (tm_args (pm_message pm')) ''b'' = Some (PDict [(''name'', PStr ''r'')]))"
proof -
  have m: "missing_resources demo_message = [''T'']"
    by (simp add: missing_resources_def demo_message_def has_arg_def new_topic_message_def dhas_def)
  have "wfd (pi_resources (pm_info demo_message))" by (simp add: demo_message_def wfd_def)
  moreover have "set (missing_resources demo_message) \<subseteq> set (dkeys [(''T'', [(''name'', PStr ''r'')])])" by (simp add: m)
  ultimately obtain pm' where "update_with_resources [(''T'', [(''name'', PStr ''r'')])] demo_message = (None, pm')"
    "missing_resources pm' = []" and a: "\<forall>(name, ty) \<in> set (pi_resources (pm_info demo_message)).
       dget (tm_args (pm_message pm')) name = (if has_arg name demo_message then dget (tm_args (pm_message demo_message)) name
         else map_option PDict (dget [(''T'', [(''name'', PStr ''r'')])] ty))"
    using acquired_resources_complete [of demo_message "[(''T'', [(''name'', PStr ''r'')])]"] by blast
  moreover have "dget (tm_args (pm_message pm')) ''b'' = Some (PDict [(''name'', PStr ''r'')])"
    using a by (simp add: demo_message_def has_arg_def new_topic_message_def dhas_def)
  ultimately show ?thesis using m by blast
qed

text \<open>The results of a run: each kind in the order of the yields, and nothing when the iteration raises.\<close>

definition outputs_of :: "yielded list \<Rightarrow> pipeline_output list" where
  "outputs_of ys = List.map_filter (\<lambda>y. case y of
     YOutput po \<Rightarrow> Some po | YMessage m \<Rightarrow> Some \<lparr>po_channel = ''default'', po_message = m\<rparr> | _ \<Rightarrow> None) ys"

definition resources_of :: "yielded list \<Rightarrow> resource_used list" where
  "resources_of ys = List.map_filter (\<lambda>y. case y of YResource u \<Rightarrow> Some u | _ \<Rightarrow> None) ys"

definition events_of :: "yielded list \<Rightarrow> pipeline_event list" where
  "events_of ys = List.map_filter (\<lambda>y. case y of YEvent e \<Rightarrow> Some e | _ \<Rightarrow> None) ys"

lemma fold_add_result:
  "fold add_result ys r = r\<lparr>pr_outputs := pr_outputs r @ outputs_of ys, pr_resources := pr_resources r @ resources_of ys,
     pr_events := pr_events r @ events_of ys\<rparr>"
proof (induction ys arbitrary: r)
  case (Cons y ys)
  then show ?case
    by (cases y) (simp_all add: add_result_def outputs_of_def resources_of_def events_of_def map_filter_simps)
qed (simp add: outputs_of_def resources_of_def events_of_def map_filter_simps)

lemma run_pipeline_results:
  "run_pipeline (Inr (ReturnedMany ys e)) =
     (case e of Some x \<Rightarrow> Inl x | None \<Rightarrow> Inr \<lparr>pr_outputs = outputs_of ys, pr_resources = resources_of ys, pr_events = events_of ys\<rparr>)"
  by (simp add: run_pipeline_def fold_add_result empty_results_def split: option.split)

text \<open>A parameter whose type is that of a meta argument gets it, whatever the message carries under its name.\<close>

lemma meta_argument_wins:
  assumes "find_by_type matches meta d = Some f"
  shows "dget (meta_args matches d (metas @ [(meta, v)]) args) f = Some v"
  using assms by (simp add: meta_args_def)

lemma meta_args_keep_others:
  assumes "\<forall>(meta, v) \<in> set metas. find_by_type matches meta d \<noteq> Some k"
  shows "dget (meta_args matches d metas args) k = dget args k"
  using assms unfolding meta_args_def
  by (induction metas arbitrary: args) (auto split: option.split)

end
