(* ===== verification/Exec_Queue.thy ===== *)
theory Exec_Queue
  imports Pipeline Error_Handling Resources
begin

text \<open>
  The executor's side of a message: \<open>worker/executors/queue.py\<close> (\<open>ExecutorQueue\<close>),
  \<open>worker/executors/executable.py\<close> (\<open>ExecutableMessage\<close>, \<open>ExecutableQueue\<close>) and
  \<open>worker/executors/parkers.py\<close>.

  A message carries two exit stacks. The message context is the topic's: leaving it without an
  exception acknowledges the message, leaving it with one lets the topic reject or requeue it. The
  executing context holds the resources. Outcomes of the executor, of the topics and of the
  events hook are arguments; \<open>message_executed\<close>, \<open>results_processed\<close> and \<open>message_published\<close> are
  transparent hooks (theory \<open>Hooks_Lib\<close>). A topic of an output is named by its position.
\<close>

section \<open>Running the pipeline\<close>

datatype exec_outcome = ExecResults pipeline_results | ExecRaised caught | ExecCancelled

datatype scope_end = ScopeResults pipeline_results | ScopeHandled handled_error | ScopeFailed

definition run_scope :: "(caught \<Rightarrow> handled_error option result) \<Rightarrow> exec_outcome \<Rightarrow> scope_end" where
  "run_scope handle out =
     (case out of
        ExecResults r \<Rightarrow> ScopeResults r
      | ExecCancelled \<Rightarrow> ScopeFailed
      | ExecRaised x \<Rightarrow>
          (case handle x of
             Inl _ \<Rightarrow> ScopeFailed
           | Inr None \<Rightarrow> ScopeFailed
           | Inr (Some e) \<Rightarrow> ScopeHandled e))"

section \<open>Publishing the outputs\<close>

datatype topic_outcome = TopicReturned bool | TopicRaised exn

text \<open>\<open>pub k w\<close> is the outcome of the \<open>k\<close>-th publication, tried without waiting or waiting.\<close>

definition publications ::
  "(string, string list) pydict \<Rightarrow> pipeline_output list \<Rightarrow> (string \<times> topic_message) list" where
  "publications topics outs =
     concat (map (\<lambda>po. map (\<lambda>t. (t, po_message po)) (dget_or topics (po_channel po) [])) outs)"

definition publish_one :: "(nat \<Rightarrow> bool \<Rightarrow> topic_outcome) \<Rightarrow> nat \<Rightarrow> bool \<times> exn option" where
  "publish_one pub k =
     (if pub k False = TopicReturned True then (False, None)
      else (True, case pub k True of TopicReturned _ \<Rightarrow> None | TopicRaised e \<Rightarrow> Some e))"

definition publish_errors :: "(nat \<Rightarrow> bool \<Rightarrow> topic_outcome) \<Rightarrow> nat \<Rightarrow> exn list" where
  "publish_errors pub n = List.map_filter (\<lambda>k. snd (publish_one pub k)) [0..<n]"

definition parks :: "(nat \<Rightarrow> bool \<Rightarrow> topic_outcome) \<Rightarrow> nat \<Rightarrow> bool" where
  "parks pub n \<longleftrightarrow> list_ex (\<lambda>k. fst (publish_one pub k)) [0..<n]"

definition consume_output ::
  "(nat \<Rightarrow> bool \<Rightarrow> topic_outcome) \<Rightarrow> (string, string list) pydict \<Rightarrow> pipeline_output list \<Rightarrow> unit result" where
  "consume_output pub topics outs =
     (if publish_errors pub (length (publications topics outs)) = [] then Inr ()
      else Inl (PlainException ''Failed to process outputs''))"

text \<open>How the message context is left.\<close>

datatype context_exit = ContextOk | ContextError

definition process_results ::
  "(nat \<Rightarrow> bool \<Rightarrow> topic_outcome) \<Rightarrow> exn option \<Rightarrow> (string, string list) pydict \<Rightarrow> handled_error option \<Rightarrow>
     pipeline_results \<Rightarrow> context_exit" where
  "process_results pub events_error topics context_error r =
     (case consume_output pub topics (pr_outputs r) of
        Inl _ \<Rightarrow> ContextError
      | Inr _ \<Rightarrow> if events_error = None \<and> context_error = None then ContextOk else ContextError)"

text \<open>The body of \<open>run_queue\<close>, with the task it hands the results to.\<close>

definition message_end ::
  "(caught \<Rightarrow> handled_error option result) \<Rightarrow> (nat \<Rightarrow> bool \<Rightarrow> topic_outcome) \<Rightarrow> exn option \<Rightarrow>
     (string, string list) pydict \<Rightarrow> exec_outcome \<Rightarrow> context_exit" where
  "message_end handle pub events_error topics out =
     (case run_scope handle out of
        ScopeFailed \<Rightarrow> ContextError
      | ScopeResults r \<Rightarrow> process_results pub events_error topics None r
      | ScopeHandled e \<Rightarrow>
          process_results pub events_error topics (if he_handled e then None else Some e) (he_results e))"

text \<open>A publication that a topic has accepted, at once or after waiting.\<close>

definition accepted :: "(nat \<Rightarrow> bool \<Rightarrow> topic_outcome) \<Rightarrow> nat \<Rightarrow> bool" where
  "accepted pub k \<longleftrightarrow> pub k False = TopicReturned True \<or> (\<exists>b. pub k True = TopicReturned b)"

lemma publish_one_error: "snd (publish_one pub k) = None \<longleftrightarrow> accepted pub k"
  by (auto simp: publish_one_def accepted_def split: topic_outcome.split)

lemma publish_errors_empty: "publish_errors pub n = [] \<longleftrightarrow> (\<forall>k < n. accepted pub k)"
proof -
  have "List.map_filter f xs = [] \<longleftrightarrow> (\<forall>x \<in> set xs. f x = None)" for f :: "nat \<Rightarrow> exn option" and xs
    by (induction xs) (auto simp: map_filter_simps split: option.split)
  then show ?thesis by (auto simp: publish_errors_def publish_one_error)
qed

text \<open>The results whose publication decides: the pipeline's, or those of a handler that sets the error handled.\<close>

definition final_results :: "(caught \<Rightarrow> handled_error option result) \<Rightarrow> exec_outcome \<Rightarrow> pipeline_results option" where
  "final_results handle out =
     (case run_scope handle out of
        ScopeResults r \<Rightarrow> Some r
      | ScopeHandled e \<Rightarrow> if he_handled e then Some (he_results e) else None
      | ScopeFailed \<Rightarrow> None)"


text \<open>One output to two topics: the second accepts only when waited for, or never.\<close>

definition demo_outputs :: pipeline_results where
  "demo_outputs = \<lparr>pr_outputs = [\<lparr>po_channel = ''c'', po_message = new_topic_message ''1'' []\<rparr>],
     pr_resources = [], pr_events = []\<rparr>"

definition demo_publication :: "topic_outcome \<Rightarrow> nat \<Rightarrow> bool \<Rightarrow> topic_outcome" where
  "demo_publication late k w = (if k = 0 then TopicReturned True else if w then late else TopicReturned False)"


text \<open>An output to a channel without topics is published nowhere, and the message is acknowledged.\<close>

lemma unknown_channel_is_dropped:
  "dget topics (po_channel po) = None \<Longrightarrow>
     message_end handle pub None topics (ExecResults \<lparr>pr_outputs = [po], pr_resources = [], pr_events = []\<rparr>) = ContextOk"
  by (simp add: message_end_def run_scope_def process_results_def consume_output_def publications_def dget_or_def
      publish_errors_def map_filter_simps)

section \<open>Resources of a message\<close>

text \<open>\<open>attach_resources\<close>: the argument a pipeline gets for a resource of each type.\<close>

definition resource_argument :: "string \<Rightarrow> (string, pyval) pydict option \<Rightarrow> (string, pyval) pydict \<Rightarrow> (string, pyval) pydict" where
  "resource_argument name state data =
     dor [(''name'', PStr name), (''state'', case state of None \<Rightarrow> PNone | Some d \<Rightarrow> PDict d)] data"

text \<open>
  \<open>update_resources_used\<close> on the contexts by type; the states set are returned beside them. A type that
  the message does not hold raises, and what follows it is not applied.
\<close>

fun use_resources ::
  "resource_used list \<Rightarrow> (string, resource_context) pydict \<Rightarrow> (string \<times> (string, pyval) pydict) list \<Rightarrow>
     exn option \<times> (string, resource_context) pydict \<times> (string \<times> (string, pyval) pydict) list" where
  "use_resources [] cs sts = (None, cs, sts)"
| "use_resources (u # us) cs sts =
     (if ru_release_at u = None \<and> ru_state u = None then use_resources us cs sts
      else case dget cs (ru_type u) of
        None \<Rightarrow> (Some (KeyError (ru_type u)), cs, sts)
      | Some c \<Rightarrow>
          use_resources us
            (case ru_release_at u of None \<Rightarrow> cs | Some t \<Rightarrow> dset (ru_type u) (release_later t c) cs)
            (case ru_state u of None \<Rightarrow> sts | Some st \<Rightarrow> sts @ [(ru_type u, st)]))"

definition update_resources_used ::
  "resource_used list \<Rightarrow> (string, resource_context) pydict \<Rightarrow>
     exn option \<times> (string, resource_context) pydict \<times> (string \<times> (string, pyval) pydict) list" where
  "update_resources_used us cs = (if cs = [] then (None, [], []) else use_resources us cs [])"

text \<open>Leaving the executing context gives every resource back.\<close>

definition release_all :: "time \<Rightarrow> (string, resource_context) pydict \<Rightarrow> (nat \<times> time) list" where
  "release_all now cs = List.map_filter (\<lambda>(_, c). fst (context_release now c)) cs"

definition held_resources :: "(string, resource_context) pydict \<Rightarrow> nat list" where
  "held_resources cs = List.map_filter (\<lambda>(_, c). rc_resource c) cs"

lemma context_release_resource: "map_option fst (fst (context_release now c)) = rc_resource c"
  by (cases "rc_resource c") (simp_all add: context_release_def)

lemma release_all_held: "map fst (release_all now cs) = held_resources cs"
proof (induction cs)
  case (Cons p cs)
  obtain k c where p: "p = (k, c)" by (cases p)
  show ?case
    using Cons context_release_resource [of now c, symmetric]
    by (cases "fst (context_release now c)") (auto simp: p release_all_def held_resources_def map_filter_simps)
qed (simp add: release_all_def held_resources_def map_filter_simps)

lemma held_dset:
  "dget cs ty = Some c \<Longrightarrow> rc_resource c' = rc_resource c \<Longrightarrow> held_resources (dset ty c' cs) = held_resources cs"
proof (induction cs)
  case (Cons p cs)
  then show ?case
    by (cases p) (auto simp: held_resources_def map_filter_simps dset_def split: option.split)
qed simp

lemma use_resources_held:
  "held_resources (fst (snd (use_resources us cs sts))) = held_resources cs"
proof (induction us cs sts rule: use_resources.induct)
  case (2 u us cs sts)
  then show ?case
    by (auto simp: held_dset release_later_def split: option.split)
qed simp

text \<open>
  Whatever the pipeline reports, also a type it does not hold, the resources given back when the
  executing context is left are those that were attached, each once.
\<close>

lemma resources_given_back:
  "cs \<noteq> [] \<Longrightarrow> map fst (release_all now (fst (snd (update_resources_used us cs)))) = held_resources cs"
  by (simp add: update_resources_used_def release_all_held use_resources_held)

text \<open>A report on a resource that is not held cancels the delays reported after it.\<close>

lemma foreign_report_drops_delays:
  "update_resources_used [\<lparr>ru_type = ''X'', ru_release_at = Some 5, ru_state = None\<rparr>,
       \<lparr>ru_type = ''T'', ru_release_at = Some 100, ru_state = None\<rparr>] [(''T'', new_context 1)]
     = (Some (KeyError ''X''), [(''T'', new_context 1)], []) \<and>
   release_all 7 [(''T'', new_context 1)] = [(1, 7)]"
  by (simp add: update_resources_used_def release_all_def map_filter_simps context_release_def new_context_def
      time_truthy_def)

section \<open>Parkers\<close>

text \<open>
  The set of parkers of a queue and its one waiter, the queue's own generator: asleep in
  \<open>Condition.wait_for\<close>, and whether a \<open>notify\<close> has reached it since it fell asleep.
\<close>

record parkers =
  pk_parkers :: "nat list"
  pk_asleep :: bool
  pk_notified :: bool

definition new_parkers :: parkers where
  "new_parkers = \<lparr>pk_parkers = [], pk_asleep = False, pk_notified = False\<rparr>"

definition park :: "nat \<Rightarrow> parkers \<Rightarrow> parkers" where
  "park x p = p\<lparr>pk_parkers := List.insert x (pk_parkers p)\<rparr>"

definition unpark :: "nat \<Rightarrow> parkers \<Rightarrow> parkers" where
  "unpark x p = p\<lparr>pk_parkers := removeAll x (pk_parkers p), pk_notified := pk_asleep p \<or> pk_notified p\<rparr>"

definition parkers_locked :: "parkers \<Rightarrow> bool" where
  "parkers_locked p \<longleftrightarrow> pk_parkers p \<noteq> []"

text \<open>\<open>wait\<close> returns at once or falls asleep, and tests again each time it is woken.\<close>

definition parkers_test :: "parkers \<Rightarrow> bool \<times> parkers" where
  "parkers_test p = (\<not> parkers_locked p, p\<lparr>pk_asleep := parkers_locked p, pk_notified := False\<rparr>)"

datatype parker_event = EPark nat | EUnpark nat | EWait | EWoken

fun parker_step :: "parkers \<Rightarrow> parker_event \<Rightarrow> parkers" where
  "parker_step p (EPark x) = park x p"
| "parker_step p (EUnpark x) = unpark x p"
| "parker_step p EWait = (if pk_asleep p then p else snd (parkers_test p))"
| "parker_step p EWoken = (if pk_asleep p \<and> pk_notified p then snd (parkers_test p) else p)"

lemma sleeper_is_notified:
  "pk_asleep (foldl parker_step new_parkers es) \<and> \<not> pk_notified (foldl parker_step new_parkers es) \<Longrightarrow>
     parkers_locked (foldl parker_step new_parkers es)"
proof (induction es rule: rev_induct)
  case (snoc e es)
  then show ?case
    by (cases e) (auto simp: park_def unpark_def parkers_test_def parkers_locked_def List.insert_def split: if_splits)
qed (simp add: new_parkers_def)

text \<open>
  No wake-up is lost: as soon as the last parker has left, a waiter that sleeps has been notified,
  and its next test lets it go. While a parker is there the test does not.
\<close>

lemma parked_until_free:
  assumes "p = foldl parker_step new_parkers es"
  shows "(pk_asleep p \<and> \<not> parkers_locked p \<longrightarrow> pk_notified p) \<and> (fst (parkers_test p) \<longleftrightarrow> \<not> parkers_locked p)"
  using sleeper_is_notified [of es] assms by (auto simp: parkers_test_def)

section \<open>Submitting a message\<close>

datatype acquire_outcome =
    Acquired "(string, (string, pyval) pydict) pydict" \<comment> \<open>the arguments by type, as \<open>attach_resources\<close> builds them\<close>
  | Unavailable
  | AcquireRaised exn

definition acquire_resources :: "pipeline_message \<Rightarrow> acquire_outcome \<Rightarrow> bool result \<times> pipeline_message" where
  "acquire_resources pm out =
     (if missing_resources pm = [] then (Inr True, pm)
      else case out of
        Unavailable \<Rightarrow> (Inr False, pm)
      | AcquireRaised e \<Rightarrow> (Inl e, pm)
      | Acquired given \<Rightarrow>
          (case update_with_resources given pm of
             (Some e, pm') \<Rightarrow> (Inl e, pm')
           | (None, pm') \<Rightarrow> (Inr True, pm')))"

datatype submit_end = Queued | Delayed | SubmitRaised exn

definition submit :: "nat \<Rightarrow> acquire_outcome \<Rightarrow> pipeline_message \<Rightarrow> parkers \<Rightarrow> submit_end \<times> pipeline_message \<times> parkers" where
  "submit x out pm p =
     (case acquire_resources pm out of
        (Inl e, pm') \<Rightarrow> (SubmitRaised e, pm', p)
      | (Inr True, pm') \<Rightarrow> (Queued, pm', p)
      | (Inr False, pm') \<Rightarrow> (Delayed, pm', park x p))"

definition delayed_submit :: "nat \<Rightarrow> acquire_outcome \<Rightarrow> pipeline_message \<Rightarrow> parkers \<Rightarrow> submit_end \<times> pipeline_message \<times> parkers" where
  "delayed_submit x out pm p =
     (case acquire_resources pm out of
        (Inl e, pm') \<Rightarrow> (SubmitRaised e, pm', unpark x p)
      | (Inr _, pm') \<Rightarrow> (Queued, pm', unpark x p))"

text \<open>\<open>acquire_many\<close> answers with a context for each type it was asked for, and does not give up when it waits.\<close>

definition acquire_promise :: "pipeline_message \<Rightarrow> acquire_outcome \<Rightarrow> bool" where
  "acquire_promise pm out \<longleftrightarrow>
     (case out of Acquired given \<Rightarrow> list_all (\<lambda>ty. dhas ty given) (missing_resources pm) | _ \<Rightarrow> True)"

lemma acquire_resources_complete:
  assumes "acquire_resources pm out = (Inr True, pm')" and "acquire_promise pm out"
  shows "missing_resources pm' = []"
proof (cases "missing_resources pm = []")
  case True
  with assms show ?thesis by (simp add: acquire_resources_def)
next
  case False
  then obtain given where out: "out = Acquired given" and u: "update_with_resources given pm = (None, pm')"
    using assms(1) by (auto simp: acquire_resources_def split: acquire_outcome.splits prod.splits option.splits)
  have "\<forall>(name, ty) \<in> set (pi_resources (pm_info pm)). has_arg name pm \<or> dhas ty given"
    using assms(2) by (force simp: out acquire_promise_def missing_resources_def list_all_iff)
  from fill_resources_ok [OF this] u show ?thesis
    by (force simp: update_with_resources_def missing_resources_def filter_empty_conv)
qed

text \<open>A message that is queued, at once or after a delay, holds all its resources, and its queue is not left parked.\<close>

lemma queued_message_is_complete:
  assumes "acquire_promise pm out" and "submit x out pm p = (Queued, pm', p')"
  shows "missing_resources pm' = [] \<and> p' = p"
  using assms by (auto simp: submit_def intro: acquire_resources_complete split: prod.splits sum.splits bool.splits)

lemma delayed_message_is_complete:
  assumes "acquire_promise pm out" and "out \<noteq> Unavailable" and "delayed_submit x out pm p = (r, pm', p')"
  shows "(r = Queued \<longrightarrow> missing_resources pm' = []) \<and> x \<notin> set (pk_parkers p')"
proof
  show "x \<notin> set (pk_parkers p')"
    using assms(3) by (auto simp: delayed_submit_def unpark_def split: prod.splits sum.splits)
  have "acquire_resources pm out = (Inr True, pm')" if "r = Queued"
    using assms(2,3) that
    by (auto simp: delayed_submit_def acquire_resources_def
        split: prod.splits sum.splits acquire_outcome.splits if_splits option.splits)
  then show "r = Queued \<longrightarrow> missing_resources pm' = []"
    using acquire_resources_complete assms(1) by blast
qed

end
