(* ===== verification/Queue_Closing.thy ===== *)
theory Queue_Closing
  imports Prelude
begin

text \<open>
  The life of an \<open>ExecutableQueue\<close> (\<open>worker/executors/executable.py\<close>): its generator \<open>run\<close> hands
  messages out, the executor leaves their contexts in any order and at any time, and \<open>close\<close> keeps
  the output topics open until the messages in flight are done.

  The interleaving is an inductive step relation. Messages are numbered in the order they are
  yielded; \<open>xq_exited\<close> and \<open>xq_thrown\<close> record which ended how and are read by no operation.
\<close>

section \<open>State and operations\<close>

datatype xq_phase =
    XRunning
  | XClosingTopic \<comment> \<open>\<open>is_closed\<close> is set, \<open>topic.close()\<close> is awaited\<close>
  | XWaiting \<comment> \<open>\<open>done.wait()\<close>\<close>
  | XClosed \<comment> \<open>the outputs are closed\<close>

record exec_queue =
  xq_phase :: xq_phase
  xq_pending :: int
  xq_closed :: bool
  xq_done :: bool
  xq_next :: nat
  xq_at_yield :: "nat option"
  xq_processed :: "nat list"
  xq_exited :: "nat list"
  xq_thrown :: "nat option"

definition new_exec_queue :: exec_queue where
  "new_exec_queue = \<lparr>xq_phase = XRunning, xq_pending = 0, xq_closed = False, xq_done = False, xq_next = 0,
     xq_at_yield = None, xq_processed = [], xq_exited = [], xq_thrown = None\<rparr>"

definition message_processed :: "exec_queue \<Rightarrow> exec_queue" where
  "message_processed s =
     s\<lparr>xq_pending := xq_pending s - 1, xq_done := xq_done s \<or> (xq_closed s \<and> xq_pending s - 1 = 0)\<rparr>"

text \<open>\<open>if not processed: self.message_processed()\<close> with the flag of one message.\<close>

definition mark_processed :: "nat \<Rightarrow> exec_queue \<Rightarrow> exec_queue" where
  "mark_processed m s =
     (if m \<in> set (xq_processed s) then s else (message_processed s)\<lparr>xq_processed := m # xq_processed s\<rparr>)"

text \<open>Entering \<open>pending_context\<close> and yielding; coming back from the yield leaves it without an effect.\<close>

definition hand_out :: "exec_queue \<Rightarrow> exec_queue" where
  "hand_out s = s\<lparr>xq_pending := xq_pending s + 1, xq_next := xq_next s + 1, xq_at_yield := Some (xq_next s)\<rparr>"

definition close_begin :: "exec_queue \<Rightarrow> exec_queue" where
  "close_begin s = (if xq_closed s then s else s\<lparr>xq_phase := XClosingTopic, xq_closed := True\<rparr>)"

definition message_exit :: "nat \<Rightarrow> exec_queue \<Rightarrow> exec_queue" where
  "message_exit m s = (let s = mark_processed m s in s\<lparr>xq_exited := m # xq_exited s\<rparr>)"

definition throw_at_yield :: "nat \<Rightarrow> exec_queue \<Rightarrow> exec_queue" where
  "throw_at_yield m s = close_begin ((mark_processed m s)\<lparr>xq_at_yield := None, xq_thrown := Some m\<rparr>)"

definition wait_for_done :: "exec_queue \<Rightarrow> exec_queue" where
  "wait_for_done s = s\<lparr>xq_phase := (if xq_pending s \<noteq> 0 then XWaiting else XClosed)\<rparr>"

inductive xq_step :: "exec_queue \<Rightarrow> exec_queue \<Rightarrow> bool" where
  Hand_out: "xq_phase s = XRunning \<Longrightarrow> xq_at_yield s = None \<Longrightarrow> xq_step s (hand_out s)"
| Resume: "xq_at_yield s = Some m \<Longrightarrow> xq_step s (s\<lparr>xq_at_yield := None\<rparr>)"
| Exit: "m < xq_next s \<Longrightarrow> m \<notin> set (xq_exited s) \<Longrightarrow> xq_step s (message_exit m s)"
| Throw: "xq_at_yield s = Some m \<Longrightarrow> xq_step s (throw_at_yield m s)"
| Source_end: "xq_phase s = XRunning \<Longrightarrow> xq_at_yield s = None \<Longrightarrow> xq_step s (close_begin s)"
| Topic_closed: "xq_phase s = XClosingTopic \<Longrightarrow> xq_step s (wait_for_done s)"
| Done: "xq_phase s = XWaiting \<Longrightarrow> xq_done s \<Longrightarrow> xq_step s (s\<lparr>xq_phase := XClosed\<rparr>)"

inductive xq_reachable :: "exec_queue \<Rightarrow> bool" where
  Start: "xq_reachable new_exec_queue"
| Step: "xq_reachable s \<Longrightarrow> xq_step s t \<Longrightarrow> xq_reachable t"

section \<open>The invariant\<close>

text \<open>The messages that have ended, by their context or by an exception at the yield.\<close>

definition ended :: "exec_queue \<Rightarrow> nat set" where
  "ended s = set (xq_exited s) \<union> set_option (xq_thrown s)"

definition count_inv :: "exec_queue \<Rightarrow> bool" where
  "count_inv s \<longleftrightarrow>
     xq_pending s = int (xq_next s) - int (List.length (xq_processed s)) \<and> distinct (xq_processed s) \<and>
     set (xq_processed s) = ended s \<and> ended s \<subseteq> {..<xq_next s} \<and>
     (\<forall>m. xq_at_yield s = Some m \<longrightarrow> m < xq_next s \<and> xq_phase s = XRunning)"

definition phase_inv :: "exec_queue \<Rightarrow> bool" where
  "phase_inv s \<longleftrightarrow>
     (xq_closed s \<longleftrightarrow> xq_phase s \<noteq> XRunning) \<and> (xq_done s \<longrightarrow> xq_pending s = 0 \<and> xq_closed s) \<and>
     (xq_phase s = XWaiting \<and> xq_pending s = 0 \<longrightarrow> xq_done s) \<and> (xq_phase s = XClosed \<longrightarrow> xq_pending s = 0) \<and>
     (xq_thrown s \<noteq> None \<longrightarrow> xq_closed s)"

lemma count_inv_mark:
  assumes "count_inv s" and "m < xq_next s"
  shows "xq_pending (mark_processed m s) = int (xq_next s) - int (List.length (xq_processed (mark_processed m s)))"
    and "distinct (xq_processed (mark_processed m s))"
    and "set (xq_processed (mark_processed m s)) = insert m (ended s)"
  using assms by (auto simp: count_inv_def mark_processed_def message_processed_def)

lemma mark_processed_keeps [simp]:
  "xq_next (mark_processed m s) = xq_next s" "xq_at_yield (mark_processed m s) = xq_at_yield s"
  "xq_phase (mark_processed m s) = xq_phase s" "xq_closed (mark_processed m s) = xq_closed s"
  "xq_exited (mark_processed m s) = xq_exited s" "xq_thrown (mark_processed m s) = xq_thrown s"
  by (simp_all add: mark_processed_def message_processed_def)

lemma pending_positive:
  assumes "count_inv s" and "m < xq_next s" and "m \<notin> set (xq_processed s)"
  shows "0 < xq_pending s"
proof -
  have "set (xq_processed s) \<subset> {..<xq_next s}" using assms by (auto simp: count_inv_def)
  then have "card (set (xq_processed s)) < xq_next s" by (metis card_lessThan finite_lessThan psubset_card_mono)
  then have "List.length (xq_processed s) < xq_next s" using assms(1) distinct_card by (metis count_inv_def)
  with assms(1) show ?thesis by (simp add: count_inv_def)
qed

lemma phase_inv_mark:
  assumes "count_inv s" and "phase_inv s" and "m < xq_next s"
  shows "phase_inv (mark_processed m s)"
proof (cases "m \<in> set (xq_processed s)")
  case True
  with assms show ?thesis by (simp add: mark_processed_def)
next
  case False
  with pending_positive assms have "0 < xq_pending s" by blast
  with False assms(2) show ?thesis by (auto simp: phase_inv_def mark_processed_def message_processed_def)
qed

lemma xq_step_inv:
  assumes "xq_step s t" and "count_inv s" and "phase_inv s" and "xq_thrown s \<noteq> None \<longrightarrow> xq_at_yield s = None"
  shows "count_inv t \<and> phase_inv t \<and> (xq_thrown t \<noteq> None \<longrightarrow> xq_at_yield t = None)"
  using assms(1)
proof cases
  case Hand_out
  with assms show ?thesis by (auto simp: hand_out_def count_inv_def phase_inv_def ended_def)
next
  case (Resume m)
  with assms show ?thesis by (auto simp: count_inv_def phase_inv_def ended_def)
next
  case (Exit m)
  let ?s = "mark_processed m s"
  have t: "t = ?s\<lparr>xq_exited := m # xq_exited s\<rparr>" using Exit(1) by (simp add: message_exit_def Let_def)
  have "ended t = insert m (ended s)" by (auto simp: t ended_def)
  then have "count_inv t" using count_inv_mark [OF assms(2) Exit(2)] assms(2) Exit(2) by (auto simp: count_inv_def t)
  moreover have "phase_inv t" using phase_inv_mark [OF assms(2,3) Exit(2)] by (auto simp: t phase_inv_def)
  ultimately show ?thesis using assms(4) by (simp add: t)
next
  case (Throw m)
  have m: "m < xq_next s" "xq_phase s = XRunning" "xq_thrown s = None"
    using Throw(2) assms(2,4) by (auto simp: count_inv_def)
  have c: "\<not> xq_closed s" using assms(3) m(2) by (simp add: phase_inv_def)
  let ?s = "mark_processed m s"
  have t: "t = ?s\<lparr>xq_phase := XClosingTopic, xq_closed := True, xq_at_yield := None, xq_thrown := Some m\<rparr>"
    using Throw(1) c by (simp add: throw_at_yield_def close_begin_def)
  have "ended t = insert m (ended s)" using m(3) by (auto simp: t ended_def)
  then have "count_inv t" using count_inv_mark [OF assms(2) m(1)] assms(2) m(1) by (auto simp: count_inv_def t)
  moreover have "phase_inv t" using phase_inv_mark [OF assms(2,3) m(1)] by (auto simp: t phase_inv_def)
  ultimately show ?thesis by (simp add: t)
next
  case Source_end
  with assms show ?thesis by (auto simp: close_begin_def count_inv_def phase_inv_def ended_def)
next
  case Topic_closed
  with assms show ?thesis by (auto simp: wait_for_done_def count_inv_def phase_inv_def ended_def)
next
  case Done
  with assms show ?thesis by (auto simp: count_inv_def phase_inv_def ended_def)
qed

lemma xq_reachable_inv:
  "xq_reachable s \<Longrightarrow> count_inv s \<and> phase_inv s \<and> (xq_thrown s \<noteq> None \<longrightarrow> xq_at_yield s = None)"
proof (induction rule: xq_reachable.induct)
  case Start
  then show ?case by (simp add: new_exec_queue_def count_inv_def phase_inv_def ended_def)
next
  case (Step s t)
  then show ?case using xq_step_inv by blast
qed

lemma pending_zero:
  assumes "count_inv s"
  shows "xq_pending s = 0 \<longleftrightarrow> ended s = {..<xq_next s}"
proof
  assume "xq_pending s = 0"
  then have "card (ended s) = xq_next s" using assms distinct_card [of "xq_processed s"] by (simp add: count_inv_def)
  then show "ended s = {..<xq_next s}" using assms by (intro card_subset_eq) (auto simp: count_inv_def)
next
  assume "ended s = {..<xq_next s}"
  then have "List.length (xq_processed s) = xq_next s"
    using assms distinct_card [of "xq_processed s"] by (simp add: count_inv_def)
  then show "xq_pending s = 0" using assms by (simp add: count_inv_def)
qed

section \<open>Properties\<close>

text \<open>
  C17: outputs stay open for the messages in flight, and closing does not hang. Whatever the
  interleaving, once the output topics are closed every message ever handed out has been left by
  its context, the one at whose yield the generator was thrown into excepted; and a \<open>close\<close> that
  waits while no other message is in flight has been woken.
\<close>

theorem outputs_outlive_messages:
  assumes "xq_reachable s"
  shows "(xq_phase s = XClosed \<longrightarrow> (\<forall>m < xq_next s. m \<in> set (xq_exited s) \<or> xq_thrown s = Some m)) \<and>
    (xq_phase s = XWaiting \<and> (\<forall>m < xq_next s. m \<in> set (xq_exited s) \<or> xq_thrown s = Some m) \<longrightarrow> xq_done s)"
proof -
  have inv: "count_inv s" "phase_inv s" using xq_reachable_inv [OF assms] by blast+
  have "(\<forall>m < xq_next s. m \<in> set (xq_exited s) \<or> xq_thrown s = Some m) \<longleftrightarrow> ended s = {..<xq_next s}"
    using inv(1) by (auto simp: count_inv_def ended_def)
  with pending_zero [OF inv(1)] inv(2) show ?thesis by (simp add: phase_inv_def)
qed

text \<open>Two messages are handed out and the source ends; closing waits for both.\<close>

definition demo_closing :: exec_queue where
  "demo_closing = wait_for_done (message_exit 1 (close_begin
     ((hand_out ((hand_out new_exec_queue)\<lparr>xq_at_yield := None\<rparr>))\<lparr>xq_at_yield := None\<rparr>)))"

lemmas xq_defs = new_exec_queue_def hand_out_def close_begin_def message_exit_def mark_processed_def
  message_processed_def wait_for_done_def throw_at_yield_def

lemma demo_closing_reachable: "xq_reachable demo_closing"
  unfolding demo_closing_def
  by (intro Start Step [OF _ Topic_closed] Step [OF _ Exit] Step [OF _ Source_end] Step [OF _ Resume]
      Step [OF _ Hand_out]) (simp_all add: xq_defs)

lemma outputs_outlive_messages_witness:
  "xq_phase demo_closing = XWaiting \<and> \<not> xq_done demo_closing \<and> xq_done (message_exit 0 demo_closing) \<and>
   (\<exists>m < xq_next demo_closing. m \<notin> set (xq_exited demo_closing))"
proof -
  have s: "xq_phase demo_closing = XWaiting" "\<not> xq_done demo_closing" "xq_phase (message_exit 0 demo_closing) = XWaiting"
    "xq_next (message_exit 0 demo_closing) = 2" "set (xq_exited (message_exit 0 demo_closing)) = {0, 1}"
    by (simp_all add: demo_closing_def xq_defs Let_def insert_commute)
  have "xq_reachable (message_exit 0 demo_closing)"
    by (rule Step [OF demo_closing_reachable Exit]) (simp_all add: demo_closing_def xq_defs)
  from outputs_outlive_messages [OF this] s(3,4,5) have "xq_done (message_exit 0 demo_closing)" by (auto simp: less_2_cases_iff)
  moreover from outputs_outlive_messages [OF demo_closing_reachable] s(1,2)
  have "\<exists>m < xq_next demo_closing. m \<notin> set (xq_exited demo_closing)" by blast
  ultimately show ?thesis using s(1,2) by blast
qed

text \<open>
  The exception: the scheduler stops a queue by \<open>aclose\<close>, which throws at the yield whose message it
  has just passed on. That message counts as processed, and the outputs are closed under it.
\<close>

definition demo_removed_queue :: exec_queue where
  "demo_removed_queue = wait_for_done (throw_at_yield 0 (hand_out new_exec_queue))"

lemma aclose_forgets_message:
  "xq_reachable demo_removed_queue \<and> xq_phase demo_removed_queue = XClosed \<and> xq_exited demo_removed_queue = []"
proof
  show "xq_reachable demo_removed_queue"
    unfolding demo_removed_queue_def
    by (intro Start Step [OF _ Topic_closed] Step [OF _ Throw] Step [OF _ Hand_out]) (simp_all add: xq_defs)
qed (simp add: demo_removed_queue_def xq_defs)

end
