(* ===== verification/Config_Layers.thy ===== *)
theory Config_Layers
  imports Prelude
begin

text \<open>
  Layered, typed configuration: \<open>utils/config.py\<close> (\<open>Config\<close>, \<open>LazyConfig\<close> and the functions below
  them) and \<open>CINamespace\<close> of \<open>utils/__init__.py\<close>.

  A layer is a module, class, instance or mapping; an interface is a class whose annotations and
  attributes say which keys exist, of which type, with which default. Attributes are listed in the
  order of \<open>dir\<close>. Annotations are evaluated already, classes have no subclasses, and a value that is
  neither a mapping nor an object offers no attribute as a layer.
\<close>

section \<open>Values, types and interfaces\<close>

datatype cval =
    CNone
  | CBool bool
  | CInt int
  | CFloat string \<comment> \<open>its text\<close>
  | CStr string
  | CList "cval list"
  | CTuple "cval list"
  | CDict "(string \<times> cval) list"
  | CEnum string string
  | CObj "string option" "(string \<times> cval) list" \<comment> \<open>an instance of a class, or a class or module\<close>

datatype ctyp =
    TStr
  | TInt
  | TFloat
  | TBool
  | TNoneType
  | TAny
  | TVar
  | TUnion "ctyp list"
  | TList "ctyp option"
  | TDict "(ctyp \<times> ctyp) option"
  | TTuple "ctyp list"
  | TEnum string
  | TClass string "ifield list"
and ifield = IField string "ctyp option" "ivalue option" "cval option"
  \<comment> \<open>name, annotation, class attribute, default of a dataclass field\<close>
and ivalue = IVal cval | IClass ctyp

text \<open>A namespace holds values and namespaces; \<open>NMissing\<close> is the sentinel \<open>_MISSING\<close>.\<close>

datatype cns = NVal cval | NMissing | NSpace "(string \<times> cns) list"

type_synonym space = "(string, cns) pydict"

definition lower :: "string \<Rightarrow> string" where
  "lower s = map (\<lambda>c. if CHR ''A'' \<le> c \<and> c \<le> CHR ''Z'' then char_of (of_char c + 32 :: nat) else c) s"

section \<open>Checking a value against a type\<close>

fun type_of :: "cval \<Rightarrow> ctyp" where
  "type_of CNone = TNoneType"
| "type_of (CBool _) = TBool"
| "type_of (CInt _) = TInt"
| "type_of (CFloat _) = TFloat"
| "type_of (CStr _) = TStr"
| "type_of (CList _) = TList None"
| "type_of (CTuple _) = TTuple []"
| "type_of (CDict _) = TDict None"
| "type_of (CEnum e _) = TEnum e"
| "type_of (CObj (Some c) _) = TClass c []"
| "type_of (CObj None _) = TClass ''type'' []"

text \<open>\<open>isinstance\<close> of the type without its arguments; a boolean is an \<open>int\<close>.\<close>

fun is_instance :: "cval \<Rightarrow> ctyp \<Rightarrow> bool" where
  "is_instance v (TClass c _) = (case v of CObj (Some c') _ \<Rightarrow> c = c' | _ \<Rightarrow> False)"
| "is_instance v (TList _) = (case v of CList _ \<Rightarrow> True | _ \<Rightarrow> False)"
| "is_instance v (TDict _) = (case v of CDict _ \<Rightarrow> True | _ \<Rightarrow> False)"
| "is_instance v (TTuple _) = (case v of CTuple _ \<Rightarrow> True | _ \<Rightarrow> False)"
| "is_instance v TInt = (case v of CInt _ \<Rightarrow> True | CBool _ \<Rightarrow> True | _ \<Rightarrow> False)"
| "is_instance v t = (type_of v = t)"

fun check_type :: "ctyp \<Rightarrow> cval \<Rightarrow> bool" where
  "check_type TAny v = True"
| "check_type (TUnion ts) v = list_ex (\<lambda>t. check_type t v) ts"
| "check_type TFloat v = (case v of CFloat _ \<Rightarrow> True | CInt _ \<Rightarrow> True | CBool _ \<Rightarrow> True | _ \<Rightarrow> False)"
| "check_type TVar v = True"
| "check_type (TList (Some t)) v = (case v of CList vs \<Rightarrow> list_all (check_type t) vs | _ \<Rightarrow> False)"
| "check_type (TTuple [t]) v = (case v of CTuple vs \<Rightarrow> list_all (check_type t) vs | _ \<Rightarrow> False)"
| "check_type (TDict (Some (k, t))) v =
     (case v of CDict kvs \<Rightarrow> list_all (\<lambda>(n, w). check_type k (CStr n) \<and> check_type t w) kvs | _ \<Rightarrow> False)"
| "check_type t v = is_instance v t"

fun is_leaf_type :: "ctyp \<Rightarrow> bool result" where
  "is_leaf_type TVar = Inl (TypeError ''issubclass() arg 1 must be a class'')"
| "is_leaf_type TNoneType = Inr False"
| "is_leaf_type (TClass _ _) = Inr False"
| "is_leaf_type _ = Inr True"

section \<open>Reading layers\<close>

text \<open>\<open>get_attr\<close>: the keys are compared lower-cased, the name is not; of equal keys the last one counts.\<close>

definition lookup_ci :: "(string \<times> 'v) list \<Rightarrow> string \<Rightarrow> 'v option" where
  "lookup_ci attrs name = map_of (rev (map (\<lambda>(k, v). (lower k, v)) attrs)) name"

fun get_attr :: "cval \<Rightarrow> string \<Rightarrow> cval option" where
  "get_attr (CDict kvs) name = lookup_ci kvs name"
| "get_attr (CObj _ attrs) name = lookup_ci attrs name"
| "get_attr _ name = None"

definition sublayers :: "cval list \<Rightarrow> string \<Rightarrow> cval list" where
  "sublayers layers name = List.map_filter (\<lambda>l. get_attr l name) layers"

fun first_attr :: "cval list \<Rightarrow> string \<Rightarrow> cval option" where
  "first_attr [] name = None"
| "first_attr (l # ls) name = (case get_attr l name of Some v \<Rightarrow> Some v | None \<Rightarrow> first_attr ls name)"

definition get_config_value :: "cval list \<Rightarrow> string \<Rightarrow> cval option \<Rightarrow> cval option" where
  "get_config_value layers name default_value =
     (case first_attr (rev layers) name of Some v \<Rightarrow> Some v | None \<Rightarrow> default_value)"

section \<open>Loading an interface\<close>

text \<open>A key of an interface with its type, the class attribute, and the default of a dataclass field.\<close>

record iprop =
  ip_name :: string
  ip_type :: ctyp
  ip_value :: "cval option"
  ip_default :: "cval option"

definition get_prop_type :: "ctyp option \<Rightarrow> ivalue option \<Rightarrow> ctyp" where
  "get_prop_type annotation value =
     (case annotation of
        Some t \<Rightarrow> t
      | None \<Rightarrow>
          (case value of
             Some (IClass t) \<Rightarrow> t
           | Some (IVal v) \<Rightarrow> if v = CNone then TStr else type_of v
           | None \<Rightarrow> TStr))"

text \<open>A class as the value of a leaf is an object without the attributes that matter here.\<close>

definition plain_value :: "ivalue option \<Rightarrow> cval option" where
  "plain_value value = map_option (\<lambda>iv. case iv of IVal v \<Rightarrow> v | IClass _ \<Rightarrow> CObj None []) value"

definition iface_attr :: "ifield list \<Rightarrow> string \<Rightarrow> ivalue option" where
  "iface_attr fs name =
     lookup_ci (List.map_filter (\<lambda>f. case f of IField n _ v _ \<Rightarrow> map_option (Pair n) v) fs) name"

definition iface_prop :: "ifield list \<Rightarrow> ifield \<Rightarrow> iprop" where
  "iface_prop fs f =
     (case f of IField n ann _ dflt \<Rightarrow>
        \<lparr>ip_name = n, ip_type = get_prop_type ann (iface_attr fs n), ip_value = plain_value (iface_attr fs n),
         ip_default = dflt\<rparr>)"

fun fields_of :: "ctyp \<Rightarrow> ifield list" where
  "fields_of (TClass _ fs) = fs"
| "fields_of _ = []"

definition hidden :: "iprop \<Rightarrow> bool" where
  "hidden p \<longleftrightarrow> (case ip_name p of [] \<Rightarrow> False | c # _ \<Rightarrow> c = CHR ''_'')"

definition props :: "ctyp \<Rightarrow> iprop list" where
  "props t = filter (\<lambda>p. \<not> hidden p) (map (iface_prop (fields_of t)) (fields_of t))"

definition leaf_value :: "cval list \<Rightarrow> iprop \<Rightarrow> cval option" where
  "leaf_value layers p =
     (case get_config_value layers (ip_name p) (ip_value p) of Some v \<Rightarrow> Some v | None \<Rightarrow> ip_default p)"

definition key_path :: "string \<Rightarrow> string \<Rightarrow> string" where
  "key_path path name = (if path = [] then name else path @ ''.'' @ name)"

definition load_leaf :: "cval list \<Rightarrow> string \<Rightarrow> iprop \<Rightarrow> space \<Rightarrow> space result" where
  "load_leaf layers path p config =
     (case leaf_value layers p of
        None \<Rightarrow>
          if dhas (ip_name p) config then Inr (dset (lower (ip_name p)) NMissing config)
          else Inl (ValueError (''Missing config key '' @ key_path path (ip_name p)))
      | Some v \<Rightarrow>
          if check_type (ip_type p) v then Inr (dset (lower (ip_name p)) (NVal v) config)
          else Inl (ValueError (''Invalid config key '' @ key_path path (ip_name p))))"

text \<open>\<open>config.setdefault(name, CINamespace())\<close>; a key that holds a value cannot be filled like a namespace.\<close>

definition subspace :: "string \<Rightarrow> space \<Rightarrow> space result" where
  "subspace name config =
     (case dget config (lower name) of
        None \<Rightarrow> Inr []
      | Some (NSpace d) \<Rightarrow> Inr d
      | Some _ \<Rightarrow> Inl (TypeError ''item assignment''))"

definition class_size :: "ctyp \<Rightarrow> nat" where
  "class_size t = (case t of TClass _ fs \<Rightarrow> Suc (size_list size fs) | _ \<Rightarrow> 0)"

lemma class_size_le: "class_size t \<le> size t"
  by (cases t) (simp_all add: class_size_def)

lemma class_size_type_of: "class_size (type_of v) \<le> 1"
  by (cases v rule: type_of.cases) (simp_all add: class_size_def)

lemma size_list_member: "x \<in> set xs \<Longrightarrow> size x < size_list size xs"
  by (induction xs) auto

lemma iface_attr_field:
  assumes "iface_attr fs n = Some v"
  shows "\<exists>m ann dflt. IField m ann (Some v) dflt \<in> set fs"
proof -
  have "\<exists>k. (k, v) \<in> set (List.map_filter (\<lambda>f. case f of IField n _ v _ \<Rightarrow> map_option (Pair n) v) fs)"
    using assms by (auto simp: iface_attr_def lookup_ci_def dest!: map_of_SomeD)
  then show ?thesis by (auto simp: map_filter_def split: ifield.splits) (metis option.exhaust_sel)
qed

lemma class_size_prop_type:
  assumes "f \<in> set fs" and "f = IField n ann v dflt"
  shows "class_size (get_prop_type ann (iface_attr fs n)) < Suc (size_list size fs)"
proof -
  have f: "size f < size_list size fs" by (rule size_list_member [OF assms(1)])
  show ?thesis
  proof (cases ann)
    case (Some t)
    then have "size t < size f" by (simp add: assms(2))
    with f class_size_le [of t] Some show ?thesis by (simp add: get_prop_type_def)
  next
    case None
    show ?thesis
    proof (cases "\<exists>t. iface_attr fs n = Some (IClass t)")
      case True
      then obtain t m a d where a: "iface_attr fs n = Some (IClass t)" "IField m a (Some (IClass t)) d \<in> set fs"
        using iface_attr_field by blast
      have "size t < size (IField m a (Some (IClass t)) d)" by simp
      with size_list_member [OF a(2)] class_size_le [of t] None a(1) show ?thesis by (simp add: get_prop_type_def)
    next
      case False
      have "class_size (get_prop_type None (iface_attr fs n)) \<le> 1"
        using False class_size_type_of
        by (auto simp: get_prop_type_def class_size_def split: option.split ivalue.split)
      with f None show ?thesis by simp
    qed
  qed
qed

lemma class_size_field:
  assumes "p \<in> set (props t)"
  shows "class_size (ip_type p) < class_size t"
proof -
  obtain f where f: "f \<in> set (fields_of t)" "p = iface_prop (fields_of t) f"
    using assms by (auto simp: props_def)
  then obtain c where "t = TClass c (fields_of t)" by (cases t) auto
  with class_size_prop_type [OF f(1)] f(2) show ?thesis
    by (cases f) (auto simp: class_size_def iface_prop_def split: ctyp.split)
qed

definition props_size :: "iprop list \<Rightarrow> nat" where
  "props_size ps = foldr (\<lambda>p m. max (Suc (class_size (ip_type p))) m) ps 0"

lemma props_size_props: "props_size (props t) \<le> class_size t"
proof -
  have "props_size ps \<le> n" if "\<forall>p \<in> set ps. class_size (ip_type p) < n" for ps n
    using that by (induction ps) (auto simp: props_size_def)
  with class_size_field show ?thesis by blast
qed

function load_props :: "cval list \<Rightarrow> string \<Rightarrow> iprop list \<Rightarrow> space \<Rightarrow> space result" where
  "load_props layers path [] config = Inr config"
| "load_props layers path (p # ps) config =
     rbind
       (case is_leaf_type (ip_type p) of
          Inl e \<Rightarrow> Inl e
        | Inr leaf \<Rightarrow>
            if leaf then load_leaf layers path p config
            else rbind (subspace (ip_name p) config) (\<lambda>d.
              rbind (load_props (sublayers layers (ip_name p)) (key_path path (ip_name p)) (props (ip_type p)) d) (\<lambda>d'.
                Inr (dset (lower (ip_name p)) (NSpace d') config))))
       (\<lambda>config'. load_props layers path ps config')"
  by pat_completeness auto
termination
proof (relation "measures [\<lambda>(_, _, ps, _). props_size ps, \<lambda>(_, _, ps, _). List.length ps]", goal_cases)
  case (2 layers path p ps config b x)
  have "props_size (props (ip_type p)) < props_size (p # ps)"
    using props_size_props [of "ip_type p"] by (simp add: props_size_def)
  then show ?case by simp
next
  case (3 layers path p ps config x)
  have "props_size ps \<le> props_size (p # ps)" by (simp add: props_size_def)
  then show ?case by auto
qed simp

definition load_config_interface :: "ctyp \<Rightarrow> cval list \<Rightarrow> space \<Rightarrow> space result" where
  "load_config_interface interface layers config = load_props layers [] (props interface) config"

fun load_config :: "cval list \<Rightarrow> (string \<times> ctyp) list \<Rightarrow> space \<Rightarrow> space result" where
  "load_config layers [] config = Inr config"
| "load_config layers ((namespace, interface) # is) config =
     rbind
       (if namespace = [] then load_config_interface interface layers config
        else rbind (subspace namespace config) (\<lambda>d.
          rbind (load_config_interface interface (sublayers layers namespace) d) (\<lambda>d'.
            Inr (dset (lower namespace) (NSpace d') config))))
       (load_config layers is)"

section \<open>\<open>Config\<close>\<close>

record config =
  cf_layers :: "cval list"
  cf_interfaces :: "(string, ctyp) pydict"
  cf_space :: space

definition new_config :: config where
  "new_config = \<lparr>cf_layers = [], cf_interfaces = [], cf_space = []\<rparr>"

definition config_copy :: "config \<Rightarrow> config" where
  "config_copy c = new_config\<lparr>cf_layers := cf_layers c, cf_interfaces := cf_interfaces c\<rparr>"

definition refresh :: "config \<Rightarrow> config result" where
  "refresh c = rbind (load_config (cf_layers c) (cf_interfaces c) (cf_space c)) (\<lambda>d. Inr (c\<lparr>cf_space := d\<rparr>))"

text \<open>An object given by name is imported; \<open>import_name\<close> is an argument.\<close>

definition object_layer :: "(string \<Rightarrow> cval) \<Rightarrow> cval \<Rightarrow> cval option" where
  "object_layer import_name obj =
     (case obj of CNone \<Rightarrow> None | CStr s \<Rightarrow> Some (import_name s) | _ \<Rightarrow> Some obj)"

definition load_objects :: "(string \<Rightarrow> cval) \<Rightarrow> cval list \<Rightarrow> config \<Rightarrow> config result" where
  "load_objects import_name objs c =
     (let c' = config_copy c
      in refresh (c'\<lparr>cf_layers := cf_layers c' @ List.map_filter (object_layer import_name) objs\<rparr>))"

definition register_interface :: "string \<Rightarrow> ctyp \<Rightarrow> config \<Rightarrow> config result" where
  "register_interface namespace interface c =
     (let n = lower namespace in
      case dget (cf_interfaces c) n of
        Some existing \<Rightarrow>
          if existing \<noteq> interface then Inl (ValueError ''Interface already registered'') else Inr c
      | None \<Rightarrow> (let c' = config_copy c in refresh (c'\<lparr>cf_interfaces := dset n interface (cf_interfaces c')\<rparr>)))"

definition cast_namespace :: "string \<Rightarrow> config \<Rightarrow> cns result" where
  "cast_namespace namespace c =
     (let n = lower namespace in
      if \<not> dhas n (cf_interfaces c) then Inl (ValueError ''not registered'')
      else case dget (cf_space c) n of Some v \<Rightarrow> Inr v | None \<Rightarrow> Inl (KeyError n))"

section \<open>\<open>LazyConfig\<close>\<close>

record lazy_config =
  lz_layers :: "cval list"
  lz_interfaces :: "(string \<times> ctyp, cns) pydict"

datatype config_object = Layer cval | LazyLayers lazy_config

fun objects_to_layers :: "config_object list \<Rightarrow> cval list" where
  "objects_to_layers [] = []"
| "objects_to_layers (Layer v # os) = v # objects_to_layers os"
| "objects_to_layers (LazyLayers lz # os) = lz_layers lz @ objects_to_layers os"

definition lazy_config_of :: "config_object list \<Rightarrow> lazy_config" where
  "lazy_config_of os = \<lparr>lz_layers = objects_to_layers os, lz_interfaces = []\<rparr>"

definition lazy_load :: "config_object list \<Rightarrow> lazy_config \<Rightarrow> lazy_config" where
  "lazy_load os lz = \<lparr>lz_layers = lz_layers lz @ objects_to_layers os, lz_interfaces = []\<rparr>"

definition lazy_fresh :: "string \<Rightarrow> ctyp \<Rightarrow> lazy_config \<Rightarrow> cns result \<times> lazy_config" where
  "lazy_fresh namespace interface lz =
     (case load_config (lz_layers lz) [(namespace, interface)] [] of
        Inl e \<Rightarrow> (Inl e, lz)
      | Inr d \<Rightarrow>
          (case dget d (lower namespace) of
             None \<Rightarrow> (Inl (KeyError namespace), lz)
           | Some v \<Rightarrow> (Inr v, lz\<lparr>lz_interfaces := dset (namespace, interface) v (lz_interfaces lz)\<rparr>)))"

text \<open>An empty namespace is falsy, so it is loaded again.\<close>

definition lazy_cast :: "string \<Rightarrow> ctyp \<Rightarrow> lazy_config \<Rightarrow> cns result \<times> lazy_config" where
  "lazy_cast namespace interface lz =
     (case dget (lz_interfaces lz) (namespace, interface) of
        Some (NSpace (x # d)) \<Rightarrow> (Inr (NSpace (x # d)), lz)
      | _ \<Rightarrow> lazy_fresh namespace interface lz)"

section \<open>Layering and typing\<close>

text \<open>What a layer says about a path of names, and what a stack of layers says: the last one counts.\<close>

fun path_get :: "cval \<Rightarrow> string list \<Rightarrow> cval option" where
  "path_get l [] = Some l"
| "path_get l (n # ns) = (case get_attr l n of None \<Rightarrow> None | Some l' \<Rightarrow> path_get l' ns)"

definition resolve :: "cval list \<Rightarrow> string list \<Rightarrow> cval option" where
  "resolve layers ns =
     (let vs = List.map_filter (\<lambda>l. path_get l ns) layers in if vs = [] then None else Some (last vs))"

fun cns_get :: "cns \<Rightarrow> string list \<Rightarrow> cns option" where
  "cns_get v [] = Some v"
| "cns_get (NSpace d) (n # ns) = (case dget d (lower n) of None \<Rightarrow> None | Some v \<Rightarrow> cns_get v ns)"
| "cns_get _ (n # ns) = None"

text \<open>The key at a path of an interface; at each level no two keys may differ by their case only.\<close>

definition apart :: "iprop list \<Rightarrow> bool" where
  "apart ps \<longleftrightarrow> distinct (map (\<lambda>p. lower (ip_name p)) ps)"

inductive leaf_at :: "ctyp \<Rightarrow> string list \<Rightarrow> iprop \<Rightarrow> bool" where
  leaf_here: "apart (props t) \<Longrightarrow> p \<in> set (props t) \<Longrightarrow> is_leaf_type (ip_type p) = Inr True \<Longrightarrow> leaf_at t [ip_name p] p"
| leaf_below: "apart (props t) \<Longrightarrow> p \<in> set (props t) \<Longrightarrow> is_leaf_type (ip_type p) = Inr False \<Longrightarrow>
    leaf_at (ip_type p) ns q \<Longrightarrow> leaf_at t (ip_name p # ns) q"

definition or_else :: "'a option \<Rightarrow> 'a option \<Rightarrow> 'a option" where
  "or_else x y = (case x of Some v \<Rightarrow> Some v | None \<Rightarrow> y)"

lemma first_attr_rev: "first_attr (rev layers) name = resolve layers [name]"
proof (induction layers rule: rev_induct)
  case (snoc l layers)
  have "List.map_filter (\<lambda>l. path_get l [name]) (layers @ [l]) =
      List.map_filter (\<lambda>l. path_get l [name]) layers @ (case get_attr l name of None \<Rightarrow> [] | Some v \<Rightarrow> [v])"
    by (simp add: map_filter_def split: option.split)
  with snoc show ?case by (auto simp: resolve_def Let_def split: option.split)
qed (simp add: resolve_def map_filter_simps)

lemma resolve_sublayers: "resolve (sublayers layers n) ns = resolve layers (n # ns)"
proof -
  have "List.map_filter (\<lambda>l. path_get l ns) (sublayers layers n) = List.map_filter (\<lambda>l. path_get l (n # ns)) layers"
    by (induction layers) (auto simp: sublayers_def map_filter_simps split: option.split)
  then show ?thesis by (simp add: resolve_def)
qed

lemma leaf_value_resolve:
  "leaf_value layers p = or_else (resolve layers [ip_name p]) (or_else (ip_value p) (ip_default p))"
  by (simp add: leaf_value_def get_config_value_def first_attr_rev or_else_def split: option.split)

text \<open>What one key leaves in the namespace, and what the keys before and after it do not touch.\<close>

definition key_loaded :: "cval list \<Rightarrow> string \<Rightarrow> iprop \<Rightarrow> cns option \<Rightarrow> bool" where
  "key_loaded layers path p entry \<longleftrightarrow>
     (if is_leaf_type (ip_type p) = Inr True
      then \<exists>v. leaf_value layers p = Some v \<and> check_type (ip_type p) v \<and> entry = Some (NVal v)
      else \<exists>d. load_props (sublayers layers (ip_name p)) (key_path path (ip_name p)) (props (ip_type p)) [] = Inr d \<and>
        entry = Some (NSpace d))"

lemma load_props_Cons:
  assumes "load_props layers path (p # ps) config = Inr d"
    and "lower (ip_name p) \<notin> fst ` set config" and "ip_name p \<notin> fst ` set config"
  obtains e where "key_loaded layers path p (Some e)"
    and "load_props layers path ps (dset (lower (ip_name p)) e config) = Inr d"
proof -
  have no: "dget config (lower (ip_name p)) = None" "\<not> dhas (ip_name p) config"
    using assms(2,3) by (auto simp: map_of_eq_None_iff dhas_def)
  obtain leaf where leaf: "is_leaf_type (ip_type p) = Inr leaf" using assms(1) by (cases "is_leaf_type (ip_type p)") auto
  show ?thesis
  proof (cases leaf)
    case True
    then obtain v where v: "leaf_value layers p = Some v" "check_type (ip_type p) v"
      and d: "load_props layers path ps (dset (lower (ip_name p)) (NVal v) config) = Inr d"
      using assms(1) leaf no(2) by (auto simp: load_leaf_def split: option.splits if_splits)
    then show ?thesis using that [of "NVal v"] leaf True by (simp add: key_loaded_def)
  next
    case False
    then obtain s where "load_props (sublayers layers (ip_name p)) (key_path path (ip_name p)) (props (ip_type p)) [] = Inr s"
      and "load_props layers path ps (dset (lower (ip_name p)) (NSpace s) config) = Inr d"
      using assms(1) leaf no(1) by (auto simp: subspace_def rbind_Inr_iff)
    then show ?thesis using that [of "NSpace s"] leaf False by (simp add: key_loaded_def)
  qed
qed

lemma lower_char:
  assumes "CHR ''A'' \<le> c \<and> c \<le> CHR ''Z''"
  shows "\<not> char_of (of_char c + 32 :: nat) \<le> CHR ''Z''"
proof -
  have c: "(65 :: nat) \<le> of_char c" "(of_char c :: nat) \<le> 90" using assms by (simp_all add: less_eq_char_def)
  then have "(of_char (char_of (of_char c + 32 :: nat) :: char) :: nat) = of_char c + 32" by simp
  with c(1) show ?thesis by (simp add: less_eq_char_def)
qed

lemma lower_lower [simp]: "lower (lower s) = lower s"
  by (simp add: lower_def lower_char)

text \<open>Loading keys that differ by more than case into a namespace without them.\<close>

lemma load_props_entries:
  assumes "load_props layers path ps config = Inr d" and "apart ps"
    and "\<forall>k \<in> fst ` set config. lower k = k \<and> k \<notin> (\<lambda>p. lower (ip_name p)) ` set ps"
  shows "(\<forall>p \<in> set ps. key_loaded layers path p (dget d (lower (ip_name p)))) \<and>
    (\<forall>k. k \<notin> (\<lambda>p. lower (ip_name p)) ` set ps \<longrightarrow> dget d k = dget config k)"
  using assms
proof (induction ps arbitrary: config)
  case Nil
  then show ?case by simp
next
  case (Cons p ps)
  have fresh: "lower (ip_name p) \<notin> fst ` set config" "ip_name p \<notin> fst ` set config"
    using Cons.prems(3) by force+
  from load_props_Cons [OF Cons.prems(1) fresh] obtain e where
    e: "key_loaded layers path p (Some e)" "load_props layers path ps (dset (lower (ip_name p)) e config) = Inr d" .
  have ap: "apart ps" "lower (ip_name p) \<notin> (\<lambda>p. lower (ip_name p)) ` set ps"
    using Cons.prems(2) by (auto simp: apart_def)
  with Cons.IH [OF e(2) ap(1)] Cons.prems(3) have
    "\<forall>p \<in> set ps. key_loaded layers path p (dget d (lower (ip_name p)))"
    "\<forall>k. k \<notin> (\<lambda>p. lower (ip_name p)) ` set ps \<longrightarrow> dget d k = dget (dset (lower (ip_name p)) e config) k"
    by auto
  with e(1) ap(2) show ?case by auto
qed

lemma load_props_leaf:
  assumes "leaf_at t ns q" and "load_props layers path (props t) [] = Inr d"
  shows "\<exists>v. cns_get (NSpace d) ns = Some (NVal v) \<and> check_type (ip_type q) v \<and>
    or_else (resolve layers ns) (or_else (ip_value q) (ip_default q)) = Some v"
  using assms
proof (induction arbitrary: layers path d rule: leaf_at.induct)
  case (leaf_here t p)
  then have "key_loaded layers path p (dget d (lower (ip_name p)))" using load_props_entries by fastforce
  with leaf_here(3) show ?case by (auto simp: key_loaded_def leaf_value_resolve)
next
  case (leaf_below t p ns q)
  then have "key_loaded layers path p (dget d (lower (ip_name p)))" using load_props_entries by fastforce
  with leaf_below(3) obtain s where
    s: "load_props (sublayers layers (ip_name p)) (key_path path (ip_name p)) (props (ip_type p)) [] = Inr s"
      "dget d (lower (ip_name p)) = Some (NSpace s)"
    by (auto simp: key_loaded_def)
  from leaf_below.IH [OF s(1)] s(2) show ?case by (simp add: resolve_sublayers)
qed


text \<open>The interface of a queue: an optional list with a default, and a nested class.\<close>

definition demo_interface :: ctyp where
  "demo_interface = TClass ''Options''
     [IField ''size'' (Some (TUnion [TInt, TNoneType])) (Some (IVal (CInt 10))) None,
      IField ''extra'' None (Some (IClass (TClass ''extra'' [IField ''names'' (Some (TList (Some TStr))) None None]))) None]"

definition demo_layers :: lazy_config where
  "demo_layers = lazy_config_of
     [Layer (CDict [(''job'', CDict [(''SIZE'', CInt 3), (''extra'', CDict [(''names'', CList [CStr ''a''])])])]),
      LazyLayers (lazy_config_of [Layer (CObj None [(''Job'', CDict [(''Size'', CNone)])])])]"

lemma demo_lower:
  "lower ''size'' = ''size''" "lower ''SIZE'' = ''size''" "lower ''Size'' = ''size''" "lower ''extra'' = ''extra''"
  "lower ''names'' = ''names''" "lower ''job'' = ''job''" "lower ''Job'' = ''job''"
  by code_simp+

lemma demo_props:
  "props demo_interface =
     [\<lparr>ip_name = ''size'', ip_type = TUnion [TInt, TNoneType], ip_value = Some (CInt 10), ip_default = None\<rparr>,
      \<lparr>ip_name = ''extra'', ip_type = TClass ''extra'' [IField ''names'' (Some (TList (Some TStr))) None None],
       ip_value = Some (CObj None []), ip_default = None\<rparr>]"
  "props (TClass ''extra'' [IField ''names'' (Some (TList (Some TStr))) None None]) =
     [\<lparr>ip_name = ''names'', ip_type = TList (Some TStr), ip_value = None, ip_default = None\<rparr>]"
  by (simp_all add: demo_interface_def props_def iface_prop_def iface_attr_def map_filter_simps lookup_ci_def demo_lower
      hidden_def get_prop_type_def plain_value_def)

lemma demo_cast:
  "fst (lazy_cast ''job'' demo_interface demo_layers) = Inr (NSpace [(''size'', NVal CNone),
     (''extra'', NSpace [(''names'', NVal (CList [CStr ''a'']))])])"
  by (simp add: lazy_cast_def lazy_fresh_def demo_layers_def lazy_config_of_def load_config_interface_def demo_props subspace_def
      sublayers_def map_filter_simps lookup_ci_def demo_lower load_leaf_def leaf_value_def
      get_config_value_def dset_def)

lemma demo_leaf: "leaf_at demo_interface [''extra'', ''names'']
    \<lparr>ip_name = ''names'', ip_type = TList (Some TStr), ip_value = None, ip_default = None\<rparr>"
proof -
  let ?t = "TClass ''extra'' [IField ''names'' (Some (TList (Some TStr))) None None]"
  let ?p = "\<lparr>ip_name = ''names'', ip_type = TList (Some TStr), ip_value = None, ip_default = None\<rparr>"
  let ?e = "\<lparr>ip_name = ''extra'', ip_type = ?t, ip_value = Some (CObj None []), ip_default = None\<rparr>"
  have "leaf_at ?t [ip_name ?p] ?p" by (rule leaf_here) (simp_all add: demo_props apart_def)
  then have "leaf_at (ip_type ?e) [''names''] ?p" by simp
  moreover have "apart (props demo_interface)" "?e \<in> set (props demo_interface)" "is_leaf_type (ip_type ?e) = Inr False"
    by (simp_all add: demo_props apart_def demo_lower)
  ultimately have "leaf_at demo_interface (ip_name ?e # [''names'']) ?p" by (intro leaf_below)
  then show ?thesis by simp
qed


text \<open>Casting again returns the same namespace; loading more layers forgets it and lets them override it.\<close>

lemma lazy_cast_cases:
  obtains x d where "dget (lz_interfaces lz) (namespace, interface) = Some (NSpace (x # d))"
    "lazy_cast namespace interface lz = (Inr (NSpace (x # d)), lz)"
  | "lazy_cast namespace interface lz = lazy_fresh namespace interface lz"
proof (cases "\<exists>x d. dget (lz_interfaces lz) (namespace, interface) = Some (NSpace (x # d))")
  case True
  then show ?thesis using that(1) by (auto simp: lazy_cast_def)
next
  case False
  then have "lazy_cast namespace interface lz = lazy_fresh namespace interface lz"
    by (auto simp: lazy_cast_def split: option.split cns.split list.split)
  then show ?thesis by (rule that(2))
qed

lemma dset_dset [simp]: "dset k v (dset k v d) = dset k v d"
  by (induction d) (auto simp: dset_def)

lemma lazy_cast_again:
  assumes "lazy_cast namespace interface lz = (Inr space, lz')"
  shows "lazy_cast namespace interface lz' = (Inr space, lz')"
proof (cases rule: lazy_cast_cases [of lz namespace interface])
  case (1 x d)
  with assms show ?thesis by simp
next
  case 2
  then obtain d where d: "load_config (lz_layers lz) [(namespace, interface)] [] = Inr d"
    "dget d (lower namespace) = Some space"
    "lz' = lz\<lparr>lz_interfaces := dset (namespace, interface) space (lz_interfaces lz)\<rparr>"
    using assms by (auto simp: lazy_fresh_def split: sum.splits option.splits)
  then have f: "lazy_fresh namespace interface lz' = (Inr space, lz')" by (simp add: lazy_fresh_def)
  show ?thesis
  proof (cases rule: lazy_cast_cases [of lz' namespace interface])
    case (1 x e)
    then show ?thesis by (simp add: d(3))
  next
    case 2
    with f show ?thesis by simp
  qed
qed

lemma lazy_load_layers:
  "lz_layers (lazy_load os lz) = lz_layers lz @ objects_to_layers os \<and> lz_interfaces (lazy_load os lz) = []"
  by (simp add: lazy_load_def)

lemma resolve_append: "resolve (xs @ ys) ns = or_else (resolve ys ns) (resolve xs ns)"
  by (auto simp: resolve_def or_else_def Let_def map_filter_def)

text \<open>An interface key with an upper-case letter is found in no layer, whatever its case there.\<close>

lemma upper_case_key_is_lost:
  assumes "lower name \<noteq> name"
  shows "lookup_ci attrs name = None"
  using assms by (auto simp: lookup_ci_def map_of_eq_None_iff)

text \<open>
  Two interfaces that share a key: the one without a default replaces the default of the other by the sentinel.
\<close>

lemma sentinel_overwrites_default:
  "load_config [] [([], TClass ''A'' [IField ''x'' (Some TInt) (Some (IVal (CInt 3))) None]),
       ([], TClass ''B'' [IField ''x'' (Some TInt) None None])] [] = Inr [(''x'', NMissing)]"
proof -
  have l: "lower ''x'' = ''x''" by code_simp
  have "props (TClass ''A'' [IField ''x'' (Some TInt) (Some (IVal (CInt 3))) None]) =
      [\<lparr>ip_name = ''x'', ip_type = TInt, ip_value = Some (CInt 3), ip_default = None\<rparr>]"
    "props (TClass ''B'' [IField ''x'' (Some TInt) None None]) =
      [\<lparr>ip_name = ''x'', ip_type = TInt, ip_value = None, ip_default = None\<rparr>]"
    by (simp_all add: props_def iface_prop_def iface_attr_def map_filter_simps lookup_ci_def l hidden_def
        get_prop_type_def plain_value_def)
  then show ?thesis
    by (simp add: load_config_interface_def load_leaf_def leaf_value_def get_config_value_def l dset_def)
qed

section \<open>The configuration of a message\<close>

text \<open>\<open>ExecutableQueue.config\<close> puts the job's configuration over the worker's, \<open>ExecutableMessage.config\<close> the message's
  over both; \<open>Service.options_from\<close> reads a service's options from one of them.\<close>

definition queue_config :: "cval \<Rightarrow> cval \<Rightarrow> lazy_config" where
  "queue_config worker job = lazy_config_of [Layer worker, Layer job]"

definition message_config :: "cval \<Rightarrow> cval \<Rightarrow> cval \<Rightarrow> lazy_config" where
  "message_config worker job message = lazy_load [Layer message] (queue_config worker job)"

definition options_from :: "string \<Rightarrow> ctyp option \<Rightarrow> lazy_config \<Rightarrow> cns result \<times> lazy_config" where
  "options_from name options c =
     (case options of None \<Rightarrow> (Inl (ValueError ''No options defined.''), c) | Some t \<Rightarrow> lazy_cast name t c)"

lemma message_config_wins:
  "resolve (lz_layers (message_config w j m)) ns = or_else (path_get m ns) (or_else (path_get j ns) (path_get w ns))"
  by (simp add: message_config_def queue_config_def lazy_load_def lazy_config_of_def resolve_def List.map_filter_simps or_else_def
      split: option.split)

end
