(* ===== verification/Services_Manager.thy ===== *)
theory Services_Manager
  imports Config_Layers
begin

text \<open>
  Loading, opening and closing the worker's services: \<open>worker/services/manager.py\<close> and
  \<open>ServicesNamespace\<close> of \<open>worker/services/__init__.py\<close>.

  A service class is given by its name, its options interface, the services it needs and what its
  constructor raises. The namespace is the list of the names it holds (a service is truthy). The
  retry loop of the constructor reuses one list object from its second round on; the model follows
  that aliasing, with a round that need not end as a \<open>partial_function\<close>.
\<close>

section \<open>State and operations\<close>

datatype need = NeedConfig | NeedService string

record service_class =
  sv_name :: string
  sv_options :: "ctyp option"
  sv_needs :: "need list"
  sv_init :: "exn option"

record services_manager =
  sm_config :: config
  sm_services :: "string list"
  sm_loaded :: "string list"
  sm_opened :: bool

fun cast_service :: "services_manager \<Rightarrow> need \<Rightarrow> bool" where
  "cast_service m NeedConfig = True"
| "cast_service m (NeedService n) = (n \<in> set (sm_services m))"

datatype load_error = MissingService | LoadError exn

definition register_options :: "service_class \<Rightarrow> services_manager \<Rightarrow> services_manager result" where
  "register_options c m =
     (case sv_options c of
        None \<Rightarrow> Inr m
      | Some i \<Rightarrow>
          (case register_interface (sv_name c) i (sm_config m) of
             Inl _ \<Rightarrow> Inl (ValueError ''Invalid service configuration'')
           | Inr cfg \<Rightarrow> Inr (m\<lparr>sm_config := cfg\<rparr>)))"

definition load_service :: "service_class \<Rightarrow> services_manager \<Rightarrow> load_error option \<times> services_manager" where
  "load_service c m =
     (if sv_name c \<in> set (sm_services m) then (Some (LoadError (ValueError ''Cannot load twice'')), m)
      else case register_options c m of
        Inl e \<Rightarrow> (Some (LoadError e), m)
      | Inr m1 \<Rightarrow>
          if \<not> list_all (cast_service m1) (sv_needs c) then (Some MissingService, m1)
          else if sv_init c \<noteq> None then (Some (LoadError (ValueError ''Failed to load service'')), m1)
          else (None, m1\<lparr>sm_services := sm_services m1 @ [sv_name c], sm_loaded := sm_loaded m1 @ [sv_name c]\<rparr>))"

text \<open>A pass over a list of classes: those that miss a service are collected.\<close>

fun load_pass :: "service_class list \<Rightarrow> service_class list \<Rightarrow> services_manager \<Rightarrow> (service_class list \<times> services_manager) result" where
  "load_pass [] again m = Inr (again, m)"
| "load_pass (c # cs) again m =
     (case load_service c m of
        (None, m') \<Rightarrow> load_pass cs again m'
      | (Some MissingService, m') \<Rightarrow> load_pass cs (again @ [c]) m'
      | (Some (LoadError e), m') \<Rightarrow> Inl e)"

text \<open>From the second round on the list that is iterated is the list that is appended to.\<close>

partial_function (option) shared_round ::
  "service_class list \<Rightarrow> services_manager \<Rightarrow> services_manager result option" where
  "shared_round todo m =
     (case todo of
        [] \<Rightarrow> Some (Inr m)
      | c # rest \<Rightarrow>
          (case load_service c m of
             (None, m') \<Rightarrow> shared_round rest m'
           | (Some MissingService, m') \<Rightarrow> shared_round (rest @ [c]) m'
           | (Some (LoadError e), m') \<Rightarrow> Some (Inl e)))"

definition cannot_load :: exn where
  "cannot_load = ValueError ''Can't load services''"

text \<open>The two lists are then one object, so the test for progress fails however the round went.\<close>

definition retry_services :: "service_class list \<Rightarrow> services_manager \<Rightarrow> services_manager result option" where
  "retry_services deferred m =
     (if deferred = [] then Some (Inr m)
      else case load_pass deferred [] m of
        Inl e \<Rightarrow> Some (Inl e)
      | Inr (again, m1) \<Rightarrow>
          if again = deferred then Some (Inl cannot_load)
          else if again = [] then Some (Inr m1)
          else (case shared_round again m1 of
                  None \<Rightarrow> None
                | Some (Inl e) \<Rightarrow> Some (Inl e)
                | Some (Inr _) \<Rightarrow> Some (Inl cannot_load)))"

definition base_services :: "string list" where
  "base_services = [''config'', ''hooks'', ''resources_manager'']"

definition start_services :: "ctyp \<Rightarrow> service_class list \<Rightarrow> config \<Rightarrow> services_manager result option" where
  "start_services hooks_options classes config =
     (case register_interface ''hooks'' hooks_options config of
        Inl e \<Rightarrow> Some (Inl e)
      | Inr cfg \<Rightarrow>
          (case load_pass classes []
                  \<lparr>sm_config = cfg, sm_services = base_services, sm_loaded = [], sm_opened = False\<rparr> of
             Inl e \<Rightarrow> Some (Inl e)
           | Inr (deferred, m) \<Rightarrow> retry_services deferred m))"

text \<open>\<open>open\<close> stops at the first service that raises; \<open>opens\<close> says which do.\<close>

fun open_each :: "(string \<Rightarrow> exn option) \<Rightarrow> string list \<Rightarrow> string list \<times> exn option" where
  "open_each opens [] = ([], None)"
| "open_each opens (s # ss) =
     (case opens s of
        Some e \<Rightarrow> ([], Some e)
      | None \<Rightarrow> (case open_each opens ss of (done, e) \<Rightarrow> (s # done, e)))"

definition open_services :: "(string \<Rightarrow> exn option) \<Rightarrow> services_manager \<Rightarrow> (string list \<times> exn option) \<times> services_manager" where
  "open_services opens m =
     (if sm_opened m then (([], None), m)
      else case open_each opens (sm_loaded m) of
        (done, None) \<Rightarrow> ((done, None), m\<lparr>sm_opened := True\<rparr>)
      | (done, Some e) \<Rightarrow> ((done, Some e), m))"

definition close_services :: "services_manager \<Rightarrow> string list" where
  "close_services m = (if sm_opened m then rev (sm_loaded m) else [])"

definition reload_service :: "service_class \<Rightarrow> services_manager \<Rightarrow> load_error option \<times> services_manager" where
  "reload_service c m =
     (let n = sv_name c
      in load_service c
           (if n \<in> set (sm_services m)
            then m\<lparr>sm_services := removeAll n (sm_services m), sm_loaded := remove1 n (sm_loaded m)\<rparr>
            else m))"

section \<open>Order of loading\<close>

text \<open>Each loaded service is the name of a given class, and what that class needs was there before it.\<close>

definition satisfied :: "service_class \<Rightarrow> string list \<Rightarrow> bool" where
  "satisfied c before \<longleftrightarrow> (\<forall>n. NeedService n \<in> set (sv_needs c) \<longrightarrow> n \<in> set base_services \<union> set before)"

inductive load_order :: "service_class list \<Rightarrow> string list \<Rightarrow> bool" for classes where
  order_start: "load_order classes []"
| order_next: "load_order classes ns \<Longrightarrow> c \<in> set classes \<Longrightarrow> sv_name c \<notin> set ns \<Longrightarrow> satisfied c ns \<Longrightarrow>
    load_order classes (ns @ [sv_name c])"

definition manager_ok :: "service_class list \<Rightarrow> services_manager \<Rightarrow> bool" where
  "manager_ok classes m \<longleftrightarrow> sm_services m = base_services @ sm_loaded m \<and> load_order classes (sm_loaded m) \<and> \<not> sm_opened m"

lemma load_service_loaded:
  assumes "load_service c m = (None, m')"
  shows "sm_services m' = sm_services m @ [sv_name c] \<and> sm_loaded m' = sm_loaded m @ [sv_name c] \<and>
    sm_opened m' = sm_opened m \<and> sv_name c \<notin> set (sm_services m) \<and> list_all (cast_service m) (sv_needs c)"
proof -
  have "cast_service (m\<lparr>sm_config := cfg\<rparr>) n = cast_service m n" for cfg n by (cases n) simp_all
  then show ?thesis
    using assms
    by (auto simp: load_service_def register_options_def fun_eq_iff list_all_iff
        split: if_splits sum.splits option.splits)
qed

lemma load_service_missing:
  assumes "load_service c m = (Some e, m')"
  shows "sm_services m' = sm_services m \<and> sm_loaded m' = sm_loaded m \<and> sm_opened m' = sm_opened m"
  using assms by (auto simp: load_service_def register_options_def split: if_splits sum.splits option.splits)

lemma load_service_ok:
  assumes "load_service c m = (None, m')" and "c \<in> set classes" and "manager_ok classes m"
  shows "manager_ok classes m'"
proof -
  note l = load_service_loaded [OF assms(1)]
  have m: "sm_services m = base_services @ sm_loaded m" "load_order classes (sm_loaded m)" "\<not> sm_opened m"
    using assms(3) by (simp_all add: manager_ok_def)
  have "satisfied c (sm_loaded m)" using l m(1) by (fastforce simp: satisfied_def list_all_iff)
  with l m assms(2) show ?thesis by (simp add: manager_ok_def order_next)
qed

lemma load_pass_ok:
  assumes "load_pass cs again m = Inr (again', m')" and "set cs \<subseteq> set classes" and "manager_ok classes m"
  shows "manager_ok classes m' \<and> set again \<subseteq> set again' \<and> set again' \<subseteq> set again \<union> set cs \<and>
    set (sm_loaded m) \<subseteq> set (sm_loaded m') \<and> (\<forall>c \<in> set cs. c \<in> set again' \<or> sv_name c \<in> set (sm_loaded m'))"
  using assms
proof (induction cs again m rule: load_pass.induct)
  case (1 again m)
  then show ?case by simp
next
  case (2 c cs again m)
  obtain r m1 where l: "load_service c m = (r, m1)" by (cases "load_service c m")
  consider (loaded) "r = None" | (missing) "r = Some MissingService" | (raised) e where "r = Some (LoadError e)"
    by (cases r) (use load_error.exhaust in auto)
  then show ?case
  proof cases
    case loaded
    with l "2.prems"(1) have p: "load_pass cs again m1 = Inr (again', m')" by simp
    have "manager_ok classes m1" using load_service_ok l loaded "2.prems"(2,3) by force
    with "2.IH"(1) [OF l [symmetric] loaded p] "2.prems"(2) show ?thesis
      using load_service_loaded l loaded by auto
  next
    case missing
    with l "2.prems"(1) have p: "load_pass cs (again @ [c]) m1 = Inr (again', m')" by simp
    have "manager_ok classes m1" using load_service_missing l missing "2.prems"(3) by (force simp: manager_ok_def)
    with "2.IH"(2) [OF l [symmetric] missing _ p] "2.prems"(2) show ?thesis
      using load_service_missing l missing by auto
  next
    case raised
    with l "2.prems"(1) show ?thesis by simp
  qed
qed


definition demo_class :: "string \<Rightarrow> need list \<Rightarrow> service_class" where
  "demo_class n needs = \<lparr>sv_name = n, sv_options = None, sv_needs = needs, sv_init = None\<rparr>"

definition demo_hooks :: ctyp where
  "demo_hooks = TClass ''Options'' []"

lemma demo_hooks_config:
  "register_interface ''hooks'' demo_hooks new_config =
     Inr \<lparr>cf_layers = [], cf_interfaces = [(''hooks'', demo_hooks)], cf_space = [(''hooks'', NSpace [])]\<rparr>"
proof -
  have "lower ''hooks'' = ''hooks''" by code_simp
  then show ?thesis
    by (simp add: register_interface_def config_copy_def new_config_def refresh_def subspace_def
        load_config_interface_def demo_hooks_def props_def dset_def Let_def)
qed

lemmas start_simps = start_services_def demo_hooks_config load_service_def register_options_def demo_class_def
  base_services_def retry_services_def


section \<open>The retry loop\<close>

text \<open>
  A chain of two services before the one they wait for: the second retry loads the last one, and the
  constructor raises although every service is loaded.
\<close>

lemma two_retries_fail:
  "start_services demo_hooks
     [demo_class ''a'' [NeedService ''b''], demo_class ''b'' [NeedService ''c''], demo_class ''c'' []] new_config
     = Some (Inl cannot_load)"
  by (simp add: start_simps shared_round.simps)

text \<open>A class that cannot be loaded is appended to the list that is being iterated, for ever.\<close>

definition stuck :: "services_manager \<Rightarrow> service_class \<Rightarrow> bool" where
  "stuck m c \<longleftrightarrow> sv_name c \<notin> set (sm_services m) \<and> register_options c m = Inr m \<and>
     \<not> list_all (cast_service m) (sv_needs c)"

lemma load_stuck: "stuck m c \<Longrightarrow> load_service c m = (Some MissingService, m)"
  by (simp add: stuck_def load_service_def)

lemma shared_round_diverges:
  assumes "todo \<noteq> []" and "list_all (stuck m) todo"
  shows "shared_round todo m = None"
proof -
  have "\<not> (todo \<noteq> [] \<and> list_all (stuck m) todo)" if "shared_round todo m = Some y" for y
  proof (rule shared_round.raw_induct [OF _ that], goal_cases)
    case (1 f todo m y)
    show ?case
    proof (cases todo)
      case (Cons c rest)
      with 1(1) [of "rest @ [c]" m y] 1(2) show ?thesis by (auto simp: load_stuck)
    qed simp
  qed
  with assms show ?thesis by (cases "shared_round todo m") auto
qed

lemma missing_service_hangs:
  "start_services demo_hooks
     [demo_class ''a'' [NeedService ''x''], demo_class ''b'' [NeedService ''c''], demo_class ''c'' []] new_config
     = None"
  by (simp add: start_simps shared_round_diverges stuck_def)

text \<open>Services opened before one that fails to open are not closed.\<close>

lemma failed_open_is_not_closed:
  assumes "\<not> sm_opened m" and "open_services opens m = ((done, Some e), m')"
  shows "close_services m' = []"
  using assms by (auto simp: open_services_def close_services_def split: prod.splits option.splits)

end
