(* ===== verification/Recovery.thy ===== *)
theory Recovery
  imports Job_Runner Lock_Service
begin

text \<open>
  A job's cursor on its way through the system: the job saves it (\<open>worker/job.py\<close>), the worker's
  store collects it and its flushes send it (\<open>worker/services/job_state/store.py\<close>), the manager writes it to
  the job's row (\<open>stores/jobs_store.py\<close>) and hands it out again with the next assignment of the queue
  (\<open>worker_manager/services/lock.py\<close>). The lemmas follow the cursor along these steps; the property is in the
  root theory.
\<close>

section \<open>Carriers of cursors\<close>

text \<open>
  What every station on the way promises: what can be read from it after a step could be read before or
  has been written by the step. The worker's store and the manager's database are both such carriers.
\<close>

locale cursor_carrier =
  fixes readable :: "'s \<Rightarrow> 'c set" and step :: "'e \<Rightarrow> 's \<Rightarrow> 's" and written :: "'e \<Rightarrow> 'c set"
  assumes step_readable: "readable (step e s) \<subseteq> readable s \<union> written e"
begin

lemma run_readable: "readable (fold step es s) \<subseteq> readable s \<union> (\<Union>e \<in> set es. written e)"
proof (induction es arbitrary: s)
  case (Cons e es)
  from Cons [of "step e s"] step_readable [of e s] show ?case by auto
qed simp

lemma run_closed:
  "readable s \<subseteq> K \<Longrightarrow> \<forall>e \<in> set es. written e \<subseteq> K \<Longrightarrow> readable (fold step es s) \<subseteq> K"
  using run_readable [of es s] by blast

end

section \<open>The requests of a worker\<close>

text \<open>The states a run of the store's events sends: the flushes that arrive, the answered ones and those whose answer is lost.\<close>

fun requests :: "sync_event list \<Rightarrow> sync_world \<Rightarrow> jobs_states list" where
  "requests [] w = []"
| "requests (e # es) w =
     (if sw_busy w \<and> (e = FlushOk \<or> e = FlushLost) then [sent_states (sw_store w)] else []) @
     requests es (sync_step e w)"

definition after_requests :: "sync_event list \<Rightarrow> db \<Rightarrow> db" where
  "after_requests evs d = fold sync_jobs_states (requests evs new_world) d"

section \<open>The worker's store\<close>

text \<open>The cursors of a job in a set of states.\<close>

definition state_cursors :: "string \<Rightarrow> jobs_states \<Rightarrow> string option set" where
  "state_cursors n st = {js_cursor js |js. (n, js) \<in> set st \<and> js_cursor js \<noteq> None}"

lemma set_dset_subset: "set (dset k v d) \<subseteq> insert (k, v) (set d)"
  by (induction d) (auto simp: dset_def)

lemma state_cursors_dset:
  "state_cursors n (dset k js st) \<subseteq> state_cursors n st \<union> (if k = n \<and> js_cursor js \<noteq> None then {js_cursor js} else {})"
proof
  fix c
  assume "c \<in> state_cursors n (dset k js st)"
  then obtain js' where c: "(n, js') \<in> set (dset k js st)" "js_cursor js' = c" "c \<noteq> None"
    by (auto simp: state_cursors_def)
  then have "(n, js') = (k, js) \<or> (n, js') \<in> set st" using set_dset_subset [of k js st] by blast
  with c(2,3) show "c \<in> state_cursors n st \<union> (if k = n \<and> js_cursor js \<noteq> None then {js_cursor js} else {})"
    by (auto simp: state_cursors_def)
qed

lemma state_cursors_get: "dget st n = Some js \<Longrightarrow> js_cursor js \<noteq> None \<Longrightarrow> js_cursor js \<in> state_cursors n st"
  using map_of_SomeD unfolding state_cursors_def by fastforce

lemma state_cursors_merge: "state_cursors n (merge_jobs old new) \<subseteq> state_cursors n old \<union> state_cursors n new"
proof (induction new arbitrary: old)
  case Nil
  then show ?case by (simp add: merge_jobs_def)
next
  case (Cons p new)
  obtain k js where p: "p = (k, js)" by (cases p)
  let ?x = "case dget old k of None \<Rightarrow> js | Some s \<Rightarrow> merge_state s js"
  have "js_cursor ?x \<in> state_cursors n old \<union> state_cursors n (p # new)" if "k = n" "js_cursor ?x \<noteq> None"
    using that state_cursors_get [of old n]
    by (cases "dget old k") (auto simp: p merge_state_def state_cursors_def split: if_splits)
  then have "state_cursors n (merge_job p old) \<subseteq> state_cursors n old \<union> state_cursors n (p # new)"
    using state_cursors_dset [of n k ?x old] by (auto simp: p merge_job_def split: if_splits)
  moreover have "state_cursors n new \<subseteq> state_cursors n (p # new)" by (auto simp: state_cursors_def)
  moreover have "merge_jobs old (p # new) = merge_jobs (merge_job p old) new" by (simp add: merge_jobs_def)
  ultimately show ?case using Cons [of "merge_job p old"] by auto
qed

definition event_cursors :: "string \<Rightarrow> sync_event \<Rightarrow> string option set" where
  "event_cursors n e = {Some c |c. e = Update (SetJobCursor n c)}"

definition store_cursors :: "string \<Rightarrow> sync_world \<Rightarrow> string option set" where
  "store_cursors n w = state_cursors n (st_current (sw_store w)) \<union> state_cursors n (sent_states (sw_store w))"

lemma store_cursors_set:
  "state_cursors n (on_job (set_on_state oper) (op_job oper) st) \<subseteq> state_cursors n st \<union> event_cursors n (Update oper)"
proof -
  let ?s = "case dget st (op_job oper) of None \<Rightarrow> empty_job_state | Some s \<Rightarrow> s"
  have "js_cursor (set_on_state oper ?s) \<in> state_cursors n st \<union> event_cursors n (Update oper)"
    if "op_job oper = n" "js_cursor (set_on_state oper ?s) \<noteq> None"
    using that state_cursors_get [of st n]
    by (cases oper; cases "dget st (op_job oper)") (auto simp: event_cursors_def empty_job_state_def)
  then show ?thesis
    using state_cursors_dset [of n "op_job oper" "set_on_state oper ?s" st] by (auto simp: on_job_def split: if_splits)
qed

lemma sent_Nil [simp]: "state_cursors n [] = {}"
  by (simp add: state_cursors_def)

interpretation store_carrier: cursor_carrier "store_cursors n" sync_step "event_cursors n" for n
proof
  fix e w
  show "store_cursors n (sync_step e w) \<subseteq> store_cursors n w \<union> event_cursors n e"
  proof (cases e)
    case (Update oper)
    with store_cursors_set [of n oper "st_current (sw_store w)"] show ?thesis
      by (auto simp: store_cursors_def store_set_def sent_states_def)
  next
    case FlushBegin
    then show ?thesis by (auto simp: store_cursors_def)
  next
    case FlushOk
    then show ?thesis by (auto simp: store_cursors_def)
  next
    case FlushRefused
    with state_cursors_merge [of n "sent_states (sw_store w)" "st_current (sw_store w)"] show ?thesis
      by (auto simp: store_cursors_def flush_failed_def sent_states_def split: option.splits)
  next
    case FlushLost
    with state_cursors_merge [of n "sent_states (sw_store w)" "st_current (sw_store w)"] show ?thesis
      by (auto simp: store_cursors_def flush_failed_def sent_states_def split: option.splits)
  qed
qed

lemma requests_prefix:
  "st \<in> set (requests evs w) \<Longrightarrow> \<exists>es. set es \<subseteq> set evs \<and> st = sent_states (sw_store (fold sync_step es w))"
proof (induction evs arbitrary: w)
  case (Cons e evs)
  consider (here) "st = sent_states (sw_store w)" | (later) "st \<in> set (requests evs (sync_step e w))"
    using Cons.prems by (auto split: if_splits)
  then show ?case
  proof cases
    case here
    then show ?thesis by (intro exI [of _ "[]"]) simp
  next
    case later
    from Cons.IH [OF this] obtain es where "set es \<subseteq> set evs" "st = sent_states (sw_store (fold sync_step (e # es) w))"
      by auto
    then show ?thesis by (intro exI [of _ "e # es"]) auto
  qed
qed simp

definition saved_only :: "string \<Rightarrow> string option set \<Rightarrow> sync_event list \<Rightarrow> bool" where
  "saved_only n K evs \<longleftrightarrow> (\<forall>c. Update (SetJobCursor n c) \<in> set evs \<longrightarrow> Some c \<in> K)"

lemma requests_cursors:
  assumes "saved_only n K evs" and "st \<in> set (requests evs new_world)"
  shows "state_cursors n st \<subseteq> K"
proof -
  obtain es where es: "set es \<subseteq> set evs" "st = sent_states (sw_store (fold sync_step es new_world))"
    using requests_prefix [OF assms(2)] by blast
  have "store_cursors n (fold sync_step es new_world) \<subseteq> K"
    using assms(1) es(1)
    by (intro store_carrier.run_closed)
      (auto simp: store_cursors_def new_world_def new_store_def sent_states_def event_cursors_def saved_only_def)
  with es(2) show ?thesis by (auto simp: store_cursors_def)
qed

section \<open>The manager's database\<close>

definition queue_cursor :: "job_row \<Rightarrow> string option" where
  "queue_cursor j = qs_cursor (queue_item_state_of j)"

lemma db_jobs_disable: "db_jobs (fold (\<lambda>(job_id, js). if js_completion js = None then id else disable_queue job_id) st d) = db_jobs d"
  by (induction st arbitrary: d) (auto simp: disable_queue_def update_queue_def split: prod.split)

lemma db_jobs_sync:
  "db_jobs (sync_jobs_states st d) =
     map (\<lambda>j. case dget st (jr_name j) of None \<Rightarrow> j | Some js \<Rightarrow> sync_job_row js j) (db_jobs d)"
  by (simp add: sync_jobs_states_def Let_def db_jobs_disable)

lemma find_map_same:
  "(\<And>x. P (f x) = P x) \<Longrightarrow> find P (map f xs) = map_option f (find P xs)"
  by (induction xs) auto

lemma sync_row_keeps [simp]:
  "jr_name (case x of None \<Rightarrow> j | Some js \<Rightarrow> sync_job_row js j) = jr_name j"
  "jr_queue_name (case x of None \<Rightarrow> j | Some js \<Rightarrow> sync_job_row js j) = jr_queue_name j"
  by (auto simp: sync_job_row_def Let_def split: option.split)

lemma job_of_queue_sync:
  "job_of_queue q (sync_jobs_states st d) =
     map_option (\<lambda>j. case dget st (jr_name j) of None \<Rightarrow> j | Some js \<Rightarrow> sync_job_row js j) (job_of_queue q d)"
  by (simp add: job_of_queue_def db_jobs_sync find_map_same)

lemma queue_cursor_sync:
  "queue_cursor (case dget st (jr_name j) of None \<Rightarrow> j | Some js \<Rightarrow> sync_job_row js j)
     \<in> insert (queue_cursor j) (state_cursors (jr_name j) st)"
proof (cases "dget st (jr_name j)")
  case (Some js)
  have "queue_cursor (sync_job_row js j) = (if struthy (js_cursor js) then js_cursor js else queue_cursor j)"
    by (auto simp: queue_cursor_def queue_item_state_of_def sync_job_row_def Let_def split: option.split)
  with Some state_cursors_get [OF Some] show ?thesis by (cases "js_cursor js") auto
qed simp

text \<open>The cursors a lock of queue \<open>q\<close> can hand out.\<close>

definition row_cursors :: "string \<Rightarrow> string \<Rightarrow> db \<Rightarrow> string option set" where
  "row_cursors n q d = {queue_cursor j |j. job_of_queue q d = Some j \<and> jr_name j = n}"

interpretation db_carrier: cursor_carrier "row_cursors n q" sync_jobs_states "state_cursors n" for n q
proof
  fix st d
  show "row_cursors n q (sync_jobs_states st d) \<subseteq> row_cursors n q d \<union> state_cursors n st"
    using queue_cursor_sync by (fastforce simp: row_cursors_def job_of_queue_sync)
qed

lemma job_of_queue_after:
  "job_of_queue q d = Some j \<Longrightarrow>
     \<exists>j'. job_of_queue q (fold sync_jobs_states reqs d) = Some j' \<and> jr_name j' = jr_name j"
proof (induction reqs arbitrary: d j)
  case (Cons st reqs)
  then have "job_of_queue q (sync_jobs_states st d) = Some (case dget st (jr_name j) of None \<Rightarrow> j | Some js \<Rightarrow> sync_job_row js j)"
    by (simp add: job_of_queue_sync)
  from Cons.IH [OF this] show ?case by simp
qed simp

lemma join_cursor:
  "join_definitions sd d q = Inr item \<Longrightarrow> \<exists>j. job_of_queue q d = Some j \<and> qs_cursor (qi_state item) = queue_cursor j"
  by (auto simp: join_definitions_def rbind_Inr_iff queue_cursor_def split: option.splits)

lemma first_cursor_saved: "job_run c0 mp s0 E F s C \<Longrightarrow> c0 \<in> set C"
  by (induction rule: job_run.induct) auto

text \<open>The cursor a queue is assigned with after a crash is one its job has saved, or the one it had started from.\<close>

lemma assigned_cursor_saved:
  assumes "job_of_queue q d0 = Some j" and "job_run (queue_cursor j) mp s0 E F s C"
    and "saved_only (jr_name j) (set C) evs"
    and "join_definitions sd (after_requests evs d0) q = Inr item"
  shows "qs_cursor (qi_state item) \<in> set C"
proof -
  have "row_cursors (jr_name j) q d0 \<subseteq> set C"
    using assms(1) first_cursor_saved [OF assms(2)] by (auto simp: row_cursors_def)
  then have "row_cursors (jr_name j) q (after_requests evs d0) \<subseteq> set C"
    using requests_cursors [OF assms(3)] unfolding after_requests_def by (intro db_carrier.run_closed) auto
  moreover obtain j' where "job_of_queue q (after_requests evs d0) = Some j'" "jr_name j' = jr_name j"
    using job_of_queue_after [OF assms(1)] by (auto simp: after_requests_def)
  ultimately show ?thesis using join_cursor [OF assms(4)] by (auto simp: row_cursors_def)
qed

text \<open>Such a cursor can be loaded again.\<close>

lemma earlier_cursor_loads:
  assumes "earlier_cursor c0 s0 E F c" and "from_cursor c0 mp = Some s0"
  shows "\<exists>s'. from_cursor c mp' = Some s'"
  using assms from_cursor_shape [OF assms(2)] from_cursor_as_cursor unfolding earlier_cursor_def by fast

text \<open>A run of a store whose one flush arrives while its answer is lost.\<close>

definition demo_lost_flush :: "string \<Rightarrow> sync_event list" where
  "demo_lost_flush c = [Update (SetJobCursor ''j'' c), FlushBegin, FlushLost]"

lemma demo_after_requests:
  "after_requests (demo_lost_flush c) demo_db =
     demo_db\<lparr>db_jobs := [sync_job_row \<lparr>js_cursor = Some c, js_cursors_states = [], js_completion = None\<rparr> (demo_job ''j''),
       demo_job ''k'']\<rparr>"
  by (simp add: after_requests_def demo_lost_flush_def new_world_def new_store_def store_set_def on_job_def
      empty_job_state_def dset_def flush_begin_def sent_states_def sync_jobs_states_def cursor_rows_def
      demo_db_def demo_job_def Let_def)

lemma demo_row_after:
  "job_of_queue ''j'' (after_requests (demo_lost_flush c) demo_db) =
     Some ((demo_job ''j'')\<lparr>jr_cursor := (if c = [] then None else Some c)\<rparr>)"
  by (simp add: demo_after_requests job_of_queue_def sync_job_row_def demo_job_def Let_def)

lemma demo_recovered:
  "\<exists>item. join_definitions demo_sd (after_requests (demo_lost_flush c) demo_db) ''j'' = Inr item \<and>
     qs_cursor (qi_state item) = (if c = [] then None else Some c)"
  by (simp add: join_definitions_def demo_row_after demo_job_def demo_sd_def lookup_def with_state_def
      queue_item.defs queue_item_state_of_def)

end
