(* ===== verification/Observers.thy ===== *)
theory Observers
  imports Core_Types
begin

text \<open>
  What watches a message on its way: the context variables of \<open>worker/context.py\<close>, the usage metrics of
  \<open>worker/services/usage_metrics.py\<close> and the counters of \<open>worker/services/metrics.py\<close>.

  A clock reading is an argument of the operation that takes it. Messages are numbered; a weak set is a set
  from which no message is collected while it is counted. Instruments record what is added to them.
\<close>

section \<open>Context variables\<close>

record context_vars =
  cv_job :: "queue_item option"
  cv_pipeline :: "pipeline_info option"
  cv_message :: "topic_message option"

definition no_context :: context_vars where
  "no_context = \<lparr>cv_job = None, cv_pipeline = None, cv_message = None\<rparr>"

text \<open>A body runs on the variables and returns its outcome with the variables it leaves; the token resets one variable.\<close>

definition pipeline_context :: "pipeline_info \<Rightarrow> (context_vars \<Rightarrow> 'r \<times> context_vars) \<Rightarrow> context_vars \<Rightarrow> 'r \<times> context_vars" where
  "pipeline_context p body c =
     (case body (c\<lparr>cv_pipeline := Some p\<rparr>) of (r, c') \<Rightarrow> (r, c'\<lparr>cv_pipeline := cv_pipeline c\<rparr>))"

definition message_vars :: "topic_message \<Rightarrow> (context_vars \<Rightarrow> 'r \<times> context_vars) \<Rightarrow> context_vars \<Rightarrow> 'r \<times> context_vars" where
  "message_vars m body c =
     (case body (c\<lparr>cv_message := Some m\<rparr>) of (r, c') \<Rightarrow> (r, c'\<lparr>cv_message := cv_message c\<rparr>))"

definition job_context :: "queue_item \<Rightarrow> (context_vars \<Rightarrow> 'r \<times> context_vars) \<Rightarrow> context_vars \<Rightarrow> 'r \<times> context_vars" where
  "job_context q body c =
     (case pipeline_context (qp_info (qi_pipeline q)) body (c\<lparr>cv_job := Some q\<rparr>) of
        (r, c') \<Rightarrow> (r, c'\<lparr>cv_job := cv_job c\<rparr>))"

definition context_summary :: "context_vars \<Rightarrow> (string, pyval) pydict" where
  "context_summary c =
     (case cv_job c of None \<Rightarrow> [] | Some q \<Rightarrow> [(''job'', PDict [(''name'', PStr (qi_name q))])]) @
     (case cv_pipeline c of None \<Rightarrow> [] | Some p \<Rightarrow> [(''pipeline'', PStr (pi_name p))]) @
     (case cv_message c of None \<Rightarrow> []
      | Some m \<Rightarrow> [(''message'', PDict [(''id'', PStr (tm_id m)), (''tags'', PDict (map (\<lambda>(k, v). (k, PStr v)) (tm_tags m)))])])"

text \<open>A body that leaves the variables as it found them does so inside any context, whatever its outcome.\<close>

definition restores :: "(context_vars \<Rightarrow> 'r \<times> context_vars) \<Rightarrow> bool" where
  "restores body \<longleftrightarrow> (\<forall>c. snd (body c) = c)"

lemma contexts_restore:
  assumes "restores body"
  shows "restores (pipeline_context p body)" "restores (message_vars m body)" "restores (job_context q body)"
proof -
  have b: "snd (body c) = c" for c using assms by (simp add: restores_def)
  have p: "snd (pipeline_context p body c) = c" for p c
    by (cases c) (simp add: pipeline_context_def split_def b)
  then show "restores (pipeline_context p body)" by (simp add: restores_def)
  have "snd (message_vars m body c) = c" for c
    by (cases c) (simp add: message_vars_def split_def b)
  then show "restores (message_vars m body)" by (simp add: restores_def)
  have "snd (job_context q body c) = c" for c
    by (cases c) (simp add: job_context_def split_def p)
  then show "restores (job_context q body)" by (simp add: restores_def)
qed

lemma job_context_summary:
  "fst (job_context q (message_vars m (\<lambda>c. (context_summary c, c))) no_context) =
     [(''job'', PDict [(''name'', PStr (qi_name q))]), (''pipeline'', PStr (pi_name (qp_info (qi_pipeline q)))),
      (''message'', PDict [(''id'', PStr (tm_id m)), (''tags'', PDict (map (\<lambda>(k, v). (k, PStr v)) (tm_tags m)))])]"
  by (simp add: job_context_def pipeline_context_def message_vars_def context_summary_def no_context_def)

section \<open>Usage of a stage\<close>

record pipeline_state =
  us_messages :: "nat set"
  us_flushed :: time
  us_collected :: time
  us_usage :: int

definition new_pipeline_state :: "time \<Rightarrow> time \<Rightarrow> pipeline_state" where
  "new_pipeline_state t t' = \<lparr>us_messages = {}, us_flushed = t, us_collected = t', us_usage = 0\<rparr>"

text \<open>The time the caller passes is not used: the clock is read again.\<close>

definition usage_flush :: "time \<Rightarrow> pipeline_state \<Rightarrow> pipeline_state" where
  "usage_flush t s =
     s\<lparr>us_flushed := t, us_usage := us_usage s + (t - us_flushed s) * int (card (us_messages s))\<rparr>"

definition usage_add :: "time \<Rightarrow> nat \<Rightarrow> pipeline_state \<Rightarrow> pipeline_state" where
  "usage_add t m s = (let s = usage_flush t s in s\<lparr>us_messages := insert m (us_messages s)\<rparr>)"

definition usage_pop :: "time \<Rightarrow> nat \<Rightarrow> pipeline_state \<Rightarrow> pipeline_state" where
  "usage_pop t m s =
     (if m \<in> us_messages s then let s = usage_flush t s in s\<lparr>us_messages := us_messages s - {m}\<rparr> else s)"

text \<open>The reported usage is a quotient: its numerator and denominator.\<close>

definition usage_collect :: "time \<Rightarrow> time \<Rightarrow> pipeline_state \<Rightarrow> (int \<times> int) result \<times> pipeline_state" where
  "usage_collect now t s =
     (let s = usage_flush t s in
      if now = us_collected s then (Inl ZeroDivisionError, s)
      else (Inr (us_usage s, now - us_collected s), s\<lparr>us_collected := now, us_usage := 0\<rparr>))"

datatype usage_event = UAdd time nat | UPop time nat | UCollect time time

text \<open>A run, with the sum of the numerators that were reported.\<close>

fun usage_step :: "usage_event \<Rightarrow> int \<times> pipeline_state \<Rightarrow> int \<times> pipeline_state" where
  "usage_step (UAdd t m) (r, s) = (r, usage_add t m s)"
| "usage_step (UPop t m) (r, s) = (r, usage_pop t m s)"
| "usage_step (UCollect now t) (r, s) =
     (case usage_collect now t s of
        (Inl _, s') \<Rightarrow> (r, s')
      | (Inr (u, _), s') \<Rightarrow> (r + u, s'))"

text \<open>The reference: for one message, the time it has spent in the stage and when it entered.\<close>

fun track :: "nat \<Rightarrow> usage_event \<Rightarrow> int \<times> time option \<Rightarrow> int \<times> time option" where
  "track m (UAdd t m') (spent, since) =
     (if m = m' \<and> since = None then (spent, Some t) else (spent, since))"
| "track m (UPop t m') (spent, since) =
     (if m = m' then (spent + (case since of None \<Rightarrow> 0 | Some t' \<Rightarrow> t - t'), None) else (spent, since))"
| "track m (UCollect _ _) x = x"

definition time_spent :: "time \<Rightarrow> int \<times> time option \<Rightarrow> int" where
  "time_spent t x = fst x + (case snd x of None \<Rightarrow> 0 | Some t' \<Rightarrow> t - t')"

definition spent_until :: "time \<Rightarrow> usage_event list \<Rightarrow> nat \<Rightarrow> int" where
  "spent_until t es m = time_spent t (fold (track m) es (0, None))"

definition usage_until :: "time \<Rightarrow> int \<times> pipeline_state \<Rightarrow> int" where
  "usage_until t x = fst x + us_usage (usage_flush t (snd x))"

lemma sum_change:
  assumes "finite M" and "m \<in> M" and "\<And>m'. m' \<noteq> m \<Longrightarrow> g m' = f m'"
  shows "(\<Sum>m \<in> M. g m) = (\<Sum>m \<in> M. f m) - f m + (g m :: int)"
  using assms by (simp add: sum.remove [OF assms(1,2)])

definition usage_inv :: "nat set \<Rightarrow> (nat \<Rightarrow> int \<times> time option) \<Rightarrow> int \<times> pipeline_state \<Rightarrow> bool" where
  "usage_inv M x y \<longleftrightarrow> finite M \<and> us_messages (snd y) = {m \<in> M. snd (x m) \<noteq> None} \<and>
     (\<forall>t. usage_until t y = (\<Sum>m \<in> M. time_spent t (x m)))"

definition within :: "nat set \<Rightarrow> usage_event \<Rightarrow> bool" where
  "within M e \<longleftrightarrow> (case e of UAdd t m \<Rightarrow> m \<in> M | UPop t m \<Rightarrow> m \<in> M | UCollect _ _ \<Rightarrow> True)"

lemma messages_flush [simp]: "us_messages (usage_flush t s) = us_messages s"
  by (simp add: usage_flush_def)

lemma usage_until_flush: "usage_until T (r, usage_flush t s) = usage_until T (r, s)"
  by (simp add: usage_until_def usage_flush_def algebra_simps)

lemma usage_inv_add:
  assumes "usage_inv M x (r, s)" and "m \<in> M"
  shows "usage_inv M (\<lambda>m'. track m' (UAdd t m) (x m')) (r, usage_add t m s)"
proof (cases "m \<in> us_messages s")
  case True
  then have "track m' (UAdd t m) (x m') = x m'" for m'
    using assms(1) by (cases "x m'") (auto simp: usage_inv_def)
  moreover have "usage_add t m s = usage_flush t s"
    using True by (simp add: usage_add_def usage_flush_def insert_absorb Let_def)
  ultimately show ?thesis using assms(1) usage_until_flush by (simp add: usage_inv_def)
next
  case False
  then obtain spent where xm: "x m = (spent, None)" using assms by (cases "x m") (auto simp: usage_inv_def)
  let ?g = "\<lambda>m'. track m' (UAdd t m) (x m')"
  have g1: "?g m = (spent, Some t)" by (simp add: xm)
  have g2: "?g m' = x m'" if "m' \<noteq> m" for m' using that by (cases "x m'") simp
  have fin: "finite M" "finite (us_messages s)" using assms(1) by (auto simp: usage_inv_def)
  have "usage_until T (r, usage_add t m s) = (\<Sum>m' \<in> M. time_spent T (?g m'))" for T
  proof -
    have "usage_until T (r, usage_add t m s) = usage_until T (r, s) + (T - t)"
      using False fin by (simp add: usage_until_def usage_add_def usage_flush_def Let_def algebra_simps)
    also have "\<dots> = (\<Sum>m' \<in> M. time_spent T (?g m'))"
      using sum_change [OF fin(1) assms(2), of "\<lambda>m'. time_spent T (?g m')" "\<lambda>m'. time_spent T (x m')"] g1 g2 xm assms(1)
      by (simp add: usage_inv_def time_spent_def)
    finally show ?thesis .
  qed
  moreover have "us_messages (usage_add t m s) = {m' \<in> M. snd (?g m') \<noteq> None}"
  proof -
    have "snd (?g m') \<noteq> None \<longleftrightarrow> m' = m \<or> snd (x m') \<noteq> None" for m'
      using g1 g2 [of m'] by (cases "m' = m") simp_all
    then have "{m' \<in> M. snd (?g m') \<noteq> None} = insert m {m' \<in> M. snd (x m') \<noteq> None}" using assms(2) by blast
    then show ?thesis using assms(1) by (simp add: usage_add_def usage_inv_def Let_def)
  qed
  ultimately show ?thesis using fin(1) by (simp add: usage_inv_def)
qed

lemma usage_inv_pop:
  assumes "usage_inv M x (r, s)" and "m \<in> M"
  shows "usage_inv M (\<lambda>m'. track m' (UPop t m) (x m')) (r, usage_pop t m s)"
proof (cases "m \<in> us_messages s")
  case False
  then have "snd (x m) = None" using assms by (auto simp: usage_inv_def)
  then have "track m' (UPop t m) (x m') = x m'" for m' by (cases "x m'") auto
  with False assms(1) show ?thesis by (simp add: usage_pop_def)
next
  case True
  then obtain spent t' where xm: "x m = (spent, Some t')" using assms by (cases "x m") (auto simp: usage_inv_def)
  let ?g = "\<lambda>m'. track m' (UPop t m) (x m')"
  have g1: "?g m = (spent + (t - t'), None)" by (simp add: xm)
  have g2: "?g m' = x m'" if "m' \<noteq> m" for m' using that by (cases "x m'") simp
  have fin: "finite M" "finite (us_messages s)" using assms(1) by (auto simp: usage_inv_def)
  have "card (us_messages s) = Suc (card (us_messages s - {m}))" using True fin(2) by (rule card.remove [rotated])
  then have card: "int (card (us_messages s - {m})) = int (card (us_messages s)) - 1" by simp
  have "usage_until T (r, usage_pop t m s) = (\<Sum>m' \<in> M. time_spent T (?g m'))" for T
  proof -
    have "usage_until T (r, usage_pop t m s) = usage_until T (r, s) - (T - t)"
      using True card by (simp add: usage_until_def usage_pop_def usage_flush_def Let_def algebra_simps)
    also have "\<dots> = (\<Sum>m' \<in> M. time_spent T (?g m'))"
      using sum_change [OF fin(1) assms(2), of "\<lambda>m'. time_spent T (?g m')" "\<lambda>m'. time_spent T (x m')"] g1 g2 xm assms(1)
      by (simp add: usage_inv_def time_spent_def)
    finally show ?thesis .
  qed
  moreover have "us_messages (usage_pop t m s) = {m' \<in> M. snd (?g m') \<noteq> None}"
  proof -
    have "snd (?g m') \<noteq> None \<longleftrightarrow> m' \<noteq> m \<and> snd (x m') \<noteq> None" for m'
      using g1 g2 [of m'] by (cases "m' = m") simp_all
    then have "{m' \<in> M. snd (?g m') \<noteq> None} = {m' \<in> M. snd (x m') \<noteq> None} - {m}" by blast
    then show ?thesis using assms(1) True by (simp add: usage_pop_def usage_inv_def Let_def)
  qed
  ultimately show ?thesis using fin(1) by (simp add: usage_inv_def)
qed

lemma usage_inv_collect:
  assumes "usage_inv M x (r, s)"
  shows "usage_inv M (\<lambda>m. track m (UCollect now t) (x m)) (usage_step (UCollect now t) (r, s))"
proof -
  have "usage_until T (usage_step (UCollect now t) (r, s)) = usage_until T (r, usage_flush t s)" for T
    by (auto simp: usage_collect_def Let_def usage_until_def usage_flush_def)
  moreover have "us_messages (snd (usage_step (UCollect now t) (r, s))) = us_messages s"
    by (auto simp: usage_collect_def Let_def)
  ultimately show ?thesis using assms usage_until_flush by (simp add: usage_inv_def)
qed

text \<open>
  The usage metric is exact: what has been reported and what is pending add up to the time each message has
  spent in the stage, whatever the order of entries, exits and collections.
\<close>

lemma usage_is_time_spent:
  assumes "finite M" and "list_all (within M) es"
  shows "usage_until T (fold usage_step es (0, new_pipeline_state t0 t1)) = (\<Sum>m \<in> M. spent_until T es m)"
proof -
  have "usage_inv M (\<lambda>m. fold (track m) es (0, None)) (fold usage_step es (0, new_pipeline_state t0 t1))"
    using assms(2)
  proof (induction es rule: rev_induct)
    case Nil
    then show ?case
      using assms(1) by (simp add: usage_inv_def new_pipeline_state_def usage_until_def usage_flush_def time_spent_def)
  next
    case (snoc e es)
    then have inv: "usage_inv M (\<lambda>m. fold (track m) es (0, None)) (fold usage_step es (0, new_pipeline_state t0 t1))"
      and e: "within M e" by simp_all
    obtain r s where y: "fold usage_step es (0, new_pipeline_state t0 t1) = (r, s)" by fastforce
    show ?case
    proof (cases e)
      case (UAdd t m)
      with usage_inv_add [OF inv [unfolded y]] e y show ?thesis by (simp add: within_def)
    next
      case (UPop t m)
      with usage_inv_pop [OF inv [unfolded y]] e y show ?thesis by (simp add: within_def)
    next
      case (UCollect now t)
      with usage_inv_collect [OF inv [unfolded y], of now t] y show ?thesis by (simp del: usage_step.simps)
    qed
  qed
  then show ?thesis by (simp add: usage_inv_def spent_until_def)
qed

section \<open>The stages of a message\<close>

record pipeline_name =
  pn_executor :: string
  pn_labels :: "(string \<times> string) set"
  pn_name :: string

type_synonym stage_state = "(pipeline_name, pipeline_state) pydict"

datatype stage = Polling | Scheduling | Submitting | Executing | ProcessingResults | Publishing | WaitingPublish

type_synonym stages = "stage \<Rightarrow> stage_state"

definition usage_name :: "queue_item \<Rightarrow> pipeline_info \<Rightarrow> pipeline_name" where
  "usage_name q p =
     \<lparr>pn_executor = (if qi_executor q = [] then ''default'' else qi_executor q), pn_labels = set (qi_labels q),
      pn_name = pi_name p\<rparr>"

text \<open>The readings of the clock: two for the state a first push creates, and that of the push or pop.\<close>

type_synonym readings = "time \<times> time \<times> time"

definition stage_push :: "readings \<Rightarrow> pipeline_name \<Rightarrow> nat \<Rightarrow> stage_state \<Rightarrow> stage_state" where
  "stage_push rd n m st =
     (case rd of (t0, t1, t) \<Rightarrow>
        let ps = (case dget st n of None \<Rightarrow> new_pipeline_state t0 t1 | Some ps \<Rightarrow> ps)
        in dset n (usage_add t m ps) st)"

definition stage_pop :: "readings \<Rightarrow> pipeline_name \<Rightarrow> nat \<Rightarrow> stage_state \<Rightarrow> stage_state" where
  "stage_pop rd n m st =
     (case dget st n of None \<Rightarrow> st | Some ps \<Rightarrow> dset n (usage_pop (snd (snd rd)) m ps) st)"

text \<open>Collecting stops at the first state that raises.\<close>

fun stage_collect ::
  "time \<Rightarrow> time \<Rightarrow> stage_state \<Rightarrow> ((pipeline_name \<times> int \<times> int) list \<times> exn option) \<times> stage_state" where
  "stage_collect now t [] = (([], None), [])"
| "stage_collect now t ((n, ps) # st) =
     (case usage_collect now t ps of
        (Inl e, ps') \<Rightarrow> (([], Some e), (n, ps') # st)
      | (Inr u, ps') \<Rightarrow>
          (case stage_collect now t st of ((us, e), st') \<Rightarrow> (((n, u) # us, e), (n, ps') # st')))"

definition push_to :: "stage \<Rightarrow> readings \<Rightarrow> pipeline_name \<Rightarrow> nat \<Rightarrow> stages \<Rightarrow> stages" where
  "push_to sg rd n m st = st(sg := stage_push rd n m (st sg))"

definition pop_from :: "stage \<Rightarrow> readings \<Rightarrow> pipeline_name \<Rightarrow> nat \<Rightarrow> stages \<Rightarrow> stages" where
  "pop_from sg rd n m st = st(sg := stage_pop rd n m (st sg))"

datatype message_event =
    MPolled | MScheduled | MSubmitted | MExecuted | MExecutedEnd | MResults | MResultsEnd
  | MPublished | MPublishedEnd | MBlocked | MBlockedEnd

fun on_event :: "message_event \<Rightarrow> readings \<Rightarrow> pipeline_name \<Rightarrow> nat \<Rightarrow> stages \<Rightarrow> stages" where
  "on_event MPolled rd n m st = push_to Polling rd n m st"
| "on_event MScheduled rd n m st = push_to Scheduling rd n m (pop_from Polling rd n m st)"
| "on_event MSubmitted rd n m st = push_to Submitting rd n m (pop_from Scheduling rd n m st)"
| "on_event MExecuted rd n m st = push_to Executing rd n m (pop_from Submitting rd n m st)"
| "on_event MExecutedEnd rd n m st = pop_from Executing rd n m st"
| "on_event MResults rd n m st = push_to ProcessingResults rd n m st"
| "on_event MResultsEnd rd n m st = pop_from ProcessingResults rd n m st"
| "on_event MPublished rd n m st = push_to Publishing rd n m (pop_from ProcessingResults rd n m st)"
| "on_event MPublishedEnd rd n m st = push_to ProcessingResults rd n m (pop_from Publishing rd n m st)"
| "on_event MBlocked rd n m st = push_to WaitingPublish rd n m (pop_from Publishing rd n m st)"
| "on_event MBlockedEnd rd n m st = pop_from WaitingPublish rd n m st"

text \<open>The order in which the worker emits the events of one message, with the stage each leaves it in.\<close>

inductive message_life :: "message_event list \<Rightarrow> stage option \<Rightarrow> message_event option \<Rightarrow> bool" where
  life_polled: "message_life [MPolled] (Some Polling) (Some MPolled)"
| life_scheduled: "message_life es sg (Some MPolled) \<Longrightarrow> message_life (es @ [MScheduled]) (Some Scheduling) (Some MScheduled)"
| life_submitted: "message_life es sg (Some MScheduled) \<Longrightarrow> message_life (es @ [MSubmitted]) (Some Submitting) (Some MSubmitted)"
| life_executed: "message_life es sg (Some MSubmitted) \<Longrightarrow> message_life (es @ [MExecuted]) (Some Executing) (Some MExecuted)"
| life_executed_end: "message_life es sg (Some MExecuted) \<Longrightarrow> message_life (es @ [MExecutedEnd]) None (Some MExecutedEnd)"
| life_results: "message_life es sg (Some MExecutedEnd) \<Longrightarrow> message_life (es @ [MResults]) (Some ProcessingResults) (Some MResults)"
| life_published: "message_life es sg (Some MResults) \<Longrightarrow> message_life (es @ [MPublished]) (Some Publishing) (Some MPublished)"
| life_blocked: "message_life es sg (Some MPublished) \<Longrightarrow> message_life (es @ [MBlocked]) (Some WaitingPublish) (Some MBlocked)"
| life_blocked_end: "message_life es sg (Some MBlocked) \<Longrightarrow> message_life (es @ [MBlockedEnd]) None (Some MBlockedEnd)"
| life_published_end: "message_life es sg (Some e) \<Longrightarrow> e \<in> {MPublished, MBlockedEnd} \<Longrightarrow>
    message_life (es @ [MPublishedEnd]) (Some ProcessingResults) (Some MResults)"
| life_results_end: "message_life es sg (Some MResults) \<Longrightarrow> message_life (es @ [MResultsEnd]) None None"

lemma life_stage:
  "message_life es sg e \<Longrightarrow> e = None \<or> (\<exists>x. e = Some x \<and> sg = (case x of
     MPolled \<Rightarrow> Some Polling | MScheduled \<Rightarrow> Some Scheduling | MSubmitted \<Rightarrow> Some Submitting
   | MExecuted \<Rightarrow> Some Executing | MResults \<Rightarrow> Some ProcessingResults | MPublished \<Rightarrow> Some Publishing
   | MBlocked \<Rightarrow> Some WaitingPublish | _ \<Rightarrow> None))"
  by (induction rule: message_life.induct) auto

definition counted :: "pipeline_name \<Rightarrow> nat \<Rightarrow> stage_state \<Rightarrow> bool" where
  "counted n m st \<longleftrightarrow> (case dget st n of None \<Rightarrow> False | Some ps \<Rightarrow> m \<in> us_messages ps)"

lemma counted_push [simp]: "counted n m (stage_push rd n m st)"
  by (cases rd) (simp add: counted_def stage_push_def usage_add_def Let_def)

lemma counted_pop [simp]: "\<not> counted n m (stage_pop rd n m st)"
  by (auto simp: counted_def stage_pop_def usage_pop_def Let_def split: option.split)

lemma counted_moves [simp]:
  "counted n m (push_to sg rd n m st sg') \<longleftrightarrow> sg' = sg \<or> counted n m (st sg')"
  "counted n m (pop_from sg rd n m st sg') \<longleftrightarrow> sg' \<noteq> sg \<and> counted n m (st sg')"
  by (auto simp: push_to_def pop_from_def)

lemma counted_empty [simp]: "\<not> counted n m []"
  by (simp add: counted_def)

text \<open>At every moment of its life a message counts in exactly the stage it is in, and in none at the end.\<close>

lemma one_stage_at_a_time:
  assumes "message_life es sg e" and "map fst ers = es"
  shows "counted n m (fold (\<lambda>(e, rd). on_event e rd n m) ers (\<lambda>_. []) s) \<longleftrightarrow> sg = Some s"
  using assms
proof (induction arbitrary: ers s rule: message_life.induct)
  case life_polled
  then show ?case by auto
qed (auto simp: map_eq_append_conv map_eq_Cons_conv dest!: life_stage)

section \<open>Counters\<close>

text \<open>An instrument is named by the suffix of its name; an addition is its attributes and its amount.\<close>

datatype instrument = MessageCounter | ResourceCounter | OutputCounter | PublishCounter | BlockedCounter

type_synonym addition = "instrument \<times> (string, string) pydict \<times> int"

definition executable_params :: "queue_item \<Rightarrow> pipeline_info \<Rightarrow> (string, string) pydict" where
  "executable_params q p =
     dor [(''datalineup.executor.name'', qi_executor q), (''datalineup.job.name'', qi_name q), (''pipeline'', pi_name p)]
       (map (\<lambda>(k, v). (''datalineup.job.labels.'' @ k, v)) (qi_labels q))"

definition count_message :: "(string, string) pydict \<Rightarrow> string \<Rightarrow> addition" where
  "count_message params state = (MessageCounter, dset ''state'' state params, 1)"

text \<open>\<open>Counter\<close>: the occurrences of each key, in the order of the first ones.\<close>

definition tally :: "string list \<Rightarrow> (string, nat) pydict" where
  "tally ks = fold (\<lambda>k d. dset k (dget_or d k 0 + 1) d) ks []"

definition count_results :: "(string, string) pydict \<Rightarrow> pipeline_results \<Rightarrow> addition list" where
  "count_results params r =
     map (\<lambda>u. (ResourceCounter, [(''type'', ru_type u)], 1)) (pr_resources r) @
     map (\<lambda>(c, k). (OutputCounter, dset ''channel'' c params, int k)) (tally (map po_channel (pr_outputs r)))"

datatype executed = ExecutedOk pipeline_results | ExecutedHandled pipeline_results | ExecutedFailed

definition count_executed :: "(string, string) pydict \<Rightarrow> executed \<Rightarrow> addition list" where
  "count_executed params out =
     count_message params ''executing'' #
     (case out of
        ExecutedOk r \<Rightarrow> count_message params ''success'' # count_results params r
      | ExecutedHandled r \<Rightarrow> count_message params ''failed_handled'' # count_results params r
      | ExecutedFailed \<Rightarrow> [count_message params ''failed''])"

definition count_published :: "(string, string) pydict \<Rightarrow> string \<Rightarrow> bool \<Rightarrow> addition list" where
  "count_published params topic ok =
     (let ps = dset ''topic'' topic params
      in [(PublishCounter, dset ''state'' ''before'' ps, 1),
          (PublishCounter, dset ''state'' (if ok then ''success'' else ''failed'') ps, 1)])"

definition count_blocked :: "(string, string) pydict \<Rightarrow> string \<Rightarrow> addition list" where
  "count_blocked params topic =
     [(BlockedCounter, dset ''topic'' topic params, 1), (BlockedCounter, dset ''topic'' topic params, - 1)]"

definition total :: "instrument \<Rightarrow> addition list \<Rightarrow> int" where
  "total i as = sum_list (map (\<lambda>(j, _, n). if j = i then n else 0) as)"

lemma tally_count: "dget_or (tally ks) k 0 = count_list ks k"
proof -
  have "dget_or (fold (\<lambda>k d. dset k (dget_or d k 0 + 1) d) ks d) k 0 = dget_or d k 0 + count_list ks k" for d
    by (induction ks arbitrary: d) (auto simp: dget_or_def split: option.splits)
  from this [of "[]"] show ?thesis by (simp add: tally_def dget_or_def)
qed

lemma tally_total: "sum_list (map snd (tally ks)) = List.length ks"
proof -
  have step: "sum_list (map snd (dset k (Suc (dget_or d k 0)) d)) = Suc (sum_list (map snd d))" if "wfd d" for d k
    using that by (induction d) (auto simp: wfd_def dset_def dget_or_def split: option.splits)
  have "sum_list (map snd (fold (\<lambda>k d. dset k (dget_or d k 0 + 1) d) ks d)) = sum_list (map snd d) + List.length ks"
    if "wfd d" for d
    using that by (induction ks arbitrary: d) (simp_all add: step)
  from this [of "[]"] show ?thesis by (simp add: tally_def)
qed

text \<open>
  Each execution counts two messages, one before and one for how it ended; each output counts once, under its
  channel; and a topic that was blocked is not blocked in the end.
\<close>

lemma executed_totals:
  "total MessageCounter (count_executed params out) = 2"
  "total OutputCounter (count_results params r) = int (List.length (pr_outputs r))"
  "total BlockedCounter (count_blocked params topic) = 0"
proof -
  have o: "total OutputCounter (map (\<lambda>(c, k). (OutputCounter, f c, int k)) d) = int (sum_list (map snd d))"
    "total MessageCounter (map (\<lambda>(c, k). (OutputCounter, f c, int k)) d) = 0" for f and d :: "(string, nat) pydict"
    by (induction d) (auto simp: total_def)
  have r: "total i (map (\<lambda>u. (ResourceCounter, f u, 1)) us) = 0" if "i \<noteq> ResourceCounter" for i f and us :: "resource_used list"
    using that by (induction us) (auto simp: total_def)
  have a: "total i (xs @ ys) = total i xs + total i ys" for i xs ys by (simp add: total_def)
  have c: "total i (x # xs) = (if fst x = i then snd (snd x) else 0) + total i xs" for i x xs by (simp add: total_def split_def)
  have n: "total i [] = 0" for i by (simp add: total_def)
  have results: "total MessageCounter (count_results params r) = 0" for r by (simp add: count_results_def a o r)
  show "total OutputCounter (count_results params r) = int (List.length (pr_outputs r))"
    by (simp add: count_results_def a o r tally_total)
  show "total MessageCounter (count_executed params out) = 2"
    by (simp add: count_executed_def c n results count_message_def split: executed.split)
  show "total BlockedCounter (count_blocked params topic) = 0" by (simp add: count_blocked_def total_def)
qed

end
