(* ===== verification/Arq_Executor.thy ===== *)
theory Arq_Executor
  imports Prelude
begin

text \<open>
  The remote executor: \<open>worker/executors/arq/executor.py\<close> (the worker's side) and
  \<open>worker/executors/arq/worker.py\<close> (the remote side).

  Each side keeps a key in redis alive while it works on a job and gives up when the other's key has
  expired. The two loops are a timed step relation: time passes in \<open>Tick\<close>, and every other step happens
  at most \<open>d\<close> after it has become due (the delay of the event loop and of redis). Times are
  milliseconds, \<open>period\<close> is \<open>healthcheck_interval * 1000\<close>; a key set at \<open>t\<close> expires at \<open>t + 2 * period\<close>.
\<close>

section \<open>Connecting\<close>

text \<open>The attempts to connect, by their outcome: whether it raises, and an error that is retried or not.\<close>

datatype connect_outcome = Connected | RetriableError exn | OtherError exn

text \<open>The result, and how often the loop has slept; \<open>conn k\<close> is the outcome of the \<open>k\<close>-th attempt.\<close>

function redis_connect :: "nat \<Rightarrow> (nat \<Rightarrow> connect_outcome) \<Rightarrow> nat \<Rightarrow> unit result \<times> nat" where
  "redis_connect retries conn retry =
     (case conn retry of
        Connected \<Rightarrow> (Inr (), retry)
      | OtherError e \<Rightarrow> (Inl e, retry)
      | RetriableError e \<Rightarrow> if retry < retries then redis_connect retries conn (retry + 1) else (Inl e, retry))"
  by pat_completeness auto
termination by (relation "measure (\<lambda>(retries, _, retry). retries - retry)") auto

declare redis_connect.simps [simp del]

lemma redis_connect_bounded: "retry \<le> retries \<Longrightarrow> snd (redis_connect retries conn retry) \<le> retries"
proof (induction retries conn retry rule: redis_connect.induct)
  case (1 retries conn retry)
  then show ?case by (subst redis_connect.simps) (auto split: connect_outcome.split)
qed

lemma redis_connect_first:
  assumes "k \<le> retries" and "conn k = Connected" and "\<forall>j. r \<le> j \<and> j < k \<longrightarrow> (\<exists>e. conn j = RetriableError e)" and "r \<le> k"
  shows "redis_connect retries conn r = (Inr (), k)"
  using assms
proof (induction retries conn r rule: redis_connect.induct)
  case (1 retries conn r)
  show ?case
  proof (cases "r = k")
    case True
    with 1(3) show ?thesis by (subst redis_connect.simps) simp
  next
    case False
    then have "r < k" using 1(5) by simp
    then obtain e where e: "conn r = RetriableError e" using 1(4) by blast
    moreover have "r < retries" using \<open>r < k\<close> 1(2) by simp
    moreover have "redis_connect retries conn (r + 1) = (Inr (), k)"
      using 1(1) [OF e \<open>r < retries\<close> 1(2,3)] 1(4) \<open>r < k\<close> by simp
    ultimately show ?thesis by (subst redis_connect.simps) simp
  qed
qed

section \<open>The end of a job\<close>

text \<open>\<open>process_message\<close>: a result that is there wins over a failed health check.\<close>

datatype arq_outcome = ArqResult "unit result" | WorkerDied | StillWaiting

definition process_message_done :: "unit result option \<Rightarrow> bool \<Rightarrow> arq_outcome" where
  "process_message_done result healthcheck_done =
     (case result of Some r \<Rightarrow> ArqResult r | None \<Rightarrow> if healthcheck_done then WorkerDied else StillWaiting)"

text \<open>\<open>remote_execute\<close>: the pipeline's token is cancelled only when the worker is gone.\<close>

definition remote_execute_done :: "unit result option \<Rightarrow> bool \<Rightarrow> arq_outcome \<times> bool" where
  "remote_execute_done result healthcheck_done =
     (case result of
        Some r \<Rightarrow> (ArqResult r, False)
      | None \<Rightarrow> if healthcheck_done then (WorkerDied, True) else (StillWaiting, False))"

section \<open>The two loops\<close>

datatype side =
    NotStarted
  | Setting time \<comment> \<open>about to set its key, at the latest then\<close>
  | Sleeping time \<comment> \<open>until then\<close>
  | GaveUp
  | Crashed

record arq =
  aq_now :: time
  aq_wkey :: time
  aq_ekey :: time
  aq_worker :: side
  aq_remote :: side
  aq_monitoring :: bool \<comment> \<open>the worker has left its first loop\<close>
  aq_started :: time \<comment> \<open>when the remote side started; read by no step\<close>
  aq_monitored :: time \<comment> \<open>when the worker started monitoring; read by no step\<close>

definition arq_init :: "time \<Rightarrow> arq" where
  "arq_init d = \<lparr>aq_now = 0, aq_wkey = 0, aq_ekey = 0, aq_worker = Setting d, aq_remote = NotStarted,
     aq_monitoring = False, aq_started = 0, aq_monitored = 0\<rparr>"

fun in_time :: "time \<Rightarrow> time \<Rightarrow> side \<Rightarrow> bool" where
  "in_time d t (Setting limit) = (t \<le> limit)"
| "in_time d t (Sleeping until) = (t \<le> until + d)"
| "in_time d t _ = True"

definition worker_set :: "time \<Rightarrow> arq \<Rightarrow> arq" where
  "worker_set period s = s\<lparr>aq_wkey := aq_now s + 2 * period, aq_worker := Sleeping (aq_now s + period)\<rparr>"

definition remote_set :: "time \<Rightarrow> arq \<Rightarrow> arq" where
  "remote_set period s = s\<lparr>aq_ekey := aq_now s + 2 * period, aq_remote := Sleeping (aq_now s + period)\<rparr>"

text \<open>The worker wakes up: in the first loop it asks whether the job is still queued, in the second for the key.\<close>

definition worker_wake :: "time \<Rightarrow> arq \<Rightarrow> arq" where
  "worker_wake d s =
     (if \<not> aq_monitoring s
      then s\<lparr>aq_worker := Setting (aq_now s + d), aq_monitoring := aq_remote s \<noteq> NotStarted, aq_monitored := aq_now s\<rparr>
      else s\<lparr>aq_worker := (if aq_now s < aq_ekey s then Setting (aq_now s + d) else GaveUp)\<rparr>)"

definition remote_wake :: "time \<Rightarrow> arq \<Rightarrow> arq" where
  "remote_wake d s = s\<lparr>aq_remote := (if aq_now s < aq_wkey s then Setting (aq_now s + d) else GaveUp)\<rparr>"

definition remote_start :: "time \<Rightarrow> arq \<Rightarrow> arq" where
  "remote_start d s = s\<lparr>aq_remote := Setting (aq_now s + d), aq_started := aq_now s\<rparr>"

inductive arq_step :: "time \<Rightarrow> time \<Rightarrow> arq \<Rightarrow> arq \<Rightarrow> bool" for period d where
  Tick: "aq_now s < t \<Longrightarrow> in_time d t (aq_worker s) \<Longrightarrow> in_time d t (aq_remote s) \<Longrightarrow>
    arq_step period d s (s\<lparr>aq_now := t\<rparr>)"
| Worker_set: "aq_worker s = Setting l \<Longrightarrow> arq_step period d s (worker_set period s)"
| Worker_wake: "aq_worker s = Sleeping u \<Longrightarrow> u \<le> aq_now s \<Longrightarrow> arq_step period d s (worker_wake d s)"
| Remote_start: "aq_remote s = NotStarted \<Longrightarrow> arq_step period d s (remote_start d s)"
| Remote_set: "aq_remote s = Setting l \<Longrightarrow> arq_step period d s (remote_set period s)"
| Remote_wake: "aq_remote s = Sleeping u \<Longrightarrow> u \<le> aq_now s \<Longrightarrow> arq_step period d s (remote_wake d s)"
| Worker_crash: "arq_step period d s (s\<lparr>aq_worker := Crashed\<rparr>)"
| Remote_crash: "aq_remote s \<noteq> NotStarted \<Longrightarrow> arq_step period d s (s\<lparr>aq_remote := Crashed\<rparr>)"

inductive arq_reachable :: "time \<Rightarrow> time \<Rightarrow> arq \<Rightarrow> bool" for period d where
  Init: "arq_reachable period d (arq_init d)"
| Step: "arq_reachable period d s \<Longrightarrow> arq_step period d s t \<Longrightarrow> arq_reachable period d t"

definition alive :: "side \<Rightarrow> bool" where
  "alive x \<longleftrightarrow> (case x of Setting _ \<Rightarrow> True | Sleeping _ \<Rightarrow> True | _ \<Rightarrow> False)"

text \<open>
  A side that is alive and has set its key: the key lives at least until its next refresh. \<open>since\<close> is when
  the side started; before its first refresh the key is not there.
\<close>

definition refreshes :: "time \<Rightarrow> time \<Rightarrow> time \<Rightarrow> time \<Rightarrow> time \<Rightarrow> side \<Rightarrow> bool" where
  "refreshes period d since now key x \<longleftrightarrow>
     (case x of
        Setting l \<Rightarrow> now \<le> l \<and> l \<le> now + d \<and> (l + period \<le> key + 2 * d \<or> l \<le> since + d)
      | Sleeping u \<Rightarrow> u + period = key \<and> now \<le> u + d \<and> u \<le> now + period \<and> since + period \<le> u
      | _ \<Rightarrow> True)"

definition arq_inv :: "time \<Rightarrow> time \<Rightarrow> arq \<Rightarrow> bool" where
  "arq_inv period d s \<longleftrightarrow> 0 \<le> aq_now s \<and>
     aq_wkey s \<le> aq_now s + 2 * period \<and> aq_ekey s \<le> aq_now s + 2 * period \<and>
     refreshes period d 0 (aq_now s) (aq_wkey s) (aq_worker s) \<and>
     refreshes period d (aq_started s) (aq_now s) (aq_ekey s) (aq_remote s) \<and>
     0 \<le> aq_started s \<and> aq_started s \<le> aq_now s \<and>
     (aq_monitoring s \<longrightarrow> aq_remote s \<noteq> NotStarted \<and> aq_started s \<le> aq_monitored s \<and> aq_monitored s \<le> aq_now s \<and>
        (\<forall>u. aq_worker s = Sleeping u \<longrightarrow> aq_monitored s + period \<le> u)) \<and>
     (aq_remote s = GaveUp \<longrightarrow> \<not> alive (aq_worker s)) \<and> (aq_worker s = GaveUp \<longrightarrow> \<not> alive (aq_remote s) \<and> aq_remote s \<noteq> NotStarted) \<and>
     aq_worker s \<noteq> NotStarted"

text \<open>The key of a live side is there when the other side looks, a whole period after both have started.\<close>

lemma refreshed_key:
  assumes "refreshes period d since now key x" and "alive x" and "0 \<le> d" and "2 * d < period"
    and "since + period \<le> now"
  shows "now < key"
  using assms by (auto simp: refreshes_def alive_def split: side.splits)

lemma alive_simps [simp]:
  "alive (Setting l)" "alive (Sleeping u)" "\<not> alive GaveUp" "\<not> alive Crashed" "\<not> alive NotStarted"
  by (simp_all add: alive_def)

lemma refreshes_simps [simp]:
  "refreshes period d since now key (Setting l) \<longleftrightarrow>
     now \<le> l \<and> l \<le> now + d \<and> (l + period \<le> key + 2 * d \<or> l \<le> since + d)"
  "refreshes period d since now key (Sleeping u) \<longleftrightarrow>
     u + period = key \<and> now \<le> u + d \<and> u \<le> now + period \<and> since + period \<le> u"
  "refreshes period d since now key GaveUp" "refreshes period d since now key Crashed"
  "refreshes period d since now key NotStarted"
  by (simp_all add: refreshes_def)

lemma refreshes_tick:
  "refreshes period d since now key x \<Longrightarrow> now < t \<Longrightarrow> in_time d t x \<Longrightarrow> refreshes period d since t key x"
  by (cases x) auto

lemma arq_inv_init: "0 \<le> d \<Longrightarrow> 2 * d < period \<Longrightarrow> arq_inv period d (arq_init d)"
  by (simp add: arq_inv_def arq_init_def)

lemma arq_inv_step:
  assumes "arq_step period d s t" and inv: "arq_inv period d s" and d: "0 \<le> d" "2 * d < period"
  shows "arq_inv period d t"
  using assms(1)
proof cases
  case (Tick t')
  with inv refreshes_tick show ?thesis by (auto simp: arq_inv_def)
next
  case (Worker_set l)
  with inv d show ?thesis by (auto simp: arq_inv_def worker_set_def)
next
  case (Worker_wake u)
  have u: "u + period = aq_wkey s" "aq_now s \<le> u + d" using inv Worker_wake(2) by (simp_all add: arq_inv_def)
  show ?thesis
  proof (cases "aq_monitoring s")
    case False
    with inv d Worker_wake u show ?thesis by (auto simp: arq_inv_def worker_wake_def)
  next
    case True
    show ?thesis
    proof (cases "aq_now s < aq_ekey s")
      case True
      with \<open>aq_monitoring s\<close> inv d Worker_wake u show ?thesis by (auto simp: arq_inv_def worker_wake_def)
    next
      case False
      have "aq_started s + period \<le> aq_now s" using \<open>aq_monitoring s\<close> inv Worker_wake by (auto simp: arq_inv_def)
      then have "\<not> alive (aq_remote s)"
        using refreshed_key [of period d "aq_started s" "aq_now s" "aq_ekey s" "aq_remote s"] inv d False
        by (auto simp: arq_inv_def)
      with False \<open>aq_monitoring s\<close> inv d Worker_wake u show ?thesis by (auto simp: arq_inv_def worker_wake_def)
    qed
  qed
next
  case Remote_start
  with inv d show ?thesis by (auto simp: arq_inv_def remote_start_def)
next
  case (Remote_set l)
  with inv d show ?thesis by (auto simp: arq_inv_def remote_set_def)
next
  case (Remote_wake u)
  have u: "u + period = aq_ekey s" "aq_now s \<le> u + d" "aq_started s + period \<le> u" "0 \<le> aq_started s"
    using inv Remote_wake(2) by (simp_all add: arq_inv_def)
  show ?thesis
  proof (cases "aq_now s < aq_wkey s")
    case True
    with inv d Remote_wake u show ?thesis by (auto simp: arq_inv_def remote_wake_def)
  next
    case False
    then have "\<not> alive (aq_worker s)"
      using refreshed_key [of period d 0 "aq_now s" "aq_wkey s" "aq_worker s"] inv d u Remote_wake(3)
      by (auto simp: arq_inv_def)
    with False inv d Remote_wake u show ?thesis by (auto simp: arq_inv_def remote_wake_def)
  qed
next
  case Worker_crash
  with inv show ?thesis by (auto simp: arq_inv_def)
next
  case Remote_crash
  with inv show ?thesis by (auto simp: arq_inv_def)
qed

lemma arq_reachable_inv:
  "arq_reachable period d s \<Longrightarrow> 0 \<le> d \<Longrightarrow> 2 * d < period \<Longrightarrow> arq_inv period d s"
  by (induction rule: arq_reachable.induct) (auto intro: arq_inv_init arq_inv_step)

text \<open>
  How long a side goes on after the other has stopped refreshing: the last look at a live key was before it
  expired, and the next look is due a period and two delays later.
\<close>

definition outlives :: "time \<Rightarrow> time \<Rightarrow> time \<Rightarrow> side \<Rightarrow> bool" where
  "outlives period d limit x \<longleftrightarrow>
     (case x of
        Setting l \<Rightarrow> l \<le> limit + d
      | Sleeping u \<Rightarrow> u \<le> limit + d + period
      | _ \<Rightarrow> True)"

definition watch_inv :: "time \<Rightarrow> time \<Rightarrow> arq \<Rightarrow> bool" where
  "watch_inv period d s \<longleftrightarrow>
     outlives period d (max (aq_wkey s) (aq_started s)) (aq_remote s) \<and>
     (aq_monitoring s \<longrightarrow> outlives period d (max (aq_ekey s) (aq_monitored s)) (aq_worker s))"

lemma outlives_simps [simp]:
  "outlives period d limit (Setting l) \<longleftrightarrow> l \<le> limit + d" "outlives period d limit (Sleeping u) \<longleftrightarrow> u \<le> limit + d + period"
  "outlives period d limit GaveUp" "outlives period d limit Crashed" "outlives period d limit NotStarted"
  by (simp_all add: outlives_def)

lemma outlives_mono: "outlives period d limit x \<Longrightarrow> limit \<le> limit' \<Longrightarrow> outlives period d limit' x"
  by (cases x) auto

lemma watch_inv_step:
  assumes "arq_step period d s t" and inv: "arq_inv period d s" and w: "watch_inv period d s" and d: "0 \<le> d" "2 * d < period"
  shows "watch_inv period d t"
  using assms(1)
proof cases
  case (Worker_set l)
  have "outlives period d (max (aq_now s + 2 * period) (aq_started s)) (aq_remote s)"
    using w inv d Worker_set(2) by (auto simp: watch_inv_def arq_inv_def elim!: outlives_mono)
  with w inv d Worker_set show ?thesis by (auto simp: watch_inv_def worker_set_def arq_inv_def)
next
  case (Worker_wake u)
  with w inv d show ?thesis by (auto simp: watch_inv_def worker_wake_def arq_inv_def)
next
  case Remote_start
  with w inv d show ?thesis by (auto simp: watch_inv_def remote_start_def arq_inv_def)
next
  case (Remote_set l)
  have "aq_monitoring s \<Longrightarrow> outlives period d (max (aq_now s + 2 * period) (aq_monitored s)) (aq_worker s)"
    using w inv d Remote_set(2) by (auto simp: watch_inv_def arq_inv_def elim!: outlives_mono)
  with w inv d Remote_set show ?thesis by (auto simp: watch_inv_def remote_set_def arq_inv_def)
next
  case (Remote_wake u)
  with w inv d show ?thesis by (auto simp: watch_inv_def remote_wake_def arq_inv_def)
qed (use w in \<open>auto simp: watch_inv_def\<close>)

lemma watch_reachable:
  "arq_reachable period d s \<Longrightarrow> 0 \<le> d \<Longrightarrow> 2 * d < period \<Longrightarrow> watch_inv period d s"
proof (induction rule: arq_reachable.induct)
  case Init
  then show ?case by (simp add: watch_inv_def arq_init_def)
next
  case (Step s t)
  then show ?case using watch_inv_step arq_reachable_inv by blast
qed

section \<open>No false alarm, and every death is seen\<close>

text \<open>
  C8: the health checks of a remote job neither raise a false alarm nor miss a death. As long as no step
  is late by half a period, a side gives up only when the other one is not alive any more; and a side that
  is alive and watches has the other's key before it, or gives up within a period and two delays of the key's
  expiry or of the start of its watch.
\<close>

theorem heartbeat_exact:
  assumes "arq_reachable period d s" and "0 \<le> d" and "2 * d < period"
  shows "(aq_remote s = GaveUp \<longrightarrow> \<not> alive (aq_worker s)) \<and> (aq_worker s = GaveUp \<longrightarrow> \<not> alive (aq_remote s)) \<and>
    (alive (aq_remote s) \<longrightarrow> aq_now s \<le> max (aq_wkey s) (aq_started s) + period + 2 * d) \<and>
    (alive (aq_worker s) \<and> aq_monitoring s \<longrightarrow> aq_now s \<le> max (aq_ekey s) (aq_monitored s) + period + 2 * d)"
proof -
  have inv: "arq_inv period d s" "watch_inv period d s"
    using arq_reachable_inv [OF assms] watch_reachable [OF assms] .
  have late: "aq_now s \<le> limit + period + 2 * d"
    if "alive x" "refreshes period d since (aq_now s) key x" "outlives period d limit x" for x limit since key
    using that assms(2,3) by (cases x) auto
  have "alive (aq_remote s) \<longrightarrow> aq_now s \<le> max (aq_wkey s) (aq_started s) + period + 2 * d"
    using late [of "aq_remote s"] inv by (auto simp: arq_inv_def watch_inv_def)
  moreover have "alive (aq_worker s) \<and> aq_monitoring s \<longrightarrow> aq_now s \<le> max (aq_ekey s) (aq_monitored s) + period + 2 * d"
    using late [of "aq_worker s"] inv by (auto simp: arq_inv_def watch_inv_def)
  ultimately show ?thesis using inv(1) by (simp add: arq_inv_def)
qed

text \<open>The worker dies after its first refresh, at 1; the remote side, which refreshed at 5000, gives up at 25000.\<close>

definition demo_arq :: "arq" where
  "demo_arq = \<lparr>aq_now = 25000, aq_wkey = 20001, aq_ekey = 35000, aq_worker = Crashed, aq_remote = Sleeping 25000,
     aq_monitoring = False, aq_started = 5000, aq_monitored = 0\<rparr>"

lemma demo_arq_reachable: "arq_reachable 10000 100 demo_arq"
proof -
  note step = Step [of 10000 100]
  let ?s1 = "(arq_init 100)\<lparr>aq_now := 1\<rparr>"
  let ?s2 = "worker_set 10000 ?s1"
  let ?s3 = "?s2\<lparr>aq_worker := Crashed\<rparr>"
  let ?s4 = "?s3\<lparr>aq_now := 5000\<rparr>"
  let ?s5 = "remote_set 10000 (remote_start 100 ?s4)"
  let ?s6 = "?s5\<lparr>aq_now := 15000\<rparr>"
  let ?s7 = "remote_set 10000 (remote_wake 100 ?s6)"
  note d = arq_init_def worker_set_def remote_set_def remote_start_def remote_wake_def
  have 3: "arq_reachable 10000 100 ?s3"
    by (rule step [OF step [OF step [OF Init Tick] Worker_set] Worker_crash]) (simp_all add: d)
  have 5: "arq_reachable 10000 100 ?s5"
    by (rule step [OF step [OF step [OF 3 Tick] Remote_start] Remote_set]) (simp_all add: d)
  have 7: "arq_reachable 10000 100 ?s7"
    by (rule step [OF step [OF step [OF 5 Tick] Remote_wake [where u = 15000]] Remote_set]) (simp_all add: d)
  have "demo_arq = ?s7\<lparr>aq_now := 25000\<rparr>" by (simp add: demo_arq_def d)
  moreover have "arq_reachable 10000 100 (?s7\<lparr>aq_now := 25000\<rparr>)"
    by (rule step [OF 7 Tick]) (simp_all add: d)
  ultimately show ?thesis by simp
qed

lemma heartbeat_exact_witness:
  "aq_remote (remote_wake 100 demo_arq) = GaveUp \<and> \<not> alive (aq_worker (remote_wake 100 demo_arq)) \<and>
   aq_now demo_arq \<le> max (aq_wkey demo_arq) (aq_started demo_arq) + 10000 + 2 * 100"
proof -
  have "arq_step 10000 100 demo_arq (remote_wake 100 demo_arq)"
    by (rule Remote_wake [where u = 25000]) (simp_all add: demo_arq_def)
  with demo_arq_reachable have r: "arq_reachable 10000 100 (remote_wake 100 demo_arq)" by (rule Step)
  have g: "aq_remote (remote_wake 100 demo_arq) = GaveUp" by (simp add: remote_wake_def demo_arq_def)
  have "alive (aq_remote demo_arq)" by (simp add: demo_arq_def)
  with heartbeat_exact [OF demo_arq_reachable] heartbeat_exact [OF r] g show ?thesis by simp
qed

end
