(* ===== verification/Import_Names.thy ===== *)
theory Import_Names
  imports Core_Types
begin

text \<open>
  Naming objects and finding them again: \<open>get_import_name\<close>, \<open>import_name\<close>, \<open>getattribute\<close> and
  \<open>whichmodule\<close> of \<open>utils/inspect.py\<close>, and \<open>PipelineInfo\<close> of \<open>core/pipeline.py\<close>, which carries a pipeline by its
  name from the manager to the process that runs it.

  The interpreter's state is a record: objects are numbered, \<open>py_modules\<close> are the modules that can be
  imported, in the order of \<open>sys.modules\<close>. \<open>py_signature\<close> is \<open>inspect.signature\<close> (\<open>None\<close> where it raises),
  \<open>py_eval\<close> the built-in \<open>eval\<close> in the globals of a function (\<open>None\<close> where it raises), \<open>py_is_resource\<close> holds
  for the subclasses of \<open>Resource\<close> and \<open>py_typename\<close> is their \<open>typename\<close>.
\<close>

section \<open>Objects and modules\<close>

datatype annotation = Ann_string string | Ann_object nat

record signature =
  sig_parameters :: "(string \<times> annotation) list"
  sig_return :: annotation

record python =
  py_modules :: "(string, nat) pydict"
  py_attrs :: "nat \<Rightarrow> (string, nat) pydict"
  py_module :: "nat \<Rightarrow> string option"
  py_qualname :: "nat \<Rightarrow> string option"
  py_name :: "nat \<Rightarrow> string"
  py_signature :: "nat \<Rightarrow> signature option"
  py_eval :: "nat \<Rightarrow> string \<Rightarrow> nat option"
  py_is_resource :: "nat \<Rightarrow> bool"
  py_typename :: "nat \<Rightarrow> string option"

text \<open>What the functions below raise; \<open>ModuleNotFoundError\<close> is an \<open>ImportError\<close>.\<close>

datatype import_error = ModuleNotFound string | AttributeErr string | ImportValueError

definition is_dot :: "char \<Rightarrow> bool" where
  "is_dot c \<longleftrightarrow> c = CHR ''.''"

fun split_dots :: "string \<Rightarrow> string list" where
  "split_dots [] = [[]]"
| "split_dots (c # s) =
     (if is_dot c then [] # split_dots s
      else case split_dots s of [] \<Rightarrow> [[c]] | p # ps \<Rightarrow> (c # p) # ps)"

text \<open>\<open>rpartition\<close> at the last dot; without a dot the module is empty.\<close>

definition rpartition :: "string \<Rightarrow> string \<times> string" where
  "rpartition s =
     (rev (tl (dropWhile (\<lambda>c. \<not> is_dot c) (rev s))), rev (takeWhile (\<lambda>c. \<not> is_dot c) (rev s)))"

fun get_path :: "python \<Rightarrow> nat \<Rightarrow> string list \<Rightarrow> import_error + nat" where
  "get_path py x [] = Inr x"
| "get_path py x (p # ps) =
     (if p = ''<locals>'' then Inl (AttributeErr p)
      else case dget (py_attrs py x) p of None \<Rightarrow> Inl (AttributeErr p) | Some y \<Rightarrow> get_path py y ps)"

definition getattribute :: "python \<Rightarrow> nat \<Rightarrow> string \<Rightarrow> import_error + nat" where
  "getattribute py x name = get_path py x (split_dots name)"

definition import_module :: "python \<Rightarrow> string \<Rightarrow> import_error + nat" where
  "import_module py m = (case dget (py_modules py) m of None \<Rightarrow> Inl (ModuleNotFound m) | Some x \<Rightarrow> Inr x)"

definition whichmodule :: "python \<Rightarrow> nat \<Rightarrow> string \<Rightarrow> string" where
  "whichmodule py x name =
     (case py_module py x of
        Some m \<Rightarrow> m
      | None \<Rightarrow>
          (case find (\<lambda>(m, y). m \<noteq> ''__main__'' \<and> m \<noteq> ''__mp_main__'' \<and> getattribute py y name = Inr x) (py_modules py) of
             Some (m, _) \<Rightarrow> m
           | None \<Rightarrow> ''__main__''))"

definition object_name :: "python \<Rightarrow> nat \<Rightarrow> string" where
  "object_name py x = (case py_qualname py x of Some q \<Rightarrow> q | None \<Rightarrow> py_name py x)"

definition get_import_name :: "python \<Rightarrow> nat \<Rightarrow> import_error + string" where
  "get_import_name py x =
     (let name = object_name py x; m = whichmodule py x name in
      case rbind (import_module py m) (\<lambda>y. getattribute py y name) of
        Inl _ \<Rightarrow> Inl ImportValueError
      | Inr x' \<Rightarrow> if x' \<noteq> x then Inl ImportValueError else Inr (m @ ''.'' @ name))"

lemma rpartition_shorter:
  assumes "m \<noteq> []"
  shows "List.length (fst (rpartition m)) < List.length m"
proof (cases "dropWhile (\<lambda>c. \<not> is_dot c) (rev m)")
  case Nil
  with assms show ?thesis by (simp add: rpartition_def del: dropWhile_eq_Nil_conv)
next
  case (Cons c cs)
  with length_dropWhile_le [of "\<lambda>c. \<not> is_dot c" "rev m"] show ?thesis by (simp add: rpartition_def)
qed

function import_from :: "python \<Rightarrow> string \<Rightarrow> string \<Rightarrow> import_error + nat" where
  "import_from py m name =
     (if m = [] then Inl (ModuleNotFound name)
      else case import_module py m of
        Inr y \<Rightarrow> getattribute py y name
      | Inl _ \<Rightarrow> (case rpartition m of (m', n) \<Rightarrow> import_from py m' (n @ ''.'' @ name)))"
  by pat_completeness auto
termination
  by (relation "measure (\<lambda>(_, m, _). List.length m)") (simp, metis fst_conv in_measure prod.case rpartition_shorter)

declare import_from.simps [simp del]

definition import_name :: "python \<Rightarrow> string \<Rightarrow> import_error + nat" where
  "import_name py s = (case rpartition s of (m, name) \<Rightarrow> import_from py m name)"

section \<open>Round trip\<close>

lemma rpartition_dot [simp]:
  assumes "\<not> list_ex is_dot y"
  shows "rpartition (x @ ''.'' @ y) = (x, y)"
proof -
  have "takeWhile (\<lambda>c. \<not> is_dot c) (rev y @ ''.'' @ rev x) = rev y"
    "dropWhile (\<lambda>c. \<not> is_dot c) (rev y @ ''.'' @ rev x) = ''.'' @ rev x"
    using assms by (auto simp: list_ex_iff takeWhile_append dropWhile_append is_dot_def)
  then show ?thesis by (simp add: rpartition_def)
qed

lemma import_from_missing:
  assumes "m \<noteq> []" and "dget (py_modules py) m = None" and "rpartition m = (m', n)"
  shows "import_from py m name = import_from py m' (n @ ''.'' @ name)"
  using assms by (subst import_from.simps) (simp add: import_module_def)

lemma import_from_found:
  "m \<noteq> [] \<Longrightarrow> dget (py_modules py) m = Some y \<Longrightarrow> import_from py m name = getattribute py y name"
  by (subst import_from.simps) (simp add: import_module_def)

lemma last_dot:
  "list_ex is_dot s \<Longrightarrow> \<exists>x y. s = x @ ''.'' @ y \<and> \<not> list_ex is_dot y"
proof (induction s)
  case (Cons c s)
  show ?case
  proof (cases "list_ex is_dot s")
    case True
    then obtain x y where "s = x @ ''.'' @ y" "\<not> list_ex is_dot y" using Cons.IH by blast
    then show ?thesis by (intro exI [of _ "c # x"] exI [of _ y]) simp
  next
    case False
    with Cons.prems have "is_dot c" by simp
    then have "c = CHR ''.''" by (simp only: is_dot_def)
    with False show ?thesis by (intro exI [of _ "[]"] exI [of _ s]) simp
  qed
qed simp

text \<open>No module has the name of one of the objects the name goes through.\<close>

definition unshadowed :: "python \<Rightarrow> string \<Rightarrow> string \<Rightarrow> bool" where
  "unshadowed py m name \<longleftrightarrow> (\<forall>p r. name = p @ ''.'' @ r \<longrightarrow> dget (py_modules py) (m @ ''.'' @ p) = None)"

lemma import_from_prefix:
  assumes "dget (py_modules py) m = Some y" and "m \<noteq> []" and "unshadowed py m (p @ ''.'' @ rest)"
  shows "import_from py (m @ ''.'' @ p) rest = getattribute py y (p @ ''.'' @ rest)"
  using assms(3)
proof (induction "List.length p" arbitrary: p rest rule: less_induct)
  case less
  have none: "dget (py_modules py) (m @ ''.'' @ p) = None"
    using less.prems by (auto simp: unshadowed_def)
  show ?case
  proof (cases "list_ex is_dot p")
    case False
    then have "import_from py (m @ ''.'' @ p) rest = import_from py m (p @ ''.'' @ rest)"
      by (intro import_from_missing none rpartition_dot) simp
    with assms(1,2) show ?thesis by (simp add: import_from_found)
  next
    case True
    then obtain p' n where p: "p = p' @ ''.'' @ n" "\<not> list_ex is_dot n" using last_dot by blast
    have "rpartition (m @ ''.'' @ p) = (m @ ''.'' @ p', n)"
      using rpartition_dot [OF p(2), of "m @ ''.'' @ p'"] by (simp add: p(1))
    then have "import_from py (m @ ''.'' @ p) rest = import_from py (m @ ''.'' @ p') (n @ ''.'' @ rest)"
      by (intro import_from_missing none) simp
    also have "\<dots> = getattribute py y (p' @ ''.'' @ n @ ''.'' @ rest)"
      using less.prems by (intro less.hyps) (simp_all add: p(1))
    finally show ?thesis by (simp add: p(1))
  qed
qed

lemma import_name_no_dot:
  "\<not> list_ex is_dot name \<Longrightarrow> import_name py (m @ ''.'' @ name) = import_from py m name"
  using rpartition_dot [of name m] by (simp add: import_name_def)

lemma import_name_dot:
  assumes "\<not> list_ex is_dot r"
  shows "import_name py (m @ ''.'' @ p @ ''.'' @ r) = import_from py (m @ ''.'' @ p) r"
  using rpartition_dot [OF assms, of "m @ ''.'' @ p"] by (simp add: import_name_def)

lemma import_name_unshadowed:
  assumes "dget (py_modules py) m = Some y" and "m \<noteq> []" and "unshadowed py m name"
  shows "import_name py (m @ ''.'' @ name) = getattribute py y name"
proof (cases "list_ex is_dot name")
  case False
  then show ?thesis using import_from_found [OF assms(2,1)] import_name_no_dot by simp
next
  case True
  then obtain p r where name: "name = p @ ''.'' @ r" "\<not> list_ex is_dot r" using last_dot by blast
  have "import_name py (m @ ''.'' @ name) = import_from py (m @ ''.'' @ p) r"
    by (simp only: name(1) import_name_dot [OF name(2)])
  also have "\<dots> = getattribute py y (p @ ''.'' @ r)"
    using assms by (intro import_from_prefix) (simp_all add: name(1))
  finally show ?thesis by (simp only: name(1))
qed

lemma get_import_name_found:
  assumes "get_import_name py x = Inr s"
  obtains y where "dget (py_modules py) (whichmodule py x (object_name py x)) = Some y"
    and "getattribute py y (object_name py x) = Inr x"
    and "s = whichmodule py x (object_name py x) @ ''.'' @ object_name py x"
  using assms
  by (auto simp: get_import_name_def Let_def import_module_def split: sum.splits option.splits if_splits)

lemma import_name_get_import_name:
  assumes "get_import_name py x = Inr s"
    and "whichmodule py x (object_name py x) \<noteq> []"
    and "unshadowed py (whichmodule py x (object_name py x)) (object_name py x)"
  shows "import_name py s = Inr x"
  using assms(1) by (rule get_import_name_found) (use import_name_unshadowed [OF _ assms(2,3)] in simp)

section \<open>Pipelines by name\<close>

text \<open>\<open>eval_annotations\<close>: the annotations given as strings are evaluated, in the order of the parameters and
  then for the result.\<close>

fun eval_ann :: "python \<Rightarrow> nat \<Rightarrow> annotation \<Rightarrow> import_error + annotation" where
  "eval_ann py f (Ann_string s) =
     (case py_eval py f s of None \<Rightarrow> Inl (AttributeErr s) | Some x \<Rightarrow> Inr (Ann_object x))"
| "eval_ann py f (Ann_object x) = Inr (Ann_object x)"

definition eval_annotations :: "python \<Rightarrow> nat \<Rightarrow> signature \<Rightarrow> import_error + signature" where
  "eval_annotations py f sig =
     rbind (mapM (\<lambda>(n, a). rbind (eval_ann py f a) (\<lambda>a'. Inr (n, a'))) (sig_parameters sig)) (\<lambda>ps.
     rbind (eval_ann py f (sig_return sig)) (\<lambda>r.
     Inr \<lparr> sig_parameters = ps, sig_return = r \<rparr>))"

definition signature_of :: "python \<Rightarrow> nat \<Rightarrow> import_error + signature" where
  "signature_of py f =
     (case py_signature py f of None \<Rightarrow> Inl ImportValueError | Some sig \<Rightarrow> eval_annotations py f sig)"

definition typename_of :: "python \<Rightarrow> nat \<Rightarrow> import_error + string" where
  "typename_of py x =
     (case py_typename py x of
        None \<Rightarrow> get_import_name py x
      | Some t \<Rightarrow> if t = [] then get_import_name py x else Inr t)"

fun get_resources :: "python \<Rightarrow> (string \<times> annotation) list \<Rightarrow> (string, string) pydict \<Rightarrow> import_error + (string, string) pydict" where
  "get_resources py [] d = Inr d"
| "get_resources py ((n, a) # ps) d =
     (case a of
        Ann_object x \<Rightarrow>
          if py_is_resource py x
          then rbind (typename_of py x) (\<lambda>t. get_resources py ps (dset n t d))
          else get_resources py ps d
      | Ann_string s \<Rightarrow> get_resources py ps d)"

definition from_pipeline :: "python \<Rightarrow> nat \<Rightarrow> import_error + pipeline_info" where
  "from_pipeline py f =
     rbind (get_import_name py f) (\<lambda>name.
     case signature_of py f of
       Inl _ \<Rightarrow> Inl ImportValueError
     | Inr sig \<Rightarrow> rbind (get_resources py (sig_parameters sig) []) (\<lambda>rs.
         Inr \<lparr> pi_name = name, pi_resources = rs \<rparr>))"

definition into_pipeline :: "python \<Rightarrow> pipeline_info \<Rightarrow> import_error + nat" where
  "into_pipeline py info = import_name py (pi_name info)"

text \<open>Whatever goes wrong on the way into a \<open>PipelineInfo\<close>, the caller sees a \<open>ValueError\<close>.\<close>

lemma get_import_name_error: "get_import_name py x = Inl e \<Longrightarrow> e = ImportValueError"
  by (auto simp: get_import_name_def Let_def split: sum.splits if_splits)

lemma typename_error: "typename_of py x = Inl e \<Longrightarrow> e = ImportValueError"
  by (auto simp: typename_of_def dest: get_import_name_error split: option.splits if_splits)

lemma get_resources_error: "get_resources py ps d = Inl e \<Longrightarrow> e = ImportValueError"
  by (induction py ps d rule: get_resources.induct)
    (auto simp: rbind_Inl_iff dest: typename_error split: annotation.splits if_splits)

lemma from_pipeline_error: "from_pipeline py f = Inl e \<Longrightarrow> e = ImportValueError"
  by (cases "signature_of py f")
    (auto simp: from_pipeline_def rbind_Inl_iff dest: get_import_name_error get_resources_error)

definition resource_parameters :: "python \<Rightarrow> (string \<times> annotation) list \<Rightarrow> string list" where
  "resource_parameters py ps =
     map fst (filter (\<lambda>(n, a). case a of Ann_object x \<Rightarrow> py_is_resource py x | Ann_string _ \<Rightarrow> False) ps)"

lemma get_resources_keys:
  assumes "get_resources py ps d = Inr rs" and "distinct (map fst ps)" and "set (dkeys d) \<inter> set (map fst ps) = {}"
  shows "dkeys rs = dkeys d @ resource_parameters py ps"
  using assms
proof (induction ps arbitrary: d)
  case Nil
  then show ?case by (simp add: resource_parameters_def)
next
  case (Cons p ps)
  obtain n a where p: "p = (n, a)" by (cases p)
  show ?case
  proof (cases "\<exists>x. a = Ann_object x \<and> py_is_resource py x")
    case True
    then obtain x where a: "a = Ann_object x" "py_is_resource py x" by blast
    with Cons.prems(1) obtain t where t: "get_resources py ps (dset n t d) = Inr rs"
      by (auto simp: rbind_Inr_iff p)
    have "n \<notin> set (dkeys d)" using Cons.prems(3) by (auto simp: p)
    then have keys: "dkeys (dset n t d) = dkeys d @ [n]" by (simp add: dkeys_dset)
    have "dkeys rs = dkeys (dset n t d) @ resource_parameters py ps"
      using Cons.prems by (intro Cons.IH [OF t]) (auto simp: p keys)
    with keys a p show ?thesis by (simp add: resource_parameters_def)
  next
    case False
    then have "get_resources py ps d = Inr rs"
      using Cons.prems(1) by (auto simp: p split: annotation.splits if_splits)
    moreover have "resource_parameters py (p # ps) = resource_parameters py ps"
      using False by (auto simp: resource_parameters_def p split: annotation.splits)
    ultimately show ?thesis using Cons.IH [of d] Cons.prems by auto
  qed
qed

lemma eval_annotations_names:
  assumes "eval_annotations py f sig = Inr sig'"
  shows "map fst (sig_parameters sig') = map fst (sig_parameters sig)"
proof -
  have "map fst qs = map fst ps"
    if "mapM (\<lambda>(n, a). rbind (eval_ann py f a) (\<lambda>a'. Inr (n, a'))) ps = Inr qs" for ps :: "(string \<times> annotation) list" and qs
    using that by (induction ps arbitrary: qs) (auto simp: rbind_Inr_iff)
  with assms show ?thesis by (auto simp: eval_annotations_def rbind_Inr_iff)
qed

text \<open>
  C40: a pipeline survives the trip through \<open>PipelineInfo\<close>: whenever \<open>from_pipeline\<close> accepts a function and no
  importable module hides a prefix of its qualified name, \<open>into_pipeline\<close> finds exactly that function again; and the
  resources recorded are those of the parameters annotated with a \<open>Resource\<close>, in the order of the signature.\<close>

theorem pipeline_info_roundtrip:
  assumes info: "from_pipeline py f = Inr info"
    and m: "whichmodule py f (object_name py f) \<noteq> []"
    and u: "unshadowed py (whichmodule py f (object_name py f)) (object_name py f)"
    and d: "\<forall>sig. py_signature py f = Some sig \<longrightarrow> distinct (map fst (sig_parameters sig))"
  shows "into_pipeline py info = Inr f \<and>
    (\<exists>sig. signature_of py f = Inr sig \<and> dkeys (pi_resources info) = resource_parameters py (sig_parameters sig))"
proof -
  from info obtain s sig rs where s: "get_import_name py f = Inr s" and sig: "signature_of py f = Inr sig"
    and rs: "get_resources py (sig_parameters sig) [] = Inr rs" and i: "info = \<lparr> pi_name = s, pi_resources = rs \<rparr>"
    by (cases "signature_of py f") (auto simp: from_pipeline_def rbind_Inr_iff)
  from sig obtain sig0 where "py_signature py f = Some sig0" "eval_annotations py f sig0 = Inr sig"
    by (auto simp: signature_of_def split: option.splits)
  with d have "distinct (map fst (sig_parameters sig))" by (auto dest: eval_annotations_names)
  with get_resources_keys [OF rs] have "dkeys rs = resource_parameters py (sig_parameters sig)" by simp
  with import_name_get_import_name [OF s m u] sig i show ?thesis by (auto simp: into_pipeline_def)
qed

text \<open>A package \<open>''jobs''\<close> with the class \<open>''Load''\<close> and its method \<open>''run''\<close>, which asks for an \<open>''ApiKey''\<close>.\<close>

definition sample_python :: python where
  "sample_python =
     \<lparr> py_modules = [(''jobs'', 0)],
       py_attrs = (\<lambda>x. if x = 0 then [(''Load'', 1), (''ApiKey'', 3)] else if x = 1 then [(''run'', 2)] else []),
       py_module = (\<lambda>x. Some ''jobs''),
       py_qualname = (\<lambda>x. Some (if x = 1 then ''Load'' else if x = 2 then ''Load.run'' else ''ApiKey'')),
       py_name = (\<lambda>x. if x = 1 then ''Load'' else if x = 2 then ''run'' else ''ApiKey''),
       py_signature = (\<lambda>x. Some \<lparr> sig_parameters = [(''key'', Ann_string ''ApiKey''), (''n'', Ann_object 9)], sig_return = Ann_object 9 \<rparr>),
       py_eval = (\<lambda>f s. if s = ''ApiKey'' then Some 3 else None),
       py_is_resource = (\<lambda>x. x = 3),
       py_typename = (\<lambda>x. None) \<rparr>"

lemma sample_info:
  "from_pipeline sample_python 2 = Inr \<lparr> pi_name = ''jobs.Load.run'', pi_resources = [(''key'', ''jobs.ApiKey'')] \<rparr>"
  by code_simp

lemma sample_unshadowed: "unshadowed sample_python ''jobs'' name"
  by (simp add: unshadowed_def sample_python_def)

theorem pipeline_info_roundtrip_witness:
  "into_pipeline sample_python \<lparr> pi_name = ''jobs.Load.run'', pi_resources = [(''key'', ''jobs.ApiKey'')] \<rparr> = Inr 2"
  using pipeline_info_roundtrip [OF sample_info] sample_unshadowed
  by (auto simp: whichmodule_def sample_python_def)

text \<open>A submodule with the name of a class takes its place: the name of the method is accepted on the way out, and
  the lookup of \<open>''run''\<close> in the submodule fails on the way back.\<close>

definition shadowed_python :: python where
  "shadowed_python = sample_python \<lparr> py_modules := [(''jobs'', 0), (''jobs.Load'', 5)] \<rparr>"

lemma shadowed_name_is_lost:
  "get_import_name shadowed_python 2 = Inr ''jobs.Load.run''"
  "import_name shadowed_python ''jobs.Load.run'' = Inl (AttributeErr ''run'')"
  by code_simp+

end
