(* ===== verification/Hooks_Service.thy ===== *)
theory Hooks_Service
  imports Hooks_Lib Import_Names
begin

text \<open>
  The \<open>Hooks\<close> service of \<open>worker/services/hooks.py\<close>: the lists of hooks, loading them from the options by name,
  the hooks the service builds from them, and the events it emits for a message or a batch. The context hooks
  are in \<open>Hooks_Lib\<close>; objects and names are those of \<open>Import_Names\<close>.
\<close>

section \<open>The lists of hooks\<close>

record 'a hooks_lists =
  hl_hook_failed :: "'a"
  hl_items_batched :: "'a"
  hl_message_polled :: "'a"
  hl_message_scheduled :: "'a"
  hl_message_submitted :: "'a"
  hl_message_executed :: "'a"
  hl_results_processed :: "'a"
  hl_message_published :: "'a"
  hl_output_blocked :: "'a"
  hl_pipeline_events_emitted :: "'a"
  hl_work_queue_built :: "'a"
  hl_executor_initialized :: "'a"

text \<open>The fields in the order in which \<open>load_hooks\<close> evaluates them.\<close>

definition hook_fields :: "'a hooks_lists \<Rightarrow> 'a list" where
  "hook_fields h =
     [hl_hook_failed h, hl_items_batched h, hl_message_polled h, hl_message_scheduled h, hl_message_submitted h,
      hl_message_executed h, hl_message_published h, hl_results_processed h, hl_output_blocked h,
      hl_pipeline_events_emitted h, hl_work_queue_built h, hl_executor_initialized h]"

definition load_list :: "python \<Rightarrow> string list \<Rightarrow> import_error + nat list" where
  "load_list py hooks = mapM (import_name py) hooks"

definition load_hooks :: "python \<Rightarrow> string list hooks_lists \<Rightarrow> import_error + nat list hooks_lists" where
  "load_hooks py opts =
     rbind (load_list py (hl_hook_failed opts)) (\<lambda>failed.
     rbind (load_list py (hl_items_batched opts)) (\<lambda>batched.
     rbind (load_list py (hl_message_polled opts)) (\<lambda>polled.
     rbind (load_list py (hl_message_scheduled opts)) (\<lambda>scheduled.
     rbind (load_list py (hl_message_submitted opts)) (\<lambda>submitted.
     rbind (load_list py (hl_message_executed opts)) (\<lambda>executed.
     rbind (load_list py (hl_message_published opts)) (\<lambda>published.
     rbind (load_list py (hl_results_processed opts)) (\<lambda>processed.
     rbind (load_list py (hl_output_blocked opts)) (\<lambda>blocked.
     rbind (load_list py (hl_pipeline_events_emitted opts)) (\<lambda>emitted.
     rbind (load_list py (hl_work_queue_built opts)) (\<lambda>built.
     rbind (load_list py (hl_executor_initialized opts)) (\<lambda>initialized.
     Inr \<lparr> hl_hook_failed = failed, hl_items_batched = batched, hl_message_polled = polled,
           hl_message_scheduled = scheduled, hl_message_submitted = submitted, hl_message_executed = executed,
           hl_results_processed = processed, hl_message_published = published, hl_output_blocked = blocked,
           hl_pipeline_events_emitted = emitted, hl_work_queue_built = built,
           hl_executor_initialized = initialized \<rparr>))))))))))))"

text \<open>\<open>_load_handler\<close>, for the handlers named in the configuration of an item: what cannot be imported or called is
  logged and left out.\<close>

definition load_handler :: "python \<Rightarrow> (nat \<Rightarrow> bool) \<Rightarrow> string \<Rightarrow> nat option" where
  "load_handler py callable name =
     (case import_name py name of Inl _ \<Rightarrow> None | Inr x \<Rightarrow> if callable x then Some x else None)"

section \<open>The service\<close>

datatype hook_handler = Option_handler nat | Service_handler string

text \<open>What a hook does with an error of its handlers.\<close>

datatype error_sink = No_sink | Hook_failed_sink | Remote_sink

record hook =
  hk_handlers :: "hook_handler list"
  hk_error_handler :: error_sink

definition hook_register :: "hook_handler \<Rightarrow> hook \<Rightarrow> hook" where
  "hook_register h k = k\<lparr>hk_handlers := hk_handlers k @ [h]\<rparr>"

text \<open>\<open>list.remove\<close> takes out the first occurrence and raises when there is none.\<close>

definition hook_unregister :: "hook_handler \<Rightarrow> hook \<Rightarrow> hook option" where
  "hook_unregister h k =
     (if h \<in> set (hk_handlers k) then Some (k\<lparr>hk_handlers := remove1 h (hk_handlers k)\<rparr>) else None)"

definition hook_bool :: "hook \<Rightarrow> bool" where
  "hook_bool k \<longleftrightarrow> hk_handlers k \<noteq> []"

definition option_hook :: "nat list \<Rightarrow> error_sink \<Rightarrow> hook" where
  "option_hook hs sink = \<lparr> hk_handlers = map Option_handler hs, hk_error_handler = sink \<rparr>"

definition served_hook :: "nat list \<Rightarrow> string \<Rightarrow> hook" where
  "served_hook hs name =
     \<lparr> hk_handlers = map Option_handler hs @ [Service_handler name], hk_error_handler = Hook_failed_sink \<rparr>"

definition hooks_init :: "python \<Rightarrow> string list hooks_lists option \<Rightarrow> import_error + hook hooks_lists" where
  "hooks_init py options =
     (let opts = (case options of
          Some opts \<Rightarrow> opts
        | None \<Rightarrow> \<lparr> hl_hook_failed = [], hl_items_batched = [], hl_message_polled = [], hl_message_scheduled = [],
            hl_message_submitted = [], hl_message_executed = [], hl_results_processed = [], hl_message_published = [],
            hl_output_blocked = [], hl_pipeline_events_emitted = [], hl_work_queue_built = [],
            hl_executor_initialized = [] \<rparr>)
      in rbind (load_hooks py opts) (\<lambda>h.
        Inr \<lparr> hl_hook_failed = option_hook (hl_hook_failed h) No_sink,
              hl_items_batched = served_hook (hl_items_batched h) ''items_batched'',
              hl_message_polled = served_hook (hl_message_polled h) ''message_polled'',
              hl_message_scheduled = served_hook (hl_message_scheduled h) ''message_scheduled'',
              hl_message_submitted = served_hook (hl_message_submitted h) ''message_submitted'',
              hl_message_executed = served_hook (hl_message_executed h) ''message_executed'',
              hl_results_processed = served_hook (hl_results_processed h) ''results_processed'',
              hl_message_published = served_hook (hl_message_published h) ''message_published'',
              hl_output_blocked = option_hook (hl_output_blocked h) Hook_failed_sink,
              hl_pipeline_events_emitted = served_hook (hl_pipeline_events_emitted h) ''pipeline_events_emitted'',
              hl_work_queue_built = served_hook (hl_work_queue_built h) ''work_queue_built'',
              hl_executor_initialized = option_hook (hl_executor_initialized h) Remote_sink \<rparr>))"

text \<open>\<open>beh h\<close> is what the handler \<open>h\<close> raises when it is called. A failing handler of \<open>hook_failed\<close> is ignored.\<close>

definition failed_emit :: "(nat \<Rightarrow> exn option) \<Rightarrow> hook hooks_lists \<Rightarrow> error_handler_fn" where
  "failed_emit beh hooks =
     Some (hook_failed_emit (List.map_filter
       (\<lambda>h. case h of Option_handler i \<Rightarrow> Some (i, beh i) | Service_handler _ \<Rightarrow> None) (hk_handlers (hl_hook_failed hooks))))"

definition sink_fn :: "(nat \<Rightarrow> exn option) \<Rightarrow> hook hooks_lists \<Rightarrow> error_sink \<Rightarrow> error_handler_fn" where
  "sink_fn beh hooks sink =
     (case sink of No_sink \<Rightarrow> None | Hook_failed_sink \<Rightarrow> failed_emit beh hooks | Remote_sink \<Rightarrow> Some (\<lambda>e. None))"

text \<open>\<open>_on_msg\<close>: the handlers configured for the queue and for the message.\<close>

definition on_msg ::
  "(nat \<Rightarrow> exn option) \<Rightarrow> hook hooks_lists \<Rightarrow> (string \<Rightarrow> nat option) \<Rightarrow> (string, pyval) pydict \<Rightarrow> (string, pyval) pydict \<Rightarrow>
   string \<Rightarrow> unit hook_event list \<times> exn option" where
  "on_msg beh hooks ld queue_config msg_config name =
     (case msg_handlers ld queue_config msg_config name of
        None \<Rightarrow> ([], None)
      | Some hs \<Rightarrow> call_handlers (failed_emit beh hooks) (map (\<lambda>h. (h, beh h)) hs))"

text \<open>\<open>on_items_batched\<close>: the handlers configured for the job.\<close>

definition emit_items_batched ::
  "(nat \<Rightarrow> exn option) \<Rightarrow> hook hooks_lists \<Rightarrow> (string \<Rightarrow> nat option) \<Rightarrow> (string, pyval) pydict \<Rightarrow>
   unit hook_event list \<times> exn option" where
  "emit_items_batched beh hooks ld job_config =
     (case config_handlers ld job_config ''items_batched'' of
        None \<Rightarrow> ([], None)
      | Some hs \<Rightarrow> call_handlers (failed_emit beh hooks) (map (\<lambda>h. (h, beh h)) hs))"

text \<open>\<open>EventHook.emit\<close> and \<open>AsyncEventHook.emit\<close>; \<open>svc\<close> is what the service's own handlers do.\<close>

fun emit_handlers ::
  "error_handler_fn \<Rightarrow> (string \<Rightarrow> unit hook_event list \<times> exn option) \<Rightarrow> (nat \<Rightarrow> exn option) \<Rightarrow> hook_handler list \<Rightarrow>
   unit hook_event list \<times> exn option" where
  "emit_handlers eh svc beh [] = ([], None)"
| "emit_handlers eh svc beh (Option_handler i # hs) =
     andthen (call_handlers eh [(i, beh i)]) (emit_handlers eh svc beh hs)"
| "emit_handlers eh svc beh (Service_handler name # hs) =
     andthen
       (case svc name of
          (t, None) \<Rightarrow> (t, None)
        | (t, Some e) \<Rightarrow> (let (t', x) = handle_error eh e in (t @ t', x)))
       (emit_handlers eh svc beh hs)"

definition emit_event ::
  "(nat \<Rightarrow> exn option) \<Rightarrow> hook hooks_lists \<Rightarrow> (string \<Rightarrow> unit hook_event list \<times> exn option) \<Rightarrow> hook \<Rightarrow>
   unit hook_event list \<times> exn option" where
  "emit_event beh hooks svc k = emit_handlers (sink_fn beh hooks (hk_error_handler k)) svc beh (hk_handlers k)"

section \<open>Loading\<close>

text \<open>The service starts exactly when every name of its options can be imported, whichever hook it is for.\<close>

lemma load_list_ok: "(\<exists>hs. load_list py names = Inr hs) \<longleftrightarrow> (\<forall>n \<in> set names. \<exists>x. import_name py n = Inr x)"
  by (induction names) (auto simp: load_list_def rbind_Inr_iff)

lemma rbind_ok: "(\<exists>z. rbind r f = Inr z) \<longleftrightarrow> (\<exists>x. r = Inr x \<and> (\<exists>z. f x = Inr z))"
  by (auto simp: rbind_Inr_iff)

lemma load_hooks_ok:
  "(\<exists>h. load_hooks py opts = Inr h) \<longleftrightarrow> (\<forall>names \<in> set (hook_fields opts). \<forall>n \<in> set names. \<exists>x. import_name py n = Inr x)"
  by (simp add: load_hooks_def rbind_ok hook_fields_def load_list_ok [symmetric])

lemma load_hooks_fields:
  assumes "load_hooks py opts = Inr h"
  shows "map (load_list py) (hook_fields opts) = map Inr (hook_fields h)"
  using assms by (auto simp: load_hooks_def rbind_Inr_iff hook_fields_def)

text \<open>Importing a list stops at the first name that fails.\<close>

lemma mapM_first_error:
  "mapM f (xs @ x # ys) = Inl e" if "\<forall>z \<in> set xs. \<exists>y. f z = Inr y" and "f x = Inl e"
  using that by (induction xs) (auto simp: rbind_Inl_iff)

lemma load_list_error:
  assumes "load_list py names = Inl e"
  shows "\<exists>xs n ys. names = xs @ n # ys \<and> (\<forall>z \<in> set xs. \<exists>y. import_name py z = Inr y) \<and> import_name py n = Inl e"
  using assms
proof (induction names)
  case (Cons n names)
  show ?case
  proof (cases "import_name py n")
    case (Inl e')
    with Cons.prems have "import_name py n = Inl e" by (simp add: load_list_def)
    then show ?thesis by (intro exI [of _ "[]"] exI [of _ n] exI [of _ names]) simp
  next
    case (Inr y)
    with Cons.prems have "load_list py names = Inl e" by (auto simp: load_list_def rbind_Inl_iff)
    with Cons.IH obtain xs m ys where "names = xs @ m # ys" "\<forall>z \<in> set xs. \<exists>y. import_name py z = Inr y"
      "import_name py m = Inl e" by blast
    with Inr show ?thesis by (intro exI [of _ "n # xs"] exI [of _ m] exI [of _ ys]) simp
  qed
qed (simp add: load_list_def)

section \<open>Events\<close>

lemma quiet_hook_failed: "quiet (Some (hook_failed_emit failed_handlers))"
  using call_handlers_all [of None failed_handlers, where 'r = unit]
  by (simp add: quiet_def hook_failed_emit_def)

lemma quiet_failed_emit: "quiet (failed_emit beh hooks)"
  unfolding failed_emit_def by (rule quiet_hook_failed)

lemma quiet_sink: "quiet (sink_fn beh hooks sink)"
  using quiet_failed_emit by (simp add: sink_fn_def quiet_def split: error_sink.split)

lemma on_msg_quiet:
  "snd (on_msg beh hooks ld qc mc name) = None \<and>
   calls (fst (on_msg beh hooks ld qc mc name)) =
     loads_handlers ld (config_names qc name) @ loads_handlers ld (config_names mc name)"
proof -
  have "(case msg_handlers ld qc mc name of None \<Rightarrow> [] | Some hs \<Rightarrow> hs)
      = loads_handlers ld (config_names qc name) @ loads_handlers ld (config_names mc name)"
    by (auto simp: msg_handlers_def config_handlers_def Let_def loads_handlers_def map_filter_simps)
  then show ?thesis
    using call_handlers_all [OF quiet_failed_emit, where 'r = unit]
    by (cases "msg_handlers ld qc mc name") (simp_all add: on_msg_def o_def)
qed

lemma emit_items_batched_quiet:
  "snd (emit_items_batched beh hooks ld c) = None \<and>
   calls (fst (emit_items_batched beh hooks ld c)) = loads_handlers ld (config_names c ''items_batched'')"
  using call_handlers_all [OF quiet_failed_emit, where 'r = unit]
  by (auto simp: emit_items_batched_def config_handlers_def Let_def o_def loads_handlers_def map_filter_simps)

text \<open>The handlers of the options, each in its place, with those the service's own handler calls.\<close>

fun handler_calls :: "(string \<Rightarrow> nat list) \<Rightarrow> hook_handler \<Rightarrow> nat list" where
  "handler_calls svc (Option_handler i) = [i]"
| "handler_calls svc (Service_handler n) = svc n"

lemma emit_handlers_quiet:
  assumes "quiet eh" and "\<And>n. snd (svc n) = None"
  shows "snd (emit_handlers eh svc beh hs) = None \<and>
    calls (fst (emit_handlers eh svc beh hs)) = concat (map (handler_calls (\<lambda>n. calls (fst (svc n)))) hs)"
  using assms
proof (induction eh svc beh hs rule: emit_handlers.induct)
  case (2 eh svc beh i hs)
  have "snd (call_handlers eh [(i, beh i)] :: unit hook_event list \<times> exn option) = None \<and>
      calls (fst (call_handlers eh [(i, beh i)] :: unit hook_event list \<times> exn option)) = [i]"
    using call_handlers_all [OF "2.prems"(1), of "[(i, beh i)]", where 'r = unit] by simp
  with "2.IH" "2.prems" show ?case by (simp add: andthen_def split_def del: call_handlers.simps)
next
  case (3 eh svc beh name hs)
  have "snd (svc name) = None" by (rule "3.prems")
  then have "svc name = (fst (svc name), None)" by (cases "svc name") simp
  with "3.IH" "3.prems" show ?case by (simp add: andthen_def split_def)
qed simp

text \<open>The hooks with a handler of the service that serves the configuration of a queue and its messages.\<close>

definition message_events :: "(string \<times> (hook hooks_lists \<Rightarrow> hook) \<times> (nat list hooks_lists \<Rightarrow> nat list)) list" where
  "message_events =
     [(''message_polled'', hl_message_polled, hl_message_polled),
      (''message_scheduled'', hl_message_scheduled, hl_message_scheduled),
      (''message_submitted'', hl_message_submitted, hl_message_submitted),
      (''pipeline_events_emitted'', hl_pipeline_events_emitted, hl_pipeline_events_emitted)]"

lemma served_hooks:
  assumes "load_hooks py opts = Inr h" and "hooks_init py (Some opts) = Inr hooks"
  shows "\<forall>(name, sel, lsel) \<in> set message_events. sel hooks = served_hook (lsel h) name"
  using assms by (auto simp: hooks_init_def message_events_def)

text \<open>
  No event hook breaks the message it observes: for each of the four message events, emitting it calls the handlers
  of the options, then those of the queue, then those of the message, every one exactly once and in this order,
  and returns normally, whatever the handlers and the handlers of \<open>hook_failed\<close> raise.\<close>

theorem event_hooks_deliver:
  assumes "load_hooks py opts = Inr h" and "hooks_init py (Some opts) = Inr hooks"
  shows "\<forall>(name, sel, lsel) \<in> set message_events. \<exists>t.
    emit_event beh hooks (on_msg beh hooks ld qc mc) (sel hooks) = (t, None) \<and>
    calls t = lsel h @ loads_handlers ld (config_names qc name) @ loads_handlers ld (config_names mc name)"
proof -
  have "\<exists>t. emit_event beh hooks (on_msg beh hooks ld qc mc) (served_hook hs name) = (t, None) \<and>
      calls t = hs @ loads_handlers ld (config_names qc name) @ loads_handlers ld (config_names mc name)" for hs name
    using emit_handlers_quiet [OF quiet_sink, of "on_msg beh hooks ld qc mc", OF on_msg_quiet [THEN conjunct1]]
    by (simp add: emit_event_def served_hook_def on_msg_quiet o_def prod_eq_iff)
  then show ?thesis using served_hooks [OF assms] by (fastforce simp: message_events_def)
qed

definition sample_hooks :: "string list hooks_lists" where
  "sample_hooks =
     \<lparr> hl_hook_failed = [''jobs.Load''], hl_items_batched = [], hl_message_polled = [''jobs.ApiKey''],
       hl_message_scheduled = [], hl_message_submitted = [], hl_message_executed = [], hl_results_processed = [],
       hl_message_published = [], hl_output_blocked = [], hl_pipeline_events_emitted = [], hl_work_queue_built = [],
       hl_executor_initialized = [] \<rparr>"

lemma sample_hooks_load: "\<exists>h hooks. load_hooks sample_python sample_hooks = Inr h \<and> hl_message_polled h = [3] \<and>
    hooks_init sample_python (Some sample_hooks) = Inr hooks"
proof -
  have "import_name sample_python ''jobs.Load'' = Inr 1" "import_name sample_python ''jobs.ApiKey'' = Inr 3"
    by code_simp+
  then show ?thesis by (simp add: hooks_init_def load_hooks_def load_list_def sample_hooks_def)
qed

text \<open>The handler of the options, the one of the queue and the one of the message all raise, and so does \<open>hook_failed\<close>'s.\<close>

lemma event_hooks_deliver_witness:
  "\<exists>hooks t. hooks_init sample_python (Some sample_hooks) = Inr hooks \<and>
    emit_event (\<lambda>i. Some (ValueError ''x'')) hooks
      (on_msg (\<lambda>i. Some (ValueError ''x'')) hooks (load_handler sample_python (\<lambda>i. i \<noteq> 0))
        [(''hooks'', PDict [(''message_polled'', PList [PStr ''jobs.Load.run'', PStr ''bad''])])]
        [(''hooks'', PDict [(''message_polled'', PList [PStr ''jobs.Load''])])])
      (hl_message_polled hooks) = (t, None) \<and> calls t = [3, 2, 1]"
proof -
  let ?beh = "\<lambda>i::nat. Some (ValueError ''x'')" and ?ld = "load_handler sample_python (\<lambda>i. i \<noteq> 0)"
    and ?qc = "[(''hooks'', PDict [(''message_polled'', PList [PStr ''jobs.Load.run'', PStr ''bad''])])]"
    and ?mc = "[(''hooks'', PDict [(''message_polled'', PList [PStr ''jobs.Load''])])]"
  obtain h hooks where h: "load_hooks sample_python sample_hooks = Inr h" "hl_message_polled h = [3]"
    and k: "hooks_init sample_python (Some sample_hooks) = Inr hooks" using sample_hooks_load by blast
  have ld: "?ld ''jobs.Load.run'' = Some 2" "?ld ''bad'' = None" "?ld ''jobs.Load'' = Some 1"
    by code_simp+
  have "(''message_polled'', hl_message_polled, hl_message_polled) \<in> set message_events"
    by (simp add: message_events_def)
  with event_hooks_deliver [OF h(1) k, of ?beh ?ld ?qc ?mc] obtain t where
    "emit_event ?beh hooks (on_msg ?beh hooks ?ld ?qc ?mc) (hl_message_polled hooks) = (t, None)"
    "calls t = hl_message_polled h @ loads_handlers ?ld (config_names ?qc ''message_polled'') @
       loads_handlers ?ld (config_names ?mc ''message_polled'')" by blast
  with k h(2) ld show ?thesis by (auto simp: loads_handlers_def config_names_def map_filter_simps)
qed

text \<open>The batches of a job reach the handlers of the options and of the job's configuration.\<close>

lemma items_batched_delivers:
  assumes "load_hooks py opts = Inr h" and "hooks_init py (Some opts) = Inr hooks"
  shows "\<exists>t. emit_event beh hooks (\<lambda>_. emit_items_batched beh hooks ld c) (hl_items_batched hooks) = (t, None) \<and>
    calls t = hl_items_batched h @ loads_handlers ld (config_names c ''items_batched'')"
proof -
  have "hl_items_batched hooks = served_hook (hl_items_batched h) ''items_batched''"
    using assms by (auto simp: hooks_init_def)
  then show ?thesis
    using emit_handlers_quiet [OF quiet_sink, of "\<lambda>_. emit_items_batched beh hooks ld c", OF emit_items_batched_quiet [THEN conjunct1]]
    by (simp add: emit_event_def served_hook_def emit_items_batched_quiet o_def prod_eq_iff)
qed

text \<open>Registering a handler after the service has started adds it behind the service's own; unregistering undoes it.\<close>

lemma register_unregister:
  "h \<notin> set (hk_handlers k) \<Longrightarrow> hook_unregister h (hook_register h k) = Some k \<and> hook_bool (hook_register h k)"
  by (simp add: hook_register_def hook_unregister_def hook_bool_def remove1_append)

end
