(* ===== verification/Tasks_Group.thy ===== *)
theory Tasks_Group
  imports Prelude
begin

text \<open>
  \<open>TasksGroup\<close> and \<open>TasksGroupRunner\<close> of \<open>utils/asyncutils.py\<close>: a set of asyncio tasks that can grow and
  shrink while somebody waits for the first of them to end.

  Tasks are numbered; \<open>outcome\<close> is how one has ended. The event \<open>updated\<close> and the task that waits for it
  are modelled as asyncio runs them: the task first looks at the event when it is started, then sleeps on a
  future that \<open>set\<close> resolves, and is done at the step after that. \<open>asyncio.wait\<close> looks at the tasks it was
  called with, and at nothing that is added later.
\<close>

section \<open>State\<close>

datatype outcome = Returned | Raised exn | Was_cancelled

datatype event_waiter = W_created | W_blocked | W_woken | W_done

record tasks_group =
  tg_tasks :: "nat set"
  tg_updated :: bool
  tg_updated_task :: "event_waiter option"

definition group_init :: "nat set \<Rightarrow> tasks_group" where
  "group_init ts = \<lparr> tg_tasks = ts, tg_updated = False, tg_updated_task = None \<rparr>"

text \<open>\<open>Event.set\<close> resolves the future of the task that is blocked on it.\<close>

definition group_notify :: "tasks_group \<Rightarrow> tasks_group" where
  "group_notify g =
     g\<lparr>tg_updated := True,
       tg_updated_task := (if tg_updated_task g = Some W_blocked then Some W_woken else tg_updated_task g)\<rparr>"

definition group_add :: "nat \<Rightarrow> tasks_group \<Rightarrow> tasks_group" where
  "group_add t g = group_notify (g\<lparr>tg_tasks := insert t (tg_tasks g)\<rparr>)"

definition group_remove :: "nat \<Rightarrow> tasks_group \<Rightarrow> tasks_group" where
  "group_remove t g = group_notify (g\<lparr>tg_tasks := tg_tasks g - {t}\<rparr>)"

text \<open>One step of the task that runs \<open>updated.wait()\<close>.\<close>

definition waiter_step :: "tasks_group \<Rightarrow> tasks_group" where
  "waiter_step g =
     g\<lparr>tg_updated_task :=
        (case tg_updated_task g of
           Some W_created \<Rightarrow> Some (if tg_updated g then W_done else W_blocked)
         | Some W_woken \<Rightarrow> Some W_done
         | w \<Rightarrow> w)\<rparr>"

text \<open>\<open>wait\<close>, up to the await: the tasks that \<open>asyncio.wait\<close> is called with.\<close>

definition wait_begin :: "tasks_group \<Rightarrow> tasks_group \<times> nat set" where
  "wait_begin g =
     (g\<lparr>tg_updated_task := (case tg_updated_task g of None \<Rightarrow> Some W_created | w \<Rightarrow> w)\<rparr>, tg_tasks g)"

definition can_resume :: "(nat \<Rightarrow> outcome option) \<Rightarrow> nat set \<Rightarrow> tasks_group \<Rightarrow> bool" where
  "can_resume fin w g \<longleftrightarrow> tg_updated_task g = Some W_done \<or> (\<exists>t \<in> w. fin t \<noteq> None)"

text \<open>\<open>wait\<close>, after the await; the result is the set of the tasks that are done.\<close>

definition wait_end :: "bool \<Rightarrow> (nat \<Rightarrow> outcome option) \<Rightarrow> nat set \<Rightarrow> tasks_group \<Rightarrow> tasks_group \<times> nat set" where
  "wait_end remove fin w g =
     (let finished = {t \<in> w. fin t \<noteq> None};
          g1 = (if tg_updated_task g = Some W_done then g\<lparr>tg_updated := False, tg_updated_task := None\<rparr> else g)
      in (if remove then g1\<lparr>tg_tasks := tg_tasks g1 - finished\<rparr> else g1, finished))"

text \<open>\<open>wait_all\<close>: once all of them have ended.\<close>

definition wait_all :: "tasks_group \<Rightarrow> tasks_group \<times> nat set" where
  "wait_all g = (g\<lparr>tg_tasks := {}\<rparr>, tg_tasks g)"

section \<open>Closing\<close>

record close_report =
  cl_cancelled :: "nat set"
  cl_errors :: "nat set"
  cl_incomplete :: "nat set"

text \<open>\<open>fin1\<close> is how the tasks stand when the time to end by themselves is over, \<open>fin2\<close> when the wait for the cancelled
  ones is.\<close>

definition group_close ::
  "(nat \<Rightarrow> outcome option) \<Rightarrow> (nat \<Rightarrow> outcome option) \<Rightarrow> tasks_group \<Rightarrow> tasks_group \<times> close_report" where
  "group_close fin1 fin2 g =
     (if tg_tasks g = {}
      then (g\<lparr>tg_updated_task := None\<rparr>, \<lparr> cl_cancelled = {}, cl_errors = {}, cl_incomplete = {} \<rparr>)
      else (g\<lparr>tg_tasks := {}, tg_updated_task := None\<rparr>,
            \<lparr> cl_cancelled = {t \<in> tg_tasks g. fin1 t = None},
              cl_errors = {t \<in> tg_tasks g. \<exists>e. fin2 t = Some (Raised e)},
              cl_incomplete = {t \<in> tg_tasks g. fin2 t = None} \<rparr>))"

section \<open>The group and its reader\<close>

text \<open>One caller at a time waits, as \<open>TasksGroupRunner.run\<close> and the scheduler do. \<open>gw_reported\<close> is what \<open>wait\<close> has returned
  so far, \<open>gw_added\<close> and \<open>gw_removed\<close> are the calls of \<open>add\<close> and \<open>remove\<close>.\<close>

record group_world =
  gw_group :: tasks_group
  gw_finished :: "nat \<Rightarrow> outcome option"
  gw_waiting :: "nat set option"
  gw_reported :: "nat set list"
  gw_added :: "nat set"
  gw_removed :: "nat set"

definition world_init :: group_world where
  "world_init = \<lparr> gw_group = group_init {}, gw_finished = (\<lambda>_. None), gw_waiting = None, gw_reported = [],
     gw_added = {}, gw_removed = {} \<rparr>"

inductive group_step :: "group_world \<Rightarrow> group_world \<Rightarrow> bool" where
  G_add: "t \<notin> gw_added s \<Longrightarrow>
    group_step s (s\<lparr>gw_group := group_add t (gw_group s), gw_added := insert t (gw_added s)\<rparr>)"
| G_remove: "group_step s (s\<lparr>gw_group := group_remove t (gw_group s), gw_removed := insert t (gw_removed s)\<rparr>)"
| G_finish: "gw_finished s t = None \<Longrightarrow>
    group_step s (s\<lparr>gw_finished := (gw_finished s)(t \<mapsto> out)\<rparr>)"
| G_waiter: "group_step s (s\<lparr>gw_group := waiter_step (gw_group s)\<rparr>)"
| G_wait_begin: "gw_waiting s = None \<Longrightarrow> wait_begin (gw_group s) = (g, w) \<Longrightarrow>
    group_step s (s\<lparr>gw_group := g, gw_waiting := Some w\<rparr>)"
| G_wait_end: "gw_waiting s = Some w \<Longrightarrow> can_resume (gw_finished s) w (gw_group s) \<Longrightarrow>
    wait_end True (gw_finished s) w (gw_group s) = (g, d) \<Longrightarrow>
    group_step s (s\<lparr>gw_group := g, gw_waiting := None, gw_reported := gw_reported s @ [d]\<rparr>)"

definition group_reachable :: "group_world \<Rightarrow> bool" where
  "group_reachable s \<longleftrightarrow> group_step\<^sup>*\<^sup>* world_init s"

inductive_simps group_step_iff: "group_step s s'"

lemma group_induct [consumes 1, case_names init step]:
  assumes "group_reachable s" and "P world_init"
    and "\<And>s s'. group_reachable s \<Longrightarrow> P s \<Longrightarrow> group_step s s' \<Longrightarrow> P s'"
  shows "P s"
  using assms(1) unfolding group_reachable_def
proof (induction rule: rtranclp_induct)
  case base
  show ?case by (rule assms(2))
next
  case (step s s')
  then show ?case using assms(3) [of s s'] by (simp add: group_reachable_def)
qed

section \<open>Invariants\<close>

text \<open>A wait never misses a notification: whoever waits watches every task of the group, or the event's task is
  on its way to wake him.\<close>

definition wake_up_due :: "tasks_group \<Rightarrow> bool" where
  "wake_up_due g \<longleftrightarrow>
     tg_updated_task g = Some W_done \<or> tg_updated_task g = Some W_woken \<or> tg_updated_task g = Some W_created \<and> tg_updated g"

definition watched :: "group_world \<Rightarrow> bool" where
  "watched s \<longleftrightarrow>
     (\<forall>w. gw_waiting s = Some w \<longrightarrow>
        tg_updated_task (gw_group s) \<noteq> None \<and> (tg_tasks (gw_group s) \<subseteq> w \<or> wake_up_due (gw_group s)))"

lemma notify_simps [simp]:
  "tg_tasks (group_notify g) = tg_tasks g"
  "tg_updated_task (group_notify g) = None \<longleftrightarrow> tg_updated_task g = None"
  "tg_updated_task g \<noteq> None \<Longrightarrow> wake_up_due (group_notify g)"
proof -
  show "wake_up_due (group_notify g)" if "tg_updated_task g \<noteq> None"
  proof -
    from that obtain w where "tg_updated_task g = Some w" by blast
    then show ?thesis by (cases w) (simp_all add: wake_up_due_def group_notify_def)
  qed
qed (simp_all add: group_notify_def)

lemma waiter_step_simps [simp]:
  "tg_tasks (waiter_step g) = tg_tasks g"
  "tg_updated_task (waiter_step g) = None \<longleftrightarrow> tg_updated_task g = None"
  "wake_up_due g \<Longrightarrow> tg_updated_task (waiter_step g) = Some W_done"
  "wake_up_due g \<Longrightarrow> wake_up_due (waiter_step g)"
  by (auto simp: waiter_step_def wake_up_due_def split: option.splits event_waiter.splits)

lemma wait_begin_simps:
  assumes "wait_begin g = (g', w)"
  shows "w = tg_tasks g" "tg_tasks g' = tg_tasks g" "tg_updated_task g' \<noteq> None"
  using assms by (auto simp: wait_begin_def split: option.splits)

lemma wait_end_simps:
  assumes "wait_end True fin w g = (g', d)"
  shows "d = {t \<in> w. fin t \<noteq> None}" "tg_tasks g' = tg_tasks g - d"
  using assms by (auto simp: wait_end_def Let_def split: if_splits)

lemma watched_step: "group_step s s' \<Longrightarrow> watched s \<Longrightarrow> watched s'"
proof (induction rule: group_step.induct)
  case (G_wait_begin s g w)
  then show ?case using wait_begin_simps [OF G_wait_begin.hyps(2)] by (simp add: watched_def)
qed (auto simp: watched_def group_add_def group_remove_def)

lemma reachable_watched: "group_reachable s \<Longrightarrow> watched s"
proof (induction rule: group_induct)
  case init
  show ?case by (simp add: watched_def world_init_def)
next
  case (step s s')
  then show ?case using watched_step by blast
qed

text \<open>Accounting: what was added is in the group, has been reported or was removed; nothing is reported twice.\<close>

definition accounted :: "group_world \<Rightarrow> bool" where
  "accounted s \<longleftrightarrow>
     gw_added s \<subseteq> tg_tasks (gw_group s) \<union> \<Union>(set (gw_reported s)) \<union> gw_removed s \<and>
     tg_tasks (gw_group s) \<union> \<Union>(set (gw_reported s)) \<subseteq> gw_added s \<and>
     (\<forall>w. gw_waiting s = Some w \<longrightarrow> w \<subseteq> gw_added s \<and> w \<inter> \<Union>(set (gw_reported s)) = {}) \<and>
     tg_tasks (gw_group s) \<inter> \<Union>(set (gw_reported s)) = {}"

definition reported_once :: "group_world \<Rightarrow> bool" where
  "reported_once s \<longleftrightarrow>
     sorted_wrt (\<lambda>d d'. d \<inter> d' = {}) (gw_reported s) \<and> (\<forall>d \<in> set (gw_reported s). \<forall>t \<in> d. gw_finished s t \<noteq> None)"

lemma accounted_waiting:
  "accounted s \<Longrightarrow> gw_waiting s = Some w \<Longrightarrow> w \<subseteq> gw_added s \<and> w \<inter> \<Union>(set (gw_reported s)) = {}"
  unfolding accounted_def by blast

lemma accounted_step: "group_step s s' \<Longrightarrow> accounted s \<Longrightarrow> accounted s'"
proof (induction rule: group_step.induct)
  case (G_wait_begin s g w)
  then show ?case using wait_begin_simps [OF G_wait_begin.hyps(2)] by (auto simp: accounted_def)
next
  case (G_wait_end s w g d)
  have d: "d \<subseteq> w" "tg_tasks g = tg_tasks (gw_group s) - d" using wait_end_simps [OF G_wait_end.hyps(3)] by auto
  have "w \<subseteq> gw_added s" "w \<inter> \<Union>(set (gw_reported s)) = {}"
    using accounted_waiting [OF G_wait_end.prems G_wait_end.hyps(1)] by auto
  moreover have "gw_added s \<subseteq> tg_tasks (gw_group s) \<union> \<Union>(set (gw_reported s)) \<union> gw_removed s"
    "tg_tasks (gw_group s) \<subseteq> gw_added s" "\<Union>(set (gw_reported s)) \<subseteq> gw_added s"
    "tg_tasks (gw_group s) \<inter> \<Union>(set (gw_reported s)) = {}"
    using G_wait_end.prems by (simp_all add: accounted_def)
  ultimately have sets: "gw_added s \<subseteq> tg_tasks g \<union> (\<Union>(set (gw_reported s)) \<union> d) \<union> gw_removed s"
    "tg_tasks g \<union> (\<Union>(set (gw_reported s)) \<union> d) \<subseteq> gw_added s"
    "tg_tasks g \<inter> (\<Union>(set (gw_reported s)) \<union> d) = {}" unfolding d(2) using d(1) by blast+
  have "\<Union>(set (gw_reported s @ [d])) = \<Union>(set (gw_reported s)) \<union> d" by auto
  with sets show ?case by (simp add: accounted_def Un_ac)
qed (auto simp: accounted_def group_add_def group_remove_def)

lemma reported_once_step: "group_step s s' \<Longrightarrow> accounted s \<Longrightarrow> reported_once s \<Longrightarrow> reported_once s'"
proof (induction rule: group_step.induct)
  case (G_wait_end s w g d)
  have d: "d = {t \<in> w. gw_finished s t \<noteq> None}" using wait_end_simps [OF G_wait_end.hyps(3)] by auto
  have "w \<inter> \<Union>(set (gw_reported s)) = {}"
    using accounted_waiting [OF G_wait_end.prems(1) G_wait_end.hyps(1)] by blast
  with d G_wait_end.prems(2) show ?case by (auto simp: reported_once_def sorted_wrt_append)
qed (auto simp: reported_once_def)

lemma reachable_accounted: "group_reachable s \<Longrightarrow> accounted s \<and> reported_once s"
proof (induction rule: group_induct)
  case init
  show ?case by (simp add: accounted_def reported_once_def world_init_def group_init_def)
next
  case (step s s')
  then show ?case using accounted_step reported_once_step by blast
qed

section \<open>Every task that ends is reported\<close>

text \<open>The event loop at work for the reader alone: it waits, is woken when it can be, and waits again.\<close>

definition serve :: "group_world \<Rightarrow> group_world" where
  "serve s =
     (case gw_waiting s of
        None \<Rightarrow> (let (g, w) = wait_begin (gw_group s) in s\<lparr>gw_group := g, gw_waiting := Some w\<rparr>)
      | Some w \<Rightarrow>
          (if can_resume (gw_finished s) w (gw_group s)
           then (let (g, d) = wait_end True (gw_finished s) w (gw_group s)
                 in s\<lparr>gw_group := g, gw_waiting := None, gw_reported := gw_reported s @ [d]\<rparr>)
           else s\<lparr>gw_group := waiter_step (gw_group s)\<rparr>))"

lemma serve_step: "group_step s (serve s)"
  by (auto simp: serve_def split: option.split prod.split intro: group_step.intros)

lemma serve_reports:
  assumes "gw_waiting s = Some w" and "t \<in> w" and "gw_finished s t \<noteq> None"
  shows "t \<in> \<Union>(set (gw_reported (serve s)))"
proof -
  have "can_resume (gw_finished s) w (gw_group s)" using assms(2,3) by (auto simp: can_resume_def)
  with assms show ?thesis by (simp add: serve_def wait_end_def Let_def)
qed

lemma serve_begin:
  assumes "gw_waiting s = None"
  shows "gw_waiting (serve s) = Some (tg_tasks (gw_group s))" "gw_finished (serve s) = gw_finished s"
  using assms by (simp_all add: serve_def wait_begin_def)

lemma serve_end:
  assumes "gw_waiting s = Some w" and "can_resume (gw_finished s) w (gw_group s)"
  shows "gw_waiting (serve s) = None" "gw_finished (serve s) = gw_finished s"
    "tg_tasks (gw_group (serve s)) = tg_tasks (gw_group s) - {t \<in> w. gw_finished s t \<noteq> None}"
    "gw_reported (serve s) = gw_reported s @ [{t \<in> w. gw_finished s t \<noteq> None}]"
  using assms by (simp_all add: serve_def wait_end_def Let_def)

lemma serve_wakes:
  assumes "gw_waiting s = Some w" and "\<not> can_resume (gw_finished s) w (gw_group s)" and "wake_up_due (gw_group s)"
  shows "gw_waiting (serve s) = Some w" "gw_finished (serve s) = gw_finished s"
    "tg_tasks (gw_group (serve s)) = tg_tasks (gw_group s)"
    "can_resume (gw_finished (serve s)) w (gw_group (serve s))"
  using assms by (simp_all add: serve_def can_resume_def)

text \<open>From a reader that is not waiting, or that can be resumed, the task is reported two or three steps later.\<close>

lemma idle_reports:
  assumes "gw_waiting s = None" and "t \<in> tg_tasks (gw_group s)" and "gw_finished s t \<noteq> None"
  shows "t \<in> \<Union>(set (gw_reported ((serve ^^ 2) s)))"
  using serve_reports [OF serve_begin(1) [OF assms(1)] assms(2)] serve_begin(2) [OF assms(1)] assms(3)
  by (simp add: numeral_2_eq_2)

lemma resumed_reports:
  assumes "gw_waiting s = Some w" and "can_resume (gw_finished s) w (gw_group s)"
    and "t \<in> tg_tasks (gw_group s)" and "gw_finished s t \<noteq> None"
  shows "\<exists>n \<le> 3. t \<in> \<Union>(set (gw_reported ((serve ^^ n) s)))"
proof (cases "t \<in> w")
  case True
  with serve_reports [OF assms(1)] assms(4) have "t \<in> \<Union>(set (gw_reported ((serve ^^ 1) s)))" by simp
  then show ?thesis by (intro exI [of _ 1]) simp
next
  case False
  have "t \<in> \<Union>(set (gw_reported ((serve ^^ 2) (serve s))))"
    using serve_end [OF assms(1,2)] assms(3,4) False by (intro idle_reports) auto
  then have "t \<in> \<Union>(set (gw_reported ((serve ^^ 3) s)))" by (simp add: numeral_3_eq_3 numeral_2_eq_2)
  then show ?thesis by blast
qed

text \<open>
  C9: no wake-up is lost. Whatever has been added, removed and waited for, and in whatever order the
  event's task and the tasks themselves ran: a task of the group that has ended is returned by \<open>wait\<close> at most
  four steps of the event loop later, even if it was added while the reader was already waiting; no task is
  returned twice, only tasks that have ended are, and one that was added and not removed is in the group or has been returned.\<close>

theorem ended_tasks_are_reported:
  assumes r: "group_reachable s"
  shows "(\<forall>t \<in> tg_tasks (gw_group s). gw_finished s t \<noteq> None \<longrightarrow>
      (\<exists>n \<le> 4. t \<in> \<Union>(set (gw_reported ((serve ^^ n) s))))) \<and>
    sorted_wrt (\<lambda>d d'. d \<inter> d' = {}) (gw_reported s) \<and>
    (\<forall>d \<in> set (gw_reported s). \<forall>t \<in> d. gw_finished s t \<noteq> None) \<and>
    gw_added s - gw_removed s \<subseteq> tg_tasks (gw_group s) \<union> \<Union>(set (gw_reported s))"
proof -
  have "\<exists>n \<le> 4. t \<in> \<Union>(set (gw_reported ((serve ^^ n) s)))"
    if t: "t \<in> tg_tasks (gw_group s)" "gw_finished s t \<noteq> None" for t
  proof (cases "gw_waiting s")
    case None
    show ?thesis using idle_reports [OF None t] by (intro exI [of _ 2]) simp
  next
    case (Some w)
    show ?thesis
    proof (cases "can_resume (gw_finished s) w (gw_group s)")
      case True
      with resumed_reports [OF Some _ t] obtain n where "n \<le> 3" "t \<in> \<Union>(set (gw_reported ((serve ^^ n) s)))" by blast
      then show ?thesis by (intro exI [of _ n]) simp
    next
      case False
      then have "t \<notin> w" using t(2) by (auto simp: can_resume_def)
      with reachable_watched [OF r] Some t(1) have due: "wake_up_due (gw_group s)" by (auto simp: watched_def)
      note s1 = serve_wakes [OF Some False due]
      have "t \<in> tg_tasks (gw_group (serve s))" "gw_finished (serve s) t \<noteq> None" using s1 t by simp_all
      with resumed_reports [OF s1(1,4)] obtain n where "n \<le> 3" "t \<in> \<Union>(set (gw_reported ((serve ^^ n) (serve s))))" by blast
      then show ?thesis by (intro exI [of _ "Suc n"]) (simp add: funpow_swap1)
    qed
  qed
  with reachable_accounted [OF r] show ?thesis by (auto simp: accounted_def reported_once_def)
qed

text \<open>Task 2 is added while the reader waits for task 1 only, and ends.\<close>

definition late_add :: group_world where
  "late_add =
     (let s1 = world_init\<lparr>gw_group := group_add 1 (group_init {}), gw_added := {1}\<rparr>;
          s2 = serve s1;
          s3 = s2\<lparr>gw_group := group_add 2 (gw_group s2), gw_added := {2, 1}\<rparr>
      in s3\<lparr>gw_finished := [2 \<mapsto> Returned]\<rparr>)"

lemma late_add_reachable: "group_reachable late_add"
proof -
  let ?s1 = "world_init\<lparr>gw_group := group_add 1 (group_init {}), gw_added := {1}\<rparr>"
  let ?s3 = "(serve ?s1)\<lparr>gw_group := group_add 2 (gw_group (serve ?s1)), gw_added := {2, 1}\<rparr>"
  have "group_step world_init ?s1" using G_add [of 1 world_init] by (simp add: world_init_def)
  moreover have "group_step ?s1 (serve ?s1)" by (rule serve_step)
  moreover have "gw_added (serve ?s1) = {1}" "gw_finished (serve ?s1) = (\<lambda>_. None)"
    by (simp_all add: serve_def wait_begin_def world_init_def)
  then have "group_step (serve ?s1) ?s3" "gw_finished ?s3 = (\<lambda>_. None)" using G_add [of 2 "serve ?s1"] by simp_all
  moreover from this(2) have "group_step ?s3 late_add"
    using G_finish [of ?s3 2 Returned] by (simp add: late_add_def Let_def)
  ultimately show ?thesis unfolding group_reachable_def
    by (intro rtranclp.rtrancl_into_rtrancl [OF rtranclp.rtrancl_into_rtrancl [OF rtranclp.rtrancl_into_rtrancl
      [OF rtranclp.rtrancl_into_rtrancl [OF rtranclp.rtrancl_refl]]]])
qed

lemma late_add_ended: "2 \<in> tg_tasks (gw_group late_add)" "gw_finished late_add 2 \<noteq> None"
  by (simp_all add: late_add_def Let_def group_add_def)

theorem ended_tasks_are_reported_witness:
  "\<exists>n \<le> 4. 2 \<in> \<Union>(set (gw_reported ((serve ^^ n) late_add)))"
  using ended_tasks_are_reported [OF late_add_reachable] late_add_ended by blast

section \<open>The runner\<close>

record group_runner =
  rn_group :: tasks_group
  rn_running :: bool

definition runner_start :: "group_runner \<Rightarrow> exn + group_runner" where
  "runner_start r = (if rn_running r then Inl (RuntimeError ''task group is already running'') else Inr (r\<lparr>rn_running := True\<rparr>))"

definition runner_stop :: "group_runner \<Rightarrow> group_runner" where
  "runner_stop r = r\<lparr>rn_group := group_notify (rn_group r), rn_running := False\<rparr>"

text \<open>\<open>_log_tasks\<close>: the tasks that have failed, cancelled ones excepted.\<close>

definition log_tasks :: "(nat \<Rightarrow> outcome option) \<Rightarrow> nat set \<Rightarrow> nat set" where
  "log_tasks fin ts = {t \<in> ts. \<exists>e. fin t = Some (Raised e)}"

text \<open>One round of \<open>run\<close>: \<open>None\<close> when the loop has ended.\<close>

definition runner_round ::
  "(nat \<Rightarrow> outcome option) \<Rightarrow> nat set \<Rightarrow> group_runner \<Rightarrow> (group_runner \<times> nat set) option" where
  "runner_round fin w r =
     (if rn_running r
      then (let (g, d) = wait_end True fin w (rn_group r) in Some (r\<lparr>rn_group := g\<rparr>, log_tasks fin d))
      else None)"

text \<open>\<open>in_time\<close>: whether the tasks end before \<open>wait_for\<close> gives up; it raises otherwise.\<close>

definition runner_close ::
  "bool \<Rightarrow> bool \<Rightarrow> (nat \<Rightarrow> outcome option) \<Rightarrow> (nat \<Rightarrow> outcome option) \<Rightarrow> group_runner \<Rightarrow>
   group_runner \<times> (exn + nat set \<times> close_report)" where
  "runner_close all in_time fin1 fin2 r =
     (let r1 = (if rn_running r then runner_stop r else r) in
      if all \<and> \<not> in_time then (r1, Inl (RuntimeError ''timeout''))
      else (let (g1, d) = (if all then wait_all (rn_group r1) else (rn_group r1, {}));
                (g2, rep) = group_close fin1 fin2 g1
            in (r1\<lparr>rn_group := g2\<rparr>, Inr (log_tasks fin1 d, rep))))"

text \<open>A stopped runner leaves \<open>run\<close>: its reader is woken whatever it waits for.\<close>

lemma stop_ends_run:
  assumes "tg_updated_task (rn_group r) \<noteq> None"
  shows "can_resume fin w (waiter_step (rn_group (runner_stop r)))" "runner_round fin w (runner_stop r) = None"
  using assms by (simp_all add: runner_stop_def can_resume_def runner_round_def)

text \<open>After \<open>close\<close> the group is empty, every task has ended by itself or was cancelled, and a failure or
  a task that does not end is in the report.\<close>

lemma runner_close_empties:
  assumes "runner_close all in_time fin1 fin2 r = (r', Inr (logged, rep))"
  shows "tg_tasks (rn_group r') = {}" "\<not> rn_running r'"
    "\<forall>t \<in> tg_tasks (rn_group r). fin1 t \<noteq> None \<or> all \<or> t \<in> cl_cancelled rep"
    "\<not> all \<Longrightarrow> \<forall>t \<in> tg_tasks (rn_group r). fin2 t = None \<longrightarrow> t \<in> cl_incomplete rep"
    "\<forall>t \<in> tg_tasks (rn_group r). \<forall>e. fin1 t = Some (Raised e) \<and> fin2 t = fin1 t \<longrightarrow> t \<in> logged \<union> cl_errors rep"
  using assms
  by (auto simp: runner_close_def Let_def group_close_def wait_all_def runner_stop_def log_tasks_def split: if_splits)

text \<open>A \<open>close\<close> that waits for all tasks and runs out of time leaves them alone: none is cancelled.\<close>

lemma runner_close_timeout:
  "runner_close True False fin1 fin2 r = (r', out) \<Longrightarrow> tg_tasks (rn_group r') = tg_tasks (rn_group r) \<and> (\<exists>e. out = Inl e)"
  by (auto simp: runner_close_def Let_def runner_stop_def split: if_splits)

end
