(* ===== verification/Thread_Cache.thy ===== *)
theory Thread_Cache
  imports Prelude
begin

text \<open>
  \<open>threadsafe_cache\<close> of \<open>utils/cache.py\<close>, one key at a time, as the threads that call the wrapper run it.

  The cache is a \<open>defaultdict\<close> whose factory is a Python class: a lookup that misses makes a new \<open>_CacheLock\<close>, running
  Python code, and then stores it, whatever another thread has stored meanwhile. \<open>atomic\<close> is the
  hypothesis that a miss and its store are one step; without it they are two.
\<close>

section \<open>Threads\<close>

datatype 'v cache_entry = Absent | Lock nat | Cached 'v

text \<open>Where a thread is in \<open>wrapper\<close>.\<close>

datatype 'v thread_pc =
    Start
  | Creating nat
  | Got_lock nat
  | Holding nat
  | Calling nat
  | Done 'v
  | Failed

record 'v cache_state =
  cc_entry :: "'v cache_entry"
  cc_next :: nat
  cc_owner :: "nat \<Rightarrow> nat option"
  cc_pc :: "nat \<Rightarrow> 'v thread_pc"
  cc_results :: "'v list"

definition cache_init :: "'v cache_state" where
  "cache_init = \<lparr> cc_entry = Absent, cc_next = 0, cc_owner = (\<lambda>_. None), cc_pc = (\<lambda>_. Start), cc_results = [] \<rparr>"

definition goto :: "nat \<Rightarrow> 'v thread_pc \<Rightarrow> 'v cache_state \<Rightarrow> 'v cache_state" where
  "goto i pc s = s\<lparr>cc_pc := (cc_pc s)(i := pc)\<rparr>"

definition release :: "nat \<Rightarrow> 'v cache_state \<Rightarrow> 'v cache_state" where
  "release l s = s\<lparr>cc_owner := (cc_owner s)(l := None)\<rparr>"

text \<open>What a read of \<open>cache[key]\<close> gives the thread.\<close>

definition read_entry :: "bool \<Rightarrow> nat \<Rightarrow> 'v cache_state \<Rightarrow> 'v cache_state" where
  "read_entry atomic i s =
     (case cc_entry s of
        Cached v \<Rightarrow> goto i (Done v) s
      | Lock l \<Rightarrow> goto i (Got_lock l) s
      | Absent \<Rightarrow>
          (let l = cc_next s; s' = s\<lparr>cc_next := Suc l\<rparr> in
           if atomic then goto i (Got_lock l) (s'\<lparr>cc_entry := Lock l\<rparr>) else goto i (Creating l) s'))"

text \<open>The second read, with the lock held.\<close>

definition reread_entry :: "nat \<Rightarrow> nat \<Rightarrow> 'v cache_state \<Rightarrow> 'v cache_state" where
  "reread_entry i l s =
     (case cc_entry s of
        Cached v \<Rightarrow> goto i (Done v) (release l s)
      | _ \<Rightarrow> goto i (Calling l) s)"

inductive cache_step :: "bool \<Rightarrow> 'v cache_state \<Rightarrow> 'v cache_state \<Rightarrow> bool" for atomic where
  C_read: "cc_pc s i = Start \<Longrightarrow> cache_step atomic s (read_entry atomic i s)"
| C_store: "cc_pc s i = Creating l \<Longrightarrow> cache_step atomic s (goto i (Got_lock l) (s\<lparr>cc_entry := Lock l\<rparr>))"
| C_acquire: "cc_pc s i = Got_lock l \<Longrightarrow> cc_owner s l = None \<Longrightarrow>
    cache_step atomic s (goto i (Holding l) (s\<lparr>cc_owner := (cc_owner s)(l \<mapsto> i)\<rparr>))"
| C_reread: "cc_pc s i = Holding l \<Longrightarrow> cache_step atomic s (reread_entry i l s)"
| C_return: "cc_pc s i = Calling l \<Longrightarrow>
    cache_step atomic s (goto i (Done v) (release l (s\<lparr>cc_entry := Cached v, cc_results := cc_results s @ [v]\<rparr>)))"
| C_raise: "cc_pc s i = Calling l \<Longrightarrow> cache_step atomic s (goto i Failed (release l s))"

definition cache_reachable :: "bool \<Rightarrow> 'v cache_state \<Rightarrow> bool" where
  "cache_reachable atomic s \<longleftrightarrow> (cache_step atomic)\<^sup>*\<^sup>* cache_init s"

section \<open>One call per key\<close>

text \<open>
  The invariant when a miss is atomic: there is one lock, \<open>0\<close>; its owner is the only thread between acquiring
  and releasing it; a value is in the cache exactly when the function has returned, and it is
  the value every finished thread has.\<close>

fun pc_ok :: "'v cache_state \<Rightarrow> nat \<Rightarrow> 'v thread_pc \<Rightarrow> bool" where
  "pc_ok s i Start = True"
| "pc_ok s i (Creating l) = False"
| "pc_ok s i (Got_lock l) = (l = 0)"
| "pc_ok s i (Holding l) = (l = 0 \<and> cc_owner s 0 = Some i)"
| "pc_ok s i (Calling l) = (l = 0 \<and> cc_owner s 0 = Some i \<and> cc_entry s = Lock 0)"
| "pc_ok s i (Done v) = (cc_entry s = Cached v)"
| "pc_ok s i Failed = True"

definition lock_discipline :: "'v cache_state \<Rightarrow> bool" where
  "lock_discipline s \<longleftrightarrow> (\<forall>i. pc_ok s i (cc_pc s i))"

definition entry_discipline :: "'v cache_state \<Rightarrow> bool" where
  "entry_discipline s \<longleftrightarrow>
     (case cc_entry s of
        Absent \<Rightarrow> cc_results s = [] \<and> cc_next s = 0 \<and> (\<forall>i. cc_pc s i = Start)
      | Lock l \<Rightarrow> l = 0 \<and> cc_results s = []
      | Cached v \<Rightarrow> cc_results s = [v])"

lemma goto_simps [simp]:
  "cc_entry (goto i pc s) = cc_entry s" "cc_next (goto i pc s) = cc_next s" "cc_owner (goto i pc s) = cc_owner s"
  "cc_results (goto i pc s) = cc_results s" "cc_pc (goto i pc s) = (cc_pc s)(i := pc)"
  by (simp_all add: goto_def)

lemma release_simps [simp]:
  "cc_entry (release l s) = cc_entry s" "cc_next (release l s) = cc_next s" "cc_owner (release l s) = (cc_owner s)(l := None)"
  "cc_results (release l s) = cc_results s" "cc_pc (release l s) = cc_pc s"
  by (simp_all add: release_def)

lemma lock_discipline_goto:
  assumes "pc_ok s' i pc" and "\<And>j. j \<noteq> i \<Longrightarrow> pc_ok s' j (cc_pc s j)" and "cc_pc s' = (cc_pc s)(i := pc)"
  shows "lock_discipline s'"
  using assms by (simp add: lock_discipline_def)

text \<open>Whatever one thread does with the lock it owns, the others are where they do not need it.\<close>

lemma others_not_inside:
  assumes "lock_discipline s" and "cc_owner s 0 = Some i \<or> cc_owner s 0 = None" and "j \<noteq> i"
  shows "cc_pc s j = Start \<or> cc_pc s j = Got_lock 0 \<or> cc_pc s j = Failed \<or> (\<exists>v. cc_pc s j = Done v \<and> cc_entry s = Cached v)"
proof -
  have "pc_ok s j (cc_pc s j)" using assms(1) by (simp add: lock_discipline_def)
  with assms(2,3) show ?thesis by (cases "cc_pc s j") auto
qed

lemma pc_ok_at: "lock_discipline s \<Longrightarrow> cc_pc s i = pc \<Longrightarrow> pc_ok s i pc"
  by (auto simp: lock_discipline_def)

lemma not_absent: "entry_discipline s \<Longrightarrow> cc_pc s i \<noteq> Start \<Longrightarrow> cc_entry s \<noteq> Absent"
  by (auto simp: entry_discipline_def)

lemma pc_ok_entry:
  "pc_ok s j pc \<Longrightarrow> cc_owner s' = cc_owner s \<Longrightarrow> cc_entry s' = cc_entry s \<Longrightarrow> pc_ok s' j pc"
  by (cases pc) simp_all

lemma pc_ok_cong: "cc_owner s' = cc_owner s \<Longrightarrow> cc_entry s' = cc_entry s \<Longrightarrow> pc_ok s' j pc = pc_ok s j pc"
  by (cases pc) simp_all

lemma disciplines_step:
  "cache_step True s s' \<Longrightarrow> lock_discipline s \<Longrightarrow> entry_discipline s \<Longrightarrow> lock_discipline s' \<and> entry_discipline s'"
proof (induction rule: cache_step.induct)
  case (C_read s i)
  show ?case
  proof (cases "cc_entry s")
    case Absent
    with C_read show ?thesis
      by (auto simp: lock_discipline_def entry_discipline_def read_entry_def Let_def)
  next
    case (Lock l)
    with C_read show ?thesis
      by (auto simp: lock_discipline_def entry_discipline_def read_entry_def pc_ok_cong [of "goto i (Got_lock 0) s" s])
  next
    case (Cached v)
    with C_read show ?thesis
      by (auto simp: lock_discipline_def entry_discipline_def read_entry_def pc_ok_cong [of "goto i (Done v) s" s])
  qed
next
  case (C_store s i l)
  then show ?case using pc_ok_at [OF C_store.prems(1) C_store.hyps] by simp
next
  case (C_acquire s i l)
  have l: "l = 0" "cc_entry s \<noteq> Absent"
    using pc_ok_at [OF C_acquire.prems(1) C_acquire.hyps(1)] not_absent [OF C_acquire.prems(2), of i] C_acquire.hyps(1) by simp_all
  have "pc_ok s' j (cc_pc s j)" if "j \<noteq> i" "cc_entry s' = cc_entry s" for j and s' :: "'a cache_state"
    using others_not_inside [OF C_acquire.prems(1) _ that(1)] C_acquire.hyps(2) l that(2) by auto
  with l C_acquire.prems(2) show ?case
    by (auto intro!: lock_discipline_goto simp: entry_discipline_def split: cache_entry.splits)
next
  case (C_reread s i l)
  have l: "l = 0" "cc_owner s 0 = Some i" "cc_entry s \<noteq> Absent"
    using pc_ok_at [OF C_reread.prems(1) C_reread.hyps] not_absent [OF C_reread.prems(2), of i] C_reread.hyps by simp_all
  have o: "pc_ok s' j (cc_pc s j)" if "j \<noteq> i" "cc_entry s' = cc_entry s" for j and s' :: "'a cache_state"
    using others_not_inside [OF C_reread.prems(1) _ that(1)] l that(2) by auto
  show ?case
  proof (cases "cc_entry s")
    case (Lock k)
    with C_reread.prems(2) l o show ?thesis
      by (auto intro!: lock_discipline_goto simp: reread_entry_def entry_discipline_def)
  next
    case (Cached v)
    with C_reread.prems(2) l o show ?thesis
      by (auto intro!: lock_discipline_goto simp: reread_entry_def entry_discipline_def)
  qed (use l in simp)
next
  case (C_return s i l v)
  have l: "l = 0" "cc_owner s 0 = Some i" "cc_entry s = Lock 0"
    using pc_ok_at [OF C_return.prems(1) C_return.hyps] by simp_all
  have o: "pc_ok s' j (cc_pc s j)" if "j \<noteq> i" for j and s' :: "'a cache_state"
    using others_not_inside [OF C_return.prems(1) _ that(1)] l by auto
  with C_return.prems(2) l show ?case
    by (auto intro!: lock_discipline_goto simp: entry_discipline_def)
next
  case (C_raise s i l)
  have l: "l = 0" "cc_owner s 0 = Some i" "cc_entry s = Lock 0"
    using pc_ok_at [OF C_raise.prems(1) C_raise.hyps] by simp_all
  have o: "pc_ok s' j (cc_pc s j)" if "j \<noteq> i" for j and s' :: "'a cache_state"
    using others_not_inside [OF C_raise.prems(1) _ that(1)] l by auto
  with C_raise.prems(2) l show ?case
    by (auto intro!: lock_discipline_goto simp: entry_discipline_def)
qed

lemma reachable_disciplines: "cache_reachable True s \<Longrightarrow> lock_discipline s \<and> entry_discipline s"
  unfolding cache_reachable_def
proof (induction rule: rtranclp_induct)
  case base
  show ?case by (simp add: lock_discipline_def entry_discipline_def cache_init_def)
next
  case (step s s')
  then show ?case using disciplines_step by blast
qed

definition owner_inside :: "'v cache_state \<Rightarrow> bool" where
  "owner_inside s \<longleftrightarrow> (\<forall>j. cc_owner s 0 = Some j \<longrightarrow> cc_pc s j = Holding 0 \<or> cc_pc s j = Calling 0)"

lemma owner_inside_step: "cache_step True s s' \<Longrightarrow> lock_discipline s \<Longrightarrow> owner_inside s \<Longrightarrow> owner_inside s'"
proof (induction rule: cache_step.induct)
  case (C_read s i)
  then show ?case by (auto simp: owner_inside_def read_entry_def Let_def split: cache_entry.splits)
next
  case (C_store s i l)
  then show ?case using pc_ok_at [OF C_store.prems(1) C_store.hyps] by simp
next
  case (C_acquire s i l)
  then show ?case using pc_ok_at [OF C_acquire.prems(1) C_acquire.hyps(1)] by (auto simp: owner_inside_def)
next
  case (C_reread s i l)
  then show ?case using pc_ok_at [OF C_reread.prems(1) C_reread.hyps]
    by (auto simp: owner_inside_def reread_entry_def split: cache_entry.splits)
next
  case (C_return s i l v)
  then show ?case using pc_ok_at [OF C_return.prems(1) C_return.hyps] by (auto simp: owner_inside_def)
next
  case (C_raise s i l)
  then show ?case using pc_ok_at [OF C_raise.prems(1) C_raise.hyps] by (auto simp: owner_inside_def)
qed

lemma reachable_owner_inside: "cache_reachable True s \<Longrightarrow> owner_inside s"
  unfolding cache_reachable_def
proof (induction rule: rtranclp_induct)
  case base
  show ?case by (simp add: owner_inside_def cache_init_def)
next
  case (step s s')
  then show ?case using owner_inside_step reachable_disciplines by (auto simp: cache_reachable_def)
qed

text \<open>A thread that is not done can go on, or the one that holds the lock can.\<close>

definition can_go_on :: "'v cache_state \<Rightarrow> nat \<Rightarrow> bool" where
  "can_go_on s i \<longleftrightarrow>
     (case cc_pc s i of
        Got_lock l \<Rightarrow> cc_owner s l = None
      | Done v \<Rightarrow> False
      | Failed \<Rightarrow> False
      | _ \<Rightarrow> True)"

lemma can_go_on_step: "can_go_on s i \<Longrightarrow> \<exists>s'. cache_step atomic s s'"
  by (auto simp: can_go_on_def intro: cache_step.intros split: thread_pc.splits)

text \<open>
  With an atomic miss, a cached function returns at most once per key however its callers interleave: at most one
  thread is inside the function, the cache keeps the first value for good and every caller gets that value; a call
  that raises leaves the key to the next caller; and the callers never block each other for ever.\<close>

theorem cached_call_once:
  assumes r: "cache_reachable True s"
  shows "List.length (cc_results s) \<le> 1 \<and>
    (\<forall>i v. cc_pc s i = Done v \<longrightarrow> cc_entry s = Cached v \<and> cc_results s = [v]) \<and>
    (\<forall>i j l m. cc_pc s i = Calling l \<and> cc_pc s j = Calling m \<longrightarrow> i = j) \<and>
    (\<forall>i. (\<forall>v. cc_pc s i \<noteq> Done v) \<and> cc_pc s i \<noteq> Failed \<longrightarrow>
       can_go_on s i \<or> (\<exists>j. cc_owner s 0 = Some j \<and> can_go_on s j))"
proof -
  have l: "\<And>i. pc_ok s i (cc_pc s i)" and e: "entry_discipline s"
    using reachable_disciplines [OF r] by (auto simp: lock_discipline_def)
  have "List.length (cc_results s) \<le> 1" using e by (auto simp: entry_discipline_def split: cache_entry.splits)
  moreover have "cc_entry s = Cached v \<and> cc_results s = [v]" if "cc_pc s i = Done v" for i v
    using l [of i] e that by (simp add: entry_discipline_def)
  moreover have "i = j" if "cc_pc s i = Calling l" "cc_pc s j = Calling m" for i j l m
    using l [of i] l [of j] that by simp
  moreover have "can_go_on s i \<or> (\<exists>j. cc_owner s 0 = Some j \<and> can_go_on s j)"
    if "\<forall>v. cc_pc s i \<noteq> Done v" "cc_pc s i \<noteq> Failed" for i
  proof (cases "cc_owner s 0")
    case None
    with that l [of i] show ?thesis by (cases "cc_pc s i") (auto simp: can_go_on_def)
  next
    case (Some j)
    then have "can_go_on s j" using reachable_owner_inside [OF r] by (auto simp: owner_inside_def can_go_on_def)
    with Some show ?thesis by blast
  qed
  ultimately show ?thesis by blast
qed

section \<open>Two calls for one key\<close>

text \<open>The witness and the counterexample run the same schedule: thread 0 and thread 1 read the cache, and each goes on as far
  as it can.\<close>

lemma cache_reachable_init: "cache_reachable atomic cache_init"
  by (simp add: cache_reachable_def)

lemma cache_reachable_step: "cache_reachable atomic s \<Longrightarrow> cache_step atomic s s' \<Longrightarrow> cache_reachable atomic s'"
  by (auto simp: cache_reachable_def intro: rtranclp.rtrancl_into_rtrancl)

definition one_caller :: "nat cache_state" where
  "one_caller =
     \<lparr> cc_entry = Cached 7, cc_next = 1, cc_owner = (\<lambda>_. None)(0 := None), cc_pc = (\<lambda>_. Start)(0 := Done 7), cc_results = [7] \<rparr>"

lemma one_caller_reachable: "cache_reachable True one_caller"
proof -
  have "cache_reachable True (read_entry True 0 (cache_init :: nat cache_state))"
    by (intro cache_reachable_step [OF cache_reachable_init] C_read) (simp add: cache_init_def)
  moreover have "read_entry True 0 (cache_init :: nat cache_state) =
      cache_init\<lparr>cc_entry := Lock 0, cc_next := 1, cc_pc := (\<lambda>_. Start)(0 := Got_lock 0)\<rparr>"
    by (simp add: read_entry_def cache_init_def goto_def)
  ultimately have "cache_reachable True (cache_init\<lparr>cc_entry := Lock 0, cc_next := 1, cc_pc := (\<lambda>_. Start)(0 := Got_lock 0)\<rparr> :: nat cache_state)"
    by simp
  from cache_reachable_step [OF this C_acquire [of _ 0 0]]
  have "cache_reachable True (cache_init\<lparr>cc_entry := Lock 0, cc_next := 1, cc_owner := [0 \<mapsto> 0],
      cc_pc := (\<lambda>_. Start)(0 := Holding 0)\<rparr> :: nat cache_state)" by (simp add: goto_def cache_init_def)
  from cache_reachable_step [OF this C_reread [of _ 0 0]]
  have "cache_reachable True (cache_init\<lparr>cc_entry := Lock 0, cc_next := 1, cc_owner := [0 \<mapsto> 0],
      cc_pc := (\<lambda>_. Start)(0 := Calling 0)\<rparr> :: nat cache_state)" by (simp add: goto_def cache_init_def reread_entry_def)
  from cache_reachable_step [OF this C_return [of _ 0 0 _ 7]]
  show ?thesis by (simp add: goto_def cache_init_def release_def one_caller_def)
qed

theorem cached_call_once_witness: "List.length (cc_results one_caller) \<le> 1 \<and> cc_entry one_caller = Cached 7"
  using cached_call_once [OF one_caller_reachable] by (simp add: one_caller_def)

text \<open>A state with two threads, both of which have missed.\<close>

definition two_callers :: "nat cache_entry \<Rightarrow> (nat \<Rightarrow> nat option) \<Rightarrow> nat thread_pc \<Rightarrow> nat thread_pc \<Rightarrow> nat list \<Rightarrow> nat cache_state" where
  "two_callers e own p q rs =
     \<lparr> cc_entry = e, cc_next = 2, cc_owner = own, cc_pc = (\<lambda>_. Start)(0 := p, 1 := q), cc_results = rs \<rparr>"

lemma two_callers_simps [simp]:
  "goto 0 p' (two_callers e own p q rs) = two_callers e own p' q rs"
  "goto (Suc 0) q' (two_callers e own p q rs) = two_callers e own p q' rs"
  "release l (two_callers e own p q rs) = two_callers e (own(l := None)) p q rs"
  "cc_pc (two_callers e own p q rs) 0 = p" "cc_pc (two_callers e own p q rs) (Suc 0) = q"
  "cc_entry (two_callers e own p q rs) = e" "cc_owner (two_callers e own p q rs) = own"
  "cc_results (two_callers e own p q rs) = rs"
  "(two_callers e own p q rs)\<lparr>cc_entry := e'\<rparr> = two_callers e' own p q rs"
  "(two_callers e own p q rs)\<lparr>cc_owner := own'\<rparr> = two_callers e own' p q rs"
  "(two_callers e own p q rs)\<lparr>cc_results := rs'\<rparr> = two_callers e own p q rs'"
  "(two_callers e own p q rs)\<lparr>cc_entry := e', cc_results := rs'\<rparr> = two_callers e' own p q rs'"
  by (simp_all add: two_callers_def goto_def release_def fun_upd_twist)

lemma two_callers_missed: "cache_reachable False (two_callers Absent (\<lambda>_. None) (Creating 0) (Creating 1) [])"
proof -
  have "cache_reachable False (read_entry False 1 (read_entry False 0 cache_init))"
    by (intro cache_reachable_step [OF cache_reachable_step [OF cache_reachable_init C_read] C_read])
      (simp_all add: cache_init_def read_entry_def Let_def goto_def)
  then show ?thesis by (simp add: cache_init_def read_entry_def Let_def goto_def two_callers_def numeral_2_eq_2)
qed

text \<open>Both have made a lock of their own when the first of them is stored, so both hold one, call the function
  and return different values.\<close>

lemma two_locks_two_calls:
  "\<exists>s. cache_reachable False s \<and> cc_results s = [7, 8] \<and> cc_pc s 0 = Done 7 \<and> cc_pc s 1 = Done (8::nat)"
proof -
  let ?t = "two_callers"
  note step = cache_reachable_step
  have "cache_reachable False (?t (Lock 0) (\<lambda>_. None) (Got_lock 0) (Creating 1) [])"
    using step [OF two_callers_missed C_store [of _ 0 0]] by simp
  from step [OF this C_acquire [of _ 0 0]]
  have "cache_reachable False (?t (Lock 0) [0 \<mapsto> 0] (Holding 0) (Creating 1) [])" by simp
  from step [OF this C_reread [of _ 0 0]]
  have "cache_reachable False (?t (Lock 0) [0 \<mapsto> 0] (Calling 0) (Creating 1) [])" by (simp add: reread_entry_def)
  from step [OF this C_store [of _ 1 1]]
  have "cache_reachable False (?t (Lock 1) [0 \<mapsto> 0] (Calling 0) (Got_lock 1) [])" by simp
  from step [OF this C_acquire [of _ 1 1]]
  have "cache_reachable False (?t (Lock 1) [0 \<mapsto> 0, 1 \<mapsto> 1] (Calling 0) (Holding 1) [])" by simp
  from step [OF this C_reread [of _ 1 1]]
  have "cache_reachable False (?t (Lock 1) [0 \<mapsto> 0, 1 \<mapsto> 1] (Calling 0) (Calling 1) [])" by (simp add: reread_entry_def)
  from step [OF this C_return [of _ 0 0 _ 7]]
  have "cache_reachable False (?t (Cached 7) ([0 \<mapsto> 0, 1 \<mapsto> 1](0 := None)) (Done 7) (Calling 1) [7])" by simp
  from step [OF this C_return [of _ 1 1 _ 8]]
  have "cache_reachable False (?t (Cached 8) ([0 \<mapsto> 0, 1 \<mapsto> 1](0 := None, 1 := None)) (Done 7) (Done 8) [7, 8])" by simp
  then show ?thesis
    by (intro exI [of _ "?t (Cached 8) ([0 \<mapsto> 0, 1 \<mapsto> 1](0 := None, 1 := None)) (Done 7) (Done 8) [7, 8]"]) simp
qed

end
