(* ===== verification/Utils_Lib.thy ===== *)
theory Utils_Lib
  imports Json Definitions
begin

text \<open>
  The small helpers of \<open>utils/__init__.py\<close> (\<open>lazy\<close>, \<open>flatten\<close>, \<open>get_own_attr\<close>, \<open>urlcat\<close>, \<open>default_utc\<close>,
  \<open>Namespace\<close>, \<open>CINamespace\<close>, \<open>deep_merge\<close>), the column types of \<open>models/types.py\<close> and the loading of
  documents in \<open>utils/declarative_config.py\<close>. Reading YAML and validating a document are arguments.
\<close>

section \<open>Lazy values\<close>

text \<open>\<open>_Lazy\<close>: \<open>lz_value\<close> is the attribute \<open>value\<close> of the scope, \<open>init\<close> the decorated function, run on the state of the
  world it may change; it may raise.\<close>

record 'a lazy =
  lz_value :: "'a option"

definition lazy_call :: "('s \<Rightarrow> 'a result \<times> 's) \<Rightarrow> 'a lazy \<Rightarrow> 's \<Rightarrow> 'a result \<times> 'a lazy \<times> 's" where
  "lazy_call init lz s =
     (case lz_value lz of
        Some v \<Rightarrow> (Inr v, lz, s)
      | None \<Rightarrow> (case init s of (Inl e, s') \<Rightarrow> (Inl e, lz, s') | (Inr v, s') \<Rightarrow> (Inr v, lz\<lparr>lz_value := Some v\<rparr>, s')))"

definition lazy_clear :: "'a lazy \<Rightarrow> 'a lazy" where
  "lazy_clear lz = lz\<lparr>lz_value := None\<rparr>"

fun lazy_calls :: "nat \<Rightarrow> ('s \<Rightarrow> 'a result \<times> 's) \<Rightarrow> 'a lazy \<Rightarrow> 's \<Rightarrow> 'a result list \<times> 'a lazy \<times> 's" where
  "lazy_calls 0 init lz s = ([], lz, s)"
| "lazy_calls (Suc n) init lz s =
     (case lazy_call init lz s of (r, lz', s') \<Rightarrow>
       (case lazy_calls n init lz' s' of (rs, lz'', s'') \<Rightarrow> (r # rs, lz'', s'')))"

lemma lazy_calls_cached: "lz_value lz = Some v \<Longrightarrow> lazy_calls n init lz s = (replicate n (Inr v), lz, s)"
  by (induction n) (simp_all add: lazy_call_def)

text \<open>Between two \<open>clear\<close>s the function runs once: every later call returns the value of the first and leaves the world
  alone; a call that raises is not remembered.\<close>

lemma lazy_value_computed_once:
  assumes "lz_value lz = None" and "init s = (Inr v, s')"
  shows "lazy_calls (Suc n) init lz s = (replicate (Suc n) (Inr v), lz\<lparr>lz_value := Some v\<rparr>, s')"
    and "lz_value (lazy_clear (lz\<lparr>lz_value := Some v\<rparr>)) = None"
  using assms by (simp_all add: lazy_call_def lazy_calls_cached lazy_clear_def)

section \<open>Own attributes\<close>

text \<open>An instance: its \<open>__slots__\<close> when its class has them, \<open>__dict__\<close>, and what \<open>getattr\<close> finds.\<close>

record 'v instance_attrs =
  ia_slots :: "string list option"
  ia_dict :: "(string, 'v) pydict"
  ia_getattr :: "string \<Rightarrow> 'v option"

definition get_own_attr :: "'v instance_attrs \<Rightarrow> string \<Rightarrow> 'v option \<Rightarrow> string + 'v" where
  "get_own_attr x attr dflt =
     (let found = (case ia_slots x of
          Some sl \<Rightarrow> if attr \<in> set sl then ia_getattr x attr else None
        | None \<Rightarrow> dget (ia_dict x) attr)
      in case found of
           Some v \<Rightarrow> Inr v
         | None \<Rightarrow> (case dflt of Some d \<Rightarrow> Inr d | None \<Rightarrow> Inl attr))"

definition has_own_attr :: "'v instance_attrs \<Rightarrow> string \<Rightarrow> bool" where
  "has_own_attr x attr = (case get_own_attr x attr None of Inr _ \<Rightarrow> True | Inl _ \<Rightarrow> False)"

text \<open>Attributes of the class are never seen, whatever \<open>getattr\<close> would find.\<close>

lemma own_attr_not_inherited:
  assumes "case ia_slots x of None \<Rightarrow> attr \<notin> set (dkeys (ia_dict x)) | Some sl \<Rightarrow> attr \<notin> set sl"
  shows "get_own_attr x attr (Some d) = Inr d" "\<not> has_own_attr x attr"
proof -
  have "dget (ia_dict x) attr = None" if "ia_slots x = None" using assms that by (simp add: dget_None_iff)
  with assms show "get_own_attr x attr (Some d) = Inr d" "\<not> has_own_attr x attr"
    by (cases "ia_slots x"; simp add: get_own_attr_def has_own_attr_def)+
qed

section \<open>URLs\<close>

definition strip_char :: "char \<Rightarrow> string \<Rightarrow> string" where
  "strip_char c s = rev (dropWhile (\<lambda>x. x = c) (rev (dropWhile (\<lambda>x. x = c) s)))"

definition urlcat :: "string list \<Rightarrow> string" where
  "urlcat args = join_with ''/'' (map (strip_char CHR ''/'') args)"

text \<open>The example of the documentation.\<close>

lemma urlcat_example: "urlcat [''http://foo.com/'', ''/biz'', ''baz'', ''buz''] = ''http://foo.com/biz/baz/buz''"
  by code_simp

lemma strip_hd: "strip_char c s = x # xs \<Longrightarrow> x \<noteq> c"
proof -
  assume a: "strip_char c s = x # xs"
  let ?d = "dropWhile (\<lambda>x. x = c) s"
  obtain ys where ys: "?d = strip_char c s @ ys"
    unfolding strip_char_def by (metis rev_append rev_rev_ident takeWhile_dropWhile_id)
  then have "?d = x # xs @ ys" using a by simp
  then show ?thesis by (metis (mono_tags) dropWhile_eq_Cons_conv)
qed

lemma strip_last: "strip_char c s = xs @ [x] \<Longrightarrow> x \<noteq> c"
proof -
  assume "strip_char c s = xs @ [x]"
  then have "dropWhile (\<lambda>x. x = c) (rev (dropWhile (\<lambda>x. x = c) s)) = x # rev xs"
    unfolding strip_char_def by (metis rev_eq_append_conv rev_singleton_conv append_Cons append_Nil rev.simps(2) rev_rev_ident)
  then show ?thesis by (metis (mono_tags) dropWhile_eq_Cons_conv)
qed

lemma strip_id: "s \<noteq> [] \<Longrightarrow> hd s \<noteq> c \<Longrightarrow> last s \<noteq> c \<Longrightarrow> strip_char c s = s"
proof -
  assume "s \<noteq> []" "hd s \<noteq> c" "last s \<noteq> c"
  moreover have "dropWhile (\<lambda>x. x = c) xs = xs" if "hd xs \<noteq> c" for xs using that by (cases xs) auto
  ultimately show ?thesis by (simp add: strip_char_def hd_rev)
qed

lemma join_with_append: "xs \<noteq> [] \<Longrightarrow> ys \<noteq> [] \<Longrightarrow> join_with sep (xs @ ys) = join_with sep xs @ sep @ join_with sep ys"
proof (induction sep xs rule: join_with.induct)
  case (2 sep s)
  then show ?case by (cases ys) auto
qed auto

lemma join_with_ends:
  assumes "xs \<noteq> []" and "\<forall>s \<in> set xs. s \<noteq> [] \<and> hd s \<noteq> c \<and> last s \<noteq> c"
  shows "join_with sep xs \<noteq> [] \<and> hd (join_with sep xs) \<noteq> c \<and> last (join_with sep xs) \<noteq> c"
  using assms by (induction sep xs rule: join_with.induct) auto

lemma strip_ends: "strip_char c s \<noteq> [] \<Longrightarrow> hd (strip_char c s) \<noteq> c \<and> last (strip_char c s) \<noteq> c"
  using strip_hd [of c s "hd (strip_char c s)" "tl (strip_char c s)"]
    strip_last [of c s "butlast (strip_char c s)" "last (strip_char c s)"] by auto

text \<open>Joining is associative: a joined prefix can be joined again, slashes or not.\<close>

lemma urlcat_nested:
  assumes "xs \<noteq> []" and "\<forall>s \<in> set xs. strip_char CHR ''/'' s \<noteq> []"
  shows "urlcat (urlcat xs # ys) = urlcat (xs @ ys)"
proof -
  have "strip_char CHR ''/'' (urlcat xs) = urlcat xs"
    unfolding urlcat_def using assms strip_ends
    by (intro strip_id) (use join_with_ends [of "map (strip_char CHR ''/'') xs" "CHR ''/''" "''/''"] in auto)
  with assms(1) show ?thesis
    by (cases "ys = []") (simp_all add: urlcat_def join_with_append, cases ys, simp_all)
qed

section \<open>Instants in the database\<close>

text \<open>A datetime: its reading, and the offset of its zone when it has one.\<close>

record datetime =
  dt_local :: int
  dt_offset :: "int option"

definition default_utc :: "datetime \<Rightarrow> datetime" where
  "default_utc d = (if dt_offset d = None then d\<lparr>dt_offset := Some 0\<rparr> else d)"

definition as_utc :: "datetime \<Rightarrow> datetime" where
  "as_utc d = (case dt_offset d of None \<Rightarrow> d | Some z \<Rightarrow> \<lparr> dt_local = dt_local d - z, dt_offset = Some 0 \<rparr>)"

text \<open>The instant a datetime stands for, one without a zone being in UTC.\<close>

definition instant :: "datetime \<Rightarrow> int" where
  "instant d = dt_local d - (case dt_offset d of None \<Rightarrow> 0 | Some z \<Rightarrow> z)"

definition bind_datetime :: "datetime option \<Rightarrow> datetime option" where
  "bind_datetime v = map_option (\<lambda>d. as_utc (if dt_offset d = None then default_utc d else d)) v"

definition result_datetime :: "datetime option \<Rightarrow> datetime option" where
  "result_datetime v =
     (case v of
        Some d \<Rightarrow> Some (if dt_offset d = None then default_utc d else d)
      | None \<Rightarrow> None)"

text \<open>SQLite keeps the reading and forgets the zone.\<close>

definition sqlite_column :: "datetime option \<Rightarrow> datetime option" where
  "sqlite_column v = map_option (\<lambda>d. d\<lparr>dt_offset := None\<rparr>) v"

lemma datetime_round_trip:
  "result_datetime (sqlite_column (bind_datetime v)) = map_option (\<lambda>d. \<lparr> dt_local = instant d, dt_offset = Some 0 \<rparr>) v"
  by (cases v) (auto simp: result_datetime_def sqlite_column_def bind_datetime_def as_utc_def default_utc_def instant_def
      split: option.splits)

text \<open>Two columns compare as the instants do, so the manager's queries on times do not depend on zones.\<close>

lemma datetime_order:
  assumes "bind_datetime (Some a) = Some a'" and "bind_datetime (Some b) = Some b'"
  shows "dt_local a' < dt_local b' \<longleftrightarrow> instant a < instant b"
  using assms by (auto simp: bind_datetime_def as_utc_def default_utc_def instant_def split: option.splits if_splits)

text \<open>\<open>StringyJSON\<close>.\<close>

definition bind_json :: "pyval option \<Rightarrow> string option" where
  "bind_json v = map_option dumps v"

definition result_json :: "string option \<Rightarrow> pyval option" where
  "result_json v = (case v of None \<Rightarrow> None | Some s \<Rightarrow> loads s)"

lemma json_round_trip: "(\<forall>x. v = Some x \<longrightarrow> wfp x) \<Longrightarrow> result_json (bind_json v) = v"
  by (cases v) (auto simp: result_json_def bind_json_def json.dec_enc)

section \<open>Merging dicts\<close>

text \<open>\<open>deep_merge\<close> of \<open>utils/__init__.py\<close> takes any number of dicts and starts from an empty one; the nested call gets
  the dict merged so far, whose own entries it first copies.\<close>

function merge_into :: "(string, pyval) pydict \<Rightarrow> (string, pyval) pydict \<Rightarrow> (string, pyval) pydict" where
  "merge_into m [] = m"
| "merge_into m ((k, v) # d) =
     merge_into (dset k (case dget m k of
          Some (PDict x) \<Rightarrow> (case v of PDict y \<Rightarrow> PDict (merge_into x y) | _ \<Rightarrow> v)
        | _ \<Rightarrow> v) m) d"
  by pat_completeness auto
termination
  by (relation "measure (\<lambda>(m, d). size (PDict d))") auto

definition deep_merge_all :: "(string, pyval) pydict list \<Rightarrow> (string, pyval) pydict" where
  "deep_merge_all ds = foldl merge_into [] ds"

text \<open>Merging a dict into an empty one copies it, so the nested call's first round changes nothing.\<close>

lemma merge_into_fresh: "distinct (dkeys (m @ d)) \<Longrightarrow> merge_into m d = m @ d"
proof (induction m d rule: merge_into.induct)
  case (2 m k v d)
  from "2.prems" have "dget m k = None" "k \<notin> set (dkeys m)" by (auto simp: dget_None_iff)
  then have "dset k v m = m @ [(k, v)]" by (simp add: dset_new)
  with 2 \<open>dget m k = None\<close> show ?case by simp
qed simp

lemma merge_into_empty: "wfd d \<Longrightarrow> merge_into [] d = d"
  by (simp add: merge_into_fresh wfd_def)

text \<open>The two \<open>deep_merge\<close>s of the code agree: the one that patches topologies is this one on two dicts.\<close>

lemma merge_into_deep_merge: "merge_into a b = deep_merge a b"
  by (induction a b rule: merge_into.induct) (simp_all split: option.splits pyval.splits)

lemma deep_merge_implementations_agree:
  assumes "wfd a"
  shows "deep_merge_all [a, b] = deep_merge a b"
proof -
  have "deep_merge_all [a, b] = merge_into (merge_into [] a) b" by (simp add: deep_merge_all_def)
  with assms show ?thesis by (simp only: merge_into_empty merge_into_deep_merge [of a b])
qed

section \<open>Loading documents\<close>

record document_header =
  bo_name :: string
  bo_api_version :: string
  bo_kind :: string

definition api_version :: string where
  "api_version = ''datalineup.khulnasoft.io/v1alpha1''"

text \<open>\<open>decode\<close> is \<open>fromdict\<close> into \<open>BaseObject\<close>; empty documents are skipped.\<close>

fun load_documents :: "(pyval \<Rightarrow> document_header result) \<Rightarrow> pyval list \<Rightarrow> uncompiled_object list result" where
  "load_documents decode [] = Inr []"
| "load_documents decode (y # ys) =
     (if \<not> truthy y then load_documents decode ys
      else rbind (decode y) (\<lambda>b.
        if bo_api_version b \<noteq> api_version then Inl (PlainException ''apiVersion'')
        else rbind (load_documents decode ys) (\<lambda>us.
          Inr (\<lparr> uo_api_version = bo_api_version b, uo_kind = bo_kind b, uo_name = bo_name b, uo_data = y \<rparr> # us))))"

definition ends_with :: "string \<Rightarrow> string \<Rightarrow> bool" where
  "ends_with suffix s \<longleftrightarrow> take (List.length suffix) (rev s) = rev suffix"

text \<open>\<open>files\<close> are the files of the directory in the order of \<open>os.walk\<close>, with the documents YAML reads from them.\<close>

fun load_directory :: "(pyval \<Rightarrow> document_header result) \<Rightarrow> (string \<times> pyval list) list \<Rightarrow> uncompiled_object list result" where
  "load_directory decode [] = Inr []"
| "load_directory decode ((name, docs) # files) =
     (if \<not> ends_with ''.yaml'' name then load_directory decode files
      else rbind (load_documents decode docs) (\<lambda>us.
           rbind (load_directory decode files) (\<lambda>vs. Inr (us @ vs))))"

lemma load_documents_objects:
  assumes "load_documents decode docs = Inr us"
  shows "map uo_data us = filter truthy docs" "\<forall>u \<in> set us. uo_api_version u = api_version \<and>
    (\<exists>b. decode (uo_data u) = Inr b \<and> bo_kind b = uo_kind u \<and> bo_name b = uo_name u)"
  using assms
  by (induction decode docs arbitrary: us rule: load_documents.induct) (auto simp: rbind_Inr_iff split: if_splits)

text \<open>A directory loads exactly the documents of its YAML files, in order, and none when one of them is not valid.\<close>

lemma load_directory_objects:
  assumes "load_directory decode files = Inr us"
  shows "map uo_data us = filter truthy (concat (map snd (filter (\<lambda>(n, _). ends_with ''.yaml'' n) files)))"
  using assms
  by (induction decode files arbitrary: us rule: load_directory.induct)
    (auto simp: rbind_Inr_iff load_documents_objects(1) split: if_splits)

end
