(* ===== verification/Traceback_Frames.thy ===== *)
theory Traceback_Frames
  imports Traceback
begin

text \<open>
  What \<open>utils/traceback_data.py\<close> keeps of a frame: \<open>format_local\<close>, the text of a local variable, and
  \<open>extract_stack\<close>, which reads the frames. The lines of a source file (\<open>linecache\<close>) are an argument, as
  are the names of types.
\<close>

section \<open>Python objects\<close>

text \<open>The cases \<open>format_local\<close> tells apart. \<open>str\<close> and \<open>bytes\<close> come with their characters, a number with its \<open>repr\<close>, a
  mapping or collection with \<open>str(type(x))\<close> unless it is a dict or a list, anything else with \<open>str(type(x))\<close> only.\<close>

datatype pyobj =
    OStr string
  | OBytes string
  | ONum string
  | OMap "string option" "(pyobj \<times> pyobj) list"
  | OColl "string option" "pyobj list"
  | OOther string

definition repr_quote :: "string \<Rightarrow> char" where
  "repr_quote s = (if CHR 0x27 \<in> set s \<and> CHR 0x22 \<notin> set s then CHR 0x22 else CHR 0x27)"

definition hex_digit :: "nat \<Rightarrow> char" where
  "hex_digit n = (if n < 10 then char_of (48 + n) else char_of (87 + n))"

definition escaped :: "char \<Rightarrow> string" where
  "escaped c = [char_of (92 :: nat), c]"

definition hex_escape :: "nat \<Rightarrow> string" where
  "hex_escape n = escaped CHR ''x'' @ [hex_digit (n div 16), hex_digit (n mod 16)]"

definition repr_char :: "char \<Rightarrow> bool \<Rightarrow> char \<Rightarrow> string" where
  "repr_char q bytes c =
     (let n = of_char c :: nat in
      if c = q \<or> n = 92 then escaped c
      else if n = 10 then escaped CHR ''n''
      else if n = 13 then escaped CHR ''r''
      else if n = 9 then escaped CHR ''t''
      else if n < 32 \<or> n = 127 \<or> (if bytes then 128 \<le> n else 128 \<le> n \<and> n < 161 \<or> n = 173) then hex_escape n
      else [c])"

definition repr_str :: "string \<Rightarrow> string" where
  "repr_str s = (let q = repr_quote s in q # concat (map (repr_char q False) s) @ [q])"

definition repr_bytes :: "string \<Rightarrow> string" where
  "repr_bytes s = (let q = repr_quote s in CHR ''b'' # q # concat (map (repr_char q True) s) @ [q])"

text \<open>\<open>s[:n]\<close> for any integer \<open>n\<close>.\<close>

definition slice_to :: "int \<Rightarrow> 'a list \<Rightarrow> 'a list" where
  "slice_to n s = (if 0 \<le> n then take (nat n) s else take (nat (int (List.length s) + n)) s)"

abbreviation slen :: "string \<Rightarrow> int" where
  "slen s \<equiv> int (List.length s)"

text \<open>The last lines of \<open>format_local\<close>.\<close>

definition mark_truncated :: "int \<Rightarrow> string \<Rightarrow> string" where
  "mark_truncated maxlen val =
     (if maxlen \<le> slen val
      then (if last val = CHR 0x27 then butlast val @ ''<...>'' else val @ ''<...>'')
      else val)"

text \<open>\<open>format_items\<close> and \<open>format_elems\<close> are the loops over a mapping and a collection; they also tell
  whether the loop was left early, which returns the text as it is.\<close>

function (sequential) format_local :: "pyobj \<Rightarrow> int \<Rightarrow> string"
  and format_items :: "(pyobj \<times> pyobj) list \<Rightarrow> int \<Rightarrow> int \<Rightarrow> string list \<times> bool"
  and format_elems :: "pyobj list \<Rightarrow> int \<Rightarrow> int \<Rightarrow> string list \<times> bool" where
  "format_local (OStr s) m = mark_truncated m (repr_str (slice_to m s))"
| "format_local (OBytes s) m = mark_truncated m (repr_bytes (slice_to m s))"
| "format_local (ONum r) m = mark_truncated m r"
| "format_local (OMap t kvs) m =
     (let val = (case t of None \<Rightarrow> [] | Some n \<Rightarrow> n) @ ''{'' in
      case format_items kvs m (slen val) of
        (vals, True) \<Rightarrow> val @ join_with '', '' vals
      | (vals, False) \<Rightarrow> val @ join_with '', '' vals @ ''}'')"
| "format_local (OColl t vs) m =
     (let val = (case t of None \<Rightarrow> [] | Some n \<Rightarrow> n) @ ''['' in
      case format_elems vs m (slen val) of
        (vals, True) \<Rightarrow> val @ join_with '', '' vals
      | (vals, False) \<Rightarrow> val @ join_with '', '' vals @ '']'')"
| "format_local (OOther t) m = mark_truncated m t"
| "format_items [] m l = ([], False)"
| "format_items ((k, v) # kvs) m l =
     (let ks = format_local k (m - l);
          l1 = l + slen ks;
          vs = format_local v (m - l1);
          l2 = l1 + slen vs + 4
      in if m < l2 then ([ks @ '': '' @ vs], True)
         else (case format_items kvs m l2 of (vals, early) \<Rightarrow> ((ks @ '': '' @ vs) # vals, early)))"
| "format_elems [] m l = ([], False)"
| "format_elems (v # vs) m l =
     (let s = format_local v (m - l);
          l1 = l + slen s + 2
      in if m < l1 then ([s], True)
         else (case format_elems vs m l1 of (vals, early) \<Rightarrow> (s # vals, early)))"
  by pat_completeness auto
termination
  by (relation "measure (case_sum (\<lambda>(x, _). size x)
      (case_sum (\<lambda>(xs, _). size_list (size_prod size size) xs) (\<lambda>(xs, _). size_list size xs)))") auto

section \<open>How long the text gets\<close>

lemma repr_char_length: "List.length (repr_char q b c) \<le> 4"
  by (simp add: repr_char_def Let_def hex_escape_def escaped_def)

lemma repr_str_length: "slen (repr_str s) \<le> 4 * slen s + 2"
proof -
  have "List.length (concat (map (repr_char q b) s)) \<le> 4 * List.length s" for q b
    using repr_char_length by (induction s) (auto intro: add_mono)
  then show ?thesis by (simp add: repr_str_def Let_def) (metis of_nat_le_iff of_nat_mult of_nat_numeral)
qed

lemma mark_truncated_length: "slen (mark_truncated m s) \<le> slen s + 5"
  by (simp add: mark_truncated_def)

lemma leaf_length: "0 \<le> m \<Longrightarrow> slen (format_local (OStr s) m) \<le> 4 * m + 7"
  using repr_str_length [of "slice_to m s"] mark_truncated_length [of m "repr_str (slice_to m s)"]
  by (simp add: slice_to_def)

lemma join_with_Cons: "xs \<noteq> [] \<Longrightarrow> join_with sep (x # xs) = x @ sep @ join_with sep xs"
  by (cases xs) simp_all

text \<open>The loop over strings stops as soon as it has passed the limit, so only the last of them can exceed it.\<close>

lemma format_elems_length:
  assumes "format_elems (map OStr ss) m l = (vals, early)" and "0 \<le> l" and "l \<le> m"
  shows "l + slen (join_with '', '' vals) \<le> 5 * m + 7"
  using assms
proof (induction ss arbitrary: l vals early)
  case (Cons s ss)
  let ?v = "format_local (OStr s) (m - l)"
  have v: "slen ?v \<le> 4 * (m - l) + 7" using leaf_length [of "m - l" s] Cons.prems(3) by simp
  show ?case
  proof (cases "m < l + slen ?v + 2")
    case True
    then have "vals = [?v]" using Cons.prems(1) by (simp add: Let_def del: format_local.simps)
    with v Cons.prems(2,3) show ?thesis by simp
  next
    case False
    then obtain vs where vs: "format_elems (map OStr ss) m (l + slen ?v + 2) = (vs, early)" "vals = ?v # vs"
      using Cons.prems(1) by (auto simp: Let_def simp del: format_local.simps split: prod.splits)
    have "l + slen ?v + 2 + slen (join_with '', '' vs) \<le> 5 * m + 7"
      using False Cons.prems(2) by (intro Cons.IH [OF vs(1)]) simp_all
    with vs(2) show ?thesis by (cases "vs = []") (simp_all add: join_with_Cons del: format_local.simps)
  qed
qed simp

text \<open>A flat list of strings is cut, however long it is: the text has at most \<open>5 * maxlen + 8\<close> characters.\<close>

lemma flat_list_bounded:
  assumes "1 \<le> m"
  shows "slen (format_local (OColl None (map OStr ss)) m) \<le> 5 * m + 8"
proof -
  obtain vals early where v: "format_elems (map OStr ss) m 1 = (vals, early)" by fastforce
  with format_elems_length [OF this] assms have "1 + slen (join_with '', '' vals) \<le> 5 * m + 7" by simp
  with v show ?thesis by (cases early) simp_all
qed

text \<open>
  A dict is not: once the key has used up \<open>maxlen\<close>, the value is formatted with a negative limit, and
  \<open>s[:-n]\<close> keeps all of a long string but its end.\<close>

lemma repr_str_longer: "slen s \<le> slen (repr_str s)"
proof -
  have "1 \<le> List.length (repr_char q False c)" for q c
    by (simp add: repr_char_def Let_def hex_escape_def escaped_def)
  then have "List.length s \<le> List.length (concat (map (repr_char q False) s))" for q
    by (induction s) (simp_all, metis One_nat_def Suc_eq_plus1_left add_mono)
  then have "slen s \<le> slen (concat (map (repr_char q False) s))" for q by simp
  then show ?thesis by (simp add: repr_str_def Let_def add_increasing)
qed

lemma mark_truncated_longer: "slen s - 1 \<le> slen (mark_truncated m s)"
  by (cases s) (auto simp: mark_truncated_def)

lemma format_str_negative: "m < 0 \<Longrightarrow> slen s + m - 1 \<le> slen (format_local (OStr s) m)"
proof -
  assume "m < 0"
  then have "slen s + m \<le> slen (slice_to m s)" by (simp add: slice_to_def)
  then show ?thesis
    using repr_str_longer [of "slice_to m s"] mark_truncated_longer [of "repr_str (slice_to m s)" m] by simp
qed

definition long_key :: string where
  "long_key = replicate 80 CHR ''k''"

lemma long_key_length: "slen (format_local (OStr long_key) 79) = 85"
  by code_simp

lemma dict_value_not_cut:
  "slen v - 7 \<le> slen (format_local (OMap None [(OStr long_key, OStr v)]) 80)"
proof -
  have "slen v + (80 - 86) - 1 \<le> slen (format_local (OStr v) (80 - 86))" by (intro format_str_negative) simp
  moreover have "slen (format_local (OStr v) (80 - 86)) \<le> slen (format_local (OMap None [(OStr long_key, OStr v)]) 80)"
    using long_key_length by (simp add: Let_def del: format_local.simps(1))
  ultimately show ?thesis by simp
qed

section \<open>Reading the frames\<close>

text \<open>A frame of a traceback and the line it is at; \<open>cf_lnotab\<close> are the bytes of \<open>co_lnotab\<close>.\<close>

record code_frame =
  cf_filename :: string
  cf_name :: string
  cf_module :: "string option"
  cf_locals :: "(string, pyobj) pydict"
  cf_firstlineno :: int
  cf_lnotab :: "nat list"
  cf_lineno :: int

definition py_space :: "char \<Rightarrow> bool" where
  "py_space c \<longleftrightarrow> (let n = of_char c :: nat in 9 \<le> n \<and> n \<le> 13 \<or> 28 \<le> n \<and> n \<le> 32 \<or> n = 133 \<or> n = 160)"

definition rstrip :: "string \<Rightarrow> string" where
  "rstrip s = rev (dropWhile py_space (rev s))"

fun odd_places :: "'a list \<Rightarrow> 'a list" where
  "odd_places (x # y # xs) = y # odd_places xs"
| "odd_places _ = []"

definition last_line :: "code_frame \<Rightarrow> int" where
  "last_line f = cf_firstlineno f + int (sum_list (odd_places (cf_lnotab f)))"

definition numbers_before :: "int \<Rightarrow> code_frame \<Rightarrow> int list" where
  "numbers_before n f = [max (max (cf_firstlineno f) (cf_lineno f - n)) n .. cf_lineno f - 1]"

definition numbers_after :: "int \<Rightarrow> code_frame \<Rightarrow> int list" where
  "numbers_after n f = [cf_lineno f + 1 .. min (last_line f) (cf_lineno f + n)]"

definition limit_frames :: "int option \<Rightarrow> 'a list \<Rightarrow> 'a list" where
  "limit_frames limit fs = (case limit of None \<Rightarrow> fs | Some n \<Rightarrow> take (nat (if n < 0 then 0 else n)) fs)"

definition frame_of :: "(string \<Rightarrow> int \<Rightarrow> string) \<Rightarrow> int \<Rightarrow> code_frame \<Rightarrow> frame_data" where
  "frame_of getline n f =
     (let get = (\<lambda>i. rstrip (getline (cf_filename f) i)) in
      \<lparr> fr_filename = cf_filename f, fr_lineno = cf_lineno f,
        fr_module = (case cf_module f of None \<Rightarrow> [] | Some m \<Rightarrow> m), fr_name = cf_name f,
        fr_locals = map (\<lambda>(k, v). (k, format_local v 80)) (cf_locals f),
        fr_lines_before = map get (numbers_before n f), fr_line = get (cf_lineno f),
        fr_lines_after = map get (numbers_after n f) \<rparr>)"

definition extract_stack :: "(string \<Rightarrow> int \<Rightarrow> string) \<Rightarrow> int option \<Rightarrow> code_frame list \<Rightarrow> frame_data list" where
  "extract_stack getline limit frames = map (frame_of getline 2) (limit_frames limit frames)"

text \<open>The lines kept are consecutive lines of the function around the current one, at most two on each side.\<close>

lemma frame_window:
  assumes "cf_firstlineno f \<le> cf_lineno f" and "cf_lineno f \<le> last_line f" and "2 \<le> cf_lineno f"
  shows "\<exists>a b. numbers_before 2 f @ cf_lineno f # numbers_after 2 f = [a..b] \<and>
    cf_firstlineno f \<le> a \<and> cf_lineno f - 2 \<le> a \<and> b \<le> last_line f \<and> b \<le> cf_lineno f + 2"
proof -
  let ?n = "cf_lineno f" and ?a = "max (max (cf_firstlineno f) (cf_lineno f - 2)) 2" and ?b = "min (last_line f) (cf_lineno f + 2)"
  have a: "?a \<le> ?n" using assms by simp
  have "[?a..?b] = [?a..?n - 1] @ [?n..?b]" using a assms(2) by (intro upto_split1) simp_all
  also have "[?n..?b] = ?n # [?n + 1..?b]" using assms(2) by (simp add: upto_rec1)
  finally have "numbers_before 2 f @ ?n # numbers_after 2 f = [?a..?b]"
    by (simp add: numbers_before_def numbers_after_def)
  then show ?thesis by (rule_tac exI [of _ ?a], rule_tac exI [of _ ?b]) (simp add: le_max_iff_disj)
qed

lemma extract_stack_frames:
  "limit = None \<Longrightarrow> map frame_key (extract_stack getline limit fs) = map (\<lambda>f. (cf_filename f, cf_lineno f, cf_name f)) fs"
  by (simp add: extract_stack_def limit_frames_def frame_of_def frame_key_def Let_def)

text \<open>A negative \<open>sys.tracebacklimit\<close> keeps no frame: it is replaced by 0, and the branch for negative limits is never taken.\<close>

lemma negative_limit: "n < 0 \<Longrightarrow> extract_stack getline (Some n) fs = []"
  by (simp add: extract_stack_def limit_frames_def)

text \<open>The first line of a file is never among the lines before: the range starts at \<open>line_context\<close> where 1 is meant.\<close>

lemma first_line_is_skipped: "1 \<notin> set (numbers_before 2 f)"
  by (simp add: numbers_before_def)

end
