(* ===== verification/Cached_Property.thy ===== *)
theory Cached_Property
  imports Prelude
begin

text \<open>
  \<open>CachedProperty\<close> of \<open>utils/asyncutils.py\<close>: an attribute whose value a coroutine computes once. The first reader
  stores a future in the instance and starts the computation; later readers await the same future; a
  failure takes it out again. Topics keep their channel, exchange and queue this way.

  Futures are numbered in the order they are made. Cancelling a task that awaits a plain future
  cancels the future, as asyncio defines it.
\<close>

section \<open>State\<close>

datatype 'v future = Pending | Resolved 'v | Excepted exn | Cancelled

record 'v cached_attr =
  ca_slot :: "nat option"
  ca_futures :: "'v future list"
  ca_running :: "nat set"
  ca_awaited :: "(nat \<times> nat) list"

definition attr_init :: "'v cached_attr" where
  "attr_init = \<lparr> ca_slot = None, ca_futures = [], ca_running = {}, ca_awaited = [] \<rparr>"

text \<open>\<open>_get_attribute\<close> up to the await: the reader \<open>r\<close> awaits the future in the slot.\<close>

definition attr_get :: "nat \<Rightarrow> 'v cached_attr \<Rightarrow> 'v cached_attr" where
  "attr_get r a =
     (case ca_slot a of
        Some n \<Rightarrow> a\<lparr>ca_awaited := (r, n) # ca_awaited a\<rparr>
      | None \<Rightarrow>
          (let n = List.length (ca_futures a)
           in a\<lparr>ca_slot := Some n, ca_futures := ca_futures a @ [Pending], ca_running := insert n (ca_running a),
                ca_awaited := (r, n) # ca_awaited a\<rparr>))"

text \<open>The end of \<open>wrapper\<close>. On a future that is not pending \<open>set_result\<close> raises, and so does the \<open>set_exception\<close>
  of the handler, before the slot is emptied.\<close>

definition attr_computed :: "nat \<Rightarrow> 'v result \<Rightarrow> 'v cached_attr \<Rightarrow> 'v cached_attr" where
  "attr_computed n out a =
     (let a1 = a\<lparr>ca_running := ca_running a - {n}\<rparr> in
      if ca_futures a ! n \<noteq> Pending then a1
      else (case out of
          Inr v \<Rightarrow> a1\<lparr>ca_futures := (ca_futures a)[n := Resolved v]\<rparr>
        | Inl e \<Rightarrow> a1\<lparr>ca_slot := None, ca_futures := (ca_futures a)[n := Excepted e]\<rparr>))"

text \<open>\<open>task.cancel()\<close> of a reader.\<close>

definition attr_cancel :: "nat \<Rightarrow> 'v cached_attr \<Rightarrow> 'v cached_attr" where
  "attr_cancel r a =
     (case map_of (ca_awaited a) r of
        None \<Rightarrow> a
      | Some n \<Rightarrow> if ca_futures a ! n = Pending then a\<lparr>ca_futures := (ca_futures a)[n := Cancelled]\<rparr> else a)"

definition attr_delete :: "'v cached_attr \<Rightarrow> 'v cached_attr" where
  "attr_delete a = a\<lparr>ca_slot := None\<rparr>"

text \<open>What the reader gets: nothing yet, a value, an error, or its own cancellation.\<close>

definition attr_read :: "nat \<Rightarrow> 'v cached_attr \<Rightarrow> 'v future" where
  "attr_read r a = (case map_of (ca_awaited a) r of None \<Rightarrow> Pending | Some n \<Rightarrow> ca_futures a ! n)"

inductive attr_step :: "bool \<Rightarrow> 'v cached_attr \<Rightarrow> 'v cached_attr \<Rightarrow> bool" for cancels where
  A_get: "r \<notin> fst ` set (ca_awaited a) \<Longrightarrow> attr_step cancels a (attr_get r a)"
| A_computed: "n \<in> ca_running a \<Longrightarrow> attr_step cancels a (attr_computed n out a)"
| A_cancel: "cancels \<Longrightarrow> attr_step cancels a (attr_cancel r a)"
| A_delete: "attr_step cancels a (attr_delete a)"

inductive_cases attr_stepE: "attr_step cancels a a'"

definition attr_reachable :: "bool \<Rightarrow> 'v cached_attr \<Rightarrow> bool" where
  "attr_reachable cancels a \<longleftrightarrow> (attr_step cancels)\<^sup>*\<^sup>* attr_init a"

section \<open>Without cancellation\<close>

text \<open>A running computation has its future pending, and the slot only holds a pending future that is being computed or
  a value.\<close>

definition attr_inv :: "'v cached_attr \<Rightarrow> bool" where
  "attr_inv a \<longleftrightarrow>
     (\<forall>n. n < List.length (ca_futures a) \<longrightarrow> (n \<in> ca_running a \<longleftrightarrow> ca_futures a ! n = Pending)) \<and>
     ca_running a \<subseteq> {..< List.length (ca_futures a)} \<and>
     (\<forall>(r, n) \<in> set (ca_awaited a). n < List.length (ca_futures a)) \<and>
     Cancelled \<notin> set (ca_futures a) \<and>
     (\<forall>n. ca_slot a = Some n \<longrightarrow> n < List.length (ca_futures a) \<and> (\<forall>e. ca_futures a ! n \<noteq> Excepted e))"

lemma attr_inv_step: "attr_step False a a' \<Longrightarrow> attr_inv a \<Longrightarrow> attr_inv a'"
proof (induction rule: attr_step.induct)
  case (A_get r a)
  then show ?case
    by (cases "ca_slot a") (auto simp: attr_inv_def attr_get_def Let_def nth_append less_Suc_eq)
next
  case (A_computed n a out)
  then have n: "n < List.length (ca_futures a)" "ca_futures a ! n = Pending"
    by (auto simp: attr_inv_def)
  have c: "Cancelled \<notin> set ((ca_futures a)[n := x])" if "x \<noteq> Cancelled" for x
    using A_computed.prems that set_update_subset_insert [of "ca_futures a" n x] by (auto simp: attr_inv_def)
  from A_computed.prems n c show ?case
    by (cases out) (auto simp: attr_inv_def attr_computed_def Let_def nth_list_update split: if_splits)
next
  case (A_delete a)
  then show ?case by (simp add: attr_inv_def attr_delete_def)
qed simp

lemma attr_reachable_inv: "attr_reachable False a \<Longrightarrow> attr_inv a"
  unfolding attr_reachable_def
proof (induction rule: rtranclp_induct)
  case base
  show ?case by (simp add: attr_inv_def attr_init_def)
next
  case (step a a')
  then show ?case using attr_inv_step by blast
qed

text \<open>
  While no reader is cancelled a cached property never hangs and never caches a failure: a reader that waits, waits for a
  computation that is still running, however often the attribute was deleted and computed again; the slot never
  holds an error; and once it holds a value every later reader gets that value at once.\<close>

theorem cached_property_settles:
  assumes r: "attr_reachable False a"
  shows "(\<forall>r n. map_of (ca_awaited a) r = Some n \<and> attr_read r a = Pending \<longrightarrow> n \<in> ca_running a) \<and>
    (\<forall>n. ca_slot a = Some n \<longrightarrow> n \<in> ca_running a \<or> (\<exists>v. ca_futures a ! n = Resolved v)) \<and>
    (\<forall>n v r. ca_slot a = Some n \<and> ca_futures a ! n = Resolved v \<longrightarrow>
       attr_read r (attr_get r a) = Resolved v \<and> ca_running (attr_get r a) = ca_running a)"
proof -
  have i: "attr_inv a" by (rule attr_reachable_inv [OF r])
  have "n \<in> ca_running a" if "map_of (ca_awaited a) r = Some n" "attr_read r a = Pending" for r n
    using i that map_of_SomeD [OF that(1)] by (auto simp: attr_inv_def attr_read_def)
  moreover have "n \<in> ca_running a \<or> (\<exists>v. ca_futures a ! n = Resolved v)" if n: "ca_slot a = Some n" for n
  proof -
    have "n < List.length (ca_futures a)" using i n by (auto simp: attr_inv_def)
    then have "ca_futures a ! n \<noteq> Cancelled" using i by (metis attr_inv_def nth_mem)
    with i n show ?thesis by (cases "ca_futures a ! n") (auto simp: attr_inv_def)
  qed
  moreover have "attr_read r (attr_get r a) = Resolved v \<and> ca_running (attr_get r a) = ca_running a"
    if "ca_slot a = Some n" "ca_futures a ! n = Resolved v" for n v r
    using that by (simp add: attr_get_def attr_read_def)
  ultimately show ?thesis by blast
qed

lemma attr_reachable_step: "attr_reachable c a \<Longrightarrow> attr_step c a a' \<Longrightarrow> attr_reachable c a'"
  by (auto simp: attr_reachable_def intro: rtranclp.rtrancl_into_rtrancl)

lemma attr_reachable_init: "attr_reachable c attr_init"
  by (simp add: attr_reachable_def)

text \<open>A first computation fails, a second one succeeds.\<close>

definition retried_attr :: "nat cached_attr" where
  "retried_attr = attr_computed 1 (Inr 7) (attr_get 2 (attr_computed 0 (Inl (ValueError ''x'')) (attr_get 1 attr_init)))"

lemma retried_reachable: "attr_reachable False retried_attr"
  unfolding retried_attr_def
  by (intro attr_reachable_step [OF attr_reachable_step [OF attr_reachable_step [OF attr_reachable_step
      [OF attr_reachable_init A_get] A_computed] A_get] A_computed])
    (simp_all add: attr_init_def attr_get_def attr_computed_def Let_def)

theorem cached_property_settles_witness: "attr_read 3 (attr_get 3 retried_attr) = Resolved 7"
proof -
  have "ca_slot retried_attr = Some 1" "ca_futures retried_attr ! 1 = Resolved 7"
    by (simp_all add: retried_attr_def attr_init_def attr_get_def attr_computed_def Let_def)
  with cached_property_settles [OF retried_reachable] show ?thesis by blast
qed

section \<open>With cancellation\<close>

definition stuck :: "'v cached_attr \<Rightarrow> bool" where
  "stuck a \<longleftrightarrow> (\<exists>n. ca_slot a = Some n \<and> n < List.length (ca_futures a) \<and> ca_futures a ! n = Cancelled) \<and> ca_running a = {}"

lemma stuck_step: "attr_step True a a' \<Longrightarrow> stuck a \<Longrightarrow> a' \<noteq> attr_delete a \<Longrightarrow> stuck a'"
proof (induction rule: attr_step.induct)
  case (A_cancel a r)
  then obtain n where n: "ca_slot a = Some n" "n < List.length (ca_futures a)" "ca_futures a ! n = Cancelled"
    "ca_running a = {}" by (auto simp: stuck_def)
  then have "(ca_futures a)[m := Cancelled] ! n = Cancelled" for m by (cases "m = n") simp_all
  with n show ?case by (auto simp: stuck_def attr_cancel_def split: option.splits)
qed (auto simp: stuck_def attr_get_def)

lemma stuck_reader: "stuck a \<Longrightarrow> attr_read r (attr_get r a) = Cancelled"
  by (auto simp: stuck_def attr_get_def attr_read_def)

text \<open>One reader is cancelled while the value is computed, and the computation then succeeds: nobody gets the
  value, now or later, until the attribute is deleted.\<close>

lemma cancelled_property_is_stuck:
  "\<exists>a :: nat cached_attr. attr_reachable True a \<and> stuck a"
proof -
  let ?a = "attr_computed 0 (Inr 7) (attr_cancel 1 (attr_get 1 attr_init)) :: nat cached_attr"
  have "attr_reachable True ?a"
    by (intro attr_reachable_step [OF attr_reachable_step [OF attr_reachable_step
        [OF attr_reachable_init A_get] A_cancel] A_computed])
      (simp_all add: attr_init_def attr_get_def attr_cancel_def)
  moreover have "stuck ?a"
    by (simp add: attr_init_def attr_get_def attr_cancel_def attr_computed_def stuck_def Let_def)
  ultimately show ?thesis by blast
qed

end
