(* ===== verification/Manager_Context.thy ===== *)
theory Manager_Context
  imports Manager_Api Definitions
begin

text \<open>
  The worker manager around its database: the definitions it keeps between requests
  (\<open>worker_manager/context.py\<close>), the patches stored by \<open>/api/topologies/patch\<close> (\<open>stores/topologies_store.py\<close>), and
  the manager embedded in a worker (\<open>StandaloneWorkerManagerClient\<close> in \<open>worker/worker_manager.py\<close>, driven by
  \<open>StandaloneApiClient\<close> in \<open>worker/services/api_client.py\<close>).

  \<open>ld\<close> is \<open>_load_static_definition\<close> of the configuration at hand, a function of the stored patches; it can be
  \<open>load_static_definition\<close> of \<open>Definitions\<close> with its other arguments fixed.
\<close>

section \<open>State\<close>

record manager_state =
  ms_db :: db
  ms_patches :: "topology_patch list"
  ms_definitions :: "static_definitions option"

definition patch_key :: "topology_patch \<Rightarrow> string \<times> string" where
  "patch_key p = (tp_kind p, tp_name p)"

text \<open>\<open>INSERT ... ON CONFLICT (kind, name) DO UPDATE SET data\<close>.\<close>

definition store_patch :: "topology_patch \<Rightarrow> topology_patch list \<Rightarrow> topology_patch list" where
  "store_patch p ps =
     (if patch_key p \<in> set (map patch_key ps)
      then map (\<lambda>q. if patch_key q = patch_key p then q\<lparr>tp_data := tp_data p\<rparr> else q) ps
      else ps @ [p])"

text \<open>The attribute is declared in \<open>__init__\<close> but not set, so reading it before the first load is an \<open>AttributeError\<close>.\<close>

definition context_definitions :: "manager_state \<Rightarrow> static_definitions result" where
  "context_definitions s =
     (case ms_definitions s of None \<Rightarrow> Inl (PlainException ''AttributeError'') | Some sd \<Rightarrow> Inr sd)"

definition load_context ::
  "(topology_patch list \<Rightarrow> static_definitions result) \<Rightarrow> manager_state \<Rightarrow> manager_state result" where
  "load_context ld s = rbind (ld (ms_patches s)) (\<lambda>sd. Inr (s\<lparr>ms_definitions := Some sd\<rparr>))"

section \<open>Operations\<close>

definition standalone_lock :: "manager_env \<Rightarrow> string \<Rightarrow> time \<Rightarrow> time \<Rightarrow> manager_state \<Rightarrow> (lock_response \<times> manager_state) result" where
  "standalone_lock env worker now now' s =
     rbind (context_definitions s) (\<lambda>sd.
     rbind (lock_jobs (me_rmatch env) (me_arrange env) (me_repr env)
         \<lparr> li_worker_id = worker, li_selector = None, li_executors = None \<rparr> (me_max_items env) sd now now' (ms_db s)) (\<lambda>(r, d).
     Inr (r, s\<lparr>ms_db := d\<rparr>)))"

definition standalone_sync_state :: "jobs_states \<Rightarrow> manager_state \<Rightarrow> manager_state" where
  "standalone_sync_state st s = s\<lparr>ms_db := sync_jobs_states st (ms_db s)\<rparr>"

definition standalone_fetch :: "(string \<times> string list) list \<Rightarrow> manager_state \<Rightarrow> (string, (string, pyval option) pydict) pydict" where
  "standalone_fetch q s = fetch_cursors_states q (ms_db s)"

definition standalone_sync_jobs ::
  "(topology_patch list \<Rightarrow> static_definitions result) \<Rightarrow> manager_env \<Rightarrow> bool \<Rightarrow> time \<Rightarrow> manager_state \<Rightarrow> manager_state result" where
  "standalone_sync_jobs ld env locked now s =
     rbind (load_context ld s) (\<lambda>s1.
     rbind (context_definitions s1) (\<lambda>sd.
     Inr (s1\<lparr>ms_db := sync_jobs (me_next_run env) locked sd now (ms_db s1)\<rparr>)))"

definition put_patch :: "topology_patch \<Rightarrow> manager_state \<Rightarrow> manager_state" where
  "put_patch p s = s\<lparr>ms_patches := store_patch p (ms_patches s)\<rparr>"

text \<open>The embedded manager at work; a call that raises changes nothing, and the patches change from outside.\<close>

datatype standalone_call =
    S_lock time time
  | S_sync_state jobs_states
  | S_fetch "(string \<times> string list) list"
  | S_sync_jobs bool time
  | S_put_patch topology_patch

fun standalone_op ::
  "(topology_patch list \<Rightarrow> static_definitions result) \<Rightarrow> manager_env \<Rightarrow> string \<Rightarrow> standalone_call \<Rightarrow> manager_state \<Rightarrow>
   manager_event list \<times> manager_state" where
  "standalone_op ld env worker (S_lock now now') s =
     (case standalone_lock env worker now now' s of
        Inl _ \<Rightarrow> ([], s)
      | Inr (r, s') \<Rightarrow> ([Locked \<lparr> li_worker_id = worker, li_selector = None, li_executors = None \<rparr> now now' r], s'))"
| "standalone_op ld env worker (S_sync_state st) s = ([StatesSynced st], standalone_sync_state st s)"
| "standalone_op ld env worker (S_fetch q) s = ([], s)"
| "standalone_op ld env worker (S_sync_jobs locked now) s =
     (case standalone_sync_jobs ld env locked now s of Inl _ \<Rightarrow> ([], s) | Inr s' \<Rightarrow> ([Synced now], s'))"
| "standalone_op ld env worker (S_put_patch p) s = ([], put_patch p s)"

fun standalone_run ::
  "(topology_patch list \<Rightarrow> static_definitions result) \<Rightarrow> manager_env \<Rightarrow> string \<Rightarrow> standalone_call list \<Rightarrow> manager_state \<Rightarrow>
   manager_event list \<times> manager_state" where
  "standalone_run ld env worker [] s = ([], s)"
| "standalone_run ld env worker (o1 # os) s =
     (case standalone_op ld env worker o1 s of (es, s1) \<Rightarrow>
       (case standalone_run ld env worker os s1 of (es', s2) \<Rightarrow> (es @ es', s2)))"

fun clock_ok :: "standalone_call \<Rightarrow> bool" where
  "clock_ok (S_lock now now') = (now \<le> now')"
| "clock_ok _ = True"

section \<open>The embedded manager is the manager\<close>

lemma standalone_op_implements:
  assumes "standalone_op ld env worker o1 s = (es, s')" and "clock_ok o1"
  shows "manager_run env (ms_db s) es (ms_db s')"
proof (cases o1)
  case (S_lock now now')
  show ?thesis
  proof (cases "standalone_lock env worker now now' s")
    case (Inl e)
    with S_lock assms(1) show ?thesis by simp
  next
    case (Inr p)
    obtain r s1 where p: "p = (r, s1)" by (cases p)
    with Inr obtain sd where "lock_jobs (me_rmatch env) (me_arrange env) (me_repr env)
        \<lparr> li_worker_id = worker, li_selector = None, li_executors = None \<rparr> (me_max_items env) sd now now' (ms_db s) = Inr (r, ms_db s1)"
      by (auto simp: standalone_lock_def rbind_Inr_iff)
    with S_lock Inr p assms show ?thesis by (auto intro: lock_step)
  qed
next
  case (S_sync_jobs locked now)
  then show ?thesis using assms(1)
    by (auto simp: standalone_sync_jobs_def load_context_def rbind_Inr_iff intro: sync_step split: sum.splits)
qed (use assms(1) in \<open>auto simp: standalone_sync_state_def put_patch_def intro: states_step\<close>)

lemma standalone_run_implements:
  "standalone_run ld env worker os s = (es, s') \<Longrightarrow> list_all clock_ok os \<Longrightarrow> manager_run env (ms_db s) es (ms_db s')"
proof (induction os arbitrary: s es)
  case (Cons o1 os)
  obtain es1 s1 es2 where o1: "standalone_op ld env worker o1 s = (es1, s1)"
    and r: "standalone_run ld env worker os s1 = (es2, s')" and es: "es = es1 @ es2"
    using Cons.prems(1) by (auto split: prod.splits)
  from Cons.prems(2) have "manager_run env (ms_db s) es1 (ms_db s1)" "manager_run env (ms_db s1) es2 (ms_db s')"
    using standalone_op_implements [OF o1] Cons.IH [OF r] by simp_all
  with es show ?case by (auto simp: run_append_iff)
qed simp

section \<open>Patches\<close>

lemma store_patch_keys:
  "map patch_key (store_patch p ps) = (if patch_key p \<in> set (map patch_key ps) then map patch_key ps else map patch_key ps @ [patch_key p])"
proof -
  have "patch_key (if patch_key q = patch_key p then q\<lparr>tp_data := tp_data p\<rparr> else q) = patch_key q" for q
    by (simp add: patch_key_def)
  then show ?thesis by (simp add: store_patch_def o_def del: set_map)
qed

lemma store_patch_distinct: "distinct (map patch_key ps) \<Longrightarrow> distinct (map patch_key (store_patch p ps))"
  by (simp add: store_patch_keys)

lemma stored_patches_unique: "distinct (map patch_key (fold store_patch qs []))"
proof -
  have "distinct (map patch_key ps) \<Longrightarrow> distinct (map patch_key (fold store_patch qs ps))" for ps
    by (induction qs arbitrary: ps) (simp_all add: store_patch_distinct)
  then show ?thesis by simp
qed

text \<open>A patch only touches the object of its key.\<close>

definition patched :: "topology_patch list \<Rightarrow> uncompiled_object \<Rightarrow> uncompiled_object" where
  "patched ps u =
     (case find (\<lambda>p. patch_key p = obj_key u) ps of
        None \<Rightarrow> u
      | Some p \<Rightarrow> u\<lparr>uo_data := (case uo_data u of PDict d \<Rightarrow> PDict (deep_merge d (tp_data p)) | v \<Rightarrow> v)\<rparr>)"

definition patch_one :: "topology_patch \<Rightarrow> uncompiled_object \<Rightarrow> uncompiled_object" where
  "patch_one p u =
     (if patch_key p = obj_key u
      then u\<lparr>uo_data := (case uo_data u of PDict d \<Rightarrow> PDict (deep_merge d (tp_data p)) | v \<Rightarrow> v)\<rparr> else u)"

lemma obj_key_patch [simp]: "obj_key (patch_one p u) = obj_key u" "obj_key (u\<lparr>uo_data := x\<rparr>) = obj_key u"
  by (simp_all add: obj_key_def patch_one_def)

lemma patch_last_unique: "distinct (map obj_key us) \<Longrightarrow> patch_last p us = map (patch_one p) us"
proof (induction us)
  case (Cons u us)
  have k: "uo_kind u' = tp_kind p \<and> uo_name u' = tp_name p \<longleftrightarrow> obj_key u' = patch_key p" for u'
    by (auto simp: obj_key_def patch_key_def)
  show ?case
  proof (cases "obj_key u = patch_key p")
    case True
    with Cons.prems have "patch_key p \<notin> obj_key ` set us" by simp
    then have others: "\<forall>u' \<in> set us. obj_key u' \<noteq> patch_key p" by (metis image_eqI)
    then have "map (patch_one p) us = us" by (simp add: map_idI patch_one_def eq_commute)
    moreover have "patch_last p (u # us) = patch_one p u # us"
      using True others by (auto simp: k [symmetric] patch_one_def list_ex_iff obj_key_def patch_key_def)
    ultimately show ?thesis by simp
  next
    case False
    with Cons show ?thesis by (auto simp: patch_one_def obj_key_def patch_key_def)
  qed
qed simp

lemma patch_one_other: "patch_key p \<noteq> obj_key u \<Longrightarrow> patch_one p u = u"
  by (simp add: patch_one_def)

lemma merge_with_patches_unique:
  assumes "distinct (map obj_key us)" and "distinct (map patch_key ps)"
  shows "merge_with_patches us ps = map (patched ps) us"
  using assms
proof (induction ps arbitrary: us)
  case Nil
  show ?case by (simp add: merge_with_patches_def patched_def map_idI)
next
  case (Cons p ps)
  have "patched ps (patch_one p u) = patched (p # ps) u" for u
  proof (cases "patch_key p = obj_key u")
    case True
    with Cons.prems(2) have "obj_key u \<notin> patch_key ` set ps" by simp
    then have "find (\<lambda>q. patch_key q = obj_key u) ps = None" unfolding find_None_iff by (metis image_eqI)
    with True show ?thesis by (simp add: patched_def patch_one_def)
  next
    case False
    then show ?thesis by (simp add: patched_def patch_one_def)
  qed
  moreover have "merge_with_patches us (p # ps) = merge_with_patches (map (patch_one p) us) ps"
    using Cons.prems(1) by (simp add: merge_with_patches_def patch_last_unique)
  moreover have "distinct (map obj_key (map (patch_one p) us))" using Cons.prems(1) by (simp add: o_def)
  ultimately show ?case using Cons.IH [of "map (patch_one p) us"] Cons.prems(2) by simp
qed

definition patch_data :: "topology_patch list \<Rightarrow> string \<times> string \<Rightarrow> (string, pyval) pydict option" where
  "patch_data ps k = map_option tp_data (find (\<lambda>q. patch_key q = k) ps)"

lemma patch_data_Nil [simp]: "patch_data [] k = None"
  by (simp add: patch_data_def)

lemma patch_data_Cons: "patch_data (p # ps) k = (if patch_key p = k then Some (tp_data p) else patch_data ps k)"
  by (simp add: patch_data_def)

lemma patch_data_append: "patch_data (ps @ qs) k = (case patch_data ps k of None \<Rightarrow> patch_data qs k | Some d \<Rightarrow> Some d)"
  by (induction ps) (simp_all add: patch_data_Cons)

lemma patch_data_None: "patch_data ps k = None \<longleftrightarrow> k \<notin> set (map patch_key ps)"
  by (auto simp: patch_data_def find_None_iff)

lemma patch_data_update:
  "patch_data (map (\<lambda>q. if patch_key q = patch_key p then q\<lparr>tp_data := tp_data p\<rparr> else q) ps) k =
   (if k = patch_key p \<and> k \<in> set (map patch_key ps) then Some (tp_data p) else patch_data ps k)"
proof (induction ps)
  case (Cons q ps)
  have "patch_key (q\<lparr>tp_data := d\<rparr>) = patch_key q" for d by (simp add: patch_key_def)
  with Cons show ?case by (auto simp: patch_data_Cons)
qed (simp add: patch_data_def)

lemma patch_data_store: "patch_data (store_patch p ps) k = (if k = patch_key p then Some (tp_data p) else patch_data ps k)"
proof (cases "patch_key p \<in> set (map patch_key ps)")
  case True
  then show ?thesis by (simp add: store_patch_def patch_data_update del: set_map)
next
  case False
  then have "patch_data ps (patch_key p) = None" by (simp add: patch_data_None)
  with False show ?thesis by (auto simp: store_patch_def patch_data_append patch_data_Cons split: option.splits)
qed

lemma patch_data_fold: "patch_data (fold store_patch qs []) k = patch_data (rev qs) k"
proof -
  have "patch_data (fold store_patch qs ps) k = (case patch_data (rev qs) k of None \<Rightarrow> patch_data ps k | Some d \<Rightarrow> Some d)" for ps
  proof (induction qs arbitrary: ps)
    case (Cons q qs)
    show ?case
      by (simp add: Cons patch_data_append patch_data_store patch_data_Cons split: option.split)
  qed simp
  from this [of "[]"] show ?thesis by (simp split: option.split)
qed

lemma patched_data:
  "patched ps u =
     (case patch_data ps (obj_key u) of
        None \<Rightarrow> u
      | Some d' \<Rightarrow> u\<lparr>uo_data := (case uo_data u of PDict d \<Rightarrow> PDict (deep_merge d d') | v \<Rightarrow> v)\<rparr>)"
  by (simp add: patched_def patch_data_def split: option.split)

text \<open>
  C29: what has been put through the patch API is what the next sync compiles: whatever patches were put before, in whatever order, the
  definitions then in use are those compiled from the files with, for each object, the last patch put for its kind and
  name merged into it, and the objects nobody patched as they are in the files.\<close>

theorem patches_reach_definitions:
  assumes sync: "standalone_sync_jobs (\<lambda>ps. load_static_definition decode dynamic search (Some us) ps selector) env locked now
      (s\<lparr>ms_patches := fold store_patch qs []\<rparr>) = Inr s'"
    and us: "distinct (map obj_key us)"
  shows "\<exists>sd. ms_definitions s' = Some sd \<and>
    load_static_definition decode dynamic search (Some (map (patched (fold store_patch qs [])) us)) [] selector = Inr sd \<and>
    (\<forall>u. patched (fold store_patch qs []) u =
      (case find (\<lambda>q. patch_key q = obj_key u) (rev qs) of
         None \<Rightarrow> u
       | Some q \<Rightarrow> u\<lparr>uo_data := (case uo_data u of PDict d \<Rightarrow> PDict (deep_merge d (tp_data q)) | v \<Rightarrow> v)\<rparr>))"
proof -
  let ?ps = "fold store_patch qs []"
  have "merge_with_patches us ?ps = map (patched ?ps) us"
    by (rule merge_with_patches_unique [OF us stored_patches_unique])
  then have "load_static_definition decode dynamic search (Some us) ?ps selector
      = load_static_definition decode dynamic search (Some (map (patched ?ps) us)) [] selector"
    by (simp add: load_static_definition_def compile_static_definitions_def merge_with_patches_def)
  moreover obtain sd where "load_static_definition decode dynamic search (Some us) ?ps selector = Inr sd" "ms_definitions s' = Some sd"
    using sync by (auto simp: standalone_sync_jobs_def load_context_def rbind_Inr_iff context_definitions_def)
  moreover have "patched ?ps u = (case find (\<lambda>q. patch_key q = obj_key u) (rev qs) of
         None \<Rightarrow> u
       | Some q \<Rightarrow> u\<lparr>uo_data := (case uo_data u of PDict d \<Rightarrow> PDict (deep_merge d (tp_data q)) | v \<Rightarrow> v)\<rparr>)" for u
    by (simp only: patched_data patch_data_fold) (simp add: patch_data_def split: option.split)
  ultimately show ?thesis by simp
qed

text \<open>A topic of type \<open>''a''\<close> in the files, patched to \<open>''b''\<close> and then to \<open>''c''\<close>.\<close>

definition topic_decode :: "string \<Rightarrow> pyval \<Rightarrow> base_object result" where
  "topic_decode kind v =
     (case v of
        PDict d \<Rightarrow>
          (case dget d ''type'' of
             Some (PStr t) \<Rightarrow> Inr (TopicItem \<lparr> md_name = ''logs'', md_labels = [] \<rparr> \<lparr> sp_type = t, sp_options = [] \<rparr>)
           | _ \<Rightarrow> Inl (ValueError ''type''))
      | _ \<Rightarrow> Inl (ValueError ''document''))"

definition topic_object :: uncompiled_object where
  "topic_object = \<lparr> uo_api_version = ''v1'', uo_kind = ''DatalineupTopic'', uo_name = ''logs'',
     uo_data = PDict [(''type'', PStr ''a'')] \<rparr>"

definition topic_patches :: "topology_patch list" where
  "topic_patches =
     [\<lparr> tp_kind = ''DatalineupTopic'', tp_name = ''logs'', tp_data = [(''type'', PStr ''b'')] \<rparr>,
      \<lparr> tp_kind = ''DatalineupTopic'', tp_name = ''logs'', tp_data = [(''type'', PStr ''c'')] \<rparr>]"

lemma topic_merged: "fold store_patch topic_patches [] =
  [\<lparr> tp_kind = ''DatalineupTopic'', tp_name = ''logs'', tp_data = [(''type'', PStr ''c'')] \<rparr>]"
  by code_simp

lemma topic_loads:
  "load_static_definition topic_decode (\<lambda>_. Inr) (\<lambda>_ _. True) (Some [topic_object]) (fold store_patch topic_patches []) None =
   Inr (empty_definitions\<lparr>sd_topics := [(''logs'', \<lparr> cd_name = ''logs'', cd_type = ''c'', cd_options = [] \<rparr>)]\<rparr>)"
  unfolding topic_merged by code_simp

theorem patches_reach_definitions_witness:
  "\<exists>sd. load_static_definition topic_decode (\<lambda>_. Inr) (\<lambda>_ _. True)
      (Some (map (patched (fold store_patch topic_patches [])) [topic_object])) [] None = Inr sd \<and>
    sd_topics sd = [(''logs'', \<lparr> cd_name = ''logs'', cd_type = ''c'', cd_options = [] \<rparr>)]"
proof -
  let ?sd = "empty_definitions\<lparr>sd_topics := [(''logs'', \<lparr> cd_name = ''logs'', cd_type = ''c'', cd_options = [] \<rparr>)]\<rparr>"
  let ?ld = "\<lambda>ps. load_static_definition topic_decode (\<lambda>_. Inr) (\<lambda>_ _. True) (Some [topic_object]) ps None"
  let ?s = "\<lparr> ms_db = demo_db, ms_patches = fold store_patch topic_patches [], ms_definitions = None \<rparr>"
  have s: "?s\<lparr>ms_patches := fold store_patch topic_patches []\<rparr> = ?s" by simp
  have "standalone_sync_jobs ?ld demo_env True 0 ?s = Inr (?s\<lparr>ms_definitions := Some ?sd\<rparr>)"
    by (simp add: standalone_sync_jobs_def load_context_def context_definitions_def topic_loads sync_jobs_def)
  then have "standalone_sync_jobs ?ld demo_env True 0 (?s\<lparr>ms_patches := fold store_patch topic_patches []\<rparr>)
      = Inr (?s\<lparr>ms_definitions := Some ?sd\<rparr>)" unfolding s .
  from patches_reach_definitions [OF this] have "\<exists>sd. ms_definitions (?s\<lparr>ms_definitions := Some ?sd\<rparr>) = Some sd \<and>
      load_static_definition topic_decode (\<lambda>_. Inr) (\<lambda>_ _. True)
        (Some (map (patched (fold store_patch topic_patches [])) [topic_object])) [] None = Inr sd"
    by (auto simp: obj_key_def)
  then show ?thesis by auto
qed

text \<open>Until then requests see the definitions of the last sync.\<close>

lemma patch_waits_for_sync:
  "standalone_lock env worker now now' (put_patch p s) =
   rbind (standalone_lock env worker now now' s) (\<lambda>(r, s'). Inr (r, put_patch p s'))"
proof (cases "ms_definitions s")
  case (Some sd)
  then show ?thesis
    by (cases "lock_jobs (me_rmatch env) (me_arrange env) (me_repr env)
        \<lparr> li_worker_id = worker, li_selector = None, li_executors = None \<rparr> (me_max_items env) sd now now' (ms_db s)")
      (auto simp: standalone_lock_def put_patch_def context_definitions_def)
qed (simp add: standalone_lock_def put_patch_def context_definitions_def)

text \<open>A request before the first load fails with an \<open>AttributeError\<close>, not with the \<open>ValueError\<close> the property raises.\<close>

lemma unset_definitions: "ms_definitions s = None \<Longrightarrow> standalone_lock env worker now now' s = Inl (PlainException ''AttributeError'')"
  by (simp add: standalone_lock_def context_definitions_def)

section \<open>The periodic sync\<close>

text \<open>\<open>StandaloneApiClient._sync_jobs\<close>: every tick the world may have changed (\<open>upd\<close>); nothing catches an error of a
  sync, so the first one ends the loop. The flag tells whether it is still running.\<close>

fun sync_loop ::
  "(topology_patch list \<Rightarrow> static_definitions result) \<Rightarrow> manager_env \<Rightarrow> ((manager_state \<Rightarrow> manager_state) \<times> bool \<times> time) list \<Rightarrow>
   manager_state \<Rightarrow> manager_state \<times> bool" where
  "sync_loop ld env [] s = (s, True)"
| "sync_loop ld env ((upd, locked, now) # ts) s =
     (case standalone_sync_jobs ld env locked now (upd s) of
        Inl e \<Rightarrow> (fold (\<lambda>(u, _) s. u s) ts (upd s), False)
      | Inr s' \<Rightarrow> sync_loop ld env ts s')"

text \<open>After one failure no later tick syncs, even if its sync would succeed.\<close>

lemma failed_sync_ends_loop:
  assumes "standalone_sync_jobs ld env locked now (upd s) = Inl e"
  shows "sync_loop ld env ((upd, locked, now) # ts) s = (fold (\<lambda>(u, _) s. u s) ts (upd s), False)"
  using assms by simp

end
