(* ===== verification/Clients.thy ===== *)
theory Clients
  imports Core_Types Utils_Lib
begin

text \<open>
  The clients: \<open>DatalineupClient\<close> and \<open>SyncDatalineupClient\<close> of \<open>client/datalineup.py\<close>, which publish to the topics of
  the manager's definitions from outside a worker, and the requests of \<open>WorkerManagerClient\<close> (\<open>client/worker_manager.py\<close>).

  Building a topic and publishing to it are arguments; a topic is an opaque value.
\<close>

section \<open>Publishing\<close>

record 't client_state =
  cl_definitions :: "(string, component_definition) pydict"
  cl_topics :: "(string, 't) pydict"
  cl_built :: "string list"

definition client_init :: "component_definition list \<Rightarrow> 't client_state" where
  "client_init items =
     \<lparr> cl_definitions = fold (\<lambda>c d. dset (cd_name c) c d) items [], cl_topics = [], cl_built = [] \<rparr>"

definition client_topic :: "(component_definition \<Rightarrow> 't result) \<Rightarrow> string \<Rightarrow> 't client_state \<Rightarrow> 't result \<times> 't client_state" where
  "client_topic mk name c =
     (case dget (cl_topics c) name of
        Some t \<Rightarrow> (Inr t, c)
      | None \<Rightarrow>
          (case dget (cl_definitions c) name of
             None \<Rightarrow> (Inl (KeyError name), c)
           | Some cd \<Rightarrow>
               (case mk cd of
                  Inl e \<Rightarrow> (Inl e, c\<lparr>cl_built := cl_built c @ [name]\<rparr>)
                | Inr t \<Rightarrow> (Inr t, c\<lparr>cl_topics := dset name t (cl_topics c), cl_built := cl_built c @ [name]\<rparr>))))"

definition client_publish ::
  "(component_definition \<Rightarrow> 't result) \<Rightarrow> ('t \<Rightarrow> bool result) \<Rightarrow> string \<Rightarrow> 't client_state \<Rightarrow> bool result \<times> 't client_state" where
  "client_publish mk pub name c =
     (case client_topic mk name c of
        (Inl e, c') \<Rightarrow> (Inl e, c')
      | (Inr t, c') \<Rightarrow> (pub t, c'))"

fun client_publishes ::
  "(component_definition \<Rightarrow> 't result) \<Rightarrow> (string \<times> ('t \<Rightarrow> bool result)) list \<Rightarrow> 't client_state \<Rightarrow> bool result list \<times> 't client_state" where
  "client_publishes mk [] c = ([], c)"
| "client_publishes mk ((name, pub) # ps) c =
     (case client_publish mk pub name c of (r, c1) \<Rightarrow>
       (case client_publishes mk ps c1 of (rs, c2) \<Rightarrow> (r # rs, c2)))"

text \<open>The topics held are those built from their definition; a topic is built at most once.\<close>

definition client_ok :: "(component_definition \<Rightarrow> 't result) \<Rightarrow> 't client_state \<Rightarrow> bool" where
  "client_ok mk c \<longleftrightarrow>
     (\<forall>n t. dget (cl_topics c) n = Some t \<longrightarrow>
        (\<exists>cd. dget (cl_definitions c) n = Some cd \<and> mk cd = Inr t) \<and> count_list (cl_built c) n = 1) \<and>
     (\<forall>n. dget (cl_topics c) n = None \<longrightarrow>
        (\<forall>cd t. dget (cl_definitions c) n = Some cd \<and> mk cd = Inr t \<longrightarrow> n \<notin> set (cl_built c)))"

lemma client_topic_ok:
  assumes "client_topic mk name c = (r, c')" and "client_ok mk c"
  shows "client_ok mk c' \<and> cl_definitions c' = cl_definitions c \<and>
    r = (case dget (cl_definitions c) name of None \<Rightarrow> Inl (KeyError name) | Some cd \<Rightarrow> mk cd)"
proof (cases "dget (cl_topics c) name")
  case (Some t)
  with assms(2) obtain cd where "dget (cl_definitions c) name = Some cd" "mk cd = Inr t"
    unfolding client_ok_def by blast
  with Some assms show ?thesis by (auto simp: client_topic_def)
next
  case None
  show ?thesis
  proof (cases "dget (cl_definitions c) name")
    case None
    with \<open>dget (cl_topics c) name = None\<close> assms show ?thesis by (auto simp: client_topic_def)
  next
    case (Some cd)
    show ?thesis
    proof (cases "mk cd")
      case (Inl e)
      with None Some assms show ?thesis by (auto simp: client_topic_def client_ok_def)
    next
      case (Inr t)
      with None Some assms(2) have "name \<notin> set (cl_built c)" unfolding client_ok_def by blast
      then have "count_list (cl_built c) name = 0" by (simp add: count_list_0_iff)
      with Inr None Some assms show ?thesis by (auto simp: client_topic_def client_ok_def split: if_splits)
    qed
  qed
qed

lemma client_publish_ok:
  assumes "client_publish mk pub name c = (r, c')" and "client_ok mk c"
  shows "client_ok mk c' \<and> cl_definitions c' = cl_definitions c \<and>
    r = (case dget (cl_definitions c) name of None \<Rightarrow> Inl (KeyError name) | Some cd \<Rightarrow> rbind (mk cd) pub)"
proof -
  obtain t c1 where t: "client_topic mk name c = (t, c1)" by fastforce
  have "client_publish mk pub name c = (rbind t pub, c1)" using t by (cases t) (simp_all add: client_publish_def)
  with client_topic_ok [OF t assms(2)] assms(1) show ?thesis by (cases "dget (cl_definitions c) name") auto
qed

text \<open>A sequence of publishes behaves as if every one of them built its topic afresh, and builds each topic that can be built
  at most once.\<close>

lemma client_publishes_fresh:
  assumes "client_publishes mk ps c = (rs, c')" and "client_ok mk c"
  shows "client_ok mk c' \<and>
    rs = map (\<lambda>(name, pub). case dget (cl_definitions c) name of None \<Rightarrow> Inl (KeyError name) | Some cd \<Rightarrow> rbind (mk cd) pub) ps"
  using assms
proof (induction ps arbitrary: c rs)
  case (Cons p ps)
  obtain name pub r c1 rs1 where p: "p = (name, pub)" and s: "client_publish mk pub name c = (r, c1)"
    and r: "client_publishes mk ps c1 = (rs1, c')" and rs: "rs = r # rs1"
    using Cons.prems(1) by (cases p) (auto split: prod.splits)
  note k = client_publish_ok [OF s Cons.prems(2)]
  have "client_ok mk c1" using k by blast
  from Cons.IH [OF r this] k show ?case by (simp add: p rs)
qed simp

lemma client_init_ok: "client_ok mk (client_init items)"
  by (simp add: client_ok_def client_init_def)

text \<open>Of two definitions with one name the last counts.\<close>

lemma client_definitions:
  "dget (cl_definitions (client_init items)) n = find (\<lambda>c. cd_name c = n) (rev items)"
proof -
  have "dget (fold (\<lambda>c d. dset (cd_name c) c d) items d) n =
      (case find (\<lambda>c. cd_name c = n) (rev items) of None \<Rightarrow> dget d n | Some c \<Rightarrow> Some c)" for d
  proof (induction items arbitrary: d)
    case (Cons c items)
    have "find P (xs @ ys) = (case find P xs of None \<Rightarrow> find P ys | Some x \<Rightarrow> Some x)" for P and xs ys :: "component_definition list"
      by (induction xs) auto
    then show ?case by (simp add: Cons split: option.split)
  qed simp
  then show ?thesis by (simp add: client_init_def split: option.split)
qed

section \<open>The shared client\<close>

text \<open>\<open>SyncDatalineupClient\<close> is one per process. A client is numbered; its event loop runs until it is closed, and a
  coroutine handed to a loop that has stopped is never run, so its \<open>future.result\<close> times out.\<close>

record sync_clients =
  sc_instance :: "nat option"
  sc_made :: nat
  sc_stopped :: "nat set"

definition sync_from_config :: "sync_clients \<Rightarrow> nat \<times> sync_clients" where
  "sync_from_config s =
     (case sc_instance s of
        Some i \<Rightarrow> (i, s)
      | None \<Rightarrow> (sc_made s, s\<lparr>sc_instance := Some (sc_made s), sc_made := Suc (sc_made s)\<rparr>))"

definition run_sync :: "nat \<Rightarrow> 'a result \<Rightarrow> sync_clients \<Rightarrow> 'a result" where
  "run_sync i outcome s = (if i \<in> sc_stopped s then Inl (RuntimeError ''TimeoutError'') else outcome)"

definition sync_close :: "nat \<Rightarrow> sync_clients \<Rightarrow> sync_clients" where
  "sync_close i s = s\<lparr>sc_stopped := insert i (sc_stopped s)\<rparr>"

lemma sync_client_is_shared:
  "sync_from_config s = (i, s') \<Longrightarrow> sync_from_config s' = (i, s')"
  by (auto simp: sync_from_config_def split: option.splits)

text \<open>Closing the shared client does not forget it: whoever asks for a client afterwards gets the closed one, whose every call
  times out.\<close>

lemma closed_client_is_reused:
  assumes "sync_from_config s = (i, s1)" and "sync_from_config (sync_close i s1) = (j, s2)"
  shows "j = i \<and> run_sync j outcome s2 = Inl (RuntimeError ''TimeoutError'')"
  using assms by (auto simp: sync_from_config_def sync_close_def run_sync_def split: option.splits)

section \<open>Requests to the manager\<close>

datatype http_method = HttpGet | HttpPost | HttpPut

definition lock_request :: "string \<Rightarrow> string \<Rightarrow> string option \<Rightarrow> string option \<Rightarrow> string list option \<Rightarrow> http_method \<times> string \<times> lock_input" where
  "lock_request base_url host worker_id selector executors =
     (HttpPost, urlcat [base_url, ''api/lock''],
      \<lparr> li_worker_id = (case worker_id of Some w \<Rightarrow> if w = [] then host else w | None \<Rightarrow> host),
        li_selector = selector, li_executors = executors \<rparr>)"

definition states_request :: "string \<Rightarrow> 'a \<Rightarrow> http_method \<times> string \<times> 'a" where
  "states_request base_url st = (HttpPut, urlcat [base_url, ''api/jobs/_states''], st)"

definition fetch_request :: "string \<Rightarrow> 'a \<Rightarrow> http_method \<times> string \<times> 'a" where
  "fetch_request base_url q = (HttpPost, urlcat [base_url, ''api/jobs/_states/fetch''], q)"

definition topics_request :: "string \<Rightarrow> http_method \<times> string" where
  "topics_request base_url = (HttpGet, urlcat [base_url, ''api/topics''])"

text \<open>The slash at the end of the configured URL makes no difference.\<close>

lemma request_slash:
  "fst (snd (states_request (url @ ''/'') st)) = fst (snd (states_request url st))"
  "snd (topics_request (url @ ''/'')) = snd (topics_request url)"
proof -
  have "strip_char CHR ''/'' (url @ ''/'') = strip_char CHR ''/'' url"
  proof (cases "\<forall>x \<in> set url. x = CHR ''/''")
    case True
    then have "dropWhile (\<lambda>x. x = CHR ''/'') url = []" by simp
    then show ?thesis by (simp add: strip_char_def dropWhile_append del: dropWhile_eq_Nil_conv)
  qed (auto simp add: strip_char_def dropWhile_append)
  then show "fst (snd (states_request (url @ ''/'') st)) = fst (snd (states_request url st))"
    "snd (topics_request (url @ ''/'')) = snd (topics_request url)"
    by (simp_all add: states_request_def topics_request_def urlcat_def)
qed

end
