(* ===== verification/Message_Logs.thy ===== *)
theory Message_Logs
  imports Pipeline Utils_Lib Observers
begin

text \<open>
  What the services write about a message: the records of \<open>worker/services/loggers/logger.py\<close>, the way a record is
  completed by \<open>loggers/console_logging.py\<close>, and the attributes and trace context of
  \<open>worker/services/tracing/tracer.py\<close>. The logging library, the clock and OpenTelemetry's propagator are
  arguments; data are the dicts handed to them.
\<close>

section \<open>Data\<close>

definition str_dict :: "(string, string) pydict \<Rightarrow> pyval" where
  "str_dict d = PDict (map (\<lambda>(k, v). (k, PStr v)) d)"

definition topic_message_data :: "bool \<Rightarrow> topic_message \<Rightarrow> (string, pyval) pydict" where
  "topic_message_data verbose m =
     dor [(''id'', PStr (tm_id m)), (''tags'', str_dict (tm_tags m))]
       (if verbose then [(''args'', PDict (tm_args m))] else [])"

definition pipeline_message_data :: "bool \<Rightarrow> pipeline_message \<Rightarrow> (string, pyval) pydict" where
  "pipeline_message_data verbose pm =
     [(''message'', PDict (topic_message_data verbose (pm_message pm))),
      (''resources'', PDict (resource_names pm)), (''pipeline'', PStr (pi_name (pm_info pm)))]"

definition executable_message_data :: "bool \<Rightarrow> queue_item \<Rightarrow> pipeline_message \<Rightarrow> (string, pyval) pydict" where
  "executable_message_data verbose q pm =
     dor (pipeline_message_data verbose pm)
       [(''executor'', PDict [(''name'', PStr (qi_executor q))]), (''job'', PDict [(''name'', PStr (qi_name q))]),
        (''input'', PStr (cd_name (qi_input q))), (''labels'', str_dict (qi_labels q))]"

definition output_data :: "bool \<Rightarrow> pipeline_output \<Rightarrow> (string, pyval) pydict" where
  "output_data verbose out =
     [(''channel'', PStr (po_channel out)), (''message'', PDict (topic_message_data verbose (po_message out)))]"

definition resources_used_data :: "resource_used list \<Rightarrow> (string, pyval) pydict" where
  "resources_used_data rs =
     fold (\<lambda>r. dset (ru_type r) (PDict [(''release_at'', case ru_release_at r of None \<Rightarrow> PNone | Some t \<Rightarrow> PInt t)])) rs []"

definition result_data :: "bool \<Rightarrow> pipeline_results \<Rightarrow> (string, pyval) pydict" where
  "result_data verbose r =
     [(''output'', PList (map (\<lambda>out. PDict (output_data verbose out)) (take 10 (pr_outputs r)))),
      (''output_count'', PInt (int (List.length (pr_outputs r)))),
      (''events_count'', PInt (int (List.length (pr_events r)))),
      (''resources'', PDict (resources_used_data (pr_resources r)))]"

definition published_data :: "bool \<Rightarrow> pipeline_message \<Rightarrow> pipeline_output \<Rightarrow> (string, pyval) pydict" where
  "published_data verbose pm out =
     dor [(''from'', PDict (pipeline_message_data verbose pm))] (output_data verbose out)"

definition results_processed_data :: "bool \<Rightarrow> pipeline_message \<Rightarrow> pipeline_results \<Rightarrow> (string, pyval) pydict" where
  "results_processed_data verbose pm r =
     dor [(''from'', PDict (pipeline_message_data verbose pm))] (result_data verbose r)"

section \<open>Records\<close>

datatype log_level = Debug | Warning | Error

record log_record =
  lg_level :: log_level
  lg_text :: string
  lg_data :: "(string, pyval) pydict"

text \<open>How a pipeline ends: with results, with an error that \<open>HandledError\<close> reports (its results and the description of
  its cause), with another exception, or interrupted by something that is not an \<open>Exception\<close>.\<close>

datatype ending = Ended pipeline_results | Ended_handled pipeline_results string | Ended_failed exn | Interrupted

text \<open>\<open>tr\<close> is the trace context at the start; the duration is added to it when the pipeline has ended.\<close>

definition trace_info :: "(string, pyval) pydict \<Rightarrow> (string, pyval) pydict" where
  "trace_info tr = [(''trace'', PDict tr)]"

definition logger_executed ::
  "bool \<Rightarrow> (string, pyval) pydict \<Rightarrow> int \<Rightarrow> queue_item \<Rightarrow> pipeline_message \<Rightarrow> ending \<Rightarrow> log_record list" where
  "logger_executed verbose tr duration_ns q pm e =
     (let data = executable_message_data verbose q pm;
          tr' = dset ''duration_ms'' (PInt (duration_ns div 10 ^ 6)) tr
      in \<lparr> lg_level = Debug, lg_text = ''Executing message'', lg_data = dor (trace_info tr) data \<rparr> #
         (case e of
            Ended r \<Rightarrow>
              [\<lparr> lg_level = Debug, lg_text = ''Executed message'',
                 lg_data = dor (dor [(''result'', PDict (result_data verbose r))] (trace_info tr')) data \<rparr>]
          | Ended_handled r cause \<Rightarrow>
              [\<lparr> lg_level = Warning, lg_text = ''Failed to execute message, error handled: '' @ cause,
                 lg_data = dor (dor [(''result'', PDict (result_data verbose r))] (trace_info tr')) data \<rparr>]
          | Ended_failed x \<Rightarrow>
              [\<lparr> lg_level = Error, lg_text = ''Failed to execute message'', lg_data = dor (trace_info tr') data \<rparr>]
          | Interrupted \<Rightarrow> []))"

definition logger_published :: "bool \<Rightarrow> pipeline_message \<Rightarrow> pipeline_output \<Rightarrow> 'r result option \<Rightarrow> log_record list" where
  "logger_published verbose pm out outcome =
     (let data = published_data verbose pm out in
      \<lparr> lg_level = Debug, lg_text = ''Publishing message'', lg_data = data \<rparr> #
      (case outcome of
         None \<Rightarrow> []
       | Some (Inr _) \<Rightarrow> [\<lparr> lg_level = Debug, lg_text = ''Published message'', lg_data = data \<rparr>]
       | Some (Inl _) \<Rightarrow> [\<lparr> lg_level = Error, lg_text = ''Failed to publish message'', lg_data = data \<rparr>]))"

definition logger_processed :: "bool \<Rightarrow> pipeline_message \<Rightarrow> pipeline_results \<Rightarrow> 'r result option \<Rightarrow> log_record list" where
  "logger_processed verbose pm r outcome =
     (case outcome of
        Some (Inl _) \<Rightarrow>
          [\<lparr> lg_level = Error, lg_text = ''Failed to process message results'', lg_data = results_processed_data verbose pm r \<rparr>]
      | _ \<Rightarrow> [])"

definition logger_step :: "bool \<Rightarrow> string \<Rightarrow> queue_item \<Rightarrow> pipeline_message \<Rightarrow> log_record" where
  "logger_step verbose text q pm = \<lparr> lg_level = Debug, lg_text = text, lg_data = executable_message_data verbose q pm \<rparr>"

text \<open>The executor's side; its logger is made without the option, so it is never verbose.\<close>

definition pipeline_logger ::
  "(string, pyval) pydict \<Rightarrow> int \<Rightarrow> pipeline_message \<Rightarrow> 'r result \<Rightarrow> log_record list" where
  "pipeline_logger tr duration_ns pm outcome =
     (let data = pipeline_message_data False pm;
          tr' = dset ''duration_ms'' (PInt (duration_ns div 10 ^ 6)) tr
      in [\<lparr> lg_level = Debug, lg_text = ''Executing pipeline'', lg_data = dor (trace_info tr) data \<rparr>,
          \<lparr> lg_level = Debug,
            lg_text = (case outcome of Inr _ \<Rightarrow> ''Executed pipeline'' | Inl _ \<Rightarrow> ''Failed to execute pipeline''),
            lg_data = dor (trace_info tr') data \<rparr>])"

section \<open>What the records show\<close>

text \<open>Two messages that differ in their arguments only.\<close>

definition same_but_args :: "topic_message \<Rightarrow> topic_message \<Rightarrow> bool" where
  "same_but_args m m' \<longleftrightarrow> m\<lparr>tm_args := []\<rparr> = m'\<lparr>tm_args := []\<rparr>"

definition same_pipeline_message :: "pipeline_message \<Rightarrow> pipeline_message \<Rightarrow> bool" where
  "same_pipeline_message a b \<longleftrightarrow>
     pm_info a = pm_info b \<and> same_but_args (pm_message a) (pm_message b) \<and> resource_names a = resource_names b"

definition same_output :: "pipeline_output \<Rightarrow> pipeline_output \<Rightarrow> bool" where
  "same_output a b \<longleftrightarrow> po_channel a = po_channel b \<and> same_but_args (po_message a) (po_message b)"

definition same_results :: "pipeline_results \<Rightarrow> pipeline_results \<Rightarrow> bool" where
  "same_results r s \<longleftrightarrow>
     list_all2 same_output (pr_outputs r) (pr_outputs s) \<and> pr_resources r = pr_resources s \<and>
     List.length (pr_events r) = List.length (pr_events s)"

fun same_ending :: "ending \<Rightarrow> ending \<Rightarrow> bool" where
  "same_ending (Ended r) (Ended s) = same_results r s"
| "same_ending (Ended_handled r c) (Ended_handled s c') = (same_results r s \<and> c = c')"
| "same_ending (Ended_failed _) (Ended_failed _) = True"
| "same_ending Interrupted Interrupted = True"
| "same_ending _ _ = False"

named_theorems same_data

lemma topic_message_data_same [same_data]:
  "same_but_args m m' \<Longrightarrow> topic_message_data False m = topic_message_data False m'"
  by (cases m; cases m') (simp add: same_but_args_def topic_message_data_def)

lemma pipeline_message_data_same [same_data]:
  "same_pipeline_message a b \<Longrightarrow> pipeline_message_data False a = pipeline_message_data False b"
  by (simp add: same_pipeline_message_def pipeline_message_data_def topic_message_data_same)

lemma executable_message_data_same [same_data]:
  "same_pipeline_message a b \<Longrightarrow> executable_message_data False q a = executable_message_data False q b"
  by (simp add: executable_message_data_def pipeline_message_data_same)

lemma output_data_same [same_data]: "same_output a b \<Longrightarrow> output_data False a = output_data False b"
  by (simp add: same_output_def output_data_def topic_message_data_same)

lemma outputs_data_same:
  "list_all2 same_output xs ys \<Longrightarrow> map (\<lambda>out. PDict (output_data False out)) xs = map (\<lambda>out. PDict (output_data False out)) ys"
  by (induction rule: list_all2_induct) (simp_all add: output_data_same)

lemma result_data_same [same_data]:
  assumes "same_results r s"
  shows "result_data False r = result_data False s"
proof -
  have "list_all2 same_output (take 10 (pr_outputs r)) (take 10 (pr_outputs s))"
    using assms by (simp add: same_results_def)
  note outputs_data_same [OF this]
  moreover have "List.length (pr_outputs r) = List.length (pr_outputs s)"
    using assms by (auto simp: same_results_def dest: list_all2_lengthD)
  ultimately show ?thesis using assms by (simp add: result_data_def same_results_def)
qed

text \<open>
  A logger that is not verbose writes nothing that depends on the arguments of a message, of its outputs or on the
  exception: runs that agree on the rest give the same records. The names of the resources are read from the arguments
  and are logged.\<close>

lemma arguments_stay_private:
  assumes "same_pipeline_message a b"
  shows "same_ending e e' \<Longrightarrow> logger_executed False tr d q a e = logger_executed False tr d q b e'"
    and "same_output x y \<Longrightarrow> logger_published False a x outcome = logger_published False b y outcome"
    and "same_results r s \<Longrightarrow> logger_processed False a r outcome' = logger_processed False b s outcome'"
    and "logger_step False txt q a = logger_step False txt q b"
    and "pipeline_logger tr d a res = pipeline_logger tr d b res"
proof -
  show "same_ending e e' \<Longrightarrow> logger_executed False tr d q a e = logger_executed False tr d q b e'"
    by (cases e; cases e')
      (simp_all add: logger_executed_def executable_message_data_same [OF assms] result_data_same)
  show "same_output x y \<Longrightarrow> logger_published False a x outcome = logger_published False b y outcome"
    by (simp add: logger_published_def published_data_def pipeline_message_data_same [OF assms] output_data_same)
  show "same_results r s \<Longrightarrow> logger_processed False a r outcome' = logger_processed False b s outcome'"
    by (cases outcome')
      (simp_all add: logger_processed_def results_processed_data_def pipeline_message_data_same [OF assms] result_data_same
        split: sum.split)
  show "logger_step False txt q a = logger_step False txt q b"
    by (simp add: logger_step_def executable_message_data_same [OF assms])
  show "pipeline_logger tr d a res = pipeline_logger tr d b res"
    by (simp add: pipeline_logger_def pipeline_message_data_same [OF assms])
qed

text \<open>A verbose record holds them.\<close>

lemma verbose_shows_arguments: "dget (topic_message_data True m) ''args'' = Some (PDict (tm_args m))"
  by (simp add: topic_message_data_def dor_Cons)

text \<open>
  The log brackets every execution: one record before, one after unless the pipeline was interrupted, a warning for
  an error that was handled, an error for one that was not. At most ten outputs are in the record, with the count of all.\<close>

lemma logger_executed_levels:
  "map lg_level (logger_executed v tr d q pm e) =
     (case e of Ended _ \<Rightarrow> [Debug, Debug] | Ended_handled _ _ \<Rightarrow> [Debug, Warning] | Ended_failed _ \<Rightarrow> [Debug, Error]
      | Interrupted \<Rightarrow> [Debug])"
  by (simp add: logger_executed_def Let_def split: ending.split)

lemma result_data_outputs:
  "\<exists>xs. dget (result_data v r) ''output'' = Some (PList xs) \<and> List.length xs = min 10 (List.length (pr_outputs r)) \<and>
     dget (result_data v r) ''output_count'' = Some (PInt (int (List.length (pr_outputs r))))"
  by (simp add: result_data_def min.commute)

section \<open>The console\<close>

text \<open>
  \<open>merge_contextvars\<close> puts the variables in force under the fields of the event; \<open>unwrap_extra_data\<close> then sets the
  fields of the record's \<open>data\<close>, if the event comes from a record of the logging library.\<close>

definition merge_contextvars :: "context_vars \<Rightarrow> (string, pyval) pydict \<Rightarrow> (string, pyval) pydict" where
  "merge_contextvars c event = (let summary = context_summary c in if summary = [] then event else deep_merge_all [summary, event])"

definition unwrap_extra_data :: "(string, pyval) pydict option option \<Rightarrow> (string, pyval) pydict \<Rightarrow> (string, pyval) pydict" where
  "unwrap_extra_data record event =
     (case record of None \<Rightarrow> event
      | Some data \<Rightarrow> fold (\<lambda>(k, v). dset k v) (case data of None \<Rightarrow> [] | Some d \<Rightarrow> d) event)"

definition console_event ::
  "context_vars \<Rightarrow> (string, pyval) pydict option option \<Rightarrow> (string, pyval) pydict \<Rightarrow> (string, pyval) pydict" where
  "console_event c record event = unwrap_extra_data record (merge_contextvars c event)"

text \<open>Without structlog: the formatted line, then the attributes of the record that the library does not define
  and the fields of its \<open>data\<close>, which is given apart.\<close>

definition def_keys :: "string list" where
  "def_keys = [''name'', ''msg'', ''args'', ''levelname'', ''levelno'', ''pathname'', ''filename'', ''module'',
     ''exc_info'', ''exc_text'', ''stack_info'', ''lineno'', ''funcName'', ''created'', ''msecs'', ''relativeCreated'',
     ''thread'', ''threadName'', ''processName'', ''process'', ''message'', ''asctime'']"

definition extra_format ::
  "((string, pyval) pydict \<Rightarrow> string) \<Rightarrow> ((string, pyval) pydict \<Rightarrow> string) \<Rightarrow> (string, pyval) pydict \<Rightarrow>
     (string, pyval) pydict option \<Rightarrow> string" where
  "extra_format format_line encode attributes data =
     (let line = format_line attributes;
          extra = dor (filter (\<lambda>(k, v). k \<notin> set def_keys) attributes) (case data of None \<Rightarrow> [] | Some d \<Rightarrow> d)
      in if extra = [] then line else line @ '' - '' @ encode extra)"

text \<open>What a record says of a message wins over what its context says.\<close>

lemma console_event_data:
  assumes "wfd d" "dget d k = Some v"
  shows "dget (console_event c (Some (Some d)) event) k = Some v"
proof -
  have "console_event c (Some (Some d)) event = dor (merge_contextvars c event) d"
    by (simp add: console_event_def unwrap_extra_data_def dor_def)
  with assms show ?thesis by (simp add: dget_dor)
qed

lemma console_event_outside: "console_event no_context None event = event"
  by (simp add: console_event_def unwrap_extra_data_def merge_contextvars_def context_summary_def no_context_def)

section \<open>Tracing\<close>

text \<open>
  \<open>services/tracing/tracer.py\<close>. A span is what is recorded of one; the propagator writes the context of the current span
  into a carrier (\<open>inject\<close>) and reads one from it (\<open>extract\<close>).\<close>

definition prefixed :: "string \<Rightarrow> (string, string) pydict \<Rightarrow> (string, pyval) pydict" where
  "prefixed p d = map (\<lambda>(k, v). (p @ k, PStr v)) d"

text \<open>The attribute iterates over a dict, which gives its keys.\<close>

definition pipeline_message_attributes :: "pipeline_message \<Rightarrow> (string, pyval) pydict" where
  "pipeline_message_attributes pm =
     dor [(''datalineup.message.id'', PStr (tm_id (pm_message pm))),
          (''datalineup.resources.names'', PList (map PStr (filter (\<lambda>n. n \<noteq> []) (dkeys (resource_names pm))))),
          (''datalineup.pipeline.name'', PStr (pi_name (pm_info pm)))]
       (prefixed ''datalineup.message.tags.'' (tm_tags (pm_message pm)))"

definition executable_message_attributes :: "queue_item \<Rightarrow> pipeline_message \<Rightarrow> (string, pyval) pydict" where
  "executable_message_attributes q pm =
     dor (dor [(''datalineup.job.name'', PStr (qi_name q)), (''datalineup.input.name'', PStr (cd_name (qi_input q)))]
            (pipeline_message_attributes pm))
       (prefixed ''datalineup.job.labels.'' (qi_labels q))"

text \<open>An attribute holds a value or a float, which the model does not look into.\<close>

datatype 'f attribute = Attr pyval | Float_attr 'f

definition attrs :: "(string, pyval) pydict \<Rightarrow> (string, 'f attribute) pydict" where
  "attrs d = map (\<lambda>(k, v). (k, Attr v)) d"

datatype span_kind = Producer | Consumer

record ('c, 'f) span =
  sp_name :: string
  sp_kind :: span_kind
  sp_context :: 'c
  sp_attributes :: "(string, 'f attribute) pydict"
  sp_error :: "exn option"

definition get_trace_context :: "('c \<Rightarrow> (string \<times> bool \<times> bool) option) \<Rightarrow> 'c \<Rightarrow> (string, pyval) pydict option" where
  "get_trace_context view ctx =
     map_option (\<lambda>(trace_id, remote, sampled).
       [(''trace_id'', PStr trace_id), (''is_remote'', PBool remote), (''is_sampled'', PBool sampled)]) (view ctx)"

text \<open>\<open>trace_data\<close>: no context, or one without fields, is the empty dict.\<close>

definition trace_fields :: "('c \<Rightarrow> (string \<times> bool \<times> bool) option) \<Rightarrow> 'c \<Rightarrow> (string, pyval) pydict" where
  "trace_fields view ctx = (case get_trace_context view ctx of None \<Rightarrow> [] | Some d \<Rightarrow> d)"

definition inject_trace :: "('c \<Rightarrow> pyval \<Rightarrow> pyval) \<Rightarrow> 'c \<Rightarrow> topic_message \<Rightarrow> topic_message" where
  "inject_trace inject ctx m =
     (let md = dsetdefault ''tracing'' (PDict []) (tm_metadata m)
      in m\<lparr>tm_metadata := dset ''tracing'' (inject ctx (dget_or md ''tracing'' PNone)) md\<rparr>)"

definition extract_trace :: "(pyval \<Rightarrow> 'c) \<Rightarrow> topic_message \<Rightarrow> 'c" where
  "extract_trace extract m = extract (dget_or (tm_metadata m) ''tracing'' (PDict []))"

text \<open>The worker's span: the execution sees the message with the context in its metadata. \<open>None\<close> is an execution
  that was interrupted by something that is not an \<open>Exception\<close>; it leaves the span as it is.\<close>

definition tracer_executed ::
  "('c \<Rightarrow> pyval \<Rightarrow> pyval) \<Rightarrow> 'c \<Rightarrow> 'f \<Rightarrow> queue_item \<Rightarrow> pipeline_message \<Rightarrow>
     (pipeline_message \<Rightarrow> pipeline_results result option) \<Rightarrow> pipeline_results result option \<times> ('c, 'f) span" where
  "tracer_executed inject ctx rate q pm process =
     (let ats = dor [(''datalineup.sampling.rate'', Float_attr rate)] (attrs (executable_message_attributes q pm));
          outcome = process (pm\<lparr>pm_message := inject_trace inject ctx (pm_message pm)\<rparr>);
          sp = \<lparr>sp_name = ''worker executing'', sp_kind = Producer, sp_context = ctx, sp_attributes = ats, sp_error = None\<rparr>
      in (outcome,
          case outcome of
            None \<Rightarrow> sp
          | Some (Inl e) \<Rightarrow> sp\<lparr>sp_error := Some e\<rparr>
          | Some (Inr r) \<Rightarrow>
              sp\<lparr>sp_attributes := dset ''datalineup.outputs.count'' (Attr (PInt (int (List.length (pr_outputs r))))) ats\<rparr>))"

definition pipeline_tracer :: "(pyval \<Rightarrow> 'c) \<Rightarrow> ('c \<Rightarrow> 'c) \<Rightarrow> pipeline_message \<Rightarrow> ('c, 'f) span" where
  "pipeline_tracer extract child pm =
     \<lparr>sp_name = ''executor executing'', sp_kind = Consumer, sp_context = child (extract_trace extract (pm_message pm)),
      sp_attributes = attrs (pipeline_message_attributes pm), sp_error = None\<rparr>"

text \<open>\<open>DatalineupSampler\<close>: the decision on a span that has no parent. The ratio sampler is OpenTelemetry's; a bool is an
  int.\<close>

definition should_sample :: "('f attribute \<Rightarrow> nat \<Rightarrow> bool) \<Rightarrow> nat \<Rightarrow> (string, 'f attribute) pydict option \<Rightarrow> bool" where
  "should_sample ratio trace_id ats =
     (case ats of
        None \<Rightarrow> False
      | Some a \<Rightarrow>
          if a = [] then False
          else (case dget a ''datalineup.sampling.rate'' of
                  None \<Rightarrow> False
                | Some rate \<Rightarrow>
                    (case rate of
                       Float_attr _ \<Rightarrow> ratio rate trace_id
                     | Attr v \<Rightarrow> (case v of PInt _ \<Rightarrow> ratio rate trace_id | PBool _ \<Rightarrow> ratio rate trace_id | _ \<Rightarrow> False))))"

text \<open>
  The trace goes on in the executor: what the propagator wrote for the worker's span is what it reads from the message the
  executor got, the configuration removed from it, so the executor's span is a child of the worker's. The rest of the
  message is untouched. The propagator is used as documented: it reads back the context it wrote.\<close>

lemma trace_reaches_executor:
  assumes codec: "\<And>c v. extract (inject c v) = c"
  shows "sp_context (pipeline_tracer extract child (as_remote (pm\<lparr>pm_message := inject_trace inject ctx (pm_message pm)\<rparr>))) = child ctx"
    and "(inject_trace inject ctx m)\<lparr>tm_metadata := tm_metadata m\<rparr> = m"
  by (simp_all add: pipeline_tracer_def extract_trace_def as_remote_def inject_trace_def Let_def dget_or_def codec)

text \<open>A tag or a label cannot change the rate by which its message is sampled.\<close>

lemma dkeys_prefixed: "dkeys (prefixed p d) = map ((@) p) (dkeys d)"
  by (induction d) (auto simp: prefixed_def)

lemma executable_attribute_keys:
  "''datalineup.sampling.rate'' \<notin> set (dkeys (executable_message_attributes q pm))"
  unfolding executable_message_attributes_def pipeline_message_attributes_def set_dkeys_dor dkeys_prefixed
  by (simp add: image_iff)

lemma dget_dor_other: "k \<notin> set (dkeys b) \<Longrightarrow> dget (dor a b) k = dget a k"
  by (simp add: dget_dor_rev map_add_def dget_None_iff [THEN iffD2] split: option.split)

lemma rate_is_the_services:
  "dget (sp_attributes (snd (tracer_executed inject ctx rate q pm process))) ''datalineup.sampling.rate'' = Some (Float_attr rate)"
proof -
  have k: "dkeys (attrs d) = dkeys d" for d by (induction d) (auto simp: attrs_def)
  have "''datalineup.sampling.rate'' \<notin> set (dkeys (attrs (executable_message_attributes q pm)))"
    unfolding k by (rule executable_attribute_keys)
  note dget_dor_other [OF this, of "[(''datalineup.sampling.rate'', Float_attr rate)]"]
  then show ?thesis by (simp add: tracer_executed_def Let_def split: option.split sum.split)
qed

text \<open>The span names the types of the resources, not their names.\<close>

lemma span_names_resource_types:
  "\<exists>pm. dget (pipeline_message_attributes pm) ''datalineup.resources.names'' = Some (PList [PStr ''Account'']) \<and>
     resource_names pm = [(''Account'', PStr ''alice'')]"
proof (intro exI conjI)
  let ?pm = "\<lparr>pm_info = \<lparr>pi_name = ''p'', pi_resources = [(''acc'', ''Account'')]\<rparr>,
    pm_message = \<lparr>tm_id = ''1'', tm_args = [(''acc'', PDict [(''name'', PStr ''alice'')])], tm_tags = [], tm_config = [],
      tm_metadata = [], tm_expire_after = None\<rparr>, pm_meta_args = []\<rparr>"
  show "resource_names ?pm = [(''Account'', PStr ''alice'')]"
    by (simp add: resource_names_def List.map_filter_simps dor_Cons dset_def dget_or_def)
  then show "dget (pipeline_message_attributes ?pm) ''datalineup.resources.names'' = Some (PList [PStr ''Account''])"
    by (simp add: pipeline_message_attributes_def prefixed_def)
qed

end
