(* ===== verification/Executor_Closing.thy ===== *)
theory Executor_Closing
  imports Prelude
begin

text \<open>
  The life of an \<open>ExecutorWorker\<close> (\<open>worker/executors/manager.py\<close>) with its \<open>ExecutorQueue\<close>
  (\<open>worker/executors/queue.py\<close>): the loop that submits scheduled messages, the tasks that wait for resources, the
  queue of one place, the processing tasks, the tasks that consume results, and \<open>close\<close>, which stops them one kind
  after the other.

  The interleaving is an inductive step relation. Messages are numbered in the order the scheduler yields them;
  \<open>wk_started\<close> records the messages that a processing task has begun and is read by no operation. What happens to one
  message while it is processed is in Exec_Queue; what raises in a submission is in Submit_Errors.
\<close>

section \<open>State\<close>

datatype wk_phase =
    WOpen
  | WScheduler \<comment> \<open>\<open>scheduler.close()\<close> is awaited\<close>
  | WProcessing \<comment> \<open>\<open>processing_tasks.close(timeout)\<close>\<close>
  | WSubmitting \<comment> \<open>\<open>submit_tasks.close()\<close>\<close>
  | WConsuming \<comment> \<open>\<open>consuming_tasks.close(timeout)\<close>\<close>
  | WClosed

record worker =
  wk_phase :: wk_phase
  wk_running :: bool
  wk_next :: nat
  wk_loop :: "nat option" \<comment> \<open>the message the loop of \<open>run\<close> is submitting\<close>
  wk_lock :: "nat option" \<comment> \<open>the message whose submission holds \<open>submit_lock\<close>\<close>
  wk_delayed :: "nat set" \<comment> \<open>the tasks of \<open>delayed_submit\<close>\<close>
  wk_ready :: "nat set" \<comment> \<open>those of them that have their resources\<close>
  wk_queue :: "nat list"
  wk_idle :: nat \<comment> \<open>processing tasks in \<open>poll\<close>\<close>
  wk_got :: "nat set" \<comment> \<open>taken from the queue by a \<open>poll\<close> that has not returned\<close>
  wk_busy :: "nat set"
  wk_consuming :: "nat set"
  wk_left :: "nat set" \<comment> \<open>messages whose context was left\<close>
  wk_dropped :: "nat set" \<comment> \<open>messages of a submission that failed or was cancelled\<close>
  wk_gave_up :: bool \<comment> \<open>a task outlived the timeout and its cancellation\<close>
  wk_started :: "nat set"
  wk_ended :: bool \<comment> \<open>an error has ended the loop of \<open>run\<close>\<close>

definition new_worker :: worker where
  "new_worker = \<lparr>wk_phase = WOpen, wk_running = False, wk_next = 0, wk_loop = None, wk_lock = None, wk_delayed = {},
     wk_ready = {}, wk_queue = [], wk_idle = 0, wk_got = {}, wk_busy = {}, wk_consuming = {}, wk_left = {},
     wk_dropped = {}, wk_gave_up = False, wk_started = {}, wk_ended = False\<rparr>"

section \<open>Operations\<close>

text \<open>\<open>start\<close>: as many processing tasks as the executor is concurrent, each in its first \<open>poll\<close>.\<close>

definition start_queue :: "nat \<Rightarrow> worker \<Rightarrow> worker" where
  "start_queue concurrency s = s\<lparr>wk_running := True, wk_idle := concurrency\<rparr>"

definition schedule :: "worker \<Rightarrow> worker" where
  "schedule s = s\<lparr>wk_next := wk_next s + 1, wk_loop := Some (wk_next s)\<rparr>"

text \<open>\<open>submit\<close> inside the lock: with its resources the message is put, else a task waits for them.\<close>

definition loop_submit :: "bool \<Rightarrow> nat \<Rightarrow> worker \<Rightarrow> worker" where
  "loop_submit available m s =
     (if available then s\<lparr>wk_lock := Some m\<rparr> else s\<lparr>wk_loop := None, wk_delayed := insert m (wk_delayed s)\<rparr>)"

text \<open>An error of the acquisition, other than \<open>ResourceUnavailable\<close>, leaves \<open>run\<close>: the task of the loop is over.\<close>

definition loop_raises :: "nat \<Rightarrow> worker \<Rightarrow> worker" where
  "loop_raises m s = s\<lparr>wk_loop := None, wk_dropped := insert m (wk_dropped s), wk_ended := True\<rparr>"

definition delayed_acquired :: "nat \<Rightarrow> worker \<Rightarrow> worker" where
  "delayed_acquired m s = s\<lparr>wk_ready := insert m (wk_ready s)\<rparr>"

definition delayed_lock :: "nat \<Rightarrow> worker \<Rightarrow> worker" where
  "delayed_lock m s = s\<lparr>wk_lock := Some m\<rparr>"

text \<open>The end of a task of \<open>delayed_submit\<close>, by an error or a cancellation, at any of its awaits.\<close>

definition delayed_fails :: "nat \<Rightarrow> worker \<Rightarrow> worker" where
  "delayed_fails m s =
     s\<lparr>wk_lock := (if wk_lock s = Some m then None else wk_lock s), wk_delayed := wk_delayed s - {m},
       wk_ready := wk_ready s - {m}, wk_dropped := insert m (wk_dropped s)\<rparr>"

text \<open>\<open>queue.put\<close> returns: the submission is over, whether it is the loop's or a task's.\<close>

definition queue_put :: "nat \<Rightarrow> worker \<Rightarrow> worker" where
  "queue_put m s =
     s\<lparr>wk_loop := (if wk_loop s = Some m then None else wk_loop s), wk_lock := None, wk_delayed := wk_delayed s - {m},
       wk_ready := wk_ready s - {m}, wk_queue := wk_queue s @ [m]\<rparr>"

definition queue_get :: "worker \<Rightarrow> worker" where
  "queue_get s = s\<lparr>wk_queue := tl (wk_queue s), wk_idle := wk_idle s - 1, wk_got := insert (hd (wk_queue s)) (wk_got s)\<rparr>"

definition process_begin :: "nat \<Rightarrow> worker \<Rightarrow> worker" where
  "process_begin m s =
     s\<lparr>wk_got := wk_got s - {m}, wk_busy := insert m (wk_busy s), wk_started := insert m (wk_started s)\<rparr>"

text \<open>A processing task is done with its message: results keep the message's context for the task that consumes them.
  The task polls again while the queue runs.\<close>

definition process_end :: "bool \<Rightarrow> nat \<Rightarrow> worker \<Rightarrow> worker" where
  "process_end results m s =
     (let s = s\<lparr>wk_idle := (if wk_running s then wk_idle s + 1 else wk_idle s), wk_busy := wk_busy s - {m}\<rparr>
      in if results then s\<lparr>wk_consuming := insert m (wk_consuming s)\<rparr> else s\<lparr>wk_left := insert m (wk_left s)\<rparr>)"

definition consume_end :: "nat \<Rightarrow> worker \<Rightarrow> worker" where
  "consume_end m s = s\<lparr>wk_consuming := wk_consuming s - {m}, wk_left := insert m (wk_left s)\<rparr>"

text \<open>\<open>close\<close>: after the scheduler, \<open>is_running\<close> is cleared and the polls are cancelled, so the tasks in them end.\<close>

definition close_queue :: "worker \<Rightarrow> worker" where
  "close_queue s = s\<lparr>wk_phase := WProcessing, wk_running := False, wk_idle := 0\<rparr>"

definition close_next :: "wk_phase \<Rightarrow> bool \<Rightarrow> worker \<Rightarrow> worker" where
  "close_next p gave_up s = s\<lparr>wk_phase := p, wk_gave_up := wk_gave_up s \<or> gave_up\<rparr>"

section \<open>Steps\<close>

text \<open>
  A task that is cancelled leaves its message's context, so a cancelled processing task is \<open>End\<close> without results and a
  cancelled consuming task is \<open>Consumed\<close>. The two closes with a timeout go on when their tasks are done, or give up.\<close>

inductive wk_step :: "worker \<Rightarrow> worker \<Rightarrow> bool" where
  Schedule: "\<lbrakk>wk_loop s = None; \<not> wk_ended s\<rbrakk> \<Longrightarrow> wk_step s (schedule s)"
| Submit: "\<lbrakk>wk_loop s = Some m; wk_lock s = None\<rbrakk> \<Longrightarrow> wk_step s (loop_submit available m s)"
| Raised: "\<lbrakk>wk_loop s = Some m; wk_lock s = None\<rbrakk> \<Longrightarrow> wk_step s (loop_raises m s)"
| Acquired: "\<lbrakk>m \<in> wk_delayed s; m \<notin> wk_ready s\<rbrakk> \<Longrightarrow> wk_step s (delayed_acquired m s)"
| Locked: "\<lbrakk>m \<in> wk_ready s; wk_lock s = None\<rbrakk> \<Longrightarrow> wk_step s (delayed_lock m s)"
| Failed: "m \<in> wk_delayed s \<Longrightarrow> wk_step s (delayed_fails m s)"
| Put: "\<lbrakk>wk_lock s = Some m; wk_queue s = []\<rbrakk> \<Longrightarrow> wk_step s (queue_put m s)"
| Get: "\<lbrakk>wk_queue s \<noteq> []; 0 < wk_idle s\<rbrakk> \<Longrightarrow> wk_step s (queue_get s)"
| Begin: "m \<in> wk_got s \<Longrightarrow> wk_step s (process_begin m s)"
| End: "m \<in> wk_busy s \<Longrightarrow> wk_step s (process_end results m s)"
| Consumed: "m \<in> wk_consuming s \<Longrightarrow> wk_step s (consume_end m s)"
| Close: "wk_phase s = WOpen \<Longrightarrow> wk_step s (close_next WScheduler False s)"
| Close_queue: "wk_phase s = WScheduler \<Longrightarrow> wk_step s (close_queue s)"
| Processed: "\<lbrakk>wk_phase s = WProcessing; wk_got s = {}; wk_busy s = {}\<rbrakk> \<Longrightarrow> wk_step s (close_next WSubmitting False s)"
| Processing_given_up: "wk_phase s = WProcessing \<Longrightarrow> wk_step s (close_next WSubmitting True s)"
| Submitted: "\<lbrakk>wk_phase s = WSubmitting; wk_delayed s = {}\<rbrakk> \<Longrightarrow> wk_step s (close_next WConsuming False s)"
| Results_consumed: "\<lbrakk>wk_phase s = WConsuming; wk_consuming s = {}\<rbrakk> \<Longrightarrow> wk_step s (close_next WClosed False s)"
| Consuming_given_up: "wk_phase s = WConsuming \<Longrightarrow> wk_step s (close_next WClosed True s)"

inductive wk_reachable :: "worker \<Rightarrow> bool" where
  Start: "wk_reachable (start_queue n new_worker)"
| Step: "\<lbrakk>wk_reachable s; wk_step s s'\<rbrakk> \<Longrightarrow> wk_reachable s'"

lemmas wk_defs = new_worker_def start_queue_def schedule_def loop_submit_def loop_raises_def delayed_acquired_def delayed_lock_def
  delayed_fails_def queue_put_def queue_get_def process_begin_def process_end_def consume_end_def close_queue_def
  close_next_def

section \<open>Every message is in one place\<close>

text \<open>The number of places that hold a message.\<close>

definition places :: "worker \<Rightarrow> nat \<Rightarrow> nat" where
  "places s m =
     of_bool (wk_loop s = Some m) + of_bool (m \<in> wk_delayed s) + count_list (wk_queue s) m + of_bool (m \<in> wk_got s) +
     of_bool (m \<in> wk_busy s) + of_bool (m \<in> wk_consuming s) + of_bool (m \<in> wk_left s) + of_bool (m \<in> wk_dropped s)"

definition one_place :: "worker \<Rightarrow> bool" where
  "one_place s \<longleftrightarrow> (\<forall>m. places s m = of_bool (m < wk_next s))"

text \<open>The lock is held by a submission that is under way.\<close>

definition lock_inv :: "worker \<Rightarrow> bool" where
  "lock_inv s \<longleftrightarrow> wk_ready s \<subseteq> wk_delayed s \<and>
     (\<forall>m. wk_lock s = Some m \<longrightarrow> wk_loop s = Some m \<or> m \<in> wk_delayed s)"

lemma lock_step: "wk_step s s' \<Longrightarrow> lock_inv s \<Longrightarrow> lock_inv s'"
  by (induction rule: wk_step.induct) (auto simp: lock_inv_def wk_defs Let_def)

lemma place_exclusive:
  assumes "one_place s"
  shows "wk_loop s = Some m \<Longrightarrow> m \<notin> wk_delayed s \<and> m \<notin> wk_dropped s \<and> m \<notin> set (wk_queue s) \<and> m < wk_next s"
    and "m \<in> wk_delayed s \<Longrightarrow> wk_loop s \<noteq> Some m \<and> m \<notin> wk_dropped s \<and> m \<notin> set (wk_queue s) \<and> m < wk_next s"
    and "m \<in> set (wk_queue s) \<Longrightarrow> m \<notin> wk_got s \<and> count_list (wk_queue s) m = 1 \<and> m < wk_next s"
    and "m \<in> wk_got s \<Longrightarrow> m \<notin> wk_busy s \<and> m < wk_next s"
    and "m \<in> wk_busy s \<Longrightarrow> m \<notin> wk_consuming s \<and> m \<notin> wk_left s \<and> m < wk_next s"
    and "m \<in> wk_consuming s \<Longrightarrow> m \<notin> wk_left s \<and> m < wk_next s"
proof -
  have p: "places s m = of_bool (m < wk_next s)" using assms by (simp add: one_place_def)
  have c: "m \<in> set (wk_queue s) \<longleftrightarrow> count_list (wk_queue s) m \<noteq> 0" by (simp add: count_list_0_iff)
  show "wk_loop s = Some m \<Longrightarrow> m \<notin> wk_delayed s \<and> m \<notin> wk_dropped s \<and> m \<notin> set (wk_queue s) \<and> m < wk_next s"
    "m \<in> wk_delayed s \<Longrightarrow> wk_loop s \<noteq> Some m \<and> m \<notin> wk_dropped s \<and> m \<notin> set (wk_queue s) \<and> m < wk_next s"
    "m \<in> set (wk_queue s) \<Longrightarrow> m \<notin> wk_got s \<and> count_list (wk_queue s) m = 1 \<and> m < wk_next s"
    "m \<in> wk_got s \<Longrightarrow> m \<notin> wk_busy s \<and> m < wk_next s"
    "m \<in> wk_busy s \<Longrightarrow> m \<notin> wk_consuming s \<and> m \<notin> wk_left s \<and> m < wk_next s"
    "m \<in> wk_consuming s \<Longrightarrow> m \<notin> wk_left s \<and> m < wk_next s"
    using p unfolding c places_def by (simp_all add: of_bool_def split: if_splits)
qed

lemma one_place_same: "\<lbrakk>one_place s; wk_next s' = wk_next s; \<And>n. places s' n = places s n\<rbrakk> \<Longrightarrow> one_place s'"
  by (simp add: one_place_def)

lemma one_place_step:
  assumes "wk_step s s'" "one_place s" "lock_inv s"
  shows "one_place s'"
  using assms
proof (induction rule: wk_step.induct)
  case (Schedule s)
  then have "places s n = of_bool (n < wk_next s)" for n by (simp add: one_place_def)
  moreover have "places (schedule s) n = (if n = wk_next s then 1 + places s n else places s n)" for n
    using Schedule by (simp add: places_def wk_defs)
  ultimately show ?case by (simp add: one_place_def wk_defs less_Suc_eq)
next
  case (Submit s m available)
  note x = place_exclusive(1) [OF Submit(3,1)]
  have "places (loop_submit available m s) n = places s n" for n
    using Submit(1) x by (cases "n = m") (simp_all add: places_def wk_defs)
  then show ?case by (rule one_place_same [OF Submit(3), rotated]) (simp add: wk_defs)
next
  case (Raised s m)
  note x = place_exclusive(1) [OF Raised(3,1)]
  have "places (loop_raises m s) n = places s n" for n
    using Raised(1) x by (cases "n = m") (simp_all add: places_def wk_defs)
  then show ?case by (rule one_place_same [OF Raised(3), rotated]) (simp add: wk_defs)
next
  case (Failed m s)
  note x = place_exclusive(2) [OF Failed(2,1)]
  have "places (delayed_fails m s) n = places s n" for n
    using Failed(1) x by (cases "n = m") (simp_all add: places_def wk_defs)
  then show ?case by (rule one_place_same [OF Failed(2), rotated]) (simp add: wk_defs)
next
  case (Put s m)
  then have h: "wk_loop s = Some m \<or> m \<in> wk_delayed s" by (simp add: lock_inv_def)
  have "places (queue_put m s) n = places s n" for n
    using h place_exclusive(1,2) [OF Put(3)] Put(2) by (cases "n = m") (auto simp: places_def wk_defs)
  then show ?case by (rule one_place_same [OF Put(3), rotated]) (simp add: wk_defs)
next
  case (Get s)
  then obtain q qs where q: "wk_queue s = q # qs" by (cases "wk_queue s") auto
  note x = place_exclusive(3) [OF Get(3), of q]
  have "places (queue_get s) n = places s n" for n
    using x by (cases "n = q") (simp_all add: places_def wk_defs q)
  then show ?case by (rule one_place_same [OF Get(3), rotated]) (simp add: wk_defs)
next
  case (Begin m s)
  note x = place_exclusive(4) [OF Begin(2,1)]
  have "places (process_begin m s) n = places s n" for n
    using Begin(1) x by (cases "n = m") (simp_all add: places_def wk_defs)
  then show ?case by (rule one_place_same [OF Begin(2), rotated]) (simp add: wk_defs)
next
  case (End m s results)
  note x = place_exclusive(5) [OF End(2,1)]
  have "places (process_end results m s) n = places s n" for n
    using End(1) x by (cases "n = m") (simp_all add: places_def wk_defs Let_def)
  then show ?case by (rule one_place_same [OF End(2), rotated]) (simp add: wk_defs Let_def)
next
  case (Consumed m s)
  note x = place_exclusive(6) [OF Consumed(2,1)]
  have "places (consume_end m s) n = places s n" for n
    using Consumed(1) x by (cases "n = m") (simp_all add: places_def wk_defs)
  then show ?case by (rule one_place_same [OF Consumed(2), rotated]) (simp add: wk_defs)
qed (simp_all add: one_place_def places_def wk_defs)

text \<open>What was begun is being processed, consumed, or has left its context; what has left was begun.\<close>

definition started_inv :: "worker \<Rightarrow> bool" where
  "started_inv s \<longleftrightarrow> wk_started s = wk_busy s \<union> wk_consuming s \<union> wk_left s"

lemma started_step: "wk_step s s' \<Longrightarrow> started_inv s \<Longrightarrow> started_inv s'"
  by (induction rule: wk_step.induct) (auto simp: started_inv_def wk_defs Let_def)

text \<open>How far \<open>close\<close> has come; a timeout that was given up leaves nothing certain.\<close>

definition phase_inv :: "worker \<Rightarrow> bool" where
  "phase_inv s \<longleftrightarrow>
     (wk_running s \<longleftrightarrow> wk_phase s \<in> {WOpen, WScheduler}) \<and> (\<not> wk_running s \<longrightarrow> wk_idle s = 0) \<and>
     (\<not> wk_gave_up s \<and> wk_phase s \<in> {WSubmitting, WConsuming, WClosed} \<longrightarrow> wk_got s = {} \<and> wk_busy s = {}) \<and>
     (\<not> wk_gave_up s \<and> wk_phase s = WClosed \<longrightarrow> wk_consuming s = {})"

lemma phase_step: "wk_step s s' \<Longrightarrow> phase_inv s \<Longrightarrow> phase_inv s'"
  by (induction rule: wk_step.induct) (auto simp: phase_inv_def wk_defs Let_def)

lemma wk_reachable_inv:
  "wk_reachable s \<Longrightarrow> one_place s \<and> lock_inv s \<and> started_inv s \<and> phase_inv s"
proof (induction rule: wk_reachable.induct)
  case (Start n)
  show ?case by (simp add: one_place_def places_def lock_inv_def started_inv_def phase_inv_def wk_defs)
next
  case (Step s s')
  then show ?case using one_place_step lock_step started_step phase_step by blast
qed

section \<open>Properties\<close>


text \<open>One processing task and three messages: the first is processed, the second is in the queue, the third is being
  submitted when the executor is closed.\<close>

definition demo_loaded :: worker where
  "demo_loaded =
     loop_submit True 2 (schedule (queue_put 1 (loop_submit True 1 (schedule (process_begin 0 (queue_get (queue_put 0
       (loop_submit True 0 (schedule (start_queue 1 new_worker))))))))))"

definition demo_closed :: worker where
  "demo_closed =
     close_next WClosed False (consume_end 0 (close_next WConsuming False (close_next WSubmitting False
       (process_end True 0 (close_queue (close_next WScheduler False demo_loaded))))))"

lemma demo_loaded_reachable: "wk_reachable demo_loaded"
  unfolding demo_loaded_def
  by (intro Start Step [OF _ Submit] Step [OF _ Schedule] Step [OF _ Put] Step [OF _ Get] Step [OF _ Begin])
    (simp_all add: wk_defs)

lemma demo_closed_reachable: "wk_reachable demo_closed"
  unfolding demo_closed_def
  by (intro demo_loaded_reachable Step [OF _ Results_consumed] Step [OF _ Consumed] Step [OF _ Submitted]
      Step [OF _ Processed] Step [OF _ End] Step [OF _ Close_queue] Step [OF _ Close])
    (simp_all add: demo_loaded_def wk_defs Let_def)

lemma demo_closed_state:
  "wk_phase demo_closed = WClosed" "\<not> wk_gave_up demo_closed" "wk_next demo_closed = 3" "wk_started demo_closed = {0}"
  "wk_queue demo_closed = [1]" "wk_loop demo_closed = Some 2"
  by (simp_all add: demo_closed_def demo_loaded_def wk_defs Let_def)


text \<open>
  A loop that is submitting to a full queue when the queue is closed stays there: nothing takes from the queue any more and
  \<open>close\<close> does not cancel the loop. \<open>ExecutorsManager.close\<close> then waits for the loop's task, without a
  timeout, so a worker that is stopped under load does not stop, and the services are never closed.\<close>

definition put_blocked :: "nat \<Rightarrow> worker \<Rightarrow> bool" where
  "put_blocked m s \<longleftrightarrow> \<not> wk_running s \<and> wk_idle s = 0 \<and> wk_queue s \<noteq> [] \<and> wk_lock s = Some m \<and> wk_loop s = Some m \<and>
     m \<notin> wk_delayed s"

lemma put_blocked_step: "wk_step s s' \<Longrightarrow> put_blocked m s \<Longrightarrow> put_blocked m s'"
  by (induction rule: wk_step.induct) (auto simp: put_blocked_def wk_defs Let_def)

lemma closing_under_load_hangs:
  "wk_reachable demo_closed \<and> (\<forall>s. wk_step\<^sup>*\<^sup>* demo_closed s \<longrightarrow> wk_loop s = Some 2)"
proof (intro conjI allI impI demo_closed_reachable)
  fix s
  assume "wk_step\<^sup>*\<^sup>* demo_closed s"
  then have "put_blocked 2 s"
  proof (induction rule: rtranclp_induct)
    case base
    show ?case by (simp add: put_blocked_def demo_closed_def demo_loaded_def wk_defs Let_def)
  next
    case (step s s')
    then show ?case by (blast intro: put_blocked_step)
  qed
  then show "wk_loop s = Some 2" by (simp add: put_blocked_def)
qed

section \<open>An error of the loop's own submission\<close>

text \<open>
  A loop that an error has ended takes no message again, from any queue of its executor; the tasks and the queue go on with
  what they hold. The group of the manager logs the error and forgets the task: the executor is neither restarted nor
  removed, so the manager's queues of that executor are assigned to it as before.\<close>

lemma ended_loop_step:
  "wk_step s s' \<Longrightarrow> wk_ended s \<and> wk_loop s = None \<Longrightarrow> (wk_ended s' \<and> wk_loop s' = None) \<and> wk_next s' = wk_next s"
  by (induction rule: wk_step.induct) (auto simp: wk_defs Let_def)

lemma ended_loop_takes_nothing:
  assumes "wk_step\<^sup>*\<^sup>* s s'" "wk_ended s" "wk_loop s = None"
  shows "wk_ended s' \<and> wk_loop s' = None \<and> wk_next s' = wk_next s"
  using assms by (induction rule: rtranclp_induct) (auto dest: ended_loop_step)

definition demo_ended :: worker where
  "demo_ended = loop_raises 0 (schedule (start_queue 1 new_worker))"

lemma submit_error_ends_executor:
  "wk_reachable demo_ended \<and> wk_phase demo_ended = WOpen \<and> wk_idle demo_ended = 1 \<and>
     (\<forall>s. wk_step\<^sup>*\<^sup>* demo_ended s \<longrightarrow> wk_next s = 1 \<and> wk_started s \<subseteq> {0})"
proof (intro conjI allI impI)
  show r: "wk_reachable demo_ended" unfolding demo_ended_def
    by (intro Start Step [OF _ Raised] Step [OF _ Schedule]) (simp_all add: wk_defs)
  show "wk_phase demo_ended = WOpen" "wk_idle demo_ended = 1" by (simp_all add: demo_ended_def wk_defs)
  fix s
  assume s: "wk_step\<^sup>*\<^sup>* demo_ended s"
  show n: "wk_next s = 1" using ended_loop_takes_nothing [OF s] by (simp add: demo_ended_def wk_defs)
  from s r have "wk_reachable s" by (induction rule: rtranclp_induct) (auto intro: Step)
  then have i: "one_place s" "started_inv s" using wk_reachable_inv by blast+
  show "wk_started s \<subseteq> {0}"
  proof
    fix m assume "m \<in> wk_started s"
    then have "places s m \<noteq> 0" using i(2) by (auto simp: started_inv_def places_def)
    with i(1) n show "m \<in> {0}" by (auto simp: one_place_def split: if_splits)
  qed
qed

end
