(* ===== verification/Queue_Stream.thy ===== *)
theory Queue_Stream
  imports Prelude
begin

text \<open>
  How an \<open>ExecutableQueue\<close> (\<open>worker/executors/executable.py\<close>) turns the contexts of its topic into
  messages: \<open>_make_iterator\<close> composes the entering of a context inside the semaphore of \<open>max_concurrency\<close>
  (\<open>concurrency_context\<close>, \<open>async_enter\<close>), the batches of \<open>async_buffered\<close>, if batching is enabled, their flattening, and
  \<open>run\<close> polls a message, waits while it is parked and yields it.

  The interleaving is an inductive step relation. The contexts are numbered in the order the topic gives them;
  \<open>bad c\<close> says that entering context \<open>c\<close> fails. The functions of \<open>utils/iterators.py\<close> on their own are in Iter_Sched.
\<close>

section \<open>Options and state\<close>

record queue_options =
  op_batching_enabled :: bool
  op_buffer_flush_after :: "time option"
  op_buffer_size :: "nat option"
  op_max_concurrency :: "nat option"

definition default_queue_options :: queue_options where
  "default_queue_options = \<lparr>op_batching_enabled = False, op_buffer_flush_after = Some 5, op_buffer_size = Some 10,
     op_max_concurrency = None\<rparr>"

text \<open>No limit and a limit of 0 are the null context.\<close>

definition concurrency_sem :: "queue_options \<Rightarrow> nat option" where
  "concurrency_sem opts = (case op_max_concurrency opts of Some n \<Rightarrow> if n = 0 then None else Some n | None \<Rightarrow> None)"

record queue_stream =
  qs_next :: nat \<comment> \<open>the next context of the topic\<close>
  qs_entering :: "nat option" \<comment> \<open>in \<open>__aenter__\<close>, before the semaphore or the message's own context\<close>
  qs_inside :: "nat set" \<comment> \<open>contexts entered and not left\<close>
  qs_items :: "nat list" \<comment> \<open>\<open>items\<close> of \<open>async_buffered\<close>\<close>
  qs_slice_done :: bool
  qs_batch :: "nat list" \<comment> \<open>the rest of the batch being flattened\<close>
  qs_polled :: "nat option" \<comment> \<open>the message that \<open>run\<close> has polled and not yielded\<close>
  qs_asked :: bool \<comment> \<open>the scheduler awaits the next message\<close>
  qs_yielded :: "nat list"
  qs_failed :: "nat list"
  qs_ended :: bool

definition new_queue_stream :: queue_stream where
  "new_queue_stream = \<lparr>qs_next = 0, qs_entering = None, qs_inside = {}, qs_items = [], qs_slice_done = False, qs_batch = [],
     qs_polled = None, qs_asked = False, qs_yielded = [], qs_failed = [], qs_ended = False\<rparr>"

section \<open>Operations\<close>

definition sem_free :: "queue_options \<Rightarrow> queue_stream \<Rightarrow> bool" where
  "sem_free opts s = (case concurrency_sem opts of None \<Rightarrow> True | Some n \<Rightarrow> card (qs_inside s) < n)"

text \<open>Without batching the topic is asked when the scheduler asks; the slice of \<open>async_buffered\<close> is a task that asks on
  its own until it is done.\<close>

definition pulls :: "queue_options \<Rightarrow> queue_stream \<Rightarrow> bool" where
  "pulls opts s \<longleftrightarrow> qs_entering s = None \<and>
     (if op_batching_enabled opts then \<not> qs_slice_done s else qs_asked s \<and> qs_polled s = None)"

definition pull :: "queue_stream \<Rightarrow> queue_stream" where
  "pull s = s\<lparr>qs_next := qs_next s + 1, qs_entering := Some (qs_next s)\<rparr>"

definition slice_full :: "queue_options \<Rightarrow> nat list \<Rightarrow> bool" where
  "slice_full opts items = (case op_buffer_size opts of None \<Rightarrow> False | Some k \<Rightarrow> k \<le> List.length items)"

definition enter :: "queue_options \<Rightarrow> nat \<Rightarrow> queue_stream \<Rightarrow> queue_stream" where
  "enter opts c s =
     (let s = s\<lparr>qs_entering := None, qs_inside := insert c (qs_inside s)\<rparr>
      in if op_batching_enabled opts
         then s\<lparr>qs_items := qs_items s @ [c], qs_slice_done := slice_full opts (qs_items s @ [c])\<rparr>
         else s\<lparr>qs_polled := Some c\<rparr>)"

text \<open>The error is logged and the next context is tried.\<close>

definition enter_fails :: "nat \<Rightarrow> queue_stream \<Rightarrow> queue_stream" where
  "enter_fails c s = s\<lparr>qs_entering := None, qs_failed := qs_failed s @ [c]\<rparr>"

definition source_end :: "queue_options \<Rightarrow> queue_stream \<Rightarrow> queue_stream" where
  "source_end opts s = (if op_batching_enabled opts then s\<lparr>qs_slice_done := True\<rparr> else s\<lparr>qs_ended := True\<rparr>)"

text \<open>\<open>asyncio.wait\<close> returns, by the end of the slice or by \<open>flush_after\<close>: a batch is emitted, or the stream ends.\<close>

definition buffer_wake :: "queue_stream \<Rightarrow> queue_stream" where
  "buffer_wake s =
     (if qs_slice_done s \<and> qs_items s = [] then s\<lparr>qs_ended := True\<rparr>
      else s\<lparr>qs_items := [], qs_slice_done := False, qs_batch := qs_items s\<rparr>)"

definition flatten_next :: "queue_stream \<Rightarrow> queue_stream" where
  "flatten_next s = s\<lparr>qs_batch := tl (qs_batch s), qs_polled := Some (hd (qs_batch s))\<rparr>"

definition yield_message :: "nat \<Rightarrow> queue_stream \<Rightarrow> queue_stream" where
  "yield_message c s = s\<lparr>qs_polled := None, qs_asked := False, qs_yielded := qs_yielded s @ [c]\<rparr>"

definition leave :: "nat \<Rightarrow> queue_stream \<Rightarrow> queue_stream" where
  "leave c s = s\<lparr>qs_inside := qs_inside s - {c}\<rparr>"

section \<open>Steps\<close>

text \<open>The topic has \<open>limit\<close> messages. A wake-up by the timeout with nothing to emit changes nothing and is left out.\<close>

inductive qs_step :: "queue_options \<Rightarrow> (nat \<Rightarrow> bool) \<Rightarrow> nat \<Rightarrow> queue_stream \<Rightarrow> queue_stream \<Rightarrow> bool"
  for opts bad limit where
  Ask: "\<lbrakk>\<not> qs_asked s; \<not> qs_ended s\<rbrakk> \<Longrightarrow> qs_step opts bad limit s (s\<lparr>qs_asked := True\<rparr>)"
| Pull: "\<lbrakk>pulls opts s; qs_next s < limit; \<not> qs_ended s\<rbrakk> \<Longrightarrow> qs_step opts bad limit s (pull s)"
| Source_end: "\<lbrakk>pulls opts s; qs_next s = limit; \<not> qs_ended s\<rbrakk> \<Longrightarrow> qs_step opts bad limit s (source_end opts s)"
| Enter: "\<lbrakk>qs_entering s = Some c; sem_free opts s; \<not> bad c\<rbrakk> \<Longrightarrow> qs_step opts bad limit s (enter opts c s)"
| Enter_fails: "\<lbrakk>qs_entering s = Some c; sem_free opts s; bad c\<rbrakk> \<Longrightarrow> qs_step opts bad limit s (enter_fails c s)"
| Wake: "\<lbrakk>op_batching_enabled opts; qs_asked s; qs_polled s = None; qs_batch s = []; \<not> qs_ended s;
    qs_slice_done s \<or> op_buffer_flush_after opts \<noteq> None \<and> qs_items s \<noteq> []\<rbrakk> \<Longrightarrow> qs_step opts bad limit s (buffer_wake s)"
| Next: "\<lbrakk>qs_asked s; qs_polled s = None; qs_batch s \<noteq> []\<rbrakk> \<Longrightarrow> qs_step opts bad limit s (flatten_next s)"
| Yield: "qs_polled s = Some c \<Longrightarrow> qs_step opts bad limit s (yield_message c s)"
| Leave: "\<lbrakk>c \<in> qs_inside s; c \<in> set (qs_yielded s)\<rbrakk> \<Longrightarrow> qs_step opts bad limit s (leave c s)"

inductive qs_reachable :: "queue_options \<Rightarrow> (nat \<Rightarrow> bool) \<Rightarrow> nat \<Rightarrow> queue_stream \<Rightarrow> bool" for opts bad limit where
  Start: "qs_reachable opts bad limit new_queue_stream"
| Step: "\<lbrakk>qs_reachable opts bad limit s; qs_step opts bad limit s s'\<rbrakk> \<Longrightarrow> qs_reachable opts bad limit s'"

lemmas qs_defs = new_queue_stream_def pull_def enter_def enter_fails_def source_end_def buffer_wake_def flatten_next_def
  yield_message_def leave_def

section \<open>Invariants\<close>

text \<open>The messages on their way, oldest first.\<close>

definition flow :: "queue_stream \<Rightarrow> nat list" where
  "flow s = qs_yielded s @ (case qs_polled s of None \<Rightarrow> [] | Some c \<Rightarrow> [c]) @ qs_batch s @ qs_items s"

definition taken :: "queue_stream \<Rightarrow> nat" where
  "taken s = (case qs_entering s of None \<Rightarrow> qs_next s | Some c \<Rightarrow> c)"

definition flow_inv :: "queue_options \<Rightarrow> (nat \<Rightarrow> bool) \<Rightarrow> queue_stream \<Rightarrow> bool" where
  "flow_inv opts bad s \<longleftrightarrow>
     flow s = filter (\<lambda>c. \<not> bad c) [0..<taken s] \<and> qs_failed s = filter bad [0..<taken s] \<and>
     (\<forall>c. qs_entering s = Some c \<longrightarrow> qs_next s = Suc c) \<and>
     (\<not> op_batching_enabled opts \<longrightarrow> \<not> qs_slice_done s \<and> qs_batch s = [] \<and> qs_items s = [] \<and> (qs_entering s \<noteq> None \<longrightarrow> qs_polled s = None)) \<and>
     (qs_slice_done s \<longrightarrow> qs_entering s = None)"

lemma flow_step: "qs_step opts bad limit s s' \<Longrightarrow> flow_inv opts bad s \<Longrightarrow> flow_inv opts bad s'"
proof (induction rule: qs_step.induct)
  case (Enter s c)
  then show ?case by (auto simp: flow_inv_def flow_def taken_def qs_defs Let_def)
next
  case (Next s)
  then show ?case by (cases "qs_batch s") (auto simp: flow_inv_def flow_def taken_def qs_defs split: option.splits)
qed (auto simp: flow_inv_def flow_def taken_def pulls_def qs_defs split: option.splits)

text \<open>The messages before the yield are inside the semaphore, and it is never exceeded.\<close>

definition waiting :: "queue_stream \<Rightarrow> nat list" where
  "waiting s = (case qs_polled s of None \<Rightarrow> [] | Some c \<Rightarrow> [c]) @ qs_batch s @ qs_items s"

lemma flow_waiting: "flow s = qs_yielded s @ waiting s"
  by (simp add: flow_def waiting_def)

definition inside_inv :: "queue_options \<Rightarrow> queue_stream \<Rightarrow> bool" where
  "inside_inv opts s \<longleftrightarrow> finite (qs_inside s) \<and> set (waiting s) \<subseteq> qs_inside s \<and> qs_inside s \<subseteq> set (flow s) \<and>
     (\<forall>n. concurrency_sem opts = Some n \<longrightarrow> card (qs_inside s) \<le> n)"

lemma flow_distinct: "flow_inv opts bad s \<Longrightarrow> distinct (flow s)"
  by (simp add: flow_inv_def)

lemma inside_step:
  "\<lbrakk>qs_step opts bad limit s s'; flow_inv opts bad s; inside_inv opts s\<rbrakk> \<Longrightarrow> inside_inv opts s'"
proof (induction rule: qs_step.induct)
  case (Enter s c)
  have "card (insert c (qs_inside s)) \<le> n" if "concurrency_sem opts = Some n" for n
    using Enter(2,5) that by (auto simp: sem_free_def inside_inv_def card_insert_if)
  moreover have "c \<notin> set (flow s)" using Enter(1,4) by (simp add: flow_inv_def taken_def)
  moreover have "qs_polled s = None" if "\<not> op_batching_enabled opts" using Enter(1,4) that by (simp add: flow_inv_def)
  ultimately show ?case using Enter(5)
    by (auto simp: inside_inv_def waiting_def flow_def enter_def Let_def split: option.splits)
next
  case (Next s)
  then obtain c cs where "qs_batch s = c # cs" by (cases "qs_batch s") auto
  with Next show ?case by (auto simp: inside_inv_def waiting_def flow_def flatten_next_def)
next
  case (Yield s c)
  then show ?case by (auto simp: inside_inv_def waiting_def flow_def yield_message_def)
next
  case (Leave c s)
  have "c \<notin> set (waiting s)" using flow_distinct [OF Leave(3)] Leave(2) by (auto simp: flow_waiting)
  moreover have "card (qs_inside s - {c}) \<le> card (qs_inside s)" by (rule card_Diff1_le)
  ultimately show ?case using Leave(4) by (fastforce simp: inside_inv_def waiting_def flow_def leave_def)
qed (auto simp: inside_inv_def waiting_def flow_def qs_defs split: option.splits)

lemma qs_reachable_inv: "qs_reachable opts bad limit s \<Longrightarrow> flow_inv opts bad s \<and> inside_inv opts s"
proof (induction rule: qs_reachable.induct)
  case Start
  show ?case by (simp add: flow_inv_def inside_inv_def flow_def waiting_def taken_def new_queue_stream_def split: option.split)
next
  case (Step s s')
  then show ?case using flow_step inside_step by blast
qed

text \<open>The slice of the buffer, and the end of the stream.\<close>

definition slice_inv :: "queue_options \<Rightarrow> nat \<Rightarrow> queue_stream \<Rightarrow> bool" where
  "slice_inv opts limit s \<longleftrightarrow> qs_next s \<le> limit \<and>
     (\<not> qs_slice_done s \<and> qs_items s \<noteq> [] \<longrightarrow> \<not> slice_full opts (qs_items s)) \<and>
     (qs_slice_done s \<and> qs_items s = [] \<longrightarrow> qs_next s = limit) \<and>
     (qs_ended s \<longrightarrow> qs_next s = limit \<and> qs_entering s = None \<and> waiting s = [])"

lemma slice_step:
  "\<lbrakk>qs_step opts bad limit s s'; flow_inv opts bad s; slice_inv opts limit s\<rbrakk> \<Longrightarrow> slice_inv opts limit s'"
  by (induction rule: qs_step.induct)
    (auto simp: slice_inv_def flow_inv_def waiting_def pulls_def qs_defs Let_def split: if_splits option.splits)

lemma qs_reachable_slice: "qs_reachable opts bad limit s \<Longrightarrow> slice_inv opts limit s"
proof (induction rule: qs_reachable.induct)
  case Start
  show ?case by (simp add: slice_inv_def waiting_def new_queue_stream_def)
next
  case (Step s s')
  then show ?case using slice_step qs_reachable_inv by blast
qed

section \<open>Properties\<close>

text \<open>
  C16: the stream of a queue is exact and bounded. Whatever the interleaving, and with or without batching, the messages that
  were yielded and those on their way are the contexts that could be entered, in the order of the topic, the others are all
  reported, at most \<open>max_concurrency\<close> messages are inside the semaphore, and when the stream ends all of the topic was
  yielded.
\<close>

theorem queue_stream_exact:
  assumes "qs_reachable opts bad limit s"
  shows "qs_yielded s @ waiting s = filter (\<lambda>c. \<not> bad c) [0..<taken s] \<and> qs_failed s = filter bad [0..<taken s] \<and>
    (case concurrency_sem opts of None \<Rightarrow> True | Some n \<Rightarrow> card (qs_inside s) \<le> n) \<and>
    (if qs_ended s then qs_yielded s = filter (\<lambda>c. \<not> bad c) [0..<limit] else True)"
  using qs_reachable_inv [OF assms] qs_reachable_slice [OF assms]
  by (auto simp: flow_inv_def flow_waiting inside_inv_def slice_inv_def taken_def split: option.split)

definition batched_options :: queue_options where
  "batched_options = default_queue_options\<lparr>op_batching_enabled := True, op_max_concurrency := Some 1\<rparr>"

definition first_batch :: queue_stream where
  "first_batch = yield_message 1 (flatten_next (buffer_wake (pull (enter batched_options 1 (pull
     (enter_fails 0 (pull (new_queue_stream\<lparr>qs_asked := True\<rparr>))))))))"

lemma first_batch_reachable: "qs_reachable batched_options (\<lambda>c. c = 0) 3 first_batch"
  unfolding first_batch_def
  by (intro Start Step [OF _ Yield] Step [OF _ Next] Step [OF _ Wake] Step [OF _ Pull] Step [OF _ Enter]
      Step [OF _ Enter_fails] Step [OF _ Ask])
    (simp_all add: qs_defs pulls_def sem_free_def concurrency_sem_def batched_options_def default_queue_options_def
      slice_full_def Let_def)

lemma queue_stream_exact_witness:
  "qs_yielded first_batch = [1] \<and> qs_failed first_batch = [0] \<and> qs_entering first_batch = Some 2"
  using queue_stream_exact [OF first_batch_reachable]
  by (simp add: first_batch_def qs_defs batched_options_def default_queue_options_def slice_full_def Let_def waiting_def
      taken_def upt_rec)

text \<open>The settings under which the buffer cannot wait for itself.\<close>

definition streams :: "queue_options \<Rightarrow> bool" where
  "streams opts \<longleftrightarrow> \<not> op_batching_enabled opts \<or> op_buffer_flush_after opts \<noteq> None \<or>
     (case concurrency_sem opts of None \<Rightarrow> True
      | Some n \<Rightarrow> (case op_buffer_size opts of None \<Rightarrow> False | Some k \<Rightarrow> k \<le> n))"

text \<open>
  C15: a queue that is asked for a message is never stuck on itself. If no message is in flight, a step leads on, unless
  batching is enabled without \<open>buffer_flush_after\<close> and with a \<open>max_concurrency\<close> below the buffer size.
\<close>

theorem queue_stream_not_stuck:
  assumes "qs_reachable opts bad limit s" "streams opts" "qs_asked s" "\<not> qs_ended s"
    "qs_inside s \<inter> set (qs_yielded s) = {}"
  shows "\<exists>s'. qs_step opts bad limit s s'"
proof (cases "qs_polled s = None \<and> qs_batch s = []")
  case False
  then show ?thesis using assms(3) Yield Next by (cases "qs_polled s") blast+
next
  case True
  have fl: "flow_inv opts bad s" and inside: "inside_inv opts s" and sl: "slice_inv opts limit s"
    using qs_reachable_inv [OF assms(1)] qs_reachable_slice [OF assms(1)] by blast+
  have items: "qs_inside s = set (qs_items s)" "distinct (qs_items s)"
    using inside assms(5) True flow_distinct [OF fl] by (auto simp: inside_inv_def flow_waiting waiting_def)
  show ?thesis
  proof (cases "qs_entering s")
    case None
    show ?thesis
    proof (cases "op_batching_enabled opts \<and> qs_slice_done s")
      case True
      with Wake assms(3,4) \<open>qs_polled s = None \<and> qs_batch s = []\<close> show ?thesis by blast
    next
      case False
      with None True assms(3) have "pulls opts s" by (simp add: pulls_def)
      moreover have "qs_next s < limit \<or> qs_next s = limit" using sl by (auto simp: slice_inv_def)
      ultimately show ?thesis using Pull Source_end assms(4) by blast
    qed
  next
    case (Some c)
    show ?thesis
    proof (cases "sem_free opts s")
      case True
      with Some show ?thesis using Enter Enter_fails by blast
    next
      case False
      then obtain n where n: "concurrency_sem opts = Some n" "n \<le> List.length (qs_items s)"
        using items by (auto simp: sem_free_def distinct_card split: option.splits)
      then have ne: "qs_items s \<noteq> []" by (auto simp: concurrency_sem_def split: option.splits if_splits)
      with fl Some have b: "op_batching_enabled opts" "\<not> qs_slice_done s" by (auto simp: flow_inv_def)
      have "\<not> slice_full opts (qs_items s)" using sl ne b(2) by (simp add: slice_inv_def)
      with assms(2) b(1) n have "op_buffer_flush_after opts \<noteq> None"
        by (auto simp: streams_def slice_full_def split: option.splits)
      with Wake assms(3,4) True b(1) ne show ?thesis by blast
    qed
  qed
qed

lemma queue_stream_not_stuck_witness: "\<exists>s'. qs_step default_queue_options (\<lambda>_. False) 1 (new_queue_stream\<lparr>qs_asked := True\<rparr>) s'"
proof (rule queue_stream_not_stuck)
  show "qs_reachable default_queue_options (\<lambda>_. False) 1 (new_queue_stream\<lparr>qs_asked := True\<rparr>)"
    by (intro Start Step [OF _ Ask]) (simp_all add: new_queue_stream_def)
qed (simp_all add: new_queue_stream_def default_queue_options_def streams_def)

text \<open>The exception: the buffer waits for a message that waits for the semaphore, which the buffered message holds.\<close>

definition stuck_options :: queue_options where
  "stuck_options = \<lparr>op_batching_enabled = True, op_buffer_flush_after = None, op_buffer_size = Some 10,
     op_max_concurrency = Some 1\<rparr>"

definition stuck_stream :: queue_stream where
  "stuck_stream = pull (enter stuck_options 0 (pull (new_queue_stream\<lparr>qs_asked := True\<rparr>)))"

inductive_cases qs_stepE: "qs_step opts bad limit s s'"

lemma unflushed_buffer_deadlocks:
  "qs_reachable stuck_options (\<lambda>_. False) 2 stuck_stream \<and> qs_asked stuck_stream \<and> \<not> qs_ended stuck_stream \<and>
   (\<nexists>s'. qs_step stuck_options (\<lambda>_. False) 2 stuck_stream s')"
proof -
  note defs = stuck_stream_def stuck_options_def qs_defs pulls_def sem_free_def concurrency_sem_def slice_full_def Let_def
  have "qs_reachable stuck_options (\<lambda>_. False) 2 stuck_stream"
    unfolding stuck_stream_def
    by (intro Start Step [OF _ Pull] Step [OF _ Enter] Step [OF _ Ask]) (simp_all add: defs)
  moreover have "\<nexists>s'. qs_step stuck_options (\<lambda>_. False) 2 stuck_stream s'"
    by (auto elim!: qs_stepE simp: defs)
  ultimately show ?thesis by (simp add: defs)
qed

end
