(* ===== verification/Rabbit_Topic.thy ===== *)
theory Rabbit_Topic
  imports Topics
begin

text \<open>
  What \<open>worker/topics/rabbitmq.py\<close> sends: the body of a message (\<open>_serialize\<close>, \<open>_deserialize\<close>), and the
  commands that set up its channel, exchange and queue, with the connections of \<open>worker/services/rabbitmq.py\<close>.
  The loops that publish and consume are in Topics.

  Bodies are strings: JSON is written with its non-ASCII characters escaped, so its encoding is the identity. The pickle
  functions and the validation of a parsed message are arguments. The broker is a log of the commands it receives, and
  every command may fail.
\<close>

section \<open>The body of a message\<close>

definition message_dict :: "topic_message \<Rightarrow> (string, pyval) pydict" where
  "message_dict m =
     [(''args'', PDict (tm_args m)), (''id'', PStr (tm_id m)), (''tags'', PDict (map (\<lambda>(k, v). (k, PStr v)) (tm_tags m))),
      (''config'', PDict (tm_config m)), (''metadata'', PDict (tm_metadata m)),
      (''expire_after'', case tm_expire_after m of None \<Rightarrow> PNone | Some t \<Rightarrow> PInt t)]"

text \<open>The body, and whether its size is logged.\<close>

definition serialize :: "(topic_message \<Rightarrow> string) \<Rightarrow> serializer \<Rightarrow> nat option \<Rightarrow> topic_message \<Rightarrow> string \<times> bool" where
  "serialize pickle s log_above m =
     (let body = (case s of SerPickle \<Rightarrow> pickle m | SerJson \<Rightarrow> dumps (PDict (message_dict m)))
      in (body, case log_above of None \<Rightarrow> False | Some n \<Rightarrow> n \<noteq> 0 \<and> n < List.length body))"

text \<open>\<open>unpickle\<close> gives \<open>None\<close> for an object that is not a message; \<open>validate\<close> is \<open>fromdict(..., TopicMessage)\<close>.\<close>

definition deserialize ::
  "(string \<Rightarrow> topic_message option result) \<Rightarrow> (pyval \<Rightarrow> topic_message result) \<Rightarrow> serializer \<Rightarrow> string option \<Rightarrow> string \<Rightarrow>
     topic_message result" where
  "deserialize unpickle validate configured ct body =
     (case deserializer configured ct of
        SerPickle \<Rightarrow>
          (case unpickle body of
             Inl e \<Rightarrow> Inl e
           | Inr None \<Rightarrow> Inl (PlainException ''Deserialized RabbitMQ message is not a TopicMessage.'')
           | Inr (Some m) \<Rightarrow> Inr m)
      | SerJson \<Rightarrow>
          (case loads body of
             None \<Rightarrow> Inl (ValueError body)
           | Some v \<Rightarrow> validate v))"

text \<open>The values of a message that JSON represents: each dict has distinct keys, at every depth.\<close>

definition json_message :: "topic_message \<Rightarrow> bool" where
  "json_message m \<longleftrightarrow> wfp (PDict (tm_args m)) \<and> wfd (tm_tags m) \<and> wfp (PDict (tm_config m)) \<and> wfp (PDict (tm_metadata m))"

lemma wfp_message_dict: "json_message m \<Longrightarrow> wfp (PDict (message_dict m))"
  by (auto simp: json_message_def message_dict_def wfd_def o_def case_prod_unfold split: option.split)

text \<open>
  A message survives the wire, whatever the serializer of its publisher and of its reader: the content type of the
  message decides. Pickle and the validation are used as documented: they give back the message they were given.\<close>

theorem wire_round_trip:
  assumes pickle: "\<And>m. unpickle (pickle m) = Inr (Some m)"
    and validate: "\<And>m. json_message m \<Longrightarrow> validate (PDict (message_dict m)) = Inr m"
    and m: "json_message m"
  shows "deserialize unpickle validate reader (Some (content_type s)) (fst (serialize pickle s log_above m)) = Inr m"
proof (cases s)
  case SerJson
  then show ?thesis
    using validate [OF m] loads_dumps [OF wfp_message_dict [OF m]]
    by (simp add: deserialize_def serialize_def serializer_round_trip Let_def del: dumps.simps)
next
  case SerPickle
  then show ?thesis using pickle by (simp add: deserialize_def serialize_def serializer_round_trip Let_def)
qed
section \<open>Commands and state\<close>

record exchange =
  ex_name :: string
  ex_type :: string
  ex_durable :: bool
  ex_auto_delete :: bool
  ex_passive :: bool
  ex_arguments :: "(string, pyval) pydict"
  ex_timeout :: "time option"

record topic_options =
  to_queue_name :: string
  to_auto_delete :: bool
  to_durable :: bool
  to_prefetch :: "nat option"
  to_exchange :: "exchange option"
  to_routing_key :: "string option"
  to_bind_arguments :: "(string, pyval) pydict option"
  to_arguments :: "(string, pyval) pydict" \<comment> \<open>\<open>queue_arguments\<close>\<close>

datatype command =
    Open_channel
  | Set_qos nat
  | Declare_exchange exchange
  | Declare_queue string bool bool "(string, pyval) pydict"
  | Bind string string "(string, pyval) pydict option"
  | Publish string string
  | Consume string

text \<open>\<open>rt_log\<close> holds what the current incarnation of the channel has received, \<open>rt_past\<close> the logs of those before it.
  \<open>rt_faults\<close> says which of the next commands fail, none when it is used up.\<close>

record rabbit_topic =
  rt_channel :: bool
  rt_exchange :: bool
  rt_queue :: bool
  rt_closed :: bool
  rt_log :: "command list"
  rt_past :: "command list list"
  rt_faults :: "bool list"

definition new_rabbit_topic :: "bool list \<Rightarrow> rabbit_topic" where
  "new_rabbit_topic faults = \<lparr>rt_channel = False, rt_exchange = False, rt_queue = False, rt_closed = False, rt_log = [],
     rt_past = [], rt_faults = faults\<rparr>"

definition send :: "command \<Rightarrow> rabbit_topic \<Rightarrow> unit result \<times> rabbit_topic" where
  "send c s =
     (case rt_faults s of
        True # fs \<Rightarrow> (Inl (PlainException ''AMQPError''), s\<lparr>rt_faults := fs\<rparr>)
      | _ \<Rightarrow> (Inr (), s\<lparr>rt_log := rt_log s @ [c], rt_faults := tl (rt_faults s)\<rparr>))"

definition then_do :: "unit result \<times> rabbit_topic \<Rightarrow> (rabbit_topic \<Rightarrow> unit result \<times> rabbit_topic) \<Rightarrow> unit result \<times> rabbit_topic" where
  "then_do r f = (case r of (Inl e, s) \<Rightarrow> (Inl e, s) | (Inr _, s) \<Rightarrow> f s)"

section \<open>The lazy properties\<close>

text \<open>A property that has been computed is kept; one whose computation failed is computed again.\<close>

definition channel_property :: "topic_options \<Rightarrow> rabbit_topic \<Rightarrow> unit result \<times> rabbit_topic" where
  "channel_property opts s =
     (if rt_channel s then (Inr (), s)
      else then_do (then_do (send Open_channel s)
             (\<lambda>s. case to_prefetch opts of None \<Rightarrow> (Inr (), s) | Some n \<Rightarrow> send (Set_qos n) s))
             (\<lambda>s. (Inr (), s\<lparr>rt_channel := True\<rparr>)))"

definition exchange_property :: "topic_options \<Rightarrow> rabbit_topic \<Rightarrow> unit result \<times> rabbit_topic" where
  "exchange_property opts s =
     (if rt_exchange s then (Inr (), s)
      else then_do (then_do (channel_property opts s)
             (\<lambda>s. case to_exchange opts of None \<Rightarrow> (Inr (), s) | Some x \<Rightarrow> send (Declare_exchange x) s))
             (\<lambda>s. (Inr (), s\<lparr>rt_exchange := True\<rparr>)))"

definition routing_key :: "topic_options \<Rightarrow> string" where
  "routing_key opts =
     (case to_routing_key opts of None \<Rightarrow> to_queue_name opts | Some k \<Rightarrow> if k = [] then to_queue_name opts else k)"

definition declare_queue :: "topic_options \<Rightarrow> command" where
  "declare_queue opts = Declare_queue (to_queue_name opts) (to_auto_delete opts) (to_durable opts) (to_arguments opts)"

definition bind_queue :: "topic_options \<Rightarrow> exchange \<Rightarrow> command" where
  "bind_queue opts x = Bind (ex_name x) (routing_key opts) (to_bind_arguments opts)"

definition queue_property :: "topic_options \<Rightarrow> rabbit_topic \<Rightarrow> unit result \<times> rabbit_topic" where
  "queue_property opts s =
     (if rt_queue s then (Inr (), s)
      else then_do (then_do (then_do (then_do (channel_property opts s) (send (declare_queue opts))) (exchange_property opts))
             (\<lambda>s. case to_exchange opts of None \<Rightarrow> (Inr (), s) | Some x \<Rightarrow> send (bind_queue opts x) s))
             (\<lambda>s. (Inr (), s\<lparr>rt_queue := True\<rparr>)))"

section \<open>Operations\<close>

definition exchange_name :: "topic_options \<Rightarrow> string" where
  "exchange_name opts = (case to_exchange opts of None \<Rightarrow> '''' | Some x \<Rightarrow> ex_name x)"

text \<open>One attempt of \<open>publish\<close> and one of \<open>run\<close>.\<close>

definition publish_attempt :: "topic_options \<Rightarrow> rabbit_topic \<Rightarrow> unit result \<times> rabbit_topic" where
  "publish_attempt opts s =
     then_do (then_do (queue_property opts s) (exchange_property opts)) (send (Publish (exchange_name opts) (routing_key opts)))"

definition consume_attempt :: "topic_options \<Rightarrow> rabbit_topic \<Rightarrow> unit result \<times> rabbit_topic" where
  "consume_attempt opts s = then_do (queue_property opts s) (send (Consume (to_queue_name opts)))"

text \<open>The channel comes back after a loss: what was declared is forgotten. Its library sets its prefetch count again.\<close>

definition channel_reopened :: "rabbit_topic \<Rightarrow> rabbit_topic" where
  "channel_reopened s = s\<lparr>rt_exchange := False, rt_queue := False, rt_log := [], rt_past := rt_log s # rt_past s\<rparr>"

datatype rabbit_call = Open_topic | Publish_once | Consume_once | Reopen | Close_topic

text \<open>The calls of a topic; a closed one refuses to publish and to consume, and loses its channel.\<close>

fun rabbit_step :: "topic_options \<Rightarrow> rabbit_call \<Rightarrow> rabbit_topic \<Rightarrow> unit result \<times> rabbit_topic" where
  "rabbit_step opts Open_topic s = queue_property opts s"
| "rabbit_step opts Publish_once s = (if rt_closed s then (Inl TopicClosedError, s) else publish_attempt opts s)"
| "rabbit_step opts Consume_once s = (if rt_closed s then (Inl TopicClosedError, s) else consume_attempt opts s)"
| "rabbit_step opts Reopen s = (Inr (), channel_reopened s)"
| "rabbit_step opts Close_topic s = (Inr (), s\<lparr>rt_closed := True\<rparr>)"

definition rabbit_run :: "topic_options \<Rightarrow> rabbit_call list \<Rightarrow> rabbit_topic \<Rightarrow> rabbit_topic" where
  "rabbit_run opts cs s = fold (\<lambda>c s. snd (rabbit_step opts c s)) cs s"

section \<open>What is declared before it is used\<close>

text \<open>What a command relies on.\<close>

fun needs :: "topic_options \<Rightarrow> command \<Rightarrow> command set" where
  "needs opts (Bind x k a) =
     insert (declare_queue opts) (case to_exchange opts of None \<Rightarrow> {} | Some x \<Rightarrow> {Declare_exchange x})"
| "needs opts (Publish x k) =
     insert (declare_queue opts) (case to_exchange opts of None \<Rightarrow> {} | Some x \<Rightarrow> {Declare_exchange x, bind_queue opts x})"
| "needs opts (Consume q) =
     insert (declare_queue opts) (case to_exchange opts of None \<Rightarrow> {} | Some x \<Rightarrow> {Declare_exchange x, bind_queue opts x})"
| "needs opts _ = {}"

definition log_ok :: "topic_options \<Rightarrow> command list \<Rightarrow> bool" where
  "log_ok opts l \<longleftrightarrow> (\<forall>i < List.length l. needs opts (l ! i) \<subseteq> set (take i l))"

lemma log_ok_Nil [simp]: "log_ok opts []"
  by (simp add: log_ok_def)

lemma log_ok_snoc [simp]: "log_ok opts (l @ [c]) \<longleftrightarrow> log_ok opts l \<and> needs opts c \<subseteq> set l"
  by (auto simp: log_ok_def nth_append less_Suc_eq)

text \<open>Each property that is kept has its commands in the log of the current channel.\<close>

definition topic_inv :: "topic_options \<Rightarrow> rabbit_topic \<Rightarrow> bool" where
  "topic_inv opts s \<longleftrightarrow> log_ok opts (rt_log s) \<and> (\<forall>l \<in> set (rt_past s). log_ok opts l) \<and>
     (rt_exchange s \<longrightarrow> (\<forall>x. to_exchange opts = Some x \<longrightarrow> Declare_exchange x \<in> set (rt_log s))) \<and>
     (rt_queue s \<longrightarrow> declare_queue opts \<in> set (rt_log s) \<and>
        (\<forall>x. to_exchange opts = Some x \<longrightarrow> Declare_exchange x \<in> set (rt_log s) \<and> bind_queue opts x \<in> set (rt_log s)))"

text \<open>A run that keeps the invariant, adds to the log of one channel and establishes \<open>P\<close> when it succeeds.\<close>

definition does :: "topic_options \<Rightarrow> rabbit_topic \<Rightarrow> (rabbit_topic \<Rightarrow> bool) \<Rightarrow> unit result \<times> rabbit_topic \<Rightarrow> bool" where
  "does opts s P r \<longleftrightarrow> topic_inv opts (snd r) \<and> set (rt_log s) \<subseteq> set (rt_log (snd r)) \<and>
     (fst r = Inr () \<longrightarrow> P (snd r))"

lemma does_then:
  assumes "does opts s P r" "\<And>s'. \<lbrakk>topic_inv opts s'; set (rt_log s) \<subseteq> set (rt_log s'); P s'\<rbrakk> \<Longrightarrow> does opts s' Q (f s')"
  shows "does opts s Q (then_do r f)"
proof (cases r)
  case (Pair x s')
  then show ?thesis
  proof (cases x)
    case (Inr u)
    with Pair assms(1) have "topic_inv opts s'" "set (rt_log s) \<subseteq> set (rt_log s')" "P s'" by (simp_all add: does_def)
    with assms(2) [of s'] Pair Inr show ?thesis by (auto simp: then_do_def does_def)
  qed (use assms(1) in \<open>auto simp: then_do_def does_def\<close>)
qed

lemma does_send:
  assumes "topic_inv opts s" "needs opts c \<subseteq> set (rt_log s)"
  shows "does opts s (\<lambda>s'. c \<in> set (rt_log s')) (send c s)"
  using assms by (auto simp: does_def send_def topic_inv_def split: list.split bool.split)

lemma does_return: "\<lbrakk>topic_inv opts s; P s\<rbrakk> \<Longrightarrow> does opts s P (Inr (), s)"
  by (simp add: does_def)

lemma does_mono: "\<lbrakk>does opts s P r; \<And>s'. P s' \<Longrightarrow> Q s'\<rbrakk> \<Longrightarrow> does opts s Q r"
  by (auto simp: does_def)

lemma does_channel: "topic_inv opts s \<Longrightarrow> does opts s (\<lambda>_. True) (channel_property opts s)"
  unfolding channel_property_def
  by (auto intro!: does_then [where P = "\<lambda>_. True"] does_mono [OF does_send] does_return split: option.split)
    (auto simp: does_def topic_inv_def)

text \<open>The exchange that a topic has configured is declared on the current channel.\<close>

definition exchange_declared :: "topic_options \<Rightarrow> rabbit_topic \<Rightarrow> bool" where
  "exchange_declared opts s \<longleftrightarrow> (\<forall>x. to_exchange opts = Some x \<longrightarrow> Declare_exchange x \<in> set (rt_log s))"

definition queue_bound :: "topic_options \<Rightarrow> rabbit_topic \<Rightarrow> bool" where
  "queue_bound opts s \<longleftrightarrow> declare_queue opts \<in> set (rt_log s) \<and> exchange_declared opts s \<and>
     (\<forall>x. to_exchange opts = Some x \<longrightarrow> bind_queue opts x \<in> set (rt_log s))"

lemma declared_mono:
  "\<lbrakk>set (rt_log s) \<subseteq> set (rt_log s'); exchange_declared opts s\<rbrakk> \<Longrightarrow> exchange_declared opts s'"
  "\<lbrakk>set (rt_log s) \<subseteq> set (rt_log s'); queue_bound opts s\<rbrakk> \<Longrightarrow> queue_bound opts s'"
  by (auto simp: exchange_declared_def queue_bound_def)

lemma does_exchange:
  assumes "topic_inv opts s"
  shows "does opts s (exchange_declared opts) (exchange_property opts s)"
proof (cases "rt_exchange s")
  case True
  with assms show ?thesis
    by (simp add: exchange_property_def does_def topic_inv_def exchange_declared_def)
next
  case False
  have a: "does opts s (exchange_declared opts)
      (then_do (channel_property opts s)
        (\<lambda>s. case to_exchange opts of None \<Rightarrow> (Inr (), s) | Some x \<Rightarrow> send (Declare_exchange x) s))"
    by (rule does_then [OF does_channel [OF assms]])
      (auto simp: exchange_declared_def intro!: does_return intro: does_mono [OF does_send] split: option.split)
  have "does opts s (exchange_declared opts)
      (then_do (then_do (channel_property opts s)
          (\<lambda>s. case to_exchange opts of None \<Rightarrow> (Inr (), s) | Some x \<Rightarrow> send (Declare_exchange x) s))
        (\<lambda>s. (Inr (), s\<lparr>rt_exchange := True\<rparr>)))"
    by (rule does_then [OF a]) (auto simp: does_def topic_inv_def exchange_declared_def)
  with False show ?thesis by (simp add: exchange_property_def)
qed

lemma does_queue:
  assumes "topic_inv opts s"
  shows "does opts s (queue_bound opts) (queue_property opts s)"
proof (cases "rt_queue s")
  case True
  with assms show ?thesis by (auto simp: queue_property_def does_def topic_inv_def queue_bound_def exchange_declared_def)
next
  case False
  let ?D = "\<lambda>s. declare_queue opts \<in> set (rt_log s)"
  have d: "does opts s ?D (then_do (channel_property opts s) (send (declare_queue opts)))"
    by (rule does_then [OF does_channel [OF assms]]) (auto simp: declare_queue_def intro!: does_send)
  have e: "does opts s (\<lambda>s. ?D s \<and> exchange_declared opts s)
      (then_do (then_do (channel_property opts s) (send (declare_queue opts))) (exchange_property opts))"
  proof (rule does_then [OF d])
    fix s'
    assume "topic_inv opts s'" "?D s'"
    with does_exchange [of opts s'] show "does opts s' (\<lambda>s. ?D s \<and> exchange_declared opts s) (exchange_property opts s')"
      by (auto simp: does_def)
  qed
  have b: "does opts s (queue_bound opts)
      (then_do (then_do (then_do (channel_property opts s) (send (declare_queue opts))) (exchange_property opts))
        (\<lambda>s. case to_exchange opts of None \<Rightarrow> (Inr (), s) | Some x \<Rightarrow> send (bind_queue opts x) s))"
  proof (rule does_then [OF e])
    fix s'
    assume s': "topic_inv opts s'" "?D s' \<and> exchange_declared opts s'"
    show "does opts s' (queue_bound opts) (case to_exchange opts of None \<Rightarrow> (Inr (), s') | Some x \<Rightarrow> send (bind_queue opts x) s')"
    proof (cases "to_exchange opts")
      case None
      with s' show ?thesis by (simp add: does_return queue_bound_def)
    next
      case (Some x)
      have "does opts s' (\<lambda>s. bind_queue opts x \<in> set (rt_log s)) (send (bind_queue opts x) s')"
        by (rule does_send) (use s' Some in \<open>auto simp: bind_queue_def exchange_declared_def\<close>)
      with s' Some show ?thesis by (auto simp: does_def queue_bound_def exchange_declared_def)
    qed
  qed
  show ?thesis
    unfolding queue_property_def if_not_P [OF False]
    by (rule does_then [OF b]) (auto simp: does_def topic_inv_def queue_bound_def exchange_declared_def)
qed

lemma does_publish:
  assumes "topic_inv opts s"
  shows "does opts s (\<lambda>s. Publish (exchange_name opts) (routing_key opts) \<in> set (rt_log s)) (publish_attempt opts s)"
proof -
  have "does opts s (queue_bound opts) (then_do (queue_property opts s) (exchange_property opts))"
  proof (rule does_then [OF does_queue [OF assms]])
    fix s'
    assume "topic_inv opts s'" "queue_bound opts s'"
    with does_exchange [of opts s'] declared_mono(2) [of s' _ opts]
    show "does opts s' (queue_bound opts) (exchange_property opts s')" by (auto simp: does_def)
  qed
  then show ?thesis unfolding publish_attempt_def
    by (rule does_then) (auto intro!: does_send simp: queue_bound_def exchange_declared_def split: option.splits)
qed

lemma does_consume:
  assumes "topic_inv opts s"
  shows "does opts s (\<lambda>s. Consume (to_queue_name opts) \<in> set (rt_log s)) (consume_attempt opts s)"
  unfolding consume_attempt_def
  by (rule does_then [OF does_queue [OF assms]])
    (auto intro!: does_send simp: queue_bound_def exchange_declared_def split: option.splits)

lemma topic_inv_step: "topic_inv opts s \<Longrightarrow> topic_inv opts (snd (rabbit_step opts c s))"
proof (cases c)
  case Reopen
  assume "topic_inv opts s"
  with Reopen show ?thesis by (simp add: topic_inv_def channel_reopened_def)
next
  case Close_topic
  assume "topic_inv opts s"
  with Close_topic show ?thesis by (simp add: topic_inv_def)
qed (use does_queue does_publish does_consume in \<open>auto simp: does_def\<close>)

lemma topic_inv_run: "topic_inv opts s \<Longrightarrow> topic_inv opts (rabbit_run opts cs s)"
  by (induction cs arbitrary: s) (simp_all add: rabbit_run_def topic_inv_step)

section \<open>Properties\<close>

text \<open>
  A topic uses its queue only where it has declared it. Whatever calls are made, whichever of the commands fail and
  however often the channel is lost, a message is published or consumed on a channel only after the queue was declared
  on that same channel, and with it the exchange that is configured and their binding.
\<close>

theorem declared_before_use:
  assumes "l \<in> insert (rt_log s) (set (rt_past s))" "s = rabbit_run opts cs (new_rabbit_topic faults)"
    "i < List.length l" "(\<exists>x k. l ! i = Publish x k) \<or> (\<exists>q. l ! i = Consume q)"
  shows "declare_queue opts \<in> set (take i l) \<and>
    (\<forall>x. to_exchange opts = Some x \<longrightarrow> Declare_exchange x \<in> set (take i l) \<and> bind_queue opts x \<in> set (take i l))"
proof -
  have "topic_inv opts s" unfolding assms(2)
    by (rule topic_inv_run) (simp add: topic_inv_def new_rabbit_topic_def)
  with assms(1) have "log_ok opts l" by (auto simp: topic_inv_def)
  with assms(3) have n: "needs opts (l ! i) \<subseteq> set (take i l)" by (simp add: log_ok_def)
  from assms(4) show ?thesis
  proof
    assume "\<exists>x k. l ! i = Publish x k"
    then obtain x k where "l ! i = Publish x k" by blast
    with n show ?thesis by (auto split: option.splits)
  next
    assume "\<exists>q. l ! i = Consume q"
    then obtain q where "l ! i = Consume q" by blast
    with n show ?thesis by (auto split: option.splits)
  qed
qed

text \<open>A topic with an exchange whose binding fails at first, and whose channel is lost between two publications.\<close>

definition demo_options :: topic_options where
  "demo_options = \<lparr>to_queue_name = ''q'', to_auto_delete = False, to_durable = True, to_prefetch = Some 1,
     to_exchange = Some \<lparr>ex_name = ''x'', ex_type = ''direct'', ex_durable = True, ex_auto_delete = False, ex_passive = False,
       ex_arguments = [], ex_timeout = None\<rparr>,
     to_routing_key = None, to_bind_arguments = None, to_arguments = []\<rparr>"

definition demo_calls :: "rabbit_call list" where
  "demo_calls = [Open_topic, Publish_once, Reopen, Publish_once, Close_topic, Publish_once]"

lemmas rabbit_defs = rabbit_run_def new_rabbit_topic_def channel_property_def exchange_property_def queue_property_def
  publish_attempt_def consume_attempt_def channel_reopened_def then_do_def send_def declare_queue_def bind_queue_def
  exchange_name_def routing_key_def

lemma demo_log:
  "rt_log (rabbit_run demo_options demo_calls (new_rabbit_topic [False, False, False, False, True])) =
     [declare_queue demo_options, Declare_exchange (the (to_exchange demo_options)),
      bind_queue demo_options (the (to_exchange demo_options)), Publish ''x'' ''q'']"
  by (simp add: demo_calls_def demo_options_def rabbit_defs)

lemma declared_before_use_witness:
  "bind_queue demo_options (the (to_exchange demo_options)) \<in>
     set (take 3 (rt_log (rabbit_run demo_options demo_calls (new_rabbit_topic [False, False, False, False, True]))))"
  using declared_before_use [OF insertI1 refl, of 3 demo_options demo_calls "[False, False, False, False, True]"]
  by (simp only: demo_log) (simp add: demo_options_def)

text \<open>With no command failing, a publication of an open topic succeeds.\<close>

definition calm :: "rabbit_topic \<Rightarrow> bool" where
  "calm s \<longleftrightarrow> True \<notin> set (rt_faults s)"

lemma calm_send: "calm s \<Longrightarrow> fst (send c s) = Inr () \<and> calm (snd (send c s))"
  by (auto simp: calm_def send_def split: list.split bool.split dest: list.set_sel(2))

lemma calm_then:
  "\<lbrakk>fst r = Inr () \<and> calm (snd r); \<And>s. calm s \<Longrightarrow> fst (f s) = Inr () \<and> calm (snd (f s))\<rbrakk> \<Longrightarrow>
     fst (then_do r f) = Inr () \<and> calm (snd (then_do r f))"
  by (cases r) (simp add: then_do_def)

lemma calm_return: "calm s \<Longrightarrow> fst (Inr (), s) = Inr () \<and> calm (snd (Inr (), s))"
  by simp

lemma calm_update: "calm (s\<lparr>rt_channel := b\<rparr>) = calm s" "calm (s\<lparr>rt_exchange := b\<rparr>) = calm s" "calm (s\<lparr>rt_queue := b\<rparr>) = calm s"
  by (simp_all add: calm_def)

lemma calm_channel: "calm s \<Longrightarrow> fst (channel_property opts s) = Inr () \<and> calm (snd (channel_property opts s))"
  unfolding channel_property_def
  by (cases "rt_channel s"; cases "to_prefetch opts") (simp_all add: calm_then calm_send calm_update)

lemma calm_exchange: "calm s \<Longrightarrow> fst (exchange_property opts s) = Inr () \<and> calm (snd (exchange_property opts s))"
  unfolding exchange_property_def
  by (cases "rt_exchange s"; cases "to_exchange opts") (simp_all add: calm_then calm_send calm_update calm_channel)

lemma calm_queue: "calm s \<Longrightarrow> fst (queue_property opts s) = Inr () \<and> calm (snd (queue_property opts s))"
  unfolding queue_property_def
  by (cases "rt_queue s"; cases "to_exchange opts") (simp_all add: calm_then calm_send calm_update calm_channel calm_exchange)

lemma calm_publish: "\<lbrakk>calm s; \<not> rt_closed s\<rbrakk> \<Longrightarrow> fst (rabbit_step opts Publish_once s) = Inr ()"
  by (simp add: publish_attempt_def calm_then calm_send calm_queue calm_exchange)

section \<open>Connections\<close>

text \<open>\<open>RabbitMQService\<close>: one connection per name, opened when it is first asked for; \<open>default\<close> is the plain URL
  unless the names say otherwise. A connection is a number.\<close>

record rabbit_service =
  rs_urls :: "(string, string) pydict"
  rs_connections :: "(string, nat) pydict"
  rs_opened :: "string list"

definition service_open :: "string \<Rightarrow> (string, string) pydict \<Rightarrow> rabbit_service" where
  "service_open url urls = \<lparr>rs_urls = dsetdefault ''default'' url urls, rs_connections = [], rs_opened = []\<rparr>"

definition service_connection :: "string \<Rightarrow> rabbit_service \<Rightarrow> nat result \<times> rabbit_service" where
  "service_connection name s =
     (case dget (rs_connections s) name of
        Some c \<Rightarrow> (Inr c, s)
      | None \<Rightarrow>
          (case dget (rs_urls s) name of
             None \<Rightarrow> (Inl (KeyError name), s)
           | Some url \<Rightarrow>
               let c = List.length (rs_opened s)
               in (Inr c, s\<lparr>rs_connections := dset name c (rs_connections s), rs_opened := rs_opened s @ [url]\<rparr>)))"

lemma connection_is_shared:
  "fst (service_connection name s) = Inr c \<Longrightarrow>
     service_connection name (snd (service_connection name s)) = (Inr c, snd (service_connection name s))"
  by (auto simp: service_connection_def Let_def split: option.splits)

lemma default_connection: "\<exists>c. fst (service_connection ''default'' (service_open url urls)) = Inr c"
  by (cases "dget urls ''default''") (auto simp: service_connection_def service_open_def Let_def split: option.split)

end
