(* ===== verification/Paging.thy ===== *)
theory Paging
  imports Inventories
begin

text \<open>
  \<open>IteratorInventory\<close> and \<open>SubInventory\<close> of \<open>worker/inventory.py\<close>: an inventory that iterates gives its
  batches by iterating anew from the cursor of the last item, and \<open>iterate\<close> over batches is its inverse. The locale
  \<open>cursor_iterator\<close> is the contract of such an \<open>iterate\<close>; it gives the contract of \<open>next_batch\<close>, and the inventory of
  \<open>worker/inventories/batching.py\<close> satisfies it.
\<close>

section \<open>Batches of an iterator\<close>

text \<open>\<open>alib.islice(self.iterate(after=after), self.batch_size)\<close>.\<close>

definition iterator_next_batch :: "nat \<Rightarrow> (string option \<Rightarrow> item list) \<Rightarrow> string option \<Rightarrow> item list" where
  "iterator_next_batch b iter after = take (effective_batch_size b) (iter after)"

locale cursor_iterator =
  fixes iter :: "string option \<Rightarrow> item list" and xs :: "item list"
  assumes iter_after: "a = None \<or> a \<in> it_cursor ` set xs \<Longrightarrow> iter a = items_after a xs"
    and iter_distinct: "distinct (map it_cursor xs)"
    and iter_some: "i \<in> set xs \<Longrightarrow> it_cursor i \<noteq> None"

sublocale cursor_iterator \<subseteq> paged: paged_inventory "iterator_next_batch b iter" xs for b
proof unfold_locales
  fix a
  assume a: "a = None \<or> a \<in> it_cursor ` set xs"
  then show "\<exists>n. iterator_next_batch b iter a = take n (items_after a xs)"
    by (auto simp: iterator_next_batch_def iter_after)
  show "iterator_next_batch b iter a \<noteq> []" if "items_after a xs \<noteq> []"
    using a that by (auto simp: iterator_next_batch_def iter_after effective_batch_size_def)
qed (auto simp: iter_distinct iter_some)

context cursor_iterator
begin

text \<open>Paging an iterator and iterating over the pages give back the iterator.\<close>

lemma paging_inverse:
  assumes "a = None \<or> a \<in> it_cursor ` set xs" "List.length (items_after a xs) + 1 \<le> fuel"
  shows "\<exists>evs. iterate_inv fuel (\<lambda>_ c. Batch (iterator_next_batch b iter c)) k 0 a = (evs, IterDone) \<and> yields evs = iter a"
proof -
  have s: "paged.serves b (int 0) (\<lambda>_ c. Batch (iterator_next_batch b iter c))"
    by (simp add: paged.serves_def)
  have no_retry: "snd (iterate_inv f (\<lambda>_ c. Batch (iterator_next_batch b iter c)) k r c) \<noteq> IterRaised MaxRetriesError" for f k r c
    by (induction f arbitrary: k r c) (auto simp: split_def Let_def)
  from paged.iterate_serves [OF s assms(1), of 0 fuel k] assms(2)
  obtain evs fin where r: "iterate_inv fuel (\<lambda>_ c. Batch (iterator_next_batch b iter c)) k 0 a = (evs, fin)"
    "(fin = IterDone \<and> yields evs = items_after a xs) \<or> fin = IterRaised MaxRetriesError" by auto
  with no_retry [of fuel k 0 a] have "fin = IterDone" "yields evs = items_after a xs" by auto
  with r(1) show ?thesis using iter_after [OF assms(1)] by simp
qed

end

section \<open>The batching inventory\<close>

lemma batches_split:
  "batches b xs = P @ y # Q \<Longrightarrow> xs = concat P @ y @ concat Q \<and> batches b (concat Q) = Q"
proof (induction P arbitrary: xs)
  case Nil
  then have "Q = batches b (drop (effective_batch_size b) xs)"
    by (subst (asm) batches.simps) (auto split: if_splits)
  then show ?case using batches_concat [of b xs] Nil by (simp add: batches_concat)
next
  case (Cons p P)
  then have "batches b (drop (effective_batch_size b) xs) = P @ y # Q"
    by (subst (asm) (2) batches.simps) (auto split: if_splits)
  with Cons.IH show ?case using batches_concat [of b xs] Cons.prems by simp
qed

lemma batch_item_cursor [simp]: "it_cursor (batch_item ys) = it_cursor (last ys)"
  by (simp add: batch_item_def)

lemma batching_subset: "i \<in> set (batching_iterate b xs) \<Longrightarrow> it_cursor i \<in> it_cursor ` set xs"
proof -
  assume "i \<in> set (batching_iterate b xs)"
  then obtain y where y: "y \<in> set (batches b xs)" "i = batch_item y" by (auto simp: batching_iterate_def)
  have "last y \<in> set y" using batches_sizes [OF y(1)] by simp
  then have "last y \<in> set (concat (batches b xs))" using y(1) by auto
  then show ?thesis using y(2) by (simp add: batches_concat)
qed

lemma batching_distinct: "distinct (map it_cursor xs) \<Longrightarrow> distinct (map it_cursor (batching_iterate b xs))"
proof (induction b xs rule: batches.induct)
  case (1 b xs)
  let ?n = "effective_batch_size b"
  show ?case
  proof (cases "take ?n xs = []")
    case True
    then show ?thesis by (simp add: batching_iterate_def batches.simps)
  next
    case False
    then have b: "batching_iterate b xs = batch_item (take ?n xs) # batching_iterate b (drop ?n xs)"
      by (simp add: batching_iterate_def batches.simps [of b xs])
    have d: "distinct (map it_cursor (take ?n xs @ drop ?n xs))" using 1(2) by simp
    have "it_cursor (last (take ?n xs)) \<notin> it_cursor ` set (drop ?n xs)"
      using d last_in_set [OF False] unfolding map_append distinct_append by fastforce
    then have "it_cursor (batch_item (take ?n xs)) \<notin> it_cursor ` set (batching_iterate b (drop ?n xs))"
      using batching_subset [of _ b "drop ?n xs"] by auto
    moreover have "distinct (map it_cursor (batching_iterate b (drop ?n xs)))"
      using 1(1) [OF False] d unfolding map_append distinct_append by blast
    ultimately show ?thesis by (simp add: b)
  qed
qed

lemma batching_after:
  assumes "distinct (map it_cursor xs)" "\<And>i. i \<in> set xs \<Longrightarrow> it_cursor i \<noteq> None"
    and "a = None \<or> a \<in> it_cursor ` set (batching_iterate b xs)"
  shows "batching_iterate b (items_after a xs) = items_after a (batching_iterate b xs)"
proof (cases a)
  case None
  then show ?thesis by (simp add: items_after_def)
next
  case (Some c)
  then obtain y where y: "y \<in> set (batches b xs)" "it_cursor (last y) = Some c"
    using assms(3) by (auto simp: batching_iterate_def)
  then obtain P Q where s: "batches b xs = P @ y # Q" by (meson split_list)
  note sp = batches_split [OF s]
  have ne: "y \<noteq> []" using batches_sizes y(1) by blast
  have "xs = (concat P @ butlast y) @ last y # concat Q" using sp ne by simp
  then have "items_after a xs = concat Q"
    using items_after_last [of "concat P @ butlast y" "last y" "concat Q" c] assms(1) y(2) Some by metis
  moreover have "items_after a (batching_iterate b xs) = map batch_item Q"
    using items_after_last [of "map batch_item P" "batch_item y" "map batch_item Q" c] batching_distinct [OF assms(1), of b]
      y(2) Some by (simp add: batching_iterate_def s)
  ultimately show ?thesis using sp by (simp add: batching_iterate_def)
qed

interpretation batching_static:
  cursor_iterator "\<lambda>a. batching_iterate c (items_after a (static_items items))" "batching_iterate c (static_items items)"
  for c items
proof
  note d = static_inv.cursors_distinct [of items] and s = static_inv.cursors_some
  show "batching_iterate c (items_after a (static_items items)) = items_after a (batching_iterate c (static_items items))"
    if "a = None \<or> a \<in> it_cursor ` set (batching_iterate c (static_items items))" for a
    using batching_after [OF d s that] .
  show "distinct (map it_cursor (batching_iterate c (static_items items)))" by (rule batching_distinct [OF d])
  show "it_cursor i \<noteq> None" if "i \<in> set (batching_iterate c (static_items items))" for i
    using batching_subset [OF that] s by (auto simp: image_iff)
qed

text \<open>
  The pages of a batching inventory over a static one, whatever the two batch sizes, put end to end are the batches it
  iterates over; from the cursor of a batch they are the batches that follow it.\<close>

lemma batching_pages:
  assumes "a = None \<or> a \<in> it_cursor ` set (batching_iterate c (static_items items))"
    "List.length (batching_iterate c (static_items items)) + 1 \<le> fuel"
  shows "\<exists>evs. iterate_inv fuel
      (\<lambda>_ a. Batch (iterator_next_batch b (\<lambda>a. batching_iterate c (items_after a (static_items items))) a)) 0 0 a = (evs, IterDone) \<and>
    yields evs = items_after a (batching_iterate c (static_items items))"
proof -
  obtain pre where "batching_iterate c (static_items items) = pre @ items_after a (batching_iterate c (static_items items))"
    using items_after_suffix by blast
  then have "List.length (items_after a (batching_iterate c (static_items items))) + 1 \<le> fuel"
    using assms(2) by (metis add_le_mono le_trans length_append le_add2 le_refl)
  from batching_static.paging_inverse [OF assms(1) this] batching_static.iter_after [OF assms(1)]
  show ?thesis by simp
qed

section \<open>Sub-inventories\<close>

text \<open>\<open>SubInventory.iterate\<close>: the loop of an inventory, for the batches of one item of the source.\<close>

definition sub_iterate ::
  "nat \<Rightarrow> (nat \<Rightarrow> item \<Rightarrow> string option \<Rightarrow> batch_outcome) \<Rightarrow> item \<Rightarrow> string option \<Rightarrow> iter_event list \<times> iter_end" where
  "sub_iterate fuel nb source after = iterate_inv fuel (\<lambda>k. nb k source) 0 0 after"

text \<open>A static inventory per source item: each source gets its own items, in spite of transient failures.\<close>

lemma sub_iterate_static:
  assumes nb: "\<And>k i a. nb k i a = outcome_of (static_next_batch (items i) False a) \<or>
      (\<exists>rb. nb k i a = Retry rb \<and> rb_max_retries rb \<le> int M)"
    and fuel: "List.length (static_items (items source)) * (M + 1) + M + 1 \<le> fuel"
  shows "\<exists>evs fin. sub_iterate fuel nb source None = (evs, fin) \<and>
    ((fin = IterDone \<and> yields evs = static_items (items source)) \<or>
     (fin = IterRaised MaxRetriesError \<and> (\<exists>n. yields evs = take n (static_items (items source)))))"
proof -
  have "static_inv.serves (items source) (int M) (\<lambda>k. nb k source)"
    unfolding static_inv.serves_def using nb static_next_batch_valid by metis
  then have "\<exists>evs fin. iterate_inv fuel (\<lambda>k. nb k source) 0 0 None = (evs, fin) \<and>
    ((fin = IterDone \<and> yields evs = items_after None (static_items (items source))) \<or>
     (fin = IterRaised MaxRetriesError \<and> (\<exists>n. yields evs = take n (items_after None (static_items (items source))))))"
    using fuel by (intro static_inv.iterate_serves) (auto simp: items_after_def)
  then show ?thesis by (simp add: sub_iterate_def items_after_def)
qed

end
