(* ===== verification/Sentry_Reports.thy ===== *)
theory Sentry_Reports
  imports Message_Logs Rabbit_Topic Traceback
begin

text \<open>
  The error reports of \<open>worker/services/extras/sentry.py\<close>: the tags and the data an event gets from its message, the
  exceptions it lists, and what is done to it before it is sent. An event is the dict that is sent; the event of an
  exception that did not come from an executor, and the absolute form of a path, are the library's.
\<close>

section \<open>Data of an event\<close>

text \<open>An assignment below a key, whose value is a dict or is made one; \<open>None\<close> is an error, which the library swallows.\<close>

definition set_in ::
  "string \<Rightarrow> ((string, pyval) pydict \<Rightarrow> (string, pyval) pydict option) \<Rightarrow> (string, pyval) pydict \<Rightarrow> (string, pyval) pydict option" where
  "set_in k f d =
     (case dget d k of
        None \<Rightarrow> map_option (\<lambda>v. dset k (PDict v) d) (f [])
      | Some (PDict v) \<Rightarrow> map_option (\<lambda>v. dset k (PDict v) d) (f v)
      | Some _ \<Rightarrow> None)"

text \<open>The statements of an event processor, up to the first that fails.\<close>

fun run_updates :: "('d \<Rightarrow> 'd option) list \<Rightarrow> 'd \<Rightarrow> 'd" where
  "run_updates [] d = d"
| "run_updates (u # us) d = (case u d of None \<Rightarrow> d | Some d \<Rightarrow> run_updates us d)"

definition event_tags_from_queue :: "queue_item \<Rightarrow> (string, pyval) pydict \<Rightarrow> (string, pyval) pydict option" where
  "event_tags_from_queue q = set_in ''tags'' (\<lambda>t. Some
     (dor (dset ''datalineup.job.name'' (PStr (qi_name q)) t) (prefixed ''datalineup.job.labels.'' (qi_labels q))))"

definition event_tags_from_message :: "pipeline_message \<Rightarrow> (string, pyval) pydict \<Rightarrow> (string, pyval) pydict option" where
  "event_tags_from_message pm = set_in ''tags'' (\<lambda>t. Some
     (dor (dset ''datalineup.pipeline.name'' (PStr (pi_name (pm_info pm)))
             (dset ''datalineup.message.id'' (PStr (tm_id (pm_message pm))) t))
          (prefixed ''datalineup.message.tags.'' (tm_tags (pm_message pm)))))"

definition queue_data :: "queue_item \<Rightarrow> pyval" where
  "queue_data q = PDict [(''name'', PStr (qi_name q)), (''labels'', str_dict (qi_labels q))]"

text \<open>\<open>asdict\<close> of a \<open>PipelineMessage\<close>.\<close>

definition pipeline_message_dict :: "pipeline_message \<Rightarrow> (string, pyval) pydict" where
  "pipeline_message_dict pm =
     [(''info'', PDict [(''name'', PStr (pi_name (pm_info pm))), (''resources'', str_dict (pi_resources (pm_info pm)))]),
      (''message'', PDict (message_dict (pm_message pm))), (''meta_args'', PDict (pm_meta_args pm))]"

definition set_extra :: "string \<Rightarrow> pyval \<Rightarrow> (string, pyval) pydict \<Rightarrow> (string, pyval) pydict option" where
  "set_extra k v = set_in ''extra'' (set_in ''datalineup'' (\<lambda>d. Some (dset k v d)))"

definition built_processor :: "queue_item \<Rightarrow> (string, pyval) pydict \<Rightarrow> (string, pyval) pydict" where
  "built_processor q = run_updates [event_tags_from_queue q, set_extra ''job'' (queue_data q)]"

definition executed_processor :: "queue_item \<Rightarrow> pipeline_message \<Rightarrow> (string, pyval) pydict \<Rightarrow> (string, pyval) pydict" where
  "executed_processor q pm = run_updates
     [event_tags_from_message pm, event_tags_from_queue q, set_extra ''pipeline_message'' (PDict (pipeline_message_dict pm)),
      set_extra ''job'' (queue_data q)]"

definition published_processor ::
  "queue_item \<Rightarrow> pipeline_message \<Rightarrow> pipeline_output \<Rightarrow> (string, pyval) pydict \<Rightarrow> (string, pyval) pydict" where
  "published_processor q pm out = run_updates
     [event_tags_from_message pm, event_tags_from_queue q,
      set_in ''tags'' (\<lambda>t. Some (dset ''datalineup.channel.name'' (PStr (po_channel out)) t)),
      set_extra ''output_message'' (PDict (message_dict (po_message out))),
      set_extra ''pipeline_message'' (PDict (pipeline_message_dict pm)), set_extra ''job'' (queue_data q)]"

section \<open>Exceptions from an executor\<close>

text \<open>The chain of a traceback, the exception itself first.\<close>

fun walk_chain :: "traceback_data \<Rightarrow> traceback_data list" where
  "walk_chain (Traceback ty md st stack tr c x supp ns) =
     Traceback ty md st stack tr c x supp ns #
     (if supp then (case c of None \<Rightarrow> [] | Some t \<Rightarrow> walk_chain t) else (case x of None \<Rightarrow> [] | Some t \<Rightarrow> walk_chain t))"

definition serialize_frame :: "(string \<Rightarrow> string) \<Rightarrow> bool \<Rightarrow> frame_data \<Rightarrow> (string, pyval) pydict" where
  "serialize_frame abspath with_locals f =
     [(''filename'', PStr (fr_filename f)),
      (''abs_path'', if fr_filename f = [] then PNone else PStr (abspath (fr_filename f))),
      (''function'', PStr (if fr_name f = [] then ''<unknown>'' else fr_name f)), (''module'', PStr (fr_module f)),
      (''lineno'', PInt (fr_lineno f)), (''pre_context'', PList (map PStr (fr_lines_before f))),
      (''context_line'', PStr (fr_line f)), (''post_context'', PList (map PStr (fr_lines_after f)))] @
     (if with_locals then [(''vars'', str_dict (fr_locals f))] else [])"

text \<open>The client option \<open>with_locals\<close> is on unless it is given.\<close>

definition exception_value :: "(string \<Rightarrow> string) \<Rightarrow> bool option \<Rightarrow> pyval \<Rightarrow> traceback_data \<Rightarrow> (string, pyval) pydict" where
  "exception_value abspath with_locals mechanism tb =
     (let frames = map (\<lambda>f. PDict (serialize_frame abspath (with_locals \<noteq> Some False) f)) (tb_stack tb)
      in [(''module'', PStr (tb_exc_module tb)), (''type'', PStr (tb_exc_type tb)), (''value'', PStr (tb_exc_str tb)),
          (''mechanism'', mechanism)] @
         (if frames = [] then [] else [(''stacktrace'', PDict [(''frames'', PList frames)])]))"

definition exceptions_from_traceback :: "(string \<Rightarrow> string) \<Rightarrow> bool option \<Rightarrow> pyval \<Rightarrow> traceback_data \<Rightarrow> pyval list" where
  "exceptions_from_traceback abspath with_locals mechanism tb =
     rev (map (\<lambda>t. PDict (exception_value abspath with_locals mechanism t)) (walk_chain tb))"

definition remote_event :: "(string \<Rightarrow> string) \<Rightarrow> bool option \<Rightarrow> pyval \<Rightarrow> traceback_data \<Rightarrow> (string, pyval) pydict" where
  "remote_event abspath with_locals mechanism tb =
     [(''level'', PStr ''error''),
      (''exception'', PDict [(''values'', PList (exceptions_from_traceback abspath with_locals mechanism tb))])]"

section \<open>Sending\<close>

text \<open>\<open>_sanitize_message_resources\<close>: of each argument that is a resource the name is kept.\<close>

fun sanitize_args :: "string list \<Rightarrow> (string, pyval) pydict \<Rightarrow> (string, pyval) pydict result" where
  "sanitize_args [] args = Inr args"
| "sanitize_args (r # rs) args =
     (case dget args r of
        Some (PDict d) \<Rightarrow> sanitize_args rs (dset r (PDict [(''name'', dget_or d ''name'' PNone)]) args)
      | _ \<Rightarrow> Inl (PlainException ''AttributeError''))"

definition sub_dict :: "(string, pyval) pydict \<Rightarrow> string \<Rightarrow> (string, pyval) pydict" where
  "sub_dict d k = (case dget d k of Some (PDict v) \<Rightarrow> v | _ \<Rightarrow> [])"

definition sanitize :: "(string, pyval) pydict \<Rightarrow> (string, pyval) pydict result" where
  "sanitize pm =
     rbind (sanitize_args (dkeys (sub_dict (sub_dict pm ''info'') ''resources'')) (sub_dict (sub_dict pm ''message'') ''args''))
       (\<lambda>args. Inr (dset ''message'' (PDict (dset ''args'' (PDict args) (sub_dict pm ''message''))) pm))"

text \<open>\<open>on_before_send\<close>: \<open>None\<close> drops the event of a remote exception that another integration caught.\<close>

definition before_send :: "bool \<Rightarrow> (string, pyval) pydict \<Rightarrow> (string, pyval) pydict option result" where
  "before_send remote_exc_info event =
     (if remote_exc_info then Inr None
      else (case dget (sub_dict event ''extra'') ''datalineup-pipeline-message'' of
              Some (PDict (x # pm)) \<Rightarrow>
                rbind (sanitize (x # pm)) (\<lambda>pm. Inr (Some (dset ''extra''
                  (PDict (dset ''datalineup-pipeline-message'' (PDict pm) (sub_dict event ''extra''))) event)))
            | _ \<Rightarrow> Inr (Some event)))"

text \<open>An error from an executor, or one whose event is the library's.\<close>

datatype failure = Remote traceback_data | Local "(string, pyval) pydict"

datatype execution = Succeeded | Error_handled | Failed failure

definition capture ::
  "(string \<Rightarrow> string) \<Rightarrow> bool option option \<Rightarrow> failure \<Rightarrow> (string, pyval) pydict list" where
  "capture abspath client e =
     (case client of
        None \<Rightarrow> []
      | Some with_locals \<Rightarrow>
          (case e of
             Remote tb \<Rightarrow>
               [remote_event abspath with_locals (PDict [(''type'', PStr ''datalineup''), (''handled'', PBool False)]) tb]
           | Local ev \<Rightarrow> [ev]))"

text \<open>The event that a scope sends: its processor runs, then \<open>on_before_send\<close>.\<close>

definition send_events ::
  "((string, pyval) pydict \<Rightarrow> (string, pyval) pydict) \<Rightarrow> (string, pyval) pydict list \<Rightarrow> (string, pyval) pydict option result list" where
  "send_events processor evs = map (\<lambda>ev. before_send False (processor ev)) evs"

definition sentry_executed ::
  "(string \<Rightarrow> string) \<Rightarrow> bool option option \<Rightarrow> queue_item \<Rightarrow> pipeline_message \<Rightarrow> execution \<Rightarrow>
     (string, pyval) pydict option result list" where
  "sentry_executed abspath client q pm outcome =
     send_events (executed_processor q pm) (case outcome of Failed e \<Rightarrow> capture abspath client e | _ \<Rightarrow> [])"

definition sentry_published ::
  "(string \<Rightarrow> string) \<Rightarrow> bool option option \<Rightarrow> queue_item \<Rightarrow> pipeline_message \<Rightarrow> pipeline_output \<Rightarrow> failure option \<Rightarrow>
     (string, pyval) pydict option result list" where
  "sentry_published abspath client q pm out outcome =
     send_events (published_processor q pm out) (case outcome of None \<Rightarrow> [] | Some e \<Rightarrow> capture abspath client e)"

definition sentry_built ::
  "(string \<Rightarrow> string) \<Rightarrow> bool option option \<Rightarrow> queue_item \<Rightarrow> failure option \<Rightarrow> (string, pyval) pydict option result list" where
  "sentry_built abspath client q outcome =
     send_events (built_processor q) (case outcome of None \<Rightarrow> [] | Some e \<Rightarrow> capture abspath client e)"

section \<open>What is reported\<close>

text \<open>The chain that \<open>TracebackData.format\<close> prints.\<close>

fun printed_chain :: "traceback_data \<Rightarrow> traceback_data list" where
  "printed_chain (Traceback ty md st stack tr c x supp ns) =
     Traceback ty md st stack tr c x supp ns #
     (case c of
        Some t \<Rightarrow> printed_chain t
      | None \<Rightarrow> (case x of Some t \<Rightarrow> if supp then [] else printed_chain t | None \<Rightarrow> []))"

text \<open>A cause suppresses the context, as \<open>raise ... from\<close> does.\<close>

fun cause_suppresses :: "traceback_data \<Rightarrow> bool" where
  "cause_suppresses (Traceback ty md st stack tr c x supp ns) =
     ((case c of None \<Rightarrow> True | Some t \<Rightarrow> supp \<and> cause_suppresses t) \<and> (case x of None \<Rightarrow> True | Some t \<Rightarrow> cause_suppresses t))"

text \<open>The exceptions of a report are those that the text of the exception shows, the oldest first.\<close>

lemma walk_chain_printed: "cause_suppresses tb \<Longrightarrow> walk_chain tb = printed_chain tb"
  by (induction tb rule: walk_chain.induct) (auto split: option.splits)

lemma report_exceptions:
  "cause_suppresses tb \<Longrightarrow>
     dget (sub_dict (remote_event abspath l m tb) ''exception'') ''values'' =
       Some (PList (map (\<lambda>t. PDict (exception_value abspath l m t)) (rev (printed_chain tb))))"
  by (simp add: remote_event_def sub_dict_def exceptions_from_traceback_def walk_chain_printed rev_map)

text \<open>A failed execution is reported once, one whose error was handled or that succeeded is not.\<close>

lemma executed_reports:
  "List.length (sentry_executed abspath (Some l) q pm outcome) = (case outcome of Failed _ \<Rightarrow> 1 | _ \<Rightarrow> 0)"
  "sentry_executed abspath None q pm outcome = []"
  by (simp_all add: sentry_executed_def send_events_def capture_def split: execution.split failure.split)

section \<open>Resources in a report\<close>

text \<open>Sanitizing keeps the name of each resource and nothing else of it, and the other arguments as they are.\<close>

lemma sanitize_args_spec:
  "\<lbrakk>\<And>r. r \<in> set rs \<Longrightarrow> \<exists>d. dget args r = Some (PDict d)\<rbrakk> \<Longrightarrow>
     \<exists>args'. sanitize_args rs args = Inr args' \<and>
       (\<forall>k. dget args' k = (if k \<in> set rs then (case dget args k of Some (PDict d) \<Rightarrow> Some (PDict [(''name'', dget_or d ''name'' PNone)]) | v \<Rightarrow> v)
          else dget args k))"
proof (induction rs arbitrary: args)
  case (Cons r rs)
  obtain d where d: "dget args r = Some (PDict d)" using Cons.prems [of r] by auto
  let ?n = "PDict [(''name'', dget_or d ''name'' PNone)]"
  have "\<exists>d. dget (dset r ?n args) k = Some (PDict d)" if "k \<in> set rs" for k
    using Cons.prems [of k] that by simp
  from Cons.IH [OF this] obtain args' where
    a: "sanitize_args rs (dset r ?n args) = Inr args'"
      "\<And>k. dget args' k = (if k \<in> set rs then (case dget (dset r ?n args) k of
          Some (PDict d) \<Rightarrow> Some (PDict [(''name'', dget_or d ''name'' PNone)]) | v \<Rightarrow> v) else dget (dset r ?n args) k)" by blast
  have "dget args' k = (if k \<in> set (r # rs) then (case dget args k of
      Some (PDict d) \<Rightarrow> Some (PDict [(''name'', dget_or d ''name'' PNone)]) | v \<Rightarrow> v) else dget args k)" for k
    using a(2) [of k] d by (cases "k = r") (simp_all add: dget_or_def)
  with a(1) d show ?case by auto
qed simp

text \<open>
  It is never applied: \<open>on_before_send\<close> looks for the message under a key of \<open>extra\<close> that no processor sets, so an event is
  sent as it was made, and with it the resources of the message, whatever they hold.\<close>

lemma nothing_is_sanitized:
  "dget (sub_dict ev ''extra'') ''datalineup-pipeline-message'' = None \<Longrightarrow> before_send False ev = Inr (Some ev)"
  by (simp add: before_send_def)

lemma processors_set_another_key:
  assumes "sub_dict ev ''extra'' = []" "dget ev ''extra'' = None" "dget ev ''tags'' = None"
  shows "before_send False (executed_processor q pm ev) = Inr (Some (executed_processor q pm ev)) \<and>
    dget (sub_dict (sub_dict (executed_processor q pm ev) ''extra'') ''datalineup'') ''pipeline_message'' =
      Some (PDict (pipeline_message_dict pm))"
  using assms
  by (simp add: executed_processor_def event_tags_from_message_def event_tags_from_queue_def set_extra_def set_in_def sub_dict_def
      before_send_def)

lemma resources_are_sent:
  assumes "dget (tm_args (pm_message pm)) r = Some (PDict secret)"
  shows "\<exists>ev. before_send False (executed_processor q pm (remote_event abspath l m tb)) = Inr (Some ev) \<and>
    dget (sub_dict (sub_dict (sub_dict (sub_dict (sub_dict ev ''extra'') ''datalineup'') ''pipeline_message'') ''message'') ''args'') r
      = Some (PDict secret)"
proof -
  have "dget (remote_event abspath l m tb) ''extra'' = None" "dget (remote_event abspath l m tb) ''tags'' = None"
    "sub_dict (remote_event abspath l m tb) ''extra'' = []"
    by (simp_all add: remote_event_def sub_dict_def)
  note processors_set_another_key [OF this(3,1,2), of q pm]
  then show ?thesis using assms by (auto simp: sub_dict_def pipeline_message_dict_def message_dict_def)
qed

end
