(* ===== verification/Metrics_Backends.thy ===== *)
theory Metrics_Backends
  imports Core_Types
begin

text \<open>
  The metrics of \<open>worker/services/_metrics/\<close>: what \<open>BaseMetricsService\<close> counts and times at each hook, and the two
  backends that receive it, \<open>memory\<close> and \<open>statsd\<close>. Times are given by the clock; \<open>quote\<close> is the library's escaping
  of a URL.
\<close>

section \<open>What is measured\<close>

type_synonym params = "(string, string) pydict"

datatype metric = Incr string int params | Timing string time params

definition pipeline_params :: "string \<Rightarrow> params" where
  "pipeline_params pipeline = [(''pipeline'', pipeline)]"

text \<open>\<open>on_message_polled\<close>, \<open>on_message_scheduled\<close> and \<open>on_message_submitted\<close>, by the key.\<close>

definition on_step :: "string \<Rightarrow> string \<Rightarrow> metric list" where
  "on_step key pipeline = [Incr key 1 (pipeline_params pipeline)]"

text \<open>A \<open>Counter\<close>: the keys in the order they were first seen.\<close>

definition count_keys :: "string list \<Rightarrow> (string, int) pydict" where
  "count_keys ks = fold (\<lambda>k d. dset k (dget_or d k 0 + 1) d) ks []"

text \<open>How a message ended; \<open>Interrupted\<close> is by something that is not an \<open>Exception\<close>.\<close>

datatype 'r executed = Success 'r | Failure | Interrupted

definition on_executed :: "string \<Rightarrow> time \<Rightarrow> pipeline_results executed \<Rightarrow> metric list" where
  "on_executed pipeline elapsed e =
     (let ps = pipeline_params pipeline in
      [Incr ''message.executed.before'' 1 ps, Timing ''message.executed'' elapsed ps] @
      (case e of
         Success r \<Rightarrow>
           Incr ''message.executed.success'' 1 ps #
           map (\<lambda>u. Incr ''resource.used'' 1 [(''type'', ru_type u)]) (pr_resources r) @
           map (\<lambda>(c, n). Incr ''message.executed.outputs'' n (dor ps [(''channel'', c)])) (count_keys (map po_channel (pr_outputs r)))
       | Failure \<Rightarrow> [Incr ''message.executed.failed'' 1 ps]
       | Interrupted \<Rightarrow> []))"

definition topic_params :: "string \<Rightarrow> string \<Rightarrow> params" where
  "topic_params pipeline topic = [(''pipeline'', pipeline), (''topic'', topic)]"

definition on_published :: "string \<Rightarrow> string \<Rightarrow> unit executed \<Rightarrow> metric list" where
  "on_published pipeline topic e =
     (let ps = topic_params pipeline topic in
      Incr ''message.published.before'' 1 ps #
      (case e of
         Success _ \<Rightarrow> [Incr ''message.published.success'' 1 ps]
       | Failure \<Rightarrow> [Incr ''message.published.failed'' 1 ps]
       | Interrupted \<Rightarrow> []))"

definition on_blocked :: "string \<Rightarrow> string \<Rightarrow> metric list" where
  "on_blocked pipeline topic = [Incr ''topic.blocked'' 1 (topic_params pipeline topic)]"

section \<open>The memory backend\<close>

text \<open>\<open>sorted\<close> of the items of a dict: by key.\<close>

definition stringify_params :: "params \<Rightarrow> string" where
  "stringify_params ps = join_with '','' (map (\<lambda>(k, v). k @ ''='' @ v) (sort_key fst ps))"

definition labelled :: "string \<Rightarrow> params \<Rightarrow> string" where
  "labelled key ps = key @ ''{'' @ stringify_params ps @ ''}''"

record memory_metrics =
  mm_counters :: "(string, int) pydict"
  mm_timings :: "(string, time) pydict"

definition new_memory_metrics :: memory_metrics where
  "new_memory_metrics = \<lparr>mm_counters = [], mm_timings = []\<rparr>"

text \<open>\<open>d[k] += n\<close> of a \<open>defaultdict(int)\<close>.\<close>

definition bump :: "string \<Rightarrow> int \<Rightarrow> (string, int) pydict \<Rightarrow> (string, int) pydict" where
  "bump k n d = dset k (dget_or d k 0 + n) d"

fun memory_metric :: "metric \<Rightarrow> memory_metrics \<Rightarrow> memory_metrics" where
  "memory_metric (Incr key n ps) s =
     (let s = s\<lparr>mm_counters := bump key n (mm_counters s)\<rparr>
      in if ps = [] then s else s\<lparr>mm_counters := bump (labelled key ps) n (mm_counters s)\<rparr>)"
| "memory_metric (Timing key t ps) s =
     (let s = s\<lparr>mm_timings := bump key t (mm_timings s)\<rparr>
      in if ps = [] then s else s\<lparr>mm_timings := bump (labelled key ps) t (mm_timings s)\<rparr>)"

definition memory_run :: "metric list \<Rightarrow> memory_metrics" where
  "memory_run ms = fold memory_metric ms new_memory_metrics"

section \<open>The statsd backend\<close>

definition escape_metric :: "(string \<Rightarrow> string) \<Rightarrow> string \<Rightarrow> string" where
  "escape_metric quote s = map (\<lambda>c. if c = CHR ''.'' then CHR ''_'' else c) (quote s)"

definition format_metric_tags :: "(string \<Rightarrow> string) \<Rightarrow> string \<Rightarrow> params \<Rightarrow> string" where
  "format_metric_tags quote key ps =
     join_with ''.'' (key # map (\<lambda>(k, v). ''by_'' @ escape_metric quote k @ ''.'' @ escape_metric quote v) (sort_key fst ps))"

text \<open>The calls of the client: the key, the value and the tags. A time is in units of a millisecond.\<close>

datatype statsd_call = Increment string int "params option" | Time string int "params option"

fun statsd_metric :: "(string \<Rightarrow> string) \<Rightarrow> bool \<Rightarrow> metric \<Rightarrow> statsd_call list" where
  "statsd_metric quote tags_in_metric (Incr key n ps) =
     (if tags_in_metric
      then Increment key n None # (if ps = [] then [] else [Increment (format_metric_tags quote key ps) n None])
      else [Increment key n (Some ps)])"
| "statsd_metric quote tags_in_metric (Timing key t ps) =
     (if tags_in_metric
      then Time key t None # (if ps = [] then [] else [Time (format_metric_tags quote key ps) t None])
      else [Time key t (Some ps)])"

section \<open>What the counters say\<close>

text \<open>The sum of what was counted under a key.\<close>

fun incr_of :: "string \<Rightarrow> metric \<Rightarrow> int" where
  "incr_of key (Incr k n ps) = (if k = key then n else 0)"
| "incr_of key (Timing k t ps) = 0"

definition counted :: "string \<Rightarrow> metric list \<Rightarrow> int" where
  "counted key ms = sum_list (map (incr_of key) ms)"

lemma counted_simps [simp]:
  "counted key [] = 0" "counted key (m # ms) = incr_of key m + counted key ms"
  "counted key (ms @ ns) = counted key ms + counted key ns"
  by (simp_all add: counted_def)

lemma bump_get: "dget_or (bump k n d) k' 0 = dget_or d k' 0 + (if k' = k then n else 0)"
  by (simp add: bump_def dget_or_def)

lemma labelled_brace: "CHR 0x7B \<in> set (labelled key ps)"
  by (simp add: labelled_def)

text \<open>The memory backend's counter of a key is the sum of what was counted; a key with a brace could be a labelled one.\<close>

theorem memory_counts:
  assumes "CHR 0x7B \<notin> set key"
  shows "dget_or (mm_counters (memory_run ms)) key 0 = counted key ms"
proof -
  have lab: "labelled k ps \<noteq> key" for k ps using assms labelled_brace [of k ps] by auto
  have "dget_or (mm_counters (fold memory_metric ms s)) key 0 = dget_or (mm_counters s) key 0 + counted key ms" for s
  proof (induction ms arbitrary: s)
    case (Cons m ms)
    then show ?case using lab by (cases m) (auto simp: bump_get Let_def)
  qed simp
  from this [of new_memory_metrics] show ?thesis by (simp add: memory_run_def new_memory_metrics_def dget_or_def)
qed

lemma memory_counts_witness: "dget_or (mm_counters (memory_run [Incr ''a'' 2 [(''k'', ''v'')], Incr ''a'' 3 []])) ''a'' 0 = 5"
  using memory_counts [of "''a''" "[Incr ''a'' 2 [(''k'', ''v'')], Incr ''a'' 3 []]"] by simp

text \<open>Executions add up: each is counted before, and after by how it ended; the outputs are all counted.\<close>

lemma sum_count_keys: "sum_list (map snd (count_keys ks)) = int (List.length ks)"
proof -
  have up: "sum_list (map snd (dset k (dget_or d k 0 + 1) d)) = sum_list (map snd d) + 1" if "wfd d" for k and d :: "(string, int) pydict"
    using that
  proof (induction d)
    case (Cons p d)
    obtain k' n where p: "p = (k', n)" by force
    show ?case
    proof (cases "k' = k")
      case True
      then show ?thesis by (simp add: p dset_def dget_or_def)
    next
      case False
      then have "dset k (dget_or (p # d) k 0 + 1) (p # d) = p # dset k (dget_or d k 0 + 1) d"
        by (simp add: p dset_def dget_or_def)
      with Cons show ?thesis by (simp add: wfd_def)
    qed
  qed (simp add: dset_def dget_or_def)
  have "sum_list (map snd (fold (\<lambda>k d. dset k (dget_or d k 0 + 1) d) ks d)) = sum_list (map snd d) + int (List.length ks)"
    if "wfd d" for d :: "(string, int) pydict"
    using that by (induction ks arbitrary: d) (simp_all add: up)
  from this [of "[]"] show ?thesis by (simp add: count_keys_def)
qed

lemma counted_map_zero: "(\<And>x. x \<in> set xs \<Longrightarrow> incr_of key (f x) = 0) \<Longrightarrow> counted key (map f xs) = 0"
  by (induction xs) simp_all

lemma counted_outputs:
  "counted ''message.executed.outputs'' (map (\<lambda>(c, n). Incr ''message.executed.outputs'' n (ps c)) d) = sum_list (map snd d)"
  by (induction d) auto

theorem executions_add_up:
  "counted ''message.executed.before'' (concat (map (\<lambda>(p, t, e). on_executed p t e) es)) =
     counted ''message.executed.success'' (concat (map (\<lambda>(p, t, e). on_executed p t e) es)) +
     counted ''message.executed.failed'' (concat (map (\<lambda>(p, t, e). on_executed p t e) es)) +
     int (List.length (filter (\<lambda>(p, t, e). e = Interrupted) es))"
proof (induction es)
  case (Cons x es)
  obtain p t e where x: "x = (p, t, e)" by (cases x)
  have r: "counted k (map (\<lambda>u. Incr ''resource.used'' 1 [(''type'', ru_type u)]) us) = 0" if "k \<noteq> ''resource.used''" for k us
    using that by (intro counted_map_zero) simp
  have c: "counted k (map (\<lambda>(c, n). Incr ''message.executed.outputs'' n (dor (pipeline_params p) [(''channel'', c)])) d) = 0"
    if "k \<noteq> ''message.executed.outputs''" for k d
    using that by (intro counted_map_zero) auto
  show ?case using Cons by (cases e) (simp_all add: x on_executed_def Let_def r c)
qed simp

lemma outputs_counted:
  "counted ''message.executed.outputs'' (on_executed p t (Success r)) = int (List.length (pr_outputs r))"
proof -
  have "counted ''message.executed.outputs'' (map (\<lambda>u. Incr ''resource.used'' 1 [(''type'', ru_type u)]) us) = 0" for us
    by (intro counted_map_zero) simp
  then show ?thesis by (simp add: on_executed_def Let_def counted_outputs sum_count_keys)
qed

text \<open>Escaping maps a dot to an underscore, so tags that differ by these give one metric.\<close>

lemma metric_names_collide:
  "quote ''a.b'' = ''a.b'' \<Longrightarrow> quote ''a_b'' = ''a_b'' \<Longrightarrow>
     format_metric_tags quote key [(k, ''a.b'')] = format_metric_tags quote key [(k, ''a_b'')]"
  by (simp add: format_metric_tags_def escape_metric_def)

end
