(* ===== verification/Tester.thy ===== *)
theory Tester
  imports Cursors
begin

text \<open>
  The comparison of \<open>utils/tester/\<close>: \<open>json_utils.py\<close> finds the wildcards \<open>__any__\<close> of an expected result and
  \<open>pipeline_test.py\<close> replaces them by what was got before it compares; \<open>topic_test.py\<close> and \<open>inventory_test.py\<close> cut a
  sequence by \<open>skip\<close> and \<open>limit\<close>; \<open>runner.py\<close> compiles the tests. Values are JSON; an error is an exception of the test
  itself, not a difference. The reference is a recursive match.
\<close>

section \<open>Equality of values\<close>

lemma list_all2_fundef_cong [fundef_cong]:
  "\<lbrakk>xs = xs'; ys = ys'; \<And>x y. \<lbrakk>x \<in> set xs'; y \<in> set ys'\<rbrakk> \<Longrightarrow> P x y = P' x y\<rbrakk> \<Longrightarrow> list_all2 P xs ys = list_all2 P' xs' ys'"
  by (auto simp: list_all2_conv_all_nth)

text \<open>\<open>==\<close> of Python: the order of a dict does not count, and a bool is an int.\<close>

fun veq :: "pyval \<Rightarrow> pyval \<Rightarrow> bool" where
  "veq (PDict a) (PDict b) \<longleftrightarrow> List.length a = List.length b \<and>
     (\<forall>p \<in> set a. case dget b (fst p) of None \<Rightarrow> False | Some w \<Rightarrow> veq (snd p) w)"
| "veq (PList xs) (PList ys) \<longleftrightarrow> list_all2 veq xs ys"
| "veq (PBool b) (PInt i) \<longleftrightarrow> i = of_bool b"
| "veq (PInt i) (PBool b) \<longleftrightarrow> i = of_bool b"
| "veq v w \<longleftrightarrow> v = w"

section \<open>Paths\<close>

abbreviation wildcard :: pyval where
  "wildcard \<equiv> PStr ''__any__''"

text \<open>A value of a dict is compared with the wildcard, an element of a list is only searched.\<close>

fun find_nodes :: "pyval \<Rightarrow> string list list" where
  "find_nodes (PDict d) = concat (map (\<lambda>p. if snd p = wildcard then [[fst p]] else map (Cons (fst p)) (find_nodes (snd p))) d)"
| "find_nodes (PList xs) = concat (map (\<lambda>(i, x). map (Cons (nat_str i)) x) (enumerate 0 (map find_nodes xs)))"
| "find_nodes _ = []"

text \<open>\<open>cur_obj[int(k)]\<close> of a list, where a negative index counts from the end, \<open>cur_obj[k]\<close> of anything else.\<close>

fun step_into :: "pyval \<Rightarrow> string \<Rightarrow> pyval result" where
  "step_into (PDict d) k = (case dget d k of None \<Rightarrow> Inl (KeyError k) | Some v \<Rightarrow> Inr v)"
| "step_into (PList xs) k =
     (case parse_int k of
        None \<Rightarrow> Inl (ValueError k)
      | Some i \<Rightarrow>
          let j = (if i < 0 then i + int (List.length xs) else i)
          in if 0 \<le> j \<and> j < int (List.length xs) then Inr (xs ! nat j) else Inl (PlainException ''IndexError''))"
| "step_into _ k = Inl (TypeError k)"

text \<open>\<open>cur_obj[path[-1]]\<close>: the last key is not converted.\<close>

fun last_step :: "pyval \<Rightarrow> string \<Rightarrow> pyval result" where
  "last_step (PDict d) k = (case dget d k of None \<Rightarrow> Inl (KeyError k) | Some v \<Rightarrow> Inr v)"
| "last_step _ k = Inl (TypeError k)"

fun get_node :: "pyval \<Rightarrow> string list \<Rightarrow> pyval result" where
  "get_node v [] = Inl (PlainException ''IndexError'')"
| "get_node v [k] = last_step v k"
| "get_node v (k # ks) = rbind (step_into v k) (\<lambda>w. get_node w ks)"

fun put_at :: "pyval \<Rightarrow> string \<Rightarrow> pyval \<Rightarrow> pyval" where
  "put_at (PDict d) k w = PDict (dset k w d)"
| "put_at (PList xs) k w = (case parse_int k of Some i \<Rightarrow> PList (xs[nat i := w]) | None \<Rightarrow> PList xs)"
| "put_at v k w = v"

fun replace_node :: "pyval \<Rightarrow> string list \<Rightarrow> pyval \<Rightarrow> pyval result" where
  "replace_node v [] w = Inl (PlainException ''IndexError'')"
| "replace_node v [k] w = (case v of PDict d \<Rightarrow> Inr (PDict (dset k w d)) | _ \<Rightarrow> Inl (TypeError k))"
| "replace_node v (k # ks) w = rbind (step_into v k) (\<lambda>u. rbind (replace_node u ks w) (\<lambda>u. Inr (put_at v k u)))"

fun fill :: "string list list \<Rightarrow> pyval \<Rightarrow> pyval \<Rightarrow> pyval result" where
  "fill [] got expected = Inr expected"
| "fill (p # ps) got expected =
     rbind (get_node got p) (\<lambda>w. rbind (replace_node expected p w) (\<lambda>e. fill ps got e))"

section \<open>The tests\<close>

text \<open>The results of the items of a pipeline test, one expected result after the other.\<close>

fun fill_results :: "pyval list \<Rightarrow> pyval list \<Rightarrow> nat \<Rightarrow> pyval list result" where
  "fill_results got [] i = Inr []"
| "fill_results got (e # es) i =
     rbind (if find_nodes e = [] then Inr e
            else if i < List.length got then fill (find_nodes e) (got ! i) e
            else Inl (PlainException ''IndexError''))
       (\<lambda>e. rbind (fill_results got es (i + 1)) (\<lambda>es. Inr (e # es)))"

definition pipeline_test :: "pyval list \<Rightarrow> pyval list \<Rightarrow> bool result" where
  "pipeline_test got expected = rbind (fill_results got expected 0) (\<lambda>es. Inr (list_all2 veq es got))"

section \<open>The reference\<close>

text \<open>An expected value matches what was got: a wildcard below a key of a dict matches anything.\<close>

fun matches :: "pyval \<Rightarrow> pyval \<Rightarrow> bool" where
  "matches (PDict e) (PDict g) \<longleftrightarrow> List.length g = List.length e \<and>
     (\<forall>p \<in> set e. case dget g (fst p) of None \<Rightarrow> False | Some w \<Rightarrow> snd p = wildcard \<or> matches (snd p) w)"
| "matches (PList xs) (PList ys) \<longleftrightarrow> list_all2 matches xs ys"
| "matches (PBool b) (PInt i) \<longleftrightarrow> i = of_bool b"
| "matches (PInt i) (PBool b) \<longleftrightarrow> i = of_bool b"
| "matches v w \<longleftrightarrow> v = w"

section \<open>Filling one value\<close>

lemma fill_Cons_dict:
  assumes "\<And>p. p \<in> set ps \<Longrightarrow> p \<noteq> []"
  shows "dget d k = Some v \<Longrightarrow>
    fill (map (Cons k) ps) g (PDict d) =
      (if ps = [] then Inr (PDict d)
       else rbind (step_into g k) (\<lambda>w. rbind (fill ps w v) (\<lambda>v. Inr (PDict (dset k v d)))))"
  using assms
proof (induction ps arbitrary: d v)
  case (Cons p ps)
  then obtain x xs where p: "p = x # xs" by (cases p) auto
  show ?case
  proof (cases "step_into g k")
    case (Inr w)
    show ?thesis
    proof (cases "rbind (get_node w p) (replace_node v p)")
      case (Inl e)
      then show ?thesis using Inr Cons.prems(1)
        by (auto simp: p rbind_Inl_iff)
    next
      case r: (Inr v')
      have d': "dget (dset k v' d) k = Some v'" by simp
      have "dset k u (dset k v' d) = dset k u d" for u
        by (simp add: dset_def)
      with Cons.IH [OF d'] Cons.prems r Inr show ?thesis
        by (cases "ps = []") (auto simp: p rbind_Inr_iff)
    qed
  qed (simp add: p)
qed simp

lemma fill_append: "fill (ps @ qs) g e = rbind (fill ps g e) (fill qs g)"
proof (induction ps arbitrary: e)
  case (Cons p ps)
  then show ?case by (cases "get_node g p"; cases "rbind (get_node g p) (replace_node e p)") auto
qed simp

lemma find_nodes_nonempty: "p \<in> set (find_nodes v) \<Longrightarrow> p \<noteq> []"
  by (cases v) (auto split: if_splits)

declare parse_nat_str [simp]

lemma fill_Cons_list:
  assumes "\<And>p. p \<in> set ps \<Longrightarrow> p \<noteq> []"
  shows "i < List.length xs \<Longrightarrow>
    fill (map (Cons (nat_str i)) ps) g (PList xs) =
      (if ps = [] then Inr (PList xs)
       else rbind (step_into g (nat_str i)) (\<lambda>w. rbind (fill ps w (xs ! i)) (\<lambda>v. Inr (PList (xs[i := v])))))"
  using assms
proof (induction ps arbitrary: xs)
  case (Cons p ps)
  then obtain x ks where p: "p = x # ks" by (cases p) auto
  show ?case
  proof (cases "step_into g (nat_str i)")
    case (Inr w)
    show ?thesis
    proof (cases "rbind (get_node w p) (replace_node (xs ! i) p)")
      case (Inl e)
      then show ?thesis using Inr Cons.prems(1)
        by (auto simp: p rbind_Inl_iff)
    next
      case r: (Inr v')
      have d': "i < List.length (xs[i := v'])" using Cons.prems(1) by simp
      from Cons.IH [OF d'] Cons.prems r Inr show ?thesis
        by (cases "ps = []") (auto simp: p rbind_Inr_iff)
    qed
  qed (simp add: p)
qed simp

text \<open>What becomes of one entry of a dict and of one element of a list.\<close>

definition entry_filled :: "pyval \<Rightarrow> string \<times> pyval \<Rightarrow> pyval \<Rightarrow> bool" where
  "entry_filled g p v \<longleftrightarrow>
     (if snd p = wildcard then last_step g (fst p) = Inr v
      else if find_nodes (snd p) = [] then v = snd p
      else \<exists>w. step_into g (fst p) = Inr w \<and> fill (find_nodes (snd p)) w (snd p) = Inr v)"

definition element_filled :: "pyval \<Rightarrow> nat \<Rightarrow> pyval \<Rightarrow> pyval \<Rightarrow> bool" where
  "element_filled g i x v \<longleftrightarrow>
     (if find_nodes x = [] then v = x
      else \<exists>w. step_into g (nat_str i) = Inr w \<and> fill (find_nodes x) w x = Inr v)"

lemma dset_middle: "k \<notin> fst ` set pre \<Longrightarrow> dset k v (pre @ (k, u) # suf) = pre @ (k, v) # suf"
  by (induction pre) (auto simp: dset_def)

lemma fill_dict_aux:
  "distinct (map fst (pre @ suf)) \<Longrightarrow>
    fill (concat (map (\<lambda>p. if snd p = wildcard then [[fst p]] else map (Cons (fst p)) (find_nodes (snd p))) suf)) g
       (PDict (pre @ suf)) = Inr e \<longleftrightarrow>
    (\<exists>suf'. e = PDict (pre @ suf') \<and> list_all2 (\<lambda>p q. fst q = fst p \<and> entry_filled g p (snd q)) suf suf')"
proof (induction suf arbitrary: pre)
  case (Cons p suf)
  obtain k u where p: "p = (k, u)" by force
  let ?paths = "\<lambda>p. if snd p = wildcard then [[fst p]] else map (Cons (fst p)) (find_nodes (snd p))"
  have k1: "k \<notin> fst ` set pre" using Cons.prems by (auto simp: p)
  then have "dget pre k = None" by (simp add: dget_None_iff)
  then have k: "k \<notin> fst ` set pre" "dget (pre @ (k, u) # suf) k = Some u" using k1 by (simp_all add: map_add_def)
  have one: "fill (?paths p) g (PDict (pre @ p # suf)) = Inr e' \<longleftrightarrow>
      (\<exists>v. e' = PDict (pre @ (k, v) # suf) \<and> entry_filled g p v)" for e'
  proof (cases "u = wildcard")
    case True
    then show ?thesis by (auto simp: p entry_filled_def rbind_Inr_iff dset_middle [OF k(1)])
  next
    case False
    then show ?thesis using fill_Cons_dict [OF find_nodes_nonempty k(2), where g = g]
      by (auto simp: p entry_filled_def rbind_Inr_iff dset_middle [OF k(1)])
  qed
  have IH: "fill (concat (map ?paths suf)) g (PDict (pre @ (k, v) # suf)) = Inr e \<longleftrightarrow>
      (\<exists>suf'. e = PDict (pre @ (k, v) # suf') \<and> list_all2 (\<lambda>p q. fst q = fst p \<and> entry_filled g p (snd q)) suf suf')" for v
    using Cons.IH [of "pre @ [(k, v)]"] Cons.prems by (simp add: p)
  have "fill (concat (map ?paths (p # suf))) g (PDict (pre @ p # suf)) = Inr e \<longleftrightarrow>
      (\<exists>e'. fill (?paths p) g (PDict (pre @ p # suf)) = Inr e' \<and> fill (concat (map ?paths suf)) g e' = Inr e)"
    by (simp only: list.map concat.simps fill_append rbind_Inr_iff)
  also have "\<dots> \<longleftrightarrow> (\<exists>v. entry_filled g p v \<and> fill (concat (map ?paths suf)) g (PDict (pre @ (k, v) # suf)) = Inr e)"
    unfolding one by blast
  also have "\<dots> \<longleftrightarrow> (\<exists>suf'. e = PDict (pre @ suf') \<and>
      list_all2 (\<lambda>p q. fst q = fst p \<and> entry_filled g p (snd q)) (p # suf) suf')"
    unfolding IH by (auto simp: list_all2_Cons1 p)
  finally show ?case .
qed auto

lemma fill_list_aux:
  "fill (concat (map (\<lambda>(i, x). map (Cons (nat_str i)) x) (enumerate (List.length pre) (map find_nodes suf)))) g
       (PList (pre @ suf)) = Inr e \<longleftrightarrow>
    (\<exists>suf'. e = PList (pre @ suf') \<and> List.length suf' = List.length suf \<and>
       (\<forall>j < List.length suf. element_filled g (List.length pre + j) (suf ! j) (suf' ! j)))"
proof (induction suf arbitrary: pre)
  case (Cons x suf)
  let ?rest = "concat (map (\<lambda>(i, x). map (Cons (nat_str i)) x) (enumerate (Suc (List.length pre)) (map find_nodes suf)))"
  have one: "fill (map (Cons (nat_str (List.length pre))) (find_nodes x)) g (PList (pre @ x # suf)) = Inr e' \<longleftrightarrow>
      (\<exists>v. e' = PList (pre @ v # suf) \<and> element_filled g (List.length pre) x v)" for e'
    using fill_Cons_list [OF find_nodes_nonempty, where i = "List.length pre" and xs = "pre @ x # suf" and g = g]
    by (auto simp: element_filled_def rbind_Inr_iff)
  have IH: "fill ?rest g (PList (pre @ v # suf)) = Inr e \<longleftrightarrow>
      (\<exists>suf'. e = PList (pre @ v # suf') \<and> List.length suf' = List.length suf \<and>
         (\<forall>j < List.length suf. element_filled g (Suc (List.length pre + j)) (suf ! j) (suf' ! j)))" for v
    using Cons.IH [of "pre @ [v]"] by simp
  have "fill (concat (map (\<lambda>(i, x). map (Cons (nat_str i)) x) (enumerate (List.length pre) (map find_nodes (x # suf))))) g
      (PList (pre @ x # suf)) = Inr e \<longleftrightarrow>
      (\<exists>e'. fill (map (Cons (nat_str (List.length pre))) (find_nodes x)) g (PList (pre @ x # suf)) = Inr e' \<and>
        fill ?rest g e' = Inr e)"
    by (simp add: fill_append rbind_Inr_iff)
  also have "\<dots> \<longleftrightarrow> (\<exists>v. element_filled g (List.length pre) x v \<and> fill ?rest g (PList (pre @ v # suf)) = Inr e)"
    unfolding one by blast
  also have "\<dots> \<longleftrightarrow> (\<exists>suf'. e = PList (pre @ suf') \<and> List.length suf' = List.length (x # suf) \<and>
       (\<forall>j < List.length (x # suf). element_filled g (List.length pre + j) ((x # suf) ! j) (suf' ! j)))"
    (is "?L = ?R")
  proof
    assume ?L
    then obtain v suf' where "element_filled g (List.length pre) x v" "e = PList (pre @ v # suf')"
      "List.length suf' = List.length suf"
      "\<forall>j < List.length suf. element_filled g (Suc (List.length pre + j)) (suf ! j) (suf' ! j)"
      unfolding IH by blast
    then show ?R by (intro exI [of _ "v # suf'"]) (auto simp: less_Suc_eq_0_disj)
  next
    assume ?R
    then obtain suf' where r: "e = PList (pre @ suf')" "List.length suf' = List.length (x # suf)"
      "\<forall>j < List.length (x # suf). element_filled g (List.length pre + j) ((x # suf) ! j) (suf' ! j)" by blast
    then obtain v vs where "suf' = v # vs" by (cases suf') auto
    then have "element_filled g (List.length pre) x v" using r(3) [rule_format, of 0] by simp
    moreover have "element_filled g (Suc (List.length pre + j)) (suf ! j) (vs ! j)" if "j < List.length suf" for j
      using r(3) [rule_format, of "Suc j"] that \<open>suf' = v # vs\<close> by simp
    ultimately show ?L unfolding IH using r(1,2) \<open>suf' = v # vs\<close> by auto
  qed
  finally show ?case .
qed auto

lemma fill_dict:
  "distinct (map fst d) \<Longrightarrow> fill (find_nodes (PDict d)) g (PDict d) = Inr e \<longleftrightarrow>
    (\<exists>d'. e = PDict d' \<and> list_all2 (\<lambda>p q. fst q = fst p \<and> entry_filled g p (snd q)) d d')"
  using fill_dict_aux [of "[]" d g e] by simp

lemma fill_list:
  "fill (find_nodes (PList xs)) g (PList xs) = Inr e \<longleftrightarrow>
    (\<exists>ys. e = PList ys \<and> List.length ys = List.length xs \<and> (\<forall>j < List.length xs. element_filled g j (xs ! j) (ys ! j)))"
  using fill_list_aux [of "[]" xs g e] by simp

section \<open>Filling and matching\<close>

lemma veq_refl: "wfp v \<Longrightarrow> veq v v"
proof (induction v rule: wfp.induct)
  case (1 xs)
  then show ?case by (simp add: list_all2_same)
next
  case (2 d)
  have "case dget d (fst p) of None \<Rightarrow> False | Some w \<Rightarrow> veq (snd p) w" if p: "p \<in> set d" for p
  proof -
    have h: "dget d (fst p) = Some (snd p)" using 2(2) p by (cases p) simp
    show ?thesis unfolding h using 2 p by simp
  qed
  then show ?case by simp
qed simp_all

lemma list_all2_choice: "(\<exists>ys. list_all2 P xs ys) \<longleftrightarrow> (\<forall>x \<in> set xs. \<exists>y. P x y)"
  by (induction xs) (auto simp: list_all2_Cons1)

lemma list_all2_ball: "list_all2 (\<lambda>x y. P x y \<and> Q y) xs ys \<longleftrightarrow> list_all2 P xs ys \<and> (\<forall>y \<in> set ys. Q y)"
  by (induction xs arbitrary: ys) (auto simp: list_all2_Cons1)

definition passes :: "pyval \<Rightarrow> pyval \<Rightarrow> bool" where
  "passes e g \<longleftrightarrow> (\<exists>e'. fill (find_nodes e) g e = Inr e' \<and> veq e' g)"

lemma wfp_get: "wfp (PDict d) \<Longrightarrow> dget d k = Some v \<Longrightarrow> wfp v"
  by (force dest: map_of_SomeD)

lemma entry_passes:
  assumes g: "dget gd k = Some w" "wfp w" and IH: "u \<noteq> wildcard \<Longrightarrow> passes u w \<longleftrightarrow> matches u w"
  shows "(\<exists>v. entry_filled (PDict gd) (k, u) v \<and> veq v w) \<longleftrightarrow> u = wildcard \<or> matches u w"
proof (cases "u = wildcard")
  case True
  with g veq_refl [OF g(2)] show ?thesis by (simp add: entry_filled_def)
next
  case False
  have "(\<exists>v. entry_filled (PDict gd) (k, u) v \<and> veq v w) \<longleftrightarrow> passes u w"
    using False g by (cases "find_nodes u = []") (simp_all add: entry_filled_def passes_def)
  with False IH show ?thesis by simp
qed

lemma fill_shape:
  "fill ps g e = Inr e' \<Longrightarrow> (case e of PDict _ \<Rightarrow> (\<exists>d. e' = PDict d) | PList _ \<Rightarrow> (\<exists>xs. e' = PList xs) | _ \<Rightarrow> ps = [] \<and> e' = e)"
proof (induction ps g e rule: fill.induct)
  case (2 p ps got e)
  then obtain w u where r: "replace_node e p w = Inr u" "fill ps got u = Inr e'" by (auto simp: rbind_Inr_iff)
  obtain k ks where p: "p = k # ks" using r(1) by (cases p) auto
  have "case e of PDict _ \<Rightarrow> (\<exists>d. u = PDict d) | PList _ \<Rightarrow> (\<exists>xs. u = PList xs) | _ \<Rightarrow> False"
    using r(1) by (cases ks; cases e) (auto simp: p rbind_Inr_iff split: option.splits)
  moreover have "case u of PDict _ \<Rightarrow> (\<exists>d. e' = PDict d) | PList _ \<Rightarrow> (\<exists>xs. e' = PList xs) | _ \<Rightarrow> ps = [] \<and> e' = u"
    using 2 r by blast
  ultimately show ?case by (cases e; cases u) auto
qed (simp split: pyval.split)

lemma passes_dict_list: "passes (PDict d) g \<Longrightarrow> \<exists>gd. g = PDict gd" "passes (PList xs) g \<Longrightarrow> \<exists>ys. g = PList ys"
  unfolding passes_def by (cases g; fastforce dest: fill_shape)+

lemma passes_other:
  assumes "\<nexists>d gd. e = PDict d \<and> g = PDict gd" "\<nexists>xs ys. e = PList xs \<and> g = PList ys"
  shows "passes e g \<longleftrightarrow> matches e g"
proof (cases e)
  case (PDict d)
  then have "\<not> passes e g" using passes_dict_list(1) assms(1) by blast
  moreover have "\<not> matches e g" using PDict assms(1) by (cases g) auto
  ultimately show ?thesis by blast
next
  case (PList xs)
  then have "\<not> passes e g" using passes_dict_list(2) assms(2) by blast
  moreover have "\<not> matches e g" using PList assms(2) by (cases g) auto
  ultimately show ?thesis by blast
qed (cases g; simp add: passes_def)+

text \<open>
  Filling the wildcards and comparing is matching. The comparison of a pipeline test, which collects the paths of the
  wildcards, reads what was got at each of them, overwrites the expected result and compares, succeeds exactly when the
  expected result matches what was got; when a path is missing in what was got, it raises instead of reporting a
  difference.\<close>

lemma filling_matches:
  assumes "wfp e" "wfp g"
  shows "passes e g \<longleftrightarrow> matches e g"
  using assms
proof (induction e g rule: matches.induct)
  case (1 d gd)
  have dd: "distinct (map fst d)" using 1(2) by simp
  have entry: "(\<exists>q. fst q = fst p \<and> entry_filled (PDict gd) p (snd q) \<and>
      (case dget gd (fst q) of None \<Rightarrow> False | Some w \<Rightarrow> veq (snd q) w)) \<longleftrightarrow>
      (case dget gd (fst p) of None \<Rightarrow> False | Some w \<Rightarrow> snd p = wildcard \<or> matches (snd p) w)" if p: "p \<in> set d" for p
  proof (cases "dget gd (fst p)")
    case None
    then show ?thesis by auto
  next
    case (Some w)
    have "wfp w" by (rule wfp_get [OF 1(3) Some])
    moreover have "wfp (snd p)" using 1(2) p by simp
    ultimately have "(\<exists>v. entry_filled (PDict gd) (fst p, snd p) v \<and> veq v w) \<longleftrightarrow> snd p = wildcard \<or> matches (snd p) w"
      by (intro entry_passes [OF Some] 1(1) [OF p Some])
    with Some show ?thesis by auto
  qed
  have "passes (PDict d) (PDict gd) \<longleftrightarrow>
      (\<exists>d'. list_all2 (\<lambda>p q. fst q = fst p \<and> entry_filled (PDict gd) p (snd q)) d d' \<and> veq (PDict d') (PDict gd))"
    unfolding passes_def fill_dict [OF dd] by blast
  also have "\<dots> \<longleftrightarrow> List.length gd = List.length d \<and>
      (\<exists>d'. list_all2 (\<lambda>p q. fst q = fst p \<and> entry_filled (PDict gd) p (snd q) \<and>
         (case dget gd (fst q) of None \<Rightarrow> False | Some w \<Rightarrow> veq (snd q) w)) d d')"
  proof -
    have "list_all2 R d d' \<and> veq (PDict d') (PDict gd) \<longleftrightarrow> List.length gd = List.length d \<and> list_all2 R d d' \<and>
        (\<forall>q \<in> set d'. case dget gd (fst q) of None \<Rightarrow> False | Some w \<Rightarrow> veq (snd q) w)" for d' R
      by (auto dest: list_all2_lengthD)
    then show ?thesis unfolding conj_assoc [symmetric] list_all2_ball by blast
  qed
  also have "\<dots> \<longleftrightarrow> matches (PDict d) (PDict gd)"
    unfolding list_all2_choice using entry by auto
  finally show ?case .
next
  case (2 xs ys)
  have el: "(\<exists>v. element_filled (PList ys) j (xs ! j) v \<and> veq v (ys ! j)) \<longleftrightarrow> matches (xs ! j) (ys ! j)"
    if j: "j < List.length xs" "j < List.length ys" for j
  proof -
    have "passes (xs ! j) (ys ! j) \<longleftrightarrow> matches (xs ! j) (ys ! j)"
      using 2 j by (intro 2(1)) simp_all
    moreover have "step_into (PList ys) (nat_str j) = Inr (ys ! j)" using j by simp
    ultimately show ?thesis by (auto simp: element_filled_def passes_def)
  qed
  show ?case
  proof (cases "List.length xs = List.length ys")
    case True
    have "passes (PList xs) (PList ys) \<longleftrightarrow> (\<exists>zs. List.length zs = List.length xs \<and>
        (\<forall>j < List.length xs. element_filled (PList ys) j (xs ! j) (zs ! j)) \<and> veq (PList zs) (PList ys))"
      unfolding passes_def fill_list by blast
    also have "\<dots> \<longleftrightarrow> (\<exists>zs. List.length zs = List.length xs \<and>
        (\<forall>j < List.length xs. element_filled (PList ys) j (xs ! j) (zs ! j) \<and> veq (zs ! j) (ys ! j)))"
      by (auto simp: list_all2_conv_all_nth True)
    also have "\<dots> \<longleftrightarrow> (\<forall>j < List.length xs. \<exists>v. element_filled (PList ys) j (xs ! j) v \<and> veq v (ys ! j))"
      using Skolem_list_nth [of "List.length xs" "\<lambda>j v. element_filled (PList ys) j (xs ! j) v \<and> veq v (ys ! j)"] by auto
    also have "\<dots> \<longleftrightarrow> matches (PList xs) (PList ys)"
      using el True by (auto simp: list_all2_conv_all_nth)
    finally show ?thesis .
  next
    case False
    then have "\<not> passes (PList xs) (PList ys)" unfolding passes_def fill_list by (auto dest!: list_all2_lengthD)
    moreover have "\<not> matches (PList xs) (PList ys)" using False by (auto dest: list_all2_lengthD)
    ultimately show ?thesis by blast
  qed
qed (rule passes_other, simp, simp)+

text \<open>The results of a whole test.\<close>

lemma fill_results_spec:
  "fill_results got es i = Inr es' \<longleftrightarrow> List.length es' = List.length es \<and>
     (\<forall>j < List.length es. if find_nodes (es ! j) = [] then es' ! j = es ! j
        else i + j < List.length got \<and> fill (find_nodes (es ! j)) (got ! (i + j)) (es ! j) = Inr (es' ! j))"
proof (induction es arbitrary: i es')
  case (Cons e es)
  show ?case
  proof (cases es')
    case Nil
    then show ?thesis by (auto simp: rbind_Inr_iff)
  next
    case (Cons e' es2)
    have "fill_results got (e # es) i = Inr (e' # es2) \<longleftrightarrow>
        (if find_nodes e = [] then e' = e else i < List.length got \<and> fill (find_nodes e) (got ! i) e = Inr e') \<and>
        fill_results got es (i + 1) = Inr es2"
      by (auto simp: rbind_Inr_iff)
    also have "\<dots> \<longleftrightarrow> (if find_nodes e = [] then e' = e else i < List.length got \<and> fill (find_nodes e) (got ! i) e = Inr e') \<and>
        List.length es2 = List.length es \<and> (\<forall>j < List.length es. if find_nodes (es ! j) = [] then es2 ! j = es ! j
        else i + 1 + j < List.length got \<and> fill (find_nodes (es ! j)) (got ! (i + 1 + j)) (es ! j) = Inr (es2 ! j))"
      unfolding Cons.IH ..
    finally show ?thesis by (simp add: Cons All_less_Suc2 conj_left_commute)
  qed
qed auto

theorem pipeline_test_matches:
  assumes "\<And>v. v \<in> set expected \<union> set got \<Longrightarrow> wfp v"
  shows "pipeline_test got expected = Inr True \<longleftrightarrow> list_all2 matches expected got"
proof -
  have m: "(\<exists>e'. fill (find_nodes e) g e = Inr e' \<and> veq e' g) \<longleftrightarrow> matches e g" if "e \<in> set expected" "g \<in> set got" for e g
    using filling_matches [of e g] assms that by (simp add: passes_def)
  show ?thesis
  proof (cases "List.length expected = List.length got")
    case True
    have "pipeline_test got expected = Inr True \<longleftrightarrow> (\<exists>es. fill_results got expected 0 = Inr es \<and> list_all2 veq es got)"
      by (auto simp: pipeline_test_def rbind_Inr_iff)
    also have "\<dots> \<longleftrightarrow> (\<exists>es. List.length es = List.length expected \<and> (\<forall>j < List.length expected.
        fill (find_nodes (expected ! j)) (got ! j) (expected ! j) = Inr (es ! j) \<and> veq (es ! j) (got ! j)))"
      unfolding fill_results_spec by (rule arg_cong [where f = Ex], rule ext) (auto simp: list_all2_conv_all_nth True)
    also have "\<dots> \<longleftrightarrow> (\<forall>j < List.length expected.
        \<exists>v. fill (find_nodes (expected ! j)) (got ! j) (expected ! j) = Inr v \<and> veq v (got ! j))"
      using Skolem_list_nth [of "List.length expected"
        "\<lambda>j v. fill (find_nodes (expected ! j)) (got ! j) (expected ! j) = Inr v \<and> veq v (got ! j)"] by auto
    also have "\<dots> \<longleftrightarrow> list_all2 matches expected got"
      using m True by (auto simp: list_all2_conv_all_nth)
    finally show ?thesis .
  next
    case False
    then have "pipeline_test got expected \<noteq> Inr True"
      unfolding pipeline_test_def by (auto simp: rbind_Inr_iff fill_results_spec dest!: list_all2_lengthD)
    with False show ?thesis by (auto dest!: list_all2_lengthD)
  qed
qed

text \<open>A wildcard in a list is compared as a text, and a result that lacks a key under a wildcard raises.\<close>

lemma list_wildcard_is_literal:
  "pipeline_test [PDict [(''a'', PList [PInt 1])]] [PDict [(''a'', PList [wildcard])]] = Inr False"
  by (simp add: pipeline_test_def)

lemma missing_key_raises:
  "pipeline_test [PDict []] [PDict [(''a'', wildcard)]] = Inl (KeyError ''a'')"
  by (simp add: pipeline_test_def)

section \<open>Topics and inventories\<close>

text \<open>The loop of \<open>run_datalineup_topic\<close>; a limit of 0 is none. An inventory has no \<open>skip\<close>.\<close>

fun take_messages :: "nat option \<Rightarrow> nat option \<Rightarrow> nat \<Rightarrow> nat \<Rightarrow> 'm list \<Rightarrow> 'm list" where
  "take_messages limit skip skipped count [] = []"
| "take_messages limit skip skipped count (m # ms) =
     (if (case skip of None \<Rightarrow> False | Some n \<Rightarrow> skipped < n) then take_messages limit skip (skipped + 1) count ms
      else m # (if (case limit of None \<Rightarrow> False | Some n \<Rightarrow> n \<noteq> 0 \<and> n \<le> count + 1) then []
                else take_messages limit skip skipped (count + 1) ms))"

lemma take_messages_no_skip:
  "count < n \<Longrightarrow> (case skip of None \<Rightarrow> True | Some k \<Rightarrow> k \<le> skipped) \<Longrightarrow>
     take_messages (Some n) skip skipped count ms = take (n - count) ms"
proof (induction ms arbitrary: count)
  case (Cons m ms)
  then have "n - count = Suc (n - (count + 1))" by simp
  with Cons show ?case by (auto split: option.splits)
qed simp

lemma take_messages_unlimited:
  "(case limit of None \<Rightarrow> True | Some n \<Rightarrow> n = 0) \<Longrightarrow> (case skip of None \<Rightarrow> True | Some k \<Rightarrow> k \<le> skipped) \<Longrightarrow>
     take_messages limit skip skipped count ms = ms"
  by (induction ms arbitrary: count) (auto split: option.splits)

lemma take_messages_skip:
  "skipped \<le> k \<Longrightarrow> take_messages limit (Some k) skipped count ms = take_messages limit (Some k) k count (drop (k - skipped) ms)"
proof (induction ms arbitrary: skipped)
  case (Cons m ms)
  show ?case
  proof (cases "skipped < k")
    case True
    then have "k - skipped = Suc (k - (skipped + 1))" by simp
    with True Cons.IH [of "skipped + 1"] show ?thesis by simp
  qed (use Cons.prems in simp)
qed simp

lemma run_topic_spec:
  "0 < n \<Longrightarrow> take_messages (Some n) (Some k) 0 0 ms = take n (drop k ms)"
  using take_messages_skip [where skipped = 0 and k = k and limit = "Some n" and count = 0 and ms = ms] take_messages_no_skip [where count = 0 and n = n and skip = "Some k" and skipped = k and ms = "drop k ms"] by simp

section \<open>Compiling the tests\<close>

text \<open>The objects by kind and name; \<open>convert\<close> is \<open>fromdict\<close> on the data of one object. The kinds are taken in a fixed order
  and what is left is refused.\<close>

record tests =
  ts_pipeline :: "(string, pyval) pydict"
  ts_inventory :: "(string, pyval) pydict"
  ts_topic :: "(string, pyval) pydict"

fun objects_by_kind ::
  "(string \<times> string \<times> pyval) list \<Rightarrow> (string, (string, pyval) pydict) pydict \<Rightarrow> (string, (string, pyval) pydict) pydict result" where
  "objects_by_kind [] d = Inr d"
| "objects_by_kind ((kind, name, data) # xs) d =
     (if dhas name (dget_or d kind []) then Inl (PlainException (kind @ ''/'' @ name @ '' already exists''))
      else objects_by_kind xs (dset kind (dset name data (dget_or d kind [])) d))"

definition compile_kind ::
  "(string \<Rightarrow> pyval \<Rightarrow> (string \<times> pyval) result) \<Rightarrow> string \<Rightarrow> (string, (string, pyval) pydict) pydict \<Rightarrow> (string, pyval) pydict result" where
  "compile_kind convert kind d =
     rbind (mapM (\<lambda>(name, data). convert kind data) (dget_or d kind [])) (\<lambda>ts. Inr (dor [] ts))"

definition compile_tests ::
  "(string \<Rightarrow> pyval \<Rightarrow> (string \<times> pyval) result) \<Rightarrow> (string \<times> string \<times> pyval) list \<Rightarrow> tests result" where
  "compile_tests convert xs =
     rbind (objects_by_kind xs []) (\<lambda>d.
     rbind (compile_kind convert ''DatalineupPipelineTest'' d) (\<lambda>ps.
     rbind (compile_kind convert ''DatalineupInventoryTest'' d) (\<lambda>is.
     rbind (compile_kind convert ''DatalineupTopicTest'' d) (\<lambda>ts.
       case filter (\<lambda>k. k \<notin> {''DatalineupPipelineTest'', ''DatalineupInventoryTest'', ''DatalineupTopicTest''}) (dkeys d) of
         [] \<Rightarrow> Inr \<lparr>ts_pipeline = ps, ts_inventory = is, ts_topic = ts\<rparr>
       | k # _ \<Rightarrow> Inl (PlainException (''Unsupported kind '' @ k))))))"

lemma objects_by_kind_kinds:
  "objects_by_kind xs d = Inr d' \<Longrightarrow> set (dkeys d') = set (dkeys d) \<union> fst ` set xs"
  by (induction xs d rule: objects_by_kind.induct) (auto simp: set_dkeys_dset split: if_splits)

lemma compile_tests_kinds:
  assumes "compile_tests convert xs = Inr t"
  shows "fst ` set xs \<subseteq> {''DatalineupPipelineTest'', ''DatalineupInventoryTest'', ''DatalineupTopicTest''}" (is "_ \<subseteq> ?K")
proof -
  obtain d where d: "objects_by_kind xs [] = Inr d" using assms by (auto simp: compile_tests_def rbind_Inr_iff)
  have "filter (\<lambda>k. k \<notin> ?K) (dkeys d) = []"
  proof (cases "filter (\<lambda>k. k \<notin> ?K) (dkeys d)")
    case (Cons k ks)
    with assms d show ?thesis unfolding compile_tests_def by (simp only: rbind.simps list.case) (auto simp: rbind_Inr_iff)
  qed simp
  then have "set (dkeys d) \<subseteq> ?K" unfolding filter_empty_conv by blast
  then show ?thesis using objects_by_kind_kinds [OF d] by simp
qed

section \<open>Running a pipeline test\<close>

text \<open>One result per item of the test: what the pipeline gave, or the results that a handled error carries; any other error
  ends the test.\<close>

datatype run_end = Ran pipeline_results | Ran_handled pipeline_results | Raised exn

definition result_dict :: "pipeline_results \<Rightarrow> pyval" where
  "result_dict r =
     PDict [(''outputs'', PList (map (\<lambda>out. PDict [(''channel'', PStr (po_channel out)), (''args'', PDict (tm_args (po_message out)))])
               (pr_outputs r))),
            (''resources'', PList (map (\<lambda>u. PDict [(''type'', PStr (ru_type u))]) (pr_resources r)))]"

definition test_results :: "((string, pyval) pydict \<Rightarrow> run_end) \<Rightarrow> (string, pyval) pydict list \<Rightarrow> pyval list result" where
  "test_results run items =
     mapM (\<lambda>args. case run args of Ran r \<Rightarrow> Inr (result_dict r) | Ran_handled r \<Rightarrow> Inr (result_dict r) | Raised e \<Rightarrow> Inl e) items"

definition run_pipeline_test ::
  "((string, pyval) pydict \<Rightarrow> run_end) \<Rightarrow> (string, pyval) pydict list \<Rightarrow> pyval list \<Rightarrow> bool result" where
  "run_pipeline_test run items expected = rbind (test_results run items) (\<lambda>got. pipeline_test got expected)"

lemma wfp_result_dict:
  "(\<And>out. out \<in> set (pr_outputs r) \<Longrightarrow> wfp (PDict (tm_args (po_message out)))) \<Longrightarrow> wfp (result_dict r)"
  by (auto simp: result_dict_def)

text \<open>A test with the results \<open>rs\<close> passes exactly when each expected result matches.\<close>

lemma run_pipeline_test_matches:
  assumes "map run items = map Ran rs" "\<And>v. v \<in> set expected \<Longrightarrow> wfp v"
    "\<And>r out. r \<in> set rs \<Longrightarrow> out \<in> set (pr_outputs r) \<Longrightarrow> wfp (PDict (tm_args (po_message out)))"
  shows "run_pipeline_test run items expected = Inr True \<longleftrightarrow> list_all2 matches expected (map result_dict rs)"
proof -
  have "test_results run items = Inr (map result_dict rs)"
    using assms(1)
  proof (induction items arbitrary: rs)
    case (Cons i items)
    then show ?case by (cases rs) (auto simp: test_results_def)
  qed (simp add: test_results_def)
  moreover have "wfp v" if "v \<in> set expected \<union> set (map result_dict rs)" for v
    using that assms(2,3) wfp_result_dict by auto
  ultimately show ?thesis using pipeline_test_matches [of expected "map result_dict rs"] by (simp add: run_pipeline_test_def)
qed

end
