(* ===== verification/Provider_Polls.thy ===== *)
theory Provider_Polls
  imports Resources
begin

text \<open>
  The life of a resources provider (\<open>worker/resources/provider.py\<close>) over time: a static provider adds what its options
  list when it is opened, a \<open>PeriodicSyncProvider\<close> polls its source for ever. The update of one poll is in Resources.
\<close>

definition static_open ::
  "string set \<Rightarrow> string \<Rightarrow> provided_resource list \<Rightarrow> string set \<times> resources_manager \<Rightarrow> exn option \<times> string set \<times> resources_manager" where
  "static_open st ty listed s = provider_add_all st ty listed s"

text \<open>One turn of \<open>poller\<close>: what \<open>sync\<close> returned or raised; an error of the sync or of the update is logged.\<close>

definition poll ::
  "string set \<Rightarrow> string \<Rightarrow> provided_resource list result \<Rightarrow> string set \<times> resources_manager \<Rightarrow> string set \<times> resources_manager" where
  "poll st ty source s = (case source of Inl e \<Rightarrow> s | Inr xs \<Rightarrow> snd (provider_update st ty xs s))"

definition polls ::
  "string set \<Rightarrow> string \<Rightarrow> provided_resource list result list \<Rightarrow> string set \<times> resources_manager \<Rightarrow> string set \<times> resources_manager" where
  "polls st ty sources s = fold (poll st ty) sources s"

text \<open>A poll whose update, if there is one, does not fail.\<close>

definition calm_poll :: "string set \<Rightarrow> string \<Rightarrow> string set \<times> resources_manager \<Rightarrow> provided_resource list result \<Rightarrow> bool" where
  "calm_poll st ty s source = (case source of Inl e \<Rightarrow> True | Inr xs \<Rightarrow> fst (provider_update st ty xs s) = None)"

fun calm_polls :: "string set \<Rightarrow> string \<Rightarrow> string set \<times> resources_manager \<Rightarrow> provided_resource list result list \<Rightarrow> bool" where
  "calm_polls st ty s [] = True"
| "calm_polls st ty s (x # xs) = (calm_poll st ty s x \<and> calm_polls st ty (poll st ty x s) xs)"

text \<open>The last answer of the source.\<close>

definition last_answer :: "provided_resource list result list \<Rightarrow> provided_resource list option" where
  "last_answer sources = (case filter (\<lambda>r. \<not> isl r) sources of [] \<Rightarrow> None | rs \<Rightarrow> Some (projr (last rs)))"

lemma last_answer_Cons:
  "last_answer (x # xs) = (case last_answer xs of Some a \<Rightarrow> Some a | None \<Rightarrow> (case x of Inl _ \<Rightarrow> None | Inr a \<Rightarrow> Some a))"
  by (cases x) (auto simp: last_answer_def split: list.split)

lemma update_names:
  assumes "provider_update st ty xs s = (None, s')" "finite (fst s)" "fst s \<subseteq> pool_names ty (snd s)"
  shows "fst s' = set (map pr_name xs)" "pool_names ty (snd s') = (pool_names ty (snd s) - fst s) \<union> set (map pr_name xs)"
proof -
  obtain s1 where s1: "provider_add_all st ty xs s = (None, s1)"
    and s': "s' = fold (provider_remove ty) (sorted_list_of_set (fst s1 - set (map pr_name xs))) s1"
    using assms(1) by (auto simp: provider_update_def split: prod.splits option.splits)
  note a = provider_add_all_names [OF s1 assms(3)]
  have f: "finite (fst s1)" using a assms(2) by simp
  show "fst s' = set (map pr_name xs)" "pool_names ty (snd s') = (pool_names ty (snd s) - fst s) \<union> set (map pr_name xs)"
    using f provider_removes_names [of ty "sorted_list_of_set (fst s1 - set (map pr_name xs))" s1] a assms(3)
    unfolding s' by auto
qed



section \<open>What a poll does not see\<close>

text \<open>A resource that the provider manages is not added again: new data of it, credentials for instance, are not used.\<close>

lemma changed_data_is_not_seen:
  assumes "pr_name x \<in> fst s" "fst s = {pr_name x}"
  shows "poll st ty (Inr [x]) s = s"
  using assms by (simp add: poll_def provider_update_def provider_add_def)

text \<open>A name is managed before the manager has accepted its resource: one that was refused, as the name
  belonged to another, is not tried again when the name is free.\<close>

lemma refused_is_not_retried:
  "let s = poll {} ''T'' (Inr [demo_provided ''a'']) ({}, owned_elsewhere) in
     fst s = {''a''} \<and> poll {} ''T'' (Inr [demo_provided ''a'']) (fst s, empty_manager) = (fst s, empty_manager) \<and>
     pool_names ''T'' empty_manager = {}"
  by (simp add: poll_def provider_update_def provider_add_def manager_add_def pool_add_def demo_provided_def provided_data_def
      empty_manager_def empty_pool_def owned_elsewhere_def demo_rd_def pool_names_def)

end
