(* ===== verification/Acquire_Many.thy ===== *)
theory Acquire_Many
  imports Exec_Queue
begin

text \<open>
  \<open>ResourcesManager.acquire_many\<close> on the pools (\<open>worker/resources/manager.py\<close>), as \<open>submit\<close> calls it, without waiting: the
  contexts are entered one by one on an exit stack, and an error leaves those entered so far in the reverse order.
  Resources waits for types in the abstract; here the pools, the delays and the rate limits are those of the code.

  Arguments: \<open>objs\<close> are the objects by identity, \<open>pick\<close> is the element \<open>set.pop\<close> takes, and \<open>stats\<close> is what the limiter
  answers when a resource is entered.
\<close>

section \<open>Lending\<close>

record lending =
  ld_manager :: resources_manager
  ld_delayed :: "(string \<times> nat \<times> time) list" \<comment> \<open>the \<open>delayed-release\<close> tasks\<close>

definition set_pool :: "string \<Rightarrow> exclusive_resources \<Rightarrow> lending \<Rightarrow> lending" where
  "set_pool ty e s = s\<lparr>ld_manager := (ld_manager s)\<lparr>rm_pools := (rm_pools (ld_manager s))(ty := e)\<rparr>\<rparr>"

abbreviation pool_of :: "lending \<Rightarrow> string \<Rightarrow> exclusive_resources" where
  "pool_of s \<equiv> rm_pools (ld_manager s)"

definition manager_acquire :: "(nat set \<Rightarrow> nat) \<Rightarrow> string \<Rightarrow> lending \<Rightarrow> nat result \<times> lending" where
  "manager_acquire pick ty s = (case acquire_nowait pick (pool_of s ty) of (r, e) \<Rightarrow> (r, set_pool ty e s))"

definition manager_release :: "string \<Rightarrow> nat \<Rightarrow> lending \<Rightarrow> lending" where
  "manager_release ty i s = (case pool_release i (pool_of s ty) of Inl _ \<Rightarrow> s | Inr e \<Rightarrow> set_pool ty e s)"

definition context_limited :: "(nat \<Rightarrow> resource_data) \<Rightarrow> string \<Rightarrow> nat \<Rightarrow> lending \<Rightarrow> bool" where
  "context_limited objs ty i s \<longleftrightarrow> rd_name (objs i) \<in> er_limiters (pool_of s ty) \<and> rd_rate_limit (objs i) \<noteq> None"

text \<open>\<open>release\<close> of a context: at once, or by a task that sleeps.\<close>

definition leave_context :: "time \<Rightarrow> string \<times> resource_context \<Rightarrow> lending \<Rightarrow> lending" where
  "leave_context now tc s =
     (case fst (context_release now (snd tc)) of
        None \<Rightarrow> s
      | Some (i, at) \<Rightarrow>
          if time_truthy (rc_release_at (snd tc)) then s\<lparr>ld_delayed := ld_delayed s @ [(fst tc, i, at)]\<rparr>
          else manager_release (fst tc) i s)"

definition unwind :: "time \<Rightarrow> (string \<times> resource_context) list \<Rightarrow> lending \<Rightarrow> lending" where
  "unwind now stack s = fold (leave_context now) (rev stack) s"

fun acquire_types ::
  "(nat set \<Rightarrow> nat) \<Rightarrow> time \<Rightarrow> (nat \<Rightarrow> resource_data) \<Rightarrow> (nat \<Rightarrow> (time \<times> int) list) \<Rightarrow> string list \<Rightarrow>
     (string \<times> resource_context) list \<Rightarrow> lending \<Rightarrow> (string \<times> resource_context) list result \<times> lending" where
  "acquire_types pick now objs stats [] stack s = (Inr stack, s)"
| "acquire_types pick now objs stats (ty # tys) stack s =
     (case manager_acquire pick ty s of
        (Inl e, s') \<Rightarrow> (Inl e, unwind now stack s')
      | (Inr i, s') \<Rightarrow>
          (case enter_context now (objs i) (context_limited objs ty i s') (stats i) (new_context i) of
             Inl e \<Rightarrow> (Inl e, unwind now stack s')
           | Inr c \<Rightarrow> acquire_types pick now objs stats tys (stack @ [(ty, c)]) s'))"

text \<open>A set of types, in sorted order; the result is the dict of the contexts and the stack that owns them.\<close>

definition try_acquire_many ::
  "(nat set \<Rightarrow> nat) \<Rightarrow> time \<Rightarrow> (nat \<Rightarrow> resource_data) \<Rightarrow> (nat \<Rightarrow> (time \<times> int) list) \<Rightarrow> string set \<Rightarrow>
     lending \<Rightarrow> (string \<times> resource_context) list result \<times> lending" where
  "try_acquire_many pick now objs stats types s = acquire_types pick now objs stats (sorted_list_of_set types) [] s"

text \<open>The end of the sleep of a \<open>delayed-release\<close> task.\<close>

definition delayed_release :: "string \<times> nat \<times> time \<Rightarrow> lending \<Rightarrow> lending" where
  "delayed_release x s = (case x of (ty, i, at) \<Rightarrow> manager_release ty i (s\<lparr>ld_delayed := remove1 x (ld_delayed s)\<rparr>))"

definition sleeps_end :: "lending \<Rightarrow> lending" where
  "sleeps_end s = fold delayed_release (ld_delayed s) s"

section \<open>What is out\<close>

text \<open>\<open>lent s0 S s\<close>: \<open>s\<close> is \<open>s0\<close> with the resources \<open>S\<close>, given by their type and identity, moved to the used ones.\<close>

definition lent :: "lending \<Rightarrow> (string \<times> nat) set \<Rightarrow> lending \<Rightarrow> bool" where
  "lent s0 S s \<longleftrightarrow>
     (\<forall>ty. er_availables (pool_of s ty) = er_availables (pool_of s0 ty) - {i. (ty, i) \<in> S} \<and>
           er_used (pool_of s ty) = er_used (pool_of s0 ty) \<union> {i. (ty, i) \<in> S} \<and>
           er_resources (pool_of s ty) = er_resources (pool_of s0 ty) \<and>
           er_limiters (pool_of s ty) = er_limiters (pool_of s0 ty)) \<and>
     rm_next (ld_manager s) = rm_next (ld_manager s0) \<and>
     (\<forall>ty i. (ty, i) \<in> S \<longrightarrow> i \<in> er_availables (pool_of s0 ty))"

definition pools_apart :: "lending \<Rightarrow> bool" where
  "pools_apart s \<longleftrightarrow> (\<forall>ty. er_availables (pool_of s ty) \<inter> er_used (pool_of s ty) = {})"

abbreviation loan :: "string \<times> resource_context \<Rightarrow> string \<times> nat" where
  "loan tc \<equiv> (fst tc, the (rc_resource (snd tc)))"

lemma lent_refl: "lent s {} s"
  by (simp add: lent_def)

lemma lent_nothing: "lent s0 {} s \<Longrightarrow> ld_manager s = ld_manager s0"
  by (rule resources_manager.equality) (auto simp: lent_def intro!: ext exclusive_resources.equality)

lemma lent_acquire:
  assumes "lent s0 S s" "manager_acquire pick ty s = (r, s')" and pick: "\<And>A. A \<noteq> {} \<Longrightarrow> pick A \<in> A"
  shows "case r of
      Inl e \<Rightarrow> e = ResourceUnavailable \<and> er_availables (pool_of s ty) = {} \<and> lent s0 S s'
    | Inr i \<Rightarrow> (ty, i) \<notin> S \<and> i \<in> er_availables (pool_of s0 ty) \<and> lent s0 (insert (ty, i) S) s'"
proof (cases "er_availables (pool_of s ty) = {}")
  case True
  with assms show ?thesis
    by (auto simp: manager_acquire_def acquire_nowait_def try_acquire_def set_pool_def lent_def)
next
  case False
  define i where "i = pick (er_availables (pool_of s ty))"
  have "i \<in> er_availables (pool_of s ty)" using pick [OF False] by (simp add: i_def)
  then have i: "(ty, i) \<notin> S" "i \<in> er_availables (pool_of s0 ty)" using assms(1) by (simp_all add: lent_def)
  have r: "r = Inr i" "s' = set_pool ty ((pool_of s ty)\<lparr>er_availables := er_availables (pool_of s ty) - {i},
      er_used := insert i (er_used (pool_of s ty))\<rparr>) s"
    using assms(2) False by (simp_all add: manager_acquire_def acquire_nowait_def try_acquire_def Let_def i_def)
  have "lent s0 (insert (ty, i) S) s'" using assms(1) i
    unfolding lent_def r(2) set_pool_def by auto
  with i r show ?thesis by simp
qed

lemma acquire_keeps_delayed: "ld_delayed (snd (manager_acquire pick ty s)) = ld_delayed s"
  by (simp add: manager_acquire_def set_pool_def split: prod.splits)

lemma lent_release:
  assumes "lent s0 S s" "(ty, i) \<in> S" "pools_apart s0"
  shows "lent s0 (S - {(ty, i)}) (manager_release ty i s) \<and> ld_delayed (manager_release ty i s) = ld_delayed s"
proof -
  have i: "i \<in> er_used (pool_of s ty)" "i \<in> er_availables (pool_of s0 ty)" "i \<notin> er_used (pool_of s0 ty)"
    using assms by (auto simp: lent_def pools_apart_def disjoint_iff)
  have r: "manager_release ty i s = set_pool ty ((pool_of s ty)\<lparr>er_used := er_used (pool_of s ty) - {i},
      er_availables := insert i (er_availables (pool_of s ty))\<rparr>) s"
    using i(1) by (simp add: manager_release_def pool_release_def release_locked_def)
  show ?thesis using assms(1) i unfolding lent_def r set_pool_def by auto
qed

section \<open>Leaving the contexts\<close>

abbreviation waits :: "string \<times> resource_context \<Rightarrow> bool" where
  "waits tc \<equiv> time_truthy (rc_release_at (snd tc))"

definition release_task :: "time \<Rightarrow> string \<times> resource_context \<Rightarrow> string \<times> nat \<times> time" where
  "release_task now tc = (fst tc, the (rc_resource (snd tc)), max now (the (rc_release_at (snd tc))))"

text \<open>The contexts of a stack hold one resource each, none of them twice.\<close>

definition good_stack :: "(string \<times> resource_context) list \<Rightarrow> bool" where
  "good_stack cs \<longleftrightarrow> distinct (map loan cs) \<and> list_all (\<lambda>tc. rc_resource (snd tc) \<noteq> None) cs"

lemma leave_context_cases:
  assumes "rc_resource (snd tc) \<noteq> None"
  shows "leave_context now tc s =
    (if waits tc then s\<lparr>ld_delayed := ld_delayed s @ [release_task now tc]\<rparr>
     else manager_release (fst tc) (the (rc_resource (snd tc))) s)"
  using assms by (auto simp: leave_context_def context_release_def release_task_def)

lemma unwind_snoc: "unwind now (cs @ [tc]) s = unwind now cs (leave_context now tc s)"
  by (simp add: unwind_def)

lemma unwind_lent:
  assumes "lent s0 (set (map loan cs) \<union> D) s" "good_stack cs" "D \<inter> set (map loan cs) = {}" "pools_apart s0"
  shows "lent s0 (set (map loan (filter waits cs)) \<union> D) (unwind now cs s) \<and>
    ld_delayed (unwind now cs s) = ld_delayed s @ map (release_task now) (rev (filter waits cs))"
  using assms
proof (induction cs arbitrary: s D rule: rev_induct)
  case (snoc tc cs)
  have g: "good_stack cs" "rc_resource (snd tc) \<noteq> None" "loan tc \<notin> set (map loan cs)" "loan tc \<notin> D"
    using snoc.prems(2,3) by (auto simp: good_stack_def)
  show ?case
  proof (cases "waits tc")
    case True
    let ?s = "s\<lparr>ld_delayed := ld_delayed s @ [release_task now tc]\<rparr>"
    have "lent s0 (set (map loan cs) \<union> insert (loan tc) D) ?s" using snoc.prems(1) by (simp add: lent_def)
    from snoc.IH [OF this g(1) _ snoc.prems(4)] g snoc.prems(3) True show ?thesis
      by (auto simp: unwind_snoc leave_context_cases)
  next
    case False
    have "set (map loan (cs @ [tc])) \<union> D - {loan tc} = set (map loan cs) \<union> D" using g by auto
    with lent_release [OF snoc.prems(1) _ snoc.prems(4), of "fst tc" "the (rc_resource (snd tc))"]
    have "lent s0 (set (map loan cs) \<union> D) (leave_context now tc s) \<and> ld_delayed (leave_context now tc s) = ld_delayed s"
      using False g(2) by (simp add: leave_context_cases)
    with snoc.IH [OF _ g(1) _ snoc.prems(4), of D] snoc.prems(3) False show ?thesis
      by (auto simp: unwind_snoc)
  qed
qed (simp add: unwind_def)

lemma enter_fresh:
  "\<exists>c. enter_context now r lim sts (new_context i) = Inr c \<and> rc_resource c = Some i"
  by (auto simp: enter_context_def new_context_def apply_rate_limit_def Let_def)

text \<open>The outcome of the loop, with the resources that the stack holds already.\<close>

lemma acquire_types_outcome:
  assumes "lent s0 (set (map loan cs)) s" "good_stack cs" "pools_apart s0" "distinct tys" "set tys \<inter> fst ` set cs = {}"
    and pick: "\<And>A. A \<noteq> {} \<Longrightarrow> pick A \<in> A"
    and run: "acquire_types pick now objs stats tys cs s = (r, s')"
  shows "(case r of
      Inr cs' \<Rightarrow> map fst cs' = map fst cs @ tys \<and> good_stack cs' \<and> lent s0 (set (map loan cs')) s' \<and>
        ld_delayed s' = ld_delayed s \<and> (\<forall>ty \<in> set tys. er_availables (pool_of s0 ty) \<noteq> {})
    | Inl e \<Rightarrow> e = ResourceUnavailable \<and> (\<exists>ty \<in> set tys. er_availables (pool_of s0 ty) = {}) \<and>
        (\<exists>taken. good_stack taken \<and> fst ` set taken \<subseteq> fst ` set cs \<union> set tys \<and> lent s0 (set (map loan (filter waits taken))) s' \<and>
           ld_delayed s' = ld_delayed s @ map (release_task now) (rev (filter waits taken))))"
  using assms(1,2,4,5) run
proof (induction tys arbitrary: cs s)
  case (Cons ty tys)
  obtain a t where a: "manager_acquire pick ty s = (a, t)" by (cases "manager_acquire pick ty s")
  note out = lent_acquire [OF Cons.prems(1) a pick]
  have del: "ld_delayed t = ld_delayed s" using acquire_keeps_delayed [of pick ty s] a by simp
  have "{i. (ty, i) \<in> set (map loan cs)} = {}" using Cons.prems(4) by force
  then have av: "er_availables (pool_of s ty) = er_availables (pool_of s0 ty)" using Cons.prems(1) by (simp add: lent_def)
  show ?case
  proof (cases a)
    case (Inl e)
    then have "lent s0 (set (map loan cs) \<union> {}) t" "e = ResourceUnavailable" "er_availables (pool_of s0 ty) = {}"
      using out av by simp_all
    with unwind_lent [OF this(1) Cons.prems(2) _ assms(3), of now] Cons.prems(2,5) del
    show ?thesis by (auto simp: a Inl intro!: exI [of _ cs])
  next
    case (Inr i)
    obtain c where c: "enter_context now (objs i) (context_limited objs ty i t) (stats i) (new_context i) = Inr c"
      "rc_resource c = Some i" using enter_fresh by blast
    have l: "(ty, i) \<notin> set (map loan cs)" "er_availables (pool_of s0 ty) \<noteq> {}" "lent s0 (insert (ty, i) (set (map loan cs))) t"
      using out Inr by auto
    have g: "good_stack (cs @ [(ty, c)])" using Cons.prems(2) l(1) c(2) by (simp add: good_stack_def)
    have "lent s0 (set (map loan (cs @ [(ty, c)]))) t" using l(3) c(2) by simp
    from Cons.IH [OF this g] Cons.prems(3-5) del l(2) show ?thesis
      by (auto simp: a Inr c split: sum.splits)
  qed
qed auto

text \<open>
  Without waiting, all types are lent or none. When every type of the message has an available resource, the message gets one of
  each; otherwise it gets \<open>ResourceUnavailable\<close>, and every resource that was taken on the way is given back, or will be by one of
  the new delayed tasks.
\<close>

theorem try_acquire_many_all_or_nothing:
  assumes "finite types" "pools_apart s" "\<And>A. A \<noteq> {} \<Longrightarrow> pick A \<in> A"
  shows "case try_acquire_many pick now objs stats types s of
      (Inr cs, s') \<Rightarrow> (\<forall>ty \<in> types. er_availables (pool_of s ty) \<noteq> {}) \<and> map fst cs = sorted_list_of_set types \<and>
        good_stack cs \<and> lent s (set (map loan cs)) s' \<and> ld_delayed s' = ld_delayed s
    | (Inl e, s') \<Rightarrow> e = ResourceUnavailable \<and> (\<exists>ty \<in> types. er_availables (pool_of s ty) = {}) \<and>
        (\<exists>D. ld_delayed s' = ld_delayed s @ D \<and> fst ` set D \<subseteq> types \<and> lent s {(ty, i). \<exists>at. (ty, i, at) \<in> set D} s')"
proof -
  obtain r s' where run: "acquire_types pick now objs stats (sorted_list_of_set types) [] s = (r, s')" by fastforce
  have "lent s (set (map loan [])) s" "good_stack []" "distinct (sorted_list_of_set types)"
    "set (sorted_list_of_set types) \<inter> fst ` set ([] :: (string \<times> resource_context) list) = {}"
    by (simp_all add: lent_refl good_stack_def)
  note o = acquire_types_outcome [OF this(1,2) assms(2) this(3,4) assms(3) run]
  show ?thesis
  proof (cases r)
    case (Inr cs)
    with o assms(1) run show ?thesis by (simp add: try_acquire_many_def)
  next
    case (Inl e)
    with o obtain taken where t: "fst ` set taken \<subseteq> types" "lent s (set (map loan (filter waits taken))) s'"
      "ld_delayed s' = ld_delayed s @ map (release_task now) (rev (filter waits taken))" using assms(1) by auto
    have "{(ty, i). \<exists>at. (ty, i, at) \<in> set (map (release_task now) (rev (filter waits taken)))} = set (map loan (filter waits taken))"
      by (auto simp: release_task_def image_iff)
    with t have "ld_delayed s' = ld_delayed s @ map (release_task now) (rev (filter waits taken)) \<and>
        fst ` set (map (release_task now) (rev (filter waits taken))) \<subseteq> types \<and>
        lent s {(ty, i). \<exists>at. (ty, i, at) \<in> set (map (release_task now) (rev (filter waits taken)))} s'"
      by (auto simp: release_task_def)
    with o Inl assms(1) run show ?thesis by (auto simp: try_acquire_many_def)
  qed
qed

section \<open>A failed attempt\<close>

text \<open>When no resource has a delay or a rate limit, a failed attempt leaves no trace.\<close>

lemma unlimited_enter:
  "rd_default_delay r = 0 \<Longrightarrow> enter_context now r False sts (new_context i) = Inr (new_context i)"
  by (simp add: enter_context_def new_context_def)

lemma unlimited_acquire_no_waits:
  assumes "\<forall>i. rd_default_delay (objs i) = 0 \<and> rd_rate_limit (objs i) = None" "filter waits cs = []"
    and "acquire_types pick now objs stats tys cs s = (Inl e, s')"
  shows "ld_delayed s' = ld_delayed s"
  using assms(2,3)
proof (induction tys arbitrary: cs s)
  case (Cons ty tys)
  obtain a t where a: "manager_acquire pick ty s = (a, t)" by (cases "manager_acquire pick ty s")
  have del: "ld_delayed t = ld_delayed s" using acquire_keeps_delayed [of pick ty s] a by simp
  have u: "ld_delayed (unwind now cs u) = ld_delayed u" if "filter waits cs = []" for cs u
    using that
  proof (induction cs arbitrary: u rule: rev_induct)
    case (snoc tc cs)
    have "ld_delayed (leave_context now tc u) = ld_delayed u"
      using snoc.prems by (auto simp: leave_context_def manager_release_def set_pool_def split: option.splits sum.splits if_splits)
    with snoc show ?case by (simp add: unwind_snoc split: if_splits)
  qed (simp add: unwind_def)
  show ?case
  proof (cases a)
    case (Inl x)
    with Cons.prems u [OF Cons.prems(1), of t] del show ?thesis by (simp add: a)
  next
    case (Inr i)
    then have "acquire_types pick now objs stats tys (cs @ [(ty, new_context i)]) t = (Inl e, s')"
      using Cons.prems(2) assms(1) by (simp add: a context_limited_def unlimited_enter)
    moreover have "filter waits (cs @ [(ty, new_context i)]) = []"
      using Cons.prems(1) by (simp add: new_context_def time_truthy_def)
    ultimately show ?thesis using Cons.IH del by metis
  qed
qed simp

lemma failed_attempt_restores:
  assumes "finite types" "pools_apart s" "\<And>A. A \<noteq> {} \<Longrightarrow> pick A \<in> A"
    and "\<forall>i. rd_default_delay (objs i) = 0 \<and> rd_rate_limit (objs i) = None"
    and "try_acquire_many pick now objs stats types s = (Inl e, s')"
  shows "s' = s"
proof -
  obtain r t where run: "acquire_types pick now objs stats (sorted_list_of_set types) [] s = (r, t)" by fastforce
  have "lent s (set (map loan [])) s" "good_stack []" "distinct (sorted_list_of_set types)"
    "set (sorted_list_of_set types) \<inter> fst ` set ([] :: (string \<times> resource_context) list) = {}"
    by (simp_all add: lent_refl good_stack_def)
  note o = acquire_types_outcome [OF this(1,2) assms(2) this(3,4) assms(3) run]
  have rt: "r = Inl e" "t = s'" using assms(5) run by (simp_all add: try_acquire_many_def)
  have d: "ld_delayed s' = ld_delayed s"
    using unlimited_acquire_no_waits [OF assms(4) _ run [unfolded rt]] by simp
  obtain taken where t: "lent s (set (map loan (filter waits taken))) s'"
    "ld_delayed s' = ld_delayed s @ map (release_task now) (rev (filter waits taken))"
    using o unfolding rt by (auto simp del: set_map set_filter)
  have "filter waits taken = []" using t(2) d by simp
  with t(1) have "lent s {} s'" by simp
  then have "ld_manager s' = ld_manager s" using lent_nothing by simp
  with d show ?thesis by (intro lending.equality) simp_all
qed

text \<open>
  The rate limit is hit and the delay starts when a context is entered, also when the attempt fails afterwards: a message
  that lacks a resource of another type takes this one away from the others until the delay is over, unused.
\<close>

definition slow_resource :: resource_data where
  "slow_resource = (demo_rd ''a'')\<lparr>rd_default_delay := 60\<rparr>"

definition one_free :: lending where
  "one_free = \<lparr>ld_manager = \<lparr>rm_pools = (\<lambda>ty. empty_pool)(''A'' := empty_pool\<lparr>er_availables := {0}, er_resources := [(''a'', 0)]\<rparr>),
     rm_next = 1\<rparr>, ld_delayed = []\<rparr>"

lemma failed_attempt_delays:
  "fst (try_acquire_many Min 100 (\<lambda>_. slow_resource) (\<lambda>_. []) {''A'', ''B''} one_free) = Inl ResourceUnavailable"
  "ld_delayed (snd (try_acquire_many Min 100 (\<lambda>_. slow_resource) (\<lambda>_. []) {''A'', ''B''} one_free)) = [(''A'', 0, 160)]"
  "er_availables (pool_of (snd (try_acquire_many Min 100 (\<lambda>_. slow_resource) (\<lambda>_. []) {''A'', ''B''} one_free)) ''A'') = {}"
proof -
  have "sorted_list_of_set {''A'', ''B''} = [''A'', ''B'']" by (simp add: insort_key.simps)
  then have "try_acquire_many Min 100 (\<lambda>_. slow_resource) (\<lambda>_. []) {''A'', ''B''} one_free =
      (Inl ResourceUnavailable, one_free\<lparr>ld_manager := (ld_manager one_free)\<lparr>rm_pools := (rm_pools (ld_manager one_free))
         (''A'' := empty_pool\<lparr>er_used := {0}, er_resources := [(''a'', 0)]\<rparr>)\<rparr>, ld_delayed := [(''A'', 0, 160)]\<rparr>)"
    by (simp add: try_acquire_many_def one_free_def manager_acquire_def acquire_nowait_def try_acquire_def empty_pool_def
        set_pool_def enter_context_def slow_resource_def demo_rd_def context_limited_def new_context_def unwind_def
        leave_context_def context_release_def time_truthy_def Let_def fun_eq_iff)
  then show "fst (try_acquire_many Min 100 (\<lambda>_. slow_resource) (\<lambda>_. []) {''A'', ''B''} one_free) = Inl ResourceUnavailable"
    "ld_delayed (snd (try_acquire_many Min 100 (\<lambda>_. slow_resource) (\<lambda>_. []) {''A'', ''B''} one_free)) = [(''A'', 0, 160)]"
    "er_availables (pool_of (snd (try_acquire_many Min 100 (\<lambda>_. slow_resource) (\<lambda>_. []) {''A'', ''B''} one_free)) ''A'') = {}"
    by (simp_all add: one_free_def empty_pool_def)
qed

lemma try_acquire_many_all_or_nothing_witness:
  "\<exists>cs s'. try_acquire_many first_of 100 (\<lambda>_. slow_resource) (\<lambda>_. []) {''A''} one_free = (Inr cs, s') \<and> map fst cs = [''A''] \<and>
     lent one_free (set (map loan cs)) s'"
proof -
  have m: "A \<noteq> {} \<Longrightarrow> first_of A \<in> A" for A unfolding first_of_def by (auto intro: LeastI)
  have f: "first_of {i} = i" for i unfolding first_of_def by (rule Least_equality) auto
  have "pools_apart one_free" by (simp add: pools_apart_def one_free_def empty_pool_def)
  moreover have "\<not> isl (fst (try_acquire_many first_of 100 (\<lambda>_. slow_resource) (\<lambda>_. []) {''A''} one_free))"
    by (simp add: try_acquire_many_def one_free_def manager_acquire_def acquire_nowait_def try_acquire_def empty_pool_def
        set_pool_def enter_context_def slow_resource_def demo_rd_def context_limited_def new_context_def Let_def f)
  ultimately show ?thesis
    using try_acquire_many_all_or_nothing [of "{''A''}" one_free first_of 100 "\<lambda>_. slow_resource" "\<lambda>_. []", OF _ _ m]
    by (auto split: prod.splits sum.splits)
qed

section \<open>Resources come back\<close>

lemma delayed_releases_lent:
  assumes "lent s0 {(ty, i). \<exists>at. (ty, i, at) \<in> set D} s" "distinct (map (\<lambda>(ty, i, at). (ty, i)) D)" "pools_apart s0" "ld_delayed s = D"
  shows "lent s0 {} (fold delayed_release D s) \<and> ld_delayed (fold delayed_release D s) = []"
  using assms
proof (induction D arbitrary: s)
  case (Cons x D)
  obtain ty i at where x: "x = (ty, i, at)" by (cases x)
  let ?s = "s\<lparr>ld_delayed := D\<rparr>" and ?S = "{(ty, i). \<exists>at. (ty, i, at) \<in> set (x # D)}"
  have "lent s0 ?S ?s" using Cons.prems(1) by (simp add: lent_def)
  from lent_release [OF this _ Cons.prems(3), of ty i]
  have r: "lent s0 (?S - {(ty, i)}) (manager_release ty i ?s)" "ld_delayed (manager_release ty i ?s) = D" by (auto simp: x)
  have "?S - {(ty, i)} = {(ty, i). \<exists>at. (ty, i, at) \<in> set D}" using Cons.prems(2) by (force simp: x)
  moreover have "delayed_release x s = manager_release ty i ?s"
    using Cons.prems(4) by (simp add: delayed_release_def x)
  moreover have "distinct (map (\<lambda>(ty, i, at). (ty, i)) D)" using Cons.prems(2) by simp
  ultimately show ?case using Cons.IH [OF _ _ Cons.prems(3)] r by simp
qed simp

lemma loans_dset:
  "dget cs ty = Some c \<Longrightarrow> rc_resource c' = rc_resource c \<Longrightarrow>
     map (\<lambda>tc. (fst tc, rc_resource (snd tc))) (dset ty c' cs) = map (\<lambda>tc. (fst tc, rc_resource (snd tc))) cs"
  by (induction cs) (auto simp: dset_def split: if_splits)

lemma use_resources_loans:
  "map (\<lambda>tc. (fst tc, rc_resource (snd tc))) (fst (snd (use_resources us cs sts))) = map (\<lambda>tc. (fst tc, rc_resource (snd tc))) cs"
proof (induction us cs sts rule: use_resources.induct)
  case (2 u us cs sts)
  then show ?case by (auto simp: loans_dset release_later_def split: option.split)
qed simp

lemma same_loans:
  assumes "map (\<lambda>tc. (fst tc, rc_resource (snd tc))) cs' = map (\<lambda>tc. (fst tc, rc_resource (snd tc))) cs"
  shows "map loan cs' = map loan cs" "good_stack cs' \<longleftrightarrow> good_stack cs"
proof -
  have "map ((\<lambda>(ty, r). (ty, the r)) \<circ> (\<lambda>tc. (fst tc, rc_resource (snd tc)))) cs'
      = map ((\<lambda>(ty, r). (ty, the r)) \<circ> (\<lambda>tc. (fst tc, rc_resource (snd tc)))) cs"
    using assms by (metis map_map)
  then show l: "map loan cs' = map loan cs" by (simp add: comp_def)
  have "list_all (\<lambda>x. snd x \<noteq> None) (map (\<lambda>tc. (fst tc, rc_resource (snd tc))) cs')
      = list_all (\<lambda>x. snd x \<noteq> None) (map (\<lambda>tc. (fst tc, rc_resource (snd tc))) cs)"
    using assms by simp
  then show "good_stack cs' \<longleftrightarrow> good_stack cs" by (simp add: good_stack_def l list_all_length)
qed

text \<open>
  C34: A message gives back what it was lent: whatever the pipeline reports about its resources (a later release, a new state, or
  a type that it does not hold), once the executing context is left and the delayed tasks have slept, the pools are
  those from before.
\<close>

theorem lent_resources_return:
  assumes "finite types" "pools_apart s" "\<And>A. A \<noteq> {} \<Longrightarrow> pick A \<in> A" "ld_delayed s = []"
    and "try_acquire_many pick now objs stats types s = (Inr cs, t)"
  shows "sleeps_end (unwind later (fst (snd (update_resources_used us cs))) t) = s"
proof -
  let ?cs = "fst (snd (update_resources_used us cs))"
  have c: "good_stack cs" "lent s (set (map loan cs)) t" "ld_delayed t = []"
    using try_acquire_many_all_or_nothing [of types s pick now objs stats, OF assms(1-3)] assms(4,5) by simp_all
  have "map (\<lambda>tc. (fst tc, rc_resource (snd tc))) ?cs = map (\<lambda>tc. (fst tc, rc_resource (snd tc))) cs"
    by (simp add: update_resources_used_def use_resources_loans)
  note l = same_loans [OF this]
  have g: "good_stack ?cs" "lent s (set (map loan ?cs) \<union> {}) t" using c l by (simp_all del: set_map)
  let ?u = "unwind later ?cs t" and ?D = "map (release_task later) (rev (filter waits ?cs))"
  have u: "lent s (set (map loan (filter waits ?cs))) ?u" "ld_delayed ?u = ?D"
    using unwind_lent [OF g(2,1) _ assms(2), of later] c(3) by simp_all
  have "{(ty, i). \<exists>at. (ty, i, at) \<in> set ?D} = set (map loan (filter waits ?cs))"
    by (auto simp: release_task_def image_iff)
  then have "lent s {(ty, i). \<exists>at. (ty, i, at) \<in> set ?D} ?u" using u(1) by simp
  moreover have "map (\<lambda>(ty, i, at). (ty, i)) ?D = rev (map loan (filter waits ?cs))"
    by (simp add: release_task_def comp_def rev_map [symmetric])
  then have "distinct (map (\<lambda>(ty, i, at). (ty, i)) ?D)"
    using g(1) by (simp add: good_stack_def distinct_map_filter)
  ultimately have "lent s {} (sleeps_end ?u) \<and> ld_delayed (sleeps_end ?u) = []"
    using delayed_releases_lent [OF _ _ assms(2) u(2)] unfolding sleeps_end_def u(2) by blast
  then show ?thesis using lent_nothing assms(4) by (intro lending.equality) auto
qed

lemma lent_resources_return_witness:
  "\<exists>cs t. try_acquire_many first_of 100 (\<lambda>_. slow_resource) (\<lambda>_. []) {''A''} one_free = (Inr cs, t) \<and>
     sleeps_end (unwind 150 (fst (snd (update_resources_used
       [\<lparr>ru_type = ''X'', ru_release_at = Some 5, ru_state = None\<rparr>] cs))) t) = one_free"
proof -
  have m: "A \<noteq> {} \<Longrightarrow> first_of A \<in> A" for A unfolding first_of_def by (auto intro: LeastI)
  have f: "first_of {i} = i" for i unfolding first_of_def by (rule Least_equality) auto
  have p: "pools_apart one_free" "ld_delayed one_free = []" by (simp_all add: pools_apart_def one_free_def empty_pool_def)
  have "\<not> isl (fst (try_acquire_many first_of 100 (\<lambda>_. slow_resource) (\<lambda>_. []) {''A''} one_free))"
    by (simp add: try_acquire_many_def one_free_def manager_acquire_def acquire_nowait_def try_acquire_def empty_pool_def
        set_pool_def enter_context_def slow_resource_def demo_rd_def context_limited_def new_context_def Let_def f)
  then obtain cs t where r: "try_acquire_many first_of 100 (\<lambda>_. slow_resource) (\<lambda>_. []) {''A''} one_free = (Inr cs, t)"
    by (metis prod.collapse sum.collapse(2))
  from lent_resources_return [OF _ p(1) m p(2) r] r show ?thesis by blast
qed

section \<open>Submitting with these pools\<close>

text \<open>
  \<open>attach_resources\<close>: what the pipeline gets of each resource. With it, the answer of \<open>acquire_many\<close> that \<open>submit\<close> of
  Exec_Queue takes as an argument is the one of the pools.
\<close>

definition attach_resources :: "(nat \<Rightarrow> resource_data) \<Rightarrow> (string \<times> resource_context) list \<Rightarrow> (string, (string, pyval) pydict) pydict" where
  "attach_resources objs cs =
     List.map_filter (\<lambda>(ty, c). case rc_resource c of None \<Rightarrow> None
       | Some i \<Rightarrow> Some (ty, resource_argument (rd_name (objs i)) (rd_state (objs i)) (rd_data (objs i)))) cs"

definition acquire_answer ::
  "(nat \<Rightarrow> resource_data) \<Rightarrow> (string \<times> resource_context) list result \<Rightarrow> acquire_outcome" where
  "acquire_answer objs r =
     (case r of Inl e \<Rightarrow> (if e = ResourceUnavailable then Unavailable else AcquireRaised e)
      | Inr cs \<Rightarrow> Acquired (attach_resources objs cs))"

definition submit_with_pools ::
  "(nat set \<Rightarrow> nat) \<Rightarrow> time \<Rightarrow> (nat \<Rightarrow> resource_data) \<Rightarrow> (nat \<Rightarrow> (time \<times> int) list) \<Rightarrow> nat \<Rightarrow> pipeline_message \<Rightarrow>
     parkers \<Rightarrow> lending \<Rightarrow> submit_end \<times> pipeline_message \<times> parkers \<times> lending" where
  "submit_with_pools pick now objs stats x pm p s =
     (if missing_resources pm = [] then (Queued, pm, p, s)
      else case try_acquire_many pick now objs stats (set (missing_resources pm)) s of
        (r, s') \<Rightarrow> (case submit x (acquire_answer objs r) pm p of (e, pm', p') \<Rightarrow> (e, pm', p', s')))"

lemma attach_keys: "good_stack cs \<Longrightarrow> map fst (attach_resources objs cs) = map fst cs"
  by (induction cs) (auto simp: attach_resources_def good_stack_def map_filter_simps split: option.splits)

lemma pools_keep_promise:
  assumes "pools_apart s" "\<And>A. A \<noteq> {} \<Longrightarrow> pick A \<in> A"
  shows "acquire_promise pm (acquire_answer objs (fst (try_acquire_many pick now objs stats (set (missing_resources pm)) s)))"
proof -
  obtain r t where r: "try_acquire_many pick now objs stats (set (missing_resources pm)) s = (r, t)" by fastforce
  show ?thesis
  proof (cases r)
    case (Inr cs)
    have "map fst cs = sorted_list_of_set (set (missing_resources pm))" "good_stack cs"
      using try_acquire_many_all_or_nothing [of "set (missing_resources pm)" s pick now objs stats, OF _ assms] r Inr by simp_all
    then have "set (map fst (attach_resources objs cs)) = set (missing_resources pm)" by (simp add: attach_keys del: set_map)
    then show ?thesis by (simp add: r Inr acquire_promise_def acquire_answer_def list_all_iff dhas_def)
  qed (simp add: r acquire_promise_def acquire_answer_def)
qed

text \<open>
  A message is queued at once exactly when every type it lacks has an available resource, and then it lacks none;
  otherwise its queue is parked until the delayed submission has the resources. It never fails.
\<close>

theorem submit_queues_iff_available:
  assumes "pools_apart s" "\<And>A. A \<noteq> {} \<Longrightarrow> pick A \<in> A"
    and "submit_with_pools pick now objs stats x pm p s = (e, pm', p', s')"
  shows "(e = Queued \<longleftrightarrow> (\<forall>ty \<in> set (missing_resources pm). er_availables (pool_of s ty) \<noteq> {})) \<and>
    (e = Queued \<longrightarrow> missing_resources pm' = [] \<and> p' = p) \<and> (e \<noteq> Queued \<longrightarrow> e = Delayed \<and> pm' = pm \<and> p' = park x p)"
proof (cases "missing_resources pm = []")
  case False
  obtain r t where r: "try_acquire_many pick now objs stats (set (missing_resources pm)) s = (r, t)" by fastforce
  note all = try_acquire_many_all_or_nothing [of "set (missing_resources pm)" s pick now objs stats, OF _ assms(1,2)]
  have s: "submit x (acquire_answer objs r) pm p = (e, pm', p')"
    using assms(3) False r by (simp add: submit_with_pools_def split: prod.splits)
  show ?thesis
  proof (cases r)
    case (Inl y)
    then have "y = ResourceUnavailable" "\<exists>ty \<in> set (missing_resources pm). er_availables (pool_of s ty) = {}"
      using all r by simp_all
    then show ?thesis using s False Inl by (auto simp: acquire_answer_def submit_def acquire_resources_def)
  next
    case (Inr cs)
    have pr: "acquire_promise pm (acquire_answer objs r)" using pools_keep_promise [OF assms(1,2)] r by (metis fst_conv)
    have av: "\<forall>ty \<in> set (missing_resources pm). er_availables (pool_of s ty) \<noteq> {}" using all r Inr by simp
    have "set (missing_resources pm) \<subseteq> set (dkeys (attach_resources objs cs))"
      using pr by (auto simp: Inr acquire_answer_def acquire_promise_def list_all_iff dhas_def)
    then have "\<forall>(name, ty) \<in> set (pi_resources (pm_info pm)). has_arg name pm \<or> dhas ty (attach_resources objs cs)"
      by (force simp: missing_resources_def dhas_def)
    from fill_resources_ok [OF this] have "e = Queued"
      using s False by (auto simp: Inr acquire_answer_def submit_def acquire_resources_def update_with_resources_def)
    moreover from this queued_message_is_complete [OF pr] s have "missing_resources pm' = [] \<and> p' = p" by blast
    ultimately show ?thesis using av by blast
  qed
qed (use assms(3) in \<open>auto simp: submit_with_pools_def\<close>)

end
