(* ===== verification/Submit_Errors.thy ===== *)
theory Submit_Errors
  imports Acquire_Many Executor_Closing
begin

text \<open>
  What raises in a submission: entering a resource parses its rate limits (\<open>ResourceRateLimit.rate_limit_items\<close>), which the
  configuration gives as free text, and an unparsable one raises in \<open>acquire_many\<close>
  (\<open>worker/resources/manager.py\<close>). The resource is out of its pool by then and not yet on the exit stack. The loop of
  the executor (\<open>worker/executors/manager.py\<close>) handles \<open>ResourceUnavailable\<close> only.

  Argument: \<open>parse_many\<close> is the limiter library's parser, \<open>None\<close> where it raises.
\<close>

section \<open>Acquiring\<close>

definition rate_limit_items :: "(string \<Rightarrow> 'l list option) \<Rightarrow> rate_limit_item \<Rightarrow> 'l list result" where
  "rate_limit_items parse_many rl =
     (case parse_many (join_with '';'' (rl_limits rl)) of
        None \<Rightarrow> Inl (ValueError ''couldn't parse rate limit string'') | Some items \<Rightarrow> Inr items)"

text \<open>\<open>__aenter__\<close> with the parsing, and the loop of \<open>acquire_many\<close> around it.\<close>

definition enter_parsed ::
  "(string \<Rightarrow> 'l list option) \<Rightarrow> time \<Rightarrow> resource_data \<Rightarrow> bool \<Rightarrow> (time \<times> int) list \<Rightarrow> resource_context \<Rightarrow>
     resource_context result" where
  "enter_parsed parse_many now r limited stats c =
     (case enter_context now r limited stats c of
        Inl e \<Rightarrow> Inl e
      | Inr c' \<Rightarrow>
          if limited then (case rate_limit_items parse_many (the (rd_rate_limit r)) of Inl e \<Rightarrow> Inl e | Inr _ \<Rightarrow> Inr c')
          else Inr c')"

fun acquire_parsed ::
  "(string \<Rightarrow> 'l list option) \<Rightarrow> (nat set \<Rightarrow> nat) \<Rightarrow> time \<Rightarrow> (nat \<Rightarrow> resource_data) \<Rightarrow> (nat \<Rightarrow> (time \<times> int) list) \<Rightarrow>
     string list \<Rightarrow> (string \<times> resource_context) list \<Rightarrow> lending \<Rightarrow> (string \<times> resource_context) list result \<times> lending" where
  "acquire_parsed parse_many pick now objs stats [] stack s = (Inr stack, s)"
| "acquire_parsed parse_many pick now objs stats (ty # tys) stack s =
     (case manager_acquire pick ty s of
        (Inl e, s') \<Rightarrow> (Inl e, unwind now stack s')
      | (Inr i, s') \<Rightarrow>
          (case enter_parsed parse_many now (objs i) (context_limited objs ty i s') (stats i) (new_context i) of
             Inl e \<Rightarrow> (Inl e, unwind now stack s')
           | Inr c \<Rightarrow> acquire_parsed parse_many pick now objs stats tys (stack @ [(ty, c)]) s'))"

definition acquire_many_parsed ::
  "(string \<Rightarrow> 'l list option) \<Rightarrow> (nat set \<Rightarrow> nat) \<Rightarrow> time \<Rightarrow> (nat \<Rightarrow> resource_data) \<Rightarrow> (nat \<Rightarrow> (time \<times> int) list) \<Rightarrow>
     string set \<Rightarrow> lending \<Rightarrow> (string \<times> resource_context) list result \<times> lending" where
  "acquire_many_parsed parse_many pick now objs stats types s =
     acquire_parsed parse_many pick now objs stats (sorted_list_of_set types) [] s"

text \<open>\<open>acquire_resources\<close> and the guard of \<open>submit\<close>: what is raised leaves the loop.\<close>

definition submission :: "(string \<times> resource_context) list result \<Rightarrow> nat \<Rightarrow> worker \<Rightarrow> worker" where
  "submission r m w =
     (case r of
        Inr _ \<Rightarrow> loop_submit True m w
      | Inl e \<Rightarrow> if e = ResourceUnavailable then loop_submit False m w else loop_raises m w)"

section \<open>Rate limits that can be read\<close>

text \<open>With limits the library can read this is the loop of Acquire_Many, so what is proved there holds.\<close>

abbreviation readable :: "(string \<Rightarrow> 'l list option) \<Rightarrow> rate_limit_item \<Rightarrow> bool" where
  "readable parse_many l \<equiv> parse_many (join_with '';'' (rl_limits l)) \<noteq> None"

lemma enter_readable:
  "(\<And>l. rd_rate_limit (objs i) = Some l \<Longrightarrow> readable parse_many l) \<Longrightarrow>
     enter_parsed parse_many now (objs i) (context_limited objs ty i s) stats c =
     enter_context now (objs i) (context_limited objs ty i s) stats c"
  by (force simp: enter_parsed_def rate_limit_items_def context_limited_def split: sum.split option.split)

lemma acquire_readable:
  assumes "\<And>i l. rd_rate_limit (objs i) = Some l \<Longrightarrow> readable parse_many l"
  shows "acquire_parsed parse_many pick now objs stats tys cs s = acquire_types pick now objs stats tys cs s"
proof (induction tys arbitrary: cs s)
  case (Cons ty tys)
  from enter_readable [of objs _ parse_many, OF assms] Cons show ?case by (simp split: prod.split sum.split)
qed simp

lemma acquire_many_readable:
  "(\<And>i l. rd_rate_limit (objs i) = Some l \<Longrightarrow> readable parse_many l) \<Longrightarrow>
     acquire_many_parsed parse_many pick now objs stats types s = try_acquire_many pick now objs stats types s"
  by (simp add: acquire_many_parsed_def try_acquire_many_def acquire_readable)

section \<open>One that cannot\<close>

lemma enter_parsed_fresh:
  obtains (entered) c where "enter_parsed parse_many now r lim sts (new_context i) = Inr c" "rc_resource c = Some i"
  | (unread) "enter_parsed parse_many now r lim sts (new_context i) = Inl (ValueError ''couldn't parse rate limit string'')"
proof -
  obtain c where "enter_context now r lim sts (new_context i) = Inr c" "rc_resource c = Some i"
    using enter_fresh by blast
  then show ?thesis using entered unread
    by (cases "lim \<and> \<not> readable parse_many (the (rd_rate_limit r))") (auto simp: enter_parsed_def rate_limit_items_def)
qed

definition loses :: "time \<Rightarrow> string list \<Rightarrow> lending \<Rightarrow> (string \<times> nat \<times> time) list \<Rightarrow> lending \<Rightarrow> string \<times> nat \<Rightarrow> bool" where
  "loses now tys s0 D s' x \<longleftrightarrow>
     fst x \<in> set tys \<and> snd x \<in> er_availables (pool_of s0 (fst x)) \<and>
     (\<exists>taken. good_stack taken \<and> x \<notin> set (map loan taken) \<and> lent s0 (insert x (set (map loan (filter waits taken)))) s' \<and>
        ld_delayed s' = D @ map (release_task now) (rev (filter waits taken)))"

text \<open>
  Whatever ends the loop with another error than \<open>ResourceUnavailable\<close>, one available resource is used afterwards and
  neither a context nor a delayed task has it, while all others that were taken are given back or will be.\<close>

lemma acquire_parsed_raises:
  assumes "lent s0 (set (map loan cs)) s" "good_stack cs" "pools_apart s0" "distinct tys" "set tys \<inter> fst ` set cs = {}"
    and pick: "\<And>A. A \<noteq> {} \<Longrightarrow> pick A \<in> A"
    and "acquire_parsed parse_many pick now objs stats tys cs s = (Inl e, s')" "e \<noteq> ResourceUnavailable"
  shows "\<exists>x. loses now tys s0 (ld_delayed s) s' x"
  using assms(1,2,4,5,7,8)
proof (induction tys arbitrary: cs s)
  case (Cons ty tys)
  obtain a t where a: "manager_acquire pick ty s = (a, t)" by (cases "manager_acquire pick ty s")
  note out = lent_acquire [OF Cons.prems(1) a pick]
  have del: "ld_delayed t = ld_delayed s" using acquire_keeps_delayed [of pick ty s] a by simp
  from Cons.prems(5,6) out obtain i where i: "a = Inr i" by (cases a) (auto simp: a)
  have l: "(ty, i) \<notin> set (map loan cs)" "i \<in> er_availables (pool_of s0 ty)"
    "lent s0 (insert (ty, i) (set (map loan cs))) t" using out i by auto
  show ?case
  proof (cases rule: enter_parsed_fresh [of parse_many now "objs i" "context_limited objs ty i t" "stats i" i])
    case (entered c)
    have g: "good_stack (cs @ [(ty, c)])" using Cons.prems(2) l(1) entered(2) by (simp add: good_stack_def)
    have "lent s0 (set (map loan (cs @ [(ty, c)]))) t" using l(3) entered(2) by simp
    from Cons.IH [OF this g] Cons.prems(3-6) del obtain x where "loses now tys s0 (ld_delayed s) s' x"
      by (auto simp: a i entered(1) simp del: set_map)
    then have "loses now (ty # tys) s0 (ld_delayed s) s' x" by (simp add: loses_def)
    then show ?thesis ..
  next
    case unread
    have "lent s0 (set (map loan cs) \<union> {(ty, i)}) t" using l(3) by simp
    from unwind_lent [OF this Cons.prems(2) _ assms(3), of now] l(1)
    have "lent s0 (insert (ty, i) (set (map loan (filter waits cs)))) (unwind now cs t)"
      "ld_delayed (unwind now cs t) = ld_delayed s @ map (release_task now) (rev (filter waits cs))" using del by auto
    moreover have "s' = unwind now cs t" using Cons.prems(5) by (simp add: a i unread)
    ultimately have "loses now (ty # tys) s0 (ld_delayed s) s' (ty, i)"
      unfolding loses_def using l(1,2) Cons.prems(2) by (simp del: set_map) blast
    then show ?thesis ..
  qed
qed simp

section \<open>The resource is lost\<close>

lemma lent_rebase:
  assumes "lent s0 (insert (ty, i) S) s" "(ty, i) \<notin> S" "pools_apart s0"
  shows "\<exists>s1. lent s0 {(ty, i)} s1 \<and> lent s1 S s \<and> pools_apart s1"
proof -
  let ?e = "pool_of s0 ty"
  define s1 where "s1 = set_pool ty (?e\<lparr>er_availables := er_availables ?e - {i}, er_used := insert i (er_used ?e)\<rparr>) s0"
  have i: "i \<in> er_availables ?e" using assms(1) by (simp add: lent_def)
  have "lent s0 {(ty, i)} s1" using i by (auto simp: lent_def s1_def set_pool_def)
  moreover have "lent s1 S s" using assms(1,2) unfolding lent_def s1_def set_pool_def by auto
  moreover have "pools_apart s1" using assms(3) by (auto simp: pools_apart_def s1_def set_pool_def)
  ultimately show ?thesis by blast
qed

lemma lent_same: "lent s0 S s \<Longrightarrow> ld_manager s' = ld_manager s \<Longrightarrow> lent s0 S s'"
  by (simp add: lent_def)

text \<open>After the sleeps of all delayed tasks every pool is as it was, but for one resource, which is used by nobody.\<close>

theorem unread_limit_loses_resource:
  assumes "finite types" "pools_apart s" "\<And>A. A \<noteq> {} \<Longrightarrow> pick A \<in> A" "ld_delayed s = []"
    and "acquire_many_parsed parse_many pick now objs stats types s = (Inl e, s')" "e \<noteq> ResourceUnavailable"
  shows "\<exists>ty i. ty \<in> types \<and> i \<in> er_availables (pool_of s ty) \<and> lent s {(ty, i)} (sleeps_end s') \<and>
    ld_delayed (sleeps_end s') = []"
proof -
  have "lent s (set (map loan [])) s" "good_stack []" "distinct (sorted_list_of_set types)"
    "set (sorted_list_of_set types) \<inter> fst ` set ([] :: (string \<times> resource_context) list) = {}"
    by (simp_all add: lent_refl good_stack_def)
  from acquire_parsed_raises [OF this(1,2) assms(2) this(3,4) assms(3) assms(5) [unfolded acquire_many_parsed_def] assms(6)]
  obtain x where x: "loses now (sorted_list_of_set types) s [] s' x" by (auto simp: assms(4))
  obtain ty i where ti: "x = (ty, i)" by (cases x)
  from x obtain taken where t: "good_stack taken" "(ty, i) \<notin> set (map loan taken)"
    "lent s (insert (ty, i) (set (map loan (filter waits taken)))) s'"
    "ld_delayed s' = map (release_task now) (rev (filter waits taken))"
    unfolding loses_def ti by (auto simp del: set_map)
  let ?D = "ld_delayed s'"
  have D: "{(ty, i). \<exists>at. (ty, i, at) \<in> set ?D} = set (map loan (filter waits taken))"
    unfolding t(4) by (auto simp: release_task_def image_iff)
  have d: "map (\<lambda>(ty, i, at). (ty, i)) ?D = rev (map loan (filter waits taken))"
    unfolding t(4) by (simp add: rev_map release_task_def comp_def)
  have "(ty, i) \<notin> set (map loan (filter waits taken))" using t(2) by auto
  from lent_rebase [OF t(3) this assms(2)] obtain s1 where
    s1: "lent s {(ty, i)} s1" "lent s1 (set (map loan (filter waits taken))) s'" "pools_apart s1" by blast
  have "distinct (map loan (filter waits taken))" using t(1) by (simp add: good_stack_def distinct_map_filter)
  then have "lent s1 {} (sleeps_end s') \<and> ld_delayed (sleeps_end s') = []"
    unfolding sleeps_end_def
    by (intro delayed_releases_lent [OF _ _ s1(3) refl]) (simp_all only: D s1(2) d distinct_rev)
  then show ?thesis using lent_same [OF s1(1) lent_nothing] x assms(1) by (auto simp: loses_def ti)
qed

text \<open>One resource with a limit that cannot be read, and an executor that gets a message for it.\<close>

definition unread_resource :: resource_data where
  "unread_resource = (demo_rd ''a'')\<lparr>rd_rate_limit := Some \<lparr>rl_limits = [''often''], rl_strategy = ''fixed-window''\<rparr>\<rparr>"

definition unread_free :: lending where
  "unread_free = \<lparr>ld_manager = \<lparr>rm_pools = (\<lambda>ty. empty_pool)(''A'' := empty_pool\<lparr>er_availables := {0},
     er_resources := [(''a'', 0)], er_limiters := {''a''}\<rparr>), rm_next = 1\<rparr>, ld_delayed = []\<rparr>"

abbreviation unread_attempt :: "(string \<times> resource_context) list result \<times> lending" where
  "unread_attempt \<equiv> acquire_many_parsed (\<lambda>l. if l = ''often'' then None else Some [l]) first_of 100 (\<lambda>_. unread_resource) (\<lambda>_. []) {''A''} unread_free"

lemma unread_attempt_raises: "fst unread_attempt = Inl (ValueError ''couldn't parse rate limit string'')"
proof -
  have "first_of {i} = i" for i unfolding first_of_def by (rule Least_equality) auto
  then show ?thesis
    by (simp add: acquire_many_parsed_def unread_free_def manager_acquire_def acquire_nowait_def try_acquire_def empty_pool_def
        set_pool_def enter_parsed_def rate_limit_items_def enter_context_def unread_resource_def demo_rd_def context_limited_def new_context_def Let_def)
qed

lemma unread_limit_loses_resource_witness:
  "er_used (pool_of (sleeps_end (snd unread_attempt)) ''A'') = {0} \<and>
     er_availables (pool_of (sleeps_end (snd unread_attempt)) ''A'') = {}"
proof -
  have m: "A \<noteq> {} \<Longrightarrow> first_of A \<in> A" for A unfolding first_of_def by (auto intro: LeastI)
  have p: "pools_apart unread_free" "ld_delayed unread_free = []" by (simp_all add: pools_apart_def unread_free_def empty_pool_def)
  have "unread_attempt = (Inl (ValueError ''couldn't parse rate limit string''), snd unread_attempt)"
    using unread_attempt_raises by (metis prod.collapse)
  from unread_limit_loses_resource [OF _ p(1) m p(2) this]
  show ?thesis by (auto simp: lent_def unread_free_def empty_pool_def)
qed

text \<open>
  The error leaves the loop of the executor: the resource is used for ever, and the executor takes no further message of any
  of its queues although it is open, its processing task is idle and nothing else has failed.\<close>

lemma unread_limit_ends_executor:
  "submission (fst unread_attempt) 0 (schedule (start_queue 1 new_worker)) = demo_ended \<and> wk_reachable demo_ended \<and>
     (\<forall>s. wk_step\<^sup>*\<^sup>* demo_ended s \<longrightarrow> wk_next s = 1)"
  using submit_error_ends_executor by (simp add: submission_def unread_attempt_raises demo_ended_def)

end
