(* ===== verification/Remote_Execution.thy ===== *)
theory Remote_Execution
  imports Exec_Queue Arq_Executor
begin

text \<open>
  Running a pipeline outside the event loop: \<open>worker/executors/process.py\<close> (pools of processes or threads),
  the remote half of \<open>worker/executors/arq/worker.py\<close>, and what crosses the boundary: the message, the cancellation
  token (\<open>core/pipeline.py\<close>) and the exception, wrapped by \<open>worker/executors/bootstrap.py\<close>.

  Arguments: \<open>trace\<close> is the traceback the interpreter gives an exception, and \<open>exec\<close> what the pipeline does.
\<close>

section \<open>Exceptions over the boundary\<close>

text \<open>\<open>RemoteException\<close> as the worker catches it; \<open>here\<close> is the traceback of the worker itself.\<close>

definition remote_exception :: "traceback_data \<Rightarrow> traceback_data \<Rightarrow> caught" where
  "remote_exception here tb =
     \<lparr>cx_class_module = ''datalineup_engine.worker.executors.bootstrap'', cx_class_name = ''RemoteException'',
      cx_str = remote_exception_str tb, cx_remote = Some tb, cx_traceback = here\<rparr>"

definition remote_exception_repr :: "traceback_data \<Rightarrow> string" where
  "remote_exception_repr tb =
     (let stype = ''RemoteException['' @ tb_exc_type tb @ '']''
      in if starts_with ''('' (tb_exc_str tb) then stype @ tb_exc_str tb
         else stype @ ''('' @ tb_exc_str tb @ '')'')"

definition wrap_remote_exception :: "traceback_data \<Rightarrow> (exn \<Rightarrow> traceback_data) \<Rightarrow> 'a result \<Rightarrow> caught + 'a" where
  "wrap_remote_exception here trace r =
     (case r of Inl e \<Rightarrow> Inl (remote_exception here (trace e)) | Inr x \<Rightarrow> Inr x)"

text \<open>\<open>get_exception_name\<close> of \<open>worker/error_handling.py\<close>\<close>

definition get_exception_name :: "caught \<Rightarrow> string" where
  "get_exception_name x =
     (case cx_remote x of
        Some tb \<Rightarrow> join_with ''.'' [tb_exc_module tb, tb_exc_type tb]
      | None \<Rightarrow> cx_class_module x @ ''.'' @ cx_class_name x)"

text \<open>The same exception, caught where it was raised; its class is not nested in another.\<close>

definition local_exception :: "traceback_data \<Rightarrow> caught" where
  "local_exception tb =
     \<lparr>cx_class_module = tb_exc_module tb, cx_class_name = tb_exc_type tb, cx_str = tb_exc_str tb, cx_remote = None,
      cx_traceback = tb\<rparr>"

lemma name_survives_the_boundary: "get_exception_name (remote_exception here tb) = get_exception_name (local_exception tb)"
  by (simp add: get_exception_name_def remote_exception_def local_exception_def)

lemma remote_details:
  "get_exception_details (remote_exception here tb) =
     rbind (get_exception_details (local_exception tb)) (\<lambda>d. Inr (d\<lparr>ed_message := remote_exception_str tb\<rparr>))"
  by (simp add: get_exception_details_def remote_exception_def local_exception_def)

text \<open>A channel that names no message: its filter has an empty second field.\<close>

definition names_no_message :: "string \<Rightarrow> bool" where
  "names_no_message channel \<longleftrightarrow> strip (pad_parts (split_on (CHR '':'') channel) ! 1) = []"

lemma no_message_filter:
  assumes "names_no_message channel" "parse_warning_filter compile re_escape channel False = Inr f"
  shows "ef_message f = None"
proof -
  have "strip (pad_parts (split_on (CHR '':'') channel) ! 1) = []" using assms(1) by (simp add: names_no_message_def)
  moreover have "1 < length (pad_parts (split_on (CHR '':'') channel))"
  proof -
    have "split_on (CHR '':'') channel \<noteq> []" by simp
    then have "0 < length (split_on (CHR '':'') channel)" by blast
    then show ?thesis by (simp add: pad_parts_def)
  qed
  ultimately show ?thesis
    using assms(2) by (auto simp: parse_warning_filter_def Let_def compile_opt_def rbind_Inr_iff split: if_splits)
qed



text \<open>
  A filter on the message does not see the message of a remote exception but the text of the whole traceback, which begins with
  the name of the class. Patterns are matched at the beginning: the channel that takes the exception of a pipeline run in
  place does not take it from a pool.
\<close>

lemma remote_message_is_not_the_message:
  "let tb = Traceback ''ValueError'' ''builtins'' ''bad'' [demo_frame] False None None False None in
     map_sum id (\<lambda>d. channel_matches Some (\<lambda>p s. starts_with p s) id d ''error:bad'') (get_exception_details (local_exception tb))
       = Inr True \<and>
     map_sum id (\<lambda>d. channel_matches Some (\<lambda>p s. starts_with p s) id d ''error:bad'') (get_exception_details (remote_exception here tb))
       = Inr False"
  by (simp add: get_exception_details_def remote_exception_def local_exception_def demo_frame_def channel_matches_def
      is_output_error_handler_def starts_with_def parse_warning_filter_def pad_parts_def strip_def is_space_def parse_lineno_def
      compile_opt_def does_error_match_def Let_def eval_nat_numeral remote_exception_str_def format_exception_only_def final_exc_line_def)

section \<open>The pool\<close>

datatype pool_type = ProcessPool | ThreadPool

record process_options =
  po_max_workers :: "int option"
  po_pool_type :: pool_type

text \<open>\<open>options.max_workers or os.cpu_count() or 1\<close>\<close>

definition max_workers :: "process_options \<Rightarrow> int option \<Rightarrow> int" where
  "max_workers opts cpus =
     (case po_max_workers opts of
        Some n \<Rightarrow> if n \<noteq> 0 then n else (case cpus of Some m \<Rightarrow> if m \<noteq> 0 then m else 1 | None \<Rightarrow> 1)
      | None \<Rightarrow> (case cpus of Some m \<Rightarrow> if m \<noteq> 0 then m else 1 | None \<Rightarrow> 1))"

text \<open>
  The globals of the process that runs the pipelines. A bootstrap is the list of the handlers that have initialised it.
  \<open>process_initializer\<close>; the hook's handlers are called one after the other on the new bootstrap.
\<close>

record pool_process =
  pp_bootstraper :: "nat list option"
  pp_ignores_sigint :: bool

definition fresh_process :: pool_process where
  "fresh_process = \<lparr>pp_bootstraper = None, pp_ignores_sigint = False\<rparr>"

definition process_initializer :: "nat list \<Rightarrow> pool_type \<Rightarrow> pool_process \<Rightarrow> pool_process" where
  "process_initializer handlers ty p =
     (let p' = (if ty = ProcessPool then p\<lparr>pp_ignores_sigint := True\<rparr> else p)
      in p'\<lparr>pp_bootstraper := Some handlers\<rparr>)"

text \<open>
  \<open>remote_execute\<close>. The missing bootstrap is an error outside the wrapper. What the handlers registered on the bootstrap
  do around the run is \<open>run\<close>.
\<close>

definition remote_execute ::
  "traceback_data \<Rightarrow> (exn \<Rightarrow> traceback_data) \<Rightarrow> (nat list \<Rightarrow> pipeline_message \<Rightarrow> pipeline_results result) \<Rightarrow>
     pool_process \<Rightarrow> pipeline_message \<Rightarrow> caught + pipeline_results" where
  "remote_execute here trace run p pm =
     (case pp_bootstraper p of
        None \<Rightarrow> Inl (local_exception (trace (ValueError ''process_initializer must be called'')))
      | Some b \<Rightarrow> wrap_remote_exception here trace (run b pm))"

text \<open>\<open>process_message\<close>: the outcome that \<open>ExecutorQueue\<close> gets.\<close>

definition process_message ::
  "traceback_data \<Rightarrow> (exn \<Rightarrow> traceback_data) \<Rightarrow> (nat list \<Rightarrow> pipeline_message \<Rightarrow> pipeline_results result) \<Rightarrow>
     pool_process \<Rightarrow> pipeline_message \<Rightarrow> exec_outcome" where
  "process_message here trace run p pm =
     (case remote_execute here trace run p (as_remote pm) of Inl x \<Rightarrow> ExecRaised x | Inr r \<Rightarrow> ExecResults r)"

text \<open>A pool starts its workers on demand; threads share the process, so each initialises the same global again.\<close>

definition start_workers :: "nat list \<Rightarrow> pool_type \<Rightarrow> nat \<Rightarrow> pool_process \<Rightarrow> pool_process list" where
  "start_workers handlers ty n here =
     (case ty of
        ProcessPool \<Rightarrow> replicate n (process_initializer handlers ty fresh_process)
      | ThreadPool \<Rightarrow> replicate n ((process_initializer handlers ty ^^ n) here))"

text \<open>In every worker of the pool a message runs on an initialised bootstrap; only its own errors come back.\<close>

lemma workers_are_initialised:
  assumes "w \<in> set (start_workers handlers ty n here)"
  shows "pp_bootstraper w = Some handlers"
proof (cases ty)
  case ProcessPool
  with assms show ?thesis by (simp add: start_workers_def process_initializer_def split: if_splits)
next
  case ThreadPool
  then obtain k where "n = Suc k" "w = (process_initializer handlers ty ^^ n) here"
    using assms by (cases n) (auto simp: start_workers_def simp del: funpow.simps split: if_splits)
  then show ?thesis by (simp add: process_initializer_def Let_def)
qed

text \<open>The worker's own process keeps reacting to signals when the pool is made of threads.\<close>

lemma threads_keep_signals:
  assumes "w \<in> set (start_workers handlers ThreadPool n here)"
  shows "pp_ignores_sigint w = pp_ignores_sigint here"
proof -
  have "pp_ignores_sigint ((process_initializer handlers ThreadPool ^^ k) here) = pp_ignores_sigint here" for k
    by (induction k) (simp_all add: process_initializer_def)
  then show ?thesis using assms by (auto simp: start_workers_def split: if_splits)
qed

lemma pool_outcome:
  assumes "w \<in> set (start_workers handlers ty n p)"
  shows "process_message here trace run w pm =
    (case run handlers (as_remote pm) of Inl e \<Rightarrow> ExecRaised (remote_exception here (trace e)) | Inr r \<Rightarrow> ExecResults r)"
  using workers_are_initialised [OF assms]
  by (simp add: process_message_def remote_execute_def wrap_remote_exception_def split: sum.split)

text \<open>
  The scope around a message: the results of a pipeline are those it yields; an exception goes to the first channel that
  accepts the details of the exception raised remotely, or fails the message.
\<close>

lemma pool_routes_errors:
  assumes "w \<in> set (start_workers handlers ty n p)" "run handlers (as_remote pm) = Inl e"
    "get_exception_details (remote_exception here (trace e)) = Inr d"
  shows "run_scope (process_pipeline_exception compile matches re_escape new_id outputs m) (process_message here trace run w pm) =
    (case filter (\<lambda>(c, hs). channel_matches compile matches re_escape d c) outputs of
       [] \<Rightarrow> ScopeFailed
     | (c, hs) # _ \<Rightarrow> (case handle_channel new_id (remote_exception here (trace e)) d m c hs of
          Inl _ \<Rightarrow> ScopeFailed | Inr h \<Rightarrow> ScopeHandled h))"
proof -
  have "run_scope (process_pipeline_exception compile matches re_escape new_id outputs m) (process_message here trace run w pm) =
      (case process_pipeline_exception compile matches re_escape new_id outputs m (remote_exception here (trace e)) of
         Inl _ \<Rightarrow> ScopeFailed | Inr None \<Rightarrow> ScopeFailed | Inr (Some h) \<Rightarrow> ScopeHandled h)"
    using assms(2) by (simp add: pool_outcome [OF assms(1)] run_scope_def)
  also have "process_pipeline_exception compile matches re_escape new_id outputs m (remote_exception here (trace e)) =
      (case filter (\<lambda>(c, hs). channel_matches compile matches re_escape d c) outputs of
         [] \<Rightarrow> Inr None
       | (c, hs) # _ \<Rightarrow> rbind (handle_channel new_id (remote_exception here (trace e)) d m c hs) (\<lambda>h. Inr (Some h)))"
    using assms(3) by (simp add: process_pipeline_exception_def process_channels_spec)
  finally show ?thesis by (cases "filter (\<lambda>(c, hs). channel_matches compile matches re_escape d c) outputs")
      (auto split: sum.split)
qed

section \<open>Cancellation tokens\<close>

text \<open>
  \<open>CancellationToken\<close> over a store of its events. A token given to a thread is shared; one given to another process is pickled,
  and the copy has an event of its own, set when the original was set.
\<close>

type_synonym events = "bool list"

definition new_token :: "events \<Rightarrow> nat \<times> events" where
  "new_token es = (length es, es @ [False])"

definition is_cancelled :: "nat \<Rightarrow> events \<Rightarrow> bool" where
  "is_cancelled a es \<longleftrightarrow> a < length es \<and> es ! a"

definition cancel_token :: "nat \<Rightarrow> events \<Rightarrow> events" where
  "cancel_token a es = es[a := True]"

definition token_getstate :: "nat \<Rightarrow> events \<Rightarrow> (string, bool) pydict" where
  "token_getstate a es = [(''is_cancelled'', is_cancelled a es)]"

definition token_setstate :: "(string, bool) pydict \<Rightarrow> events \<Rightarrow> nat \<times> events" where
  "token_setstate st es =
     (case new_token es of (a, es') \<Rightarrow> (a, if dget_or st ''is_cancelled'' False then cancel_token a es' else es'))"

definition hand_over :: "pool_type \<Rightarrow> nat \<Rightarrow> events \<Rightarrow> nat \<times> events" where
  "hand_over ty a es = (case ty of ThreadPool \<Rightarrow> (a, es) | ProcessPool \<Rightarrow> token_setstate (token_getstate a es) es)"

text \<open>A pickled token says of itself what the original said.\<close>

lemma token_round_trip:
  "token_setstate (token_getstate a es) es = (b, es') \<Longrightarrow> is_cancelled b es' = is_cancelled a es"
  by (auto simp: token_setstate_def token_getstate_def new_token_def is_cancelled_def cancel_token_def dget_or_def nth_append
      split: if_splits)

section \<open>A remote job and its cancellation\<close>

text \<open>
  \<open>remote_execute\<close> of the worker of arq, up to its end: a fresh token is put into the message, the run gets the message through
  the executor, and when the health check ends first the token is cancelled. The result is the outcome of the job,
  the token that the pipeline holds, and the events. \<open>workers\<close> is the type of the executor that \<open>startup\<close> made.
\<close>

definition arq_remote_execute ::
  "pool_type \<Rightarrow> unit result option \<Rightarrow> bool \<Rightarrow> events \<Rightarrow> arq_outcome \<times> nat \<times> events" where
  "arq_remote_execute workers result healthcheck_done es =
     (case new_token es of (token, es1) \<Rightarrow>
        (case hand_over workers token es1 of (given, es2) \<Rightarrow>
           (case remote_execute_done result healthcheck_done of
              (out, cancels) \<Rightarrow> (out, given, if cancels then cancel_token token es2 else es2))))"

text \<open>
  With threads, the pipeline sees its token cancelled exactly when the job has lost its worker before it had a result.
\<close>

lemma thread_sees_cancellation:
  assumes "arq_remote_execute ThreadPool result hc es = (out, given, es')"
  shows "is_cancelled given es' \<longleftrightarrow> out = WorkerDied"
  using assms
  by (auto simp: arq_remote_execute_def new_token_def hand_over_def remote_execute_done_def cancel_token_def is_cancelled_def
      split: option.splits if_splits)

text \<open>
  With processes the pipeline holds a copy: the job reports that it was cancelled, and the pipeline runs on with a token that is
  not.
\<close>

lemma process_misses_cancellation:
  assumes "arq_remote_execute ProcessPool None True es = (out, given, es')"
  shows "out = WorkerDied \<and> \<not> is_cancelled given es'"
  using assms
  by (auto simp: arq_remote_execute_def new_token_def hand_over_def token_setstate_def token_getstate_def remote_execute_done_def
      cancel_token_def is_cancelled_def dget_or_def nth_append split: if_splits)

section \<open>The remote worker\<close>

text \<open>
  \<open>startup\<close>: the context is a dict of the options; the handlers of the hook are those of the two services and the
  initializer of the options.
\<close>

datatype init_handler = LoggerHandler | TracingHandler | UserHandler nat

record arq_context =
  ac_concurrency :: "nat option"
  ac_initializer :: "nat option"
  ac_type :: "pool_type option"
  ac_executor :: "(pool_type \<times> nat) option" \<comment> \<open>the type of the pool and its size\<close>

record arq_worker =
  aw_context :: arq_context
  aw_bootstraper :: "init_handler list option"
  aw_running :: bool

definition init_bootstraper :: "nat option \<Rightarrow> init_handler list" where
  "init_bootstraper initializer =
     [LoggerHandler, TracingHandler] @ (case initializer of None \<Rightarrow> [] | Some i \<Rightarrow> [UserHandler i])"

definition arq_startup :: "arq_worker \<Rightarrow> arq_worker" where
  "arq_startup w =
     (let ctx = aw_context w;
          n = (case ac_concurrency ctx of None \<Rightarrow> 4 | Some n \<Rightarrow> n);
          ty = (case ac_type ctx of None \<Rightarrow> ThreadPool | Some ty \<Rightarrow> ty)
      in w\<lparr>aw_context := (case ac_executor ctx of None \<Rightarrow> ctx\<lparr>ac_executor := Some (ty, n)\<rparr> | Some _ \<Rightarrow> ctx),
           aw_bootstraper := Some (init_bootstraper (ac_initializer ctx)), aw_running := True\<rparr>)"

definition ensure_bootstraper :: "init_handler list option \<Rightarrow> init_handler list result" where
  "ensure_bootstraper b = (case b of None \<Rightarrow> Inl (ValueError ''Bootstraper wasn't initialized'') | Some h \<Rightarrow> Inr h)"

definition remote_bootstrap ::
  "(init_handler list \<Rightarrow> pipeline_message \<Rightarrow> pipeline_results result) \<Rightarrow> init_handler list option \<Rightarrow> pipeline_message \<Rightarrow>
     pipeline_results result" where
  "remote_bootstrap run b pm = rbind (ensure_bootstraper b) (\<lambda>h. run h pm)"

definition arq_shutdown :: "arq_worker \<Rightarrow> arq_worker" where
  "arq_shutdown w = w\<lparr>aw_running := False\<rparr>"

text \<open>The bootstrap of the process in which the pool of a worker runs its pipelines: its own, or that of a child.\<close>

definition executing_bootstraper :: "arq_worker \<Rightarrow> init_handler list option" where
  "executing_bootstraper w =
     (case ac_executor (aw_context w) of
        Some (ProcessPool, _) \<Rightarrow> Some (init_bootstraper (ac_initializer (aw_context w)))
      | _ \<Rightarrow> aw_bootstraper w)"

lemma started_worker_runs:
  assumes "ac_executor (aw_context w) = None"
  shows "remote_bootstrap run (executing_bootstraper (arq_startup w)) pm = run (init_bootstraper (ac_initializer (aw_context w))) pm"
  using assms by (auto simp: remote_bootstrap_def ensure_bootstraper_def executing_bootstraper_def arq_startup_def Let_def
      split: option.split pool_type.split)

end
