(* ===== verification/Arq_Connection.thy ===== *)
theory Arq_Connection
  imports Arq_Executor
begin

text \<open>
  The connection of \<open>ARQExecutor\<close> (\<open>worker/executors/arq/executor.py\<close>) to redis: its arguments, when it is made, the job it
  enqueues, and the health check keys of \<open>worker/executors/arq/__init__.py\<close>.

  Arguments: the settings that arq reads from the url, the outcomes of the attempts to connect (Arq_Executor), and \<open>pickle\<close>.
\<close>

section \<open>Keys\<close>

definition worker_healthcheck_key :: "string \<Rightarrow> string" where
  "worker_healthcheck_key job_id = ''datalineup:arq:'' @ job_id @ '':whealthcheck''"

definition executor_healthcheck_key :: "string \<Rightarrow> string" where
  "executor_healthcheck_key job_id = ''datalineup:arq:'' @ job_id @ '':ehealthcheck''"

definition healthcheck_interval :: time where "healthcheck_interval = 10"

definition hc_ex :: time where "hc_ex = (healthcheck_interval * 2) * 1000"

text \<open>Whatever the identifiers of two jobs, they share no key, and a job's two keys differ: the sides do not answer for each other.\<close>

theorem healthcheck_keys_are_distinct:
  "(worker_healthcheck_key i = worker_healthcheck_key j \<longleftrightarrow> i = j) \<and>
   (executor_healthcheck_key i = executor_healthcheck_key j \<longleftrightarrow> i = j) \<and>
   worker_healthcheck_key i \<noteq> executor_healthcheck_key j"
proof -
  have "rev (worker_healthcheck_key i) \<noteq> rev (executor_healthcheck_key j)"
    by (simp add: worker_healthcheck_key_def executor_healthcheck_key_def)
  then have "worker_healthcheck_key i \<noteq> executor_healthcheck_key j" by metis
  then show ?thesis by (simp add: worker_healthcheck_key_def executor_healthcheck_key_def)
qed

section \<open>The pool's arguments\<close>

record redis_settings =
  rs_username :: pyval
  rs_password :: pyval
  rs_database :: int
  rs_unix_socket_path :: "string option"
  rs_host :: string
  rs_port :: int
  rs_ssl :: bool

definition create_connection_pool :: "redis_settings \<Rightarrow> int \<Rightarrow> (string, pyval) pydict \<Rightarrow> (string, pyval) pydict" where
  "create_connection_pool rs concurrency redis_pool_args =
     (let kwargs = [(''username'', rs_username rs), (''password'', rs_password rs), (''db'', PInt (rs_database rs)),
                    (''socket_connect_timeout'', PInt 1), (''max_connections'', PInt concurrency), (''timeout'', PInt 10)];
          kwargs' = (case rs_unix_socket_path rs of
             Some p \<Rightarrow> dor kwargs [(''path'', PStr p), (''connection_class'', PStr ''UnixDomainSocketConnection'')]
           | None \<Rightarrow>
               (let k = dor kwargs [(''host'', PStr (rs_host rs)), (''port'', PInt (rs_port rs))]
                in if rs_ssl rs then dset ''connection_class'' (PStr ''SSLConnection'') k else k))
      in dor kwargs' redis_pool_args)"

text \<open>The options of the user win over all the others; a unix socket never gets a host, nor TCP a path.\<close>

lemma pool_arguments:
  assumes "wfd args"
  shows "dget (create_connection_pool rs n args) k =
    (case dget args k of Some v \<Rightarrow> Some v | None \<Rightarrow> dget (create_connection_pool rs n []) k)"
proof -
  have "\<exists>kw. \<forall>a. create_connection_pool rs n a = dor kw a" unfolding create_connection_pool_def Let_def by blast
  then obtain kw where kw: "create_connection_pool rs n a = dor kw a" for a by blast
  have "dor kw [] = kw" by (simp add: dor_def)
  then show ?thesis unfolding kw by (simp add: dget_dor [OF assms] map_add_def split: option.split)
qed

lemma pool_transport:
  "dhas ''path'' (create_connection_pool rs n []) \<longleftrightarrow> rs_unix_socket_path rs \<noteq> None"
  "dhas ''host'' (create_connection_pool rs n []) \<longleftrightarrow> rs_unix_socket_path rs = None"
  by (auto simp: create_connection_pool_def Let_def dhas_iff_dget dor_def split: option.split)

section \<open>Connecting and closing\<close>

text \<open>
  The executor keeps the connection in a cached property; the first use connects, and then clears the queue of jobs. A job
  in the queue is its identifier.
\<close>

record arq_client =
  cl_options_retries :: nat
  cl_connection :: bool
  cl_queue :: "string list" \<comment> \<open>in redis\<close>
  cl_sent :: nat \<comment> \<open>the counter \<open>execute_bytes\<close>\<close>
  cl_received :: nat \<comment> \<open>the counter \<open>results_bytes\<close>\<close>

definition init_redis :: "arq_client \<Rightarrow> arq_client" where
  "init_redis c = c\<lparr>cl_queue := []\<rparr>"

definition redis_queue :: "(nat \<Rightarrow> connect_outcome) \<Rightarrow> arq_client \<Rightarrow> unit result \<times> arq_client" where
  "redis_queue conn c =
     (if cl_connection c then (Inr (), c)
      else case redis_connect (cl_options_retries c) conn 0 of
        (Inl e, _) \<Rightarrow> (Inl e, c)
      | (Inr _, _) \<Rightarrow> (Inr (), init_redis (c\<lparr>cl_connection := True\<rparr>)))"

definition serialize_job :: "('a \<Rightarrow> string) \<Rightarrow> 'a \<Rightarrow> arq_client \<Rightarrow> string \<times> arq_client" where
  "serialize_job pickle obj c = (pickle obj, c\<lparr>cl_sent := cl_sent c + length (pickle obj)\<rparr>)"

definition deserialize_job :: "(string \<Rightarrow> 'a) \<Rightarrow> string \<Rightarrow> arq_client \<Rightarrow> 'a \<times> arq_client" where
  "deserialize_job unpickle data c = (unpickle data, c\<lparr>cl_received := cl_received c + length data\<rparr>)"

text \<open>The start of \<open>process_message\<close>: the job and the seconds after which it expires unstarted.\<close>

definition enqueue_job ::
  "('a \<Rightarrow> string) \<Rightarrow> (nat \<Rightarrow> connect_outcome) \<Rightarrow> time \<Rightarrow> time \<Rightarrow> string \<Rightarrow> 'a \<Rightarrow> arq_client \<Rightarrow> (string \<times> time) result \<times> arq_client" where
  "enqueue_job pickle conn timeout timeout_delay job_id msg c =
     (case redis_queue conn c of
        (Inl e, c') \<Rightarrow> (Inl e, c')
      | (Inr _, c') \<Rightarrow>
          (case serialize_job pickle msg c' of (data, c'') \<Rightarrow>
             (Inr (job_id, timeout + timeout_delay), c''\<lparr>cl_queue := cl_queue c'' @ [job_id]\<rparr>)))"

definition close_redis :: "(nat \<Rightarrow> connect_outcome) \<Rightarrow> arq_client \<Rightarrow> unit result \<times> arq_client" where
  "close_redis conn c =
     (case redis_queue conn c of (Inl e, c') \<Rightarrow> (Inl e, c') | (Inr _, c') \<Rightarrow> (Inr (), c'\<lparr>cl_connection := False\<rparr>))"

definition enqueue_all ::
  "('a \<Rightarrow> string) \<Rightarrow> (nat \<Rightarrow> connect_outcome) \<Rightarrow> time \<Rightarrow> time \<Rightarrow> (string \<times> 'a) list \<Rightarrow> arq_client \<Rightarrow> arq_client" where
  "enqueue_all pickle conn timeout timeout_delay jobs c =
     fold (\<lambda>(i, m) c. snd (enqueue_job pickle conn timeout timeout_delay i m c)) jobs c"

text \<open>
  The queue is cleared once. Jobs of a worker that is gone are dropped when the next one makes its first connection, and after that
  no job of its own is.
\<close>

lemma enqueue_connected:
  assumes "cl_connection c"
  shows "enqueue_all pickle conn t d jobs c = c\<lparr>cl_queue := cl_queue c @ map fst jobs,
    cl_sent := cl_sent c + sum_list (map (\<lambda>(_, m). length (pickle m)) jobs)\<rparr>"
  using assms
proof (induction jobs arbitrary: c)
  case (Cons x jobs)
  obtain i m where x: "x = (i, m)" by (cases x)
  from Cons.IH [of "c\<lparr>cl_sent := cl_sent c + length (pickle m), cl_queue := cl_queue c @ [i]\<rparr>"] Cons.prems
  show ?case by (simp add: x enqueue_all_def enqueue_job_def redis_queue_def serialize_job_def)
qed (simp add: enqueue_all_def)

theorem queue_cleared_once:
  assumes "\<not> cl_connection c" "conn k = Connected" "\<forall>j < k. \<exists>e. conn j = RetriableError e" "k \<le> cl_options_retries c"
  shows "cl_queue (enqueue_all pickle conn t d (job # jobs) c) = map fst (job # jobs)"
proof -
  obtain i m where x: "job = (i, m)" by (cases job)
  have "redis_connect (cl_options_retries c) conn 0 = (Inr (), k)"
    using redis_connect_first [where conn = conn and r = 0, OF assms(4,2)] assms(3) by simp
  then have "enqueue_all pickle conn t d (job # jobs) c = enqueue_all pickle conn t d jobs
      (c\<lparr>cl_connection := True, cl_sent := cl_sent c + length (pickle m), cl_queue := [i]\<rparr>)"
    using assms(1) by (simp add: x enqueue_all_def enqueue_job_def redis_queue_def serialize_job_def init_redis_def)
  then show ?thesis by (simp add: enqueue_connected x)
qed

text \<open>
  Closing uses the same property: an executor that has not executed anything connects in order to close, which clears the queue, and
  fails when redis is not there.
\<close>

lemma close_connects:
  assumes "\<not> cl_connection c"
  shows "close_redis (\<lambda>_. Connected) c = (Inr (), c\<lparr>cl_queue := []\<rparr>)"
    and "\<exists>e. fst (close_redis (\<lambda>_. OtherError (PlainException ''AuthenticationError'')) c) = Inl e"
  using assms
  by (simp_all add: close_redis_def redis_queue_def init_redis_def redis_connect.simps [of _ "\<lambda>_. Connected"]
      redis_connect.simps [of _ "\<lambda>_. OtherError (PlainException ''AuthenticationError'')"])

end
