(* ===== verification/Worker_Setup.thy ===== *)
theory Worker_Setup
  imports Lock_Service Error_Handling Services_Manager
begin

text \<open>
  The configuration a worker starts with: \<open>default_config.py\<close>, \<open>standalone_config\<close> of \<open>worker/runner.py\<close>, the names of the
  loggers (\<open>utils/log.py\<close>) and the exporters of \<open>worker/services/tracing/config.py\<close>.

  Arguments: \<open>env\<close> is the environment, \<open>host\<close> and \<open>cwd\<close> are the host's name and the working directory, and importing a
  module is a function of its name.
\<close>

section \<open>Defaults\<close>

definition env_or :: "(string \<Rightarrow> string option) \<Rightarrow> string \<Rightarrow> string \<Rightarrow> string" where
  "env_or env k d = (case env k of None \<Rightarrow> d | Some v \<Rightarrow> v)"

datatype engine_env = Development | Test | Production

definition parse_env :: "string \<Rightarrow> engine_env result" where
  "parse_env s =
     (if s = ''development'' then Inr Development else if s = ''test'' then Inr Test
      else if s = ''production'' then Inr Production else Inl (ValueError ''not a valid Env''))"

record worker_manager_config =
  wc_flask_host :: string
  wc_flask_port :: int
  wc_database_url :: string
  wc_database_connection_creator :: "string option"
  wc_database_pool_recycle :: int
  wc_database_pool_pre_ping :: bool
  wc_static_definitions_directories :: "string list"
  wc_static_definitions_jobs_selector :: "string option"
  wc_work_items_per_worker :: nat

record rabbitmq_config =
  rq_url :: string
  rq_urls :: "(string, string) pydict"
  rq_reconnect_interval :: int

record services_config =
  sc_base_services :: "string list"
  sc_services :: "string list"

record engine_config =
  ec_env :: engine_env
  ec_worker_id :: string
  ec_selector :: "string option"
  ec_executors :: "string list option"
  ec_worker_manager_url :: string
  ec_standalone :: bool
  ec_services_manager :: services_config
  ec_rabbitmq :: rabbitmq_config
  ec_worker_manager :: worker_manager_config
  ec_redis_dsn :: string

definition service_path :: "string \<Rightarrow> string" where
  "service_path s = ''datalineup_engine.worker.services.'' @ s"

definition api_client_path :: string where "api_client_path = service_path ''api_client.ApiClient''"
definition databases_path :: string where "databases_path = service_path ''databases.Databases''"
definition standalone_client_path :: string where
  "standalone_client_path = service_path ''api_client.StandaloneApiClient''"

definition default_services :: services_config where
  "default_services = \<lparr>
     sc_base_services = [service_path ''tasks_runner.TasksRunnerService'', service_path ''http_client.HttpClient'',
       api_client_path, service_path ''job_state.service.JobStateService''],
     sc_services = [service_path ''tracing.Tracer'', service_path ''metrics.Metrics'', service_path ''loggers.Logger'',
       service_path ''rabbitmq.RabbitMQService'']\<rparr>"

definition client_services :: services_config where
  "client_services = default_services\<lparr>sc_services := [service_path ''rabbitmq.RabbitMQService'']\<rparr>"

definition default_executors :: "(string \<Rightarrow> string option) \<Rightarrow> string list option" where
  "default_executors env = Some (split_on (CHR '','') (env_or env ''DATALINEUP_EXECUTORS'' []))"

definition default_worker_manager :: "(string \<Rightarrow> string option) \<Rightarrow> string \<Rightarrow> worker_manager_config result" where
  "default_worker_manager env cwd =
     (case parse_int (env_or env ''DATALINEUP_FLASK_PORT'' ''5000'') of
        None \<Rightarrow> Inl (ValueError ''invalid literal for int()'')
      | Some port \<Rightarrow> Inr \<lparr>
          wc_flask_host = env_or env ''DATALINEUP_FLASK_HOST'' ''127.0.0.1'',
          wc_flask_port = port,
          wc_database_url = env_or env ''DATALINEUP_DATABASE_URL'' ''sqlite:///test.db'',
          wc_database_connection_creator = None,
          wc_database_pool_recycle = - 1,
          wc_database_pool_pre_ping = False,
          wc_static_definitions_directories =
            split_on (CHR '':'') (env_or env ''DATALINEUP_STATIC_DEFINITIONS_DIRS'' cwd),
          wc_static_definitions_jobs_selector = env ''DATALINEUP_STATIC_DEFINITIONS_JOBS_SELECTOR'',
          wc_work_items_per_worker = 10\<rparr>)"

definition default_config :: "(string \<Rightarrow> string option) \<Rightarrow> string \<Rightarrow> string \<Rightarrow> engine_config result" where
  "default_config env host cwd =
     rbind (parse_env (env_or env ''DATALINEUP_ENV'' ''development'')) (\<lambda>e.
     rbind (default_worker_manager env cwd) (\<lambda>wm.
     Inr \<lparr>ec_env = e, ec_worker_id = host, ec_selector = env ''DATALINEUP_SELECTOR'',
          ec_executors = default_executors env,
          ec_worker_manager_url = env_or env ''DATALINEUP_WORKER_MANAGER_URL'' ''http://127.0.0.1:5000'',
          ec_standalone = (env ''DATALINEUP_STANDALONE'' = Some ''1''),
          ec_services_manager = default_services,
          ec_rabbitmq = \<lparr>rq_url = env_or env ''DATALINEUP_AMQP_URL'' ''amqp://127.0.0.1/'', rq_urls = [],
            rq_reconnect_interval = 10\<rparr>,
          ec_worker_manager = wm, ec_redis_dsn = ''redis://localhost:6379''\<rparr>))"

text \<open>The request for work that the client makes of its configuration.\<close>

definition client_lock_input :: "engine_config \<Rightarrow> lock_input" where
  "client_lock_input cfg = \<lparr>li_worker_id = ec_worker_id cfg, li_selector = ec_selector cfg, li_executors = ec_executors cfg\<rparr>"

section \<open>Work for a worker's executors\<close>

text \<open>A request that names executors is answered with items of these executors only.\<close>

lemma join_items_executors:
  assumes "join_items sd inp repr_exn now ns d = Inr (qs, d')"
  shows "\<forall>q \<in> set qs. executor_selected inp (qi_executor q)"
  using assms
proof (induction ns arbitrary: d qs d')
  case (Cons n ns)
  show ?case
  proof (cases "join_definitions sd d n")
    case (Inr q)
    then obtain qs1 where "join_items sd inp repr_exn now ns d = Inr (qs1, d')"
      "qs = (if executor_selected inp (qi_executor q) then q # qs1 else qs1)"
      using Cons.prems by (auto simp: rbind_Inr_iff)
    with Cons.IH show ?thesis by auto
  next
    case (Inl e)
    then obtain d1 where "join_items sd inp repr_exn now ns d1 = Inr (qs, d')"
      using Cons.prems by (auto simp: rbind_Inr_iff)
    with Cons.IH show ?thesis by blast
  qed
qed simp

lemma collect_items_subset: "set (co_items (collect_items sd qs)) \<subseteq> set qs"
proof -
  have "set (co_items (fold (collect_item sd) qs c)) \<subseteq> set (co_items c) \<union> set qs" for c
    by (induction qs arbitrary: c) (fastforce simp: collect_item_def Let_def split: option.splits prod.splits)+
  from this [of empty_collected] show ?thesis by (simp add: collect_items_def empty_collected_def)
qed

theorem response_respects_executors:
  assumes "lock_jobs rmatch arrange repr_exn inp m sd now now' d = Inr (r, d')" "executors_given inp" "q \<in> set (lr_items r)"
  shows "qi_executor q \<in> set (the (li_executors inp))"
proof -
  obtain qs d2 names d1 where "join_items sd inp repr_exn now names d1 = Inr (qs, d2)"
    and r: "r = lock_response_of (collect_items sd qs)"
    using assms(1) by (auto simp: lock_jobs_def Let_def rbind_Inr_iff split: prod.splits)
  moreover have "q \<in> set qs"
    using assms(3) collect_items_subset [of sd qs] by (auto simp: r lock_response_of_def)
  ultimately show ?thesis
    using join_items_executors assms(2) by (fastforce simp: executor_selected_def)
qed

lemma response_respects_executors_witness:
  "\<exists>r d'. demo_request (Some [''x'']) = Inr (r, d') \<and> (\<forall>q \<in> set (lr_items r). qi_executor q \<in> {''x''})"
proof -
  have g: "executors_given (demo_lock (Some [''x'']))" by (simp add: executors_given_def demo_lock_def)
  obtain r d' where r: "demo_request (Some [''x'']) = Inr (r, d')"
    by (cases "demo_request (Some [''x''])") (auto simp: demo_simps)
  have "qi_executor q \<in> {''x''}" if "q \<in> set (lr_items r)" for q
    using response_respects_executors [OF r [unfolded demo_request_def] g that] by (simp add: demo_lock_def)
  with r show ?thesis by blast
qed

text \<open>
  Without \<open>DATALINEUP_EXECUTORS\<close> the list of executors is not empty: splitting the empty string gives one empty name. A
  worker started with the defaults asks for the executor whose name is empty, and gets no other item.
\<close>

lemma default_worker_gets_no_work:
  assumes "default_config env host cwd = Inr cfg" "env ''DATALINEUP_EXECUTORS'' = None"
    and "join_items sd (client_lock_input cfg) repr_exn now ns d = Inr (qs, d')"
  shows "ec_executors cfg = Some [[]] \<and> (\<forall>q \<in> set qs. qi_executor q = [])"
proof -
  have e: "ec_executors cfg = Some [[]]"
    using assms(1,2) by (auto simp: default_config_def default_executors_def env_or_def rbind_Inr_iff)
  with join_items_executors [OF assms(3)] show ?thesis
    by (auto simp: executor_selected_def executors_given_def client_lock_input_def)
qed

section \<open>Standing alone\<close>

text \<open>
  \<open>standalone_config\<close> on the lists of services: the two removals share one \<open>try\<close>, so the second is not reached when the first
  raises. \<open>list.remove\<close> removes the first occurrence.
\<close>

definition list_remove :: "'a \<Rightarrow> 'a list \<Rightarrow> 'a list option" where
  "list_remove x xs = (if x \<in> set xs then Some (remove1 x xs) else None)"

definition standalone_services :: "services_config \<Rightarrow> services_config" where
  "standalone_services c =
     (let (base, services) =
        (case list_remove api_client_path (sc_base_services c) of
           None \<Rightarrow> (sc_base_services c, sc_services c)
         | Some base \<Rightarrow>
             (case list_remove databases_path (sc_services c) of
                None \<Rightarrow> (base, sc_services c)
              | Some services \<Rightarrow> (base, services)))
      in \<lparr>sc_base_services = [databases_path, standalone_client_path] @ base, sc_services = services\<rparr>)"

definition standalone_engines :: "(string, string) pydict \<Rightarrow> (string, string) pydict" where
  "standalone_engines sync_engines = dsetdefault ''default'' ''sqlite:///standalone.db'' sync_engines"

definition all_services :: "services_config \<Rightarrow> string list" where
  "all_services c = sc_base_services c @ sc_services c"

text \<open>
  A configuration without repeated services that uses the API client keeps its services, apart from the client, and gains the two it needs, once
  each and first: whoever needs them finds them loaded.
\<close>

lemma standalone_services_once:
  assumes "distinct (all_services c)" "api_client_path \<in> set (sc_base_services c)"
    "databases_path \<notin> set (sc_base_services c)" "standalone_client_path \<notin> set (all_services c)"
  shows "distinct (all_services (standalone_services c)) \<and>
    set (all_services (standalone_services c)) =
      set (all_services c) - {api_client_path} \<union> {databases_path, standalone_client_path} \<and>
    take 2 (all_services (standalone_services c)) = [databases_path, standalone_client_path]"
proof -
  have ne: "databases_path \<noteq> standalone_client_path" "databases_path \<noteq> api_client_path" "api_client_path \<noteq> standalone_client_path"
    by (simp_all add: databases_path_def standalone_client_path_def api_client_path_def service_path_def)
  have "set (remove1 api_client_path (sc_base_services c)) = set (sc_base_services c) - {api_client_path}"
    "set (remove1 databases_path (sc_services c)) = set (sc_services c) - {databases_path}"
    using assms(1) by (simp_all add: all_services_def set_remove1_eq)
  with assms ne show ?thesis
    by (auto simp: standalone_services_def list_remove_def all_services_def distinct_remove1)
qed

lemma default_standalone:
  "all_services (standalone_services default_services) =
     [databases_path, standalone_client_path, service_path ''tasks_runner.TasksRunnerService'', service_path ''http_client.HttpClient'',
      service_path ''job_state.service.JobStateService'', service_path ''tracing.Tracer'', service_path ''metrics.Metrics'',
      service_path ''loggers.Logger'', service_path ''rabbitmq.RabbitMQService'']"
  by (simp add: standalone_services_def default_services_def list_remove_def all_services_def api_client_path_def
      databases_path_def service_path_def)

text \<open>
  A configuration that has its databases but not the API client gets the databases twice, and the worker does not start: the second
  service of a name is an error.
\<close>

lemma standalone_databases_twice:
  assumes "api_client_path \<notin> set (sc_base_services c)" "databases_path \<in> set (sc_services c)"
  shows "\<not> distinct (all_services (standalone_services c))"
  using assms by (auto simp: standalone_services_def list_remove_def all_services_def)

lemma second_service_is_refused:
  "sv_name c \<in> set (sm_services m) \<Longrightarrow> load_pass (c # cs) again m = Inl (ValueError ''Cannot load twice'')"
  by (simp add: load_service_def)

section \<open>Names of loggers\<close>

definition get_logger_name :: "string \<Rightarrow> string \<Rightarrow> string" where
  "get_logger_name module class_name =
     (let m = (if starts_with ''datalineup_engine.'' module then ''datalineup.'' @ drop 14 module else module)
      in m @ ''.'' @ class_name)"

text \<open>The prefix has eighteen characters, not fourteen: its end stays in the name.\<close>

lemma logger_names_keep_the_prefix:
  "get_logger_name ''datalineup_engine.worker.broker'' ''Broker'' = ''datalineup.ine.worker.broker.Broker''"
  by (simp add: get_logger_name_def starts_with_def)

text \<open>Two loggers share a name only when they are of one module and class, as far as the rest of the name tells.\<close>

lemma logger_name_injective:
  assumes "starts_with ''datalineup_engine.'' m" "starts_with ''datalineup_engine.'' n"
    "get_logger_name m c = get_logger_name n c"
  shows "m = n"
proof -
  have p: "take 18 m = ''datalineup_engine.''" "take 18 n = ''datalineup_engine.''"
    using assms(1,2) unfolding starts_with_def by (simp_all add: eval_nat_numeral)
  have "drop 14 m = drop 14 n" using assms by (simp add: get_logger_name_def)
  moreover have "take 14 m = take 14 n"
    using arg_cong [OF p(1), of "take 14"] arg_cong [OF p(2), of "take 14"] by (simp add: min_def)
  ultimately show ?thesis by (metis append_take_drop_id)
qed

section \<open>Exporters\<close>

text \<open>\<open>setup_tracer\<close>: an exporter that cannot be made is logged and left out; the console's is simple, the others are batched.\<close>

datatype span_processor = SimpleProcessor string | BatchProcessor string

record tracer_provider =
  tp_service_name :: string
  tp_processors :: "span_processor list"

definition add_exporter ::
  "(string \<Rightarrow> unit result) \<Rightarrow> (string \<Rightarrow> bool) \<Rightarrow> string \<Rightarrow> tracer_provider \<times> string list \<Rightarrow> tracer_provider \<times> string list" where
  "add_exporter load is_console e s =
     (case load e of
        Inl _ \<Rightarrow> (fst s, snd s @ [e])
      | Inr _ \<Rightarrow> ((fst s)\<lparr>tp_processors := tp_processors (fst s) @ [if is_console e then SimpleProcessor e else BatchProcessor e]\<rparr>, snd s))"

definition setup_tracer ::
  "(string \<Rightarrow> unit result) \<Rightarrow> (string \<Rightarrow> bool) \<Rightarrow> string \<Rightarrow> string list \<Rightarrow> tracer_provider \<times> string list" where
  "setup_tracer load is_console service_name exporters =
     fold (add_exporter load is_console) exporters (\<lparr>tp_service_name = service_name, tp_processors = []\<rparr>, [])"

lemma setup_tracer_result:
  "setup_tracer load is_console service_name exporters =
     (\<lparr>tp_service_name = service_name, tp_processors =
        map (\<lambda>e. if is_console e then SimpleProcessor e else BatchProcessor e) (filter (\<lambda>e. \<not> isl (load e)) exporters)\<rparr>,
      filter (\<lambda>e. isl (load e)) exporters)"
proof -
  have "fold (add_exporter load is_console) xs (p, f) = (p\<lparr>tp_processors := tp_processors p @
        map (\<lambda>e. if is_console e then SimpleProcessor e else BatchProcessor e) (filter (\<lambda>e. \<not> isl (load e)) xs)\<rparr>,
      f @ filter (\<lambda>e. isl (load e)) xs)" for xs p f
    by (induction xs arbitrary: p f) (auto simp: add_exporter_def split: sum.split)
  then show ?thesis by (simp add: setup_tracer_def)
qed

end
