(* ===== verification/Broker_Life.thy ===== *)
theory Broker_Life
  imports Services_Manager
begin

text \<open>
  The life of a worker: \<open>Broker\<close> of \<open>worker/broker.py\<close> under the signals that \<open>async_main\<close> of \<open>worker/runner.py\<close> handles.
  What a round of \<open>run_sync\<close> does to queues, executors and resources is in Work_Manager; here it ends well, is refused by
  the worker manager, or raises while it is applied.

  A handler runs between two awaits, so a signal is a step of its own. \<open>opens\<close> says which services raise when opened.
\<close>

section \<open>State and steps\<close>

datatype sync_task = TaskRunning | TaskCancelled

datatype broker_phase =
    Created
  | Initializing
  | Working sync_task
  | Ending \<comment> \<open>in the \<open>finally\<close> of \<open>run\<close>\<close>
  | Finished
  | Aborted exn \<comment> \<open>\<open>run\<close> has raised\<close>

record broker =
  br_is_running :: bool
  br_is_init :: bool
  br_services :: services_manager
  br_open :: "string list" \<comment> \<open>the services that are open\<close>
  br_executors :: bool \<comment> \<open>the executors' tasks are started\<close>
  br_handler :: bool \<comment> \<open>the signals are handled\<close>
  br_phase :: broker_phase

text \<open>\<open>async_main\<close> makes the broker and sets the handler; \<open>run\<close> is called next.\<close>

definition new_broker :: "services_manager \<Rightarrow> broker" where
  "new_broker m = \<lparr>br_is_running = False, br_is_init = False, br_services = m, br_open = [], br_executors = False,
     br_handler = True, br_phase = Created\<rparr>"

definition broker_run :: "broker \<Rightarrow> broker" where
  "broker_run b = b\<lparr>br_is_running := True, br_phase := Initializing\<rparr>"

text \<open>\<open>init\<close>, and what \<open>run\<close> does up to its first \<open>await\<close> of the task. An error of \<open>init\<close> leaves \<open>run\<close>: it is outside the \<open>try\<close>.\<close>

definition broker_init :: "(string \<Rightarrow> exn option) \<Rightarrow> broker \<Rightarrow> broker" where
  "broker_init opens b =
     (if br_is_init b then b\<lparr>br_executors := True, br_phase := Working TaskRunning\<rparr>
      else case open_services opens (br_services b) of
        ((done, Some e), m) \<Rightarrow> b\<lparr>br_services := m, br_open := br_open b @ done, br_phase := Aborted e\<rparr>
      | ((done, None), m) \<Rightarrow> b\<lparr>br_is_init := True, br_services := m, br_open := br_open b @ done,
                               br_executors := True, br_phase := Working TaskRunning\<rparr>)"

text \<open>\<open>stop\<close> cancels the task, if there is one, and the handler removes itself.\<close>

definition broker_stop :: "broker \<Rightarrow> broker" where
  "broker_stop b = (case br_phase b of Working t \<Rightarrow> b\<lparr>br_phase := Working TaskCancelled\<rparr> | _ \<Rightarrow> b)"

definition broker_signal :: "broker \<Rightarrow> broker" where
  "broker_signal b = (broker_stop b)\<lparr>br_handler := False\<rparr>"

definition broker_close :: "broker \<Rightarrow> broker" where
  "broker_close b = b\<lparr>br_executors := False,
     br_open := filter (\<lambda>s. s \<notin> set (close_services (br_services b))) (br_open b), br_phase := Finished\<rparr>"

inductive broker_step :: "(string \<Rightarrow> exn option) \<Rightarrow> broker \<Rightarrow> broker \<Rightarrow> bool" for opens where
  Run: "br_phase b = Created \<Longrightarrow> broker_step opens b (broker_run b)"
| Init: "br_phase b = Initializing \<Longrightarrow> broker_step opens b (broker_init opens b)"
| Signal: "br_handler b \<Longrightarrow> broker_step opens b (broker_signal b)"
| Round: "br_phase b = Working TaskRunning \<Longrightarrow> broker_step opens b b"
| Fatal: "br_phase b = Working TaskRunning \<Longrightarrow> broker_step opens b (b\<lparr>br_phase := Ending\<rparr>)"
| Cancelled: "br_phase b = Working TaskCancelled \<Longrightarrow> broker_step opens b (b\<lparr>br_phase := Ending\<rparr>)"
| Close: "br_phase b = Ending \<Longrightarrow> broker_step opens b (broker_close b)"

inductive broker_reachable :: "(string \<Rightarrow> exn option) \<Rightarrow> services_manager \<Rightarrow> broker \<Rightarrow> bool" for opens m where
  Start: "broker_reachable opens m (new_broker m)"
| Step: "broker_reachable opens m b \<Longrightarrow> broker_step opens b b' \<Longrightarrow> broker_reachable opens m b'"

inductive_cases broker_stepE: "broker_step opens b b'"

section \<open>Everything is closed\<close>

lemma open_each_all: "open_each opens ss = (done, None) \<Longrightarrow> done = ss"
  by (induction ss arbitrary: "done") (auto split: option.splits prod.splits)

definition broker_inv :: "services_manager \<Rightarrow> broker \<Rightarrow> bool" where
  "broker_inv m b \<longleftrightarrow>
     sm_loaded (br_services b) = sm_loaded m \<and>
     (case br_phase b of
        Created \<Rightarrow> \<not> br_is_init b \<and> br_services b = m \<and> br_open b = [] \<and> \<not> br_executors b
      | Initializing \<Rightarrow> \<not> br_is_init b \<and> br_services b = m \<and> br_open b = [] \<and> \<not> br_executors b
      | Working _ \<Rightarrow> sm_opened (br_services b) \<and> br_open b = sm_loaded m \<and> br_executors b
      | Ending \<Rightarrow> sm_opened (br_services b) \<and> br_open b = sm_loaded m \<and> br_executors b
      | Finished \<Rightarrow> br_open b = [] \<and> \<not> br_executors b
      | Aborted e \<Rightarrow> \<not> sm_opened (br_services b) \<and> \<not> br_executors b)"

lemma broker_init_inv:
  assumes "broker_inv m b" "br_phase b = Initializing" "\<not> sm_opened m"
  shows "broker_inv m (broker_init opens b)"
proof -
  obtain d e where o: "open_each opens (sm_loaded m) = (d, e)" by fastforce
  show ?thesis
  proof (cases e)
    case None
    with assms o open_each_all [OF o [unfolded None]] show ?thesis
      by (simp add: broker_inv_def broker_init_def open_services_def)
  next
    case (Some x)
    with assms o show ?thesis by (simp add: broker_inv_def broker_init_def open_services_def)
  qed
qed

lemma broker_step_inv:
  assumes "broker_step opens b b'" "broker_inv m b" "\<not> sm_opened m"
  shows "broker_inv m b'"
  using assms
proof (cases rule: broker_step.cases)
  case Init
  with assms broker_init_inv show ?thesis by blast
next
  case Signal
  with assms(2) show ?thesis
    by (auto simp: broker_inv_def broker_signal_def broker_stop_def split: broker_phase.splits)
next
  case Close
  with assms(2) show ?thesis by (simp add: broker_inv_def broker_close_def close_services_def)
qed (auto simp: broker_inv_def broker_run_def)


definition two_services :: services_manager where
  "two_services = \<lparr>sm_config = new_config, sm_services = [''a'', ''b''],
     sm_loaded = [''a'', ''b''], sm_opened = False\<rparr>"


text \<open>A signal that reaches a working worker stops it: from then on it can only end.\<close>

lemma stopped_worker_ends:
  assumes "br_phase b = Working TaskCancelled" "broker_step opens b b'"
  shows "br_phase b' \<in> {Working TaskCancelled, Ending}"
  using assms(2) assms(1) by (cases rule: broker_stepE) (auto simp: broker_signal_def broker_stop_def)

lemma signal_stops_worker: "br_phase b = Working t \<Longrightarrow> br_phase (broker_signal b) = Working TaskCancelled"
  by (simp add: broker_signal_def broker_stop_def)

section \<open>While the worker initialises\<close>

text \<open>
  A signal during the initialisation is lost: there is no task to cancel yet, and the handler is gone. The worker goes on
  working, and no later signal is handled.
\<close>

lemma signal_during_init_is_lost:
  assumes "br_phase b = Initializing" "br_handler b" "\<not> br_is_init b" "\<not> sm_opened (br_services b)" "\<forall>s. opens s = None"
  shows "br_phase (broker_init opens (broker_signal b)) = Working TaskRunning \<and> \<not> br_handler (broker_init opens (broker_signal b))"
proof -
  have "open_each opens ss = (ss, None)" for ss using assms(5) by (induction ss) simp_all
  then show ?thesis
    using assms by (simp add: broker_signal_def broker_stop_def broker_init_def open_services_def)
qed

lemma init_keeps_handler: "br_handler (broker_init opens b) = br_handler b"
  by (simp add: broker_init_def split: prod.split option.split)

lemma lost_signal_is_final:
  assumes "broker_step opens b b'" "\<not> br_handler b"
  shows "\<not> br_handler b'"
  using assms by (auto elim!: broker_stepE simp: init_keeps_handler broker_run_def broker_close_def)

text \<open>A service that fails to open ends the worker, and those opened before it are not closed: \<open>close\<close> is not called, nor would it close them.\<close>

lemma failed_init_leaves_services_open:
  assumes "\<not> sm_opened m" "sm_loaded m = [''a'', ''b'']" "opens ''a'' = None" "opens ''b'' = Some e"
  shows "let b = broker_init opens (broker_run (new_broker m)) in
    br_phase b = Aborted e \<and> br_open b = [''a''] \<and> close_services (br_services b) = []"
  using assms by (simp add: new_broker_def broker_run_def broker_init_def open_services_def close_services_def)

end
