(* ===== verification/Http_Api.thy ===== *)
theory Http_Api
  imports Manager_Api
begin

text \<open>
  The HTTP side of the worker manager: the errors of \<open>utils/flask.py\<close>, the transaction of \<open>session_scope\<close> (\<open>database.py\<close>)
  and every request of \<open>worker_manager/api/\<close>, those that only read included. Manager_Api has the requests that write as steps
  of the database; here they are served, with their status and body.

  Arguments: pydantic (\<open>decoders\<close>: a value or its errors), werkzeug (the name and description of a status code, the text
  of an exception) and the error that flask makes of another exception.
\<close>

section \<open>Errors\<close>

record http_exception =
  hx_code :: "int option"
  hx_name :: string
  hx_description :: "string option"
  hx_custom :: "(string option \<times> pyval) option" \<comment> \<open>\<open>error_code\<close> and \<open>data\<close> of a \<open>CustomHTTPException\<close>\<close>
  hx_data :: pyval \<comment> \<open>the attribute \<open>data\<close> another library may have set, or \<open>None\<close>\<close>

datatype failure = Http http_exception | Crash exn

record werkzeug =
  wz_known :: "int \<Rightarrow> (string \<times> string) option" \<comment> \<open>the name and the description of a code\<close>
  wz_text :: "http_exception \<Rightarrow> string"

definition py_int_str :: "int option \<Rightarrow> string" where
  "py_int_str c = (case c of None \<Rightarrow> ''None'' | Some n \<Rightarrow> int_str n)"

definition or_default :: "string option \<Rightarrow> string \<Rightarrow> string" where
  "or_default s d = (if struthy s then the s else d)"

definition get_exception_data :: "string \<Rightarrow> string \<Rightarrow> pyval \<Rightarrow> pyval" where
  "get_exception_data error_code message error_data =
     PDict [(''error'', PDict [(''code'', PStr error_code), (''message'', PStr message),
       (''data'', if truthy error_data then error_data else PDict [])])]"

definition messages_of :: "pyval \<Rightarrow> pyval" where
  "messages_of data = (case data of PDict d \<Rightarrow> dget_or d ''messages'' (PDict []) | _ \<Rightarrow> PDict [])"

definition http_exception_error_handler :: "werkzeug \<Rightarrow> http_exception \<Rightarrow> pyval \<times> int" where
  "http_exception_error_handler wz e =
     (let status = (case hx_code e of None \<Rightarrow> 500 | Some c \<Rightarrow> if c = 0 then 500 else c);
          message = or_default (hx_description e) (wz_text wz e)
      in (case hx_custom e of
            Some (error_code, data) \<Rightarrow> get_exception_data (or_default error_code (py_int_str (hx_code e))) message data
          | None \<Rightarrow> get_exception_data (py_int_str (hx_code e)) message (messages_of (hx_data e)),
          status))"

text \<open>\<open>abort\<close>: a code that werkzeug does not know is a \<open>LookupError\<close>, which leaves \<open>abort\<close> as it is.\<close>

definition abort :: "werkzeug \<Rightarrow> int \<Rightarrow> string option \<Rightarrow> string option \<Rightarrow> pyval \<Rightarrow> failure" where
  "abort wz http_code error_code message data =
     (case wz_known wz http_code of
        None \<Rightarrow> Crash (PlainException ''LookupError'')
      | Some (name, description) \<Rightarrow>
          Http \<lparr>hx_code = Some http_code, hx_name = name, hx_description = Some (or_default message description),
                hx_custom = Some (error_code, data), hx_data = data\<rparr>)"

definition check_found :: "werkzeug \<Rightarrow> 'a option \<Rightarrow> failure + 'a" where
  "check_found wz item =
     (case item of None \<Rightarrow> Inl (abort wz 404 (Some ''NOT_FOUND'') (Some ''Item not found'') PNone) | Some x \<Rightarrow> Inr x)"

text \<open>\<open>flask.request.json or {}\<close> goes to pydantic.\<close>

definition marshall_request :: "werkzeug \<Rightarrow> (pyval \<Rightarrow> pyval + 'a) \<Rightarrow> pyval \<Rightarrow> failure + 'a" where
  "marshall_request wz decode json =
     (case decode (if truthy json then json else PDict []) of
        Inl errors \<Rightarrow> Inl (abort wz 400 (Some ''INVALID_INPUT'') (Some ''Invalid input'') errors)
      | Inr x \<Rightarrow> Inr x)"

text \<open>A client finds in the response what the code that aborted has said: its code, its message, and its data unless they are empty.\<close>

lemma abort_is_reported:
  assumes "wz_known wz c = Some (name, description)" "c \<noteq> 0" "struthy error_code" "struthy message"
  shows "\<exists>e. abort wz c error_code message data = Http e \<and>
    http_exception_error_handler wz e =
      (get_exception_data (the error_code) (the message) data, c)"
proof -
  have "(the message) \<noteq> []" using assms(4) by (cases message) auto
  with assms show ?thesis
    by (auto simp: abort_def http_exception_error_handler_def or_default_def Let_def)
qed

text \<open>An exception without a code has the status 500, and the code \<open>None\<close>.\<close>

lemma missing_code_is_none:
  "hx_code e = None \<Longrightarrow> hx_custom e = None \<Longrightarrow>
     http_exception_error_handler wz e = (get_exception_data ''None'' (or_default (hx_description e) (wz_text wz e)) (messages_of (hx_data e)), 500)"
  by (simp add: http_exception_error_handler_def py_int_str_def)

section \<open>Transactions\<close>

definition session_scope :: "(db \<Rightarrow> failure + ('a \<times> db)) \<Rightarrow> db \<Rightarrow> (failure + 'a) \<times> db" where
  "session_scope body d = (case body d of Inl e \<Rightarrow> (Inl e, d) | Inr (x, d') \<Rightarrow> (Inr x, d'))"

section \<open>Requests\<close>

record job_item =
  jb_name :: string
  jb_started_at :: time
  jb_completed_at :: "time option"
  jb_cursor :: "string option"
  jb_error :: "string option"
  jb_enabled :: bool
  jb_assigned_to :: "string option"
  jb_assigned_at :: "time option"

definition as_core_item :: "db \<Rightarrow> job_row \<Rightarrow> job_item" where
  "as_core_item d j =
     (let base = \<lparr>jb_name = jr_name j, jb_started_at = jr_started_at j, jb_completed_at = jr_completed_at j,
            jb_cursor = (if struthy (jr_cursor j) then jr_cursor j else None), jb_error = jr_error j,
            jb_enabled = True, jb_assigned_to = None, jb_assigned_at = None\<rparr>
      in case find (\<lambda>q. qr_name q = jr_queue_name j) (db_queues d) of
           None \<Rightarrow> base
         | Some q \<Rightarrow> base\<lparr>jb_enabled := qr_enabled q, jb_assigned_to := qr_assigned_to q, jb_assigned_at := qr_assigned_at q\<rparr>)"

definition get_jobs :: "db \<Rightarrow> job_row list" where
  "get_jobs d = db_jobs d"

datatype request =
    GetJobs
  | GetJob string
  | PutJob string pyval
  | PostSync
  | PostStates pyval
  | PostFetch pyval
  | PostStart "string option" pyval \<comment> \<open>the argument \<open>restart\<close>\<close>
  | PostLock pyval
  | GetInventories
  | GetTopics
  | GetJobDefinitions
  | GetStatus

datatype body =
    JobsBody "job_item list"
  | JobBody job_item
  | ComponentsBody "component_definition list"
  | DefinitionsBody "job_definition list"
  | LockBody lock_response
  | CursorsBody "(string, (string, pyval option) pydict) pydict"
  | StartedBody string
  | EmptyBody
  | ErrorBody pyval

record decoders =
  dc_job :: "pyval \<Rightarrow> pyval + job_input"
  dc_states :: "pyval \<Rightarrow> pyval + jobs_states"
  dc_fetch :: "pyval \<Rightarrow> pyval + (string, string list) pydict"
  dc_start :: "pyval \<Rightarrow> pyval + start_job_input"
  dc_lock :: "pyval \<Rightarrow> pyval + lock_input"

text \<open>The application: the state of a request is the database; the definitions are loaded before it, the clocks are those it reads.\<close>

record app =
  ap_env :: manager_env
  ap_werkzeug :: werkzeug
  ap_decoders :: decoders
  ap_definitions :: static_definitions
  ap_now :: time
  ap_later :: time
  ap_sync_locked :: bool

definition crash :: "'a result \<Rightarrow> failure + 'a" where
  "crash r = (case r of Inl e \<Rightarrow> Inl (Crash e) | Inr x \<Rightarrow> Inr x)"

definition get_job_view :: "app \<Rightarrow> string \<Rightarrow> db \<Rightarrow> (failure + body) \<times> db" where
  "get_job_view a n = session_scope (\<lambda>d.
     rbind (check_found (ap_werkzeug a) (get_job n d)) (\<lambda>j. Inr (JobBody (as_core_item d j), d)))"

definition put_job_view :: "app \<Rightarrow> string \<Rightarrow> pyval \<Rightarrow> db \<Rightarrow> (failure + body) \<times> db" where
  "put_job_view a n json d =
     (case marshall_request (ap_werkzeug a) (dc_job (ap_decoders a)) json of
        Inl e \<Rightarrow> (Inl e, d)
      | Inr i \<Rightarrow>
          if struthy (ji_error i) \<and> ji_completed_at i = None
          then (Inl (abort (ap_werkzeug a) 400 (Some ''CANNOT_ERROR_UNCOMPLETED_JOB'') None PNone), d)
          else session_scope (\<lambda>d. rbind (crash (update_job n (ji_cursor i) (ji_completed_at i) (ji_error i) d))
                 (\<lambda>d'. Inr (EmptyBody, d'))) d)"

definition sync_view :: "app \<Rightarrow> db \<Rightarrow> (failure + body) \<times> db" where
  "sync_view a = session_scope (\<lambda>d.
     Inr (EmptyBody, sync_jobs (me_next_run (ap_env a)) (ap_sync_locked a) (ap_definitions a) (ap_now a) d))"

definition states_view :: "app \<Rightarrow> pyval \<Rightarrow> db \<Rightarrow> (failure + body) \<times> db" where
  "states_view a json d =
     (case marshall_request (ap_werkzeug a) (dc_states (ap_decoders a)) json of
        Inl e \<Rightarrow> (Inl e, d)
      | Inr st \<Rightarrow> session_scope (\<lambda>d. Inr (EmptyBody, sync_jobs_states st d)) d)"

definition fetch_view :: "app \<Rightarrow> pyval \<Rightarrow> db \<Rightarrow> (failure + body) \<times> db" where
  "fetch_view a json d =
     (case marshall_request (ap_werkzeug a) (dc_fetch (ap_decoders a)) json of
        Inl e \<Rightarrow> (Inl e, d)
      | Inr query \<Rightarrow> session_scope (\<lambda>d. Inr (CursorsBody (fetch_cursors_states query d), d)) d)"

text \<open>Only a \<open>ValueError\<close> of \<open>start\<close> is turned into a response; \<open>abort\<close> raises inside the transaction.\<close>

definition start_view :: "app \<Rightarrow> string option \<Rightarrow> pyval \<Rightarrow> db \<Rightarrow> (failure + body) \<times> db" where
  "start_view a restart json d =
     (case marshall_request (ap_werkzeug a) (dc_start (ap_decoders a)) json of
        Inl e \<Rightarrow> (Inl e, d)
      | Inr inp \<Rightarrow>
          if \<not> struthy (sj_name inp) \<and> \<not> struthy (sj_job_definition_name inp)
          then (Inl (abort (ap_werkzeug a) 400 (Some ''MUST_SPECIFY_JOB'') None PNone), d)
          else if struthy (sj_name inp) \<and> struthy (sj_job_definition_name inp)
          then (Inl (abort (ap_werkzeug a) 400 (Some ''MUST_SPECIFY_ONE_JOB'') None PNone), d)
          else session_scope (\<lambda>d.
            case start inp (ap_definitions a) (restart = Some ''true'') (ap_now a) d of
              Inl (ValueError m) \<Rightarrow> Inl (abort (ap_werkzeug a) 400 (Some ''JOB_START_ERROR'') (Some m) PNone)
            | Inl e \<Rightarrow> Inl (Crash e)
            | Inr (n, d') \<Rightarrow> Inr (StartedBody n, d')) d)"

definition lock_view :: "app \<Rightarrow> pyval \<Rightarrow> db \<Rightarrow> (failure + body) \<times> db" where
  "lock_view a json d =
     (case marshall_request (ap_werkzeug a) (dc_lock (ap_decoders a)) json of
        Inl e \<Rightarrow> (Inl e, d)
      | Inr inp \<Rightarrow> session_scope (\<lambda>d.
          rbind (crash (lock_jobs (me_rmatch (ap_env a)) (me_arrange (ap_env a)) (me_repr (ap_env a)) inp
              (me_max_items (ap_env a)) (ap_definitions a) (ap_now a) (ap_later a) d))
            (\<lambda>(r, d'). Inr (LockBody r, d'))) d)"

definition view :: "app \<Rightarrow> request \<Rightarrow> db \<Rightarrow> (failure + body) \<times> db" where
  "view a req d =
     (case req of
        GetJobs \<Rightarrow> session_scope (\<lambda>d. Inr (JobsBody (map (as_core_item d) (get_jobs d)), d)) d
      | GetJob n \<Rightarrow> get_job_view a n d
      | PutJob n json \<Rightarrow> put_job_view a n json d
      | PostSync \<Rightarrow> sync_view a d
      | PostStates json \<Rightarrow> states_view a json d
      | PostFetch json \<Rightarrow> fetch_view a json d
      | PostStart restart json \<Rightarrow> start_view a restart json d
      | PostLock json \<Rightarrow> lock_view a json d
      | GetInventories \<Rightarrow> (Inr (ComponentsBody (dvalues (sd_inventories (ap_definitions a)))), d)
      | GetTopics \<Rightarrow> (Inr (ComponentsBody (dvalues (sd_topics (ap_definitions a)))), d)
      | GetJobDefinitions \<Rightarrow> (Inr (DefinitionsBody (dvalues (sd_job_definitions (ap_definitions a)))), d)
      | GetStatus \<Rightarrow> (Inr EmptyBody, d))"

text \<open>Every \<open>HTTPException\<close> goes to the error handler; flask makes an internal error of any other exception first.\<close>

definition internal_error :: "werkzeug \<Rightarrow> http_exception" where
  "internal_error wz =
     (let (name, description) = (case wz_known wz 500 of None \<Rightarrow> ([], []) | Some nd \<Rightarrow> nd)
      in \<lparr>hx_code = Some 500, hx_name = name, hx_description = Some description, hx_custom = None, hx_data = PNone\<rparr>)"

definition handle_failure :: "werkzeug \<Rightarrow> failure \<Rightarrow> int \<times> body" where
  "handle_failure wz f =
     (case http_exception_error_handler wz (case f of Http e \<Rightarrow> e | Crash _ \<Rightarrow> internal_error wz) of
        (data, status) \<Rightarrow> (status, ErrorBody data))"

definition serve :: "app \<Rightarrow> request \<Rightarrow> db \<Rightarrow> (int \<times> body) \<times> db" where
  "serve a req d =
     (case view a req d of
        (Inl f, d') \<Rightarrow> (handle_failure (ap_werkzeug a) f, d')
      | (Inr b, d') \<Rightarrow> ((200, b), d'))"

section \<open>What a client can rely on\<close>

lemma scope_keeps_on_failure: "session_scope f d = (Inl e, d') \<Longrightarrow> d' = d"
  by (auto simp: session_scope_def split: sum.splits)

lemma failed_view_changes_nothing: "view a req d = (Inl f, d') \<Longrightarrow> d' = d"
  by (cases req)
    (auto simp: view_def get_job_view_def put_job_view_def sync_view_def states_view_def fetch_view_def start_view_def lock_view_def
      dest: scope_keeps_on_failure split: sum.splits if_splits)

lemma scope_result: "session_scope f d = (Inr x, d') \<Longrightarrow> f d = Inr (x, d')"
  by (auto simp: session_scope_def split: sum.splits)

lemma crash_Inr: "crash r = Inr x \<longleftrightarrow> r = Inr x"
  by (simp add: crash_def split: sum.split)

lemma view_is_step:
  assumes "view a req d = (Inr b, d')" "ap_now a \<le> ap_later a"
  shows "d' = d \<or> (\<exists>e. manager_step (ap_env a) d e d')"
proof (cases req)
  case (PutJob n json)
  with assms obtain i where i: "marshall_request (ap_werkzeug a) (dc_job (ap_decoders a)) json = Inr i"
    by (auto simp: view_def put_job_view_def split: sum.splits)
  with assms PutJob have "api_update_job n i d = Inr d'"
    by (auto simp: view_def put_job_view_def api_update_job_def rbind_Inr_iff crash_Inr dest!: scope_result split: if_splits)
  then show ?thesis by (blast intro: update_step)
next
  case PostSync
  with assms have "d' = sync_jobs (me_next_run (ap_env a)) (ap_sync_locked a) (ap_definitions a) (ap_now a) d"
    by (auto simp: view_def sync_view_def dest!: scope_result)
  then show ?thesis by (blast intro: sync_step)
next
  case (PostStates json)
  with assms obtain st where "d' = sync_jobs_states st d"
    by (auto simp: view_def states_view_def dest!: scope_result split: sum.splits)
  then show ?thesis by (blast intro: states_step)
next
  case (PostStart restart json)
  with assms obtain inp n where "start inp (ap_definitions a) (restart = Some ''true'') (ap_now a) d = Inr (n, d')"
    "\<not> (\<not> struthy (sj_name inp) \<and> \<not> struthy (sj_job_definition_name inp))"
    "\<not> (struthy (sj_name inp) \<and> struthy (sj_job_definition_name inp))"
    by (auto simp: view_def start_view_def dest!: scope_result split: sum.splits if_splits exn.splits)
  then have "api_start_job inp (ap_definitions a) (restart = Some ''true'') (ap_now a) d = Inr (n, d')"
    unfolding api_start_job_def by (simp only: if_False)
  then show ?thesis by (blast intro: start_step)
next
  case (PostLock json)
  with assms obtain inp r where "lock_jobs (me_rmatch (ap_env a)) (me_arrange (ap_env a)) (me_repr (ap_env a)) inp
      (me_max_items (ap_env a)) (ap_definitions a) (ap_now a) (ap_later a) d = Inr (r, d')"
    by (auto simp: view_def lock_view_def rbind_Inr_iff crash_Inr dest!: scope_result split: sum.splits)
  then show ?thesis using assms(2) by (blast intro: lock_step)
qed (use assms in \<open>auto simp: view_def get_job_view_def fetch_view_def rbind_Inr_iff dest!: scope_result split: sum.splits\<close>)

text \<open>The requests of a server, one after the other; its definitions and clocks may change between them.\<close>

definition serve_all :: "(app \<times> request) list \<Rightarrow> db \<Rightarrow> (int \<times> body) list \<times> db" where
  "serve_all reqs d = fold (\<lambda>(a, req) (rs, d). case serve a req d of (r, d') \<Rightarrow> (rs @ [r], d')) reqs ([], d)"

lemma api_call_step:
  assumes "ap_env a = env" "ap_now a \<le> ap_later a"
  shows "snd (serve a req d) = d \<or> (\<exists>e. manager_step env d e (snd (serve a req d)))"
proof -
  obtain r d' where v: "view a req d = (r, d')" by fastforce
  show ?thesis
  proof (cases r)
    case (Inl f)
    with v failed_view_changes_nothing show ?thesis by (auto simp: serve_def)
  next
    case (Inr b)
    with v view_is_step [of a req d b d'] assms show ?thesis by (auto simp: serve_def)
  qed
qed

lemma serve_all_snoc: "snd (serve_all (reqs @ [x]) d) = snd (serve (fst x) (snd x) (snd (serve_all reqs d)))"
  by (simp add: serve_all_def split: prod.split)


definition demo_app :: app where
  "demo_app = \<lparr>ap_env = demo_env,
     ap_werkzeug = \<lparr>wz_known = \<lambda>c. if c = 400 then Some (''Bad Request'', ''Bad'') else None, wz_text = \<lambda>_. []\<rparr>,
     ap_decoders = \<lparr>dc_job = Inl, dc_states = Inl, dc_fetch = Inl, dc_start = Inl, dc_lock = \<lambda>_. Inr (demo_lock None)\<rparr>,
     ap_definitions = demo_sd, ap_now = 0, ap_later = 0, ap_sync_locked = False\<rparr>"


text \<open>A job that is not there is a 404; a completed request has the status 200.\<close>

lemma get_job_status:
  assumes "wz_known (ap_werkzeug a) 404 = Some (name, description)"
  shows "serve a (GetJob n) d =
    (case get_job n d of
       None \<Rightarrow> ((404, ErrorBody (get_exception_data ''NOT_FOUND'' ''Item not found'' (PDict []))), d)
     | Some j \<Rightarrow> ((200, JobBody (as_core_item d j)), d))"
  using assms
  by (simp add: serve_def view_def get_job_view_def session_scope_def check_found_def abort_def handle_failure_def
      http_exception_error_handler_def or_default_def Let_def get_exception_data_def split: option.split)

lemma bad_input_status:
  assumes "wz_known (ap_werkzeug a) 400 = Some (name, description)" "dc_states (ap_decoders a) (PDict []) = Inl errors"
  shows "serve a (PostStates PNone) d = ((400, ErrorBody (get_exception_data ''INVALID_INPUT'' ''Invalid input'' errors)), d)"
  using assms
  by (simp add: serve_def view_def states_view_def marshall_request_def abort_def handle_failure_def
      http_exception_error_handler_def or_default_def Let_def get_exception_data_def)

lemma int_str_500: "int_str 500 = ''500''"
  by code_simp

text \<open>
  A job that does not exist is updated with success when it is not completed, and with an internal error when it is.
\<close>

lemma update_of_unknown_job:
  assumes "get_job n d = None" "dc_job (ap_decoders a) json = Inr i" "truthy json" "ji_error i = None"
    "wz_known (ap_werkzeug a) 500 = Some (name, c # cs)"
  shows "ji_completed_at i = None \<Longrightarrow> ji_cursor i = None \<Longrightarrow> serve a (PutJob n json) d = ((200, EmptyBody), d)"
    and "ji_completed_at i = Some t \<Longrightarrow>
      serve a (PutJob n json) d = ((500, ErrorBody (get_exception_data ''500'' (c # cs) (PDict []))), d)"
  using assms
  by (simp_all add: serve_def view_def put_job_view_def marshall_request_def update_job_def close_job_queue_def session_scope_def
      crash_def handle_failure_def internal_error_def http_exception_error_handler_def or_default_def Let_def py_int_str_def
      get_exception_data_def messages_of_def int_str_500)

end
