(* ===== verification/Adapters.thy ===== *)
theory Adapters
  imports Message_Logs Cursors Topics Traceback
begin

text \<open>
  Small adapters: \<open>worker/inventories/topic.py\<close> (a topic as an inventory), \<open>worker/topics/logger.py\<close> (a log as a topic), the
  base of topics that block (\<open>BlockingTopic\<close> of \<open>worker/topic.py\<close>) and \<open>worker/services/databases.py\<close>.
\<close>

section \<open>A topic as an inventory\<close>

text \<open>
  \<open>TopicAdapter.iterate\<close>: a context of the topic that cannot be entered is logged; the others are handed on with the item, which
  leaves them when it is done. The messages are what entering them gave; an item's identity is its position.
\<close>

definition adapt_message :: "nat \<Rightarrow> topic_message \<Rightarrow> item" where
  "adapt_message oid m =
     \<lparr>it_oid = oid, it_id = tm_id m, it_args = tm_args m, it_cursor = None, it_tags = tm_tags m, it_metadata = tm_metadata m,
      it_config = []\<rparr>"

fun adapter_iterate :: "nat \<Rightarrow> topic_message result list \<Rightarrow> item list \<times> nat" where
  "adapter_iterate k [] = ([], 0)"
| "adapter_iterate k (Inl e # ms) = (case adapter_iterate (Suc k) ms of (is, failed) \<Rightarrow> (is, Suc failed))"
| "adapter_iterate k (Inr m # ms) = (case adapter_iterate (Suc k) ms of (is, failed) \<Rightarrow> (adapt_message k m # is, failed))"

text \<open>Every message that could be entered becomes an item, in order, and the failures are counted by the log.\<close>

lemma adapter_iterate_items:
  "map it_id (fst (adapter_iterate k ms)) = map tm_id (List.map_filter (\<lambda>m. case m of Inl _ \<Rightarrow> None | Inr m \<Rightarrow> Some m) ms) \<and>
   snd (adapter_iterate k ms) = length (filter isl ms) \<and> distinct (map it_oid (fst (adapter_iterate k ms))) \<and>
   (\<forall>i \<in> set (fst (adapter_iterate k ms)). it_cursor i = None \<and> k \<le> it_oid i)"
proof (induction k ms rule: adapter_iterate.induct)
  case (3 k m ms)
  obtain items n where r: "adapter_iterate (Suc k) ms = (items, n)" by fastforce
  with 3 show ?case by (auto simp: map_filter_simps adapt_message_def dest: Suc_leD)
qed (auto simp: map_filter_simps split: prod.splits dest: Suc_leD)

text \<open>The items have no cursor: a job over a topic never moves its cursor, so it saves nothing.\<close>

lemma commit_without_cursors: "\<forall>i \<in> set items. it_cursor i = None \<Longrightarrow> commit_cursor items a = a"
  by (auto simp: commit_cursor_def find_None_iff split: option.split dest!: find_Some_iff [THEN iffD1] nth_mem)

text \<open>The configuration of a message is not handed on.\<close>

lemma adapter_drops_config:
  "tm_config (as_topic_message (adapt_message k m)) = []"
  "tm_args (as_topic_message (adapt_message k m)) = tm_args m" "tm_id (as_topic_message (adapt_message k m)) = tm_id m"
  by (simp_all add: as_topic_message_def adapt_message_def)

section \<open>A log as a topic\<close>

datatype log_level = LevelDebug | LevelInfo | LevelWarning | LevelError

record log_line =
  ln_level :: log_level
  ln_text :: string
  ln_data :: "(string, pyval) pydict"

text \<open>
  \<open>LoggingTopic.publish\<close>. \<open>as_error\<close> recognises the \<open>ErrorMessageArgs\<close> of an error channel and gives its message and
  traceback.
\<close>

definition logging_publish ::
  "(pyval \<Rightarrow> (string \<times> traceback_data) option) \<Rightarrow> log_level \<Rightarrow> topic_message \<Rightarrow> log_line \<times> bool" where
  "logging_publish as_error level m =
     (let data = topic_message_data True m
      in case (case dget (tm_args m) ''error'' of None \<Rightarrow> None | Some v \<Rightarrow> as_error v) of
           None \<Rightarrow> (\<lparr>ln_level = level, ln_text = ''Message published: '' @ tm_id m, ln_data = data\<rparr>, True)
         | Some (message, tb) \<Rightarrow>
             (\<lparr>ln_level = level, ln_text = message,
               ln_data = dset ''exception'' (PStr (remote_exception_str tb)) (dpop ''args'' data)\<rparr>, True))"

text \<open>An error is logged with its own message and its traceback; the arguments, which hold both again, are left out.\<close>

lemma logged_error:
  assumes "dget (tm_args m) ''error'' = Some v" "as_error v = Some (message, tb)"
  shows "ln_text (fst (logging_publish as_error level m)) = message"
    and "dget (ln_data (fst (logging_publish as_error level m))) ''exception'' = Some (PStr (remote_exception_str tb))"
    and "\<not> dhas ''args'' (ln_data (fst (logging_publish as_error level m)))"
  using assms by (simp_all add: logging_publish_def Let_def dhas_iff_dget)

section \<open>Topics that block\<close>

text \<open>
  Publishing takes a place of a semaphore and runs in a thread. \<open>bt_running\<close> are the publications in a thread, \<open>bt_waiting\<close> those
  that wait for a place; a publication that must not wait is refused when there is none.
\<close>

record blocking_topic =
  bt_free :: nat
  bt_running :: "nat list"
  bt_waiting :: "nat list"
  bt_refused :: "nat list"

definition new_blocking :: "nat \<Rightarrow> blocking_topic" where
  "new_blocking max_concurrency = \<lparr>bt_free = max_concurrency, bt_running = [], bt_waiting = [], bt_refused = []\<rparr>"

definition blocking_publish :: "nat \<Rightarrow> bool \<Rightarrow> blocking_topic \<Rightarrow> blocking_topic" where
  "blocking_publish x wait s =
     (if \<not> wait \<and> bt_free s = 0 then s\<lparr>bt_refused := bt_refused s @ [x]\<rparr>
      else if 0 < bt_free s \<and> bt_waiting s = [] then s\<lparr>bt_free := bt_free s - 1, bt_running := bt_running s @ [x]\<rparr>
      else s\<lparr>bt_waiting := bt_waiting s @ [x]\<rparr>)"

text \<open>The thread returns or raises; the first that waits gets the place.\<close>

definition blocking_done :: "nat \<Rightarrow> blocking_topic \<Rightarrow> blocking_topic" where
  "blocking_done x s =
     (if x \<notin> set (bt_running s) then s
      else case bt_waiting s of
        [] \<Rightarrow> s\<lparr>bt_free := bt_free s + 1, bt_running := remove1 x (bt_running s)\<rparr>
      | y # ys \<Rightarrow> s\<lparr>bt_running := remove1 x (bt_running s) @ [y], bt_waiting := ys\<rparr>)"

datatype blocking_event = Publish nat bool | Done nat

fun blocking_event_step :: "blocking_event \<Rightarrow> blocking_topic \<Rightarrow> blocking_topic" where
  "blocking_event_step (Publish x w) s = blocking_publish x w s"
| "blocking_event_step (Done x) s = blocking_done x s"

definition blocking_inv :: "nat \<Rightarrow> blocking_topic \<Rightarrow> bool" where
  "blocking_inv n s \<longleftrightarrow> bt_free s + length (bt_running s) = n \<and> (bt_waiting s \<noteq> [] \<longrightarrow> bt_free s = 0)"

lemma blocking_step_inv: "blocking_inv n s \<Longrightarrow> blocking_inv n (blocking_event_step ev s)"
  by (cases ev) (auto simp: blocking_inv_def blocking_publish_def blocking_done_def length_remove1 dest: length_pos_if_in_set
      split: list.splits)

text \<open>
  At most \<open>max_concurrency\<close> publications are in a thread; none waits while there is a place; and a publication that must not
  wait never does.
\<close>

theorem blocking_publications_bounded:
  "length (bt_running (fold blocking_event_step evs (new_blocking n))) \<le> n \<and>
   bt_free (fold blocking_event_step evs (new_blocking n)) = n - length (bt_running (fold blocking_event_step evs (new_blocking n)))
   \<and> bt_waiting (fold blocking_event_step (evs @ [Publish x False]) (new_blocking n)) = bt_waiting (fold blocking_event_step evs (new_blocking n))"
proof -
  have i: "blocking_inv n (fold blocking_event_step evs s)" if "blocking_inv n s" for s
    using that by (induction evs arbitrary: s) (auto intro: blocking_step_inv)
  have "blocking_inv n (new_blocking n)" by (simp add: blocking_inv_def new_blocking_def)
  from i [OF this] show ?thesis by (auto simp: blocking_inv_def blocking_publish_def)
qed

text \<open>
  The loop of \<open>run\<close>: it polls, and waits for \<open>wake\<close> or a timeout when there was nothing. \<open>bl_missed\<close> tells whether a wake has
  come since the last poll began.
\<close>

datatype loop_phase = LoopPolling | LoopWaiting

record blocking_loop =
  bl_phase :: loop_phase
  bl_event :: bool
  bl_missed :: bool

datatype loop_event = Wake | PollEmpty | PollMessages | WaitEnds

definition loop_wake :: "blocking_loop \<Rightarrow> blocking_loop" where
  "loop_wake s = s\<lparr>bl_event := True, bl_missed := True\<rparr>"

text \<open>The end of \<open>wait\<close>, by the event or by the timeout; the next poll begins.\<close>

definition loop_wait_ends :: "blocking_loop \<Rightarrow> blocking_loop" where
  "loop_wait_ends s = s\<lparr>bl_phase := LoopPolling, bl_event := False, bl_missed := False\<rparr>"

fun loop_step :: "loop_event \<Rightarrow> blocking_loop \<Rightarrow> blocking_loop" where
  "loop_step Wake s = loop_wake s"
| "loop_step PollEmpty s = (if bl_phase s = LoopPolling then s\<lparr>bl_phase := LoopWaiting\<rparr> else s)"
| "loop_step PollMessages s = (if bl_phase s = LoopPolling then s\<lparr>bl_missed := False\<rparr> else s)"
| "loop_step WaitEnds s = (if bl_phase s = LoopWaiting then loop_wait_ends s else s)"

text \<open>A wake is not lost: as long as no poll has begun after it, the event is set, and the loop does not sleep out its timeout.\<close>

lemma loop_step_keeps: "(bl_missed s \<longrightarrow> bl_event s) \<Longrightarrow> bl_missed (loop_step ev s) \<longrightarrow> bl_event (loop_step ev s)"
  by (cases ev) (auto simp: loop_wake_def loop_wait_ends_def)

lemma wake_is_not_lost:
  assumes "s = foldl (\<lambda>s ev. loop_step ev s) \<lparr>bl_phase = LoopPolling, bl_event = False, bl_missed = False\<rparr> evs" "bl_missed s"
  shows "bl_event s"
proof -
  have "bl_missed s \<longrightarrow> bl_event s" unfolding assms(1)
    by (induction evs rule: rev_induct) (simp_all add: loop_step_keeps)
  with assms(2) show ?thesis by blast
qed

section \<open>Database engines\<close>

text \<open>
  \<open>Databases\<close>: engines are made on first use and kept by name, the asynchronous and the synchronous ones apart. \<open>create\<close> says
  which url and parameters raise.
\<close>

datatype engine_conf = EngineUrl string | EngineTuple string "(string, pyval) pydict" | EngineInvalid

record databases =
  dbs_options :: "(string, engine_conf) pydict"
  dbs_sync_options :: "(string, engine_conf) pydict"
  dbs_engines :: "(string, nat) pydict"
  dbs_sync_engines :: "(string, nat) pydict"
  dbs_created :: "(string \<times> (string, pyval) pydict) list"

definition get_engine_params :: "string \<Rightarrow> bool \<Rightarrow> databases \<Rightarrow> (string \<times> (string, pyval) pydict) result" where
  "get_engine_params n sync s =
     (case dget (if sync then dbs_sync_options s else dbs_options s) n of
        None \<Rightarrow> Inl (KeyError n)
      | Some (EngineUrl url) \<Rightarrow> Inr (url, [])
      | Some (EngineTuple url params) \<Rightarrow> Inr (url, params)
      | Some EngineInvalid \<Rightarrow> Inl (ValueError ''Invalid config''))"

definition get_engine ::
  "(string \<times> (string, pyval) pydict \<Rightarrow> exn option) \<Rightarrow> string \<Rightarrow> bool \<Rightarrow> databases \<Rightarrow> nat result \<times> databases" where
  "get_engine create n sync s =
     (case dget (if sync then dbs_sync_engines s else dbs_engines s) n of
        Some e \<Rightarrow> (Inr e, s)
      | None \<Rightarrow>
          (case get_engine_params n sync s of
             Inl e \<Rightarrow> (Inl e, s)
           | Inr up \<Rightarrow>
               (case create up of
                  Some e \<Rightarrow> (Inl e, s)
                | None \<Rightarrow>
                    (let i = length (dbs_created s); s1 = s\<lparr>dbs_created := dbs_created s @ [up]\<rparr>
                     in (Inr i, if sync then s1\<lparr>dbs_sync_engines := dset n i (dbs_sync_engines s1)\<rparr>
                                else s1\<lparr>dbs_engines := dset n i (dbs_engines s1)\<rparr>)))))"

text \<open>One engine per name: once made, the same is returned, and no other is created; an error leaves the service as it was.\<close>

lemma engine_made_once:
  assumes "get_engine create n sync s = (Inr e, s')"
  shows "get_engine create' n sync s' = (Inr e, s')"
  using assms by (auto simp: get_engine_def Let_def split: option.splits sum.splits if_splits)

lemma engine_error_is_clean: "get_engine create n sync s = (Inl e, s') \<Longrightarrow> s' = s"
  by (auto simp: get_engine_def Let_def split: option.splits sum.splits)

lemma engines_apart:
  "get_engine create n True s = (r, s') \<Longrightarrow> dbs_engines s' = dbs_engines s"
  "get_engine create n False s = (r, s') \<Longrightarrow> dbs_sync_engines s' = dbs_sync_engines s"
  by (auto simp: get_engine_def Let_def split: option.splits sum.splits)

end
