(* ===== verification/Factory.thy ===== *)
theory Factory
  imports Work_Manager
begin

text \<open>
  Building components from their definitions: the rest of \<open>worker/work_factory.py\<close> (topics, inventories, jobs and resources
  providers by themselves) and \<open>build_executor\<close> of \<open>worker/executors/__init__.py\<close>. Queues are built in Work_Manager.

  A class is what it is a subclass of; importing a name and \<open>from_options\<close> are arguments.
\<close>

section \<open>Topics, inventories and jobs\<close>

definition build_topic ::
  "(string \<Rightarrow> klass option result) \<Rightarrow> (string \<Rightarrow> (string, pyval) pydict \<Rightarrow> unit result) \<Rightarrow> component_definition \<Rightarrow> built_item result" where
  "build_topic import_name from_options c =
     rbind (build_item import_name from_options c) (\<lambda>b.
       if bi_class b = TopicClass then Inr b else Inl (ValueError ''must be a Topic''))"

definition build_inventory ::
  "(string \<Rightarrow> klass option result) \<Rightarrow> (string \<Rightarrow> (string, pyval) pydict \<Rightarrow> unit result) \<Rightarrow> component_definition \<Rightarrow> built_item result" where
  "build_inventory import_name from_options c =
     rbind (build_item import_name from_options c) (\<lambda>b.
       if bi_class b = InventoryClass then Inr b else Inl (ValueError ''must be an Inventory''))"

definition build_inventory_job :: "built_item \<Rightarrow> queue_input" where
  "build_inventory_job inventory = InputJob inventory"

section \<open>Executors and providers\<close>

datatype component_class = ExecutorClass string | ProviderClass string | ForeignClass

record built_component =
  bc_class :: string
  bc_name :: "string option" \<comment> \<open>the attribute \<open>name\<close>, where the factory sets it\<close>
  bc_options :: "(string, pyval) pydict"

text \<open>\<open>ARQExecutor\<close> is there when arq can be imported.\<close>

definition executor_builtins :: "bool \<Rightarrow> (string, component_class) pydict" where
  "executor_builtins arq =
     [(''ProcessExecutor'', ExecutorClass ''ProcessExecutor'')] @
     (if arq then [(''ARQExecutor'', ExecutorClass ''ARQExecutor'')] else [])"

definition provider_builtins :: "(string, component_class) pydict" where
  "provider_builtins = [(''StaticResourcesProvider'', ProviderClass ''StaticResourcesProvider'')]"

definition build_executor ::
  "bool \<Rightarrow> (string \<Rightarrow> component_class option result) \<Rightarrow> (string \<Rightarrow> (string, pyval) pydict \<Rightarrow> unit result) \<Rightarrow>
     component_definition \<Rightarrow> built_component result" where
  "build_executor arq import_name from_options c =
     rbind (case dget (executor_builtins arq) (cd_type c) of Some k \<Rightarrow> Inr (Some k) | None \<Rightarrow> import_name (cd_type c)) (\<lambda>k.
       let options = dor [(''name'', PStr (cd_name c))] (cd_options c)
       in case k of
            None \<Rightarrow> Inl (ValueError ''Unknown topic type'')
          | Some (ExecutorClass n) \<Rightarrow> rbind (from_options n options) (\<lambda>_.
              Inr \<lparr>bc_class = n, bc_name = Some (cd_name c), bc_options = options\<rparr>)
          | Some _ \<Rightarrow> Inl (ValueError ''must be an Executor''))"

definition build_resources_provider ::
  "(string \<Rightarrow> component_class option result) \<Rightarrow> (string \<Rightarrow> (string, pyval) pydict \<Rightarrow> unit result) \<Rightarrow>
     resources_provider_item \<Rightarrow> built_component result" where
  "build_resources_provider import_name from_options c =
     rbind (case dget provider_builtins (rpi_type c) of Some k \<Rightarrow> Inr (Some k) | None \<Rightarrow> import_name (rpi_type c)) (\<lambda>k.
       let options = dor [(''name'', PStr (rpi_name c))] (rpi_options c)
       in case k of
            None \<Rightarrow> Inl (ValueError ''Unknown resources provider type'')
          | Some (ProviderClass n) \<Rightarrow> rbind (from_options n options) (\<lambda>_.
              Inr \<lparr>bc_class = n, bc_name = None, bc_options = options\<rparr>)
          | Some _ \<Rightarrow> Inl (ValueError ''must be a ResourcesProvider''))"

section \<open>What is built\<close>

text \<open>A component that is built is of the kind asked for and has the name of its definition, also when its options give it another.\<close>

lemma build_item_result:
  assumes "build_item imp fo c = Inr b"
  shows "bi_name b = cd_name c \<and> (bi_class b = TopicClass \<or> bi_class b = InventoryClass)"
proof -
  obtain k where "(case dget item_builtins (cd_type c) of Some k \<Rightarrow> Inr (Some k) | None \<Rightarrow> imp (cd_type c)) = Inr k"
    using assms by (auto simp: build_item_def rbind_Inr_iff)
  with assms show ?thesis
    by (cases k) (auto simp: build_item_def Let_def rbind_Inr_iff split: klass.splits)
qed

lemma built_item_kind:
  "build_topic imp fo c = Inr b \<Longrightarrow> bi_class b = TopicClass \<and> bi_name b = cd_name c"
  "build_inventory imp fo c = Inr b \<Longrightarrow> bi_class b = InventoryClass \<and> bi_name b = cd_name c"
  by (auto simp: build_topic_def build_inventory_def rbind_Inr_iff dest: build_item_result split: if_splits)

lemma built_executor:
  assumes "build_executor arq imp fo c = Inr b"
  shows "bc_name b = Some (cd_name c) \<and>
    (dget (executor_builtins arq) (cd_type c) = Some (ExecutorClass (bc_class b)) \<or>
     dget (executor_builtins arq) (cd_type c) = None \<and> imp (cd_type c) = Inr (Some (ExecutorClass (bc_class b))))"
proof -
  obtain k where k: "(case dget (executor_builtins arq) (cd_type c) of Some k \<Rightarrow> Inr (Some k) | None \<Rightarrow> imp (cd_type c)) = Inr k"
    using assms by (auto simp: build_executor_def rbind_Inr_iff)
  then obtain n where n: "k = Some (ExecutorClass n)" "bc_class b = n" "bc_name b = Some (cd_name c)"
    using assms
    by (cases k) (auto simp: build_executor_def Let_def rbind_Inr_iff split: component_class.splits)
  with k show ?thesis by (auto split: option.splits)
qed

text \<open>A built-in type never reaches the import: its name cannot be taken by a module.\<close>

lemma builtin_wins:
  assumes "dget item_builtins (cd_type c) = Some k"
  shows "build_item imp fo c = build_item imp' fo c"
  using assms by (simp add: build_item_def)

text \<open>A topic is one or the other for the two factories, and whatever is built by one is refused by the other.\<close>

lemma topic_or_inventory:
  assumes "build_item imp fo c = Inr b"
  shows "(build_topic imp fo c = Inr b \<longleftrightarrow> bi_class b = TopicClass) \<and> (build_inventory imp fo c = Inr b \<longleftrightarrow> bi_class b = InventoryClass) \<and>
    isl (build_topic imp fo c) \<noteq> isl (build_inventory imp fo c)"
proof -
  have "bi_class b = TopicClass \<or> bi_class b = InventoryClass" using build_item_result [OF assms] by simp
  with assms show ?thesis by (auto simp: build_topic_def build_inventory_def)
qed

text \<open>The provider's name goes to its options only; an option \<open>name\<close> of the definition replaces it.\<close>

lemma provider_option_name_wins:
  assumes "build_resources_provider imp fo c = Inr b" "wfd (rpi_options c)" "dget (rpi_options c) ''name'' = Some v"
  shows "dget (bc_options b) ''name'' = Some v"
proof -
  obtain k where k: "(case dget provider_builtins (rpi_type c) of Some k \<Rightarrow> Inr (Some k) | None \<Rightarrow> imp (rpi_type c)) = Inr k"
    using assms(1) by (auto simp: build_resources_provider_def rbind_Inr_iff)
  then have "bc_options b = dor [(''name'', PStr (rpi_name c))] (rpi_options c)"
    using assms(1)
    by (cases k) (auto simp: build_resources_provider_def Let_def rbind_Inr_iff split: component_class.splits)
  then show ?thesis using assms(2,3) by (simp add: dget_dor)
qed

end
