(* ===== verification/Tester_Runs.thy ===== *)
theory Tester_Runs
  imports Tester Definitions
begin

text \<open>
  Running the tests of \<open>utils/tester/\<close>: \<open>inventory_test.py\<close>, the comparison of \<open>topic_test.py\<close>, and the order of
  \<open>runner.py\<close>. What an inventory or a topic gives is an argument; the comparison of one pipeline test is in Tester.
\<close>

section \<open>Inventories and topics\<close>

fun take_items :: "int option \<Rightarrow> int \<Rightarrow> 'm list \<Rightarrow> 'm list" where
  "take_items limit count [] = []"
| "take_items limit count (m # ms) =
     m # (if (case limit of None \<Rightarrow> False | Some n \<Rightarrow> n \<noteq> 0 \<and> n \<le> count + 1) then [] else take_items limit (count + 1) ms)"

definition run_datalineup_inventory ::
  "static_definitions \<Rightarrow> (component_definition \<Rightarrow> string option \<Rightarrow> 'm list result) \<Rightarrow> string \<Rightarrow> int option \<Rightarrow> string option \<Rightarrow> 'm list result" where
  "run_datalineup_inventory sd iterate name limit after =
     (case dget (sd_inventories sd) name of
        None \<Rightarrow> Inl (KeyError name)
      | Some c \<Rightarrow> rbind (iterate c after) (\<lambda>items. Inr (take_items limit 0 items)))"

definition run_datalineup_topic ::
  "static_definitions \<Rightarrow> (component_definition \<Rightarrow> 'm list result) \<Rightarrow> string \<Rightarrow> nat option \<Rightarrow> nat option \<Rightarrow> 'm list result" where
  "run_datalineup_topic sd messages name limit skip =
     (case dget (sd_topics sd) name of
        None \<Rightarrow> Inl (KeyError name)
      | Some c \<Rightarrow> rbind (messages c) (\<lambda>ms. Inr (take_messages limit skip 0 0 ms)))"

text \<open>A test fails by an \<open>AssertionError\<close> when the two lists differ.\<close>

definition assertion_error :: "string \<Rightarrow> exn" where
  "assertion_error what = PlainException (''AssertionError: '' @ what)"

definition run_inventory_test ::
  "static_definitions \<Rightarrow> (component_definition \<Rightarrow> string option \<Rightarrow> pyval list result) \<Rightarrow> string \<Rightarrow> int option \<Rightarrow> string option \<Rightarrow>
     pyval list \<Rightarrow> unit result" where
  "run_inventory_test sd iterate name limit after expected =
     rbind (run_datalineup_inventory sd iterate name limit after) (\<lambda>items.
       if list_all2 veq items expected then Inr ()
       else Inl (assertion_error ''Inventory items do not match the expected items''))"

definition run_topic_test ::
  "static_definitions \<Rightarrow> (component_definition \<Rightarrow> pyval list result) \<Rightarrow> string \<Rightarrow> nat option \<Rightarrow> nat option \<Rightarrow>
     pyval list \<Rightarrow> unit result" where
  "run_topic_test sd messages name limit skip expected =
     rbind (run_datalineup_topic sd messages name limit skip) (\<lambda>ms.
       if list_all2 veq ms expected then Inr ()
       else Inl (assertion_error ''Topic messages do not match the expected messages''))"

lemma take_items_positive: "0 \<le> count \<Longrightarrow> count < n \<Longrightarrow> take_items (Some n) count ms = take (nat (n - count)) ms"
proof (induction "Some n" count ms rule: take_items.induct)
  case (2 count m ms)
  show ?case
  proof (cases "n \<le> count + 1")
    case True
    with 2(3) have "n = count + 1" by simp
    with 2(2) show ?thesis by simp
  next
    case False
    then have "nat (n - count) = Suc (nat (n - (count + 1)))" by simp
    with 2 False show ?thesis by simp
  qed
qed simp

text \<open>A positive limit is the number of items; zero and none do not limit, and a negative one lets the first item through.\<close>

lemma take_items_spec:
  "take_items limit 0 ms =
     (case limit of None \<Rightarrow> ms | Some n \<Rightarrow> if n = 0 then ms else if 0 < n then take (nat n) ms else take 1 ms)"
proof -
  have all: "take_items l c ms = ms" if "l = None \<or> l = Some 0" for l c
    using that by (induction l c ms rule: take_items.induct) auto
  show ?thesis
  proof (cases limit)
    case (Some n)
    consider "n = 0" | "0 < n" | "n < 0" by linarith
    then show ?thesis
    proof cases
      case 3
      with Some show ?thesis by (cases ms) simp_all
    qed (use Some all take_items_positive [of 0 n ms] in simp_all)
  qed (use all in simp)
qed

text \<open>An inventory test passes exactly when the inventory exists and its first items are those expected.\<close>

lemma inventory_test_passes:
  assumes "0 < n"
  shows "run_inventory_test sd iterate name (Some n) after expected = Inr () \<longleftrightarrow>
    (\<exists>c items. dget (sd_inventories sd) name = Some c \<and> iterate c after = Inr items \<and> list_all2 veq (take (nat n) items) expected)"
  using assms
  by (auto simp: run_inventory_test_def run_datalineup_inventory_def take_items_spec rbind_Inr_iff split: option.splits if_splits)

section \<open>All tests\<close>

text \<open>
  \<open>run_tests\<close>: the pipeline tests, then those of inventories and topics, in the order of their dicts; the first that
  raises ends the run. The names printed are those of the tests begun.
\<close>

fun run_each :: "('t \<Rightarrow> unit result) \<Rightarrow> (string \<times> 't) list \<Rightarrow> string list \<times> exn option" where
  "run_each run [] = ([], None)"
| "run_each run ((n, t) # ts) =
     (case run t of
        Inl e \<Rightarrow> ([n], Some e)
      | Inr _ \<Rightarrow> (case run_each run ts of (ns, e) \<Rightarrow> (n # ns, e)))"

definition then_each :: "string list \<times> exn option \<Rightarrow> string list \<times> exn option \<Rightarrow> string list \<times> exn option" where
  "then_each a b = (case snd a of Some e \<Rightarrow> a | None \<Rightarrow> (fst a @ fst b, snd b))"

definition run_tests ::
  "(pyval \<Rightarrow> unit result) \<Rightarrow> (pyval \<Rightarrow> unit result) \<Rightarrow> (pyval \<Rightarrow> unit result) \<Rightarrow> tests \<Rightarrow> string list \<times> exn option" where
  "run_tests run_pipeline run_inventory run_topic ts =
     then_each (run_each run_pipeline (ts_pipeline ts))
       (then_each (run_each run_inventory (ts_inventory ts)) (run_each run_topic (ts_topic ts)))"

text \<open>\<open>run\<close> of the command line: a failed comparison is printed and the process exits with 1; other errors leave it as they are.\<close>

definition run_tests_from_files ::
  "('f \<Rightarrow> static_definitions result) \<Rightarrow> ('f \<Rightarrow> (string \<times> string \<times> pyval) list result) \<Rightarrow> (string \<Rightarrow> pyval \<Rightarrow> (string \<times> pyval) result) \<Rightarrow>
     (static_definitions \<Rightarrow> tests \<Rightarrow> string list \<times> exn option) \<Rightarrow> 'f \<Rightarrow> 'f \<Rightarrow> (string list \<times> exn option) result" where
  "run_tests_from_files compile_static load_objects convert run static_definitions test_files =
     rbind (compile_static static_definitions) (\<lambda>sd.
     rbind (load_objects test_files) (\<lambda>objs.
     rbind (compile_tests convert objs) (\<lambda>ts. Inr (run sd ts))))"

lemma run_each_ok: "snd (run_each run ts) = None \<longleftrightarrow> (\<forall>(n, t) \<in> set ts. run t = Inr ())"
  by (induction run ts rule: run_each.induct) (auto split: sum.splits prod.splits)

lemma run_each_names: "snd (run_each run ts) = None \<Longrightarrow> fst (run_each run ts) = map fst ts"
  by (induction run ts rule: run_each.induct) (auto split: sum.splits prod.splits)

text \<open>The run succeeds exactly when every test does, and then every test has been run.\<close>

theorem run_tests_succeeds:
  "snd (run_tests p i t ts) = None \<longleftrightarrow>
     (\<forall>(n, x) \<in> set (ts_pipeline ts). p x = Inr ()) \<and> (\<forall>(n, x) \<in> set (ts_inventory ts). i x = Inr ()) \<and>
     (\<forall>(n, x) \<in> set (ts_topic ts). t x = Inr ())"
proof -
  have a: "snd (then_each a b) = None \<longleftrightarrow> snd a = None \<and> snd b = None" for a b
    by (simp add: then_each_def split: option.split)
  show ?thesis unfolding run_tests_def a run_each_ok ..
qed

lemma run_tests_runs_all:
  "snd (run_tests p i t ts) = None \<Longrightarrow>
     fst (run_tests p i t ts) = dkeys (ts_pipeline ts) @ dkeys (ts_inventory ts) @ dkeys (ts_topic ts)"
  by (auto simp: run_tests_def then_each_def run_each_names split: option.splits)

end
