(* ===== verification/Join_Life.thy ===== *)
theory Join_Life
  imports Multi_Inventories Job_Runner Tasks_Group
begin

text \<open>
  The life of a \<open>JoinInventory\<close> (\<open>worker/inventories/joined.py\<close>) around the steps of Multi_Inventories: the limit of
  \<open>root_concurrency\<close>, when \<open>process_item\<close> may finish a root item (its sub-inventory is no longer scheduled and its
  \<open>join\<close> has returned), sub-inventories that raise, and the end of the iteration before its time, because it is cancelled
  or because \<open>join_inventories\<close> raised.

  The end by \<open>TasksGroup.__aexit__\<close> is the same in both cases: the scheduler stops and every \<open>process_item\<close> task is
  cancelled, which leaves its root item's context and \<open>RootCursors.process\<close>. Messages that were handed out go on and leave
  their contexts later.
\<close>

section \<open>State\<close>

datatype sub_end = SubRunning | SubExhausted | SubFailed

record join_life =
  jl_join :: join_state
  jl_event :: "item \<Rightarrow> bool" \<comment> \<open>\<open>_is_done_event\<close> of the sub-inventory of a root item\<close>
  jl_end :: "item \<Rightarrow> sub_end"
  jl_waiting :: "item option" \<comment> \<open>taken from the root, not yet through \<open>concurrency_sem\<close>\<close>
  jl_stopped :: bool

definition join_life_init :: join_life where
  "join_life_init = \<lparr> jl_join = join_init, jl_event = (\<lambda>_. False), jl_end = (\<lambda>_. SubRunning), jl_waiting = None,
     jl_stopped = False \<rparr>"

text \<open>The root items that have a \<open>process_item\<close> task, and those whose task has not ended.\<close>

definition started :: "join_life \<Rightarrow> item list" where
  "started l = filter (\<lambda>r. jl_waiting l \<noteq> Some r) (jn_taken (jl_join l))"

definition in_flight :: "join_life \<Rightarrow> item list" where
  "in_flight l = filter (\<lambda>r. r \<notin> jn_done (jl_join l)) (started l)"

section \<open>Operations\<close>

definition life_take :: "item \<Rightarrow> join_life \<Rightarrow> join_life" where
  "life_take r l = l\<lparr>jl_join := root_take r (jl_join l), jl_waiting := Some r\<rparr>"

definition life_begin :: "join_life \<Rightarrow> join_life" where
  "life_begin l = l\<lparr>jl_waiting := None\<rparr>"

text \<open>\<open>Inventory.run\<close> of the sub-inventory clears its event for each item.\<close>

definition life_sub_take :: "item \<Rightarrow> item \<Rightarrow> join_life \<Rightarrow> join_life" where
  "life_sub_take r j l = l\<lparr>jl_join := sub_take r j (jl_join l), jl_event := (jl_event l)(r := False)\<rparr>"

text \<open>\<open>_check_has_pendings\<close>.\<close>

definition check_pendings :: "item \<Rightarrow> join_life \<Rightarrow> join_life" where
  "check_pendings r l =
     (if has_pendings (sr_cursors (jn_subs (jl_join l) r)) then l else l\<lparr>jl_event := (jl_event l)(r := True)\<rparr>)"

definition life_sub_finish :: "item \<Rightarrow> item \<Rightarrow> join_life \<Rightarrow> join_life" where
  "life_sub_finish r j l = check_pendings r (l\<lparr>jl_join := sub_finish r j (jl_join l)\<rparr>)"

definition sub_exhausted :: "item \<Rightarrow> join_life \<Rightarrow> join_life" where
  "sub_exhausted r l = check_pendings r (l\<lparr>jl_end := (jl_end l)(r := SubExhausted)\<rparr>)"

text \<open>The scheduler logs the error, drops the slot and resolves its future, as it does at the end of an iterator.\<close>

definition sub_failed :: "item \<Rightarrow> join_life \<Rightarrow> join_life" where
  "sub_failed r l = l\<lparr>jl_end := (jl_end l)(r := SubFailed)\<rparr>"

definition join_stop :: "item list \<Rightarrow> join_life \<Rightarrow> join_life" where
  "join_stop order l = l\<lparr>jl_join := fold root_finish order (jl_join l), jl_stopped := True\<rparr>"

inductive life_step :: "nat \<Rightarrow> item list \<Rightarrow> (item \<Rightarrow> item list) \<Rightarrow> join_life \<Rightarrow> join_life \<Rightarrow> bool" for n xs ys where
  LTake: "\<lbrakk>\<not> jl_stopped l; jl_waiting l = None; xs = jn_taken (jl_join l) @ r # rest\<rbrakk> \<Longrightarrow>
     life_step n xs ys l (life_take r l)"
| LBegin: "\<lbrakk>\<not> jl_stopped l; jl_waiting l \<noteq> None; length (in_flight l) < n\<rbrakk> \<Longrightarrow> life_step n xs ys l (life_begin l)"
| LSubTake: "\<lbrakk>\<not> jl_stopped l; r \<in> set (in_flight l); jl_end l r = SubRunning;
     ys r = sr_taken (jn_subs (jl_join l) r) @ j # rest\<rbrakk> \<Longrightarrow> life_step n xs ys l (life_sub_take r j l)"
| LSubFinish: "\<lbrakk>r \<in> set (jn_taken (jl_join l));
     j \<in> set (sr_taken (jn_subs (jl_join l) r)) - sr_done (jn_subs (jl_join l) r)\<rbrakk> \<Longrightarrow>
     life_step n xs ys l (life_sub_finish r j l)"
| LExhausted: "\<lbrakk>\<not> jl_stopped l; r \<in> set (in_flight l); jl_end l r = SubRunning;
     ys r = sr_taken (jn_subs (jl_join l) r)\<rbrakk> \<Longrightarrow> life_step n xs ys l (sub_exhausted r l)"
| LFailed: "\<lbrakk>\<not> jl_stopped l; r \<in> set (in_flight l); jl_end l r = SubRunning\<rbrakk> \<Longrightarrow>
     life_step n xs ys l (sub_failed r l)"
| LFinish: "\<lbrakk>\<not> jl_stopped l; r \<in> set (in_flight l); jl_end l r \<noteq> SubRunning; jl_event l r\<rbrakk> \<Longrightarrow>
     life_step n xs ys l (l\<lparr>jl_join := root_finish r (jl_join l)\<rparr>)"
| LStop: "\<lbrakk>\<not> jl_stopped l; set order = set (in_flight l); distinct order\<rbrakk> \<Longrightarrow>
     life_step n xs ys l (join_stop order l)"

inductive life_run :: "nat \<Rightarrow> item list \<Rightarrow> (item \<Rightarrow> item list) \<Rightarrow> join_life \<Rightarrow> bool" for n xs ys where
  life_start: "life_run n xs ys join_life_init"
| life_next: "life_run n xs ys l \<Longrightarrow> life_step n xs ys l l' \<Longrightarrow> life_run n xs ys l'"

text \<open>
  The end of \<open>iterate\<close> once the scheduler has stopped: \<open>TasksGroup.__aexit__\<close> closes the group of the task of
  \<open>join_inventories\<close>, which ended with \<open>out\<close>; the group logs an error of its task and raises nothing.
\<close>

definition join_iterate_end :: "Tasks_Group.outcome \<Rightarrow> close_report \<times> exn option" where
  "join_iterate_end out = (snd (group_close (\<lambda>_. Some out) (\<lambda>_. Some out) (group_init {0})), None)"

text \<open>For the job the inventory is then exhausted, and \<open>join\<close> returns at once: \<open>JoinInventory.run\<close> sets no event.\<close>

definition join_job_end :: "(exn \<Rightarrow> string \<times> string) \<Rightarrow> string \<Rightarrow> time \<Rightarrow> Tasks_Group.outcome \<Rightarrow> store_op list" where
  "join_job_end describe name now out =
     end_job name now
       (case snd (join_iterate_end out) of None \<Rightarrow> Exhausted | Some e \<Rightarrow> RunRaised (fst (describe e)) (snd (describe e)))"

section \<open>What a run keeps\<close>

text \<open>Of one root item: its sub-inventory's run, how it ended, its event, and whether the root item was taken.\<close>

definition sub_ok :: "item list \<Rightarrow> sub_run \<Rightarrow> sub_end \<Rightarrow> bool \<Rightarrow> bool \<Rightarrow> bool" where
  "sub_ok zs sr en ev taken \<longleftrightarrow>
     cursor_run fresh_cursors (sr_taken sr) (sr_done sr) (sr_cursors sr) \<and>
     (taken \<longrightarrow> (\<exists>rest. zs = sr_taken sr @ rest)) \<and>
     (\<not> taken \<longrightarrow> sr = fresh_sub) \<and>
     (en = SubExhausted \<longrightarrow> zs = sr_taken sr) \<and>
     (ev \<longrightarrow> \<not> has_pendings (sr_cursors sr)) \<and>
     (en \<noteq> SubExhausted \<and> sr_taken sr = [] \<longrightarrow> \<not> ev)"

definition life_inv :: "item list \<Rightarrow> (item \<Rightarrow> item list) \<Rightarrow> join_life \<Rightarrow> bool" where
  "life_inv xs ys l \<longleftrightarrow>
     (let s = jl_join l in
      cursor_run fresh_cursors (jn_taken s) (jn_done s) (jn_root s) \<and>
      (\<exists>rest. xs = jn_taken s @ rest) \<and>
      (jl_stopped l \<longrightarrow> (\<forall>r \<in> set (jn_taken s). r \<in> jn_done s \<or> jl_waiting l = Some r)) \<and>
      (\<forall>r. jl_waiting l = Some r \<longrightarrow> r \<notin> jn_done s \<and> (\<exists>E. jn_taken s = E @ [r])) \<and>
      (\<forall>r. sub_ok (ys r) (jn_subs s r) (jl_end l r) (jl_event l r) (r \<in> set (jn_taken s))))"

lemma fresh_props: "cs_pendings fresh_cursors = []" "distinct (cs_partials fresh_cursors)"
  by (simp_all add: fresh_cursors_def initial_cursors_def)

lemma pendings_done:
  assumes "cursor_run fresh_cursors E F s" and "\<not> has_pendings s"
  shows "set E \<subseteq> F"
proof -
  have "dropWhile (\<lambda>i. i \<in> F) E = []"
    using cursor_run_state [OF assms(1) fresh_props] assms(2)
    by (simp add: has_pendings_def cursor_state_of_def pending_entries_def)
  then show ?thesis by auto
qed

lemma fold_root_finish:
  assumes "distinct order" and "set order \<subseteq> set (jn_taken s) - jn_done s"
    and "cursor_run fresh_cursors (jn_taken s) (jn_done s) (jn_root s)"
  shows "jn_taken (fold root_finish order s) = jn_taken s \<and>
    jn_done (fold root_finish order s) = jn_done s \<union> set order \<and>
    jn_subs (fold root_finish order s) = jn_subs s \<and>
    cursor_run fresh_cursors (jn_taken s) (jn_done s \<union> set order) (jn_root (fold root_finish order s))"
  using assms
proof (induction order arbitrary: s)
  case (Cons r order)
  have "cursor_run fresh_cursors (jn_taken (root_finish r s)) (jn_done (root_finish r s)) (jn_root (root_finish r s))"
    using Cons.prems by (auto simp: root_finish_def Let_def intro: run_exit)
  moreover have "set order \<subseteq> set (jn_taken (root_finish r s)) - jn_done (root_finish r s)"
    using Cons.prems by (auto simp: root_finish_def Let_def)
  ultimately show ?case using Cons.IH [of "root_finish r s"] Cons.prems(1)
    by (simp add: root_finish_def Let_def)
qed simp

lemma sub_ok_fresh: "sub_ok zs fresh_sub SubRunning False taken"
  by (auto simp: sub_ok_def fresh_sub_def intro: run_start)

lemma sub_ok_take:
  assumes "sub_ok zs sr SubRunning ev True" and "zs = sr_taken sr @ j # rest" and "good_items zs"
  shows "sub_ok zs (sr\<lparr>sr_cursors := snd (process_enter (sr_cursors sr) j), sr_taken := sr_taken sr @ [j]\<rparr>) SubRunning False True"
proof -
  have "it_oid j \<notin> it_oid ` set (sr_taken sr)" using assms(2,3) by (auto simp: good_items_def)
  then show ?thesis using assms(1,2) by (auto simp: sub_ok_def intro: run_enter)
qed

lemma sub_ok_finish:
  assumes "sub_ok zs sr en ev True" and "j \<in> set (sr_taken sr) - sr_done sr"
  defines "sr' \<equiv> sr\<lparr>sr_cursors := process_exit (sr_cursors sr) j, sr_done := insert j (sr_done sr)\<rparr>"
  shows "sub_ok zs sr' en (if has_pendings (sr_cursors sr') then ev else True) True"
proof -
  have "\<not> ev"
  proof
    assume ev
    then have "set (sr_taken sr) \<subseteq> sr_done sr"
      using assms(1) pendings_done [of "sr_taken sr" "sr_done sr" "sr_cursors sr"] by (simp add: sub_ok_def)
    with assms(2) show False by auto
  qed
  then show ?thesis using assms(1,2) by (auto simp: sub_ok_def sr'_def intro: run_exit)
qed

lemma subs_root_finish [simp]:
  "jn_subs (root_finish r s) = jn_subs s" "jn_taken (root_finish r s) = jn_taken s"
  "jn_done (root_finish r s) = insert r (jn_done s)"
  by (simp_all add: root_finish_def Let_def)

lemma in_flight_iff: "r \<in> set (in_flight l) \<longleftrightarrow> r \<in> set (jn_taken (jl_join l)) - jn_done (jl_join l) \<and> jl_waiting l \<noteq> Some r"
  by (auto simp: in_flight_def started_def)

lemma in_flight_Nil: "in_flight l = [] \<longleftrightarrow> (\<forall>r \<in> set (jn_taken (jl_join l)). r \<in> jn_done (jl_join l) \<or> jl_waiting l = Some r)"
  by (auto simp: in_flight_def started_def filter_empty_conv)

lemma life_inv_step:
  assumes step: "life_step n xs ys l l'" and inv: "life_inv xs ys l"
    and xs: "good_items xs" and ys: "\<forall>r \<in> set xs. good_items (ys r)"
  shows "life_inv xs ys l'"
proof -
  have run: "cursor_run fresh_cursors (jn_taken (jl_join l)) (jn_done (jl_join l)) (jn_root (jl_join l))"
    and pre: "\<exists>rest. xs = jn_taken (jl_join l) @ rest"
    and stop: "jl_stopped l \<Longrightarrow> \<forall>r \<in> set (jn_taken (jl_join l)). r \<in> jn_done (jl_join l) \<or> jl_waiting l = Some r"
    and wait: "\<And>r. jl_waiting l = Some r \<Longrightarrow> r \<notin> jn_done (jl_join l) \<and> (\<exists>E. jn_taken (jl_join l) = E @ [r])"
    and subs: "\<And>r. sub_ok (ys r) (jn_subs (jl_join l) r) (jl_end l r) (jl_event l r) (r \<in> set (jn_taken (jl_join l)))"
    using inv by (simp_all add: life_inv_def Let_def)
  have taken: "r \<in> set (jn_taken (jl_join l)) \<Longrightarrow> r \<in> set xs" for r using pre by auto
  from step show ?thesis
  proof cases
    case (LTake r rest)
    have fresh: "it_oid r \<notin> it_oid ` set (jn_taken (jl_join l))" using xs LTake(4) by (auto simp: good_items_def)
    have notdone: "r \<notin> jn_done (jl_join l)" using fresh cursor_run_props(1) [OF run] by auto
    have "sub_ok (ys r) (jn_subs (jl_join l) r) (jl_end l r) (jl_event l r) True"
    proof (cases "r \<in> set (jn_taken (jl_join l))")
      case False
      then have "jn_subs (jl_join l) r = fresh_sub" using subs [of r] by (simp add: sub_ok_def)
      then show ?thesis using subs [of r] by (auto simp: sub_ok_def fresh_sub_def)
    qed (use subs [of r] in simp)
    then have "sub_ok (ys r') (jn_subs (jl_join l) r') (jl_end l r') (jl_event l r') (r' = r \<or> r' \<in> set (jn_taken (jl_join l)))"
      for r'
      using subs [of r'] by (cases "r' = r") auto
    moreover have "cursor_run fresh_cursors (jn_taken (jl_join l) @ [r]) (jn_done (jl_join l))
        (snd (process_enter (jn_root (jl_join l)) r))"
      using run fresh by (intro run_enter) auto
    ultimately show ?thesis using LTake notdone by (simp add: life_inv_def life_take_def root_take_def Let_def)
  next
    case LBegin
    then show ?thesis using run pre stop subs by (auto simp: life_inv_def life_begin_def Let_def)
  next
    case (LSubTake r j rest)
    have r: "r \<in> set (jn_taken (jl_join l))" using LSubTake by (simp add: in_flight_iff)
    then have good: "good_items (ys r)" using ys taken by blast
    have "sub_ok (ys r) (jn_subs (jl_join l) r\<lparr>sr_cursors := snd (process_enter (sr_cursors (jn_subs (jl_join l) r)) j),
        sr_taken := sr_taken (jn_subs (jl_join l) r) @ [j]\<rparr>) SubRunning False True"
      using sub_ok_take [OF _ LSubTake(5) good] subs [of r] LSubTake(4) r by simp
    then show ?thesis
      using LSubTake run pre stop wait subs r by (auto simp: life_inv_def life_sub_take_def sub_take_def Let_def)
  next
    case (LSubFinish r j)
    have "sub_ok (ys r) (jn_subs (jl_join l) r) (jl_end l r) (jl_event l r) True" using subs [of r] LSubFinish by simp
    note ok = sub_ok_finish [OF this LSubFinish(3)]
    then show ?thesis
      using LSubFinish run pre stop wait subs
      by (auto simp: life_inv_def life_sub_finish_def check_pendings_def sub_finish_def Let_def split: if_splits)
  next
    case (LExhausted r)
    then have "sub_ok (ys r) (jn_subs (jl_join l) r) SubExhausted (if has_pendings (sr_cursors (jn_subs (jl_join l) r)) then jl_event l r else True)
        (r \<in> set (jn_taken (jl_join l)))"
      using subs [of r] by (auto simp: sub_ok_def in_flight_iff)
    then show ?thesis
      using LExhausted run pre stop wait subs by (auto simp: life_inv_def sub_exhausted_def check_pendings_def Let_def split: if_splits)
  next
    case (LFailed r)
    then have "sub_ok (ys r) (jn_subs (jl_join l) r) SubFailed (jl_event l r) (r \<in> set (jn_taken (jl_join l)))"
      using subs [of r] by (auto simp: sub_ok_def)
    then show ?thesis using LFailed run pre stop wait subs by (auto simp: life_inv_def sub_failed_def Let_def)
  next
    case (LFinish r)
    then have "cursor_run fresh_cursors (jn_taken (jl_join l)) (insert r (jn_done (jl_join l))) (process_exit (jn_root (jl_join l)) r)"
      using run by (auto simp: in_flight_iff intro: run_exit)
    moreover have "jl_waiting l \<noteq> Some r" using LFinish by (simp add: in_flight_iff)
    ultimately show ?thesis
      using LFinish pre wait subs by (auto simp: life_inv_def root_finish_def Let_def)
  next
    case (LStop order)
    have "set order \<subseteq> set (jn_taken (jl_join l)) - jn_done (jl_join l)" using LStop by (auto simp: in_flight_iff)
    note f = fold_root_finish [OF LStop(4) this run]
    have "\<forall>r \<in> set (jn_taken (jl_join l)). r \<in> jn_done (jl_join l) \<union> set order \<or> jl_waiting l = Some r"
      and "\<And>r. jl_waiting l = Some r \<Longrightarrow> r \<notin> set order" using LStop by (auto simp: in_flight_iff)
    with f show ?thesis using LStop pre wait subs by (auto simp: life_inv_def join_stop_def Let_def)
  qed
qed

lemma life_run_inv:
  assumes "life_run n xs ys l" and "good_items xs" and "\<forall>r \<in> set xs. good_items (ys r)"
  shows "life_inv xs ys l"
  using assms
proof (induction rule: life_run.induct)
  case life_start
  show ?case
    by (auto simp: life_inv_def join_life_init_def join_init_def Let_def sub_ok_fresh intro: run_start)
qed (blast intro: life_inv_step)


section \<open>Without failures nothing is lost\<close>

lemma life_step_keeps:
  assumes "life_step n xs ys l l'" and "\<not> jl_stopped l'" and "\<forall>r. jl_end l' r \<noteq> SubFailed"
  shows "\<not> jl_stopped l" and "\<forall>r. jl_end l r \<noteq> SubFailed"
proof -
  show "\<not> jl_stopped l"
    using assms(1,2) by cases (auto simp: life_sub_finish_def life_take_def life_begin_def check_pendings_def split: if_splits)
  show "\<forall>r. jl_end l r \<noteq> SubFailed"
    using assms(1)
    by cases (use assms(3) in \<open>force simp: life_take_def life_begin_def life_sub_take_def life_sub_finish_def sub_exhausted_def sub_failed_def
      check_pendings_def join_stop_def split: if_splits\<close>)+
qed

lemma life_step_join:
  assumes step: "life_step n xs ys l l'" and inv: "life_inv xs ys l" and run: "join_run xs ys (jl_join l)"
    and xs: "good_items xs" and ys: "\<forall>r \<in> set xs. good_items (ys r)"
    and l': "\<not> jl_stopped l'" "\<forall>r. jl_end l' r \<noteq> SubFailed"
  shows "join_run xs ys (jl_join l')"
proof -
  have j: "join_inv xs ys (jl_join l)" using run xs ys by (rule join_inv_run)
  have sub: "sub_ok (ys r) (jn_subs (jl_join l) r) (jl_end l r) (jl_event l r) (r \<in> set (jn_taken (jl_join l)))" for r
    using inv by (simp add: life_inv_def Let_def)
  from step show ?thesis
  proof cases
    case (LTake r rest)
    then show ?thesis using join_take [OF run] by (simp add: life_take_def)
  next
    case (LSubTake r j rest)
    then show ?thesis using join_sub_take [OF run] by (simp add: life_sub_take_def in_flight_iff)
  next
    case (LSubFinish r j)
    have "r \<notin> jn_done (jl_join l)"
    proof
      assume "r \<in> jn_done (jl_join l)"
      moreover have "r \<in> set xs" using j LSubFinish(2) by (auto simp: join_inv_def)
      ultimately have "set (ys r) \<subseteq> sr_done (jn_subs (jl_join l) r)" using j by (simp add: join_inv_def)
      moreover have "set (sr_taken (jn_subs (jl_join l) r)) \<subseteq> set (ys r)"
        using sub [of r] LSubFinish(2) by (auto simp: sub_ok_def)
      ultimately show False using LSubFinish(3) by auto
    qed
    then show ?thesis
      using LSubFinish join_sub_finish [OF run, of r j] by (simp add: life_sub_finish_def check_pendings_def)
  next
    case (LFinish r)
    then have "jl_end l r = SubExhausted" using l'(2) by (cases "jl_end l r") auto
    then have zs: "ys r = sr_taken (jn_subs (jl_join l) r)" and none: "\<not> has_pendings (sr_cursors (jn_subs (jl_join l) r))"
      and r: "cursor_run fresh_cursors (sr_taken (jn_subs (jl_join l) r)) (sr_done (jn_subs (jl_join l) r)) (sr_cursors (jn_subs (jl_join l) r))"
      using sub [of r] LFinish(5) by (simp_all add: sub_ok_def)
    have "set (ys r) \<subseteq> sr_done (jn_subs (jl_join l) r)" using pendings_done [OF r none] zs by simp
    then show ?thesis using LFinish join_finish [OF run, of r] by (simp add: in_flight_iff)
  next
    case (LStop order)
    then show ?thesis using l'(1) by (simp add: join_stop_def)
  qed (use run in \<open>simp_all add: life_begin_def sub_exhausted_def sub_failed_def check_pendings_def\<close>)
qed

text \<open>
  C24: a join that has not been stopped and none of whose sub-inventories has failed makes the steps of \<open>join_run\<close> only: a
  root item is finished only when all its sub-items are, although \<open>process_item\<close> looks at nothing but the end of the
  sub-inventory's slot and its event. So what is shown of \<open>join_run\<close> holds of it, in particular that a crash loses no pair.
\<close>

theorem join_life_refines_join:
  assumes "life_run n xs ys l" and "\<not> jl_stopped l" and "\<forall>r. jl_end l r \<noteq> SubFailed"
    and "good_items xs" and "\<forall>r \<in> set xs. good_items (ys r)"
  shows "join_run xs ys (jl_join l)"
  using assms(1-3)
proof (induction rule: life_run.induct)
  case life_start
  show ?case by (simp add: join_life_init_def join_start)
next
  case (life_next l l')
  have inv: "life_inv xs ys l" using life_next.hyps(1) assms(4,5) by (rule life_run_inv)
  have "join_run xs ys (jl_join l)"
    by (rule life_next.IH) (fact life_step_keeps [OF life_next.hyps(2) life_next.prems])+
  from life_step_join [OF life_next.hyps(2) inv this assms(4,5) life_next.prems] show ?case .
qed

section \<open>What a stop loses\<close>

definition multi_inv :: "join_life \<Rightarrow> bool" where
  "multi_inv l \<longleftrightarrow>
     wfd (mc_partials (jn_multi (jl_join l))) \<and>
     (in_flight l = [] \<and> started l \<noteq> [] \<longrightarrow> mc_after (jn_multi (jl_join l)) = as_cursor (jn_root (jl_join l)))"

lemma as_cursor_cong:
  "cs_after s = cs_after s' \<Longrightarrow> cs_partials s = cs_partials s' \<Longrightarrow> cs_max_partials s = cs_max_partials s' \<Longrightarrow>
   partials_cursors s = partials_cursors s' \<Longrightarrow> as_cursor s = as_cursor s'"
  by (simp only: as_cursor_def as_dict_def saved_partials_def)

text \<open>Taking an item does not change the cursor: the item is pending.\<close>

lemma saved_cursor_enter:
  assumes "cursor_run fresh_cursors E F s" and "it_oid r \<notin> it_oid ` set E"
  shows "as_cursor (snd (process_enter s r)) = as_cursor s"
proof -
  have F: "F \<subseteq> set E" using cursor_run_props(1) [OF assms(1)] .
  then have "r \<notin> F" using assms(2) by auto
  then have st: "snd (process_enter s r) = cursor_state_of fresh_cursors (E @ [r]) F"
    using cursor_state_enter [OF assms(2) F fresh_props(2)] cursor_run_state [OF assms(1) fresh_props] by simp
  have "partials_cursors (cursor_state_of fresh_cursors (E @ [r]) F) = partials_cursors (cursor_state_of fresh_cursors E F)"
    using dropWhile_snoc_notin [OF \<open>r \<notin> F\<close>, of E] \<open>r \<notin> F\<close>
    by (simp add: partials_cursors_def cursor_state_of_def pending_entries_def map_filter_def)
  moreover have "cs_after (cursor_state_of fresh_cursors (E @ [r]) F) = cs_after (cursor_state_of fresh_cursors E F)"
    "cs_partials (cursor_state_of fresh_cursors (E @ [r]) F) = cs_partials (cursor_state_of fresh_cursors E F)"
    "cs_max_partials (cursor_state_of fresh_cursors (E @ [r]) F) = cs_max_partials (cursor_state_of fresh_cursors E F)"
    using dropWhile_snoc_notin [OF \<open>r \<notin> F\<close>, of E]
    by (simp_all add: cursor_state_of_def fresh_cursors_def initial_cursors_def)
  ultimately have "as_cursor (cursor_state_of fresh_cursors (E @ [r]) F) = as_cursor (cursor_state_of fresh_cursors E F)"
    by (intro as_cursor_cong)
  then show ?thesis unfolding st cursor_run_state [OF assms(1) fresh_props, symmetric] .
qed

lemma started_take:
  assumes "jl_waiting l = None" and "r \<notin> set (jn_taken (jl_join l))"
  shows "started (life_take r l) = started l" and "in_flight (life_take r l) = in_flight l"
proof -
  have "filter ((\<noteq>) r) (jn_taken (jl_join l)) = jn_taken (jl_join l)"
    using assms(2) by (auto simp: filter_id_conv)
  then show "started (life_take r l) = started l" using assms(1) by (simp add: started_def life_take_def root_take_def)
  then show "in_flight (life_take r l) = in_flight l"
    unfolding in_flight_def by (simp add: life_take_def root_take_def)
qed

lemma after_finishes: "order \<noteq> [] \<Longrightarrow>
  mc_after (jn_multi (fold root_finish order s)) = as_cursor (jn_root (fold root_finish order s))"
  by (induction order rule: rev_induct) (simp_all add: root_finish_def Let_def)

lemma wfd_finishes: "wfd (mc_partials (jn_multi s)) \<Longrightarrow> wfd (mc_partials (jn_multi (fold root_finish order s)))"
proof (induction order arbitrary: s)
  case (Cons r order)
  then show ?case using Cons.IH [of "root_finish r s"] wfd_multi [of "jn_multi s" r] by (simp add: root_finish_def Let_def)
qed simp

lemma life_run_multi:
  "life_run n xs ys l \<Longrightarrow> good_items xs \<Longrightarrow> \<forall>r \<in> set xs. good_items (ys r) \<Longrightarrow> multi_inv l"
proof (induction rule: life_run.induct)
  case life_start
  show ?case by (simp add: multi_inv_def started_def join_life_init_def join_init_def)
next
  case (life_next l l')
  then have m: "multi_inv l" and inv: "life_inv xs ys l" using life_run_inv by blast+
  have run: "cursor_run fresh_cursors (jn_taken (jl_join l)) (jn_done (jl_join l)) (jn_root (jl_join l))"
    and wait: "\<And>r. jl_waiting l = Some r \<Longrightarrow> r \<in> set (jn_taken (jl_join l)) \<and> r \<notin> jn_done (jl_join l)"
    using inv by (auto simp: life_inv_def Let_def)
  from life_next.hyps(2) show ?case
  proof cases
    case (LTake r rest)
    have fresh: "it_oid r \<notin> it_oid ` set (jn_taken (jl_join l))"
      using LTake(4) life_next.prems(1) by (auto simp: good_items_def)
    then have "r \<notin> set (jn_taken (jl_join l))" by auto
    with LTake have "started l' = started l" and "in_flight l' = in_flight l" by (simp_all add: started_take)
    then show ?thesis
      using LTake m saved_cursor_enter [OF run fresh] by (simp add: multi_inv_def life_take_def root_take_def)
  next
    case LBegin
    then obtain r where "r \<in> set (jn_taken (jl_join l))" "r \<notin> jn_done (jl_join l)" using wait by blast
    then have "in_flight l' \<noteq> []" using LBegin by (auto simp: in_flight_Nil life_begin_def)
    then show ?thesis using LBegin m by (simp add: multi_inv_def life_begin_def)
  next
    case (LFinish r)
    then show ?thesis using m wfd_multi [of "jn_multi (jl_join l)" r] by (simp add: multi_inv_def root_finish_def Let_def)
  next
    case (LStop order)
    show ?thesis
    proof (cases "order = []")
      case True
      then show ?thesis using LStop m by (simp add: multi_inv_def join_stop_def started_def in_flight_def)
    next
      case False
      then show ?thesis using LStop m wfd_finishes after_finishes by (simp add: multi_inv_def join_stop_def)
    qed
  qed (use m wfd_multi in \<open>auto simp: multi_inv_def life_sub_take_def sub_take_def life_sub_finish_def sub_finish_def
      sub_exhausted_def sub_failed_def check_pendings_def started_def in_flight_def Let_def split: if_splits\<close>)
qed

text \<open>
  When no root item is in flight, because each of them was finished or because the join was stopped, the cursor that is saved
  from then on continues after the last root item that was started, whatever became of their sub-items.
\<close>

theorem settled_join_resumes_behind:
  assumes run: "life_run n xs ys l" and xs: "good_items xs" and ys: "\<forall>r \<in> set xs. good_items (ys r)"
    and settled: "in_flight l = []" and some: "started l \<noteq> []"
    and load: "multi_from_cursor (Some (multi_as_cursor (jn_multi (jl_join l)))) = Some m"
    and root: "from_cursor (mc_after m) (Some 100) = Some root'"
  shows "xs = started l @ fst (run_items root' (items_after (cs_after root') xs))"
proof -
  let ?s = "jl_join l" and ?E = "jn_taken (jl_join l)" and ?F = "jn_done (jl_join l)"
  have multi: "multi_inv l" and inv: "life_inv xs ys l"
    using life_run_multi [OF run xs ys] life_run_inv [OF run xs ys] .
  have m: "m = jn_multi ?s" using load multi multi_round_trip by (auto simp: multi_inv_def)
  have r: "cursor_run fresh_cursors ?E ?F (jn_root ?s)"
    and wait: "\<And>r. jl_waiting l = Some r \<Longrightarrow> r \<notin> ?F \<and> (\<exists>E. ?E = E @ [r])" using inv by (auto simp: life_inv_def Let_def)
  obtain rest where rest: "xs = ?E @ rest" using inv by (auto simp: life_inv_def Let_def)
  have dist: "distinct ?E" using xs rest by (auto simp: good_items_def distinct_map)
  obtain W where W: "?E = started l @ W" "dropWhile (\<lambda>i. i \<in> ?F) ?E = W" "\<forall>i \<in> set W. i \<notin> ?F"
  proof (cases "jl_waiting l")
    case None
    then have "started l = ?E" by (simp add: started_def)
    moreover have "dropWhile (\<lambda>i. i \<in> ?F) ?E = []" using settled None by (auto simp: in_flight_Nil)
    ultimately show ?thesis using that [of "[]"] by simp
  next
    case (Some w)
    then obtain E where E: "?E = E @ [w]" and w: "w \<notin> ?F" using wait by blast
    have st: "started l = E" using dist E Some by (auto simp: started_def filter_id_conv)
    have "\<forall>i \<in> set E. i \<in> ?F" using settled Some E dist by (auto simp: in_flight_Nil)
    then have "dropWhile (\<lambda>i. i \<in> ?F) E = []" by simp
    then have "dropWhile (\<lambda>i. i \<in> ?F) ?E = [w]" using dropWhile_snoc_notin [OF w, of E] E by simp
    then show ?thesis using that [of "[w]"] E st w by simp
  qed
  have d: "distinct (map it_cursor xs)" "\<forall>i \<in> set xs. struthy (it_cursor i)"
    using xs by (simp_all add: good_items_def)
  have after: "items_after (cs_after (jn_root ?s)) xs = W @ rest"
    using cursor_run_after [OF r fresh_props d, of rest] rest W(2)
    by (simp add: fresh_cursors_def initial_cursors_def items_after_def)
  have "partials_cursors (jn_root ?s) = []"
    using cursor_run_state [OF r fresh_props] W(2,3)
    by (simp add: partials_cursors_def cursor_state_of_def pending_entries_def map_filter_def filter_empty_conv)
  then have "saved_partials (jn_root ?s) = []"
    using cursor_run_state [OF r fresh_props]
    by (simp add: saved_partials_def cursor_state_of_def fresh_cursors_def initial_cursors_def)
  moreover have "from_cursor (as_cursor (jn_root ?s)) (Some 100) = Some root'"
    using root m multi settled some by (simp add: multi_inv_def)
  ultimately have "fst (run_items root' (items_after (cs_after root') xs)) = W @ rest"
    using resumed_items [of "jn_root ?s" "Some 100" root' xs] d(1) after
    by (simp add: is_partial_def option.case_eq_if)
  then show ?thesis using rest W(1) by simp
qed

text \<open>Stopping settles the join at once, and it stays settled while the messages that were handed out end.\<close>

lemma stopped_is_settled:
  assumes "life_run n xs ys l" and "good_items xs" and "\<forall>r \<in> set xs. good_items (ys r)" and "jl_stopped l"
  shows "in_flight l = []"
  using life_run_inv [OF assms(1-3)] assms(4) by (auto simp: life_inv_def Let_def in_flight_Nil)

text \<open>
  So a stopped join loses the unfinished sub-items of every root item it had started: none of these is yielded by the run
  that resumes from a cursor saved after the stop, although the cursor holds an entry for them.
\<close>

lemma stopped_join_forgets:
  assumes "life_run n xs ys l" and "good_items xs" and "\<forall>r \<in> set xs. good_items (ys r)" and "jl_stopped l"
    and "r \<in> set (started l)"
    and "multi_from_cursor (Some (multi_as_cursor (jn_multi (jl_join l)))) = Some m"
    and "from_cursor (mc_after m) (Some 100) = Some root'"
  shows "r \<notin> set (fst (run_items root' (items_after (cs_after root') xs)))"
proof -
  have "xs = started l @ fst (run_items root' (items_after (cs_after root') xs))"
    using assms(5) by (intro settled_join_resumes_behind [OF assms(1-3) stopped_is_settled [OF assms(1-4)] _ assms(6,7)]) auto
  moreover have "distinct xs" using assms(2) by (auto simp: good_items_def distinct_map)
  ultimately show ?thesis using assms(5) by (metis disjoint_iff distinct_append)
qed

text \<open>One root item with two sub-items: the first is handed out, the join is stopped, the message ends and the job saves
  the cursor. The second sub-item is not done and the run that resumes yields nothing.\<close>

definition running_demo :: join_life where
  "running_demo =
     life_sub_take (demo_items ! 0) (demo_items ! 1)
       (life_begin (life_take (demo_items ! 0) join_life_init))"

definition stopped_demo :: join_life where
  "stopped_demo = life_sub_finish (demo_items ! 0) (demo_items ! 1) (join_stop [demo_items ! 0] running_demo)"

lemmas life_defs = life_take_def life_begin_def started_def life_sub_finish_def life_sub_take_def join_stop_def join_life_init_def check_pendings_def
  sub_exhausted_def sub_failed_def

lemmas join_step_defs = root_finish_def sub_finish_def sub_take_def root_take_def join_init_def fresh_sub_def
  fresh_cursors_def initial_cursors_def process_enter_def process_exit_def demo_items_def new_item_def
  dset_def dpop_def commit_cursor_def in_flight_def has_pendings_def Let_def

lemma running_demo_run: "life_run 1 [demo_items ! 0] (\<lambda>_. [demo_items ! 1, demo_items ! 2]) running_demo"
proof -
  let ?r = "demo_items ! 0" and ?ys = "\<lambda>_ :: item. [demo_items ! 1, demo_items ! 2]"
  have 0: "life_run 1 [?r] ?ys (life_take ?r join_life_init)"
    by (rule life_next [OF life_start LTake [where rest = "[]"]]) (simp_all add: join_life_init_def join_init_def)
  have 1: "life_run 1 [?r] ?ys (life_begin (life_take ?r join_life_init))"
    by (rule life_next [OF 0 LBegin]) (simp_all add: life_defs join_step_defs)
  show ?thesis
    unfolding running_demo_def
    by (rule life_next [OF 1 LSubTake [where rest = "[demo_items ! 2]"]]) (simp_all add: life_defs join_step_defs)
qed

lemma stopped_demo_run: "life_run 1 [demo_items ! 0] (\<lambda>_. [demo_items ! 1, demo_items ! 2]) stopped_demo"
proof -
  have "life_run 1 [demo_items ! 0] (\<lambda>_. [demo_items ! 1, demo_items ! 2]) (join_stop [demo_items ! 0] running_demo)"
    by (rule life_next [OF running_demo_run LStop]) (simp_all add: running_demo_def life_defs join_step_defs)
  then show ?thesis
    unfolding stopped_demo_def
    by (rule life_next [OF _ LSubFinish]) (simp_all add: running_demo_def life_defs join_step_defs)
qed

lemma good_demo: "good_items [demo_items ! 0]" "\<forall>r \<in> set [demo_items ! 0]. good_items [demo_items ! 1, demo_items ! 2]"
  by (simp_all add: good_items_def demo_items_def new_item_def)

lemma join_life_refines_join_witness:
  "join_run [demo_items ! 0] (\<lambda>_. [demo_items ! 1, demo_items ! 2]) (jl_join running_demo)"
  by (rule join_life_refines_join [OF running_demo_run _ _ good_demo])
    (simp_all add: running_demo_def life_defs)

lemma stop_loses_sub_item:
  "demo_items ! 2 \<notin> sr_done (jn_subs (jl_join stopped_demo) (demo_items ! 0))" and
  "\<exists>m root'. multi_from_cursor (Some (multi_as_cursor (jn_multi (jl_join stopped_demo)))) = Some m \<and>
     sub_cursor_of (demo_items ! 0) m \<noteq> None \<and>
     from_cursor (mc_after m) (Some 100) = Some root' \<and>
     fst (run_items root' (items_after (cs_after root') [demo_items ! 0])) = []"
proof -
  let ?s = "jl_join stopped_demo"
  show "demo_items ! 2 \<notin> sr_done (jn_subs ?s (demo_items ! 0))"
    by (simp add: stopped_demo_def running_demo_def life_defs join_step_defs)
  have multi: "multi_inv stopped_demo" using life_run_multi [OF stopped_demo_run good_demo] .
  then have load: "multi_from_cursor (Some (multi_as_cursor (jn_multi ?s))) = Some (jn_multi ?s)"
    by (intro multi_round_trip) (simp add: multi_inv_def)
  have stopped: "jl_stopped stopped_demo" and taken: "started stopped_demo = [demo_items ! 0]"
    by (simp_all add: stopped_demo_def running_demo_def life_defs join_step_defs)
  have settled: "in_flight stopped_demo = []" by (rule stopped_is_settled [OF stopped_demo_run good_demo stopped])
  have root: "from_cursor (mc_after (jn_multi ?s)) (Some 100) =
      Some (initial_cursors (cs_after (jn_root ?s)) (sort (saved_partials (jn_root ?s))) (Some 100))" (is "_ = Some ?root")
    using multi settled taken from_cursor_as_cursor by (simp add: multi_inv_def)
  have "fst (run_items ?root (items_after (cs_after ?root) [demo_items ! 0])) = []"
    using settled_join_resumes_behind [OF stopped_demo_run good_demo settled _ load root] taken by auto
  moreover have "sub_cursor_of (demo_items ! 0) (jn_multi ?s) \<noteq> None"
  proof -
    let ?c = "as_cursor (process_exit (snd (process_enter fresh_cursors (demo_items ! 1))) (demo_items ! 1))"
    have "?c \<noteq> None"
      by (simp add: join_step_defs as_cursor_def as_dict_def saved_partials_def partials_cursors_def map_filter_simps)
    moreover have "\<exists>m. jn_multi ?s = sub_exit (demo_items ! 0) ?c m"
      by (rule exI, simp add: stopped_demo_def running_demo_def life_defs root_finish_def sub_finish_def sub_take_def root_take_def
          join_init_def fresh_sub_def Let_def)
    moreover have "struthy (it_cursor (demo_items ! 0))" by (simp add: demo_items_def new_item_def)
    ultimately show ?thesis using sub_cursor_sub_exit [of "demo_items ! 0" "demo_items ! 0"] by auto
  qed
  ultimately show "\<exists>m root'. multi_from_cursor (Some (multi_as_cursor (jn_multi ?s))) = Some m \<and>
     sub_cursor_of (demo_items ! 0) m \<noteq> None \<and> from_cursor (mc_after m) (Some 100) = Some root' \<and>
     fst (run_items root' (items_after (cs_after root') [demo_items ! 0])) = []"
    using load root by blast
qed

section \<open>Failing sub-inventories\<close>

text \<open>
  A sub-inventory that raises before its first item never sets its event: its root item stays in flight until the join is
  stopped, and with a \<open>root_concurrency\<close> of 1 no other root item is started.
\<close>

theorem failed_sub_inventory_blocks:
  assumes "life_run n xs ys l" and "good_items xs" and "\<forall>r \<in> set xs. good_items (ys r)"
    and "r \<in> set (in_flight l)" and "jl_end l r = SubFailed" and "sr_taken (jn_subs (jl_join l) r) = []"
    and "(life_step n xs ys)\<^sup>*\<^sup>* l l'" and "\<not> jl_stopped l'"
  shows "life_run n xs ys l' \<and> r \<in> set (in_flight l') \<and> jl_end l' r = SubFailed \<and>
    sr_taken (jn_subs (jl_join l') r) = [] \<and> (n = 1 \<longrightarrow> started l' = started l)"
  using assms(7,8)
proof (induction rule: rtranclp_induct)
  case base
  then show ?case using assms(1,4-6) by simp
next
  case (step l1 l2)
  have "\<not> jl_stopped l1"
    using step.hyps(2) step.prems by cases (auto simp: life_defs split: if_splits)
  with step.IH have IH: "life_run n xs ys l1" "r \<in> set (in_flight l1)" "jl_end l1 r = SubFailed"
    "sr_taken (jn_subs (jl_join l1) r) = []" "n = 1 \<longrightarrow> started l1 = started l" by blast+
  have "sub_ok (ys r) (jn_subs (jl_join l1) r) (jl_end l1 r) (jl_event l1 r) (r \<in> set (jn_taken (jl_join l1)))"
    using life_run_inv [OF IH(1) assms(2,3)] by (simp add: life_inv_def Let_def)
  then have ev: "\<not> jl_event l1 r" using IH(3,4) by (simp add: sub_ok_def)
  have busy: "0 < length (in_flight l1)" using IH(2) by auto
  have "life_run n xs ys l2" using IH(1) step.hyps(2) by (rule life_next)
  moreover from step.hyps(2) have "r \<in> set (in_flight l2) \<and> jl_end l2 r = SubFailed \<and>
      sr_taken (jn_subs (jl_join l2) r) = [] \<and> (n = 1 \<longrightarrow> started l2 = started l)"
  proof cases
    case (LTake r' rest)
    have "r' \<notin> set (jn_taken (jl_join l1))" using LTake(4) assms(2) by (auto simp: good_items_def distinct_map)
    with LTake IH(2) have "started l2 = started l1" and "r \<noteq> r'" by (auto simp: started_take in_flight_iff)
    with IH LTake show ?thesis by (auto simp: life_take_def root_take_def in_flight_iff)
  next
    case LBegin
    with IH busy show ?thesis by (auto simp: life_begin_def in_flight_iff)
  next
    case (LFinish r')
    with IH ev show ?thesis by (cases "r' = r") (auto simp: in_flight_iff started_def)
  next
    case (LStop order)
    with step.prems show ?thesis by (simp add: join_stop_def)
  qed (use IH in \<open>auto simp: life_defs sub_take_def sub_finish_def Let_def in_flight_iff split: if_splits\<close>)
  ultimately show ?case by blast
qed

text \<open>One that raises after its items so far are done lets its root item finish: the rest of its items is skipped, and the
  run that resumes does not yield the root item again.\<close>

lemma failed_sub_inventory_is_finished:
  assumes "\<not> jl_stopped l" and "r \<in> set (in_flight l)" and "jl_end l r = SubFailed" and "jl_event l r"
  shows "life_step n xs ys l (l\<lparr>jl_join := root_finish r (jl_join l)\<rparr>)"
  using assms by (intro LFinish) simp_all

text \<open>An error of the root inventory, or of building or opening a sub-inventory, ends the job as completed.\<close>

lemma failed_join_completes_job:
  "cl_errors (fst (join_iterate_end (Tasks_Group.Raised e))) = {0} \<and>
   join_job_end describe name now (Tasks_Group.Raised e) = [SetJobCompleted name now]"
  by (simp add: join_iterate_end_def join_job_end_def group_close_def group_init_def end_job_def)

end
