(* ===== verification/Fan_In.thy ===== *)
theory Fan_In
  imports Multi_Inventories Iter_Sched
begin

text \<open>
  \<open>FanIn\<close> and \<open>PriorityFanIn\<close> of \<open>worker/inventories/fanin.py\<close>: building their inputs, opening them, and the iteration that
  merges them. The cursor of a fan-in is in Multi_Inventories, the schedulers and the merge are in Iter_Sched.

  Building an inventory from its definition, opening it and what it yields from a cursor are arguments; an inventory is an
  opaque value. Iterators are numbered in the order of the inputs.
\<close>

section \<open>Construction\<close>

record 'i fan_in =
  fi_inputs :: "(string, 'i) pydict"
  fi_priority :: "int list option" \<comment> \<open>of a \<open>PriorityFanIn\<close>\<close>

fun build_inputs :: "(component_definition \<Rightarrow> 'i result) \<Rightarrow> component_definition list \<Rightarrow> (string, 'i) pydict \<Rightarrow> (string, 'i) pydict result" where
  "build_inputs build [] d = Inr d"
| "build_inputs build (c # cs) d = rbind (build c) (\<lambda>i. build_inputs build cs (dset (cd_name c) i d))"

definition fan_in_init :: "(component_definition \<Rightarrow> 'i result) \<Rightarrow> component_definition list \<Rightarrow> 'i fan_in result" where
  "fan_in_init build inputs =
     rbind (build_inputs build inputs []) (\<lambda>d. Inr \<lparr> fi_inputs = d, fi_priority = None \<rparr>)"

definition priority_fan_in_init ::
  "(component_definition \<Rightarrow> 'i result) \<Rightarrow> (int \<times> component_definition) list \<Rightarrow> 'i fan_in result" where
  "priority_fan_in_init build inputs =
     rbind (fan_in_init build (map snd inputs)) (\<lambda>f. Inr (f\<lparr>fi_priority := Some (map fst inputs)\<rparr>))"

fun open_inputs :: "('i \<Rightarrow> exn option) \<Rightarrow> (string, 'i) pydict \<Rightarrow> string list \<times> exn option" where
  "open_inputs opens [] = ([], None)"
| "open_inputs opens ((k, i) # d) =
     (case opens i of
        Some e \<Rightarrow> ([], Some e)
      | None \<Rightarrow> (case open_inputs opens d of (ks, e) \<Rightarrow> (k # ks, e)))"

section \<open>Iteration\<close>

text \<open>Each input is run from its own entry of the cursor.\<close>

definition input_iterators :: "('i \<Rightarrow> string option \<Rightarrow> 'm list) \<Rightarrow> string option \<Rightarrow> 'i fan_in \<Rightarrow> (string \<times> 'm list) list result" where
  "input_iterators run after f =
     mapM (\<lambda>(k, i). rbind (fanin_resume after k) (\<lambda>c. Inr (k, run i c))) (fi_inputs f)"

text \<open>\<open>make_scheduler\<close>: none for the plain merge; \<open>zip(strict=True)\<close> raises when the lengths differ.\<close>

definition make_scheduler :: "nat \<Rightarrow> 'i fan_in \<Rightarrow> credit_table option result" where
  "make_scheduler n f =
     (case fi_priority f of
        None \<Rightarrow> Inr None
      | Some ps \<Rightarrow>
          if length ps \<noteq> n then Inl (ValueError ''zip() argument lengths differ'')
          else Inr (Some (initial_credits (zip [0..<n] ps))))"

text \<open>What the merge yields, named and tagged.\<close>

definition fan_in_yields :: "(string \<times> item list) list \<Rightarrow> (nat \<times> item) list \<Rightarrow> item list" where
  "fan_in_yields its out = map (\<lambda>(n, i). fanin_tag (fst (its ! n)) i) out"

section \<open>Names\<close>

lemma build_inputs_keys:
  "build_inputs build cs d = Inr d' \<Longrightarrow> set (dkeys d') = set (dkeys d) \<union> cd_name ` set cs"
proof (induction cs arbitrary: d)
  case (Cons c cs)
  then obtain i where "build_inputs build cs (dset (cd_name c) i d) = Inr d'" by (auto simp: rbind_Inr_iff)
  from Cons.IH [OF this] show ?case by (simp add: set_dkeys_dset)
qed simp

lemma build_inputs_wfd: "build_inputs build cs d = Inr d' \<Longrightarrow> wfd d \<Longrightarrow> wfd d'"
  by (induction cs arbitrary: d) (auto simp: rbind_Inr_iff)

lemma build_inputs_distinct:
  "build_inputs build cs d = Inr d' \<Longrightarrow> distinct (map cd_name cs) \<Longrightarrow> set (dkeys d) \<inter> cd_name ` set cs = {} \<Longrightarrow>
   \<exists>is. mapM build cs = Inr is \<and> d' = d @ zip (map cd_name cs) is"
proof (induction cs arbitrary: d)
  case (Cons c cs)
  then obtain i where i: "build c = Inr i" "build_inputs build cs (dset (cd_name c) i d) = Inr d'"
    by (auto simp: rbind_Inr_iff)
  have new: "dset (cd_name c) i d = d @ [(cd_name c, i)]" using Cons.prems(3) by (intro dset_new) auto
  have "set (dkeys (dset (cd_name c) i d)) \<inter> cd_name ` set cs = {}"
    using Cons.prems(2,3) by (auto simp: new)
  with Cons.IH [OF i(2)] Cons.prems(2) obtain "is" where "mapM build cs = Inr is"
    "d' = dset (cd_name c) i d @ zip (map cd_name cs) is" by auto
  then show ?case using i(1) new by auto
qed simp

text \<open>With names of their own all inputs are there, in order.\<close>

lemma inputs_all_built:
  assumes "fan_in_init build cs = Inr f" and "distinct (map cd_name cs)"
  shows "\<exists>is. mapM build cs = Inr is \<and> fi_inputs f = zip (map cd_name cs) is"
  using assms build_inputs_distinct [of build cs "[]"] by (fastforce simp: fan_in_init_def rbind_Inr_iff)

lemma build_inputs_length:
  assumes "fan_in_init build cs = Inr f"
  shows "length (fi_inputs f) = card (cd_name ` set cs)"
proof -
  have built: "build_inputs build cs [] = Inr (fi_inputs f)" using assms by (auto simp: fan_in_init_def rbind_Inr_iff)
  then have "set (dkeys (fi_inputs f)) = cd_name ` set cs" and "wfd (fi_inputs f)"
    using build_inputs_keys [OF built] build_inputs_wfd [OF built] by (simp_all add: wfd_def)
  then show ?thesis by (metis distinct_card length_map wfd_def)
qed

text \<open>
  Two inputs of one name are one entry of the dict, the later definition: a fan-in drops the earlier input without a word,
  and a priority fan-in, which has kept both priorities, raises at every iteration.
\<close>

theorem priority_fan_in_needs_names:
  assumes "priority_fan_in_init build inputs = Inr f"
  shows "(\<exists>t. make_scheduler (length (fi_inputs f)) f = Inr t) \<longleftrightarrow> distinct (map (cd_name \<circ> snd) inputs)"
proof -
  obtain f0 where f0: "fan_in_init build (map snd inputs) = Inr f0" and f: "f = f0\<lparr>fi_priority := Some (map fst inputs)\<rparr>"
    using assms by (auto simp: priority_fan_in_init_def rbind_Inr_iff)
  have "length (fi_inputs f) = card (set (map (cd_name \<circ> snd) inputs))"
    using build_inputs_length [OF f0] by (simp add: f image_comp)
  moreover have "card (set (map (cd_name \<circ> snd) inputs)) = length inputs \<longleftrightarrow> distinct (map (cd_name \<circ> snd) inputs)"
    using card_distinct [of "map (cd_name \<circ> snd) inputs"] distinct_card [of "map (cd_name \<circ> snd) inputs"] by auto
  ultimately show ?thesis by (auto simp: make_scheduler_def f)
qed

lemma same_name_is_dropped:
  assumes "build c1 = Inr i1" and "build c2 = Inr i2" and "cd_name c1 = cd_name c2"
  shows "fan_in_init build [c1, c2] = Inr \<lparr> fi_inputs = [(cd_name c2, i2)], fi_priority = None \<rparr>"
  using assms by (simp add: fan_in_init_def dset_def)

section \<open>Resuming\<close>

text \<open>The inputs resume from the cursors they had: the fan-in's own cursor holds one for each.\<close>

lemma fan_in_resumes_inputs:
  assumes "wfd (fi_inputs f)"
  shows "input_iterators run (Some (fanin_cursor (map (\<lambda>(k, i). (k, cursor i)) (fi_inputs f)))) f =
    Inr (map (\<lambda>(k, i). (k, run i (cursor i))) (fi_inputs f))"
proof -
  let ?cs = "map (\<lambda>(k, i). (k, cursor i)) (fi_inputs f)"
  have wf: "wfd ?cs" using assms by (simp add: wfd_def comp_def case_prod_unfold)
  have "rbind (fanin_resume (Some (fanin_cursor ?cs)) k) (\<lambda>c. Inr (k, run i c)) = Inr (k, run i (cursor i))"
    if "(k, i) \<in> set (fi_inputs f)" for k i
    using fanin_round_trip [OF wf, of k "cursor i"] that by force
  then have "mapM (\<lambda>(k, i). rbind (fanin_resume (Some (fanin_cursor ?cs)) k) (\<lambda>c. Inr (k, run i c))) d =
      Inr (map (\<lambda>(k, i). (k, run i (cursor i))) d)" if "set d \<subseteq> set (fi_inputs f)" for d
    using that
  proof (induction d)
    case (Cons a d)
    then show ?case by (cases a) auto
  qed simp
  then show ?thesis by (simp add: input_iterators_def)
qed

text \<open>An item is tagged with the name of its input, unless it has such a tag already.\<close>

lemma yields_are_tagged:
  assumes "(n, i) \<in> set out"
  shows "\<exists>j \<in> set (fan_in_yields its out). dget (it_tags j) ''inventory.name'' =
    Some (dget_or (it_tags i) ''inventory.name'' (fst (its ! n)))"
proof -
  have "fanin_tag (fst (its ! n)) i \<in> set (fan_in_yields its out)"
    using assms by (force simp: fan_in_yields_def)
  moreover have "dget (it_tags (fanin_tag (fst (its ! n)) i)) ''inventory.name'' =
      Some (dget_or (it_tags i) ''inventory.name'' (fst (its ! n)))"
    by (simp add: fanin_tag_def dsetdefault_def dget_or_def dhas_iff_dget split: option.splits)
  ultimately show ?thesis by blast
qed

end
