(* ===== verification/Batching_Run.thy ===== *)
theory Batching_Run
  imports Topics
begin

text \<open>
  \<open>BatchingTopic.run\<close> of \<open>worker/topics/batching.py\<close> as a whole: the task of \<open>_read_topic\<close>, which moves the messages of
  the sub-topic to a bounded queue, the loop of \<open>_run_topic_task\<close>, which takes them from it into batches, and \<open>close\<close>.
  What the loop does with a message, a timeout or the end is \<open>bt_step\<close> of Topics.

  The two tasks are interleaved by an inductive step relation. A queue hands a message over when its reader is resumed,
  and \<open>asyncio.wait_for\<close> loses none of them; a loop that waits is resumed by a message or by the timeout only.
  The sub-topic's messages are an argument of its step; \<open>bw_read\<close> records them and is read by no operation.
\<close>

section \<open>State\<close>

record batching_world =
  bw_running :: bool \<comment> \<open>the task of \<open>_read_topic\<close> has not ended\<close>
  bw_hand :: "topic_message option" \<comment> \<open>the message it waits to put\<close>
  bw_queue :: "topic_message list"
  bw_force_done :: bool
  bw_waiting :: bool \<comment> \<open>the loop is in \<open>wait_for(self.queue.get())\<close>\<close>
  bw_topic :: batching_topic
  bw_closing :: bool
  bw_dropped :: "topic_message list"
  bw_read :: "topic_message list"

definition batching_run :: "nat \<Rightarrow> bool \<Rightarrow> batching_world" where
  "batching_run n fl =
     \<lparr> bw_running = True, bw_hand = None, bw_queue = [], bw_force_done = False, bw_waiting = False,
       bw_topic = bt_start n fl, bw_closing = False, bw_dropped = [], bw_read = [] \<rparr>"

text \<open>A queue of size 0 has no bound.\<close>

definition has_room :: "batching_world \<Rightarrow> bool" where
  "has_room w \<longleftrightarrow> bt_size (bw_topic w) = 0 \<or> length (bw_queue w) < bt_size (bw_topic w)"

section \<open>The reader\<close>

definition reader_reads :: "topic_message \<Rightarrow> batching_world \<Rightarrow> batching_world" where
  "reader_reads m w =
     (if has_room w then w\<lparr>bw_queue := bw_queue w @ [m], bw_read := bw_read w @ [m]\<rparr>
      else w\<lparr>bw_hand := Some m, bw_read := bw_read w @ [m]\<rparr>)"

definition reader_puts :: "topic_message \<Rightarrow> batching_world \<Rightarrow> batching_world" where
  "reader_puts m w = w\<lparr>bw_hand := None, bw_queue := bw_queue w @ [m]\<rparr>"

text \<open>The sub-topic is exhausted or raises, which is logged: \<open>finally\<close> sets \<open>force_done\<close> in both cases.\<close>

definition reader_ends :: "batching_world \<Rightarrow> batching_world" where
  "reader_ends w = w\<lparr>bw_running := False, bw_force_done := True\<rparr>"

text \<open>A cancelled reader drops the message it could not put.\<close>

definition reader_cancelled :: "batching_world \<Rightarrow> batching_world" where
  "reader_cancelled w =
     w\<lparr>bw_running := False, bw_force_done := True, bw_hand := None,
       bw_dropped := bw_dropped w @ (case bw_hand w of None \<Rightarrow> [] | Some m \<Rightarrow> [m])\<rparr>"

section \<open>The loop\<close>

definition take_message :: "batching_world \<Rightarrow> batching_world" where
  "take_message w =
     w\<lparr>bw_waiting := False, bw_queue := tl (bw_queue w), bw_topic := bt_step (BtMessage (hd (bw_queue w))) (bw_topic w)\<rparr>"

definition wait_timeout :: "batching_world \<Rightarrow> batching_world" where
  "wait_timeout w = w\<lparr>bw_waiting := False, bw_topic := bt_step BtTimeout (bw_topic w)\<rparr>"

text \<open>The head of the loop: its condition \<open>_is_done\<close>, then the queue.\<close>

definition loop_head :: "batching_world \<Rightarrow> batching_world" where
  "loop_head w =
     (if bw_force_done w \<and> bw_queue w = [] then w\<lparr>bw_topic := bt_step BtDone (bw_topic w)\<rparr>
      else if bw_queue w = [] then w\<lparr>bw_waiting := True\<rparr>
      else take_message w)"

text \<open>\<open>close\<close>: the flag at once; closing the sub-topic and the group of the reader's task follow.\<close>

definition batching_close :: "batching_world \<Rightarrow> batching_world" where
  "batching_close w = w\<lparr>bw_force_done := True, bw_closing := True\<rparr>"

section \<open>Steps\<close>

inductive bw_step :: "batching_world \<Rightarrow> batching_world \<Rightarrow> bool" where
  Reads: "\<lbrakk>bw_running w; bw_hand w = None\<rbrakk> \<Longrightarrow> bw_step w (reader_reads m w)"
| Puts: "\<lbrakk>bw_running w; bw_hand w = Some m; has_room w\<rbrakk> \<Longrightarrow> bw_step w (reader_puts m w)"
| Ends: "\<lbrakk>bw_running w; bw_hand w = None\<rbrakk> \<Longrightarrow> bw_step w (reader_ends w)"
| Cancelled: "\<lbrakk>bw_running w; bw_closing w\<rbrakk> \<Longrightarrow> bw_step w (reader_cancelled w)"
| Head: "\<lbrakk>\<not> bt_finished (bw_topic w); \<not> bw_waiting w\<rbrakk> \<Longrightarrow> bw_step w (loop_head w)"
| Got: "\<lbrakk>bw_waiting w; bw_queue w \<noteq> []\<rbrakk> \<Longrightarrow> bw_step w (take_message w)"
| Timeout: "bw_waiting w \<Longrightarrow> bw_step w (wait_timeout w)"
| Closes: "bw_step w (batching_close w)"

inductive_simps bw_step_iff: "bw_step w w'"

inductive bw_reachable :: "nat \<Rightarrow> bool \<Rightarrow> batching_world \<Rightarrow> bool" for n fl where
  bw_start: "bw_reachable n fl (batching_run n fl)"
| bw_next: "\<lbrakk>bw_reachable n fl w; bw_step w w'\<rbrakk> \<Longrightarrow> bw_reachable n fl w'"

lemmas bw_defs = reader_reads_def reader_puts_def reader_ends_def reader_cancelled_def take_message_def
  wait_timeout_def loop_head_def batching_close_def

section \<open>What the tasks keep\<close>

definition hand_list :: "batching_world \<Rightarrow> topic_message list" where
  "hand_list w = (case bw_hand w of None \<Rightarrow> [] | Some m \<Rightarrow> [m])"

definition bt_held :: "batching_topic \<Rightarrow> topic_message list" where
  "bt_held b = concat (bt_out b) @ bt_batch b"

lemma bt_held_step:
  "bt_held (bt_step e b) = bt_held b @ bt_accepted e b"
  using batching.step_conserves [of e b] by (simp add: bt_held_def)

lemma bt_size_step [simp]: "bt_size (bt_step e b) = bt_size b"
  by (cases e) (simp_all add: bt_flush_def Let_def)

lemma bt_flatten_step [simp]: "bt_flatten (bt_step e b) = bt_flatten b"
  by (cases e) (simp_all add: bt_flush_def Let_def)

lemma bt_finished_step [simp]: "bt_finished (bt_step e b) \<longleftrightarrow> bt_finished b \<or> e = BtDone"
  by (cases e) (auto simp: bt_flush_def Let_def)

declare bt_step.simps [simp del]

definition bw_inv :: "nat \<Rightarrow> batching_world \<Rightarrow> bool" where
  "bw_inv n w \<longleftrightarrow>
     bt_held (bw_topic w) @ bw_queue w @ hand_list w @ bw_dropped w = bw_read w \<and>
     bt_size (bw_topic w) = n \<and>
     (bw_dropped w \<noteq> [] \<longrightarrow> \<not> bw_running w \<and> bw_closing w) \<and> length (bw_dropped w) \<le> 1 \<and>
     (\<not> bw_running w \<longrightarrow> bw_hand w = None \<and> bw_force_done w) \<and>
     (bw_force_done w \<longrightarrow> \<not> bw_running w \<or> bw_closing w) \<and>
     (bw_waiting w \<longrightarrow> \<not> bt_finished (bw_topic w)) \<and>
     (0 < n \<longrightarrow> length (bw_queue w) \<le> n)"

lemma bw_inv_start: "bw_inv n (batching_run n fl)"
  by (simp add: bw_inv_def batching_run_def bt_start_def bt_held_def hand_list_def)

lemma bw_inv_take:
  assumes "bw_inv n w" and "bw_queue w \<noteq> []" and "\<not> bt_finished (bw_topic w)"
  shows "bw_inv n (take_message w)"
  using assms
  by (cases "bw_queue w") (auto simp: bw_inv_def take_message_def bt_held_step bt_accepted_def hand_list_def)

lemma bw_inv_step:
  assumes "bw_step w w'" and "bw_inv n w"
  shows "bw_inv n w'"
  using assms(1)
proof cases
  case (Reads m)
  then show ?thesis
    using assms(2) by (auto simp: bw_inv_def reader_reads_def has_room_def hand_list_def)
next
  case (Puts m)
  then show ?thesis
    using assms(2) by (auto simp: bw_inv_def reader_puts_def has_room_def hand_list_def)
next
  case Ends
  then show ?thesis using assms(2) by (auto simp: bw_inv_def reader_ends_def hand_list_def)
next
  case Cancelled
  then show ?thesis
    using assms(2) by (auto simp: bw_inv_def reader_cancelled_def hand_list_def split: option.splits)
next
  case Head
  then show ?thesis
    using assms(2) bw_inv_take [OF assms(2)]
    by (auto simp: bw_inv_def loop_head_def bt_held_step bt_accepted_def hand_list_def)
next
  case Got
  then show ?thesis using assms(2) bw_inv_take [OF assms(2)] by (simp add: bw_inv_def)
next
  case Timeout
  then show ?thesis using assms(2) by (auto simp: bw_inv_def wait_timeout_def bt_held_step bt_accepted_def hand_list_def)
next
  case Closes
  then show ?thesis using assms(2) by (auto simp: bw_inv_def batching_close_def hand_list_def)
qed

lemma bw_reachable_inv: "bw_reachable n fl w \<Longrightarrow> bw_inv n w"
  by (induction rule: bw_reachable.induct) (auto intro: bw_inv_start bw_inv_step)

text \<open>The batches are those of the events the loop has seen.\<close>

lemma bw_topic_inv_step:
  assumes "bw_step w w'" and "bt_inv n (bw_topic w)"
  shows "bt_inv n (bw_topic w')"
  using assms by cases (auto simp: bw_defs intro: bt_inv_step)

lemma bw_reachable_topic: "bw_reachable n fl w \<Longrightarrow> 0 < n \<Longrightarrow> bt_inv n (bw_topic w)"
proof (induction rule: bw_reachable.induct)
  case bw_start
  then show ?case by (simp add: batching_run_def bt_inv_def bt_start_def)
qed (auto intro: bw_topic_inv_step)

lemma bw_finished_step:
  assumes "bw_step w w'" and "bt_finished (bw_topic w) \<longrightarrow> bw_force_done w \<and> (bw_closing w \<or> bw_queue w = [] \<and> \<not> bw_running w)"
    and "bw_inv n w"
  shows "bt_finished (bw_topic w') \<longrightarrow> bw_force_done w' \<and> (bw_closing w' \<or> bw_queue w' = [] \<and> \<not> bw_running w')"
  using assms(1) by cases (use assms(2,3) in \<open>auto simp: bw_defs bw_inv_def split: if_splits\<close>)

lemma bw_reachable_finished:
  "bw_reachable n fl w \<Longrightarrow>
   bt_finished (bw_topic w) \<longrightarrow> bw_force_done w \<and> (bw_closing w \<or> bw_queue w = [] \<and> \<not> bw_running w)"
proof (induction rule: bw_reachable.induct)
  case bw_start
  show ?case by (simp add: batching_run_def bt_start_def)
next
  case (bw_next w w')
  then show ?case using bw_finished_step bw_reachable_inv by blast
qed

section \<open>The end of the run\<close>

text \<open>One step of the loop alone; with nothing to read it sleeps until the timeout.\<close>

definition consumer_step :: "batching_world \<Rightarrow> batching_world" where
  "consumer_step w =
     (if bt_finished (bw_topic w) then w
      else if \<not> bw_waiting w then loop_head w
      else if bw_queue w = [] then wait_timeout w
      else take_message w)"

lemma consumer_is_step: "consumer_step w = w \<or> bw_step w (consumer_step w)"
  unfolding consumer_step_def by (auto intro: Head Got Timeout)

lemma consumer_reachable: "bw_reachable n fl w \<Longrightarrow> bw_reachable n fl (consumer_step w)"
  using consumer_is_step [of w] by (auto intro: bw_next)

lemma consumer_run_reachable: "bw_reachable n fl w \<Longrightarrow> bw_reachable n fl ((consumer_step ^^ k) w)"
  by (induction k) (auto intro: consumer_reachable)

lemma consumer_keeps:
  "bw_running (consumer_step w) = bw_running w" "bw_force_done (consumer_step w) = bw_force_done w"
  "bw_hand (consumer_step w) = bw_hand w"
  "bw_dropped (consumer_step w) = bw_dropped w" "bw_read (consumer_step w) = bw_read w"
  by (simp_all add: consumer_step_def bw_defs)

lemma consumer_run_keeps:
  "bw_running ((consumer_step ^^ k) w) = bw_running w" "bw_force_done ((consumer_step ^^ k) w) = bw_force_done w"
  "bw_hand ((consumer_step ^^ k) w) = bw_hand w"
  "bw_dropped ((consumer_step ^^ k) w) = bw_dropped w" "bw_read ((consumer_step ^^ k) w) = bw_read w"
  by (induction k) (simp_all add: consumer_keeps)

definition steps_left :: "batching_world \<Rightarrow> nat" where
  "steps_left w =
     (if bt_finished (bw_topic w) then 0
      else length (bw_queue w) + (if bw_waiting w \<and> bw_queue w = [] then 2 else 1))"

lemma consumer_progress:
  "bw_force_done w \<Longrightarrow> 0 < steps_left w \<Longrightarrow> steps_left (consumer_step w) < steps_left w"
  by (cases "bw_queue w") (auto simp: steps_left_def consumer_step_def bw_defs split: if_splits)

lemma consumer_terminates:
  "bw_force_done w \<Longrightarrow> steps_left w \<le> k \<Longrightarrow> bt_finished (bw_topic ((consumer_step ^^ k) w))"
proof (induction k arbitrary: w)
  case 0
  then show ?case by (simp add: steps_left_def split: if_splits)
next
  case (Suc k)
  have "steps_left (consumer_step w) \<le> k"
  proof (cases "steps_left w = 0")
    case True
    then show ?thesis by (simp add: steps_left_def consumer_step_def split: if_splits)
  next
    case False
    then show ?thesis using consumer_progress [of w] Suc.prems by simp
  qed
  moreover have "bw_force_done (consumer_step w)" using Suc.prems by (simp add: consumer_keeps)
  ultimately show ?case using Suc.IH by (simp add: funpow_Suc_right del: funpow.simps)
qed

lemma finished_queue_empty_step:
  assumes "\<not> bw_running w" and "bt_finished (bw_topic w) \<longrightarrow> bw_queue w = []"
  shows "bt_finished (bw_topic (consumer_step w)) \<longrightarrow> bw_queue (consumer_step w) = []"
  using assms by (auto simp: consumer_step_def bw_defs)

lemma finished_queue_empty:
  "\<not> bw_running w \<Longrightarrow> bt_finished (bw_topic w) \<longrightarrow> bw_queue w = [] \<Longrightarrow>
   bt_finished (bw_topic ((consumer_step ^^ k) w)) \<longrightarrow> bw_queue ((consumer_step ^^ k) w) = []"
  by (induction k) (simp_all add: finished_queue_empty_step consumer_run_keeps)

text \<open>
  C26: a batching topic ends after its sub-topic: when the reader has ended, by itself or cancelled, and the loop has not, the
  loop finishes after at most as many steps as messages are queued and two more. It has then delivered, in order and in
  batches that are neither empty nor too large, every message the reader has put: all it has read, but the one it was
  holding when \<open>close\<close> cancelled it.
\<close>

theorem batching_run_drains:
  assumes "bw_reachable n fl w" and "0 < n" and "\<not> bw_running w" and "\<not> bt_finished (bw_topic w)"
    and "length (bw_queue w) + 2 \<le> k"
  shows "let b = bw_topic ((consumer_step ^^ k) w)
    in bt_finished b \<and> concat (bt_out b) @ bw_dropped w = bw_read w \<and> length (bw_dropped w) \<le> 1 \<and>
      (bw_dropped w \<noteq> [] \<longrightarrow> bw_closing w) \<and> (\<forall>x \<in> set (bt_out b). x \<noteq> [] \<and> length x \<le> n)"
proof -
  let ?w = "(consumer_step ^^ k) w"
  have inv: "bw_inv n w" and inv': "bw_inv n ?w" and topic: "bt_inv n (bw_topic ?w)"
    using assms(1,2) consumer_run_reachable bw_reachable_inv bw_reachable_topic by blast+
  have forced: "bw_force_done w" and hand: "bw_hand w = None"
    using inv assms(3) by (simp_all add: bw_inv_def)
  have fin: "bt_finished (bw_topic ?w)"
    using consumer_terminates [OF forced] assms(5) by (simp add: steps_left_def)
  have empty: "bw_queue ?w = []" using finished_queue_empty [OF assms(3), of k] assms(4) fin by simp
  show ?thesis
    using inv inv' topic fin empty hand by (simp add: Let_def bw_inv_def bt_inv_def bt_held_def hand_list_def consumer_run_keeps)
qed

lemma batching_run_drains_witness:
  "let a = new_topic_message ''a'' []; b = new_topic_message ''b'' []; c = new_topic_message ''c'' [];
       w = reader_ends (reader_reads c (take_message (reader_reads b (reader_reads a (batching_run 2 False)))))
   in bt_out (bw_topic ((consumer_step ^^ 4) w)) = [[a, b], [c]]"
proof -
  let ?a = "new_topic_message ''a'' []" and ?b = "new_topic_message ''b'' []" and ?c = "new_topic_message ''c'' []"
  let ?u = "reader_reads ?b (reader_reads ?a (batching_run 2 False))"
  let ?w = "reader_ends (reader_reads ?c (take_message ?u))"
  have head: "loop_head ?u = take_message ?u"
    by (simp add: loop_head_def reader_reads_def batching_run_def has_room_def bt_start_def)
  have "bw_reachable 2 False (reader_reads ?a (batching_run 2 False))"
    by (intro bw_next [OF bw_start] Reads) (simp_all add: batching_run_def)
  then have "bw_reachable 2 False ?u"
    by (rule bw_next [OF _ Reads]) (simp_all add: reader_reads_def batching_run_def has_room_def bt_start_def)
  then have "bw_reachable 2 False (take_message ?u)"
    using Head [of ?u] head bw_next by (simp add: reader_reads_def batching_run_def has_room_def bt_start_def)
  then have "bw_reachable 2 False (reader_reads ?c (take_message ?u))"
    by (rule bw_next [OF _ Reads]) (simp_all add: take_message_def reader_reads_def batching_run_def has_room_def bt_start_def)
  then have reach: "bw_reachable 2 False ?w"
    by (rule bw_next [OF _ Ends])
      (simp_all add: take_message_def reader_reads_def batching_run_def has_room_def bt_start_def)
  have "bw_running ?w = False" and "\<not> bt_finished (bw_topic ?w)" and "length (bw_queue ?w) + 2 \<le> 4"
    by (simp_all add: reader_ends_def take_message_def reader_reads_def batching_run_def has_room_def bt_start_def)
  then have "concat (bt_out (bw_topic ((consumer_step ^^ 4) ?w))) = [?a, ?b, ?c]"
    using batching_run_drains [OF reach, of 4]
    by (simp add: reader_ends_def take_message_def reader_reads_def batching_run_def has_room_def bt_start_def Let_def)
  moreover have "map length (bt_out (bw_topic ((consumer_step ^^ 4) ?w))) = [2, 1]"
    by (simp add: eval_nat_numeral consumer_step_def loop_head_def reader_ends_def take_message_def reader_reads_def
        batching_run_def has_room_def bt_start_def bt_step.simps bt_flush_def Let_def)
  ultimately show ?thesis
    by (auto simp: Let_def map_eq_Cons_conv length_Suc_conv numeral_2_eq_2)
qed

text \<open>While nobody closes the topic, what it has delivered when it is done is what its sub-topic gave.\<close>

lemma batching_run_exact:
  assumes "bw_reachable n fl w" and "0 < n" and "bt_finished (bw_topic w)" and "\<not> bw_closing w"
  shows "concat (bt_out (bw_topic w)) = bw_read w"
proof -
  have "bw_inv n w" and "bt_inv n (bw_topic w)" and "bw_queue w = [] \<and> \<not> bw_running w"
    using assms bw_reachable_inv bw_reachable_topic bw_reachable_finished by blast+
  then show ?thesis using assms(3,4) by (auto simp: bw_inv_def bt_inv_def bt_held_def hand_list_def)
qed

text \<open>The queue holds no more than a batch, so the sub-topic is read no further than that ahead of the deliveries.\<close>

lemma batching_run_ahead:
  assumes "bw_reachable n fl w" and "0 < n" and "bw_dropped w = []"
  shows "length (bw_read w) \<le> length (concat (bt_out (bw_topic w))) + (n - 1) + n + 1"
proof -
  have inv: "bw_inv n w" and topic: "bt_inv n (bw_topic w)"
    using assms bw_reachable_inv bw_reachable_topic by blast+
  have "length (bw_read w) = length (bt_held (bw_topic w) @ bw_queue w @ hand_list w)"
    using inv assms(3) by (simp add: bw_inv_def flip: append_assoc)
  moreover have "length (hand_list w) \<le> 1" by (simp add: hand_list_def split: option.split)
  moreover have "length (bw_queue w) \<le> n" and "length (bt_batch (bw_topic w)) < n"
    using inv topic assms(2) by (simp_all add: bw_inv_def bt_inv_def)
  ultimately show ?thesis by (simp add: bt_held_def)
qed

text \<open>
  A \<open>batch_size\<close> of 0 is accepted by the options. Without \<open>flatten\<close> such a topic reads its sub-topic without bound and
  delivers none of its messages: each flush yields the first 0 messages of the batch and drops none, so it yields empty
  batches.
\<close>

lemma bt_step_size_0:
  "bt_size b = 0 \<Longrightarrow> \<not> bt_flatten b \<Longrightarrow> concat (bt_out b) = [] \<Longrightarrow> concat (bt_out (bt_step e b)) = []"
  by (cases e) (simp_all add: bt_step.simps bt_flush_def Let_def)

lemma batch_size_zero_delivers_nothing:
  "bw_reachable 0 False w \<Longrightarrow> concat (bt_out (bw_topic w)) = [] \<and> bt_size (bw_topic w) = 0 \<and> \<not> bt_flatten (bw_topic w)"
proof (induction rule: bw_reachable.induct)
  case bw_start
  show ?case by (simp add: batching_run_def bt_start_def)
next
  case (bw_next w w')
  from bw_next.hyps(2) bw_next.IH show ?case
    by cases (simp_all add: bw_defs bt_step_size_0 del: concat_eq_Nil_conv)
qed

end
