(* ===== verification/Poll_Cancel.thy ===== *)
theory Poll_Cancel
  imports Prelude "HOL-Library.Multiset"
begin

text \<open>
  \<open>Cancellable\<close> of \<open>utils/asyncutils.py\<close>: a coroutine function whose running calls can all be cancelled at once. Its one use
  is \<open>ExecutorQueue.poll\<close> (\<open>worker/executors/queue.py\<close>), whose function is \<open>asyncio.Queue.get\<close>: the model runs the calls
  on such a queue.

  Each call awaits a task of its own. asyncio does nothing on the cancellation of a task that is done, and \<open>Queue.get\<close> either
  takes a message and returns it or raises and takes none. Calls are numbered; \<open>pl_put\<close> and \<open>pl_returned\<close> record what
  came in and what the callers got, and are read by no operation.
\<close>

section \<open>State\<close>

datatype 'm call_result = Got 'm | Cancelled_call

datatype 'm call_phase =
    Running_call
  | Cancelling_call \<comment> \<open>\<open>cancel\<close> was called on its task\<close>
  | Done_call "'m call_result" \<comment> \<open>the task is done, the caller not yet resumed\<close>

record 'm polls_state =
  pl_queue :: "'m list"
  pl_tasks :: "(nat \<times> 'm call_phase) list" \<comment> \<open>\<open>_tasks\<close>\<close>
  pl_next :: nat
  pl_put :: "'m list"
  pl_returned :: "(nat \<times> 'm call_result) list"

definition cancellable :: "'m polls_state" where
  "cancellable = \<lparr> pl_queue = [], pl_tasks = [], pl_next = 0, pl_put = [], pl_returned = [] \<rparr>"

section \<open>Operations\<close>

text \<open>\<open>__call__\<close> up to the await.\<close>

definition call_begin :: "'m polls_state \<Rightarrow> 'm polls_state" where
  "call_begin s = s\<lparr>pl_tasks := pl_tasks s @ [(pl_next s, Running_call)], pl_next := Suc (pl_next s)\<rparr>"

definition set_phase :: "nat \<Rightarrow> 'm call_phase \<Rightarrow> (nat \<times> 'm call_phase) list \<Rightarrow> (nat \<times> 'm call_phase) list" where
  "set_phase n p = map (\<lambda>(i, q). if i = n then (i, p) else (i, q))"

definition queue_got :: "nat \<Rightarrow> 'm polls_state \<Rightarrow> 'm polls_state" where
  "queue_got n s = s\<lparr>pl_queue := tl (pl_queue s), pl_tasks := set_phase n (Done_call (Got (hd (pl_queue s)))) (pl_tasks s)\<rparr>"

definition cancel_calls :: "'m polls_state \<Rightarrow> 'm polls_state" where
  "cancel_calls s =
     s\<lparr>pl_tasks := map (\<lambda>(i, p). (i, case p of Running_call \<Rightarrow> Cancelling_call | _ \<Rightarrow> p)) (pl_tasks s)\<rparr>"

definition call_cancelled :: "nat \<Rightarrow> 'm polls_state \<Rightarrow> 'm polls_state" where
  "call_cancelled n s = s\<lparr>pl_tasks := set_phase n (Done_call Cancelled_call) (pl_tasks s)\<rparr>"

text \<open>The caller is resumed: \<open>finally\<close> takes the task out of the set.\<close>

definition call_end :: "nat \<Rightarrow> 'm call_result \<Rightarrow> 'm polls_state \<Rightarrow> 'm polls_state" where
  "call_end n r s = s\<lparr>pl_tasks := filter (\<lambda>(i, _). i \<noteq> n) (pl_tasks s), pl_returned := pl_returned s @ [(n, r)]\<rparr>"

definition put_message :: "'m \<Rightarrow> 'm polls_state \<Rightarrow> 'm polls_state" where
  "put_message m s = s\<lparr>pl_queue := pl_queue s @ [m], pl_put := pl_put s @ [m]\<rparr>"

inductive pl_step :: "'m polls_state \<Rightarrow> 'm polls_state \<Rightarrow> bool" where
  P_call: "pl_step s (call_begin s)"
| P_put: "pl_step s (put_message m s)"
| P_got: "\<lbrakk>(n, Running_call) \<in> set (pl_tasks s); pl_queue s \<noteq> []\<rbrakk> \<Longrightarrow> pl_step s (queue_got n s)"
| P_cancel: "pl_step s (cancel_calls s)"
| P_cancelled: "(n, Cancelling_call) \<in> set (pl_tasks s) \<Longrightarrow> pl_step s (call_cancelled n s)"
| P_end: "(n, Done_call r) \<in> set (pl_tasks s) \<Longrightarrow> pl_step s (call_end n r s)"

inductive pl_reachable :: "'m polls_state \<Rightarrow> bool" where
  pl_start: "pl_reachable cancellable"
| pl_next: "\<lbrakk>pl_reachable s; pl_step s s'\<rbrakk> \<Longrightarrow> pl_reachable s'"

section \<open>Nothing is lost\<close>

fun result_messages :: "'m call_result \<Rightarrow> 'm list" where
  "result_messages (Got m) = [m]"
| "result_messages Cancelled_call = []"

fun phase_messages :: "'m call_phase \<Rightarrow> 'm list" where
  "phase_messages (Done_call r) = result_messages r"
| "phase_messages _ = []"

definition tasks_mset :: "(nat \<times> 'm call_phase) list \<Rightarrow> 'm multiset" where
  "tasks_mset ts = (\<Sum>(i, p) \<leftarrow> ts. mset (phase_messages p))"

definition returned_mset :: "(nat \<times> 'm call_result) list \<Rightarrow> 'm multiset" where
  "returned_mset rs = (\<Sum>(i, r) \<leftarrow> rs. mset (result_messages r))"

lemma tasks_mset_simps [simp]:
  "tasks_mset [] = {#}" "tasks_mset ((i, p) # ts) = mset (phase_messages p) + tasks_mset ts"
  "tasks_mset (ts @ ts') = tasks_mset ts + tasks_mset ts'"
  by (simp_all add: tasks_mset_def)

lemma set_phase_other: "n \<notin> fst ` set ts \<Longrightarrow> set_phase n p ts = ts"
  unfolding set_phase_def by (induction ts) auto

lemma filter_other: "n \<notin> fst ` set ts \<Longrightarrow> filter (\<lambda>(i, _). i \<noteq> n) ts = ts"
  by (induction ts) auto

lemma fst_set_phase [simp]: "map fst (set_phase n p ts) = map fst ts"
  by (induction ts) (auto simp: set_phase_def)

lemma ids_set_phase [simp]: "fst ` set (set_phase n p ts) = fst ` set ts"
  using fst_set_phase [of n p ts] by (metis list.set_map)

lemma tasks_mset_set_phase:
  "distinct (map fst ts) \<Longrightarrow> (n, q) \<in> set ts \<Longrightarrow>
   tasks_mset (set_phase n p ts) + mset (phase_messages q) = tasks_mset ts + mset (phase_messages p)"
proof (induction ts)
  case (Cons a ts)
  then show ?case
  proof (cases "fst a = n")
    case True
    then have "n \<notin> fst ` set ts" using Cons.prems by simp
    moreover from this have "a = (n, q)" using Cons.prems by force
    ultimately have "a = (n, q)" and "set_phase n p ts = ts" by (simp_all add: set_phase_other)
    then show ?thesis by (simp add: set_phase_def)
  qed (cases a, auto simp: set_phase_def)
qed simp

lemma tasks_mset_filter:
  "distinct (map fst ts) \<Longrightarrow> (n, q) \<in> set ts \<Longrightarrow>
   tasks_mset (filter (\<lambda>(i, _). i \<noteq> n) ts) + mset (phase_messages q) = tasks_mset ts"
proof (induction ts)
  case (Cons a ts)
  then show ?case
  proof (cases "fst a = n")
    case True
    then have "n \<notin> fst ` set ts" using Cons.prems by simp
    moreover from this have "a = (n, q)" using Cons.prems by force
    ultimately have "a = (n, q)" and "filter (\<lambda>(i, _). i \<noteq> n) ts = ts" by (simp_all add: filter_other)
    then show ?thesis by simp
  qed (cases a, auto)
qed simp

lemma tasks_mset_cancel:
  "tasks_mset (map (\<lambda>(i, p). (i, case p of Running_call \<Rightarrow> Cancelling_call | _ \<Rightarrow> p)) ts) = tasks_mset ts"
  by (induction ts) (auto split: call_phase.split)

definition pl_inv :: "'m polls_state \<Rightarrow> bool" where
  "pl_inv s \<longleftrightarrow>
     mset (pl_put s) = mset (pl_queue s) + tasks_mset (pl_tasks s) + returned_mset (pl_returned s) \<and>
     distinct (map fst (pl_tasks s)) \<and> (\<forall>i \<in> fst ` set (pl_tasks s). i < pl_next s)"

lemma pl_inv_step:
  assumes "pl_step s s'" and "pl_inv s"
  shows "pl_inv s'"
  using assms(1)
proof cases
  case P_call
  then show ?thesis using assms(2) by (auto simp: pl_inv_def call_begin_def)
next
  case (P_put m)
  then show ?thesis using assms(2) by (simp add: pl_inv_def put_message_def)
next
  case (P_got n)
  obtain m ms where q: "pl_queue s = m # ms" using P_got by (cases "pl_queue s") auto
  then show ?thesis
    using P_got assms(2) tasks_mset_set_phase [of "pl_tasks s" n Running_call "Done_call (Got m)"]
    by (simp add: pl_inv_def queue_got_def)
next
  case P_cancel
  have keep: "fst \<circ> (\<lambda>(i, p). (i, f p)) = fst" for f :: "'a call_phase \<Rightarrow> 'a call_phase"
    by (auto simp: fun_eq_iff)
  show ?thesis using P_cancel assms(2)
    by (simp add: pl_inv_def cancel_calls_def tasks_mset_cancel keep split_beta)
next
  case (P_cancelled n)
  show ?thesis
    using P_cancelled assms(2) tasks_mset_set_phase [of "pl_tasks s" n Cancelling_call "Done_call Cancelled_call"]
    by (simp add: pl_inv_def call_cancelled_def)
next
  case (P_end n r)
  have "distinct (map fst (filter P ts))" if "distinct (map fst ts)" for P and ts :: "(nat \<times> 'a call_phase) list"
    using that by (rule distinct_map_filter)
  then show ?thesis
    using P_end assms(2) tasks_mset_filter [of "pl_tasks s" n "Done_call r"]
    by (auto simp: pl_inv_def call_end_def returned_mset_def)
qed

lemma pl_reachable_inv: "pl_reachable s \<Longrightarrow> pl_inv s"
proof (induction rule: pl_reachable.induct)
  case pl_start
  show ?case by (simp add: pl_inv_def cancellable_def returned_mset_def)
qed (rule pl_inv_step)

text \<open>
  Cancelling the polls loses no message: each message put is in the queue, with a call that has taken it and not yet returned,
  or was returned to a caller, and this as often as it was put.
\<close>

theorem poll_cancel_loses_nothing:
  "pl_reachable s \<Longrightarrow>
   mset (pl_put s) = mset (pl_queue s) + tasks_mset (pl_tasks s) + returned_mset (pl_returned s)"
  by (drule pl_reachable_inv) (simp add: pl_inv_def)

section \<open>Nobody waits for ever\<close>

text \<open>The steps a call takes by itself: a cancelled one ends, a done one returns.\<close>

fun call_step :: "nat \<times> 'm call_phase \<Rightarrow> 'm polls_state \<Rightarrow> 'm polls_state" where
  "call_step (n, Running_call) s = s"
| "call_step (n, Cancelling_call) s = call_end n Cancelled_call (call_cancelled n s)"
| "call_step (n, Done_call r) s = call_end n r s"

definition settle_calls :: "'m polls_state \<Rightarrow> 'm polls_state" where
  "settle_calls s = fold call_step (pl_tasks s) s"

lemma filter_set_phase: "filter (\<lambda>(i, _). i \<noteq> n) (set_phase n p ts) = filter (\<lambda>(i, _). i \<noteq> n) ts"
  by (induction ts) (auto simp: set_phase_def)

lemma cancelled_calls_step:
  "\<forall>(i, p) \<in> set ts. p \<noteq> Running_call \<Longrightarrow>
   pl_tasks (fold call_step ts s) = filter (\<lambda>(i, _). i \<notin> fst ` set ts) (pl_tasks s) \<and>
   pl_queue (fold call_step ts s) = pl_queue s \<and>
   map fst (pl_returned (fold call_step ts s)) = map fst (pl_returned s) @ map fst ts"
proof (induction ts arbitrary: s)
  case (Cons a ts)
  obtain n p where a: "a = (n, p)" by (cases a)
  have one: "pl_tasks (call_step a s) = filter (\<lambda>(i, _). i \<noteq> n) (pl_tasks s)"
    "pl_queue (call_step a s) = pl_queue s" "map fst (pl_returned (call_step a s)) = map fst (pl_returned s) @ [n]"
    using Cons.prems a by (cases p; simp add: call_end_def call_cancelled_def filter_set_phase)+
  have "filter (\<lambda>(i, _). i \<notin> fst ` set ts) (filter (\<lambda>(i, _). i \<noteq> n) xs) = filter (\<lambda>(i, _). i \<notin> fst ` set (a # ts)) xs"
    for xs :: "(nat \<times> 'a call_phase) list"
    by (induction xs) (auto simp: a)
  then show ?case using Cons.IH [of "call_step a s"] Cons.prems one a by simp
qed simp

text \<open>
  After \<open>cancel\<close> every call that was running comes back by itself, without another message: with the message it had already
  taken, or with the cancellation. The queue is as it was.
\<close>

theorem cancel_ends_every_call:
  "pl_tasks (settle_calls (cancel_calls s)) = [] \<and>
   pl_queue (settle_calls (cancel_calls s)) = pl_queue s \<and>
   map fst (pl_returned (settle_calls (cancel_calls s))) = map fst (pl_returned s) @ map fst (pl_tasks s)"
proof -
  let ?ts = "pl_tasks (cancel_calls s)"
  have run: "\<forall>(i, p) \<in> set ?ts. p \<noteq> Running_call"
    by (auto simp: cancel_calls_def split: call_phase.splits)
  have ids: "map fst ?ts = map fst (pl_tasks s)"
    by (auto simp: cancel_calls_def split: prod.splits)
  have none: "filter (\<lambda>(i, _). i \<notin> fst ` set xs) xs = []" for xs :: "(nat \<times> 'a call_phase) list"
    by (force simp: filter_empty_conv)
  show ?thesis
    unfolding settle_calls_def using cancelled_calls_step [OF run, of "cancel_calls s"] ids none [of ?ts]
    by (simp add: cancel_calls_def)
qed

end
