(* ===== verification/Measures.thy ===== *)
theory Measures
  imports Observers Complex_Main
begin

text \<open>
  What the worker measures: the report of \<open>UsageMetrics.collect_usage_metrics\<close> (\<open>worker/services/usage_metrics.py\<close>) over the
  stages of Observers, and the \<open>Timer\<close> of \<open>utils/telemetry.py\<close> that measures durations.

  The attributes of an observation are a set of pairs, as the labels are. The clock of a timer is a real number of seconds;
  \<open>py_round\<close> is Python's \<open>round\<close>, ties to even, on it. Instruments are lists of what they have recorded.
\<close>

section \<open>Usage of all stages\<close>

definition stage_name :: "stage \<Rightarrow> string" where
  "stage_name sg =
     (case sg of Polling \<Rightarrow> ''polling'' | Scheduling \<Rightarrow> ''scheduling'' | Submitting \<Rightarrow> ''submitting''
      | Executing \<Rightarrow> ''executing'' | ProcessingResults \<Rightarrow> ''processing_results'' | Publishing \<Rightarrow> ''publishing''
      | WaitingPublish \<Rightarrow> ''waiting_publish'')"

definition report_order :: "stage list" where
  "report_order = [Polling, Scheduling, Submitting, Executing, ProcessingResults, Publishing, WaitingPublish]"

definition usage_attributes :: "stage \<Rightarrow> pipeline_name \<Rightarrow> (string \<times> string) set" where
  "usage_attributes sg n =
     {(''executor'', pn_executor n), (''pipeline'', pn_name n), (''state'', stage_name sg)}
     \<union> (\<lambda>(k, v). (''datalineup.job.labels.'' @ k, v)) ` pn_labels n"

type_synonym observation = "(string \<times> string) set \<times> (int \<times> int)"

text \<open>The generator ends at the first state that raises; the stages behind it are not collected.\<close>

fun collect_stages :: "stage list \<Rightarrow> time \<Rightarrow> time \<Rightarrow> stages \<Rightarrow> (observation list \<times> exn option) \<times> stages" where
  "collect_stages [] now t st = (([], None), st)"
| "collect_stages (sg # sgs) now t st =
     (case stage_collect now t (st sg) of
        ((us, Some e), ss) \<Rightarrow> ((map (\<lambda>(n, u). (usage_attributes sg n, u)) us, Some e), st(sg := ss))
      | ((us, None), ss) \<Rightarrow>
          (case collect_stages sgs now t (st(sg := ss)) of
             ((os, e), st') \<Rightarrow> ((map (\<lambda>(n, u). (usage_attributes sg n, u)) us @ os, e), st')))"

definition collect_usage_metrics :: "time \<Rightarrow> time \<Rightarrow> stages \<Rightarrow> (observation list \<times> exn option) \<times> stages" where
  "collect_usage_metrics now t st = collect_stages report_order now t st"

text \<open>No state was collected at \<open>now\<close>: the division is by something else than 0.\<close>

definition collectable :: "time \<Rightarrow> stage_state \<Rightarrow> bool" where
  "collectable now st \<longleftrightarrow> (\<forall>(n, ps) \<in> set st. us_collected ps \<noteq> now)"

definition state_usage :: "time \<Rightarrow> time \<Rightarrow> pipeline_state \<Rightarrow> int \<times> int" where
  "state_usage now t ps = (us_usage (usage_flush t ps), now - us_collected ps)"

lemma stage_collect_all:
  "collectable now st \<Longrightarrow>
   fst (stage_collect now t st) = (map (\<lambda>(n, ps). (n, state_usage now t ps)) st, None) \<and>
   map fst (snd (stage_collect now t st)) = map fst st"
proof (induction st)
  case (Cons a st)
  obtain n ps where a: "a = (n, ps)" by (cases a)
  with Cons.prems have "us_collected ps \<noteq> now" and "collectable now st" by (simp_all add: collectable_def)
  with Cons.IH show ?case
    by (auto simp: a usage_collect_def state_usage_def usage_flush_def Let_def split: prod.splits)
qed simp

definition stage_observations :: "time \<Rightarrow> time \<Rightarrow> stages \<Rightarrow> stage \<Rightarrow> observation list" where
  "stage_observations now t st sg = map (\<lambda>(n, ps). (usage_attributes sg n, state_usage now t ps)) (st sg)"

lemma collect_stages_all:
  "distinct sgs \<Longrightarrow> \<forall>sg \<in> set sgs. collectable now (st sg) \<Longrightarrow>
   fst (collect_stages sgs now t st) = (concat (map (stage_observations now t st) sgs), None)"
proof (induction sgs arbitrary: st)
  case (Cons sg sgs)
  obtain ss where c: "stage_collect now t (st sg) = ((map (\<lambda>(n, ps). (n, state_usage now t ps)) (st sg), None), ss)"
    using stage_collect_all [of now "st sg" t] Cons.prems(2) by (metis list.set_intros(1) prod.collapse)
  have same: "map (stage_observations now t (st(sg := ss))) sgs = map (stage_observations now t st) sgs"
    using Cons.prems(1) by (auto simp: stage_observations_def)
  have "fst (collect_stages sgs now t (st(sg := ss))) = (concat (map (stage_observations now t st) sgs), None)"
  proof -
    have "\<forall>s \<in> set sgs. collectable now ((st(sg := ss)) s)" using Cons.prems by auto
    from Cons.IH [OF _ this] Cons.prems(1) show ?thesis unfolding same by (simp del: fun_upd_apply)
  qed
  moreover have "stage_observations now t st sg = map (\<lambda>(n, u). (usage_attributes sg n, u)) (map (\<lambda>(n, ps). (n, state_usage now t ps)) (st sg))"
    by (simp add: stage_observations_def split_beta)
  ultimately show ?case using c by (auto split: prod.splits)
qed simp

text \<open>A collection reports every pipeline of every stage once.\<close>

lemma collection_is_complete:
  assumes "\<forall>sg. collectable now (st sg)"
  shows "fst (collect_usage_metrics now t st) = (concat (map (stage_observations now t st) report_order), None)"
  unfolding collect_usage_metrics_def
  using assms by (intro collect_stages_all) (simp_all add: report_order_def)

section \<open>Series\<close>

lemma stage_name_inj: "stage_name sg = stage_name sg' \<Longrightarrow> sg = sg'"
  by (cases sg; cases sg'; simp add: stage_name_def)

lemma label_keys: "''datalineup.job.labels.'' @ k \<noteq> ''executor''" "''datalineup.job.labels.'' @ k \<noteq> ''pipeline''"
  "''datalineup.job.labels.'' @ k \<noteq> ''state''"
  by simp_all

text \<open>The attributes name the stage and the pipeline, so no two series of a collection are taken for one another.\<close>

lemma usage_attributes_inj:
  assumes "usage_attributes sg n = usage_attributes sg' n'"
  shows "sg = sg' \<and> n = n'"
proof -
  let ?A = "usage_attributes sg n" and ?A' = "usage_attributes sg' n'"
  have one: "(''executor'', x) \<in> usage_attributes s m \<longleftrightarrow> x = pn_executor m"
    "(''pipeline'', x) \<in> usage_attributes s m \<longleftrightarrow> x = pn_name m"
    "(''state'', x) \<in> usage_attributes s m \<longleftrightarrow> x = stage_name s"
    "(''datalineup.job.labels.'' @ k, x) \<in> usage_attributes s m \<longleftrightarrow> (k, x) \<in> pn_labels m" for x s m k
    by (auto simp: usage_attributes_def)
  have "pn_executor n = pn_executor n'" using one(1) [of "pn_executor n" sg n] one(1) [of "pn_executor n" sg' n'] assms by simp
  moreover have "pn_name n = pn_name n'" using one(2) [of "pn_name n" sg n] one(2) [of "pn_name n" sg' n'] assms by simp
  moreover have "stage_name sg = stage_name sg'"
    using one(3) [of "stage_name sg" sg n] one(3) [of "stage_name sg" sg' n'] assms by simp
  moreover have "(k, x) \<in> pn_labels n \<longleftrightarrow> (k, x) \<in> pn_labels n'" for k x
    using one(4) [of k x sg n] one(4) [of k x sg' n'] assms by simp
  ultimately show ?thesis using stage_name_inj by (auto intro: pipeline_name.equality)
qed

lemma usage_attributes_eq: "usage_attributes sg n = usage_attributes sg' n' \<longleftrightarrow> sg = sg' \<and> n = n'"
  using usage_attributes_inj [of sg n sg' n'] by blast

lemma stage_attributes:
  "distinct (map fst st) \<Longrightarrow> distinct (map (\<lambda>(n, ps). usage_attributes sg n) st)"
  by (induction st) (auto simp: usage_attributes_eq image_iff)

theorem observations_are_distinct:
  assumes "\<forall>sg. collectable now (st sg)" and "\<forall>sg. distinct (map fst (st sg))"
  shows "distinct (map fst (fst (fst (collect_usage_metrics now t st))))"
proof -
  have stage: "distinct (map fst (stage_observations now t st sg))" for sg
    using stage_attributes [of "st sg" sg] assms(2) by (simp add: stage_observations_def case_prod_unfold comp_def)
  have apart: "set (map fst (stage_observations now t st sg)) \<inter> set (map fst (stage_observations now t st sg')) = {}"
    if "sg \<noteq> sg'" for sg sg'
    using that by (auto simp: stage_observations_def usage_attributes_eq)
  have "distinct (map fst (concat (map (stage_observations now t st) sgs)))" if "distinct sgs" for sgs
    using that
  proof (induction sgs)
    case (Cons sg sgs)
    have "set (map fst (stage_observations now t st sg)) \<inter>
        set (map fst (concat (map (stage_observations now t st) sgs))) = {}"
    proof -
      have "set (map fst (stage_observations now t st sg)) \<inter> set (map fst (stage_observations now t st s)) = {}"
        if "s \<in> set sgs" for s
        using apart [of sg s] that Cons.prems by auto
      then show ?thesis by auto
    qed
    then show ?case using Cons stage [of sg] by simp
  qed simp
  moreover have "distinct report_order" by (simp add: report_order_def)
  ultimately show ?thesis unfolding collection_is_complete [OF assms(1)] fst_conv by blast
qed

lemma observations_are_distinct_witness:
  "distinct (map fst (fst (fst (collect_usage_metrics 10 11
     (on_event MScheduled (2, 2, 3) \<lparr>pn_executor = ''default'', pn_labels = {(''team'', ''a'')}, pn_name = ''p''\<rparr> 0
       (on_event MPolled (0, 0, 1) \<lparr>pn_executor = ''default'', pn_labels = {(''team'', ''a'')}, pn_name = ''p''\<rparr> 0
         (\<lambda>_. [])))))))"
  by (rule observations_are_distinct)
    (simp_all add: push_to_def pop_from_def stage_push_def stage_pop_def dset_def collectable_def usage_add_def
      usage_pop_def usage_flush_def new_pipeline_state_def Let_def)

section \<open>Timers\<close>

definition py_round :: "real \<Rightarrow> int" where
  "py_round x =
     (let r = x - of_int \<lfloor>x\<rfloor>
      in if r < 1 / 2 then \<lfloor>x\<rfloor> else if r > 1 / 2 then \<lfloor>x\<rfloor> + 1 else if even \<lfloor>x\<rfloor> then \<lfloor>x\<rfloor> else \<lfloor>x\<rfloor> + 1)"

lemma py_round_near: "\<bar>of_int (py_round x) - x\<bar> \<le> 1 / 2"
  unfolding py_round_def Let_def by (auto simp: abs_if) linarith+

lemma py_round_mono: "0 \<le> x \<Longrightarrow> 0 \<le> py_round x"
  unfolding py_round_def Let_def by auto

record timer =
  tm_start :: "real option"
  tm_attributes :: "(string, string) pydict option"
  tm_recorded :: "(int \<times> (string, string) pydict option) list" \<comment> \<open>the histogram\<close>

definition get_timer :: timer where
  "get_timer = \<lparr> tm_start = None, tm_attributes = None, tm_recorded = [] \<rparr>"

text \<open>\<open>time\<close>: empty attributes are no attributes.\<close>

definition timer_time :: "(string, string) pydict option \<Rightarrow> timer \<Rightarrow> timer" where
  "timer_time attributes tm = tm\<lparr>tm_attributes := (if attributes = Some [] then None else attributes)\<rparr>"

definition timer_enter :: "real \<Rightarrow> timer \<Rightarrow> timer" where
  "timer_enter now tm = tm\<lparr>tm_start := Some now\<rparr>"

definition set_attributes :: "(string, string) pydict \<Rightarrow> timer \<Rightarrow> timer" where
  "set_attributes attributes tm =
     tm\<lparr>tm_attributes := Some (case tm_attributes tm of None \<Rightarrow> attributes | Some a \<Rightarrow> fold (\<lambda>(k, v). dset k v) attributes a)\<rparr>"

definition timer_exit :: "real \<Rightarrow> timer \<Rightarrow> timer result" where
  "timer_exit now tm =
     (case tm_start tm of
        None \<Rightarrow> Inl (ValueError ''Timer not started'')
      | Some start \<Rightarrow>
          Inr (tm\<lparr>tm_recorded := tm_recorded tm @ [(max (py_round ((now - start) * 1000)) 0, tm_attributes tm)]\<rparr>))"

text \<open>A measure is the time between entering and leaving, in milliseconds and within half of one; it is never negative.\<close>

lemma timer_measures:
  assumes "t \<le> t'"
  shows "\<exists>d. timer_exit t' (timer_enter t tm) = Inr ((timer_enter t tm)\<lparr>tm_recorded := tm_recorded tm @ [(d, tm_attributes tm)]\<rparr>) \<and>
    0 \<le> d \<and> \<bar>of_int d - (t' - t) * 1000\<bar> \<le> 1 / 2"
proof -
  have "0 \<le> py_round ((t' - t) * 1000)" using assms by (intro py_round_mono) simp
  then show ?thesis using py_round_near [of "(t' - t) * 1000"] 
    by (intro exI [of _ "py_round ((t' - t) * 1000)"]) (simp add: timer_exit_def timer_enter_def max_def)
qed

text \<open>
  A timer has one start: of two uses of the same timer, one inside the other, the outer one is measured from the start of
  the inner one.
\<close>

lemma nested_timer_is_cut:
  assumes "timer_exit t2 (timer_enter t1 (timer_enter t0 tm)) = Inr tm1"
  shows "timer_exit t3 tm1 =
    Inr (tm1\<lparr>tm_recorded := tm_recorded tm1 @ [(max (py_round ((t3 - t1) * 1000)) 0, tm_attributes tm)]\<rparr>)"
  using assms by (auto simp: timer_exit_def timer_enter_def)

end
