(* ===== verification/Entry_Points.thy ===== *)
theory Entry_Points
  imports Manager_Context Services_Manager Clients Tester_Runs
begin

text \<open>
  How the parts are started from outside: the manager's server (\<open>init_all\<close> and \<open>main\<close> of \<open>worker_manager/server.py\<close>), the
  manager embedded in a worker (\<open>StandaloneApiClient.open\<close> of \<open>worker/services/api_client.py\<close> and the constructor of
  \<open>StandaloneWorkerManagerClient\<close>), the clients (\<open>from_config\<close> and the thread of \<open>client/datalineup.py\<close>) and the commands of
  the tester (\<open>utils/tester/runner.py\<close>).

  Creating tables, opening a service, the first request of a client and the timing of its thread are arguments.
\<close>

section \<open>Starting the manager\<close>

text \<open>A database before its tables are created raises at the first query; \<open>create_all\<close> changes nothing when they exist.\<close>

record boot_state =
  bo_tables :: bool
  bo_manager :: manager_state

definition new_boot :: boot_state where
  "new_boot = \<lparr> bo_tables = False,
     bo_manager = \<lparr> ms_db = \<lparr> db_queues = [], db_jobs = [], db_cursors = [] \<rparr>, ms_patches = [], ms_definitions = None \<rparr> \<rparr>"

definition create_all :: "boot_state \<Rightarrow> boot_state" where
  "create_all b = b\<lparr>bo_tables := True\<rparr>"

definition on_tables :: "(manager_state \<Rightarrow> manager_state result) \<Rightarrow> boot_state \<Rightarrow> boot_state result" where
  "on_tables f b =
     (if bo_tables b then rbind (f (bo_manager b)) (\<lambda>m. Inr (b\<lparr>bo_manager := m\<rparr>))
      else Inl (PlainException ''OperationalError''))"

text \<open>\<open>init_all\<close>: both calls run in one transaction, which an error rolls back; the definitions were then not loaded either.\<close>

definition init_all ::
  "(topology_patch list \<Rightarrow> static_definitions result) \<Rightarrow> manager_env \<Rightarrow> bool \<Rightarrow> time \<Rightarrow> boot_state \<Rightarrow> boot_state result" where
  "init_all ld env locked now b =
     on_tables (\<lambda>m.
       rbind (load_context ld m) (\<lambda>m1.
       rbind (context_definitions m1) (\<lambda>sd.
       Inr (m1\<lparr>ms_db := sync_jobs (me_next_run env) locked sd now (ms_db m1)\<rparr>)))) (create_all b)"

text \<open>The constructor of the embedded manager loads the definitions, and its first sync loads them again.\<close>

definition embedded_manager ::
  "(topology_patch list \<Rightarrow> static_definitions result) \<Rightarrow> boot_state \<Rightarrow> boot_state result" where
  "embedded_manager ld = on_tables (load_context ld)"

definition standalone_open ::
  "(topology_patch list \<Rightarrow> static_definitions result) \<Rightarrow> manager_env \<Rightarrow> bool \<Rightarrow> time \<Rightarrow> boot_state \<Rightarrow> boot_state result" where
  "standalone_open ld env locked now b =
     rbind (embedded_manager ld (create_all b)) (on_tables (standalone_sync_jobs ld env locked now))"

text \<open>\<open>main\<close> serves requests only after \<open>init_all\<close>.\<close>

definition server_main ::
  "(boot_state \<Rightarrow> boot_state result) \<Rightarrow> (boot_state \<Rightarrow> 'r) \<Rightarrow> boot_state \<Rightarrow> 'r result" where
  "server_main init serve b = rbind (init b) (\<lambda>b'. Inr (serve b'))"

text \<open>A server and an embedded manager start in the same state, or fail with the same error.\<close>

theorem managers_start_alike:
  "standalone_open ld env locked now b = init_all ld env locked now b"
proof (cases "ld (ms_patches (bo_manager b))")
  case (Inl e)
  then show ?thesis
    by (simp add: standalone_open_def init_all_def embedded_manager_def on_tables_def create_all_def load_context_def)
next
  case (Inr sd)
  then show ?thesis
    by (simp add: standalone_open_def init_all_def embedded_manager_def on_tables_def create_all_def load_context_def
        standalone_sync_jobs_def context_definitions_def)
qed

text \<open>Starting is a sync: on the database it finds it does what a request to sync does, and it leaves tables and definitions.\<close>

lemma started_manager_has_synced:
  assumes "init_all ld env locked now b = Inr b'"
  shows "bo_tables b' \<and> ms_definitions (bo_manager b') \<noteq> None \<and>
    manager_run env (ms_db (bo_manager b)) [Synced now] (ms_db (bo_manager b'))"
  using assms
  by (auto simp: init_all_def on_tables_def create_all_def load_context_def context_definitions_def rbind_Inr_iff
      intro: sync_step)

text \<open>So no request is served before the definitions are there, and they are those of the stored patches.\<close>

lemma started_requests_have_definitions:
  assumes "init_all ld env locked now b = Inr b'"
  shows "\<exists>sd. context_definitions (bo_manager b') = Inr sd \<and> ld (ms_patches (bo_manager b)) = Inr sd"
  using assms by (auto simp: init_all_def on_tables_def create_all_def load_context_def context_definitions_def rbind_Inr_iff)

section \<open>Starting a client\<close>

text \<open>
  What is left of clients: the services that are open and the threads whose loop runs. \<open>opens\<close> says which services fail to
  open, \<open>load\<close> is the request for the topics.
\<close>

record client_world =
  cw_open :: "string list"
  cw_threads :: nat
  cw_instance :: "nat option"

definition client_from_config ::
  "(string \<Rightarrow> exn option) \<Rightarrow> component_definition list result \<Rightarrow> services_manager \<Rightarrow> client_world \<Rightarrow>
     't client_state result \<times> client_world" where
  "client_from_config opens load m w =
     (case open_services opens m of
        ((opened, Some e), _) \<Rightarrow> (Inl e, w\<lparr>cw_open := cw_open w @ opened\<rparr>)
      | ((opened, None), _) \<Rightarrow>
          (rbind load (\<lambda>items. Inr (client_init items)), w\<lparr>cw_open := cw_open w @ opened\<rparr>))"

text \<open>The constructor of the synchronous client: the thread first, then the client on its loop.\<close>

definition sync_client_init ::
  "bool \<Rightarrow> (client_world \<Rightarrow> 't client_state result \<times> client_world) \<Rightarrow> client_world \<Rightarrow> 't client_state result \<times> client_world" where
  "sync_client_init in_time from_config w =
     (let w1 = w\<lparr>cw_threads := Suc (cw_threads w)\<rparr>
      in if \<not> in_time then (Inl (RuntimeError ''Client intializing timed out''), w1) else from_config w1)"

definition shared_client ::
  "bool \<Rightarrow> (client_world \<Rightarrow> 't client_state result \<times> client_world) \<Rightarrow> client_world \<Rightarrow> unit result \<times> client_world" where
  "shared_client in_time from_config w =
     (case cw_instance w of
        Some _ \<Rightarrow> (Inr (), w)
      | None \<Rightarrow>
          (case sync_client_init in_time from_config w of
             (Inl e, w') \<Rightarrow> (Inl e, w')
           | (Inr _, w') \<Rightarrow> (Inr (), w'\<lparr>cw_instance := Some (cw_threads w)\<rparr>)))"

text \<open>
  Nothing undoes a start that fails: when the topics cannot be loaded, the services stay open and the thread runs on, and
  since no instance was recorded the next call leaves another set of them.
\<close>

lemma failed_clients_leak:
  fixes start :: "client_world \<Rightarrow> 't client_state result \<times> client_world"
  assumes start: "start = client_from_config opens (Inl e) m"
    and "cw_instance w = None" and "open_services opens m = ((opened, None), m')"
  shows "((\<lambda>w. snd (shared_client True start w)) ^^ n) w =
     w\<lparr>cw_threads := cw_threads w + n, cw_open := cw_open w @ concat (replicate n opened)\<rparr>"
proof (induction n)
  case (Suc n)
  have "concat (replicate n opened) @ opened = opened @ concat (replicate n opened)" by (induction n) simp_all
  then show ?case
    using Suc assms(2,3) by (simp add: start shared_client_def sync_client_init_def client_from_config_def Let_def)
qed simp

section \<open>Commands of the tester\<close>

datatype exit_status = Exits int | Traceback_exit exn

definition is_assertion :: "exn \<Rightarrow> bool" where
  "is_assertion e \<longleftrightarrow> (\<exists>s. e = PlainException s \<and> take 16 s = ''AssertionError: '')"

text \<open>\<open>run\<close>: an \<open>AssertionError\<close> is printed and the status is 1; any other error leaves the command as it is.\<close>

definition tester_run :: "(string list \<times> exn option) result \<Rightarrow> exit_status" where
  "tester_run r =
     (case r of
        Inr (_, None) \<Rightarrow> Exits 0
      | Inr (_, Some e) \<Rightarrow> if is_assertion e then Exits 1 else Traceback_exit e
      | Inl e \<Rightarrow> if is_assertion e then Exits 1 else Traceback_exit e)"

definition show_inventory ::
  "static_definitions result \<Rightarrow> (component_definition \<Rightarrow> string option \<Rightarrow> 'm list result) \<Rightarrow> string \<Rightarrow> int option \<Rightarrow> string option \<Rightarrow> 'm list result" where
  "show_inventory sd iterate name limit after =
     rbind sd (\<lambda>sd. run_datalineup_inventory sd iterate name (Some (case limit of None \<Rightarrow> 1 | Some n \<Rightarrow> n)) after)"

definition show_topic ::
  "static_definitions result \<Rightarrow> (component_definition \<Rightarrow> 'm list result) \<Rightarrow> string \<Rightarrow> nat option \<Rightarrow> nat option \<Rightarrow> 'm list result" where
  "show_topic sd messages name limit skip =
     rbind sd (\<lambda>sd. run_datalineup_topic sd messages name (Some (case limit of None \<Rightarrow> 1 | Some n \<Rightarrow> n))
       (Some (case skip of None \<Rightarrow> 0 | Some n \<Rightarrow> n)))"

text \<open>The command succeeds exactly when the files could be compiled and every test in them passes.\<close>

lemma tester_succeeds:
  "tester_run (run_tests_from_files compile_static load_files convert (\<lambda>sd. run_tests (p sd) (i sd) (t sd)) defs files) = Exits 0 \<longleftrightarrow>
   (\<exists>sd objs ts. compile_static defs = Inr sd \<and> load_files files = Inr objs \<and> compile_tests convert objs = Inr ts \<and>
     (\<forall>(n, x) \<in> set (ts_pipeline ts). p sd x = Inr ()) \<and> (\<forall>(n, x) \<in> set (ts_inventory ts). i sd x = Inr ()) \<and>
     (\<forall>(n, x) \<in> set (ts_topic ts). t sd x = Inr ()))"
proof -
  have ok: "tester_run r = Exits 0 \<longleftrightarrow> (\<exists>ns. r = Inr (ns, None))" for r
    by (cases r) (auto simp: tester_run_def split: option.splits if_splits)
  have run: "(\<exists>ns. run_tests (p sd) (i sd) (t sd) ts = (ns, None)) \<longleftrightarrow>
      (\<forall>(n, x) \<in> set (ts_pipeline ts). p sd x = Inr ()) \<and> (\<forall>(n, x) \<in> set (ts_inventory ts). i sd x = Inr ()) \<and>
      (\<forall>(n, x) \<in> set (ts_topic ts). t sd x = Inr ())" for sd ts
    unfolding run_tests_succeeds [symmetric] by (metis prod.collapse snd_conv)
  have "(\<exists>ns. run_tests_from_files compile_static load_files convert (\<lambda>sd. run_tests (p sd) (i sd) (t sd)) defs files = Inr (ns, None)) \<longleftrightarrow>
      (\<exists>sd objs ts. compile_static defs = Inr sd \<and> load_files files = Inr objs \<and> compile_tests convert objs = Inr ts \<and>
         (\<exists>ns. run_tests (p sd) (i sd) (t sd) ts = (ns, None)))"
    unfolding run_tests_from_files_def rbind_Inr_iff by fastforce
  then show ?thesis unfolding ok run .
qed

end
