(* ===== verification/Spec2Isabelle.thy ===== *)
theory Spec2Isabelle
  imports Lru Cursors Inventories Multi_Inventories Iter_Sched Hooks_Lib Traceback Error_Handling Topics
    Definitions Manager_Db Lock_Service Sync_Service Manager_Api Resources Work_Manager
    Job_State Flush_Service Task_Scheduler Job_Runner Pipeline Exec_Queue Queue_Closing Config_Layers
    Services_Manager Recovery Observers Arq_Executor Import_Names
    Hooks_Service Tasks_Group Thread_Cache Utils_Lib Traceback_Frames Cached_Property Manager_Context Clients
    Message_Logs Executor_Closing Queue_Stream Rabbit_Topic
    Paging Sentry_Reports Metrics_Backends Tester Provider_Polls Acquire_Many Submit_Errors
    Remote_Execution Arq_Connection Worker_Setup Broker_Life Http_Api Adapters
    Factory Tester_Runs Join_Life Fan_In Batching_Run Poll_Cancel Measures Entry_Points
begin
text \<open>
  The engine of \<open>src/src/datalineup_engine\<close>, a framework that runs data pipelines. All paths below are relative to
  that directory.

  \<^bold>\<open>The program.\<close> A \<^emph>\<open>worker manager\<close> (\<open>worker_manager/\<close>) compiles declarative definitions, keeps jobs and queues in a
  database and, at each \<open>/api/lock\<close> request, assigns queues with their resources to workers. A \<^emph>\<open>worker\<close>
  (\<open>worker/\<close>) asks for its queues (\<open>work_manager.py\<close>), builds inventories, topics, executors and resource
  providers from them (\<open>work_factory.py\<close>) and runs a scheduler per executor: it takes messages from the queues,
  waits for the resources a message needs, hands it to an executor, publishes the outputs and routes the errors.
  A job is a queue whose messages are the items of an inventory; its cursor, the record of the items done, goes
  through the worker's job store back to the database, and comes back with the next assignment.

  \<^bold>\<open>Theories, in the order of the code.\<close>

  \<^item> \<open>Prelude\<close>: exceptions, results as sums (\<open>rbind\<close>, \<open>mapM\<close>), Python dicts as association lists (\<open>dget\<close>, \<open>dset\<close>, \<open>dor\<close>)
    and Python values; \<open>Core_Types\<close>: the dataclasses of \<open>core/\<close>; \<open>Lru\<close>: \<open>utils/lru.py\<close>; \<open>Json\<close>: the part of
    \<open>json\<close> that cursors use, as a parser and printer with the locale \<open>json_codec\<close>.
  \<^item> Inventories. \<open>Cursors\<close>: \<open>CursorsState\<close> and \<open>Inventory.run\<close> of \<open>worker/inventory.py\<close>; \<open>Inventories\<close>: iteration
    by batches with the locale \<open>paged_inventory\<close>, and the inventories of \<open>worker/inventories/\<close>;
    \<open>Multi_Inventories\<close>: chained, fan-in and joined inventories; \<open>Join_Life\<close>: when a join takes its steps, its stop and the
    failures of its parts; \<open>Fan_In\<close>: building a fan-in and resuming its inputs; \<open>Iter_Sched\<close>: the merging of iterators in
    \<open>utils/iterators.py\<close>; \<open>Paging\<close>: inventories that page by the cursor of a sub-inventory, with the locale
    \<open>cursor_iterator\<close>.
  \<^item> Around a message. \<open>Hooks_Lib\<close>: \<open>utils/hooks.py\<close> and the handlers of \<open>worker/services/hooks.py\<close>; \<open>Traceback\<close>:
    \<open>utils/traceback_data.py\<close>; \<open>Error_Handling\<close>: \<open>worker/error_handling.py\<close>; \<open>Topics\<close>: \<open>worker/topics/\<close>, with the locale
    \<open>lossless_queue\<close>; \<open>Batching_Run\<close>: the two tasks of a batching topic; \<open>Observers\<close>: \<open>worker/context.py\<close> and the metrics of a message; \<open>Hooks_Service\<close>: how the hooks service
    reads its options and serves events; \<open>Traceback_Frames\<close>: the frames of a traceback; \<open>Rabbit_Topic\<close>:
    \<open>worker/topics/rabbitmq.py\<close>; \<open>Message_Logs\<close>: \<open>worker/services/loggers/\<close> and \<open>tracing/\<close>, what is reported of a message;
    \<open>Sentry_Reports\<close>, \<open>Metrics_Backends\<close>: what \<open>worker/services/extras/sentry.py\<close> and the metrics services send; \<open>Measures\<close>: the report of the usage of all stages
    and the timers of \<open>utils/telemetry.py\<close>.
  \<^item> The manager. \<open>Definitions\<close>: \<open>worker_manager/config/\<close>; \<open>Manager_Db\<close>: \<open>models/\<close> and \<open>stores/\<close>; \<open>Lock_Service\<close> and
    \<open>Sync_Service\<close>: \<open>worker_manager/services/\<close>; \<open>Manager_Api\<close>: the writing requests of \<open>worker_manager/api/\<close> as a
    step relation on the database; \<open>Manager_Context\<close>: \<open>worker_manager/context.py\<close>, the topologies, the stand-alone worker
    manager and the worker's API client; \<open>Clients\<close>: \<open>client/\<close>; \<open>Http_Api\<close>: every request of \<open>worker_manager/api/\<close> as it is
    served, with the errors of \<open>utils/flask.py\<close> and the transactions of \<open>database.py\<close>, which refines \<open>Manager_Api\<close>;
    \<open>Entry_Points\<close>: how the server, the embedded manager, the clients and the tester's commands start.
  \<^item> The worker. \<open>Resources\<close>: \<open>worker/resources/\<close>; \<open>Work_Manager\<close>: \<open>worker/work_factory.py\<close>, \<open>work_manager.py\<close>,
    \<open>broker.py\<close> and \<open>executors/manager.py\<close>; \<open>Services_Manager\<close>: \<open>worker/services/manager.py\<close>; \<open>Job_State\<close>,
    \<open>Flush_Service\<close>: \<open>worker/services/job_state/\<close>; \<open>Async_Utils\<close>: \<open>utils/asyncutils.py\<close>; \<open>Config_Layers\<close>: \<open>utils/config.py\<close>;
    \<open>Import_Names\<close>: \<open>utils/inspect.py\<close> and \<open>PipelineInfo\<close>; \<open>Provider_Polls\<close>: the providers over time; \<open>Acquire_Many\<close>:
    lending several resources to a message and getting them back; \<open>Tasks_Group\<close>,
    \<open>Queue_Stream\<close>: the task groups and the streams of \<open>utils/asyncutils.py\<close>; \<open>Poll_Cancel\<close>: its cancellable calls; \<open>Thread_Cache\<close>, \<open>Cached_Property\<close>,
    \<open>Utils_Lib\<close>: \<open>utils/cache.py\<close>, the cached properties and the small functions of \<open>utils/__init__.py\<close>; \<open>Factory\<close>: the
    rest of \<open>work_factory.py\<close>; \<open>Worker_Setup\<close>: \<open>default_config.py\<close>, the stand-alone configuration of \<open>worker/runner.py\<close> and
    logger names; \<open>Broker_Life\<close>: \<open>broker.py\<close> from the start to the end, under signals; \<open>Adapters\<close>: \<open>inventories/topic.py\<close>,
    \<open>topics/logger.py\<close>, \<open>BlockingTopic\<close> and \<open>services/databases.py\<close>.
  \<^item> Execution. \<open>Task_Scheduler\<close>: \<open>worker/executors/scheduler.py\<close>; \<open>Exec_Queue\<close>: \<open>worker/executors/queue.py\<close> and
    \<open>executable.py\<close>; \<open>Queue_Closing\<close>: the life of an \<open>ExecutableQueue\<close>; \<open>Executor_Closing\<close>: stopping an executor under load, and an
    error of its loop; \<open>Submit_Errors\<close>: what raises in a submission; \<open>Pipeline\<close>: the execution of a message with its
    resources; \<open>Arq_Executor\<close>, \<open>Arq_Connection\<close>: the remote executor, its heartbeat and its connection;
    \<open>Remote_Execution\<close>: \<open>executors/process.py\<close> and the remote side, with what crosses the boundary; \<open>Job_Runner\<close>: \<open>worker/job.py\<close>; \<open>Tester\<close>, \<open>Tester_Runs\<close>: \<open>utils/tester/\<close>,
    which compares a pipeline's outputs with the expected ones.
  \<^item> \<open>Recovery\<close> and this theory: the way of a cursor through all of them.

  \<^bold>\<open>How state and operations correspond.\<close> An object with state is a record with one field per attribute the code
  reads, a method is a function from the record to the record (and its result). Where the code awaits, the method is
  cut at the awaits and the pieces are the constructors of a step relation (\<open>buffer_step\<close>, \<open>xq_step\<close>, \<open>arq_step\<close>,
  \<open>manager_step\<close>) or of an event list that a fold runs (\<open>Async_Utils\<close>, \<open>Recovery\<close>), so a statement over all runs covers every
  interleaving. Python exceptions are \<open>Inl\<close>, a dict keeps its insertion order, integers are unbounded as in Python, and time
  is a number in the unit of the code.

  \<^bold>\<open>What the lemmas show.\<close> For each component: the invariant of its state and that every operation keeps it; what
  each operation returns on every branch; and what the component promises. The promises that other components rest on are locales
  (\<open>paged_inventory\<close>: a batched inventory returns the tail after a cursor; \<open>lossless_queue\<close>: what goes in comes
  out; \<open>json_codec\<close>: loading undoes dumping; \<open>cursor_carrier\<close>: a later stage of the way of a cursor holds a
  cursor of the job), interpreted on the model's operations. The theorem of this theory composes the cursor state, the job, the
  store, the flush and the database. Lemmas about defects of the code are listed in the
  manifest as findings; they evaluate the model on the input that shows the defect.

  \<^bold>\<open>Bounds and fuel.\<close> Loops that follow the data are structural. Iterating a batched inventory and parsing JSON take fuel;
  lemmas show that the number of items, or the length of the text, is enough and that the result does not change with more.
  Loops that need not end (\<open>missing_service_hangs\<close>, \<open>consume_spins\<close>) are \<open>partial_function (option)\<close>, and the
  divergence is proved. \<open>import_from\<close> and the schedulers end by a measure.

  \<^bold>\<open>Parameters.\<close> The order of rows of a database query, regular expressions, cron schedules, the AMQP and redis clients'
  answers, the limiter library, reading environment variables, importing modules, \<open>inspect.signature\<close> and what a user's
  pipeline, service or inventory does are arguments of the definitions that use them.

  \<^bold>\<open>Not modelled.\<close> The set-up of the logging and sentry libraries and the statsd client: what is given to them is
  modelled, what they do with it is not in the repository. The application object of flask and the making of SQL engines: requests
  are modelled from the decoded path and body on. The start of the event loop, the reading of YAML files, and the printing of
  differences in the tester.
\<close>

section \<open>A job survives its worker\<close>

text \<open>
  C1: a crash anywhere loses no item. A job runs from the cursor its queue was assigned with, its
  cursors go through the worker's store and flushes (refused, lost or answered) into the manager's
  database, and the worker stops at any point. Whatever of this has happened, the cursor the queue
  is next assigned with loads, and the job resumed from it gets every item that had not finished,
  except those the first assignment already knew to be done.
\<close>

theorem crash_recovery:
  assumes row: "job_of_queue q d0 = Some j"
    and run: "job_run (queue_cursor j) mp s0 E F s C" and saved: "saved_only (jr_name j) (set C) evs"
    and next_lock: "join_definitions sd (after_requests evs d0) q = Inr item"
    and xs: "distinct (map it_cursor xs)" "\<forall>i \<in> set xs. struthy (it_cursor i)"
    and ys: "items_after (cs_after s0) xs = E @ rest"
    and i: "i \<in> set (E @ rest)" "i \<notin> F" "\<not> is_partial (cs_partials s0) i"
  shows "\<exists>s'. from_cursor (qs_cursor (qi_state item)) mp' = Some s' \<and>
    i \<in> set (fst (run_items s' (items_after (cs_after s') xs)))"
proof -
  have c: "earlier_cursor (queue_cursor j) s0 E F (qs_cursor (qi_state item))"
    by (rule saved_cursors_earlier [OF run assigned_cursor_saved [OF row run saved next_lock]])
  obtain s' where s': "from_cursor (qs_cursor (qi_state item)) mp' = Some s'"
    using earlier_cursor_loads [OF c job_run_start [OF run]] by blast
  from earlier_cursor_safe [OF c job_run_start [OF run] xs ys s' i] s' show ?thesis by blast
qed

lemma crash_recovery_witness:
  "\<exists>c item s'. job_of_queue ''j'' demo_db = Some (demo_job ''j'') \<and>
     join_definitions demo_sd (after_requests (demo_lost_flush c) demo_db) ''j'' = Inr item \<and>
     from_cursor (qs_cursor (qi_state item)) None = Some s' \<and>
     demo_items ! 0 \<in> set (fst (run_items s' (items_after (cs_after s') demo_items)))"
proof -
  let ?c = "dumps (PDict [(''v'', PInt 1), (''p'', PList [PStr ''1''])])"
  have row: "job_of_queue ''j'' demo_db = Some (demo_job ''j'')"
    by (simp add: job_of_queue_def demo_db_def demo_job_def)
  have "queue_cursor (demo_job ''j'') = None"
    by (simp add: queue_cursor_def queue_item_state_of_def demo_job_def)
  then have run: "job_run (queue_cursor (demo_job ''j'')) (Some 100) (initial_cursors None [] (Some 100))
      [demo_items ! 0, demo_items ! 1] {demo_items ! 1}
      (process_exit (snd (process_enter (snd (process_enter (initial_cursors None [] (Some 100)) (demo_items ! 0))) (demo_items ! 1))) (demo_items ! 1))
      [None, Some ?c]"
    using demo_job_run by simp
  have saved: "saved_only (jr_name (demo_job ''j'')) (set [None, Some ?c]) (demo_lost_flush ?c)"
    by (simp add: saved_only_def demo_lost_flush_def)
  obtain item where lock: "join_definitions demo_sd (after_requests (demo_lost_flush ?c) demo_db) ''j'' = Inr item"
    using demo_recovered by blast
  have xs: "distinct (map it_cursor demo_items)" "\<forall>i \<in> set demo_items. struthy (it_cursor i)"
    using demo_hyps(4,5) .
  have "items_after (cs_after (initial_cursors None [] (Some 100))) demo_items
      = [demo_items ! 0, demo_items ! 1] @ [demo_items ! 2]"
    by (simp add: demo_items_def new_item_def items_after_def initial_cursors_def)
  from crash_recovery [OF row run saved lock xs this, of "demo_items ! 0" None] lock row show ?thesis
    by (auto simp: demo_items_def new_item_def is_partial_def initial_cursors_def)
qed



end
